(* ===== verification/VQ_Prelude.thy ===== *)
theory VQ_Prelude
  imports Complex_Main "HOL-Library.List_Lexorder" "HOL-Library.Char_ord"
    "HOL-Library.Product_Lexorder" "HOL-Library.AList" "HOL-Library.Multiset"
begin

text \<open>
  Shared vocabulary of the development.

  \<^item> \<open>pyfloat\<close>: a Python number used as a time or a duration. A finite value is an exact
    rational; \<open>NonFin\<close> stands for the infinities and NaN, which the code only ever tests
    with \<open>math.isfinite\<close>. Rounding of float arithmetic is not modelled.
  \<^item> \<open>pyval\<close>: a decoded JSON value (what \<open>json.loads\<close> returns); objects keep
    their key order.
  \<^item> \<open>rbind\<close>: the sum-type bind for code that may raise (\<open>Inl\<close> is the exception).
  \<^item> String helpers for the parts of \<open>str\<close> the code uses. A \<open>string\<close> is a list of
    code points below 256.
  \<^item> Lemmas on sums over lists, association lists and sorting that several components use.
\<close>

section \<open>Collections of facts\<close>

named_theorems store_simps \<open>how the store operations look up and update records\<close>
named_theorems inv_intros \<open>operations that keep a component's invariant\<close>

section \<open>Numbers and values\<close>

datatype pyfloat = Fin rat | NonFin

fun is_finite :: "pyfloat \<Rightarrow> bool" where
  "is_finite (Fin _) = True"
| "is_finite NonFin = False"

datatype pyval =
    PyNone
  | PyBool bool
  | PyInt int
  | PyFloat pyfloat
  | PyStr string
  | PyList "pyval list"
  | PyDict "(string \<times> pyval) list"

section \<open>Results\<close>

fun rbind :: "'e + 'a \<Rightarrow> ('a \<Rightarrow> 'e + 'b) \<Rightarrow> 'e + 'b" where
  "rbind (Inl e) f = Inl e"
| "rbind (Inr x) f = f x"

lemma rbind_Inr_iff [simp]: "rbind m f = Inr y \<longleftrightarrow> (\<exists>x. m = Inr x \<and> f x = Inr y)"
  by (cases m) auto

lemma rbind_Inl_iff [simp]: "rbind m f = Inl e \<longleftrightarrow> m = Inl e \<or> (\<exists>x. m = Inr x \<and> f x = Inl e)"
  by (cases m) auto

lemma recode_Inr_iff [simp]: "(case m of Inl x \<Rightarrow> Inl (f x) | Inr y \<Rightarrow> Inr y) = Inr z \<longleftrightarrow> m = Inr z"
  by (cases m) auto

lemma recode_Inr_iff' [simp]: "(case m of Inr y \<Rightarrow> Inr y | Inl x \<Rightarrow> Inl e) = Inr z \<longleftrightarrow> m = Inr z"
  by (cases m) auto

definition the_or :: "'a \<Rightarrow> 'a option \<Rightarrow> 'a" where
  "the_or d m = (case m of None \<Rightarrow> d | Some x \<Rightarrow> x)"

lemma the_or_simps [simp]: "the_or d None = d" "the_or d (Some x) = x"
  by (simp_all add: the_or_def)

section \<open>Strings\<close>

definition py_space :: "char \<Rightarrow> bool" where
  "py_space c \<longleftrightarrow> (let n = (of_char c :: nat) in
     9 \<le> n \<and> n \<le> 13 \<or> 28 \<le> n \<and> n \<le> 32 \<or> n = 133 \<or> n = 160)"

definition py_strip :: "string \<Rightarrow> string" where
  "py_strip s = rev (dropWhile py_space (rev (dropWhile py_space s)))"

definition starts_with :: "string \<Rightarrow> string \<Rightarrow> bool" where
  "starts_with p s \<longleftrightarrow> take (length p) s = p"

definition ends_with :: "string \<Rightarrow> string \<Rightarrow> bool" where
  "ends_with p s \<longleftrightarrow> length p \<le> length s \<and> drop (length s - length p) s = p"

definition is_digit :: "char \<Rightarrow> bool" where
  "is_digit c \<longleftrightarrow> 48 \<le> (of_char c :: nat) \<and> (of_char c :: nat) \<le> 57"

definition is_alpha :: "char \<Rightarrow> bool" where
  "is_alpha c \<longleftrightarrow> (let n = (of_char c :: nat) in 65 \<le> n \<and> n \<le> 90 \<or> 97 \<le> n \<and> n \<le> 122)"

definition is_alnum :: "char \<Rightarrow> bool" where
  "is_alnum c \<longleftrightarrow> is_alpha c \<or> is_digit c"

definition is_lower_hex :: "char \<Rightarrow> bool" where
  "is_lower_hex c \<longleftrightarrow> (let n = (of_char c :: nat) in 48 \<le> n \<and> n \<le> 57 \<or> 97 \<le> n \<and> n \<le> 102)"

definition is_hex :: "char \<Rightarrow> bool" where
  "is_hex c \<longleftrightarrow> is_lower_hex c \<or> (let n = (of_char c :: nat) in 65 \<le> n \<and> n \<le> 70)"

definition digit_char :: "nat \<Rightarrow> char" where
  "digit_char n = char_of (48 + n)"

fun show_nat :: "nat \<Rightarrow> string" where
  "show_nat n = (if n < 10 then [digit_char n] else show_nat (n div 10) @ [digit_char (n mod 10)])"

declare show_nat.simps [simp del]

definition show_int :: "int \<Rightarrow> string" where
  "show_int z = (if z < 0 then CHR ''-'' # show_nat (nat (- z)) else show_nat (nat z))"

definition read_nat :: "string \<Rightarrow> nat" where
  "read_nat s = foldl (\<lambda>a c. 10 * a + (of_char c - 48)) 0 s"

lemma digit_char_code [simp]: "n < 10 \<Longrightarrow> (of_char (digit_char n) :: nat) = 48 + n"
  by (simp add: digit_char_def take_bit_nat_eq_self)

lemma is_digit_digit_char [simp]: "n < 10 \<Longrightarrow> is_digit (digit_char n)"
  by (simp add: is_digit_def)

lemma show_nat_digits: "list_all is_digit (show_nat n) \<and> show_nat n \<noteq> []"
proof (induction n rule: show_nat.induct)
  case (1 n)
  then show ?case by (subst (1 2) show_nat.simps) auto
qed

lemma read_nat_show [simp]: "read_nat (show_nat n) = n"
proof (induction n rule: show_nat.induct)
  case (1 n)
  show ?case
  proof (cases "n < 10")
    case True
    then show ?thesis by (subst show_nat.simps) (simp add: read_nat_def)
  next
    case False
    then show ?thesis using 1 by (subst show_nat.simps) (simp add: read_nat_def)
  qed
qed

lemma show_nat_inject [simp]: "show_nat m = show_nat n \<longleftrightarrow> m = n"
  by (metis read_nat_show)

lemma show_nat_no_minus: "CHR ''-'' \<notin> set (show_nat n)"
  using show_nat_digits [of n] by (auto simp: list_all_iff is_digit_def)

lemma show_int_inject [simp]: "show_int a = show_int b \<longleftrightarrow> a = b"
proof -
  have "CHR ''-'' # show_nat m \<noteq> show_nat n" for m n
    using show_nat_no_minus [of n] by (metis list.set_intros(1))
  moreover from this have "show_nat n \<noteq> CHR ''-'' # show_nat m" for m n by metis
  ultimately show ?thesis by (auto simp: show_int_def)
qed

lemma show_int_no_space: "CHR '' '' \<notin> set (show_int z)"
  using show_nat_digits by (auto simp: show_int_def list_all_iff is_digit_def) fastforce+

lemma starts_with_append [simp]: "starts_with p (p @ s)"
  by (simp add: starts_with_def)

lemma ends_with_append [simp]: "ends_with p (s @ p)"
  by (simp add: ends_with_def)

text \<open>Python rounds half to even.\<close>

definition round_even :: "rat \<Rightarrow> int" where
  "round_even x = (let n = \<lfloor>x\<rfloor>; r = x - of_int n in if r < 1 / 2 \<or> r = 1 / 2 \<and> even n then n else n + 1)"

section \<open>Sums over lists and association lists\<close>

lemma sum_list_map_filter_split:
  "sum_list (map f (filter P xs)) + sum_list (map f (filter (\<lambda>x. \<not> P x) xs))
     = (sum_list (map f xs) :: int)"
  by (induction xs) auto

lemma sum_list_nonneg_int: "(\<And>x. x \<in> set xs \<Longrightarrow> 0 \<le> f x) \<Longrightarrow> 0 \<le> (sum_list (map f xs) :: int)"
  by (induction xs) auto

lemma map_of_update [store_simps]: "map_of (AList.update k v al) = (map_of al)(k \<mapsto> v)"
  by (simp add: update_conv')

lemma sort_key_Nil_iff [simp]: "sort_key f xs = [] \<longleftrightarrow> xs = []"
  by (metis length_0_conv length_sort)

end
