(* ===== verification/Job_Spec.thy ===== *)
theory Job_Spec
  imports VQ_Prelude
begin

text \<open>
  The job record, \<open>spec.py\<close>: the states and their classes, the record with every field, the field validators, the destination name and the exit code text.

  An ISO-8601 timestamp the daemon compares with a clock is an \<open>iso_stamp\<close>: what
  \<open>datetime.fromisoformat\<close> makes of the string, in microseconds. Timestamps that are only
  stored or sorted stay strings. Times in \<open>paused_*\<close> fields are seconds.
\<close>

section \<open>States\<close>

datatype job_state =
    PENDING | SUBMITTING | SUBMIT_OUTCOME_UNKNOWN | RUNNING | SUSPENDED
  | COMPLETED | FAILED | KILLED | INTERRUPTED
  | OOM_KILLED | STARVED | TIME_EXCEEDED | ABORTED_BY_QUEUE

definition TERMINAL_STATES :: "job_state set" where
  "TERMINAL_STATES = {COMPLETED, FAILED, KILLED, INTERRUPTED, OOM_KILLED, STARVED, TIME_EXCEEDED,
     ABORTED_BY_QUEUE}"

definition WATCHDOG_TERMINAL_STATES :: "job_state set" where
  "WATCHDOG_TERMINAL_STATES = {OOM_KILLED, STARVED, TIME_EXCEEDED}"

fun state_value :: "job_state \<Rightarrow> string" where
  "state_value PENDING = ''pending''"
| "state_value SUBMITTING = ''submitting''"
| "state_value SUBMIT_OUTCOME_UNKNOWN = ''submit_outcome_unknown''"
| "state_value RUNNING = ''running''"
| "state_value SUSPENDED = ''suspended''"
| "state_value COMPLETED = ''completed''"
| "state_value FAILED = ''failed''"
| "state_value KILLED = ''killed''"
| "state_value INTERRUPTED = ''interrupted''"
| "state_value OOM_KILLED = ''oom_killed''"
| "state_value STARVED = ''starved''"
| "state_value TIME_EXCEEDED = ''time_exceeded''"
| "state_value ABORTED_BY_QUEUE = ''aborted_by_queue''"

section \<open>The record\<close>

datatype iso_stamp = IsoBad string | IsoNaive int | IsoAware int

record runtime_pin =
  pin_expected_git_sha :: "string option"
  pin_enforce_git_sha :: bool
  pin_resolved_git_sha :: "string option"
  pin_resolved_runtime_root :: "string option"
  pin_resolved_runtime_source :: "string option"
  pin_resolved_runtime_python :: "string option"
  pin_expected_import_version :: "string option"
  pin_import_check :: "string option"
  pin_import_symbols :: "string list"
  pin_scheduler_host :: "string option"
  pin_resolved_executable :: "string option"
  pin_program_kind :: "string option"
  pin_program_version :: "string option"
  pin_artifact_identity :: "string option"
  pin_managed_generation :: "pyval option"

definition without_resolution :: "runtime_pin \<Rightarrow> runtime_pin" where
  "without_resolution p = p\<lparr>pin_resolved_git_sha := None, pin_resolved_runtime_root := None,
     pin_resolved_runtime_source := None, pin_resolved_runtime_python := None\<rparr>"

record runtime_bundle_pin =
  bundle_root :: string
  bundle_artifact_id :: string

definition SPEC_VERSION :: int where "SPEC_VERSION = 2"

record job_spec =
  js_spec_version :: int
  js_id :: string
  js_command :: "string list"
  js_cwd :: string
  js_cpus :: int
  js_scheduler_tasks :: "int option"
  js_gpus :: "int option"
  js_gpu_devices :: "string list option"
  js_runtime_bundle :: "runtime_bundle_pin option"
  js_resource_estimate :: "pyval option"
  js_resource_estimate_calibration :: "pyval option"
  js_mem_mb :: "int option"
  js_mem_mb_source :: "string option"
  js_wall_time_seconds :: "int option"
  js_wall_time_source :: "string option"
  js_priority :: int
  js_refresh_before :: "string option"
  js_build_env :: "string option"
  js_recover_on_reboot :: bool
  js_parent_jobid :: "string option"
  js_retry_max :: int
  js_retry_count :: int
  js_not_before :: "iso_stamp option"
  js_depends_on :: "string list"
  js_depends_on_any :: "string list"
  js_failure_reason :: "string option"
  js_failure_tail :: "string option"
  js_array_index :: "int option"
  js_array_total :: "int option"
  js_array_group_id :: "string option"
  js_chain_index :: "int option"
  js_chain_total :: "int option"
  js_chain_group_id :: "string option"
  js_rerun_until_file_exists :: "string option"
  js_rerun_max :: int
  js_rerun_count :: int
  js_workdir :: "string option"
  js_clean_workdir_on_terminal :: bool
  js_workdir_swept_at :: "string option"
  js_workdir_cleanup_note :: "string option"
  js_state :: job_state
  js_submitted_at :: string
  js_submitter :: "string option"
  js_workspace_source :: "string option"
  js_idempotency_key_hash :: "string option"
  js_submission_intent_digest :: "string option"
  js_submission_owner_hash :: "string option"
  js_qvf_artifact_name :: "string option"
  js_pid :: "int option"
  js_pgid :: "int option"
  js_scheduler_target :: "string option"
  js_scheduler_job_id :: "string option"
  js_scheduler_state :: "string option"
  js_scheduler_poll_last_attempted_at :: "string option"
  js_scheduler_poll_last_success_at :: "string option"
  js_scheduler_poll_last_error_at :: "string option"
  js_scheduler_poll_last_error :: "string option"
  js_scheduler_remote_workspace :: "string option"
  js_scheduler_remote_workspace_cleaned_at :: "string option"
  js_scheduler_exec_host :: "string option"
  js_scheduler_walltime_used :: "string option"
  js_scheduler_walltime_limit :: "string option"
  js_scheduler_mem_used :: "string option"
  js_scheduler_cpu_used :: "string option"
  js_scheduler_task_peak_rss :: "string option"
  js_scheduler_gpu_live :: "pyval option"
  js_scheduler_queued_reason :: "string option"
  js_scheduler_submitted_at :: "string option"
  js_scheduler_started_at :: "string option"
  js_started_at :: "string option"
  js_finished_at :: "iso_stamp option"
  js_last_heartbeat_at :: "string option"
  js_paused_at :: "string option"
  js_paused_monotonic_at :: "rat option"
  js_paused_seconds_total :: rat
  js_paused_by :: "string option"
  js_pause_intent_at :: "string option"
  js_pause_intent_monotonic_at :: "rat option"
  js_pause_intent_pgid :: "int option"
  js_pause_intent_by :: "string option"
  js_exit_code :: "int option"
  js_stdout_path :: string
  js_stderr_path :: string
  js_last_status_at :: "string option"
  js_last_fetched_at :: "string option"
  js_archived_at :: "string option"
  js_archive_path :: "string option"
  js_job_name :: "string option"
  js_branch :: "string option"
  js_program :: "string option"
  js_program_runtime_pin :: "runtime_pin option"
  js_pid_start_time :: "int option"
  js_tags :: "string list"
  js_expected_outputs :: "string list"
  js_output_stem :: "string option"
  js_last_output_status :: "string option"

text \<open>A record with only its required fields given: every other field has its default.\<close>

definition new_job_spec :: "string \<Rightarrow> string list \<Rightarrow> string \<Rightarrow> int \<Rightarrow> string \<Rightarrow> job_spec" where
  "new_job_spec i command cwd cpus now = \<lparr>
     js_spec_version = SPEC_VERSION, js_id = i, js_command = command, js_cwd = cwd,
     js_cpus = cpus, js_scheduler_tasks = None, js_gpus = None, js_gpu_devices = None,
     js_runtime_bundle = None, js_resource_estimate = None,
     js_resource_estimate_calibration = None, js_mem_mb = None, js_mem_mb_source = None,
     js_wall_time_seconds = None, js_wall_time_source = None, js_priority = 0,
     js_refresh_before = None, js_build_env = None, js_recover_on_reboot = False,
     js_parent_jobid = None, js_retry_max = 0, js_retry_count = 0, js_not_before = None,
     js_depends_on = [], js_depends_on_any = [], js_failure_reason = None,
     js_failure_tail = None, js_array_index = None, js_array_total = None,
     js_array_group_id = None, js_chain_index = None, js_chain_total = None,
     js_chain_group_id = None, js_rerun_until_file_exists = None, js_rerun_max = 10,
     js_rerun_count = 0, js_workdir = None, js_clean_workdir_on_terminal = False,
     js_workdir_swept_at = None, js_workdir_cleanup_note = None, js_state = PENDING,
     js_submitted_at = now, js_submitter = None, js_workspace_source = None,
     js_idempotency_key_hash = None, js_submission_intent_digest = None,
     js_submission_owner_hash = None, js_qvf_artifact_name = None, js_pid = None, js_pgid = None,
     js_scheduler_target = None, js_scheduler_job_id = None, js_scheduler_state = None,
     js_scheduler_poll_last_attempted_at = None, js_scheduler_poll_last_success_at = None,
     js_scheduler_poll_last_error_at = None, js_scheduler_poll_last_error = None,
     js_scheduler_remote_workspace = None, js_scheduler_remote_workspace_cleaned_at = None,
     js_scheduler_exec_host = None, js_scheduler_walltime_used = None,
     js_scheduler_walltime_limit = None, js_scheduler_mem_used = None,
     js_scheduler_cpu_used = None, js_scheduler_task_peak_rss = None,
     js_scheduler_gpu_live = None, js_scheduler_queued_reason = None,
     js_scheduler_submitted_at = None, js_scheduler_started_at = None, js_started_at = None,
     js_finished_at = None, js_last_heartbeat_at = None, js_paused_at = None,
     js_paused_monotonic_at = None, js_paused_seconds_total = 0, js_paused_by = None,
     js_pause_intent_at = None, js_pause_intent_monotonic_at = None, js_pause_intent_pgid = None,
     js_pause_intent_by = None, js_exit_code = None, js_stdout_path = ''stdout.log'',
     js_stderr_path = ''stderr.log'', js_last_status_at = None, js_last_fetched_at = None,
     js_archived_at = None, js_archive_path = None, js_job_name = None, js_branch = None,
     js_program = None, js_program_runtime_pin = None, js_pid_start_time = None, js_tags = [],
     js_expected_outputs = [], js_output_stem = None, js_last_output_status = None\<rparr>"

definition is_terminal :: "job_spec \<Rightarrow> bool" where
  "is_terminal s \<longleftrightarrow> js_state s \<in> TERMINAL_STATES"

definition is_watchdog_killed :: "job_spec \<Rightarrow> bool" where
  "is_watchdog_killed s \<longleftrightarrow> js_state s \<in> WATCHDOG_TERMINAL_STATES"

definition is_archived :: "job_spec \<Rightarrow> bool" where
  "is_archived s \<longleftrightarrow> js_archived_at s \<noteq> None"

section \<open>Validators\<close>

datatype spec_error =
    InvalidJobId | InvalidJobName | InvalidTag | InvalidProgram | InvalidPausedBy
  | InvalidDigest | VersionTooOld | VersionTooNew

definition JOB_NAME_MAX_LEN :: nat where "JOB_NAME_MAX_LEN = 50"
definition JOB_ID_MAX_LEN :: nat where "JOB_ID_MAX_LEN = 160"

definition name_char :: "char \<Rightarrow> bool" where
  "name_char c \<longleftrightarrow> is_alnum c \<or> c = CHR ''.'' \<or> c = CHR ''_'' \<or> c = CHR ''-''"

definition job_name_match :: "string \<Rightarrow> bool" where
  "job_name_match s \<longleftrightarrow> 1 \<le> length s \<and> length s \<le> JOB_NAME_MAX_LEN \<and> list_all name_char s"

definition job_id_match :: "string \<Rightarrow> bool" where
  "job_id_match s \<longleftrightarrow> 1 \<le> length s \<and> length s \<le> JOB_ID_MAX_LEN \<and> list_all name_char s"

definition validate_job_id :: "string \<Rightarrow> spec_error + string" where
  "validate_job_id v = (if v = ''.'' \<or> v = ''..'' \<or> \<not> job_id_match v then Inl InvalidJobId else Inr v)"

fun check_dependency_ids :: "string list \<Rightarrow> spec_error + string list" where
  "check_dependency_ids [] = Inr []"
| "check_dependency_ids (v # vs) =
     rbind (validate_job_id v) (\<lambda>x. rbind (check_dependency_ids vs) (\<lambda>xs. Inr (x # xs)))"

definition check_version :: "int \<Rightarrow> spec_error + int" where
  "check_version v = (if v < 1 then Inl VersionTooOld
     else if SPEC_VERSION < v then Inl VersionTooNew else Inr v)"

definition check_tags :: "string list \<Rightarrow> spec_error + string list" where
  "check_tags v = (if v = [] then Inr []
     else let cleaned = sort (remdups v) in
          if list_all job_name_match cleaned then Inr cleaned else Inl InvalidTag)"

definition check_job_name :: "string option \<Rightarrow> spec_error + string option" where
  "check_job_name v = (case v of None \<Rightarrow> Inr None
     | Some n \<Rightarrow> if job_name_match n then Inr (Some n) else Inl InvalidJobName)"

definition check_program :: "string option \<Rightarrow> spec_error + string option" where
  "check_program v = (case v of None \<Rightarrow> Inr None
     | Some n \<Rightarrow> if job_name_match n then Inr (Some n) else Inl InvalidProgram)"

definition check_paused_by :: "string option \<Rightarrow> spec_error + string option" where
  "check_paused_by v = (case v of None \<Rightarrow> Inr None
     | Some n \<Rightarrow> if job_name_match n then Inr (Some n) else Inl InvalidPausedBy)"

definition check_pause_intent_by :: "string option \<Rightarrow> spec_error + string option" where
  "check_pause_intent_by v = (case v of None \<Rightarrow> Inr None
     | Some n \<Rightarrow> if job_name_match n then Inr (Some n) else Inl InvalidPausedBy)"

definition check_submission_digest :: "string option \<Rightarrow> spec_error + string option" where
  "check_submission_digest v = (case v of None \<Rightarrow> Inr None
     | Some d \<Rightarrow> if length d = 64 \<and> list_all is_lower_hex d then Inr (Some d) else Inl InvalidDigest)"

section \<open>Names and exit codes\<close>

definition dest_dirname :: "job_spec \<Rightarrow> string" where
  "dest_dirname s = (case js_job_name s of
      Some n \<Rightarrow> if n = [] then js_id s else n @ ''-'' @ js_id s
    | None \<Rightarrow> js_id s)"

definition portable_signals :: "(int \<times> string) list" where
  "portable_signals = [(1, ''SIGHUP''), (2, ''SIGINT''), (3, ''SIGQUIT''), (4, ''SIGILL''),
     (5, ''SIGTRAP''), (6, ''SIGABRT''), (8, ''SIGFPE''), (9, ''SIGKILL''), (11, ''SIGSEGV''),
     (13, ''SIGPIPE''), (14, ''SIGALRM''), (15, ''SIGTERM'')]"

definition signal_hints :: "(int \<times> string) list" where
  "signal_hints = [(6, ''abort, a failed assertion or uncaught C++ exception''),
     (8, ''floating-point error''),
     (9, ''hard kill, usually the OOM killer or a vq kill escalation''),
     (11, ''segmentation fault''), (15, ''graceful termination'')]"

definition signal_name_for_exit :: "int option \<Rightarrow> string option" where
  "signal_name_for_exit code = (case code of
      None \<Rightarrow> None
    | Some c \<Rightarrow> if \<not> (128 < c \<and> c \<le> 128 + 64) then None else map_of portable_signals (c - 128))"

definition describe_exit_code :: "int option \<Rightarrow> string" where
  "describe_exit_code code = (case code of
      None \<Rightarrow> ''unknown''
    | Some c \<Rightarrow>
        if 128 < c \<and> c \<le> 128 + 64 then
          (let sig = c - 128 in
           case signal_name_for_exit (Some c) of
             None \<Rightarrow> show_int c @ '' (killed by signal '' @ show_int sig @ '')''
           | Some name \<Rightarrow>
               (let inside = (case map_of signal_hints sig of
                                Some hint \<Rightarrow> name @ '': '' @ hint | None \<Rightarrow> name)
                in show_int c @ '' (killed by '' @ inside @ '')''))
        else show_int c)"

section \<open>Sample inputs\<close>

definition sample_spec :: "string \<Rightarrow> job_spec" where
  "sample_spec i = new_job_spec i [''run''] ''/w'' 1 ''2026''"

section \<open>Properties\<close>

text \<open>
  An accepted job id is a safe path component: it is returned unchanged, is neither the
  current nor the parent directory, has 1 to 160 characters and contains no slash, no NUL and no
  white space.
\<close>

theorem validate_job_id_safe:
  assumes "validate_job_id v = Inr w"
  shows "w = v \<and> v \<noteq> ''.'' \<and> v \<noteq> ''..'' \<and> 1 \<le> length v \<and> length v \<le> 160
    \<and> CHR ''/'' \<notin> set v \<and> CHR 0x00 \<notin> set v \<and> (\<forall>c \<in> set v. \<not> py_space c)"
proof -
  from assms have v: "w = v" "v \<noteq> ''.''" "v \<noteq> ''..''" "job_id_match v"
    by (auto simp: validate_job_id_def split: if_splits)
  have ok: "name_char c \<Longrightarrow> c \<noteq> CHR ''/'' \<and> c \<noteq> CHR 0x00 \<and> \<not> py_space c" for c
    by (auto simp: name_char_def is_alnum_def is_alpha_def is_digit_def py_space_def Let_def)
  from v(4) have "\<forall>c \<in> set v. name_char c" by (simp add: job_id_match_def list_all_iff)
  with ok have "\<forall>c \<in> set v. c \<noteq> CHR ''/'' \<and> c \<noteq> CHR 0x00 \<and> \<not> py_space c" by blast
  with v show ?thesis by (auto simp: job_id_match_def JOB_ID_MAX_LEN_def)
qed

theorem validate_job_id_safe_witness:
  "validate_job_id ''3f9a-legacy.job_1'' = Inr ''3f9a-legacy.job_1''
   \<and> CHR ''/'' \<notin> set ''3f9a-legacy.job_1''"
proof -
  have "validate_job_id ''3f9a-legacy.job_1'' = Inr ''3f9a-legacy.job_1''" by code_simp
  with validate_job_id_safe [OF this] show ?thesis by blast
qed

text \<open>
  Tags are stored canonically: an accepted tag list is sorted, without duplicates, has
  exactly the submitted tags, each of the strict charset, and is a fixed point of the validator;
  two submissions with the same set of tags store the same list.
\<close>

theorem check_tags_canonical:
  "(\<forall>t. check_tags v = Inr t \<longrightarrow> sorted t \<and> distinct t \<and> set t = set v
      \<and> list_all job_name_match t \<and> check_tags t = Inr t)
   \<and> (set v = set v' \<longrightarrow> check_tags v = check_tags v')"
proof -
  have "sort (remdups v) = sort (remdups v')" if "set v = set v'"
    using that by (metis sorted_list_of_set_sort_remdups)
  then have "set v = set v' \<longrightarrow> check_tags v = check_tags v'"
    by (auto simp: check_tags_def Let_def)
  moreover have "sorted t \<and> distinct t \<and> set t = set v \<and> list_all job_name_match t
      \<and> check_tags t = Inr t" if "check_tags v = Inr t" for t
    using that by (auto simp: check_tags_def Let_def distinct_remdups_id sorted_sort_id
        split: if_splits)
  ultimately show ?thesis by blast
qed

theorem check_tags_canonical_witness:
  "check_tags [''b'', ''a'', ''b''] = Inr [''a'', ''b''] \<and> check_tags [''a'', ''b''] = Inr [''a'', ''b'']"
proof -
  have "check_tags [''b'', ''a'', ''b''] = Inr [''a'', ''b'']" by code_simp
  with check_tags_canonical [of "[''b'', ''a'', ''b'']" "[''a'', ''b'']"] show ?thesis by blast
qed

lemma dest_dirname_suffix:
  "drop (length (dest_dirname s) - length (js_id s)) (dest_dirname s) = js_id s"
  by (auto simp: dest_dirname_def split: option.splits)

text \<open>
  Fetch directories and archives of different jobs never collide: two jobs with generated
  (12 character) ids, whatever their names, have the same destination name only if they are the
  same job; and for ids of any length, two jobs with the same name have different destination
  names unless their ids are equal.
\<close>

theorem dest_dirname_distinct:
  assumes "dest_dirname a = dest_dirname b"
    and "length (js_id a) = 12 \<and> length (js_id b) = 12 \<or> js_job_name a = js_job_name b"
  shows "js_id a = js_id b"
  using assms(2)
proof
  assume "length (js_id a) = 12 \<and> length (js_id b) = 12"
  then show ?thesis using dest_dirname_suffix [of a] dest_dirname_suffix [of b] assms(1) by metis
next
  assume "js_job_name a = js_job_name b"
  with assms(1) show ?thesis by (auto simp: dest_dirname_def split: option.splits if_splits)
qed

theorem dest_dirname_distinct_witness:
  "dest_dirname (sample_spec ''0123456789ab''\<lparr>js_job_name := Some ''opt''\<rparr>)
   \<noteq> dest_dirname (sample_spec ''0123456789ac''\<lparr>js_job_name := Some ''opt''\<rparr>)"
  using dest_dirname_distinct [of "sample_spec ''0123456789ab''\<lparr>js_job_name := Some ''opt''\<rparr>"
      "sample_spec ''0123456789ac''\<lparr>js_job_name := Some ''opt''\<rparr>"]
  by (auto simp: sample_spec_def new_job_spec_def)

lemma show_int_not_unknown: "show_int c \<noteq> ''unknown''"
proof
  assume eq: "show_int c = ''unknown''"
  have "CHR ''u'' \<notin> set (show_int c)"
    using show_nat_digits by (auto simp: show_int_def list_all_iff is_digit_def) fastforce+
  with eq show False by simp
qed

lemma describe_exit_code_first_word:
  "takeWhile (\<lambda>c. c \<noteq> CHR '' '') (describe_exit_code a)
     = (case a of None \<Rightarrow> ''unknown'' | Some c \<Rightarrow> show_int c)"
proof (cases a)
  case (Some c)
  have all: "\<forall>x \<in> set (show_int c). x \<noteq> CHR '' ''" using show_int_no_space [of c] by auto
  then have "takeWhile (\<lambda>c. c \<noteq> CHR '' '') (show_int c @ CHR '' '' # ys) = show_int c" for ys
    by (simp add: takeWhile_append2)
  with all Some show ?thesis
    by (simp add: describe_exit_code_def Let_def takeWhile_eq_all_conv split: option.splits)
qed (simp add: describe_exit_code_def)

text \<open>
  The exit code text is unambiguous: two exit codes (or the absence of one) that are
  rendered the same are the same, although signals are decoded and annotated.
\<close>

theorem describe_exit_code_injective:
  "describe_exit_code a = describe_exit_code b \<longleftrightarrow> a = b"
proof
  assume "describe_exit_code a = describe_exit_code b"
  from arg_cong [OF this, of "takeWhile (\<lambda>c. c \<noteq> CHR '' '')"]
  show "a = b" using show_int_not_unknown
    by (auto simp: describe_exit_code_first_word split: option.splits)
qed simp

end
