(* ===== verification/Broker_Decision.thy ===== *)
theory Broker_Decision
  imports VQ_Prelude
begin

text \<open>
  Host choice for one job: \<open>overview.py\<close>, \<open>_placement_rank\<close> to \<open>recommend_host\<close>.

  A \<open>capacity_snapshot\<close> is the evidence one host gave; \<open>broker_host_blocker\<close> says
  why a held job cannot run there now; \<open>place_broker_job\<close> ranks the hosts with no
  blocker. \<open>recommend_host\<close> is the client-side ranking over host overviews. Headroom
  fields are typed, so the code's run-time type tests on them have no branch here; the wall
  time limit comes unvalidated from the target's answer and stays a \<open>pyval\<close>.
\<close>

section \<open>Data\<close>

record placement_request =
  rq_cpus :: int
  rq_mem_mb :: int
  rq_pool :: "string option"
  rq_wall_time_seconds :: "rat option"

record capacity_snapshot =
  sn_host :: string
  sn_observed_at :: pyfloat
  sn_free_cpus :: "int option"
  sn_free_mem_mb :: "int option"
  sn_free_jobs :: "int option"
  sn_reachable :: bool
  sn_daemon_healthy :: bool
  sn_state_root_agreement :: bool
  sn_admission_open :: bool
  sn_queue_ready :: bool
  sn_is_scheduler_host :: bool
  sn_scheduler_admission :: bool
  sn_max_request_cpus :: "int option"
  sn_authority :: pyval
  sn_runtime_pins :: pyval
  sn_pools :: "string list"
  sn_max_wall_time_seconds :: pyval
  sn_pending_cpus :: int
  sn_idle_seconds :: "int option"

type_synonym rank = "int \<times> int \<times> int \<times> int \<times> int \<times> int \<times> string"

record placement_decision =
  dc_host :: "string option"
  dc_blockers :: "(string \<times> string) list"
  dc_ranking :: "rank list"

datatype value_error =
    InvalidDemand
  | InvalidWallTime
  | InvalidObservationPolicy
  | UnnamedHost
  | DuplicateHost

fun rank_host :: "rank \<Rightarrow> string" where
  "rank_host (_, _, _, _, _, _, h) = h"

section \<open>Operations\<close>

definition finite_number :: "pyval \<Rightarrow> bool" where
  "finite_number v = (case v of PyInt _ \<Rightarrow> True | PyFloat x \<Rightarrow> is_finite x | _ \<Rightarrow> False)"

definition number_of :: "pyval \<Rightarrow> rat" where
  "number_of v = (case v of PyInt n \<Rightarrow> of_int n | PyFloat (Fin x) \<Rightarrow> x | _ \<Rightarrow> 0)"

definition make_placement_request ::
  "int \<Rightarrow> int \<Rightarrow> string option \<Rightarrow> pyfloat option \<Rightarrow> value_error + placement_request" where
  "make_placement_request cpus mem pool wall =
     (if cpus \<le> 0 \<or> mem \<le> 0 then Inl InvalidDemand
      else case wall of
          None \<Rightarrow> Inr \<lparr>rq_cpus = cpus, rq_mem_mb = mem, rq_pool = pool, rq_wall_time_seconds = None\<rparr>
        | Some NonFin \<Rightarrow> Inl InvalidWallTime
        | Some (Fin w) \<Rightarrow>
            if w \<le> 0 then Inl InvalidWallTime
            else Inr \<lparr>rq_cpus = cpus, rq_mem_mb = mem, rq_pool = pool, rq_wall_time_seconds = Some w\<rparr>)"

definition placement_rank ::
  "string \<Rightarrow> int \<Rightarrow> int option \<Rightarrow> int \<Rightarrow> int option \<Rightarrow> int option \<Rightarrow> int option \<Rightarrow> rank" where
  "placement_rank host free_cpus mem_available pending_cpus idle job_cpus job_mem =
     (let mem_fits = (case (job_mem, mem_available) of (Some j, Some a) \<Rightarrow> j \<le> a | _ \<Rightarrow> True);
          cpu_fits = (case job_cpus of None \<Rightarrow> True | Some c \<Rightarrow> c \<le> free_cpus)
      in (- of_bool mem_fits, - of_bool cpu_fits, - the_or 0 mem_available, - free_cpus,
          pending_cpus, - the_or (-1) idle, host))"

definition broker_observation_policy :: "pyfloat \<Rightarrow> pyfloat \<Rightarrow> value_error + (rat \<times> rat)" where
  "broker_observation_policy now max_age =
     (case (now, max_age) of
        (Fin n, Fin m) \<Rightarrow> if m \<le> 0 then Inl InvalidObservationPolicy else Inr (n, m)
      | _ \<Rightarrow> Inl InvalidObservationPolicy)"

definition confirmation_gap :: "capacity_snapshot \<Rightarrow> string option" where
  "confirmation_gap s =
     (if \<not> sn_reachable s then Some ''unreachable''
      else if \<not> sn_daemon_healthy s then Some ''daemon-not-ready''
      else if \<not> sn_state_root_agreement s then Some ''state-root-unverified''
      else if \<not> sn_admission_open s then Some ''admission-blocked''
      else if \<not> sn_queue_ready s then Some ''queue-not-ready''
      else None)"

definition wall_time_gap :: "capacity_snapshot \<Rightarrow> placement_request \<Rightarrow> string option" where
  "wall_time_gap s r =
     (let limit = sn_max_wall_time_seconds s in
      if limit = PyNone then None
      else if \<not> finite_number limit \<or> number_of limit \<le> 0 then Some ''capacity-invalid''
      else (case rq_wall_time_seconds r of
              None \<Rightarrow> Some ''wall-time-unknown''
            | Some w \<Rightarrow> if number_of limit < w then Some ''wall-time-exceeded'' else None))"

definition scheduler_slot_gap :: "capacity_snapshot \<Rightarrow> placement_request \<Rightarrow> string option" where
  "scheduler_slot_gap s r =
     (case sn_max_request_cpus s of
        Some m \<Rightarrow>
          if m < 1 then Some ''capacity-invalid''
          else if m < rq_cpus r then Some ''cpus-exceeded''
          else (case sn_free_jobs s of
                  None \<Rightarrow> Some ''capacity-unknown''
                | Some j \<Rightarrow> if j < 1 then Some ''job-slots-insufficient'' else None)
      | None \<Rightarrow>
          (case sn_free_jobs s of
             None \<Rightarrow> Some ''capacity-unknown''
           | Some j \<Rightarrow> if j < 1 then Some ''job-slots-insufficient'' else None))"

definition headroom_gap :: "capacity_snapshot \<Rightarrow> placement_request \<Rightarrow> string option" where
  "headroom_gap s r =
     (case (sn_free_cpus s, sn_free_mem_mb s, sn_free_jobs s) of
        (Some c, Some m, Some j) \<Rightarrow>
          if sn_pending_cpus s < 0 \<or> (case sn_idle_seconds s of None \<Rightarrow> False | Some i \<Rightarrow> i < 0)
          then Some ''capacity-invalid''
          else if c < rq_cpus r then Some ''cpus-insufficient''
          else if m < rq_mem_mb r then Some ''memory-insufficient''
          else if j < 1 then Some ''job-slots-insufficient''
          else None
      | _ \<Rightarrow> Some ''capacity-unknown'')"

text \<open>The body of \<open>broker_host_blocker\<close> once its observation policy was accepted.\<close>

definition host_blocker ::
  "capacity_snapshot \<Rightarrow> placement_request \<Rightarrow> rat \<Rightarrow> rat \<Rightarrow> string option" where
  "host_blocker s r now max_age =
     (if sn_is_scheduler_host s \<and> \<not> sn_scheduler_admission s then Some ''scheduler-unsupported''
      else case confirmation_gap s of Some e \<Rightarrow> Some e | None \<Rightarrow>
      (case sn_observed_at s of NonFin \<Rightarrow> Some ''snapshot-invalid'' | Fin t \<Rightarrow>
       if now - t < 0 then Some ''snapshot-future''
       else if max_age < now - t then Some ''snapshot-stale''
       else if (case rq_pool r of None \<Rightarrow> False | Some p \<Rightarrow> p \<notin> set (sn_pools s))
       then Some ''pool-mismatch''
       else case wall_time_gap s r of Some e \<Rightarrow> Some e | None \<Rightarrow>
       if sn_is_scheduler_host s then scheduler_slot_gap s r else headroom_gap s r))"

definition broker_host_blocker ::
  "capacity_snapshot \<Rightarrow> placement_request \<Rightarrow> pyfloat \<Rightarrow> pyfloat \<Rightarrow> value_error + string option" where
  "broker_host_blocker s r now max_age =
     rbind (broker_observation_policy now max_age) (\<lambda>(n, m). Inr (host_blocker s r n m))"

definition snapshot_rank :: "capacity_snapshot \<Rightarrow> placement_request \<Rightarrow> rank" where
  "snapshot_rank s r =
     (if sn_is_scheduler_host s then (0, 0, 0, 0, 0, 0, sn_host s)
      else placement_rank (sn_host s) (the_or 0 (sn_free_cpus s)) (sn_free_mem_mb s)
             (sn_pending_cpus s) (sn_idle_seconds s) (Some (rq_cpus r)) (Some (rq_mem_mb r)))"

text \<open>The loop of \<open>place_broker_job\<close>: hosts seen, blockers and ranks so far.\<close>

fun rank_snapshots ::
  "placement_request \<Rightarrow> rat \<Rightarrow> rat \<Rightarrow> string list \<Rightarrow> (string \<times> string) list \<Rightarrow> rank list \<Rightarrow>
   capacity_snapshot list \<Rightarrow> value_error + ((string \<times> string) list \<times> rank list)" where
  "rank_snapshots r n m hosts blockers ranks [] = Inr (blockers, ranks)"
| "rank_snapshots r n m hosts blockers ranks (s # ss) =
     (if py_strip (sn_host s) = [] then Inl UnnamedHost
      else if sn_host s \<in> set hosts then Inl DuplicateHost
      else case host_blocker s r n m of
        Some reason \<Rightarrow>
          rank_snapshots r n m (sn_host s # hosts) (blockers @ [(sn_host s, reason)]) ranks ss
      | None \<Rightarrow>
          rank_snapshots r n m (sn_host s # hosts) blockers (ranks @ [snapshot_rank s r]) ss)"

definition place_broker_job ::
  "capacity_snapshot list \<Rightarrow> placement_request \<Rightarrow> pyfloat \<Rightarrow> pyfloat \<Rightarrow>
   value_error + placement_decision" where
  "place_broker_job snapshots r now max_age =
     rbind (broker_observation_policy now max_age) (\<lambda>(n, m).
     rbind (rank_snapshots r n m [] [] [] snapshots) (\<lambda>(blockers, ranks).
       let ranking = sort ranks in
       Inr \<lparr>dc_host = (case ranking of [] \<Rightarrow> None | k # _ \<Rightarrow> Some (rank_host k)),
            dc_blockers = sort blockers, dc_ranking = ranking\<rparr>))"

record host_overview =
  ov_host :: string
  ov_reachable :: bool
  ov_admin_down :: bool
  ov_full_drain :: bool \<comment> \<open>\<open>drain_state is not None and drain_state.is_full_drain\<close>\<close>
  ov_daemon_health :: "bool option" \<comment> \<open>\<open>daemon_health.ok\<close>, None when absent\<close>
  ov_running_cpus :: int
  ov_pending_cpus :: int
  ov_max_cpus :: "int option"
  ov_mem_available_mb :: "int option"
  ov_idle_seconds :: "int option"

definition recommend_candidate :: "host_overview \<Rightarrow> bool" where
  "recommend_candidate v \<longleftrightarrow> ov_reachable v \<and> \<not> ov_admin_down v \<and> \<not> ov_full_drain v
     \<and> ov_daemon_health v \<noteq> Some False"

definition overview_free_cpus :: "host_overview \<Rightarrow> int" where
  "overview_free_cpus v =
     (let committed = ov_running_cpus v + ov_pending_cpus v in
      case ov_max_cpus v of Some m \<Rightarrow> m - committed | None \<Rightarrow> - committed)"

definition overview_rank :: "int option \<Rightarrow> int option \<Rightarrow> host_overview \<Rightarrow> rank" where
  "overview_rank job_cpus job_mem v =
     placement_rank (ov_host v) (overview_free_cpus v) (ov_mem_available_mb v) (ov_pending_cpus v)
       (ov_idle_seconds v) job_cpus job_mem"

definition recommend_host ::
  "host_overview list \<Rightarrow> int option \<Rightarrow> int option \<Rightarrow> string option" where
  "recommend_host overviews job_cpus job_mem =
     (case sort_key (overview_rank job_cpus job_mem) (filter recommend_candidate overviews) of
        [] \<Rightarrow> None
      | v # _ \<Rightarrow> Some (ov_host v))"


definition ram_fits :: "int \<Rightarrow> host_overview \<Rightarrow> bool" where
  "ram_fits mem v \<longleftrightarrow> (case ov_mem_available_mb v of None \<Rightarrow> True | Some a \<Rightarrow> mem \<le> a)"

section \<open>Sample inputs\<close>

definition sample_snapshot :: "string \<Rightarrow> int \<Rightarrow> capacity_snapshot" where
  "sample_snapshot host cpus =
     \<lparr>sn_host = host, sn_observed_at = Fin 95, sn_free_cpus = Some cpus, sn_free_mem_mb = Some 8000,
      sn_free_jobs = Some 2, sn_reachable = True, sn_daemon_healthy = True,
      sn_state_root_agreement = True, sn_admission_open = True, sn_queue_ready = True,
      sn_is_scheduler_host = False, sn_scheduler_admission = False, sn_max_request_cpus = None,
      sn_authority = PyNone, sn_runtime_pins = PyNone, sn_pools = [],
      sn_max_wall_time_seconds = PyNone, sn_pending_cpus = 0, sn_idle_seconds = None\<rparr>"

definition sample_request :: placement_request where
  "sample_request =
     \<lparr>rq_cpus = 4, rq_mem_mb = 4000, rq_pool = None, rq_wall_time_seconds = None\<rparr>"

definition sample_overview :: "string \<Rightarrow> int \<Rightarrow> host_overview" where
  "sample_overview h mem = \<lparr>ov_host = h, ov_reachable = True, ov_admin_down = False,
     ov_full_drain = False, ov_daemon_health = Some True, ov_running_cpus = 0, ov_pending_cpus = 0,
     ov_max_cpus = Some 8, ov_mem_available_mb = Some mem, ov_idle_seconds = None\<rparr>"

section \<open>Properties\<close>

subsection \<open>What the ranking loop computes\<close>

lemma rank_snapshots_Inr:
  "rank_snapshots r n m hosts bl rk ss = Inr res \<longleftrightarrow>
     distinct (map sn_host ss) \<and> set hosts \<inter> sn_host ` set ss = {}
     \<and> (\<forall>s \<in> set ss. py_strip (sn_host s) \<noteq> [])
     \<and> res = (bl @ map (\<lambda>s. (sn_host s, the (host_blocker s r n m)))
                     (filter (\<lambda>s. host_blocker s r n m \<noteq> None) ss),
              rk @ map (\<lambda>s. snapshot_rank s r) (filter (\<lambda>s. host_blocker s r n m = None) ss))"
  by (induction ss arbitrary: hosts bl rk) (auto split: option.splits)

lemma place_broker_job_Inr:
  "place_broker_job ss r (Fin n) (Fin m) = Inr d \<longleftrightarrow>
     0 < m \<and> distinct (map sn_host ss) \<and> (\<forall>s \<in> set ss. py_strip (sn_host s) \<noteq> [])
     \<and> d = (let ranking = sort (map (\<lambda>s. snapshot_rank s r)
                                  (filter (\<lambda>s. host_blocker s r n m = None) ss))
            in \<lparr>dc_host = (case ranking of [] \<Rightarrow> None | k # _ \<Rightarrow> Some (rank_host k)),
                dc_blockers = sort (map (\<lambda>s. (sn_host s, the (host_blocker s r n m)))
                                      (filter (\<lambda>s. host_blocker s r n m \<noteq> None) ss)),
                dc_ranking = ranking\<rparr>)"
  by (auto simp: place_broker_job_def broker_observation_policy_def rank_snapshots_Inr Let_def
      split: if_splits)

lemma place_broker_job_finite:
  "place_broker_job ss r now age = Inr d \<Longrightarrow> \<exists>n m. now = Fin n \<and> age = Fin m"
  by (cases now; cases age) (simp_all add: place_broker_job_def broker_observation_policy_def)

lemma rank_host_snapshot_rank [simp]: "rank_host (snapshot_rank s r) = sn_host s"
  by (simp add: snapshot_rank_def placement_rank_def Let_def)

lemma host_blocker_fresh:
  "host_blocker s r n m = None \<Longrightarrow>
     \<exists>t. sn_observed_at s = Fin t \<and> t \<le> n \<and> n - t \<le> m \<and> confirmation_gap s = None"
  by (auto simp: host_blocker_def split: option.splits pyfloat.splits if_splits)

lemma host_blocker_headroom:
  assumes "host_blocker s r n m = None" "\<not> sn_is_scheduler_host s"
  shows "headroom_gap s r = None"
  using assms by (auto simp: host_blocker_def split: option.splits pyfloat.splits if_splits)

lemma host_blocker_slots:
  assumes "host_blocker s r n m = None" "sn_is_scheduler_host s"
  shows "scheduler_slot_gap s r = None"
  using assms by (auto simp: host_blocker_def split: option.splits pyfloat.splits if_splits)

lemma headroom_gap_None:
  "headroom_gap s r = None \<Longrightarrow>
     \<exists>c mem j. sn_free_cpus s = Some c \<and> sn_free_mem_mb s = Some mem \<and> sn_free_jobs s = Some j
       \<and> rq_cpus r \<le> c \<and> rq_mem_mb r \<le> mem \<and> 1 \<le> j"
  by (auto simp: headroom_gap_def split: option.splits if_splits)

lemma scheduler_slot_gap_None:
  "scheduler_slot_gap s r = None \<Longrightarrow> \<exists>j. sn_free_jobs s = Some j \<and> 1 \<le> j"
  by (auto simp: scheduler_slot_gap_def split: option.splits if_splits)

lemma hd_sort_le:
  assumes "sort xs = (x :: 'a :: linorder) # rest"
  shows "x \<in> set xs \<and> (\<forall>y \<in> set xs. x \<le> y)"
proof -
  have "set (x # rest) = set xs" using arg_cong [OF assms, of set] by simp
  moreover have "sorted (x # rest)" using arg_cong [OF assms, of sorted] by simp
  ultimately show ?thesis by auto
qed

subsection \<open>The chosen host\<close>

text \<open>
  \<open>place_broker_job\<close> chooses a host only on positive evidence, and the best one. When a
  decision names a host, one of the snapshots of that host has no blocker: it is reachable, its
  daemon healthy, its state root confirmed, its admission open and its queue ready; the snapshot
  is neither in the future nor older than the allowed age; and no other host without a blocker
  has a smaller rank.
\<close>

theorem place_broker_job_sound:
  assumes "place_broker_job ss r (Fin n) (Fin m) = Inr d" and "dc_host d = Some h"
  shows "\<exists>s \<in> set ss. sn_host s = h \<and> host_blocker s r n m = None \<and> confirmation_gap s = None
    \<and> (\<exists>t. sn_observed_at s = Fin t \<and> t \<le> n \<and> n - t \<le> m)
    \<and> (\<forall>s' \<in> set ss. host_blocker s' r n m = None \<longrightarrow> snapshot_rank s r \<le> snapshot_rank s' r)"
proof -
  let ?E = "filter (\<lambda>s. host_blocker s r n m = None) ss"
  let ?ranks = "map (\<lambda>s. snapshot_rank s r) ?E"
  from assms obtain k rest where k: "sort ?ranks = k # rest" "h = rank_host k"
    by (auto simp: place_broker_job_Inr Let_def split: list.splits)
  from hd_sort_le [OF k(1)] obtain s where s: "s \<in> set ?E" "k = snapshot_rank s r"
    and least: "\<forall>y \<in> set ?ranks. k \<le> y" by auto
  then have "sn_host s = h" "host_blocker s r n m = None" "s \<in> set ss" using k(2) by simp_all
  with host_blocker_fresh [of s r n m] least s(2) show ?thesis by auto
qed

lemma sample_decision:
  "place_broker_job [sample_snapshot ''a'' 8, sample_snapshot ''b'' 2] sample_request (Fin 100) (Fin 30)
   = Inr \<lparr>dc_host = Some ''a'', dc_blockers = [(''b'', ''cpus-insufficient'')],
          dc_ranking = [(-1, -1, -8000, -8, 0, 1, ''a'')]\<rparr>"
  by code_simp

theorem place_broker_job_sound_witness:
  "\<exists>s \<in> set [sample_snapshot ''a'' 8, sample_snapshot ''b'' 2]. sn_host s = ''a''
     \<and> host_blocker s sample_request 100 30 = None"
  using place_broker_job_sound [OF sample_decision, of "''a''"] by auto

text \<open>
  A decision holds the job exactly when every snapshot has a blocker, and its blockers are
  exactly the blocked hosts with their reasons, each host once.
\<close>

theorem place_broker_job_blockers:
  assumes "place_broker_job ss r (Fin n) (Fin m) = Inr d"
  shows "(dc_host d = None \<longleftrightarrow> (\<forall>s \<in> set ss. host_blocker s r n m \<noteq> None))
    \<and> set (dc_blockers d) = {(sn_host s, e) | s e. s \<in> set ss \<and> host_blocker s r n m = Some e}
    \<and> distinct (map fst (dc_blockers d))
    \<and> set (map rank_host (dc_ranking d)) = {sn_host s | s. s \<in> set ss \<and> host_blocker s r n m = None}"
proof -
  let ?B = "map (\<lambda>s. (sn_host s, the (host_blocker s r n m)))
    (filter (\<lambda>s. host_blocker s r n m \<noteq> None) ss)"
  let ?R = "map (\<lambda>s. snapshot_rank s r) (filter (\<lambda>s. host_blocker s r n m = None) ss)"
  from assms have d: "dc_blockers d = sort ?B" "dc_ranking d = sort ?R"
    "dc_host d = (case sort ?R of [] \<Rightarrow> None | k # _ \<Rightarrow> Some (rank_host k))"
    "distinct (map sn_host ss)" by (simp_all add: place_broker_job_Inr Let_def)
  have "dc_host d = None \<longleftrightarrow> ?R = []"
    using d(3) set_empty [of "sort ?R"] set_empty [of ?R] by (auto split: list.splits)
  moreover have "distinct (map fst (dc_blockers d))"
  proof -
    have "distinct (map fst ?B)"
      using distinct_map_filter [OF d(4)] by (simp add: comp_def)
    moreover have "mset (map fst (dc_blockers d)) = mset (map fst ?B)"
      unfolding d(1) mset_map mset_sort ..
    ultimately show ?thesis using mset_eq_imp_distinct_iff by blast
  qed
  ultimately show ?thesis by (auto simp: d(1,2) filter_empty_conv image_iff)
qed

theorem place_broker_job_blockers_witness:
  "\<exists>d. place_broker_job [sample_snapshot ''a'' 8, sample_snapshot ''b'' 2] sample_request
         (Fin 100) (Fin 30) = Inr d
     \<and> set (dc_blockers d) = {(sn_host s, e) | s e. s \<in> set [sample_snapshot ''a'' 8, sample_snapshot ''b'' 2]
          \<and> host_blocker s sample_request 100 30 = Some e}"
  using place_broker_job_blockers [OF sample_decision] sample_decision by blast

text \<open>
  The decision is deterministic evidence: it does not depend on the order in which the
  snapshots were collected.
\<close>

theorem place_broker_job_order_independent:
  assumes "mset ss = mset ss'"
  shows "place_broker_job ss r (Fin n) (Fin m) = Inr d \<longleftrightarrow>
         place_broker_job ss' r (Fin n) (Fin m) = Inr d"
proof -
  have [simp]: "sort (map f (filter P ss)) = sort (map f (filter P ss'))"
    for f :: "capacity_snapshot \<Rightarrow> 'a :: linorder" and P
    using assms by (intro properties_for_sort) (simp_all add: mset_filter)
  have "distinct (map sn_host ss) = distinct (map sn_host ss')"
    using assms by (intro mset_eq_imp_distinct_iff) simp
  moreover have "set ss = set ss'" using assms by (rule mset_eq_setD)
  ultimately show ?thesis by (simp add: place_broker_job_Inr Let_def)
qed

theorem place_broker_job_order_independent_witness:
  "place_broker_job [sample_snapshot ''b'' 2, sample_snapshot ''a'' 8] sample_request
     (Fin 100) (Fin 30)
   = Inr \<lparr>dc_host = Some ''a'', dc_blockers = [(''b'', ''cpus-insufficient'')],
          dc_ranking = [(-1, -1, -8000, -8, 0, 1, ''a'')]\<rparr>"
  by (rule place_broker_job_order_independent [THEN iffD1, OF _ sample_decision])
    (simp add: add_mset_commute)

subsection \<open>Client-side recommendation\<close>

lemma recommend_host_least:
  assumes "recommend_host vs c m = Some h"
  obtains v where "v \<in> set vs" "ov_host v = h" "recommend_candidate v"
    "\<And>w. w \<in> set vs \<Longrightarrow> recommend_candidate w \<Longrightarrow> overview_rank c m v \<le> overview_rank c m w"
proof -
  let ?xs = "filter recommend_candidate vs"
  from assms obtain v rest where v: "sort_key (overview_rank c m) ?xs = v # rest" "ov_host v = h"
    by (auto simp: recommend_host_def split: list.splits)
  have "sorted (map (overview_rank c m) (v # rest))"
    using sorted_sort_key [of "overview_rank c m" ?xs] v(1) by simp
  moreover have set: "set (v # rest) = set ?xs" using arg_cong [OF v(1), of set] by simp
  ultimately have "\<And>w. w \<in> set ?xs \<Longrightarrow> overview_rank c m v \<le> overview_rank c m w" by auto
  moreover have "v \<in> set ?xs" using set by auto
  ultimately show thesis using that v(2) by auto
qed

text \<open>
  \<open>recommend_host\<close> never names a host that is unreachable, administratively down, fully
  drained or has a dead daemon; it names one whenever some host passes that filter; and memory
  comes first: if some host that passes has enough free RAM for the job (or no reading), so does
  the recommended one.
\<close>

theorem recommend_host_memory_first:
  "(recommend_host vs c (Some mem) = None \<longleftrightarrow> (\<forall>v \<in> set vs. \<not> recommend_candidate v))
   \<and> (\<forall>h. recommend_host vs c (Some mem) = Some h \<longrightarrow>
        (\<exists>v \<in> set vs. ov_host v = h \<and> recommend_candidate v
           \<and> ((\<exists>w \<in> set vs. recommend_candidate w \<and> ram_fits mem w) \<longrightarrow> ram_fits mem v)))"
proof (intro conjI allI impI)
  show "recommend_host vs c (Some mem) = None \<longleftrightarrow> (\<forall>v \<in> set vs. \<not> recommend_candidate v)"
    using set_sort [of "overview_rank c (Some mem)" "filter recommend_candidate vs"]
    by (auto simp: recommend_host_def filter_empty_conv split: list.splits
        simp del: set_sort dest: arg_cong [of _ _ set])
next
  fix h assume "recommend_host vs c (Some mem) = Some h"
  then obtain v where v: "v \<in> set vs" "ov_host v = h" "recommend_candidate v"
    "\<And>w. w \<in> set vs \<Longrightarrow> recommend_candidate w \<Longrightarrow>
       overview_rank c (Some mem) v \<le> overview_rank c (Some mem) w"
    by (rule recommend_host_least) blast
  have fst_rank: "fst (overview_rank c (Some mem) w) = (if ram_fits mem w then -1 else 0)" for w
    by (auto simp: overview_rank_def placement_rank_def ram_fits_def Let_def split: option.splits)
  have "ram_fits mem v" if "w \<in> set vs" "recommend_candidate w" "ram_fits mem w" for w
  proof -
    have "fst (overview_rank c (Some mem) v) \<le> fst (overview_rank c (Some mem) w)"
      using v(4) [OF that(1,2)] by (auto simp: less_eq_prod_def)
    then show ?thesis using that(3) by (simp add: fst_rank split: if_splits)
  qed
  with v(1-3) show "\<exists>v \<in> set vs. ov_host v = h \<and> recommend_candidate v
      \<and> ((\<exists>w \<in> set vs. recommend_candidate w \<and> ram_fits mem w) \<longrightarrow> ram_fits mem v)" by blast
qed

theorem recommend_host_memory_first_witness:
  "recommend_host [sample_overview ''a'' 100, sample_overview ''b'' 900] (Some 1) (Some 500) \<noteq> None"
  using recommend_host_memory_first
    [of "[sample_overview ''a'' 100, sample_overview ''b'' 900]" "Some 1" 500]
  by (simp add: sample_overview_def recommend_candidate_def)

end
