(* ===== verification/Broker_Record.thy ===== *)
theory Broker_Record
  imports Job_Spec Broker_Decision
begin

text \<open>
  The broker's durable record, \<open>broker_store.py\<close>: submission intent with its validation,
  charges, attempts, cancellation, the record itself and \<open>_check_consistency\<close>.

  Exceptions keep their class and drop their text. \<open>broker_env\<close> bundles what the store gets
  from hashing and encoding: \<open>e_digest\<close> is \<open>_sha256_hex(_canonical_json(v))\<close>,
  \<open>e_sha256\<close> the hex digest of a payload's bytes, \<open>e_too_large\<close> whether a record's
  canonical JSON exceeds \<open>_RECORD_MAX_BYTES\<close>, and \<open>e_archive_ok\<close> the inspection of
  an uploaded tar archive (\<open>tarfile.is_tarfile\<close> and the entry point check).
\<close>

section \<open>Data\<close>

datatype broker_error =
    BrokerStoreError
  | BrokerStoreBusy
  | BrokerRecordConflict
  | BrokerIdempotencyConflict
  | BrokerRecordCorrupt
  | OSError
  | ValueError
  | TypeError
  | AttributeError
  | StopIteration

datatype broker_state = Held | Reserved | Transferring | Placed | Returned | Cancelled

record broker_intent =
  in_command :: "string list"
  in_cpus :: int
  in_mem_mb :: int
  in_wall_time_seconds :: "int option"
  in_priority :: int
  in_auto_resume :: bool
  in_retry :: int
  in_job_name :: "string option"
  in_program :: "string option"
  in_expected_sha :: "string option"
  in_tags :: "string list"
  in_clean_workdir_on_terminal :: bool
  in_rerun_until_file_exists :: "string option"
  in_rerun_max :: int
  in_pool :: "string option"
  in_runtime_seconds :: "pyval list option"

record broker_charge =
  ch_cpus :: int
  ch_mem_mb :: int
  ch_job_slots :: int

record broker_attempt =
  at_number :: int
  at_phase :: broker_state
  at_target_host :: string
  at_target_state_root :: string
  at_reservation_id :: string
  at_charge :: broker_charge
  at_decided_at :: rat
  at_snapshot :: "(string \<times> pyval) list"
  at_ranking :: "pyval list"
  at_blockers :: "(string \<times> pyval) list"
  at_idempotency_key :: string
  at_request_fingerprint :: "string option"
  at_transfer_started_at :: "rat option"
  at_target_job_id :: "string option"
  at_accepted_at :: "rat option"
  at_returned_at :: "rat option"
  at_return_reason :: "string option"
  at_charge_released_at :: "rat option"
  at_diagnostics :: "string list"

record broker_cancellation =
  cn_requested_at :: rat
  cn_reason :: string
  cn_completed_at :: "rat option"

record broker_record =
  br_id :: string
  br_revision :: int
  br_state :: broker_state
  br_created_at :: rat
  br_updated_at :: rat
  br_intent :: broker_intent
  br_payload_sha256 :: string
  br_payload_size :: int
  br_attempts :: "broker_attempt list"
  br_cancellation :: "broker_cancellation option"
  br_held_blockers :: "(string \<times> string) list"

record broker_env =
  e_digest :: "pyval \<Rightarrow> string"
  e_sha256 :: "string \<Rightarrow> string"
  e_too_large :: "broker_record \<Rightarrow> bool"
  e_archive_ok :: "broker_intent \<Rightarrow> string \<Rightarrow> bool"

section \<open>Identifiers and reasons\<close>

definition broker_job_id_match :: "string \<Rightarrow> bool" where
  "broker_job_id_match v \<longleftrightarrow> length v = 14 \<and> take 2 v = ''b-'' \<and> list_all is_lower_hex (drop 2 v)"

definition validate_broker_job_id :: "string \<Rightarrow> broker_error + string" where
  "validate_broker_job_id v = (if broker_job_id_match v then Inr v else Inl BrokerStoreError)"

definition key_char :: "char \<Rightarrow> bool" where
  "key_char c \<longleftrightarrow> is_alnum c \<or> c = CHR ''.'' \<or> c = CHR ''_'' \<or> c = CHR '':'' \<or> c = CHR ''-''"

definition idempotency_key_match :: "string \<Rightarrow> bool" where
  "idempotency_key_match k \<longleftrightarrow> (case k of [] \<Rightarrow> False
     | c # cs \<Rightarrow> is_alnum c \<and> length cs \<le> 127 \<and> list_all key_char cs)"

definition broker_job_id_for_key :: "broker_env \<Rightarrow> string \<Rightarrow> broker_error + string" where
  "broker_job_id_for_key env key =
     (if idempotency_key_match key
      then Inr (''b-'' @ take 12 (e_sha256 env (''vq.broker.idempotency-key/1'' @ [CHR 0x00] @ key)))
      else Inl BrokerStoreError)"

definition finite_time :: "pyfloat \<Rightarrow> broker_error + rat" where
  "finite_time t = (case t of Fin x \<Rightarrow> if x < 0 then Inl BrokerStoreError else Inr x
     | NonFin \<Rightarrow> Inl BrokerStoreError)"

definition DIAGNOSTIC_MAX_CHARS :: nat where "DIAGNOSTIC_MAX_CHARS = 2000"
definition DIAGNOSTICS_MAX :: nat where "DIAGNOSTICS_MAX = 50"
definition ATTEMPTS_MAX :: nat where "ATTEMPTS_MAX = 1000"

definition parse_reason :: "string \<Rightarrow> broker_error + string" where
  "parse_reason v = (if py_strip v = [] then Inl BrokerStoreError
     else Inr (take DIAGNOSTIC_MAX_CHARS v))"

section \<open>Submission intent\<close>

definition command_head_ok :: "string list \<Rightarrow> bool" where
  "command_head_ok command = (case command of
      [] \<Rightarrow> False
    | head # _ \<Rightarrow> head \<noteq> [] \<and> \<not> starts_with ''-'' head \<and> CHR 0x00 \<notin> set head)"

definition expected_sha_ok :: "string option \<Rightarrow> string option \<Rightarrow> bool" where
  "expected_sha_ok sha program = (case sha of
      None \<Rightarrow> True
    | Some s \<Rightarrow> 7 \<le> length (py_strip s) \<and> list_all is_hex (py_strip s) \<and> program \<noteq> None)"

text \<open>
  \<open>submit._validate_remote_submit_fields\<close> for the fields a broker intent passes: no
  scheduler target, array, chain, dependency or runtime bundle. The final \<open>JobSpec\<close>
  construction checks the field bounds and the name patterns.
\<close>

definition remote_submit_fields_ok :: "broker_intent \<Rightarrow> bool" where
  "remote_submit_fields_ok i \<longleftrightarrow>
     expected_sha_ok (in_expected_sha i) (in_program i)
     \<and> in_command i \<noteq> [] \<and> 1 \<le> in_cpus i \<and> 1 \<le> in_mem_mb i
     \<and> (case in_wall_time_seconds i of None \<Rightarrow> True | Some w \<Rightarrow> 1 \<le> w)
     \<and> 0 \<le> in_retry i \<and> 0 \<le> in_rerun_max i
     \<and> check_job_name (in_job_name i) = Inr (in_job_name i)
     \<and> check_program (in_program i) = Inr (in_program i)
     \<and> check_tags (in_tags i) \<noteq> Inl InvalidTag"

definition runtime_bounds_ok :: "pyval list option \<Rightarrow> bool" where
  "runtime_bounds_ok b = (case b of
      None \<Rightarrow> True
    | Some [lo, hi] \<Rightarrow> finite_number lo \<and> finite_number hi \<and> 0 \<le> number_of lo \<and> number_of lo \<le> number_of hi
    | _ \<Rightarrow> False)"

definition placement_request_of :: "broker_intent \<Rightarrow> value_error + placement_request" where
  "placement_request_of i = make_placement_request (in_cpus i) (in_mem_mb i) (in_pool i)
     (map_option (\<lambda>w. Fin (of_int w)) (in_wall_time_seconds i))"

definition make_intent :: "broker_intent \<Rightarrow> broker_error + broker_intent" where
  "make_intent i =
     (if in_command i = [] then Inl BrokerStoreError
      else if in_pool i = Some [] then Inl BrokerStoreError
      else if \<not> runtime_bounds_ok (in_runtime_seconds i) then Inl BrokerStoreError
      else case placement_request_of i of
        Inl _ \<Rightarrow> Inl BrokerStoreError
      | Inr _ \<Rightarrow>
          if command_head_ok (in_command i) \<and> remote_submit_fields_ok i then Inr i
          else Inl BrokerStoreError)"

abbreviation valid_intent :: "broker_intent \<Rightarrow> bool" where
  "valid_intent i \<equiv> make_intent i = Inr i"

section \<open>Attempts and consistency\<close>

definition current_attempt :: "broker_record \<Rightarrow> broker_attempt option" where
  "current_attempt r = (if br_attempts r = [] then None else Some (last (br_attempts r)))"

definition FENCED_RETURN_PREFIX :: string where
  "FENCED_RETURN_PREFIX = ''fenced on target: ''"

definition attempt_started :: "broker_attempt \<Rightarrow> bool" where
  "attempt_started a \<longleftrightarrow> at_transfer_started_at a \<noteq> None \<or> at_request_fingerprint a \<noteq> None"

definition attempt_consistent :: "broker_attempt \<Rightarrow> bool" where
  "attempt_consistent a \<longleftrightarrow>
     (at_phase a \<in> {Transferring, Placed} \<longrightarrow>
        at_transfer_started_at a \<noteq> None \<and> at_request_fingerprint a \<noteq> None)
     \<and> (at_phase a = Returned \<and> attempt_started a \<longrightarrow>
          starts_with FENCED_RETURN_PREFIX (the_or [] (at_return_reason a)))
     \<and> (at_phase a = Placed \<longleftrightarrow> at_target_job_id a \<noteq> None)
     \<and> (at_phase a = Returned \<longleftrightarrow> at_returned_at a \<noteq> None)
     \<and> \<not> (at_phase a \<in> {Reserved, Transferring} \<and> at_charge_released_at a \<noteq> None)"

definition expected_phase :: "broker_state \<Rightarrow> broker_state option \<Rightarrow> bool" where
  "expected_phase s p = (case s of
      Held \<Rightarrow> p \<in> {None, Some Returned}
    | Cancelled \<Rightarrow> p \<in> {None, Some Returned}
    | Reserved \<Rightarrow> p = Some Reserved
    | Transferring \<Rightarrow> p = Some Transferring
    | Placed \<Rightarrow> p = Some Placed
    | Returned \<Rightarrow> p = Some Returned)"

definition check_consistency :: "broker_record \<Rightarrow> bool" where
  "check_consistency r \<longleftrightarrow>
     \<not> (br_held_blockers r \<noteq> [] \<and> br_state r \<notin> {Held, Cancelled})
     \<and> list_all (\<lambda>a. at_phase a = Returned \<and> at_charge_released_at a \<noteq> None) (butlast (br_attempts r))
     \<and> list_all attempt_consistent (br_attempts r)
     \<and> expected_phase (br_state r) (map_option at_phase (current_attempt r))
     \<and> (br_state r \<in> {Held, Cancelled} \<longrightarrow>
          (case current_attempt r of None \<Rightarrow> True | Some a \<Rightarrow> at_charge_released_at a \<noteq> None))
     \<and> (br_state r = Cancelled \<longrightarrow>
          (case br_cancellation r of None \<Rightarrow> False | Some c \<Rightarrow> cn_completed_at c \<noteq> None))
     \<and> (br_state r \<noteq> Cancelled \<longrightarrow>
          (case br_cancellation r of None \<Rightarrow> True | Some c \<Rightarrow> cn_completed_at c = None))"

section \<open>Fingerprints\<close>

definition py_opt :: "('a \<Rightarrow> pyval) \<Rightarrow> 'a option \<Rightarrow> pyval" where
  "py_opt f v = (case v of None \<Rightarrow> PyNone | Some x \<Rightarrow> f x)"

definition intent_json :: "broker_intent \<Rightarrow> pyval" where
  "intent_json i = PyDict ([
     (''command'', PyList (map PyStr (in_command i))),
     (''cpus'', PyInt (in_cpus i)),
     (''mem_mb'', PyInt (in_mem_mb i)),
     (''wall_time_seconds'', py_opt PyInt (in_wall_time_seconds i)),
     (''priority'', PyInt (in_priority i)),
     (''auto_resume'', PyBool (in_auto_resume i)),
     (''retry'', PyInt (in_retry i)),
     (''job_name'', py_opt PyStr (in_job_name i)),
     (''program'', py_opt PyStr (in_program i)),
     (''expected_sha'', py_opt PyStr (in_expected_sha i)),
     (''tags'', PyList (map PyStr (in_tags i))),
     (''clean_workdir_on_terminal'', PyBool (in_clean_workdir_on_terminal i)),
     (''rerun_until_file_exists'', py_opt PyStr (in_rerun_until_file_exists i)),
     (''rerun_max'', PyInt (in_rerun_max i)),
     (''pool'', py_opt PyStr (in_pool i))]
     @ (case in_runtime_seconds i of None \<Rightarrow> []
        | Some bounds \<Rightarrow> [(''runtime_seconds'', PyList bounds)]))"

definition intent_digest :: "broker_env \<Rightarrow> broker_record \<Rightarrow> string" where
  "intent_digest env r = e_digest env (intent_json (br_intent r))"

definition transfer_fingerprint :: "broker_env \<Rightarrow> broker_record \<Rightarrow> broker_attempt \<Rightarrow> string" where
  "transfer_fingerprint env r a = e_digest env (PyDict ([
     (''schema'', PyStr ''vq.broker-transfer.v1''),
     (''target_host'', PyStr (at_target_host a)),
     (''target_state_root'', PyStr (at_target_state_root a)),
     (''idempotency_key'', PyStr (at_idempotency_key a)),
     (''intent_digest'', PyStr (intent_digest env r)),
     (''payload_sha256'', PyStr (br_payload_sha256 r))]
     @ (case map_of (at_snapshot a) ''authority'' of None \<Rightarrow> [] | Some v \<Rightarrow> [(''authority'', v)])
     @ (case map_of (at_snapshot a) ''runtime_pins'' of None \<Rightarrow> [] | Some v \<Rightarrow> [(''runtime_pins'', v)])))"

end
