(* ===== verification/Broker_Codec.thy ===== *)
theory Broker_Codec
  imports Broker_Record
begin

text \<open>
  The JSON form of the broker record: \<open>to_json\<close> of every data class and the parser
  \<open>parse_record\<close> with its helpers, \<open>broker_store.py\<close>.

  A JSON value is a \<open>pyval\<close>; the text encoding between \<open>json.dumps\<close> and
  \<open>json.loads\<close> is the identity on values without infinities and NaN, which
  \<open>allow_nan=False\<close> refuses (\<open>finite_json\<close>). Keys of an object are distinct and read
  by name, so their order matters only where the parser sorts them (held blockers). The main
  results: the parser yields only well-formed, consistent records, and printing such a record
  and parsing it again gives the record.
\<close>

section \<open>Printing\<close>

primrec state_str :: "broker_state \<Rightarrow> string" where
  "state_str Held = ''held''"
| "state_str Reserved = ''reserved''"
| "state_str Transferring = ''transferring''"
| "state_str Placed = ''placed''"
| "state_str Returned = ''returned''"
| "state_str Cancelled = ''cancelled''"

definition STATES :: "broker_state list" where
  "STATES = [Held, Reserved, Transferring, Placed, Returned, Cancelled]"

definition ATTEMPT_PHASES :: "broker_state list" where
  "ATTEMPT_PHASES = [Reserved, Transferring, Placed, Returned]"

definition time_json :: "rat \<Rightarrow> pyval" where
  "time_json t = PyFloat (Fin t)"

definition charge_json :: "broker_charge \<Rightarrow> pyval" where
  "charge_json c = PyDict [(''cpus'', PyInt (ch_cpus c)), (''mem_mb'', PyInt (ch_mem_mb c)),
     (''job_slots'', PyInt (ch_job_slots c))]"

definition attempt_json :: "broker_attempt \<Rightarrow> pyval" where
  "attempt_json a = PyDict [
     (''number'', PyInt (at_number a)),
     (''phase'', PyStr (state_str (at_phase a))),
     (''target_host'', PyStr (at_target_host a)),
     (''target_state_root'', PyStr (at_target_state_root a)),
     (''reservation_id'', PyStr (at_reservation_id a)),
     (''charge'', charge_json (at_charge a)),
     (''decided_at'', time_json (at_decided_at a)),
     (''snapshot'', PyDict (at_snapshot a)),
     (''ranking'', PyList (at_ranking a)),
     (''blockers'', PyDict (at_blockers a)),
     (''idempotency_key'', PyStr (at_idempotency_key a)),
     (''request_fingerprint'', py_opt PyStr (at_request_fingerprint a)),
     (''transfer_started_at'', py_opt time_json (at_transfer_started_at a)),
     (''target_job_id'', py_opt PyStr (at_target_job_id a)),
     (''accepted_at'', py_opt time_json (at_accepted_at a)),
     (''returned_at'', py_opt time_json (at_returned_at a)),
     (''return_reason'', py_opt PyStr (at_return_reason a)),
     (''charge_released_at'', py_opt time_json (at_charge_released_at a)),
     (''diagnostics'', PyList (map PyStr (at_diagnostics a)))]"

definition cancellation_json :: "broker_cancellation \<Rightarrow> pyval" where
  "cancellation_json c = PyDict [(''requested_at'', time_json (cn_requested_at c)),
     (''reason'', PyStr (cn_reason c)), (''completed_at'', py_opt time_json (cn_completed_at c))]"

definition RECORD_SCHEMA :: string where "RECORD_SCHEMA = ''vq.broker-record.v1''"

definition dict_of :: "('k \<times> 'v) list \<Rightarrow> ('k \<times> 'v) list" where
  "dict_of kvs = foldl (\<lambda>d (k, v). AList.update k v d) [] kvs"

definition record_json :: "broker_env \<Rightarrow> broker_record \<Rightarrow> pyval" where
  "record_json env r = PyDict ([
     (''schema'', PyStr RECORD_SCHEMA),
     (''broker_job_id'', PyStr (br_id r)),
     (''revision'', PyInt (br_revision r)),
     (''state'', PyStr (state_str (br_state r))),
     (''created_at'', time_json (br_created_at r)),
     (''updated_at'', time_json (br_updated_at r)),
     (''intent'', intent_json (br_intent r)),
     (''intent_digest'', PyStr (intent_digest env r)),
     (''payload'', PyDict [(''sha256'', PyStr (br_payload_sha256 r)), (''size'', PyInt (br_payload_size r))]),
     (''attempts'', PyList (map attempt_json (br_attempts r))),
     (''cancellation'', py_opt cancellation_json (br_cancellation r))]
     @ (if br_held_blockers r = [] then []
        else [(''held_blockers'', PyDict (map (\<lambda>(h, w). (h, PyStr w)) (dict_of (br_held_blockers r))))]))"

fun finite_json :: "pyval \<Rightarrow> bool" where
  "finite_json (PyFloat x) = is_finite x"
| "finite_json (PyList vs) = list_all finite_json vs"
| "finite_json (PyDict kvs) = list_all (\<lambda>kv. finite_json (snd kv)) kvs"
| "finite_json _ = True"

section \<open>Parsing\<close>

text \<open>
  Every refusal inside \<open>parse_record\<close> is \<open>BrokerRecordCorrupt\<close>, with one exception:
  the membership tests \<open>raw["state"] not in STATES\<close> and
  \<open>raw["phase"] not in _ATTEMPT_PHASES\<close> hash the value first, so a JSON array or object
  there raises \<open>TypeError\<close>.
\<close>

definition corrupt_unless :: "bool \<Rightarrow> 'a \<Rightarrow> broker_error + 'a" where
  "corrupt_unless ok x = (if ok then Inr x else Inl BrokerRecordCorrupt)"

definition exact_keys :: "pyval \<Rightarrow> string list \<Rightarrow> broker_error + (string \<times> pyval) list" where
  "exact_keys v keys = (case v of
      PyDict d \<Rightarrow> corrupt_unless (set (map fst d) = set keys) d
    | _ \<Rightarrow> Inl BrokerRecordCorrupt)"

definition field :: "(string \<times> pyval) list \<Rightarrow> string \<Rightarrow> pyval" where
  "field d k = the_or PyNone (map_of d k)"

definition get_str :: "pyval \<Rightarrow> broker_error + string" where
  "get_str v = (case v of PyStr s \<Rightarrow> Inr s | _ \<Rightarrow> Inl BrokerRecordCorrupt)"

definition get_int :: "pyval \<Rightarrow> broker_error + int" where
  "get_int v = (case v of PyInt n \<Rightarrow> Inr n | _ \<Rightarrow> Inl BrokerRecordCorrupt)"

definition get_bool :: "pyval \<Rightarrow> broker_error + bool" where
  "get_bool v = (case v of PyBool b \<Rightarrow> Inr b | _ \<Rightarrow> Inl BrokerRecordCorrupt)"

definition get_list :: "pyval \<Rightarrow> broker_error + pyval list" where
  "get_list v = (case v of PyList vs \<Rightarrow> Inr vs | _ \<Rightarrow> Inl BrokerRecordCorrupt)"

definition get_dict :: "pyval \<Rightarrow> broker_error + (string \<times> pyval) list" where
  "get_dict v = (case v of PyDict d \<Rightarrow> Inr d | _ \<Rightarrow> Inl BrokerRecordCorrupt)"

definition get_opt :: "(pyval \<Rightarrow> broker_error + 'a) \<Rightarrow> pyval \<Rightarrow> broker_error + 'a option" where
  "get_opt f v = (case v of PyNone \<Rightarrow> Inr None | _ \<Rightarrow> rbind (f v) (\<lambda>x. Inr (Some x)))"

fun get_all :: "(pyval \<Rightarrow> broker_error + 'a) \<Rightarrow> pyval list \<Rightarrow> broker_error + 'a list" where
  "get_all f [] = Inr []"
| "get_all f (v # vs) = rbind (f v) (\<lambda>x. rbind (get_all f vs) (\<lambda>xs. Inr (x # xs)))"

definition parse_time :: "pyval \<Rightarrow> broker_error + rat" where
  "parse_time v = corrupt_unless (finite_number v \<and> 0 \<le> number_of v) (number_of v)"

definition parse_opt_time :: "pyval \<Rightarrow> broker_error + rat option" where
  "parse_opt_time v = get_opt parse_time v"

definition parse_str :: "pyval \<Rightarrow> broker_error + string" where
  "parse_str v = rbind (get_str v) (\<lambda>s. corrupt_unless (s \<noteq> []) s)"

definition parse_positive_int :: "pyval \<Rightarrow> broker_error + int" where
  "parse_positive_int v = rbind (get_int v) (\<lambda>n. corrupt_unless (0 < n) n)"

definition INTENT_KEYS :: "string list" where
  "INTENT_KEYS = [''command'', ''cpus'', ''mem_mb'', ''wall_time_seconds'', ''priority'', ''auto_resume'',
     ''retry'', ''job_name'', ''program'', ''expected_sha'', ''tags'', ''clean_workdir_on_terminal'',
     ''rerun_until_file_exists'', ''rerun_max'', ''pool'']"

definition has_key :: "pyval \<Rightarrow> string \<Rightarrow> bool" where
  "has_key v k = (case v of PyDict d \<Rightarrow> k \<in> set (map fst d) | _ \<Rightarrow> False)"

definition intent_from_json :: "pyval \<Rightarrow> broker_error + broker_intent" where
  "intent_from_json v =
     rbind (exact_keys v (INTENT_KEYS @ (if has_key v ''runtime_seconds'' then [''runtime_seconds''] else []))) (\<lambda>d.
     rbind (if has_key v ''runtime_seconds''
            then rbind (get_list (field d ''runtime_seconds'')) (\<lambda>b. Inr (Some b)) else Inr None) (\<lambda>bounds.
     rbind (rbind (get_list (field d ''command'')) (get_all get_str)) (\<lambda>command.
     rbind (rbind (get_list (field d ''tags'')) (get_all get_str)) (\<lambda>tags.
     rbind (get_bool (field d ''auto_resume'')) (\<lambda>auto_resume.
     rbind (get_bool (field d ''clean_workdir_on_terminal'')) (\<lambda>clean.
     rbind (get_int (field d ''priority'')) (\<lambda>priority.
     rbind (get_int (field d ''retry'')) (\<lambda>retry.
     rbind (get_int (field d ''rerun_max'')) (\<lambda>rerun_max.
     rbind (get_opt get_int (field d ''wall_time_seconds'')) (\<lambda>wall.
     rbind (get_opt get_str (field d ''job_name'')) (\<lambda>job_name.
     rbind (get_opt get_str (field d ''program'')) (\<lambda>program.
     rbind (get_opt get_str (field d ''expected_sha'')) (\<lambda>sha.
     rbind (get_opt get_str (field d ''rerun_until_file_exists'')) (\<lambda>until.
     rbind (get_opt get_str (field d ''pool'')) (\<lambda>pool.
     rbind (get_int (field d ''cpus'')) (\<lambda>cpus.
     rbind (get_int (field d ''mem_mb'')) (\<lambda>mem.
       case make_intent \<lparr>in_command = command, in_cpus = cpus, in_mem_mb = mem,
              in_wall_time_seconds = wall, in_priority = priority, in_auto_resume = auto_resume,
              in_retry = retry, in_job_name = job_name, in_program = program, in_expected_sha = sha,
              in_tags = tags, in_clean_workdir_on_terminal = clean,
              in_rerun_until_file_exists = until, in_rerun_max = rerun_max, in_pool = pool,
              in_runtime_seconds = bounds\<rparr> of
         Inl _ \<Rightarrow> Inl BrokerRecordCorrupt
       | Inr i \<Rightarrow> Inr i)))))))))))))))))"

definition hex64 :: "string \<Rightarrow> bool" where
  "hex64 s \<longleftrightarrow> length s = 64 \<and> list_all is_lower_hex s"

definition parse_state :: "broker_state list \<Rightarrow> pyval \<Rightarrow> broker_error + broker_state" where
  "parse_state known v = (case v of
      PyStr s \<Rightarrow> (case find (\<lambda>st. state_str st = s) known of
         Some st \<Rightarrow> Inr st | None \<Rightarrow> Inl BrokerRecordCorrupt)
    | PyList _ \<Rightarrow> Inl TypeError
    | PyDict _ \<Rightarrow> Inl TypeError
    | _ \<Rightarrow> Inl BrokerRecordCorrupt)"

text \<open>\<open>raw["number"] != number\<close>: Python equality, so \<open>1.0\<close> and \<open>True\<close> equal 1.\<close>

definition equals_int :: "pyval \<Rightarrow> int \<Rightarrow> bool" where
  "equals_int v n = (case v of
      PyInt m \<Rightarrow> m = n
    | PyBool b \<Rightarrow> (if b then 1 else 0) = n
    | PyFloat (Fin x) \<Rightarrow> x = of_int n
    | _ \<Rightarrow> False)"

definition ATTEMPT_KEYS :: "string list" where
  "ATTEMPT_KEYS = [''number'', ''phase'', ''target_host'', ''target_state_root'', ''reservation_id'',
     ''charge'', ''decided_at'', ''snapshot'', ''ranking'', ''blockers'', ''idempotency_key'',
     ''request_fingerprint'', ''transfer_started_at'', ''target_job_id'', ''accepted_at'',
     ''returned_at'', ''return_reason'', ''charge_released_at'', ''diagnostics'']"

definition parse_charge :: "pyval \<Rightarrow> broker_error + broker_charge" where
  "parse_charge v = rbind (exact_keys v [''cpus'', ''mem_mb'', ''job_slots'']) (\<lambda>d.
     rbind (parse_positive_int (field d ''cpus'')) (\<lambda>c.
     rbind (parse_positive_int (field d ''mem_mb'')) (\<lambda>m.
     rbind (parse_positive_int (field d ''job_slots'')) (\<lambda>j.
       Inr \<lparr>ch_cpus = c, ch_mem_mb = m, ch_job_slots = j\<rparr>))))"

definition parse_job_id :: "pyval \<Rightarrow> broker_error + string" where
  "parse_job_id v = rbind (get_str v) (\<lambda>s.
     case validate_job_id s of Inr i \<Rightarrow> Inr i | Inl _ \<Rightarrow> Inl BrokerRecordCorrupt)"

definition parse_fingerprint :: "pyval \<Rightarrow> broker_error + string" where
  "parse_fingerprint v = rbind (get_str v) (\<lambda>s. corrupt_unless (hex64 s) s)"

definition parse_attempt :: "pyval \<Rightarrow> int \<Rightarrow> string \<Rightarrow> broker_error + broker_attempt" where
  "parse_attempt v number job_id =
     rbind (exact_keys v ATTEMPT_KEYS) (\<lambda>d.
     rbind (corrupt_unless (equals_int (field d ''number'') number) ()) (\<lambda>_.
     rbind (parse_state ATTEMPT_PHASES (field d ''phase'')) (\<lambda>phase.
     rbind (corrupt_unless (field d ''idempotency_key'' = PyStr job_id) job_id) (\<lambda>key.
     rbind (rbind (get_list (field d ''diagnostics'')) (get_all get_str)) (\<lambda>diagnostics.
     rbind (get_dict (field d ''snapshot'')) (\<lambda>snapshot.
     rbind (get_list (field d ''ranking'')) (\<lambda>ranking.
     rbind (get_dict (field d ''blockers'')) (\<lambda>blockers.
     rbind (get_opt parse_job_id (field d ''target_job_id'')) (\<lambda>target_job_id.
     rbind (get_opt parse_fingerprint (field d ''request_fingerprint'')) (\<lambda>fingerprint.
     rbind (parse_str (field d ''target_host'')) (\<lambda>target_host.
     rbind (parse_str (field d ''target_state_root'')) (\<lambda>target_state_root.
     rbind (parse_str (field d ''reservation_id'')) (\<lambda>reservation_id.
     rbind (parse_charge (field d ''charge'')) (\<lambda>charge.
     rbind (parse_time (field d ''decided_at'')) (\<lambda>decided_at.
     rbind (parse_opt_time (field d ''transfer_started_at'')) (\<lambda>started.
     rbind (parse_opt_time (field d ''accepted_at'')) (\<lambda>accepted.
     rbind (parse_opt_time (field d ''returned_at'')) (\<lambda>returned.
     rbind (get_opt parse_str (field d ''return_reason'')) (\<lambda>reason.
     rbind (parse_opt_time (field d ''charge_released_at'')) (\<lambda>released.
       Inr \<lparr>at_number = number, at_phase = phase, at_target_host = target_host,
            at_target_state_root = target_state_root, at_reservation_id = reservation_id,
            at_charge = charge, at_decided_at = decided_at, at_snapshot = snapshot,
            at_ranking = ranking, at_blockers = blockers, at_idempotency_key = key,
            at_request_fingerprint = fingerprint, at_transfer_started_at = started,
            at_target_job_id = target_job_id, at_accepted_at = accepted, at_returned_at = returned,
            at_return_reason = reason, at_charge_released_at = released,
            at_diagnostics = diagnostics\<rparr>))))))))))))))))))))"

fun parse_attempts :: "pyval list \<Rightarrow> int \<Rightarrow> string \<Rightarrow> broker_error + broker_attempt list" where
  "parse_attempts [] n job_id = Inr []"
| "parse_attempts (v # vs) n job_id =
     rbind (parse_attempt v n job_id) (\<lambda>a. rbind (parse_attempts vs (n + 1) job_id) (\<lambda>as. Inr (a # as)))"

definition parse_cancellation :: "pyval \<Rightarrow> broker_error + broker_cancellation" where
  "parse_cancellation v = rbind (exact_keys v [''requested_at'', ''reason'', ''completed_at'']) (\<lambda>d.
     rbind (parse_time (field d ''requested_at'')) (\<lambda>t.
     rbind (parse_str (field d ''reason'')) (\<lambda>s.
     rbind (parse_opt_time (field d ''completed_at'')) (\<lambda>c.
       Inr \<lparr>cn_requested_at = t, cn_reason = s, cn_completed_at = c\<rparr>))))"

definition parse_blocker :: "string \<times> pyval \<Rightarrow> broker_error + string \<times> string" where
  "parse_blocker kv = rbind (parse_str (snd kv)) (\<lambda>w. corrupt_unless (fst kv \<noteq> []) (fst kv, w))"

fun parse_blockers :: "(string \<times> pyval) list \<Rightarrow> broker_error + (string \<times> string) list" where
  "parse_blockers [] = Inr []"
| "parse_blockers (kv # kvs) =
     rbind (parse_blocker kv) (\<lambda>b. rbind (parse_blockers kvs) (\<lambda>bs. Inr (b # bs)))"

definition RECORD_KEYS :: "string list" where
  "RECORD_KEYS = [''schema'', ''broker_job_id'', ''revision'', ''state'', ''created_at'', ''updated_at'',
     ''intent'', ''intent_digest'', ''payload'', ''attempts'', ''cancellation'']"

definition parse_record :: "broker_env \<Rightarrow> pyval \<Rightarrow> broker_error + broker_record" where
  "parse_record env v =
     rbind (exact_keys v (RECORD_KEYS @ (if has_key v ''held_blockers'' then [''held_blockers''] else []))) (\<lambda>d.
     rbind (if has_key v ''held_blockers''
            then rbind (get_dict (field d ''held_blockers'')) parse_blockers else Inr []) (\<lambda>blockers.
     rbind (corrupt_unless (field d ''schema'' = PyStr RECORD_SCHEMA) ()) (\<lambda>_.
     rbind (rbind (get_str (field d ''broker_job_id'')) (\<lambda>s. corrupt_unless (broker_job_id_match s) s)) (\<lambda>job_id.
     rbind (parse_state STATES (field d ''state'')) (\<lambda>state.
     rbind (intent_from_json (field d ''intent'')) (\<lambda>intent.
     rbind (corrupt_unless (field d ''intent_digest'' = PyStr (e_digest env (intent_json intent))) ()) (\<lambda>_.
     rbind (exact_keys (field d ''payload'') [''sha256'', ''size'']) (\<lambda>payload.
     rbind (parse_fingerprint (field payload ''sha256'')) (\<lambda>sha256.
     rbind (rbind (get_int (field payload ''size'')) (\<lambda>n. corrupt_unless (0 \<le> n) n)) (\<lambda>size.
     rbind (rbind (get_list (field d ''attempts''))
              (\<lambda>vs. corrupt_unless (length vs \<le> ATTEMPTS_MAX) vs)) (\<lambda>attempts_raw.
     rbind (get_opt parse_cancellation (field d ''cancellation'')) (\<lambda>cancellation.
     rbind (parse_positive_int (field d ''revision'')) (\<lambda>revision.
     rbind (parse_time (field d ''created_at'')) (\<lambda>created.
     rbind (parse_time (field d ''updated_at'')) (\<lambda>updated.
     rbind (parse_attempts attempts_raw 1 job_id) (\<lambda>attempts.
     let r = \<lparr>br_id = job_id, br_revision = revision, br_state = state, br_created_at = created,
          br_updated_at = updated, br_intent = intent, br_payload_sha256 = sha256,
          br_payload_size = size, br_attempts = attempts, br_cancellation = cancellation,
          br_held_blockers = sort blockers\<rparr>
     in corrupt_unless (check_consistency r) r))))))))))))))))"

section \<open>Well-formed records\<close>

definition attempt_wf :: "string \<Rightarrow> int \<Rightarrow> broker_attempt \<Rightarrow> bool" where
  "attempt_wf job_id n a \<longleftrightarrow>
     at_number a = n \<and> at_phase a \<in> set ATTEMPT_PHASES \<and> at_idempotency_key a = job_id
     \<and> at_target_host a \<noteq> [] \<and> at_target_state_root a \<noteq> [] \<and> at_reservation_id a \<noteq> []
     \<and> 0 < ch_cpus (at_charge a) \<and> 0 < ch_mem_mb (at_charge a) \<and> 0 < ch_job_slots (at_charge a)
     \<and> 0 \<le> at_decided_at a
     \<and> pred_option hex64 (at_request_fingerprint a)
     \<and> pred_option (\<lambda>t. 0 \<le> t) (at_transfer_started_at a)
     \<and> pred_option (\<lambda>j. validate_job_id j = Inr j) (at_target_job_id a)
     \<and> pred_option (\<lambda>t. 0 \<le> t) (at_accepted_at a)
     \<and> pred_option (\<lambda>t. 0 \<le> t) (at_returned_at a)
     \<and> pred_option (\<lambda>s. s \<noteq> []) (at_return_reason a)
     \<and> pred_option (\<lambda>t. 0 \<le> t) (at_charge_released_at a)"

fun attempts_wf :: "string \<Rightarrow> int \<Rightarrow> broker_attempt list \<Rightarrow> bool" where
  "attempts_wf job_id n [] = True"
| "attempts_wf job_id n (a # as) = (attempt_wf job_id n a \<and> attempts_wf job_id (n + 1) as)"

definition cancellation_wf :: "broker_cancellation \<Rightarrow> bool" where
  "cancellation_wf c \<longleftrightarrow> 0 \<le> cn_requested_at c \<and> cn_reason c \<noteq> []
     \<and> pred_option (\<lambda>t. 0 \<le> t) (cn_completed_at c)"

definition blockers_wf :: "(string \<times> string) list \<Rightarrow> bool" where
  "blockers_wf bs = list_all (\<lambda>(h, w). h \<noteq> [] \<and> w \<noteq> []) (dict_of bs)"

definition record_wf :: "broker_record \<Rightarrow> bool" where
  "record_wf r \<longleftrightarrow>
     broker_job_id_match (br_id r) \<and> 0 < br_revision r \<and> 0 \<le> br_created_at r \<and> 0 \<le> br_updated_at r
     \<and> valid_intent (br_intent r) \<and> hex64 (br_payload_sha256 r) \<and> 0 \<le> br_payload_size r
     \<and> length (br_attempts r) \<le> ATTEMPTS_MAX \<and> attempts_wf (br_id r) 1 (br_attempts r)
     \<and> pred_option cancellation_wf (br_cancellation r) \<and> blockers_wf (br_held_blockers r)"

text \<open>What reading a printed record back gives: its held blockers as a sorted dictionary.\<close>

definition as_read :: "broker_record \<Rightarrow> broker_record" where
  "as_read r = r\<lparr>br_held_blockers := sort (dict_of (br_held_blockers r))\<rparr>"

section \<open>Parsing what was printed\<close>

lemma corrupt_unless_Inr [simp]: "corrupt_unless p x = Inr y \<longleftrightarrow> p \<and> x = y"
  by (simp add: corrupt_unless_def)

lemma corrupt_unless_True [simp]: "corrupt_unless True x = Inr x"
  by (simp add: corrupt_unless_def)

lemma get_simps [simp]:
  "get_str (PyStr s) = Inr s" "get_int (PyInt n) = Inr n" "get_bool (PyBool b) = Inr b"
  "get_list (PyList vs) = Inr vs" "get_dict (PyDict d) = Inr d"
  by (simp_all add: get_str_def get_int_def get_bool_def get_list_def get_dict_def)

lemma get_str_Inr [simp]: "get_str v = Inr s \<longleftrightarrow> v = PyStr s"
  by (auto simp: get_str_def split: pyval.splits)

lemma get_int_Inr [simp]: "get_int v = Inr n \<longleftrightarrow> v = PyInt n"
  by (auto simp: get_int_def split: pyval.splits)

lemma get_all_map [simp]: "get_all get_str (map PyStr xs) = Inr xs"
  by (induction xs) auto

lemma get_opt_py_opt:
  assumes "\<And>x. v = Some x \<Longrightarrow> f (g x) = Inr x" "\<And>x. g x \<noteq> PyNone"
  shows "get_opt f (py_opt g v) = Inr v"
  using assms by (cases v) (auto simp: get_opt_def py_opt_def split: pyval.splits)

lemma get_opt_str [simp]: "get_opt get_str (py_opt PyStr v) = Inr v"
  by (rule get_opt_py_opt) auto

lemma get_opt_int [simp]: "get_opt get_int (py_opt PyInt v) = Inr v"
  by (rule get_opt_py_opt) auto

lemma parse_time_json [simp]: "0 \<le> t \<Longrightarrow> parse_time (time_json t) = Inr t"
  by (simp add: parse_time_def time_json_def finite_number_def number_of_def)

lemma parse_opt_time_json [simp]:
  "pred_option (\<lambda>t. 0 \<le> t) v \<Longrightarrow> parse_opt_time (py_opt time_json v) = Inr v"
  unfolding parse_opt_time_def by (rule get_opt_py_opt) (auto simp: time_json_def parse_time_json [unfolded time_json_def])

lemma parse_str_PyStr [simp]: "s \<noteq> [] \<Longrightarrow> parse_str (PyStr s) = Inr s"
  by (simp add: parse_str_def)

lemma parse_positive_PyInt [simp]: "0 < n \<Longrightarrow> parse_positive_int (PyInt n) = Inr n"
  by (simp add: parse_positive_int_def)

lemma state_str_inject [simp]: "state_str a = state_str b \<longleftrightarrow> a = b"
  by (cases a; cases b) auto

lemma parse_state_str [simp]: "s \<in> set known \<Longrightarrow> parse_state known (PyStr (state_str s)) = Inr s"
  by (auto simp: parse_state_def find_None_iff find_Some_iff split: option.splits)

lemma parse_charge_json [simp]:
  "0 < ch_cpus c \<Longrightarrow> 0 < ch_mem_mb c \<Longrightarrow> 0 < ch_job_slots c \<Longrightarrow> parse_charge (charge_json c) = Inr c"
  by (simp add: parse_charge_def charge_json_def exact_keys_def field_def)

lemma parse_cancellation_json [simp]: "cancellation_wf c \<Longrightarrow> parse_cancellation (cancellation_json c) = Inr c"
  by (simp add: parse_cancellation_def cancellation_json_def exact_keys_def field_def cancellation_wf_def)

lemma intent_from_json_json: "valid_intent i \<Longrightarrow> intent_from_json (intent_json i) = Inr i"
  by (cases i; cases "in_runtime_seconds i")
    (simp_all add: intent_from_json_def intent_json_def exact_keys_def field_def has_key_def INTENT_KEYS_def)

lemma parse_attempt_json: "attempt_wf job_id n a \<Longrightarrow> parse_attempt (attempt_json a) n job_id = Inr a"
proof -
  assume wf: "attempt_wf job_id n a"
  have "get_opt parse_job_id (py_opt PyStr (at_target_job_id a)) = Inr (at_target_job_id a)"
    using wf by (intro get_opt_py_opt) (auto simp: attempt_wf_def parse_job_id_def)
  moreover have "get_opt parse_fingerprint (py_opt PyStr (at_request_fingerprint a)) = Inr (at_request_fingerprint a)"
    using wf by (intro get_opt_py_opt) (auto simp: attempt_wf_def parse_fingerprint_def)
  moreover have "get_opt parse_str (py_opt PyStr (at_return_reason a)) = Inr (at_return_reason a)"
    using wf by (intro get_opt_py_opt) (auto simp: attempt_wf_def)
  ultimately show ?thesis using wf
    by (simp add: parse_attempt_def attempt_json_def exact_keys_def field_def ATTEMPT_KEYS_def
        attempt_wf_def equals_int_def)
qed

lemma parse_attempts_json: "attempts_wf job_id n as \<Longrightarrow> parse_attempts (map attempt_json as) n job_id = Inr as"
  by (induction as arbitrary: n) (simp_all add: parse_attempt_json)

section \<open>The held blockers\<close>

lemma dict_of_foldl:
  "distinct (map fst d) \<Longrightarrow> distinct (map fst (foldl (\<lambda>d (k, v). AList.update k v d) d kvs))"
  by (induction kvs arbitrary: d) (auto simp: distinct_update)

lemma distinct_dict_of [simp]: "distinct (map fst (dict_of kvs))"
  by (simp add: dict_of_def dict_of_foldl)

lemma set_update_subset: "set (AList.update k v d) \<subseteq> insert (k, v) (set d)"
  by (induction d) auto

lemma foldl_update_subset: "set (foldl (\<lambda>d (k, v). AList.update k v d) d kvs) \<subseteq> set d \<union> set kvs"
proof (induction kvs arbitrary: d)
  case (Cons kv kvs)
  then show ?case using set_update_subset [of "fst kv" "snd kv" d] by (cases kv) fastforce
qed simp

lemma set_dict_of: "set (dict_of kvs) \<subseteq> set kvs"
  using foldl_update_subset [of "[]" kvs] by (simp add: dict_of_def)

lemma dict_of_foldl_distinct:
  "distinct (map fst (d @ kvs)) \<Longrightarrow> foldl (\<lambda>d (k, v). AList.update k v d) d kvs = d @ kvs"
proof (induction kvs arbitrary: d)
  case (Cons kv kvs)
  moreover have "AList.update (fst kv) (snd kv) d = d @ [kv]"
    using Cons.prems by (induction d) auto
  ultimately show ?case by (simp add: case_prod_beta)
qed simp

lemma dict_of_distinct: "distinct (map fst kvs) \<Longrightarrow> dict_of kvs = kvs"
  using dict_of_foldl_distinct [of "[]" kvs] by (simp add: dict_of_def)

lemma dict_of_Nil [simp]: "dict_of [] = []"
  by (simp add: dict_of_def)

lemma dict_of_Nil_iff [simp]: "dict_of kvs = [] \<longleftrightarrow> kvs = []"
proof (cases kvs)
  case (Cons kv kvs')
  have "foldl (\<lambda>d (k, v). AList.update k v d) d xs \<noteq> []" if "d \<noteq> []" for d :: "('a \<times> 'b) list" and xs
    using that
  proof (induction xs arbitrary: d)
    case (Cons x xs)
    then show ?case by (cases x; cases d) (auto split: if_splits)
  qed simp
  then show ?thesis using Cons by (cases kv) (auto simp: dict_of_def)
qed (simp add: dict_of_def)

lemma parse_blockers_json:
  "list_all (\<lambda>(h, w). h \<noteq> [] \<and> w \<noteq> []) bs \<Longrightarrow> parse_blockers (map (\<lambda>(h, w). (h, PyStr w)) bs) = Inr bs"
  by (induction bs) (auto simp: parse_blocker_def)

lemma blockers_wfI: "list_all (\<lambda>(h, w). h \<noteq> [] \<and> w \<noteq> []) bs \<Longrightarrow> blockers_wf bs"
  using set_dict_of [of bs] by (auto simp: blockers_wf_def list_all_iff)

lemma parse_blockers_json_wf:
  "parse_blockers (map (\<lambda>(h, w). (h, PyStr w)) bs) = Inr ys \<Longrightarrow> list_all (\<lambda>(h, w). h \<noteq> [] \<and> w \<noteq> []) bs"
  by (induction bs arbitrary: ys) (auto simp: parse_blocker_def parse_str_def)

lemma parse_record_json_blockers:
  "parse_record env (record_json env r) = Inr s \<Longrightarrow> blockers_wf (br_held_blockers r)"
  by (cases "br_held_blockers r = []")
    (auto simp: blockers_wf_def parse_record_def record_json_def exact_keys_def field_def has_key_def
      RECORD_KEYS_def dest: parse_blockers_json_wf)

lemma as_read_sel [simp]:
  "br_id (as_read r) = br_id r" "br_revision (as_read r) = br_revision r"
  "br_state (as_read r) = br_state r" "br_created_at (as_read r) = br_created_at r"
  "br_updated_at (as_read r) = br_updated_at r" "br_intent (as_read r) = br_intent r"
  "br_payload_sha256 (as_read r) = br_payload_sha256 r" "br_payload_size (as_read r) = br_payload_size r"
  "br_attempts (as_read r) = br_attempts r" "br_cancellation (as_read r) = br_cancellation r"
  "br_held_blockers (as_read r) = sort (dict_of (br_held_blockers r))"
  by (simp_all add: as_read_def)

lemma check_consistency_as_read [simp]: "check_consistency (as_read r) = check_consistency r"
  by (simp add: check_consistency_def current_attempt_def)

lemma parse_record_json:
  assumes "record_wf r" "check_consistency r"
  shows "parse_record env (record_json env r) = Inr (as_read r)"
proof -
  have canc: "get_opt parse_cancellation (py_opt cancellation_json (br_cancellation r)) = Inr (br_cancellation r)"
    using assms(1) by (intro get_opt_py_opt) (auto simp: record_wf_def cancellation_json_def
        parse_cancellation_json [unfolded cancellation_json_def])
  have st: "br_state r \<in> set STATES" by (cases "br_state r") (simp_all add: STATES_def)
  have cons: "check_consistency (r\<lparr>br_held_blockers := sort (dict_of (br_held_blockers r))\<rparr>)"
    using assms(2) check_consistency_as_read [of r] by (simp add: as_read_def)
  have bl: "parse_blockers (map (\<lambda>(h, w). (h, PyStr w)) (dict_of (br_held_blockers r))) = Inr (dict_of (br_held_blockers r))"
    using assms(1) by (intro parse_blockers_json) (simp add: record_wf_def blockers_wf_def)
  show ?thesis
    using assms canc st cons bl
    by (cases r; cases "br_held_blockers r = []")
      (simp_all add: parse_record_def record_json_def exact_keys_def field_def has_key_def RECORD_KEYS_def
        record_wf_def intent_from_json_json intent_digest_def parse_fingerprint_def
        parse_attempts_json as_read_def Let_def)
qed

section \<open>The parser yields well-formed, consistent records\<close>

lemma parse_time_Inr: "parse_time v = Inr t \<Longrightarrow> 0 \<le> t"
  by (auto simp: parse_time_def)

lemma parse_str_Inr: "parse_str v = Inr s \<Longrightarrow> s \<noteq> []"
  by (auto simp: parse_str_def)

lemma get_opt_Inr: "get_opt f v = Inr m \<Longrightarrow> (\<And>x. f v = Inr x \<Longrightarrow> P x) \<Longrightarrow> pred_option P m"
  by (auto simp: get_opt_def split: pyval.splits)

lemma parse_opt_time_Inr: "parse_opt_time v = Inr m \<Longrightarrow> pred_option (\<lambda>t. 0 \<le> t) m"
  unfolding parse_opt_time_def by (erule get_opt_Inr) (rule parse_time_Inr)

lemma parse_charge_Inr:
  "parse_charge v = Inr c \<Longrightarrow> 0 < ch_cpus c \<and> 0 < ch_mem_mb c \<and> 0 < ch_job_slots c"
  by (auto simp: parse_charge_def parse_positive_int_def)

lemma parse_state_Inr: "parse_state known v = Inr s \<Longrightarrow> s \<in> set known"
  by (auto simp: parse_state_def find_Some_iff split: pyval.splits option.splits)

lemma validate_job_id_Inr: "validate_job_id s = Inr i \<Longrightarrow> i = s \<and> validate_job_id i = Inr i"
  by (auto simp: validate_job_id_def split: if_splits)

lemma parse_job_id_Inr: "parse_job_id v = Inr i \<Longrightarrow> validate_job_id i = Inr i"
  by (auto simp: parse_job_id_def dest: validate_job_id_Inr)

lemma parse_fingerprint_Inr: "parse_fingerprint v = Inr s \<Longrightarrow> hex64 s"
  by (auto simp: parse_fingerprint_def)

lemma parse_cancellation_wf: "parse_cancellation v = Inr c \<Longrightarrow> cancellation_wf c"
  by (auto simp: parse_cancellation_def cancellation_wf_def dest!: parse_time_Inr parse_str_Inr parse_opt_time_Inr)

lemma get_opt_parts_Inr:
  "get_opt parse_job_id v = Inr m \<Longrightarrow> pred_option (\<lambda>j. validate_job_id j = Inr j) m"
  "get_opt parse_fingerprint v = Inr m \<Longrightarrow> pred_option hex64 m"
  "get_opt parse_str v = Inr m' \<Longrightarrow> pred_option (\<lambda>s. s \<noteq> []) m'"
  "get_opt parse_cancellation v = Inr c \<Longrightarrow> pred_option cancellation_wf c"
  by (auto elim!: get_opt_Inr dest: parse_job_id_Inr parse_fingerprint_Inr parse_str_Inr parse_cancellation_wf)

lemmas parse_parts_Inr = parse_time_Inr parse_str_Inr parse_opt_time_Inr parse_charge_Inr parse_state_Inr
  get_opt_parts_Inr

lemma parse_attempt_wf: "parse_attempt v n job_id = Inr a \<Longrightarrow> attempt_wf job_id n a"
  by (clarsimp simp: parse_attempt_def attempt_wf_def) (auto dest!: parse_parts_Inr)

lemma parse_attempts_wf: "parse_attempts vs n job_id = Inr as \<Longrightarrow> attempts_wf job_id n as \<and> length as = length vs"
  by (induction vs arbitrary: n as) (auto dest: parse_attempt_wf)

lemma parse_blockers_wf: "parse_blockers kvs = Inr bs \<Longrightarrow> blockers_wf (sort bs)"
proof (rule blockers_wfI)
  assume "parse_blockers kvs = Inr bs"
  then have "list_all (\<lambda>(h, w). h \<noteq> [] \<and> w \<noteq> []) bs"
    by (induction kvs arbitrary: bs) (auto simp: parse_blocker_def dest: parse_str_Inr)
  then show "list_all (\<lambda>(h, w). h \<noteq> [] \<and> w \<noteq> []) (sort bs)" by (auto simp: list_all_iff)
qed

lemma make_intent_Inr: "make_intent i = Inr j \<Longrightarrow> j = i \<and> valid_intent j"
  by (auto simp: make_intent_def split: if_splits sum.splits)

lemma intent_from_json_valid: "intent_from_json v = Inr i \<Longrightarrow> valid_intent i"
  by (auto simp: intent_from_json_def dest: make_intent_Inr)

lemma blockers_wf_Nil [simp]: "blockers_wf []"
  by (simp add: blockers_wf_def)

lemma parse_record_sound:
  assumes "parse_record env v = Inr r"
  shows "record_wf r \<and> check_consistency r \<and> sorted (br_held_blockers r)"
  using assms
  by (auto simp: parse_record_def record_wf_def Let_def parse_positive_int_def
      dest: get_opt_parts_Inr parse_attempts_wf parse_blockers_wf intent_from_json_valid parse_time_Inr
        parse_fingerprint_Inr
      split: if_splits)

section \<open>Properties\<close>

definition sample_env :: broker_env where
  "sample_env = \<lparr>e_digest = (\<lambda>_. replicate 64 (CHR ''d'')), e_sha256 = (\<lambda>b. replicate 64 (CHR ''e'')),
     e_too_large = (\<lambda>_. False), e_archive_ok = (\<lambda>_ _. True)\<rparr>"

definition sample_intent :: broker_intent where
  "sample_intent = \<lparr>in_command = [''python'', ''run.py''], in_cpus = 4, in_mem_mb = 2000,
     in_wall_time_seconds = Some 3600, in_priority = 0, in_auto_resume = False, in_retry = 1,
     in_job_name = Some ''scan'', in_program = None, in_expected_sha = None, in_tags = [''dft''],
     in_clean_workdir_on_terminal = False, in_rerun_until_file_exists = None, in_rerun_max = 10,
     in_pool = None, in_runtime_seconds = Some [PyInt 10, PyInt 20]\<rparr>"

definition sample_attempt :: "string \<Rightarrow> broker_attempt" where
  "sample_attempt job_id = \<lparr>at_number = 1, at_phase = Returned, at_target_host = ''alpha'',
     at_target_state_root = ''/var/vq'', at_reservation_id = job_id @ ''.1'',
     at_charge = \<lparr>ch_cpus = 4, ch_mem_mb = 2000, ch_job_slots = 1\<rparr>, at_decided_at = 1, at_snapshot = [],
     at_ranking = [], at_blockers = [], at_idempotency_key = job_id, at_request_fingerprint = None,
     at_transfer_started_at = None, at_target_job_id = None, at_accepted_at = None,
     at_returned_at = Some 2, at_return_reason = Some ''cancelled before transfer'',
     at_charge_released_at = Some 2, at_diagnostics = []\<rparr>"

definition sample_record :: broker_record where
  "sample_record = \<lparr>br_id = ''b-0123456789ab'', br_revision = 4, br_state = Held, br_created_at = 0,
     br_updated_at = 3, br_intent = sample_intent, br_payload_sha256 = replicate 64 (CHR ''e''),
     br_payload_size = 10, br_attempts = [sample_attempt ''b-0123456789ab''], br_cancellation = None,
     br_held_blockers = [(''alpha'', ''cpus-insufficient''), (''beta'', ''stale'')]\<rparr>"

lemma sample_record_parsed: "parse_record sample_env (record_json sample_env sample_record) = Inr sample_record"
  by code_simp

text \<open>
  C30: reading a stored broker record, printing it and reading it again gives the same record:
  nothing the store keeps about a job (intent, attempts, charges, cancellation, blockers) is
  lost or changed by rewriting its file. Blocker hosts are the keys of a JSON object, hence
  distinct.
\<close>

theorem parse_record_roundtrip:
  assumes "parse_record env v = Inr r" "distinct (map fst (br_held_blockers r))"
  shows "parse_record env (record_json env r) = Inr r"
proof -
  have "as_read r = r"
    using assms parse_record_sound [OF assms(1)]
    by (simp add: as_read_def dict_of_distinct sorted_sort_id)
  then show ?thesis using parse_record_json [of r env] parse_record_sound [OF assms(1)] by simp
qed

theorem parse_record_roundtrip_witness:
  "parse_record sample_env (record_json sample_env sample_record) = Inr sample_record"
  by (rule parse_record_roundtrip [of sample_env "record_json sample_env sample_record"])
    (rule sample_record_parsed, code_simp)

text \<open>
  C32: a file that is read as a broker record satisfies every field constraint (identifiers,
  positive charges, finite times, attempt numbering, digests) and the cross-field consistency
  rules, whatever JSON the file holds.
\<close>

theorem parse_record_wf:
  assumes "parse_record env v = Inr r"
  shows "record_wf r \<and> check_consistency r"
  using parse_record_sound [OF assms] by simp

theorem parse_record_wf_witness:
  "record_wf sample_record \<and> check_consistency sample_record"
  by (rule parse_record_wf [of sample_env "record_json sample_env sample_record"]) (rule sample_record_parsed)

end
