(* ===== verification/Broker_Store.thy ===== *)
theory Broker_Store
  imports Broker_Codec
begin

text \<open>
  The held-job store, \<open>broker_store.py\<close> class \<open>BrokerStore\<close>.

  The store is two directories: \<open>bs_records\<close> maps a file name to a record file and
  \<open>bs_payloads\<close> a file name to bytes. A record file holds a JSON value or cannot be read as
  one (\<open>BadFile\<close>); \<open>get\<close> parses it. Every operation is one
  transition under the writer lock: it reads the record, checks the caller's revision, applies
  its \<open>change\<close> function and publishes the result, or raises and changes nothing. File
  descriptors, \<open>fsync\<close> and the staging directory are not modelled; a failed \<open>fsync\<close>
  after a rename is the same store change with an error reported to the caller.
\<close>

section \<open>State and reading\<close>

datatype record_file = RecordFile pyval | BadFile

record broker_store =
  bs_records :: "(string \<times> record_file) list"
  bs_payloads :: "(string \<times> string) list"

datatype scan_problem = UnexpectedEntry | Refused broker_error

definition record_name :: "string \<Rightarrow> string" where
  "record_name job_id = job_id @ ''.json''"

definition payload_name :: "string \<Rightarrow> string" where
  "payload_name job_id = job_id @ ''.tar''"

definition get :: "broker_env \<Rightarrow> broker_store \<Rightarrow> string \<Rightarrow> broker_error + broker_record" where
  "get env st i = rbind (validate_broker_job_id i) (\<lambda>job_id.
     case map_of (bs_records st) (record_name job_id) of
       None \<Rightarrow> Inl BrokerStoreError
     | Some BadFile \<Rightarrow> Inl BrokerRecordCorrupt
     | Some (RecordFile v) \<Rightarrow> rbind (parse_record env v) (\<lambda>r.
         if br_id r \<noteq> job_id then Inl BrokerRecordCorrupt else Inr r))"

text \<open>Whether \<open>except BrokerStoreError\<close> catches the exception.\<close>

definition is_store_error :: "broker_error \<Rightarrow> bool" where
  "is_store_error e \<longleftrightarrow> e \<notin> {OSError, ValueError, TypeError, AttributeError, StopIteration}"

fun scan_names ::
  "broker_env \<Rightarrow> broker_store \<Rightarrow> string list \<Rightarrow>
   broker_error + (broker_record list \<times> (string \<times> scan_problem) list)" where
  "scan_names env st [] = Inr ([], [])"
| "scan_names env st (name # names) =
     (let stem = (if ends_with ''.json'' name then take (length name - 5) name else name) in
      if ends_with ''.tmp'' name then scan_names env st names
      else if \<not> ends_with ''.json'' name \<or> \<not> broker_job_id_match stem
      then rbind (scan_names env st names) (\<lambda>(records, problems).
        Inr (records, (name, UnexpectedEntry) # problems))
      else case get env st stem of
        Inr r \<Rightarrow> rbind (scan_names env st names) (\<lambda>(records, problems). Inr (r # records, problems))
      | Inl e \<Rightarrow>
          if is_store_error e
          then rbind (scan_names env st names) (\<lambda>(records, problems). Inr (records, (stem, Refused e) # problems))
          else Inl e)"

definition scan ::
  "broker_env \<Rightarrow> broker_store \<Rightarrow> broker_error + (broker_record list \<times> (string \<times> scan_problem) list)" where
  "scan env st = scan_names env st (sort (map fst (bs_records st)))"

fun add_charges :: "(string \<times> broker_charge) list \<Rightarrow> broker_attempt list \<Rightarrow> (string \<times> broker_charge) list" where
  "add_charges totals [] = totals"
| "add_charges totals (a # attempts) =
     (if at_charge_released_at a \<noteq> None then add_charges totals attempts
      else let prior = the_or \<lparr>ch_cpus = 0, ch_mem_mb = 0, ch_job_slots = 0\<rparr>
                         (map_of totals (at_target_host a)) in
        add_charges (AList.update (at_target_host a)
          \<lparr>ch_cpus = ch_cpus prior + ch_cpus (at_charge a),
           ch_mem_mb = ch_mem_mb prior + ch_mem_mb (at_charge a),
           ch_job_slots = ch_job_slots prior + ch_job_slots (at_charge a)\<rparr> totals) attempts)"

definition outstanding_charges ::
  "broker_env \<Rightarrow> broker_store \<Rightarrow> broker_error + (string \<times> broker_charge) list" where
  "outstanding_charges env st = rbind (scan env st) (\<lambda>(records, problems).
     if problems \<noteq> [] then Inl BrokerRecordCorrupt
     else Inr (add_charges [] (concat (map br_attempts records))))"

definition verify_payload :: "broker_env \<Rightarrow> broker_store \<Rightarrow> broker_record \<Rightarrow> broker_error + string" where
  "verify_payload env st r = (case map_of (bs_payloads st) (payload_name (br_id r)) of
      None \<Rightarrow> Inl BrokerRecordCorrupt
    | Some data \<Rightarrow>
        if int (length data) \<noteq> br_payload_size r \<or> e_sha256 env data \<noteq> br_payload_sha256 r
        then Inl BrokerRecordCorrupt
        else Inr (payload_name (br_id r)))"

section \<open>Publishing and updating\<close>

definition publish ::
  "broker_env \<Rightarrow> broker_store \<Rightarrow> broker_record \<Rightarrow> bool \<Rightarrow> broker_error + (broker_record \<times> broker_store)" where
  "publish env st r create =
     (if \<not> check_consistency r then Inl BrokerRecordCorrupt
      else if \<not> finite_json (record_json env r) then Inl ValueError
      else if e_too_large env r then Inl BrokerStoreError
      else if create \<and> map_of (bs_records st) (record_name (br_id r)) \<noteq> None then Inl OSError
      else Inr (r, st\<lparr>bs_records := AList.update (record_name (br_id r)) (RecordFile (record_json env r)) (bs_records st)\<rparr>))"

definition update ::
  "broker_env \<Rightarrow> broker_store \<Rightarrow> string \<Rightarrow> int \<Rightarrow> pyfloat \<Rightarrow>
   (broker_record \<Rightarrow> rat \<Rightarrow> broker_error + broker_record) \<Rightarrow> broker_error + (broker_record \<times> broker_store)" where
  "update env st i expected_revision now change =
     rbind (finite_time now) (\<lambda>t.
     rbind (get env st i) (\<lambda>current.
       if br_revision current \<noteq> expected_revision then Inl BrokerRecordConflict
       else rbind (change current t) (\<lambda>updated.
         publish env st (updated\<lparr>br_revision := br_revision current + 1, br_updated_at := t\<rparr>) False)))"

section \<open>Accepting a submission\<close>

definition existing_record ::
  "broker_env \<Rightarrow> broker_store \<Rightarrow> string \<Rightarrow> broker_error + broker_record option" where
  "existing_record env st job_id = (case get env st job_id of
      Inr r \<Rightarrow> Inr (Some r)
    | Inl e \<Rightarrow> if e = BrokerRecordCorrupt \<or> \<not> is_store_error e then Inl e else Inr None)"

definition link_payload ::
  "broker_env \<Rightarrow> broker_store \<Rightarrow> string \<Rightarrow> string \<Rightarrow> string option \<Rightarrow> broker_error + broker_store" where
  "link_payload env st data final adopt = (case map_of (bs_payloads st) final of
      None \<Rightarrow> Inr (st\<lparr>bs_payloads := AList.update final data (bs_payloads st)\<rparr>)
    | Some old \<Rightarrow>
        if adopt = None \<or> Some (e_sha256 env old) \<noteq> adopt then Inl BrokerStoreError else Inr st)"

text \<open>
  \<open>publish\<close> after the payload was linked; a failure withdraws the payload again
  (\<open>published_payload\<close> in the code), also one that was adopted.
\<close>

definition publish_accepted ::
  "broker_env \<Rightarrow> broker_store \<Rightarrow> broker_record \<Rightarrow> (broker_error + broker_record) \<times> broker_store" where
  "publish_accepted env st r = (case publish env st r True of
      Inr (r', st') \<Rightarrow> (Inr r', st')
    | Inl e \<Rightarrow> (Inl e, st\<lparr>bs_payloads := AList.delete (payload_name (br_id r)) (bs_payloads st)\<rparr>))"

definition new_record :: "broker_env \<Rightarrow> string \<Rightarrow> broker_intent \<Rightarrow> string \<Rightarrow> rat \<Rightarrow> broker_record" where
  "new_record env job_id intent data t =
     \<lparr>br_id = job_id, br_revision = 1, br_state = Held, br_created_at = t, br_updated_at = t,
      br_intent = intent, br_payload_sha256 = e_sha256 env data, br_payload_size = int (length data),
      br_attempts = [], br_cancellation = None, br_held_blockers = []\<rparr>"

text \<open>
  Equality of two intents as Python has it: the numbers of the calibrated interval are compared by value, 10 and 10.0
  are equal.
\<close>

definition intent_eq :: "broker_intent \<Rightarrow> broker_intent \<Rightarrow> bool" where
  "intent_eq i j \<longleftrightarrow> i\<lparr>in_runtime_seconds := None\<rparr> = j\<lparr>in_runtime_seconds := None\<rparr>
     \<and> map_option (map number_of) (in_runtime_seconds i) = map_option (map number_of) (in_runtime_seconds j)"

text \<open>\<open>fresh_id\<close> is what \<open>new_broker_job_id\<close> drew for a submission without a key.\<close>

definition accept ::
  "broker_env \<Rightarrow> broker_store \<Rightarrow> string \<Rightarrow> broker_intent \<Rightarrow> pyfloat \<Rightarrow> string option \<Rightarrow> string \<Rightarrow>
   (broker_error + broker_record) \<times> broker_store" where
  "accept env st data intent now key fresh_id =
     (case rbind (finite_time now) (\<lambda>t.
             rbind (case key of Some k \<Rightarrow> broker_job_id_for_key env k | None \<Rightarrow> Inr fresh_id)
               (\<lambda>job_id. Inr (t, job_id))) of
        Inl e \<Rightarrow> (Inl e, st)
      | Inr (t, job_id) \<Rightarrow>
          if \<not> e_archive_ok env intent data then (Inl BrokerStoreError, st)
          else let r = new_record env job_id intent data t in
          (case key of
             Some _ \<Rightarrow>
               (case existing_record env st job_id of
                  Inl e \<Rightarrow> (Inl e, st)
                | Inr (Some old) \<Rightarrow>
                    if intent_eq (br_intent old) intent \<and> br_payload_sha256 old = br_payload_sha256 r
                    then (Inr old, st) else (Inl BrokerIdempotencyConflict, st)
                | Inr None \<Rightarrow>
                    (case link_payload env st data (payload_name job_id) (Some (br_payload_sha256 r)) of
                       Inl e \<Rightarrow> (Inl e, st)
                     | Inr st' \<Rightarrow> publish_accepted env st' r))
           | None \<Rightarrow>
               (case link_payload env st data (payload_name job_id) None of
                  Inl e \<Rightarrow> (Inl e, st)
                | Inr st' \<Rightarrow> publish_accepted env st' r)))"

section \<open>Transitions\<close>

definition held_blockers_change ::
  "broker_env \<Rightarrow> (string \<times> string) list \<Rightarrow> broker_record \<Rightarrow> rat \<Rightarrow> broker_error + broker_record" where
  "held_blockers_change env blockers r now =
     (if br_state r \<noteq> Held \<or> br_cancellation r \<noteq> None then Inl BrokerRecordConflict
      else let candidate = r\<lparr>br_held_blockers := blockers\<rparr> in
        rbind (parse_record env (record_json env candidate)) (\<lambda>_. Inr candidate))"

definition record_held_blockers where
  "record_held_blockers env st i revn blockers now =
     update env st i revn now (held_blockers_change env blockers)"

definition rank_json :: "rank \<Rightarrow> pyval" where
  "rank_json rk = (case rk of (a, b, c, d, e, f, h) \<Rightarrow>
     PyList [PyInt a, PyInt b, PyInt c, PyInt d, PyInt e, PyInt f, PyStr h])"

definition snapshot_json :: "capacity_snapshot \<Rightarrow> (string \<times> pyval) list" where
  "snapshot_json s = [
     (''host'', PyStr (sn_host s)),
     (''observed_at'', PyFloat (sn_observed_at s)),
     (''free_cpus'', py_opt PyInt (sn_free_cpus s)),
     (''free_mem_mb'', py_opt PyInt (sn_free_mem_mb s)),
     (''free_jobs'', py_opt PyInt (sn_free_jobs s)),
     (''pending_cpus'', PyInt (sn_pending_cpus s)),
     (''idle_seconds'', py_opt PyInt (sn_idle_seconds s)),
     (''pools'', PyList (map PyStr (sort (remdups (sn_pools s))))),
     (''max_wall_time_seconds'', sn_max_wall_time_seconds s)]
     @ (if sn_authority s = PyNone then [] else [(''authority'', sn_authority s)])
     @ (if sn_runtime_pins s = PyNone then [] else [(''runtime_pins'', sn_runtime_pins s)])"

definition new_attempt ::
  "broker_record \<Rightarrow> placement_decision \<Rightarrow> capacity_snapshot \<Rightarrow> string \<Rightarrow> rat \<Rightarrow> broker_attempt" where
  "new_attempt r d s sroot now =
     (let n = int (length (br_attempts r)) + 1 in
     \<lparr>at_number = n, at_phase = Reserved, at_target_host = sn_host s, at_target_state_root = sroot,
      at_reservation_id = br_id r @ ''.'' @ show_int n,
      at_charge = \<lparr>ch_cpus = in_cpus (br_intent r), ch_mem_mb = in_mem_mb (br_intent r), ch_job_slots = 1\<rparr>,
      at_decided_at = now, at_snapshot = snapshot_json s, at_ranking = map rank_json (dc_ranking d),
      at_blockers = map (\<lambda>(h, w). (h, PyStr w)) (dict_of (dc_blockers d)), at_idempotency_key = br_id r,
      at_request_fingerprint = None, at_transfer_started_at = None, at_target_job_id = None,
      at_accepted_at = None, at_returned_at = None, at_return_reason = None,
      at_charge_released_at = None, at_diagnostics = []\<rparr>)"

definition reserve_change ::
  "placement_decision \<Rightarrow> capacity_snapshot \<Rightarrow> string \<Rightarrow> broker_record \<Rightarrow> rat \<Rightarrow> broker_error + broker_record" where
  "reserve_change d s sroot r now =
     (if br_state r \<noteq> Held then Inl BrokerRecordConflict
      else if br_cancellation r \<noteq> None then Inl BrokerRecordConflict
      else if ATTEMPTS_MAX \<le> length (br_attempts r) then Inl BrokerStoreError
      else Inr (r\<lparr>br_state := Reserved, br_attempts := br_attempts r @ [new_attempt r d s sroot now],
                 br_held_blockers := []\<rparr>))"

definition reserve where
  "reserve env st i revn d s sroot now =
     (if dc_host d = None \<or> dc_host d \<noteq> Some (sn_host s) then Inl BrokerStoreError
      else if \<not> starts_with ''/'' sroot then Inl BrokerStoreError
      else update env st i revn now (reserve_change d s sroot))"

definition replace_attempt :: "broker_record \<Rightarrow> broker_attempt \<Rightarrow> broker_record" where
  "replace_attempt r a = r\<lparr>br_attempts := butlast (br_attempts r) @ [a]\<rparr>"

definition release_change :: "string \<Rightarrow> broker_record \<Rightarrow> rat \<Rightarrow> broker_error + broker_record" where
  "release_change reason r now =
     (if br_state r \<noteq> Reserved then Inl BrokerRecordConflict
      else Inr (replace_attempt r ((last (br_attempts r))
             \<lparr>at_phase := Returned, at_returned_at := Some now, at_return_reason := Some reason,
              at_charge_released_at := Some now\<rparr>) \<lparr>br_state := Returned\<rparr>))"

definition release_reservation where
  "release_reservation env st i revn reason now =
     rbind (parse_reason reason) (\<lambda>why. update env st i revn now (release_change why))"

definition fence_change :: "string \<Rightarrow> broker_record \<Rightarrow> rat \<Rightarrow> broker_error + broker_record" where
  "fence_change evidence r now =
     (if br_state r \<noteq> Transferring then Inl BrokerRecordConflict
      else Inr (replace_attempt r ((last (br_attempts r))
             \<lparr>at_phase := Returned, at_returned_at := Some now,
              at_return_reason := Some (FENCED_RETURN_PREFIX @ evidence),
              at_charge_released_at := Some now\<rparr>) \<lparr>br_state := Returned\<rparr>))"

definition fence_transfer where
  "fence_transfer env st i revn evidence now =
     rbind (parse_reason evidence) (\<lambda>why. update env st i revn now (fence_change why))"

definition resume_change :: "broker_record \<Rightarrow> rat \<Rightarrow> broker_error + broker_record" where
  "resume_change r now =
     (if br_state r \<noteq> Returned then Inl BrokerRecordConflict
      else case br_cancellation r of
        Some c \<Rightarrow> Inr (r\<lparr>br_state := Cancelled, br_cancellation := Some (c\<lparr>cn_completed_at := Some now\<rparr>)\<rparr>)
      | None \<Rightarrow> Inr (r\<lparr>br_state := Held\<rparr>))"

definition resume_holding where
  "resume_holding env st i revn now = update env st i revn now resume_change"

definition begin_transfer_change :: "broker_env \<Rightarrow> broker_record \<Rightarrow> rat \<Rightarrow> broker_error + broker_record" where
  "begin_transfer_change env r now =
     (if br_state r \<noteq> Reserved then Inl BrokerRecordConflict
      else if br_cancellation r \<noteq> None then Inl BrokerRecordConflict
      else let a = last (br_attempts r) in
        Inr (replace_attempt r (a\<lparr>at_phase := Transferring, at_transfer_started_at := Some now,
               at_request_fingerprint := Some (transfer_fingerprint env r a)\<rparr>)
             \<lparr>br_state := Transferring\<rparr>))"

definition begin_transfer where
  "begin_transfer env st i revn now = update env st i revn now (begin_transfer_change env)"

definition last_n :: "nat \<Rightarrow> 'a list \<Rightarrow> 'a list" where
  "last_n n xs = drop (length xs - n) xs"

definition diagnostic_change :: "string \<Rightarrow> broker_record \<Rightarrow> rat \<Rightarrow> broker_error + broker_record" where
  "diagnostic_change message r now =
     (if br_state r \<noteq> Transferring then Inl BrokerRecordConflict
      else let a = last (br_attempts r) in
        Inr (replace_attempt r (a\<lparr>at_diagnostics := last_n DIAGNOSTICS_MAX (at_diagnostics a @ [message])\<rparr>)))"

definition record_transfer_diagnostic where
  "record_transfer_diagnostic env st i revn message now =
     rbind (parse_reason message) (\<lambda>m. update env st i revn now (diagnostic_change m))"

definition placed_change :: "string \<Rightarrow> string \<Rightarrow> broker_record \<Rightarrow> rat \<Rightarrow> broker_error + broker_record" where
  "placed_change fingerprint target_job_id r now =
     (if br_state r \<noteq> Transferring then Inl BrokerRecordConflict
      else let a = last (br_attempts r) in
        if Some fingerprint \<noteq> at_request_fingerprint a then Inl BrokerRecordConflict
        else Inr (replace_attempt r (a\<lparr>at_phase := Placed, at_target_job_id := Some target_job_id,
                    at_accepted_at := Some now\<rparr>) \<lparr>br_state := Placed\<rparr>))"

definition record_placed where
  "record_placed env st i revn fingerprint target_job_id now =
     (case validate_job_id target_job_id of
        Inl _ \<Rightarrow> Inl BrokerStoreError
      | Inr jid \<Rightarrow> update env st i revn now (placed_change fingerprint jid))"

definition settle_change :: "broker_record \<Rightarrow> rat \<Rightarrow> broker_error + broker_record" where
  "settle_change r now =
     (if br_state r \<noteq> Placed then Inl BrokerRecordConflict
      else let a = last (br_attempts r) in
        if at_charge_released_at a \<noteq> None then Inl BrokerRecordConflict
        else Inr (replace_attempt r (a\<lparr>at_charge_released_at := Some now\<rparr>)))"

definition settle_charge where
  "settle_charge env st i revn now = update env st i revn now settle_change"

definition cancel_change :: "string \<Rightarrow> broker_record \<Rightarrow> rat \<Rightarrow> broker_error + broker_record" where
  "cancel_change reason r now =
     (if br_state r = Cancelled \<or> br_cancellation r \<noteq> None then Inl BrokerRecordConflict
      else if br_state r = Held
      then Inr (r\<lparr>br_state := Cancelled, br_cancellation :=
             Some \<lparr>cn_requested_at = now, cn_reason = reason, cn_completed_at = Some now\<rparr>\<rparr>)
      else Inr (r\<lparr>br_cancellation :=
             Some \<lparr>cn_requested_at = now, cn_reason = reason, cn_completed_at = None\<rparr>\<rparr>))"

definition request_cancel where
  "request_cancel env st i revn reason now =
     rbind (parse_reason reason) (\<lambda>why. update env st i revn now (cancel_change why))"

section \<open>The keyed request of a transfer\<close>

record transfer_request =
  tr_job_id :: string
  tr_target_host :: string
  tr_target_state_root :: string
  tr_idempotency_key :: string
  tr_request_fingerprint :: string
  tr_payload :: string
  tr_intent :: broker_intent \<comment> \<open>the intent fields of \<open>submit_kwargs\<close>\<close>
  tr_expected_sha :: pyval \<comment> \<open>\<open>submit_kwargs['expected_sha']\<close>\<close>
  tr_authority :: pyval

definition pinned_sha :: "broker_attempt \<Rightarrow> string option \<Rightarrow> broker_error + pyval" where
  "pinned_sha a program = (if program \<in> {None, Some []} then Inr PyNone
     else case map_of (at_snapshot a) ''runtime_pins'' of
        None \<Rightarrow> Inr PyNone
      | Some (PyDict pins) \<Rightarrow> Inr (the_or PyNone (map_of pins (the program)))
      | _ \<Rightarrow> Inl AttributeError)"

definition transfer_request_of ::
  "broker_env \<Rightarrow> broker_store \<Rightarrow> broker_record \<Rightarrow> broker_error + transfer_request" where
  "transfer_request_of env st r =
     rbind (get env st (br_id r)) (\<lambda>current.
       if current \<noteq> r then Inl BrokerRecordConflict
       else if br_state current \<noteq> Transferring then Inl BrokerRecordConflict
       else let a = last (br_attempts current) in
       (case at_request_fingerprint a of
          None \<Rightarrow> Inl BrokerRecordConflict
        | Some fp \<Rightarrow>
            if fp \<noteq> transfer_fingerprint env current a then Inl BrokerRecordConflict
            else rbind (verify_payload env st current) (\<lambda>path.
              rbind (case in_expected_sha (br_intent current) of
                       Some (c # cs) \<Rightarrow> Inr (PyStr (c # cs))
                     | _ \<Rightarrow> pinned_sha a (in_program (br_intent current))) (\<lambda>sha.
              Inr \<lparr>tr_job_id = br_id current, tr_target_host = at_target_host a,
                   tr_target_state_root = at_target_state_root a,
                   tr_idempotency_key = at_idempotency_key a, tr_request_fingerprint = fp,
                   tr_payload = path, tr_intent = br_intent current, tr_expected_sha = sha,
                   tr_authority = the_or PyNone (map_of (at_snapshot a) ''authority'')\<rparr>))))"

end
