(* ===== verification/Broker_Lifecycle.thy ===== *)
theory Broker_Lifecycle
  imports Broker_Store
begin

text \<open>
  What one transition of the broker store may do to a record. \<open>record_evolves\<close> is the
  contract: identity, intent and payload never change, the attempt history only grows, an
  attempt keeps its target and charge and moves along its phases, evidence once recorded stays.
  The locale \<open>record_transition\<close> states the laws a \<open>change\<close> function must satisfy and
  derives what \<open>update\<close> then guarantees; every operation of \<open>BrokerStore\<close> interprets it.
\<close>

section \<open>The contract\<close>

definition phase_le :: "broker_state \<Rightarrow> broker_state \<Rightarrow> bool" where
  "phase_le p q \<longleftrightarrow> p = q \<or> p = Reserved \<or> p = Transferring \<and> q \<in> {Placed, Returned}"

definition same_attempt :: "broker_attempt \<Rightarrow> broker_attempt \<Rightarrow> bool" where
  "same_attempt a b \<longleftrightarrow> at_number b = at_number a \<and> at_target_host b = at_target_host a
     \<and> at_target_state_root b = at_target_state_root a \<and> at_reservation_id b = at_reservation_id a
     \<and> at_charge b = at_charge a \<and> at_decided_at b = at_decided_at a \<and> at_snapshot b = at_snapshot a
     \<and> at_ranking b = at_ranking a \<and> at_blockers b = at_blockers a
     \<and> at_idempotency_key b = at_idempotency_key a"

definition attempt_evolves :: "broker_attempt \<Rightarrow> broker_attempt \<Rightarrow> bool" where
  "attempt_evolves a b \<longleftrightarrow> same_attempt a b \<and> phase_le (at_phase a) (at_phase b)
     \<and> (at_request_fingerprint a \<noteq> None \<longrightarrow> at_request_fingerprint b = at_request_fingerprint a)
     \<and> (at_transfer_started_at a \<noteq> None \<longrightarrow> at_transfer_started_at b = at_transfer_started_at a)
     \<and> (at_target_job_id a \<noteq> None \<longrightarrow> at_target_job_id b = at_target_job_id a)
     \<and> (at_charge_released_at a \<noteq> None \<longrightarrow> at_charge_released_at b = at_charge_released_at a)
     \<and> (at_phase a = Returned \<longrightarrow> b = a)"

definition cancellation_evolves :: "broker_cancellation \<Rightarrow> broker_cancellation \<Rightarrow> bool" where
  "cancellation_evolves c d \<longleftrightarrow> cn_requested_at d = cn_requested_at c \<and> cn_reason d = cn_reason c
     \<and> (cn_completed_at c \<noteq> None \<longrightarrow> d = c)"

definition cancellation_extends :: "broker_record \<Rightarrow> broker_record \<Rightarrow> bool" where
  "cancellation_extends r s = (case br_cancellation r of None \<Rightarrow> True
     | Some c \<Rightarrow> length (br_attempts s) = length (br_attempts r)
         \<and> (case br_cancellation s of None \<Rightarrow> False | Some d \<Rightarrow> cancellation_evolves c d))"

definition record_evolves :: "broker_record \<Rightarrow> broker_record \<Rightarrow> bool" where
  "record_evolves r s \<longleftrightarrow>
     br_id s = br_id r \<and> br_created_at s = br_created_at r \<and> br_intent s = br_intent r
     \<and> br_payload_sha256 s = br_payload_sha256 r \<and> br_payload_size s = br_payload_size r
     \<and> list_all2 attempt_evolves (br_attempts r) (take (length (br_attempts r)) (br_attempts s))
     \<and> cancellation_extends r s
     \<and> (br_state r = Placed \<longrightarrow> br_state s = Placed)
     \<and> (br_state r = Cancelled \<longrightarrow> br_state s = Cancelled)"

lemma phase_le_trans: "phase_le p q \<Longrightarrow> phase_le q s \<Longrightarrow> phase_le p s"
  by (auto simp: phase_le_def)

lemma attempt_evolves_refl [simp, intro]: "attempt_evolves a a"
  by (simp add: attempt_evolves_def same_attempt_def phase_le_def)

lemma same_attempt_trans: "same_attempt a b \<Longrightarrow> same_attempt b c \<Longrightarrow> same_attempt a c"
  by (simp add: same_attempt_def)

lemma attempt_evolves_trans:
  assumes "attempt_evolves a b" "attempt_evolves b c"
  shows "attempt_evolves a c"
  unfolding attempt_evolves_def
proof (intro conjI impI)
  show "same_attempt a c" using assms same_attempt_trans by (simp add: attempt_evolves_def) blast
  show "phase_le (at_phase a) (at_phase c)"
    using assms phase_le_trans by (simp add: attempt_evolves_def) blast
qed (use assms in \<open>simp_all add: attempt_evolves_def\<close>)

lemma cancellation_extends_same:
  "br_cancellation s = br_cancellation r \<Longrightarrow> length (br_attempts s) = length (br_attempts r) \<Longrightarrow>
   cancellation_extends r s"
  by (simp add: cancellation_extends_def cancellation_evolves_def split: option.split)

lemma record_evolves_refl [simp, intro]: "record_evolves r r"
  by (simp add: record_evolves_def cancellation_extends_same list_all2_same)

lemma list_all2_take_trans:
  assumes "list_all2 P as (take (length as) bs)" "list_all2 P bs (take (length bs) cs)"
    and "\<And>a b c. P a b \<Longrightarrow> P b c \<Longrightarrow> P a c"
  shows "list_all2 P as (take (length as) cs)"
proof -
  have len: "length as \<le> length bs" using list_all2_lengthD [OF assms(1)] by simp
  have "list_all2 P (take (length as) bs) (take (length as) cs)"
    using list_all2_takeI [OF assms(2), of "length as"] len by (simp add: min_def)
  then show ?thesis using list_all2_trans [of P P P as _ "take (length as) cs"] assms(1,3) by blast
qed

lemma cancellation_extends_trans:
  "cancellation_extends r s \<Longrightarrow> cancellation_extends s u \<Longrightarrow> cancellation_extends r u"
  unfolding cancellation_extends_def cancellation_evolves_def
  by (cases "br_cancellation r"; cases "br_cancellation s"; cases "br_cancellation u") simp_all

lemma record_evolves_trans:
  assumes "record_evolves r s" "record_evolves s u"
  shows "record_evolves r u"
proof -
  have "list_all2 attempt_evolves (br_attempts r) (take (length (br_attempts r)) (br_attempts u))"
    by (rule list_all2_take_trans [where bs = "br_attempts s", OF _ _ attempt_evolves_trans])
      (use assms in \<open>simp_all add: record_evolves_def\<close>)
  moreover have "cancellation_extends r u"
    using assms cancellation_extends_trans unfolding record_evolves_def by blast
  ultimately show ?thesis using assms unfolding record_evolves_def
    by (elim conjE, intro conjI) (assumption | metis)+
qed

text \<open>\<open>br_held_blockers\<close>, \<open>br_revision\<close> and \<open>br_updated_at\<close> are not part of the contract.\<close>

lemma record_evolves_decor [simp]:
  "record_evolves r (s\<lparr>br_revision := n, br_updated_at := t\<rparr>) = record_evolves r s"
  "record_evolves r (as_read s) = record_evolves r s"
  by (simp_all add: record_evolves_def cancellation_extends_def split: option.split)

lemma attempts_replaced:
  assumes "xs \<noteq> []" "attempt_evolves (last xs) a"
  shows "list_all2 attempt_evolves xs (take (length xs) (butlast xs @ [a]))"
proof -
  have "list_all2 attempt_evolves (butlast xs @ [last xs]) (butlast xs @ [a])"
    using assms(2) by (intro list_all2_appendI) (auto simp: list_all2_same)
  then show ?thesis using assms(1) by (simp del: take_append)
qed

section \<open>Well-formedness of the attempt list\<close>

lemma attempts_wf_append:
  "attempts_wf i n (xs @ ys) \<longleftrightarrow> attempts_wf i n xs \<and> attempts_wf i (n + int (length xs)) ys"
  by (induction xs arbitrary: n) (auto simp: algebra_simps)

lemma attempts_wf_last:
  "attempts_wf i n xs \<Longrightarrow> xs \<noteq> [] \<Longrightarrow>
   attempts_wf i n (butlast xs) \<and> attempt_wf i (n + int (length xs) - 1) (last xs)"
proof (cases xs rule: rev_cases)
  case (snoc ys y)
  assume "attempts_wf i n xs"
  then show ?thesis by (simp add: snoc attempts_wf_append)
qed simp

lemma attempts_wf_replaced:
  assumes "attempts_wf i 1 xs" "xs \<noteq> []" "attempt_wf i (int (length xs)) a"
  shows "attempts_wf i 1 (butlast xs @ [a])"
  using attempts_wf_last [OF assms(1,2)] assms by (simp add: attempts_wf_append of_nat_diff Suc_le_eq)

lemma record_wf_last:
  "record_wf r \<Longrightarrow> br_attempts r \<noteq> [] \<Longrightarrow>
   attempt_wf (br_id r) (int (length (br_attempts r))) (last (br_attempts r))"
  using attempts_wf_last [of "br_id r" 1 "br_attempts r"] by (simp add: record_wf_def)

abbreviation settled :: "broker_attempt \<Rightarrow> bool" where
  "settled a \<equiv> at_phase a = Returned \<and> at_charge_released_at a \<noteq> None"

lemma check_consistency_open:
  assumes "br_state r = s" "s \<in> {Reserved, Transferring, Placed, Returned}"
  shows "check_consistency r \<longleftrightarrow> br_held_blockers r = [] \<and> list_all settled (butlast (br_attempts r))
    \<and> list_all attempt_consistent (br_attempts r) \<and> br_attempts r \<noteq> []
    \<and> at_phase (last (br_attempts r)) = s
    \<and> (case br_cancellation r of None \<Rightarrow> True | Some c \<Rightarrow> cn_completed_at c = None)"
proof -
  have "expected_phase s (map_option at_phase (current_attempt r))
    \<longleftrightarrow> br_attempts r \<noteq> [] \<and> at_phase (last (br_attempts r)) = s"
    using assms(2) by (elim insertE emptyE) (simp_all add: expected_phase_def current_attempt_def)
  then show ?thesis using assms(2) unfolding check_consistency_def assms(1)
    by (elim insertE emptyE) simp_all
qed

lemma check_consistency_closed:
  assumes "br_state r = s" "s \<in> {Held, Cancelled}"
  shows "check_consistency r \<longleftrightarrow> list_all settled (br_attempts r) \<and> list_all attempt_consistent (br_attempts r)
    \<and> (case br_cancellation r of None \<Rightarrow> s = Held | Some c \<Rightarrow> (cn_completed_at c \<noteq> None) = (s = Cancelled))"
proof (cases "br_attempts r" rule: rev_cases)
  case Nil
  then show ?thesis using assms
    by (auto simp: check_consistency_def expected_phase_def current_attempt_def split: option.splits)
next
  case (snoc xs a)
  then show ?thesis using assms(2) unfolding check_consistency_def assms(1)
    by (elim insertE emptyE) (auto simp: expected_phase_def current_attempt_def split: option.split)
qed

lemma check_consistency_attempts:
  "check_consistency r \<Longrightarrow> br_state r \<in> {Reserved, Transferring, Placed, Returned} \<Longrightarrow>
     br_attempts r \<noteq> [] \<and> at_phase (last (br_attempts r)) = br_state r"
  using check_consistency_open [OF refl, of r] by simp

lemma check_consistency_cong:
  "br_state r = br_state s \<Longrightarrow> br_attempts r = br_attempts s \<Longrightarrow> br_cancellation r = br_cancellation s \<Longrightarrow>
   (br_held_blockers r = []) = (br_held_blockers s = []) \<Longrightarrow> check_consistency r = check_consistency s"
  by (simp add: check_consistency_def current_attempt_def)

lemma check_consistency_history:
  "check_consistency r \<Longrightarrow> list_all (\<lambda>a. at_phase a = Returned \<and> at_charge_released_at a \<noteq> None) (butlast (br_attempts r))"
  by (simp add: check_consistency_def)

lemma check_consistency_last:
  "check_consistency r \<Longrightarrow> br_attempts r \<noteq> [] \<Longrightarrow> attempt_consistent (last (br_attempts r))"
  by (simp add: check_consistency_def list_all_iff)

lemma replace_attempt_sel [simp]:
  "br_attempts (replace_attempt r a) = butlast (br_attempts r) @ [a]"
  "br_id (replace_attempt r a) = br_id r" "br_intent (replace_attempt r a) = br_intent r"
  "br_state (replace_attempt r a) = br_state r" "br_cancellation (replace_attempt r a) = br_cancellation r"
  "br_created_at (replace_attempt r a) = br_created_at r" "br_revision (replace_attempt r a) = br_revision r"
  "br_updated_at (replace_attempt r a) = br_updated_at r"
  "br_held_blockers (replace_attempt r a) = br_held_blockers r"
  "br_payload_sha256 (replace_attempt r a) = br_payload_sha256 r"
  "br_payload_size (replace_attempt r a) = br_payload_size r"
  by (simp_all add: replace_attempt_def)

text \<open>
  \<open>check_consistency\<close> says nothing about a reserved attempt that carries transfer evidence or
  about a returned current attempt that still holds its charge. No operation writes one;
  \<open>record_ok\<close> is the invariant the operations keep.
\<close>

definition attempts_sound :: "broker_record \<Rightarrow> bool" where
  "attempts_sound r \<longleftrightarrow> list_all (\<lambda>a. (at_phase a = Reserved \<longrightarrow> \<not> attempt_started a)
     \<and> (at_phase a = Returned \<longrightarrow> at_charge_released_at a \<noteq> None)) (br_attempts r)
     \<and> (br_state r = Held \<longrightarrow> br_cancellation r = None)"

definition record_ok :: "broker_record \<Rightarrow> bool" where
  "record_ok r \<longleftrightarrow> record_wf r \<and> check_consistency r \<and> attempts_sound r"

lemma record_ok_as_read [simp]: "record_ok r \<Longrightarrow> attempts_sound (as_read r)"
  by (simp add: record_ok_def attempts_sound_def)

lemma record_ok_last:
  assumes "record_ok r" "br_state r \<in> {Reserved, Transferring, Placed, Returned}"
  shows "br_attempts r \<noteq> []" "at_phase (last (br_attempts r)) = br_state r"
    "attempt_wf (br_id r) (int (length (br_attempts r))) (last (br_attempts r))"
    "attempt_consistent (last (br_attempts r))"
    "br_state r = Reserved \<Longrightarrow> \<not> attempt_started (last (br_attempts r))"
    "br_state r = Returned \<Longrightarrow> at_charge_released_at (last (br_attempts r)) \<noteq> None"
  using assms check_consistency_attempts [of r] record_wf_last [of r] check_consistency_last [of r]
  by (auto simp: record_ok_def attempts_sound_def list_all_iff)

lemma set_butlast_last: "xs \<noteq> [] \<Longrightarrow> set xs = insert (last xs) (set (butlast xs))"
  by (cases xs rule: rev_cases) auto

text \<open>An operation that rewrites the current attempt and moves the record to its new phase.\<close>

lemma replace_attempt_lawful:
  assumes ok: "record_ok r" and st: "br_state r \<in> {Reserved, Transferring, Placed}"
    and s: "at_phase a \<in> {Transferring, Placed, Returned}" "br_state r = Placed \<Longrightarrow> at_phase a = Placed"
    and a: "attempt_evolves (last (br_attempts r)) a" "attempt_wf (br_id r) (int (length (br_attempts r))) a"
      "attempt_consistent a" "at_phase a = Returned \<Longrightarrow> at_charge_released_at a \<noteq> None"
  shows "record_ok (replace_attempt r a\<lparr>br_state := at_phase a\<rparr>)
    \<and> record_evolves r (replace_attempt r a\<lparr>br_state := at_phase a\<rparr>)"
proof -
  let ?s = "replace_attempt r a\<lparr>br_state := at_phase a\<rparr>"
  have ne: "br_attempts r \<noteq> []" using record_ok_last(1) [OF ok] st by auto
  then have len: "length (butlast (br_attempts r) @ [a]) = length (br_attempts r)" by simp
  have wf: "record_wf ?s" using ok ne a(2) len
    by (simp add: record_ok_def record_wf_def attempts_wf_replaced del: length_append)
  have ac: "list_all attempt_consistent (butlast (br_attempts r))" "attempts_sound ?s"
    using ok s(1) a(4) by (auto simp: record_ok_def attempts_sound_def check_consistency_def list_all_iff
        dest: in_set_butlastD)
  have "check_consistency r" using ok by (simp add: record_ok_def)
  then have "check_consistency ?s" using st s ac(1) a(3)
    by (subst (asm) check_consistency_open [OF refl], blast)
      (subst check_consistency_open [OF refl], simp_all)
  moreover have "record_evolves r ?s" using attempts_replaced [OF ne a(1)] st s(2) len
    by (auto simp: record_evolves_def intro!: cancellation_extends_same simp del: take_append)
  ultimately show ?thesis using wf ac(2) by (simp add: record_ok_def)
qed

section \<open>Reading and updating\<close>

lemma get_Inr:
  "get env st i = Inr r \<longleftrightarrow>
   (\<exists>v. broker_job_id_match i \<and> map_of (bs_records st) (record_name i) = Some (RecordFile v)
      \<and> parse_record env v = Inr r \<and> br_id r = i)"
  by (auto simp: get_def validate_broker_job_id_def split: option.splits record_file.splits)

lemma get_sound: "get env st i = Inr r \<Longrightarrow> record_wf r \<and> check_consistency r \<and> br_id r = i"
  by (auto simp: get_Inr dest: parse_record_sound)

lemma record_name_inject [simp]: "record_name i = record_name j \<longleftrightarrow> i = j"
  by (simp add: record_name_def)

lemma payload_name_inject [simp]: "payload_name i = payload_name j \<longleftrightarrow> i = j"
  by (simp add: payload_name_def)

lemma get_written [store_simps]:
  "get env (st\<lparr>bs_records := AList.update (record_name i) (RecordFile v) (bs_records st)\<rparr>) j =
   (if j = i then (if broker_job_id_match i then rbind (parse_record env v) (\<lambda>r.
      if br_id r \<noteq> i then Inl BrokerRecordCorrupt else Inr r) else Inl BrokerStoreError)
    else get env st j)"
  by (simp add: get_def validate_broker_job_id_def map_of_update)

lemma get_payloads [simp]: "get env (st\<lparr>bs_payloads := ps\<rparr>) i = get env st i"
  by (simp add: get_def)

lemma finite_time_Inr [simp]: "finite_time now = Inr t \<longleftrightarrow> now = Fin t \<and> 0 \<le> t"
  by (auto simp: finite_time_def split: pyfloat.splits)

lemma finite_time_Fin [simp]: "0 \<le> t \<Longrightarrow> finite_time (Fin t) = Inr t"
  by (simp add: finite_time_def)

lemma publish_Inr [simp]:
  "publish env st r create = Inr (s, st') \<longleftrightarrow>
     s = r \<and> check_consistency r \<and> finite_json (record_json env r) \<and> \<not> e_too_large env r
     \<and> \<not> (create \<and> map_of (bs_records st) (record_name (br_id r)) \<noteq> None)
     \<and> st' = st\<lparr>bs_records := AList.update (record_name (br_id r)) (RecordFile (record_json env r)) (bs_records st)\<rparr>"
  by (auto simp: publish_def)

lemma record_wf_stamp: "record_wf r \<Longrightarrow> 0 < n \<Longrightarrow> 0 \<le> t \<Longrightarrow> record_wf (r\<lparr>br_revision := n, br_updated_at := t\<rparr>)"
  by (simp add: record_wf_def)

lemma update_Inr:
  "update env st i n now change = Inr (s, st') \<longleftrightarrow>
   (\<exists>t r u. now = Fin t \<and> 0 \<le> t \<and> get env st i = Inr r \<and> br_revision r = n \<and> change r t = Inr u
      \<and> publish env st (u\<lparr>br_revision := n + 1, br_updated_at := t\<rparr>) False = Inr (s, st'))"
  by (auto simp: update_def split: if_splits)

section \<open>The interface of a transition\<close>

definition store_ok :: "broker_env \<Rightarrow> broker_store \<Rightarrow> bool" where
  "store_ok env st \<longleftrightarrow> (\<forall>i r. get env st i = Inr r \<longrightarrow> attempts_sound r)"

locale record_transition =
  fixes change :: "'p \<Rightarrow> broker_record \<Rightarrow> rat \<Rightarrow> broker_error + broker_record"
    and ok :: "'p \<Rightarrow> bool"
  assumes lawful: "\<lbrakk>ok p; record_ok r; 0 \<le> t; change p r t = Inr s\<rbrakk> \<Longrightarrow> record_ok s \<and> record_evolves r s"
begin

lemma update_evolves:
  assumes "ok p" "update env st i n now (change p) = Inr (s, st')" "store_ok env st"
  shows "\<exists>r. get env st i = Inr r \<and> br_revision r = n \<and> br_revision s = n + 1 \<and> record_evolves r s
    \<and> get env st' i = Inr (as_read s) \<and> (\<forall>j. j \<noteq> i \<longrightarrow> get env st' j = get env st j)
    \<and> bs_payloads st' = bs_payloads st \<and> store_ok env st'"
proof -
  from assms(2) obtain t r u where h: "0 \<le> t" "get env st i = Inr r" "br_revision r = n"
      "change p r t = Inr u" "s = u\<lparr>br_revision := n + 1, br_updated_at := t\<rparr>" "check_consistency s"
      "st' = st\<lparr>bs_records := AList.update (record_name (br_id s)) (RecordFile (record_json env s)) (bs_records st)\<rparr>"
    by (auto simp: update_Inr)
  have r: "record_ok r" "br_id r = i" using get_sound [OF h(2)] assms(3) h(2)
    by (auto simp: store_ok_def record_ok_def)
  note law = lawful [OF assms(1) r(1) h(1,4)]
  have "0 < n" using r(1) h(3) by (simp add: record_ok_def record_wf_def)
  then have ok: "record_ok s" using law h(1,5,6) record_wf_stamp [of u "n + 1" t]
    by (simp add: record_ok_def attempts_sound_def)
  then have wf: "record_wf s" by (simp add: record_ok_def)
  have idd: "br_id s = i" using law r(2) h(5) by (simp add: record_evolves_def)
  moreover have "broker_job_id_match i" using wf idd by (auto simp: record_wf_def)
  ultimately have g: "get env st' i = Inr (as_read s)"
    using parse_record_json [OF wf h(6)] h(7) by (simp add: get_written)
  have o: "\<forall>j. j \<noteq> i \<longrightarrow> get env st' j = get env st j" "bs_payloads st' = bs_payloads st"
    using h(7) idd by (simp_all add: get_written)
  have "store_ok env st'" unfolding store_ok_def
  proof (intro allI impI)
    fix j x
    assume "get env st' j = Inr x"
    then show "attempts_sound x" using o(1) g ok assms(3) by (cases "j = i") (auto simp: store_ok_def)
  qed
  moreover have "br_revision s = n + 1" "record_evolves r s" using h(5) law by simp_all
  ultimately show ?thesis using h(2,3) g o by blast
qed

text \<open>The publish check can only refuse for the size or the JSON form, never for consistency.\<close>

lemma update_not_corrupt:
  assumes "ok p" "get env st i = Inr r" "br_revision r = n" "0 \<le> t" "change p r t = Inr u"
    "finite_json (record_json env (u\<lparr>br_revision := n + 1, br_updated_at := t\<rparr>))"
    "\<not> e_too_large env (u\<lparr>br_revision := n + 1, br_updated_at := t\<rparr>)" "attempts_sound r"
  shows "\<exists>st'. update env st i n (Fin t) (change p) = Inr (u\<lparr>br_revision := n + 1, br_updated_at := t\<rparr>, st')"
proof -
  have "check_consistency u" using lawful [OF assms(1) _ assms(4,5)] get_sound [OF assms(2)] assms(8)
    by (simp add: record_ok_def)
  then have "check_consistency (u\<lparr>br_revision := n + 1, br_updated_at := t\<rparr>)"
    by (subst check_consistency_cong [where s = u]) simp_all
  then show ?thesis using assms by (auto simp: update_Inr)
qed

end

section \<open>Every operation is a lawful transition\<close>

definition env_ok :: "broker_env \<Rightarrow> bool" where
  "env_ok env \<longleftrightarrow> (\<forall>v. hex64 (e_digest env v)) \<and> (\<forall>b. hex64 (e_sha256 env b))"

lemmas attempt_laws = attempt_evolves_def same_attempt_def phase_le_def attempt_wf_def
  ATTEMPT_PHASES_def attempt_consistent_def attempt_started_def

interpretation release: record_transition release_change "\<lambda>reason. reason \<noteq> []"
proof
  fix reason :: string and r s :: broker_record and t :: rat
  assume a: "reason \<noteq> []" "record_ok r" "0 \<le> t" "release_change reason r t = Inr s"
  let ?a = "(last (br_attempts r))\<lparr>at_phase := Returned, at_returned_at := Some t,
    at_return_reason := Some reason, at_charge_released_at := Some t\<rparr>"
  have st: "br_state r = Reserved" and s: "s = replace_attempt r ?a\<lparr>br_state := at_phase ?a\<rparr>"
    using a(4) by (simp_all add: release_change_def split: if_splits)
  have ev: "attempt_evolves (last (br_attempts r)) ?a"
    using st record_ok_last(2,4,5) [OF a(2)] by (auto simp: attempt_laws)
  show "record_ok s \<and> record_evolves r s" unfolding s
    by (rule replace_attempt_lawful [OF a(2) _ _ _ ev])
      (use a(1,3) st record_ok_last [OF a(2)] in \<open>simp_all add: attempt_laws\<close>)
qed

lemma FENCED_RETURN_PREFIX_ne [simp]: "FENCED_RETURN_PREFIX \<noteq> []"
  by (simp add: FENCED_RETURN_PREFIX_def)

interpretation fence: record_transition fence_change "\<lambda>why. True"
proof
  fix why :: string and r s :: broker_record and t :: rat
  assume a: "True" "record_ok r" "0 \<le> t" "fence_change why r t = Inr s"
  let ?a = "(last (br_attempts r))\<lparr>at_phase := Returned, at_returned_at := Some t,
    at_return_reason := Some (FENCED_RETURN_PREFIX @ why), at_charge_released_at := Some t\<rparr>"
  have st: "br_state r = Transferring" and s: "s = replace_attempt r ?a\<lparr>br_state := at_phase ?a\<rparr>"
    using a(4) by (simp_all add: fence_change_def split: if_splits)
  have ev: "attempt_evolves (last (br_attempts r)) ?a"
    using st record_ok_last(2,4) [OF a(2)] by (auto simp: attempt_laws)
  show "record_ok s \<and> record_evolves r s" unfolding s
    by (rule replace_attempt_lawful [OF a(2) _ _ _ ev])
      (use a(3) st record_ok_last [OF a(2)] in \<open>simp_all add: attempt_laws\<close>)
qed

interpretation begin_transfer: record_transition begin_transfer_change env_ok
proof
  fix env :: broker_env and r s :: broker_record and t :: rat
  assume a: "env_ok env" "record_ok r" "0 \<le> t" "begin_transfer_change env r t = Inr s"
  let ?a = "(last (br_attempts r))\<lparr>at_phase := Transferring, at_transfer_started_at := Some t,
    at_request_fingerprint := Some (transfer_fingerprint env r (last (br_attempts r)))\<rparr>"
  have st: "br_state r = Reserved" and s: "s = replace_attempt r ?a\<lparr>br_state := at_phase ?a\<rparr>"
    using a(4) by (simp_all add: begin_transfer_change_def Let_def split: if_splits)
  have ev: "attempt_evolves (last (br_attempts r)) ?a"
    using st record_ok_last(2,4,5) [OF a(2)] by (auto simp: attempt_laws)
  have "hex64 (transfer_fingerprint env r (last (br_attempts r)))"
    using a(1) by (simp add: env_ok_def transfer_fingerprint_def)
  then show "record_ok s \<and> record_evolves r s" unfolding s
    by (intro replace_attempt_lawful [OF a(2) _ _ _ ev])
      (use a(3) st record_ok_last [OF a(2)] in \<open>simp_all add: attempt_laws\<close>)
qed

lemma replace_attempt_same_state:
  "at_phase a = br_state r \<Longrightarrow> replace_attempt r a\<lparr>br_state := at_phase a\<rparr> = replace_attempt r a"
  by (cases r) (simp add: replace_attempt_def)

interpretation diagnostic: record_transition diagnostic_change "\<lambda>message. True"
proof
  fix message :: string and r s :: broker_record and t :: rat
  assume a: "True" "record_ok r" "0 \<le> t" "diagnostic_change message r t = Inr s"
  let ?a = "(last (br_attempts r))
    \<lparr>at_diagnostics := last_n DIAGNOSTICS_MAX (at_diagnostics (last (br_attempts r)) @ [message])\<rparr>"
  have st: "br_state r = Transferring" and s: "s = replace_attempt r ?a"
    using a(4) by (simp_all add: diagnostic_change_def Let_def split: if_splits)
  have ph: "at_phase ?a = br_state r" using st record_ok_last(2) [OF a(2)] by simp
  have ev: "attempt_evolves (last (br_attempts r)) ?a"
    using st record_ok_last(2) [OF a(2)] by (auto simp: attempt_laws)
  show "record_ok s \<and> record_evolves r s" unfolding s
    by (rule replace_attempt_lawful [OF a(2) _ _ _ ev, unfolded replace_attempt_same_state [OF ph]])
      (use a(3) st record_ok_last [OF a(2)] in \<open>simp_all add: attempt_laws\<close>)
qed

interpretation placed: record_transition "\<lambda>(fp, j). placed_change fp j" "\<lambda>(fp, j). validate_job_id j = Inr j"
proof
  fix p :: "string \<times> string" and r s :: broker_record and t :: rat
  assume a: "case p of (fp, j) \<Rightarrow> validate_job_id j = Inr j" "record_ok r" "0 \<le> t"
    "(case p of (fp, j) \<Rightarrow> placed_change fp j) r t = Inr s"
  obtain fp j where p: "p = (fp, j)" by (cases p)
  let ?a = "(last (br_attempts r))\<lparr>at_phase := Placed, at_target_job_id := Some j, at_accepted_at := Some t\<rparr>"
  have st: "br_state r = Transferring" and s: "s = replace_attempt r ?a\<lparr>br_state := at_phase ?a\<rparr>"
    using a(4) by (simp_all add: p placed_change_def Let_def split: if_splits)
  have v: "validate_job_id j = Inr j" using a(1) p by simp
  have ev: "attempt_evolves (last (br_attempts r)) ?a"
    using st record_ok_last(2,4) [OF a(2)] by (auto simp: attempt_laws)
  show "record_ok s \<and> record_evolves r s" unfolding s
    by (rule replace_attempt_lawful [OF a(2) _ _ _ ev])
      (use a(3) v st record_ok_last [OF a(2)] in \<open>simp_all add: attempt_laws\<close>)
qed

interpretation settle: record_transition "\<lambda>_ :: unit. settle_change" "\<lambda>_. True"
proof
  fix p :: unit and r s :: broker_record and t :: rat
  assume a: "True" "record_ok r" "0 \<le> t" "settle_change r t = Inr s"
  let ?a = "(last (br_attempts r))\<lparr>at_charge_released_at := Some t\<rparr>"
  have st: "br_state r = Placed" "at_charge_released_at (last (br_attempts r)) = None"
    and s: "s = replace_attempt r ?a"
    using a(4) by (simp_all add: settle_change_def Let_def split: if_splits)
  have ph: "at_phase ?a = br_state r" using st record_ok_last(2) [OF a(2)] by simp
  have ev: "attempt_evolves (last (br_attempts r)) ?a"
    using st record_ok_last(2,4,5) [OF a(2)] by (auto simp: attempt_laws)
  show "record_ok s \<and> record_evolves r s" unfolding s
    by (rule replace_attempt_lawful [OF a(2) _ _ _ ev, unfolded replace_attempt_same_state [OF ph]])
      (use a(3) st record_ok_last [OF a(2)] in \<open>simp_all add: attempt_laws\<close>)
qed

lemma closed_lawful:
  assumes "record_ok r" "br_state r \<notin> {Placed, Cancelled}" "check_consistency s" "cancellation_extends r s"
    "br_id s = br_id r" "br_created_at s = br_created_at r" "br_intent s = br_intent r"
    "br_payload_sha256 s = br_payload_sha256 r" "br_payload_size s = br_payload_size r"
    "br_attempts s = br_attempts r" "br_revision s = br_revision r" "br_updated_at s = br_updated_at r"
    "pred_option cancellation_wf (br_cancellation s)" "blockers_wf (br_held_blockers s)"
    "br_state s = Held \<Longrightarrow> br_cancellation s = None"
  shows "record_ok s \<and> record_evolves r s"
  using assms by (simp add: record_ok_def record_wf_def record_evolves_def attempts_sound_def list_all2_same)

interpretation resume: record_transition "\<lambda>_ :: unit. resume_change" "\<lambda>_. True"
proof
  fix p :: unit and r s :: broker_record and t :: rat
  assume a: "True" "record_ok r" "0 \<le> t" "resume_change r t = Inr s"
  have st: "br_state r = Returned" using a(4) by (simp add: resume_change_def split: if_splits)
  have r: "check_consistency r" "record_wf r" using a(2) by (simp_all add: record_ok_def)
  have all: "list_all settled (br_attempts r)" "list_all attempt_consistent (br_attempts r)"
    using r(1) check_consistency_open [OF st] record_ok_last(1,2,6) [OF a(2)] st
    by (auto simp: list_all_iff set_butlast_last)
  have canc: "case br_cancellation r of None \<Rightarrow> True | Some c \<Rightarrow> cn_completed_at c = None"
    using r(1) check_consistency_open [OF st] by simp
  have ok: "check_consistency s"
    using a(4) r(1) st all unfolding resume_change_def
    by (cases "br_cancellation r") (auto simp: check_consistency_closed [OF refl])
  show "record_ok s \<and> record_evolves r s"
    by (rule closed_lawful [OF a(2)])
      (use st ok r canc a(3,4) in \<open>auto simp: resume_change_def record_wf_def cancellation_extends_def
        cancellation_evolves_def cancellation_wf_def split: option.splits\<close>)
qed

interpretation cancel: record_transition cancel_change "\<lambda>reason. reason \<noteq> []"
proof
  fix reason :: string and r s :: broker_record and t :: rat
  assume a: "reason \<noteq> []" "record_ok r" "0 \<le> t" "cancel_change reason r t = Inr s"
  have none: "br_state r \<noteq> Cancelled" "br_cancellation r = None"
    using a(4) by (auto simp: cancel_change_def split: if_splits)
  have r: "check_consistency r" "record_wf r" using a(2) by (simp_all add: record_ok_def)
  have s: "br_attempts s = br_attempts r" "br_held_blockers s = br_held_blockers r"
    "br_state s = (if br_state r = Held then Cancelled else br_state r)"
    "br_cancellation s = Some \<lparr>cn_requested_at = t, cn_reason = reason,
       cn_completed_at = (if br_state r = Held then Some t else None)\<rparr>"
    "br_id s = br_id r" "br_created_at s = br_created_at r" "br_intent s = br_intent r"
    "br_payload_sha256 s = br_payload_sha256 r" "br_payload_size s = br_payload_size r"
    "br_revision s = br_revision r" "br_updated_at s = br_updated_at r"
    using a(4) by (auto simp: cancel_change_def split: if_splits)
  have "check_consistency s"
    using r(1) none s(1-4) by (cases "br_state r")
      (simp_all add: check_consistency_closed [OF s(3)] check_consistency_open [OF s(3)]
        check_consistency_open [OF refl, of r] check_consistency_closed [OF refl, of r])
  then have "record_ok s" using a r s none
    by (simp add: record_ok_def record_wf_def attempts_sound_def cancellation_wf_def)
  moreover have "record_evolves r s"
    using s none by (simp add: record_evolves_def cancellation_extends_def list_all2_same)
  ultimately show "record_ok s \<and> record_evolves r s" ..
qed

interpretation held_blockers: record_transition "\<lambda>(env, bs). held_blockers_change env bs" "\<lambda>_. True"
proof
  fix p :: "broker_env \<times> (string \<times> string) list" and r s :: broker_record and t :: rat
  assume a: "True" "record_ok r" "0 \<le> t"
    "(case p of (env, bs) \<Rightarrow> held_blockers_change env bs) r t = Inr s"
  obtain env bs where p: "p = (env, bs)" by (cases p)
  have st: "br_state r = Held" and s: "s = r\<lparr>br_held_blockers := bs\<rparr>"
    using a(4) by (auto simp: p held_blockers_change_def Let_def split: if_splits)
  have bs: "blockers_wf bs"
    using a(4) by (auto simp: p held_blockers_change_def Let_def split: if_splits dest: parse_record_json_blockers)
  have r: "check_consistency r" "record_wf r" using a(2) by (simp_all add: record_ok_def)
  have "check_consistency s" using r(1) st s by (simp add: check_consistency_closed [where s = Held])
  then have "record_ok s" using a(2) s bs by (simp add: record_ok_def record_wf_def attempts_sound_def)
  moreover have "record_evolves r s"
    using s by (simp add: record_evolves_def cancellation_extends_same list_all2_same)
  ultimately show "record_ok s \<and> record_evolves r s" ..
qed

lemma valid_intent_demand: "valid_intent i \<Longrightarrow> 0 < in_cpus i \<and> 0 < in_mem_mb i"
  by (auto simp: make_intent_def placement_request_of_def make_placement_request_def split: if_splits sum.splits)

lemma new_attempt_wf:
  assumes "record_wf r" "sn_host s \<noteq> []" "sroot \<noteq> []" "0 \<le> t"
  shows "attempt_wf (br_id r) (1 + int (length (br_attempts r))) (new_attempt r d s sroot t)"
  using assms valid_intent_demand [of "br_intent r"]
  by (simp add: attempt_wf_def new_attempt_def ATTEMPT_PHASES_def Let_def record_wf_def)

interpretation reserve: record_transition "\<lambda>(d, sn, sroot). reserve_change d sn sroot"
  "\<lambda>(d, sn, sroot). sn_host sn \<noteq> [] \<and> sroot \<noteq> []"
proof
  fix p :: "placement_decision \<times> capacity_snapshot \<times> string" and r s :: broker_record and t :: rat
  assume a: "case p of (d, sn, sroot) \<Rightarrow> sn_host sn \<noteq> [] \<and> sroot \<noteq> []" "record_ok r" "0 \<le> t"
    "(case p of (d, sn, sroot) \<Rightarrow> reserve_change d sn sroot) r t = Inr s"
  obtain d sn sroot where p: "p = (d, sn, sroot)" by (cases p)
  have st: "br_state r = Held" "br_cancellation r = None" "length (br_attempts r) < ATTEMPTS_MAX"
    and s: "s = r\<lparr>br_state := Reserved, br_attempts := br_attempts r @ [new_attempt r d sn sroot t],
                 br_held_blockers := []\<rparr>"
    using a(4) by (auto simp: p reserve_change_def split: if_splits)
  have r: "check_consistency r" "record_wf r" using a(2) by (simp_all add: record_ok_def)
  have na: "at_phase (new_attempt r d sn sroot t) = Reserved" "attempt_consistent (new_attempt r d sn sroot t)"
    "\<not> attempt_started (new_attempt r d sn sroot t)"
    by (simp_all add: new_attempt_def Let_def attempt_consistent_def attempt_started_def)
  have "check_consistency s" using r(1) st s na
    by (simp add: check_consistency_closed [OF st(1)] check_consistency_open [where s = Reserved] list_all_iff)
  moreover have "record_wf s" using r(2) st(3) s a(1,3) p new_attempt_wf [OF r(2), of sn sroot t d]
    by (simp add: record_wf_def attempts_wf_append)
  moreover have "attempts_sound s" using a(2) s na by (simp add: record_ok_def attempts_sound_def)
  moreover have "record_evolves r s"
    using s st by (simp add: record_evolves_def cancellation_extends_def list_all2_same)
  ultimately show "record_ok s \<and> record_evolves r s" by (simp add: record_ok_def)
qed

end
