(* ===== verification/Broker_Steps.thy ===== *)
theory Broker_Steps
  imports Broker_Lifecycle
begin

text \<open>
  The broker store under any interleaving of its operations.

  \<open>store_step\<close> has one rule per operation of \<open>BrokerStore\<close> that changes the store, with
  arbitrary arguments: several processes share the directory, and each operation is one
  transition under the writer lock. \<open>reachable\<close> stores start empty. The properties follow from
  one fact per step, \<open>store_advances\<close>: every readable record stays readable and evolves along
  the contract of the previous theory.
\<close>

section \<open>Steps\<close>

definition empty_store :: broker_store where
  "empty_store = \<lparr>bs_records = [], bs_payloads = []\<rparr>"

inductive store_step :: "broker_env \<Rightarrow> broker_store \<Rightarrow> broker_store \<Rightarrow> bool" for env where
  step_accept: "valid_intent intent \<Longrightarrow> broker_job_id_match fresh \<Longrightarrow>
     accept env st data intent now key fresh = (res, st') \<Longrightarrow> store_step env st st'"
| step_held_blockers: "record_held_blockers env st i n bs now = Inr (r, st') \<Longrightarrow> store_step env st st'"
| step_reserve: "sn_host sn \<noteq> [] \<Longrightarrow> reserve env st i n d sn sroot now = Inr (r, st') \<Longrightarrow> store_step env st st'"
| step_release: "release_reservation env st i n reason now = Inr (r, st') \<Longrightarrow> store_step env st st'"
| step_fence: "fence_transfer env st i n evidence now = Inr (r, st') \<Longrightarrow> store_step env st st'"
| step_resume: "resume_holding env st i n now = Inr (r, st') \<Longrightarrow> store_step env st st'"
| step_begin: "begin_transfer env st i n now = Inr (r, st') \<Longrightarrow> store_step env st st'"
| step_diagnostic: "record_transfer_diagnostic env st i n message now = Inr (r, st') \<Longrightarrow> store_step env st st'"
| step_placed: "record_placed env st i n fp j now = Inr (r, st') \<Longrightarrow> store_step env st st'"
| step_settle: "settle_charge env st i n now = Inr (r, st') \<Longrightarrow> store_step env st st'"
| step_cancel: "request_cancel env st i n reason now = Inr (r, st') \<Longrightarrow> store_step env st st'"

abbreviation later :: "broker_env \<Rightarrow> broker_store \<Rightarrow> broker_store \<Rightarrow> bool" where
  "later env \<equiv> (store_step env)\<^sup>*\<^sup>*"

definition reachable :: "broker_env \<Rightarrow> broker_store \<Rightarrow> bool" where
  "reachable env st \<longleftrightarrow> later env empty_store st"

definition record_later :: "broker_record \<Rightarrow> broker_record \<Rightarrow> bool" where
  "record_later r s \<longleftrightarrow> record_evolves r s \<and> (s = r \<or> br_revision r < br_revision s)"

definition payload_present :: "broker_env \<Rightarrow> broker_store \<Rightarrow> broker_record \<Rightarrow> bool" where
  "payload_present env st r \<longleftrightarrow> (\<exists>data. map_of (bs_payloads st) (payload_name (br_id r)) = Some data
     \<and> e_sha256 env data = br_payload_sha256 r)"

text \<open>What a record needs to be written: no infinity in the free JSON of its attempts.\<close>

definition attempt_writable :: "broker_attempt \<Rightarrow> bool" where
  "attempt_writable a \<longleftrightarrow> finite_json (PyDict (at_snapshot a)) \<and> finite_json (PyList (at_ranking a))
     \<and> finite_json (PyDict (at_blockers a))"

lemma finite_json_py_opt: "(\<And>x. finite_json (f x)) \<Longrightarrow> finite_json (py_opt f v)"
  by (simp add: py_opt_def split: option.split)

lemma finite_json_strs [simp]: "list_all finite_json (map PyStr xs)"
  by (simp add: list_all_iff)

lemma finite_attempt_json: "finite_json (attempt_json a) = attempt_writable a"
  by (simp add: attempt_json_def attempt_writable_def charge_json_def time_json_def finite_json_py_opt)

lemma finite_record_json:
  "finite_json (record_json env r) \<longleftrightarrow> finite_json (intent_json (br_intent r)) \<and> list_all attempt_writable (br_attempts r)"
proof -
  have "finite_json (py_opt cancellation_json (br_cancellation r))"
    by (rule finite_json_py_opt) (simp add: cancellation_json_def time_json_def finite_json_py_opt)
  moreover have "list_all finite_json (map attempt_json xs) = list_all attempt_writable xs" for xs
    by (simp add: list.pred_map o_def finite_attempt_json)
  moreover have "list_all (\<lambda>kv. finite_json (snd kv)) (map (\<lambda>(h, w). (h, PyStr w)) bs)" for bs
    by (auto simp: list_all_iff)
  ultimately show ?thesis by (auto simp: record_json_def time_json_def)
qed

definition store_inv :: "broker_env \<Rightarrow> broker_store \<Rightarrow> bool" where
  "store_inv env st \<longleftrightarrow> store_ok env st \<and> (\<forall>i r. get env st i = Inr r \<longrightarrow> payload_present env st r)
     \<and> (\<forall>i r. get env st i = Inr r \<longrightarrow> finite_json (record_json env r)) \<and> distinct (map fst (bs_records st))"

definition store_advances :: "broker_env \<Rightarrow> broker_store \<Rightarrow> broker_store \<Rightarrow> bool" where
  "store_advances env st st' \<longleftrightarrow> store_inv env st'
     \<and> (\<forall>i r. get env st i = Inr r \<longrightarrow> (\<exists>r'. get env st' i = Inr r' \<and> record_later r r'))"

lemma record_later_refl [simp, intro]: "record_later r r"
  by (simp add: record_later_def)

lemma record_later_trans: "record_later r s \<Longrightarrow> record_later s u \<Longrightarrow> record_later r u"
  unfolding record_later_def by (elim conjE disjE) (auto intro: record_evolves_trans)

lemma payload_present_evolves:
  "payload_present env st r \<Longrightarrow> record_evolves r s \<Longrightarrow> bs_payloads st' = bs_payloads st \<Longrightarrow>
   payload_present env st' s"
  by (simp add: payload_present_def record_evolves_def)

section \<open>One step\<close>

context record_transition
begin

lemma update_advances:
  assumes "ok p" "update env st i n now (change p) = Inr (s, st')" "store_inv env st"
  shows "store_advances env st st'"
proof -
  from update_evolves [OF assms(1,2)] assms(3) obtain r where r: "get env st i = Inr r" "br_revision r = n"
      "br_revision s = n + 1" "record_evolves r s" "get env st' i = Inr (as_read s)"
      "\<forall>j. j \<noteq> i \<longrightarrow> get env st' j = get env st j" "bs_payloads st' = bs_payloads st" "store_ok env st'"
    unfolding store_inv_def by blast
  have later: "record_later r (as_read s)" using r(2-4) by (simp add: record_later_def)
  have fin: "finite_json (record_json env (as_read s))" and dis: "distinct (map fst (bs_records st'))"
    using assms(2,3) by (auto simp: update_Inr finite_record_json store_inv_def intro: distinct_update)
  have "finite_json (record_json env x)" if "get env st' j = Inr x" for j x
    using that r(5,6) fin assms(3) by (cases "j = i") (auto simp: store_inv_def)
  note written = this dis
  have "payload_present env st' x" if "get env st' j = Inr x" for j x
  proof (cases "j = i")
    case True
    have "payload_present env st r" using r(1) assms(3) by (simp add: store_inv_def)
    then have "payload_present env st' (as_read s)"
      using payload_present_evolves [of env st r "as_read s" st'] r(4,7) by simp
    then show ?thesis using that True r(5) by simp
  next
    case False
    then show ?thesis using that r(6,7) assms(3) by (auto simp: store_inv_def payload_present_def)
  qed
  moreover have "\<exists>y. get env st' j = Inr y \<and> record_later x y" if "get env st j = Inr x" for j x
  proof (cases "j = i")
    case True
    then show ?thesis using that later r(1,5) by auto
  next
    case False
    then show ?thesis using that r(6) by auto
  qed
  ultimately show ?thesis using r(8) written unfolding store_advances_def store_inv_def by blast
qed

end

lemma parse_reason_Inr: "parse_reason v = Inr w \<Longrightarrow> w \<noteq> []"
  by (auto simp: parse_reason_def py_strip_def DIAGNOSTIC_MAX_CHARS_def split: if_splits)

lemma update_step_advances:
  assumes "store_step env st st'" "env_ok env" "store_inv env st"
    "\<And>data intent now key fresh res. valid_intent intent \<Longrightarrow> broker_job_id_match fresh \<Longrightarrow>
       accept env st data intent now key fresh = (res, st') \<Longrightarrow> store_advances env st st'"
  shows "store_advances env st st'"
  using assms(1)
proof cases
  case (step_accept intent fresh data now key res)
  then show ?thesis by (rule assms(4))
next
  case (step_held_blockers i n bs now r)
  then show ?thesis using held_blockers.update_advances [where p = "(env, bs)"] assms(3)
    by (auto simp: record_held_blockers_def)
next
  case (step_reserve sn i n d sroot now r)
  then have "sroot \<noteq> []" by (auto simp: reserve_def starts_with_def split: if_splits)
  then show ?thesis using step_reserve reserve.update_advances [where p = "(d, sn, sroot)"] assms(3)
    by (auto simp: reserve_def split: if_splits)
next
  case (step_release i n reason now r)
  then show ?thesis using assms(3)
    by (auto simp: release_reservation_def intro: release.update_advances dest: parse_reason_Inr)
next
  case (step_fence i n evidence now r)
  then show ?thesis using fence.update_advances assms(3) by (auto simp: fence_transfer_def)
next
  case (step_resume i n now r)
  then show ?thesis using resume.update_advances assms(3) by (auto simp: resume_holding_def)
next
  case (step_begin i n now r)
  then show ?thesis using begin_transfer.update_advances assms(2,3) by (auto simp: begin_transfer_def)
next
  case (step_diagnostic i n message now r)
  then show ?thesis using diagnostic.update_advances assms(3) by (auto simp: record_transfer_diagnostic_def)
next
  case (step_placed i n fp j now r)
  then obtain jid where "validate_job_id j = Inr jid" "update env st i n now (placed_change fp jid) = Inr (r, st')"
    by (auto simp: record_placed_def split: sum.splits)
  then show ?thesis using placed.update_advances [where p = "(fp, jid)"] validate_job_id_Inr [of j jid] assms(3) by auto
next
  case (step_settle i n now r)
  then show ?thesis using settle.update_advances assms(3) by (auto simp: settle_charge_def)
next
  case (step_cancel i n reason now r)
  then show ?thesis using assms(3)
    by (auto simp: request_cancel_def intro: cancel.update_advances dest: parse_reason_Inr)
qed

section \<open>Accepting\<close>

lemma keyed_id_match:
  assumes "env_ok env" "broker_job_id_for_key env k = Inr job_id"
  shows "broker_job_id_match job_id"
proof -
  obtain d where d: "hex64 d" "job_id = ''b-'' @ take 12 d"
    using assms by (auto simp: broker_job_id_for_key_def env_ok_def split: if_splits)
  then show ?thesis
    by (auto simp: broker_job_id_match_def hex64_def list_all_iff dest: in_set_takeD)
qed

lemma new_record_sel [simp]:
  "br_id (new_record env i intent data t) = i" "br_intent (new_record env i intent data t) = intent"
  "br_payload_sha256 (new_record env i intent data t) = e_sha256 env data"
  by (simp_all add: new_record_def)

lemma new_record_ok:
  assumes "env_ok env" "valid_intent intent" "broker_job_id_match job_id" "0 \<le> t"
  shows "record_ok (new_record env job_id intent data t)"
  using assms by (simp add: record_ok_def record_wf_def new_record_def attempts_sound_def env_ok_def
      check_consistency_closed [where s = Held])

lemma payload_present_link:
  assumes "link_payload env st data (payload_name job_id) adopt = Inr st'"
  shows "bs_records st' = bs_records st"
    and "payload_present env st r \<Longrightarrow> payload_present env st' r"
    and "adopt = None \<or> adopt = Some (e_sha256 env data) \<Longrightarrow>
         \<exists>d. map_of (bs_payloads st') (payload_name job_id) = Some d \<and> e_sha256 env d = e_sha256 env data"
    and "adopt = None \<Longrightarrow> map_of (bs_payloads st) (payload_name job_id) = None"
  using assms by (auto simp: link_payload_def payload_present_def map_of_update split: option.splits if_splits)

text \<open>
  The core of both branches: the payload was linked, the record is published or the payload is
  withdrawn. Neither touches a readable record, because there is none under this id.
\<close>

lemma publish_accepted_advances:
  assumes inv: "store_inv env st" and r: "record_ok r" "br_payload_sha256 r = e_sha256 env data"
    and link: "link_payload env st data (payload_name (br_id r)) adopt = Inr st1"
      "adopt = None \<or> adopt = Some (e_sha256 env data)"
    and pub: "publish_accepted env st1 r = (res, st')"
    and free: "\<And>x. get env st (br_id r) \<noteq> Inr x"
  shows "store_advances env st st'"
proof -
  note l = payload_present_link [OF link(1)]
  have same: "get env st1 j = get env st j" for j using l(1) by (simp add: get_def)
  show ?thesis
  proof (cases "publish env st1 r True")
    case (Inl e)
    then have st': "st' = st1\<lparr>bs_payloads := AList.delete (payload_name (br_id r)) (bs_payloads st1)\<rparr>"
      using pub by (simp add: publish_accepted_def)
    have "payload_present env st' x" if "get env st j = Inr x" for j x
    proof -
      have "br_id x \<noteq> br_id r" using that free get_sound [OF that] by auto
      moreover have "payload_present env st1 x" using that inv l(2) by (simp add: store_inv_def)
      ultimately show ?thesis by (simp add: payload_present_def st' delete_conv')
    qed
    then show ?thesis using inv same l(1)
      by (auto simp: store_advances_def store_inv_def store_ok_def st')
  next
    case (Inr p)
    obtain r' st2 where p: "p = (r', st2)" by (cases p)
    then have st': "st' = st1\<lparr>bs_records := AList.update (record_name (br_id r)) (RecordFile (record_json env r)) (bs_records st1)\<rparr>"
      using Inr pub publish_Inr [of env st1 r True r' st2] by (simp add: publish_accepted_def del: publish_Inr)
    have wf: "record_wf r" "check_consistency r" using r(1) by (simp_all add: record_ok_def)
    have g: "get env st' j = (if j = br_id r then Inr (as_read r) else get env st j)" for j
      using parse_record_json [OF wf, of env] wf(1) same by (simp add: st' get_written record_wf_def)
    have new: "payload_present env st' (as_read r)"
      using l(3) link(2) r(2) by (auto simp: payload_present_def st')
    have old: "payload_present env st' x" if "get env st j = Inr x" for j x
      using that inv l(2) by (auto simp: store_inv_def payload_present_def st')
    have fin: "finite_json (record_json env (as_read r))"
      using Inr p by (auto simp: finite_record_json)
    have dis: "distinct (map fst (bs_records st'))" using inv l(1) by (simp add: st' store_inv_def distinct_update)
    have "store_inv env st'" using new old inv r(1) fin dis
      by (auto simp: store_inv_def store_ok_def g split: if_splits)
    then show ?thesis using free by (auto simp: store_advances_def g)
  qed
qed

lemma accept_advances:
  assumes "valid_intent intent" "broker_job_id_match fresh" "env_ok env" "store_inv env st"
    "accept env st data intent now key fresh = (res, st')"
  shows "store_advances env st st'"
proof -
  have refl: "store_advances env st st" using assms(4) by (auto simp: store_advances_def)
  show ?thesis
  proof (cases "st' = st")
    case False
    then obtain t job_id where t: "0 \<le> t" and
      id: "key = None \<and> job_id = fresh \<or> (\<exists>k. key = Some k \<and> broker_job_id_for_key env k = Inr job_id)"
      and acc: "\<exists>adopt st1. link_payload env st data (payload_name job_id) adopt = Inr st1
         \<and> publish_accepted env st1 (new_record env job_id intent data t) = (res, st')
         \<and> (case key of None \<Rightarrow> adopt = None
            | Some _ \<Rightarrow> adopt = Some (e_sha256 env data) \<and> existing_record env st job_id = Inr None)"
      using assms(5) by (auto simp: accept_def Let_def new_record_def split: sum.splits if_splits option.splits)
    then obtain adopt st1 where l: "link_payload env st data (payload_name job_id) adopt = Inr st1"
        "publish_accepted env st1 (new_record env job_id intent data t) = (res, st')"
        "case key of None \<Rightarrow> adopt = None
         | Some _ \<Rightarrow> adopt = Some (e_sha256 env data) \<and> existing_record env st job_id = Inr None" by blast
    have ok: "record_ok (new_record env job_id intent data t)"
      using new_record_ok [OF assms(3,1) _ t] id assms(2) keyed_id_match [OF assms(3)] by blast
    have free: "get env st job_id \<noteq> Inr x" for x
    proof (cases key)
      case None
      then have "map_of (bs_payloads st) (payload_name job_id) = None"
        using payload_present_link(4) [OF l(1)] l(3) by simp
      then show ?thesis using assms(4) get_sound [of env st job_id x]
        by (fastforce simp: store_inv_def payload_present_def)
    next
      case (Some k)
      then show ?thesis using l(3) by (auto simp: existing_record_def split: sum.splits)
    qed
    show ?thesis
      by (rule publish_accepted_advances [OF assms(4) ok _ _ _ l(2)])
        (use l(1,3) free in \<open>auto simp: new_record_def split: option.splits\<close>)
  qed (simp add: refl)
qed

lemma step_advances: "store_step env st st' \<Longrightarrow> env_ok env \<Longrightarrow> store_inv env st \<Longrightarrow> store_advances env st st'"
  by (erule update_step_advances) (auto intro: accept_advances)

section \<open>Any number of steps\<close>

lemma later_advances:
  assumes "later env st st'" "env_ok env" "store_inv env st"
  shows "store_advances env st st'"
  using assms(1)
proof (induction rule: rtranclp_induct)
  case base
  then show ?case using assms(3) by (auto simp: store_advances_def)
next
  case (step st1 st2)
  then have "store_advances env st1 st2"
    using step_advances assms(2) by (auto simp: store_advances_def)
  with step.IH show ?case unfolding store_advances_def by (meson record_later_trans)
qed

lemma store_inv_empty: "store_inv env empty_store"
  by (simp add: store_inv_def store_ok_def get_def empty_store_def split: sum.splits)

lemma reachable_inv: "reachable env st \<Longrightarrow> env_ok env \<Longrightarrow> store_inv env st"
  using later_advances [OF _ _ store_inv_empty] by (auto simp: reachable_def store_advances_def)

lemma reachable_later:
  assumes "reachable env st" "env_ok env" "later env st st'" "get env st i = Inr r"
  obtains r' where "get env st' i = Inr r'" "record_later r r'"
  using later_advances [OF assms(3,2) reachable_inv [OF assms(1,2)]] assms(4)
  unfolding store_advances_def by blast

lemma reachable_trans: "reachable env st \<Longrightarrow> later env st st' \<Longrightarrow> reachable env st'"
  by (auto simp: reachable_def)

section \<open>Concrete stores for the witnesses\<close>

definition demo_id :: string where "demo_id = ''b-0123456789ab''"

definition demo_file :: "broker_record \<Rightarrow> broker_store" where
  "demo_file r = \<lparr>bs_records = [(record_name demo_id, RecordFile (record_json sample_env r))],
     bs_payloads = [(payload_name demo_id, ''payload'')]\<rparr>"

definition demo_decision :: placement_decision where
  "demo_decision = \<lparr>dc_host = Some ''a'', dc_blockers = [(''b'', ''cpus-insufficient'')],
     dc_ranking = [(-1, -1, -8000, -8, 0, 1, ''a'')]\<rparr>"

definition demo_r1 :: broker_record where
  "demo_r1 = new_record sample_env demo_id sample_intent ''payload'' 1"

definition demo_attempt :: broker_attempt where
  "demo_attempt = new_attempt demo_r1 demo_decision (sample_snapshot ''a'' 8) ''/var/vq'' 2"

definition demo_r2 :: broker_record where
  "demo_r2 = demo_r1\<lparr>br_state := Reserved, br_attempts := [demo_attempt], br_revision := 2, br_updated_at := 2\<rparr>"

definition demo_r3 :: broker_record where
  "demo_r3 = demo_r2\<lparr>br_state := Transferring, br_revision := 3, br_updated_at := 3,
     br_attempts := [demo_attempt\<lparr>at_phase := Transferring, at_transfer_started_at := Some 3,
       at_request_fingerprint := Some (replicate 64 (CHR ''d''))\<rparr>]\<rparr>"

definition demo_r4 :: broker_record where
  "demo_r4 = demo_r3\<lparr>br_revision := 4, br_updated_at := 4,
     br_attempts := [last (br_attempts demo_r3)\<lparr>at_diagnostics := [''timeout'']\<rparr>]\<rparr>"

definition demo_rc :: broker_record where
  "demo_rc = demo_r2\<lparr>br_revision := 3, br_updated_at := 3, br_cancellation :=
     Some \<lparr>cn_requested_at = 3, cn_reason = ''not needed'', cn_completed_at = None\<rparr>\<rparr>"

definition demo_held :: broker_store where "demo_held = demo_file demo_r1"
definition demo_reserved :: broker_store where "demo_reserved = demo_file demo_r2"
definition demo_transferring :: broker_store where "demo_transferring = demo_file demo_r3"
definition demo_diagnosed :: broker_store where "demo_diagnosed = demo_file demo_r4"
definition demo_cancelling :: broker_store where "demo_cancelling = demo_file demo_rc"

lemma sample_env_ok: "env_ok sample_env"
proof -
  have "hex64 (replicate 64 CHR ''d'')" "hex64 (replicate 64 CHR ''e'')" by code_simp+
  then show ?thesis by (simp add: env_ok_def sample_env_def)
qed

lemma demo_held_reachable: "reachable sample_env demo_held"
proof -
  have a: "valid_intent sample_intent" "broker_job_id_match demo_id" by code_simp+
  have "accept sample_env empty_store ''payload'' sample_intent (Fin 1) None demo_id = (Inr demo_r1, demo_held)"
    by code_simp
  with a have "store_step sample_env empty_store demo_held" by (rule step_accept)
  then show ?thesis by (simp add: reachable_def)
qed

lemma demo_reserve_step: "store_step sample_env demo_held demo_reserved"
proof (rule step_reserve)
  show "reserve sample_env demo_held demo_id 1 demo_decision (sample_snapshot ''a'' 8) ''/var/vq'' (Fin 2)
    = Inr (demo_r2, demo_reserved)" by code_simp
qed (simp add: sample_snapshot_def)

lemma demo_begin_step: "store_step sample_env demo_reserved demo_transferring"
proof (rule step_begin)
  show "begin_transfer sample_env demo_reserved demo_id 2 (Fin 3) = Inr (demo_r3, demo_transferring)" by code_simp
qed

lemma demo_diagnose_step: "store_step sample_env demo_transferring demo_diagnosed"
proof (rule step_diagnostic)
  show "record_transfer_diagnostic sample_env demo_transferring demo_id 3 ''timeout'' (Fin 4)
    = Inr (demo_r4, demo_diagnosed)" by code_simp
qed

lemma demo_cancel_step: "store_step sample_env demo_reserved demo_cancelling"
proof (rule step_cancel)
  show "request_cancel sample_env demo_reserved demo_id 2 ''not needed'' (Fin 3) = Inr (demo_rc, demo_cancelling)"
    by code_simp
qed

lemma demo_get:
  "get sample_env demo_reserved demo_id = Inr demo_r2" "get sample_env demo_transferring demo_id = Inr demo_r3"
  "get sample_env demo_diagnosed demo_id = Inr demo_r4" "get sample_env demo_cancelling demo_id = Inr demo_rc"
  by code_simp+

lemma demo_reachable: "reachable sample_env demo_reserved" "reachable sample_env demo_transferring"
  "reachable sample_env demo_cancelling" "reachable sample_env demo_diagnosed"
  using demo_held_reachable demo_reserve_step demo_begin_step demo_cancel_step demo_diagnose_step
  by (meson r_into_rtranclp reachable_trans)+

lemma demo_later: "later sample_env demo_reserved demo_transferring"
  "later sample_env demo_transferring demo_diagnosed" "later sample_env demo_reserved demo_diagnosed"
  using demo_begin_step demo_diagnose_step by (meson converse_rtranclp_into_rtranclp r_into_rtranclp)+

end
