(* ===== verification/Broker_Safety.thy ===== *)
theory Broker_Safety
  imports Broker_Steps
begin

text \<open>
  What the broker store guarantees over whole runs: durability of accepted jobs, optimistic
  concurrency, identical replays of a transfer, at most one live attempt, cancellation, keyed
  acceptance, and the accounting of charges.
\<close>

section \<open>Durability\<close>

text \<open>
  C1: an accepted job is never lost or rewritten. Whatever operations any process performs
  afterwards, in any order, the record stays readable; its intent, payload digest and creation
  time never change, its attempts keep their order, target, charge, key and, once recorded,
  their fingerprint and target job id, a returned attempt is frozen, a cancellation request is
  kept, and the revision grows with every change.
\<close>

theorem accepted_job_preserved:
  assumes "env_ok env" "reachable env st" "later env st st'" "get env st i = Inr r"
  shows "\<exists>r'. get env st' i = Inr r' \<and> record_evolves r r' \<and> (r' = r \<or> br_revision r < br_revision r')"
  using reachable_later [OF assms(2,1,3,4)] by (metis record_later_def)

theorem accepted_job_preserved_witness:
  "\<exists>r'. get sample_env demo_diagnosed demo_id = Inr r' \<and> record_evolves demo_r2 r'
     \<and> (r' = demo_r2 \<or> br_revision demo_r2 < br_revision r')"
  by (rule accepted_job_preserved [OF sample_env_ok demo_reachable(1) demo_later(3) demo_get(1)])

text \<open>
  C6: optimistic concurrency. Once a record has moved on from the revision a caller read, every
  update the caller bases on that revision is refused with a conflict, whatever the change: two
  processes can never both act on the same revision.
\<close>

theorem stale_update_refused:
  assumes "env_ok env" "reachable env st" "later env st st'" "get env st i = Inr r"
    "get env st' i \<noteq> Inr r" "finite_time now = Inr t"
  shows "update env st' i (br_revision r) now change = Inl BrokerRecordConflict"
proof -
  obtain r' where r': "get env st' i = Inr r'" "record_later r r'"
    using reachable_later [OF assms(2,1,3,4)] by blast
  then have "br_revision r < br_revision r'" using assms(5) by (auto simp: record_later_def)
  then show ?thesis using r'(1) assms(6) by (simp add: update_def)
qed

theorem stale_update_refused_witness:
  "update sample_env demo_transferring demo_id (br_revision demo_r2) (Fin 5) (cancel_change ''late'')
     = Inl BrokerRecordConflict"
proof (rule stale_update_refused [OF sample_env_ok demo_reachable(1) demo_later(1) demo_get(1)])
  have "br_state demo_r3 \<noteq> br_state demo_r2" by (simp add: demo_r3_def demo_r2_def)
  then show "get sample_env demo_transferring demo_id \<noteq> Inr demo_r2" by (auto simp: demo_get)
  show "finite_time (Fin 5) = Inr 5" by simp
qed

section \<open>Transfers\<close>

lemma list_all2_take_nth:
  "list_all2 P xs (take (length xs) ys) \<Longrightarrow> k < length xs \<Longrightarrow> P (xs ! k) (ys ! k)"
  by (auto simp: list_all2_conv_all_nth)

lemma evolves_nth:
  "record_evolves r s \<Longrightarrow> k < length (br_attempts r) \<Longrightarrow> attempt_evolves (br_attempts r ! k) (br_attempts s ! k)"
  unfolding record_evolves_def by (elim conjE) (rule list_all2_take_nth)

lemma evolves_last:
  assumes "record_evolves r s" "length (br_attempts s) = length (br_attempts r)" "br_attempts r \<noteq> []"
  shows "attempt_evolves (last (br_attempts r)) (last (br_attempts s))"
proof -
  have "br_attempts s \<noteq> []" using assms(2,3) by auto
  then show ?thesis
    using evolves_nth [OF assms(1), of "length (br_attempts r) - 1"] assms(2,3) by (simp add: last_conv_nth)
qed

lemma transfer_request_Inr:
  assumes "transfer_request_of env st r = Inr q"
  shows "get env st (br_id r) = Inr r" "br_state r = Transferring"
    "at_request_fingerprint (last (br_attempts r)) = Some (tr_request_fingerprint q)"
    "tr_request_fingerprint q = transfer_fingerprint env r (last (br_attempts r))"
    "verify_payload env st r = Inr (tr_payload q)"
    "tr_target_host q = at_target_host (last (br_attempts r))"
    "tr_target_state_root q = at_target_state_root (last (br_attempts r))"
    "tr_idempotency_key q = at_idempotency_key (last (br_attempts r))" "tr_intent q = br_intent r"
    "tr_job_id q = br_id r"
  using assms by (auto simp: transfer_request_of_def Let_def split: if_splits option.splits)

text \<open>
  C3: a transfer is replayed, never re-decided. Two keyed requests built for the same attempt of
  a job, at any two moments of a run and by any two processes, are the same request: same
  target, state root, idempotency key, fingerprint, payload, intent, pinned revision and
  authority. The target's idempotency key can therefore deduplicate them.
\<close>

theorem replayed_transfer_identical:
  assumes "env_ok env" "reachable env st" "later env st st'"
    "transfer_request_of env st r = Inr q" "transfer_request_of env st' r' = Inr q'"
    "br_id r' = br_id r" "length (br_attempts r') = length (br_attempts r)"
  shows "q' = q"
proof -
  note q = transfer_request_Inr [OF assms(4)] and q' = transfer_request_Inr [OF assms(5)]
  obtain s where "get env st' (br_id r) = Inr s" "record_later r s"
    using reachable_later [OF assms(2,1,3) q(1)] by blast
  then have ev: "record_evolves r r'" using q'(1) assms(6) by (simp add: record_later_def)
  have ne: "br_attempts r \<noteq> []"
    using get_sound [OF q(1)] q(2) check_consistency_attempts [of r] by simp
  have "attempt_evolves (last (br_attempts r)) (last (br_attempts r'))"
    by (rule evolves_last [OF ev assms(7) ne])
  then have same: "same_attempt (last (br_attempts r)) (last (br_attempts r'))"
      "at_request_fingerprint (last (br_attempts r')) = at_request_fingerprint (last (br_attempts r))"
    using q(3) by (auto simp: attempt_evolves_def)
  have i: "br_intent r' = br_intent r" using ev by (simp add: record_evolves_def)
  have p: "tr_payload q' = tr_payload q"
    using q(5) q'(5) assms(6) by (auto simp: verify_payload_def split: option.splits if_splits)
  have pin: "pinned_sha (last (br_attempts r')) = pinned_sha (last (br_attempts r))"
    using same(1) by (simp add: fun_eq_iff pinned_sha_def same_attempt_def)
  show ?thesis
    using assms(4,5) p same i pin assms(6)
    by (auto simp: transfer_request_of_def Let_def same_attempt_def split: if_splits option.splits list.splits)
qed

theorem replayed_transfer_identical_witness:
  "\<exists>q. transfer_request_of sample_env demo_transferring demo_r3 = Inr q
     \<and> transfer_request_of sample_env demo_diagnosed demo_r4 = Inr q"
proof -
  have "\<not> isl (transfer_request_of sample_env demo_transferring demo_r3)" by code_simp
  then obtain q where q: "transfer_request_of sample_env demo_transferring demo_r3 = Inr q"
    by (cases "transfer_request_of sample_env demo_transferring demo_r3") auto
  have "\<not> isl (transfer_request_of sample_env demo_diagnosed demo_r4)" by code_simp
  then obtain q' where q': "transfer_request_of sample_env demo_diagnosed demo_r4 = Inr q'"
    by (cases "transfer_request_of sample_env demo_diagnosed demo_r4") auto
  have "q' = q"
    by (rule replayed_transfer_identical [OF sample_env_ok demo_reachable(2) demo_later(2) q q'])
      (simp_all add: demo_r4_def demo_r3_def)
  with q q' show ?thesis by simp
qed

text \<open>
  C4: no double run. In every reachable record at most the current attempt holds a charge, and
  every earlier attempt whose transfer was started was given up only on the target's fence (its
  return reason carries the fence evidence): the broker never has two attempts of one job that
  could both be accepted.
\<close>

theorem single_live_attempt:
  assumes "env_ok env" "reachable env st" "get env st i = Inr r"
  shows "length (filter (\<lambda>a. at_charge_released_at a = None) (br_attempts r)) \<le> 1
    \<and> list_all (\<lambda>a. at_phase a = Returned \<and> (attempt_started a \<longrightarrow>
         starts_with FENCED_RETURN_PREFIX (the_or [] (at_return_reason a)))) (butlast (br_attempts r))
    \<and> (br_state r \<in> {Held, Cancelled, Returned} \<longrightarrow> list_all settled (br_attempts r))"
proof -
  have c: "check_consistency r" and s: "attempts_sound r"
    using get_sound [OF assms(3)] reachable_inv [OF assms(2,1)] assms(3)
    by (auto simp: store_inv_def store_ok_def)
  have h: "list_all settled (butlast (br_attempts r))" "list_all attempt_consistent (br_attempts r)"
    using c by (simp_all add: check_consistency_def)
  have "length (filter (\<lambda>a. at_charge_released_at a = None) (br_attempts r)) \<le> 1"
  proof (cases "br_attempts r" rule: rev_cases)
    case (snoc xs x)
    then have "filter (\<lambda>a. at_charge_released_at a = None) xs = []"
      using h(1) by (auto simp: list_all_iff filter_empty_conv)
    then show ?thesis by (simp add: snoc)
  qed simp
  moreover have "list_all (\<lambda>a. at_phase a = Returned \<and> (attempt_started a \<longrightarrow>
      starts_with FENCED_RETURN_PREFIX (the_or [] (at_return_reason a)))) (butlast (br_attempts r))"
    using h by (auto simp: list_all_iff attempt_consistent_def dest: in_set_butlastD)
  moreover have "list_all settled (br_attempts r)" if "br_state r \<in> {Held, Cancelled, Returned}"
  proof (cases "br_state r = Returned")
    case True
    then show ?thesis using h(1) check_consistency_attempts [OF c] s
      by (auto simp: list_all_iff set_butlast_last attempts_sound_def)
  next
    case False
    then show ?thesis using check_consistency_closed [OF refl, of r] that c by auto
  qed
  ultimately show ?thesis by blast
qed

theorem single_live_attempt_witness:
  "length (filter (\<lambda>a. at_charge_released_at a = None) (br_attempts demo_r3)) \<le> 1"
  using single_live_attempt [OF sample_env_ok demo_reachable(2) demo_get(2)] by blast

section \<open>Cancellation\<close>

text \<open>
  C8: a cancellation request is final. From the moment a record carries one, no later reserve or
  begin of a transfer succeeds for it, in any order of operations and for any revision: a
  cancelled job that had not been sent is never sent.
\<close>

theorem cancelled_never_sent:
  assumes "env_ok env" "reachable env st" "later env st st'" "get env st i = Inr r" "br_cancellation r \<noteq> None"
  shows "isl (reserve env st' i n d sn sroot now) \<and> isl (begin_transfer env st' i n now)
    \<and> isl (record_held_blockers env st' i n bs now)"
proof -
  obtain r' where r': "get env st' i = Inr r'" "record_later r r'"
    using reachable_later [OF assms(2,1,3,4)] by blast
  then have c: "br_cancellation r' \<noteq> None"
    using assms(5) by (auto simp: record_later_def record_evolves_def cancellation_extends_def split: option.splits)
  have no: "isl (update env st' i n now ch)" if "\<And>t x. ch r' t \<noteq> Inr x" for ch
    using r'(1) that by (cases "update env st' i n now ch") (auto simp: update_Inr)
  show ?thesis
    using c by (auto simp: reserve_def begin_transfer_def record_held_blockers_def reserve_change_def
        begin_transfer_change_def held_blockers_change_def intro!: no split: if_splits)
qed

theorem cancelled_never_sent_witness:
  "isl (begin_transfer sample_env demo_cancelling demo_id 3 (Fin 9))"
  using cancelled_never_sent [OF sample_env_ok demo_reachable(3) rtranclp.rtrancl_refl demo_get(4)]
  by (simp add: demo_rc_def)

section \<open>Acceptance\<close>

text \<open>
  The payload of an accepted job is kept as long as its record: in every reachable store each
  readable record has a payload file whose digest is the recorded one.
\<close>

theorem payload_kept:
  assumes "env_ok env" "reachable env st" "get env st i = Inr r"
  shows "\<exists>data. map_of (bs_payloads st) (payload_name i) = Some data \<and> e_sha256 env data = br_payload_sha256 r"
  using reachable_inv [OF assms(2,1)] get_sound [OF assms(3)] assms(3)
  unfolding store_inv_def payload_present_def by blast

theorem payload_kept_witness:
  "\<exists>data. map_of (bs_payloads demo_transferring) (payload_name demo_id) = Some data
     \<and> e_sha256 sample_env data = br_payload_sha256 demo_r3"
  by (rule payload_kept [OF sample_env_ok demo_reachable(2) demo_get(2)])

lemma as_read_new_record [simp]: "as_read (new_record env i intent data t) = new_record env i intent data t"
  by (simp add: as_read_def new_record_def)

lemma publish_accepted_Inr:
  "publish_accepted env st r = (Inr s, st') \<longleftrightarrow> publish env st r True = Inr (s, st')"
  by (cases "publish env st r True") (auto simp: publish_accepted_def simp del: publish_Inr)

lemma intent_eq_refl [simp]: "intent_eq i i"
  by (simp add: intent_eq_def)

lemma intent_eq_left: "intent_eq i j \<Longrightarrow> intent_eq i k = intent_eq j k"
  by (auto simp: intent_eq_def)

lemma accept_keyed_Inr:
  assumes "accept env st data intent now (Some k) fresh = (Inr r, st')" "env_ok env" "valid_intent intent"
  shows "broker_job_id_for_key env k = Inr (br_id r) \<and> intent_eq (br_intent r) intent
    \<and> br_payload_sha256 r = e_sha256 env data \<and> e_archive_ok env intent data \<and> get env st' (br_id r) = Inr r"
proof -
  from assms(1) obtain t job_id where j: "0 \<le> t" "broker_job_id_for_key env k = Inr job_id"
      "e_archive_ok env intent data" "now = Fin t"
    by (auto simp: accept_def split: sum.splits if_splits)
  with assms(1) have c: "st' = st \<and> existing_record env st job_id = Inr (Some r) \<and> intent_eq (br_intent r) intent
          \<and> br_payload_sha256 r = e_sha256 env data
        \<or> (\<exists>st1. publish_accepted env st1 (new_record env job_id intent data t) = (Inr r, st'))"
    by (auto simp: accept_def Let_def split: sum.splits if_splits option.splits)
  have idm: "broker_job_id_match job_id" by (rule keyed_id_match [OF assms(2) j(2)])
  from c show ?thesis
  proof
    assume e: "st' = st \<and> existing_record env st job_id = Inr (Some r) \<and> intent_eq (br_intent r) intent
          \<and> br_payload_sha256 r = e_sha256 env data"
    then have "get env st job_id = Inr r" by (auto simp: existing_record_def split: sum.splits if_splits)
    with e j show ?thesis using get_sound [of env st job_id r] by auto
  next
    assume "\<exists>st1. publish_accepted env st1 (new_record env job_id intent data t) = (Inr r, st')"
    then obtain st1 where "publish env st1 (new_record env job_id intent data t) True = Inr (r, st')"
      unfolding publish_accepted_Inr by blast
    moreover have ok: "record_wf (new_record env job_id intent data t)" "check_consistency (new_record env job_id intent data t)"
      using new_record_ok [OF assms(2,3) idm j(1)] by (simp_all add: record_ok_def)
    ultimately show ?thesis
      using parse_record_json [OF ok, of env] j idm by (auto simp: get_written)
  qed
qed

text \<open>
  C7: keyed acceptance is idempotent. After a submission with an idempotency key was accepted,
  the same submission with that key returns the same job at any later time and changes nothing,
  and a submission with that key and another intent or payload digest is refused as a conflict
  and changes nothing. Intents are compared as Python compares them.
\<close>

theorem keyed_accept_idempotent:
  assumes "env_ok env" "reachable env st" "valid_intent intent"
    and acc: "accept env st data intent now (Some k) fresh = (Inr r, st1)"
    and lat: "later env st1 st2" and time: "finite_time now' = Inr t'"
  shows "\<exists>r'. get env st2 (br_id r) = Inr r' \<and> record_evolves r r'
      \<and> (\<forall>intent'. e_archive_ok env intent' data \<and> intent_eq intent intent' \<longrightarrow>
           accept env st2 data intent' now' (Some k) fresh' = (Inr r', st2))
      \<and> accept env st2 data intent now' (Some k) fresh' = (Inr r', st2)
      \<and> (\<forall>data' intent'. e_archive_ok env intent' data'
           \<and> (\<not> intent_eq intent intent' \<or> e_sha256 env data' \<noteq> e_sha256 env data) \<longrightarrow>
           accept env st2 data' intent' now' (Some k) fresh' = (Inl BrokerIdempotencyConflict, st2))"
proof -
  note a = accept_keyed_Inr [OF acc assms(1,3)]
  have "broker_job_id_match (br_id r)" using a keyed_id_match [OF assms(1)] by blast
  then have "accept env st data intent now (Some k) (br_id r) = (Inr r, st1)"
    using acc by (simp add: accept_def)
  with assms(3) \<open>broker_job_id_match (br_id r)\<close> have "store_step env st st1" by (rule step_accept)
  then have "reachable env st1" using assms(2) by (meson r_into_rtranclp reachable_trans)
  then obtain r' where r': "get env st2 (br_id r) = Inr r'" "record_later r r'"
    using reachable_later [OF _ assms(1) lat] a by blast
  then have ev: "record_evolves r r'" by (simp add: record_later_def)
  then have same: "intent_eq (br_intent r') i = intent_eq intent i" "br_payload_sha256 r' = e_sha256 env data" "br_id r' = br_id r" for i
    using a by (auto simp: record_evolves_def intent_eq_left)
  have "accept env st2 data' intent' now' (Some k) fresh' =
      (if \<not> e_archive_ok env intent' data' then (Inl BrokerStoreError, st2)
       else if intent_eq intent intent' \<and> e_sha256 env data' = e_sha256 env data then (Inr r', st2)
       else (Inl BrokerIdempotencyConflict, st2))" for data' intent'
    using a r'(1) same time by (auto simp: accept_def existing_record_def Let_def)
  then show ?thesis using r'(1) ev a by auto
qed

theorem keyed_accept_idempotent_witness:
  "\<exists>r' st1. accept sample_env empty_store ''payload'' sample_intent (Fin 1) (Some ''key-1'') demo_id
        = (Inr r', st1)
     \<and> accept sample_env st1 ''payload'' sample_intent (Fin 2) (Some ''key-1'') demo_id = (Inr r', st1)"
proof -
  let ?a = "accept sample_env empty_store ''payload'' sample_intent (Fin 1) (Some ''key-1'') demo_id"
  have "\<not> isl (fst ?a)" "valid_intent sample_intent" by code_simp+
  then obtain r where "fst ?a = Inr r" by (cases "fst ?a") auto
  then have acc: "?a = (Inr r, snd ?a)" by (metis prod.collapse)
  have "reachable sample_env empty_store" by (simp add: reachable_def)
  moreover have "finite_time (Fin 2) = Inr 2" by simp
  ultimately obtain r' where "get sample_env (snd ?a) (br_id r) = Inr r'"
      "accept sample_env (snd ?a) ''payload'' sample_intent (Fin 2) (Some ''key-1'') demo_id = (Inr r', snd ?a)"
    using keyed_accept_idempotent [OF sample_env_ok _ \<open>valid_intent sample_intent\<close> acc rtranclp.rtrancl_refl] by blast
  moreover have "get sample_env (snd ?a) (br_id r) = Inr r"
    using accept_keyed_Inr [OF acc sample_env_ok \<open>valid_intent sample_intent\<close>] by simp
  ultimately show ?thesis using acc by (metis Inr_inject)
qed

section \<open>Charges\<close>

definition charge_of :: "(string \<times> broker_charge) list \<Rightarrow> string \<Rightarrow> broker_charge" where
  "charge_of totals h = the_or \<lparr>ch_cpus = 0, ch_mem_mb = 0, ch_job_slots = 0\<rparr> (map_of totals h)"

definition open_on :: "string \<Rightarrow> broker_attempt \<Rightarrow> bool" where
  "open_on h a \<longleftrightarrow> at_charge_released_at a = None \<and> at_target_host a = h"

lemma add_charges_sum:
  "ch_cpus (charge_of (add_charges totals as) h)
     = ch_cpus (charge_of totals h) + sum_list (map (\<lambda>a. ch_cpus (at_charge a)) (filter (open_on h) as))"
  "ch_mem_mb (charge_of (add_charges totals as) h)
     = ch_mem_mb (charge_of totals h) + sum_list (map (\<lambda>a. ch_mem_mb (at_charge a)) (filter (open_on h) as))"
  "ch_job_slots (charge_of (add_charges totals as) h)
     = ch_job_slots (charge_of totals h) + sum_list (map (\<lambda>a. ch_job_slots (at_charge a)) (filter (open_on h) as))"
  by (induction as arbitrary: totals)
    (auto simp: charge_of_def open_on_def Let_def map_of_update)

lemma record_name_scan: "ends_with ''.json'' (record_name i)" "take (length (record_name i) - 5) (record_name i) = i"
  "\<not> ends_with ''.tmp'' (record_name i)"
  by (simp_all add: record_name_def ends_with_def)

lemma scan_names_complete:
  assumes "scan_names env st names = Inr (records, problems)" "record_name i \<in> set names" "get env st i = Inr r"
  shows "r \<in> set records"
  using assms
proof (induction names arbitrary: records problems)
  case (Cons name names)
  have m: "broker_job_id_match i" using assms(3) by (simp add: get_Inr)
  show ?case
  proof (cases "name = record_name i")
    case True
    then show ?thesis using Cons.prems(1) assms(3) m record_name_scan [of i] by (auto simp: Let_def)
  next
    case False
    then have "record_name i \<in> set names" using Cons.prems(2) by simp
    then show ?thesis using Cons.prems(1) Cons.IH assms(3)
      by (auto simp: Let_def split: if_splits sum.splits prod.splits)
  qed
qed simp

lemma ends_with_json_stem:
  assumes "ends_with ''.json'' name"
  shows "record_name (take (length name - 5) name) = name"
proof -
  have "length ''.json'' = 5" by simp
  then have "drop (length name - 5) name = ''.json''" using assms unfolding ends_with_def by metis
  then show ?thesis
    using append_take_drop_id [of "length name - 5" name] by (simp add: record_name_def)
qed

lemma scan_names_sound:
  assumes "scan_names env st names = Inr (records, problems)"
  shows "(\<forall>r \<in> set records. record_name (br_id r) \<in> set names \<and> get env st (br_id r) = Inr r)
    \<and> (distinct names \<longrightarrow> distinct (map br_id records))"
  using assms
proof (induction names arbitrary: records problems)
  case (Cons name names)
  show ?case
  proof (cases "scan_names env st names")
    case (Inl e)
    then show ?thesis using Cons.prems by (auto simp: Let_def split: if_splits sum.splits)
  next
    case (Inr p)
    obtain rs ps where p: "p = (rs, ps)" by (cases p)
    note IH = Cons.IH [OF Inr [unfolded p]]
    consider "records = rs"
      | r where "records = r # rs" "ends_with ''.json'' name" "get env st (take (length name - 5) name) = Inr r"
      using Cons.prems Inr p by (auto simp: Let_def split: if_splits sum.splits)
    then show ?thesis
    proof cases
      case 1
      then show ?thesis using IH by auto
    next
      case 2
      have "br_id r = take (length name - 5) name" using get_sound [OF 2(3)] by blast
      then have n: "record_name (br_id r) = name" "get env st (br_id r) = Inr r"
        using ends_with_json_stem [OF 2(2)] 2(3) by simp_all
      have "br_id r \<notin> br_id ` set rs" if "name \<notin> set names" using that IH n(1) by force
      then show ?thesis using 2(1) IH n by auto
    qed
  qed
qed simp

lemma outstanding_records:
  assumes "outstanding_charges env st = Inr totals" "distinct (map fst (bs_records st))"
  shows "\<exists>records. distinct (map br_id records) \<and> (\<forall>r. r \<in> set records \<longleftrightarrow> (\<exists>i. get env st i = Inr r))
    \<and> totals = add_charges [] (concat (map br_attempts records))"
proof -
  obtain records where sc: "scan_names env st (sort (map fst (bs_records st))) = Inr (records, [])"
    and t: "totals = add_charges [] (concat (map br_attempts records))"
    using assms(1) by (auto simp: outstanding_charges_def scan_def split: if_splits)
  note sound = scan_names_sound [OF sc]
  have "r \<in> set records" if "get env st i = Inr r" for i r
  proof (rule scan_names_complete [OF sc _ that])
    from that obtain v where "(record_name i, v) \<in> set (bs_records st)"
      by (auto simp: get_Inr dest: map_of_SomeD)
    then show "record_name i \<in> set (sort (map fst (bs_records st)))" by force
  qed
  then show ?thesis using sound t assms(2) by (intro exI [of _ records]) auto
qed

text \<open>
  no charge is forgotten. When the outstanding charges are computed, every readable record
  of the store is counted, each exactly once, and the total of a host is the sum of the cpus,
  memory and job slots of exactly the attempts on it whose charge was not released. (With any
  unreadable record the computation refuses.)
\<close>

theorem outstanding_charges_exact:
  assumes "outstanding_charges env st = Inr totals" "distinct (map fst (bs_records st))"
  shows "\<exists>records. distinct (map br_id records)
    \<and> (\<forall>r. r \<in> set records \<longleftrightarrow> (\<exists>i. get env st i = Inr r))
    \<and> (\<forall>h. charge_of totals h = \<lparr>
         ch_cpus = (\<Sum>a\<leftarrow>filter (open_on h) (concat (map br_attempts records)). ch_cpus (at_charge a)),
         ch_mem_mb = (\<Sum>a\<leftarrow>filter (open_on h) (concat (map br_attempts records)). ch_mem_mb (at_charge a)),
         ch_job_slots = (\<Sum>a\<leftarrow>filter (open_on h) (concat (map br_attempts records)). ch_job_slots (at_charge a))\<rparr>)"
proof -
  obtain records where "distinct (map br_id records)" "\<forall>r. r \<in> set records \<longleftrightarrow> (\<exists>i. get env st i = Inr r)"
    and t: "totals = add_charges [] (concat (map br_attempts records))" using outstanding_records [OF assms] by blast
  moreover have "charge_of totals h = \<lparr>
         ch_cpus = (\<Sum>a\<leftarrow>filter (open_on h) (concat (map br_attempts records)). ch_cpus (at_charge a)),
         ch_mem_mb = (\<Sum>a\<leftarrow>filter (open_on h) (concat (map br_attempts records)). ch_mem_mb (at_charge a)),
         ch_job_slots = (\<Sum>a\<leftarrow>filter (open_on h) (concat (map br_attempts records)). ch_job_slots (at_charge a))\<rparr>" for h
    using add_charges_sum [of "[]" _ h] t by (intro broker_charge.equality) (simp_all add: charge_of_def)
  ultimately show ?thesis by blast
qed

theorem outstanding_charges_exact_witness:
  "\<exists>records. distinct (map br_id records)
    \<and> (\<forall>r. r \<in> set records \<longleftrightarrow> (\<exists>i. get sample_env demo_reserved i = Inr r))
    \<and> (\<forall>h. charge_of [(''a'', \<lparr>ch_cpus = 4, ch_mem_mb = 2000, ch_job_slots = 1\<rparr>)] h = \<lparr>
         ch_cpus = (\<Sum>a\<leftarrow>filter (open_on h) (concat (map br_attempts records)). ch_cpus (at_charge a)),
         ch_mem_mb = (\<Sum>a\<leftarrow>filter (open_on h) (concat (map br_attempts records)). ch_mem_mb (at_charge a)),
         ch_job_slots = (\<Sum>a\<leftarrow>filter (open_on h) (concat (map br_attempts records)). ch_job_slots (at_charge a))\<rparr>)"
  by (rule outstanding_charges_exact) code_simp+

section \<open>Progress\<close>

lemma writable_evolves:
  assumes "finite_json (record_json env r)" "record_evolves r s" "length (br_attempts s) = length (br_attempts r)"
  shows "finite_json (record_json env s)"
proof -
  have "attempt_writable (br_attempts s ! k)" if "k < length (br_attempts s)" for k
    using evolves_nth [OF assms(2), of k] that assms(1,3)
    by (auto simp: finite_record_json list_all_length attempt_evolves_def same_attempt_def attempt_writable_def)
  then show ?thesis using assms by (simp add: finite_record_json list_all_length record_evolves_def)
qed

context record_transition
begin

lemma update_succeeds:
  assumes "ok p" "get env st i = Inr r" "attempts_sound r" "0 \<le> t" "change p r t = Inr u"
    "finite_json (record_json env r)" "\<And>x. \<not> e_too_large env x" "length (br_attempts u) = length (br_attempts r)"
  shows "\<exists>st'. update env st i (br_revision r) (Fin t) (change p)
    = Inr (u\<lparr>br_revision := br_revision r + 1, br_updated_at := t\<rparr>, st')"
proof (rule update_not_corrupt [OF assms(1,2) refl assms(4,5) _ assms(7) assms(3)])
  have "record_ok r" using get_sound [OF assms(2)] assms(3) by (simp add: record_ok_def)
  then have "record_evolves r u" using lawful [OF assms(1) _ assms(4,5)] by blast
  then show "finite_json (record_json env (u\<lparr>br_revision := br_revision r + 1, br_updated_at := t\<rparr>))"
    using assms(8) by (intro writable_evolves [OF assms(6)]) simp_all
qed

end

lemma record_placed_succeeds:
  assumes "get env st i = Inr r" "record_ok r" "finite_json (record_json env r)" "0 \<le> t" "\<And>x. \<not> e_too_large env x"
    and st: "br_state r = Transferring" and j: "validate_job_id j = Inr j"
  shows "\<exists>fp r' st'. at_request_fingerprint (last (br_attempts r)) = Some fp
      \<and> br_state r' = Placed \<and> at_target_job_id (last (br_attempts r')) = Some j
      \<and> record_placed env st i (br_revision r) fp j (Fin t) = Inr (r', st')"
proof -
  note last = record_ok_last [OF assms(2)]
  have snd: "attempts_sound r" using assms(2) by (simp add: record_ok_def)
  obtain fp where fp: "at_request_fingerprint (last (br_attempts r)) = Some fp"
    using last(2,4) st by (auto simp: attempt_consistent_def)
  have "placed_change fp j r t = Inr (replace_attempt r (last (br_attempts r)\<lparr>at_phase := Placed,
      at_target_job_id := Some j, at_accepted_at := Some t\<rparr>)\<lparr>br_state := Placed\<rparr>)"
    using st fp by (simp add: placed_change_def)
  from placed.update_succeeds [where p = "(fp, j)", simplified, OF j assms(1) snd assms(4) this assms(3,5)] last(1) st
  show ?thesis using fp j by (fastforce simp: record_placed_def)
qed

lemma reserve_succeeds:
  assumes "get env st i = Inr r" "record_ok r" "finite_json (record_json env r)" "0 \<le> t" "\<And>x. \<not> e_too_large env x"
    and st: "br_state r = Held" "length (br_attempts r) < ATTEMPTS_MAX"
    and d: "dc_host d = Some (sn_host sn)" "sn_host sn \<noteq> []" "starts_with ''/'' sroot" "finite_json (PyDict (snapshot_json sn))"
  shows "\<exists>r' st'. br_state r' = Reserved \<and> reserve env st i (br_revision r) d sn sroot (Fin t) = Inr (r', st')"
proof -
  let ?u = "r\<lparr>br_state := Reserved, br_attempts := br_attempts r @ [new_attempt r d sn sroot t], br_held_blockers := []\<rparr>"
  have snd: "attempts_sound r" using assms(2) by (simp add: record_ok_def)
  then have c: "reserve_change d sn sroot r t = Inr ?u" using st by (simp add: reserve_change_def attempts_sound_def)
  have rank: "list_all finite_json (map rank_json ks)" for ks
    by (auto simp: list_all_iff rank_json_def split: prod.splits)
  have "attempt_writable (new_attempt r d sn sroot t)" using d(4) rank
    by (auto simp: attempt_writable_def new_attempt_def Let_def list_all_iff)
  then have "finite_json (record_json env (?u\<lparr>br_revision := br_revision r + 1, br_updated_at := t\<rparr>))"
    using assms(3) by (simp add: finite_record_json)
  moreover have "sroot \<noteq> []" using d(3) by (auto simp: starts_with_def)
  ultimately have "\<exists>st'. update env st i (br_revision r) (Fin t) (reserve_change d sn sroot)
      = Inr (?u\<lparr>br_revision := br_revision r + 1, br_updated_at := t\<rparr>, st')"
    using reserve.update_not_corrupt [where p = "(d, sn, sroot)", simplified, OF _ assms(1) refl assms(4) c _ assms(5) snd] d(2) by blast
  then show ?thesis using d by (fastforce simp: reserve_def)
qed



end
