(* ===== verification/Broker_Placer.thy ===== *)
theory Broker_Placer
  imports Broker_Safety
begin

text \<open>
  Placement and recovery, \<open>broker_placement.py\<close>: \<open>debit_snapshots\<close> and class
  \<open>BrokerPlacer\<close>.

  The world is the store, a counter of external events and the log of sent requests. Each clock
  reading, state-root probe and submission is an external event answered by the parameters
  \<open>px_clock\<close>, \<open>px_state_root\<close> and \<open>px_submit\<close>, indexed by the event counter so that two
  calls may answer differently; during an event other processes may change the store
  (\<open>px_interfere\<close>). A sent request is logged with the state root just observed for its target and the
  store it was sent against (another process's write in the window between the last check and
  the send counts as one during the send). The pass
  lock excludes other passes (\<open>px_pass_locked\<close>). Texts of exceptions and \<open>detail\<close> fields
  are not modelled, except where they become blockers or stored diagnostics.
\<close>

section \<open>World and parameters\<close>

datatype probe_answer = ProbeRaised string | ProbeRoot "string option"
datatype submit_answer = SubmitRaised string | SubmitReturned string

record placer_world =
  w_store :: broker_store
  w_tick :: nat
  w_sent :: "(transfer_request \<times> string \<times> broker_store) list"

record placer_env =
  px_env :: broker_env
  px_clock :: "nat \<Rightarrow> pyfloat"
  px_state_root :: "nat \<Rightarrow> string \<Rightarrow> probe_answer"
  px_submit :: "nat \<Rightarrow> transfer_request \<Rightarrow> submit_answer"
  px_interfere :: "nat \<Rightarrow> broker_store \<Rightarrow> broker_store"
  px_refuse_target :: "string \<Rightarrow> string option"
  px_job_refusal :: "broker_record \<Rightarrow> string \<Rightarrow> string option"
  px_rerank :: "(broker_record \<Rightarrow> placement_decision \<Rightarrow> capacity_snapshot list \<Rightarrow> pyfloat \<Rightarrow> pyfloat
                  \<Rightarrow> broker_error + placement_decision) option"
  px_pass_locked :: bool
  px_repr :: "string \<Rightarrow> string" \<comment> \<open>\<open>repr\<close> of a string\<close>
  px_invalid_id :: "string \<Rightarrow> string" \<comment> \<open>the diagnostic of a refused job id\<close>

datatype outcome_kind = OUTCOME_HELD | OUTCOME_PLACED | OUTCOME_UNCERTAIN | OUTCOME_RELEASED | OUTCOME_CANCEL_PENDING

record placement_outcome =
  po_job :: string
  po_outcome :: outcome_kind
  po_host :: "string option"
  po_target_job_id :: "string option"
  po_blockers :: "(string \<times> string) list"

abbreviation outcome_of where
  "outcome_of i k h j bs \<equiv> \<lparr>po_job = i, po_outcome = k, po_host = h, po_target_job_id = j, po_blockers = bs\<rparr>"

type_synonym 'a wres = "(broker_error + 'a) \<times> placer_world"

definition wbind :: "'a wres \<Rightarrow> ('a \<Rightarrow> placer_world \<Rightarrow> 'b wres) \<Rightarrow> 'b wres" where
  "wbind m f = (case m of (Inl e, w) \<Rightarrow> (Inl e, w) | (Inr x, w) \<Rightarrow> f x w)"

definition tick :: "placer_env \<Rightarrow> placer_world \<Rightarrow> placer_world" where
  "tick P w = w\<lparr>w_store := px_interfere P (w_tick w) (w_store w), w_tick := Suc (w_tick w)\<rparr>"

definition clock :: "placer_env \<Rightarrow> placer_world \<Rightarrow> pyfloat wres" where
  "clock P w = (Inr (px_clock P (w_tick w)), tick P w)"

definition probe :: "placer_env \<Rightarrow> string \<Rightarrow> placer_world \<Rightarrow> probe_answer wres" where
  "probe P host w = (Inr (px_state_root P (w_tick w) host), tick P w)"

definition send :: "placer_env \<Rightarrow> transfer_request \<Rightarrow> string \<Rightarrow> placer_world \<Rightarrow> submit_answer wres" where
  "send P q observed w =
     (Inr (px_submit P (w_tick w) q), tick P (w\<lparr>w_sent := w_sent w @ [(q, observed, w_store w)]\<rparr>))"

definition from_store :: "placer_world \<Rightarrow> broker_error + 'a \<Rightarrow> 'a wres" where
  "from_store w res = (res, w)"

definition to_store :: "placer_world \<Rightarrow> broker_error + (broker_record \<times> broker_store) \<Rightarrow> broker_record wres" where
  "to_store w res = (case res of Inl e \<Rightarrow> (Inl e, w) | Inr (r, st) \<Rightarrow> (Inr r, w\<lparr>w_store := st\<rparr>))"

section \<open>Headroom after outstanding charges\<close>

definition debit_snapshot :: "(string \<times> broker_charge) list \<Rightarrow> capacity_snapshot \<Rightarrow> capacity_snapshot" where
  "debit_snapshot charges s =
     (if sn_is_scheduler_host s
      then s\<lparr>sn_free_jobs := map_option (\<lambda>n. n - (\<Sum>c\<leftarrow>charges. ch_job_slots (snd c))) (sn_free_jobs s)\<rparr>
      else case map_of charges (sn_host s) of
        None \<Rightarrow> s
      | Some c \<Rightarrow> s\<lparr>sn_free_cpus := map_option (\<lambda>n. n - ch_cpus c) (sn_free_cpus s),
                   sn_free_mem_mb := map_option (\<lambda>n. n - ch_mem_mb c) (sn_free_mem_mb s),
                   sn_free_jobs := map_option (\<lambda>n. n - ch_job_slots c) (sn_free_jobs s)\<rparr>)"

definition debit_snapshots ::
  "capacity_snapshot list \<Rightarrow> (string \<times> broker_charge) list \<Rightarrow> capacity_snapshot list" where
  "debit_snapshots snapshots charges = map (debit_snapshot charges) snapshots"

section \<open>Transfer\<close>

definition cancel_pending :: "broker_record \<Rightarrow> placement_outcome option" where
  "cancel_pending r = (case (br_cancellation r, current_attempt r) of
      (Some c, Some a) \<Rightarrow> Some (outcome_of (br_id r) OUTCOME_CANCEL_PENDING (Some (at_target_host a)) None [])
    | _ \<Rightarrow> None)"

definition retry_on_conflict ::
  "placer_env \<Rightarrow> broker_record \<Rightarrow> (broker_record \<Rightarrow> placer_world \<Rightarrow> broker_record wres) \<Rightarrow> placer_world \<Rightarrow> broker_record wres" where
  "retry_on_conflict P r apply w = (case apply r w of
      (Inl e, w1) \<Rightarrow>
        if e \<noteq> BrokerRecordConflict then (Inl e, w1)
        else wbind (from_store w1 (get (px_env P) (w_store w1) (br_id r))) (\<lambda>current w2.
          if br_state current \<noteq> Transferring \<or> current_attempt current = None \<or> current_attempt r = None
             \<or> at_request_fingerprint (the (current_attempt current)) \<noteq> at_request_fingerprint (the (current_attempt r))
          then (Inl BrokerRecordConflict, w2) else apply current w2)
    | ok \<Rightarrow> ok)"

definition diagnose :: "placer_env \<Rightarrow> broker_record \<Rightarrow> string \<Rightarrow> placer_world \<Rightarrow> broker_record wres" where
  "diagnose P r message = retry_on_conflict P r (\<lambda>current w. wbind (clock P w) (\<lambda>now w.
     to_store w (record_transfer_diagnostic (px_env P) (w_store w) (br_id current) (br_revision current) message now)))"

definition uncertain :: "placer_env \<Rightarrow> broker_record \<Rightarrow> string \<Rightarrow> string \<Rightarrow> placer_world \<Rightarrow> placement_outcome wres" where
  "uncertain P r host message w = wbind (diagnose P r message w) (\<lambda>_ w.
     (Inr (outcome_of (br_id r) OUTCOME_UNCERTAIN (Some host) None []), w))"

definition submit_and_record ::
  "placer_env \<Rightarrow> broker_record \<Rightarrow> transfer_request \<Rightarrow> string \<Rightarrow> placer_world \<Rightarrow> placement_outcome wres" where
  "submit_and_record P r q observed w = wbind (send P q observed w) (\<lambda>answer w.
     case (case answer of SubmitRaised d \<Rightarrow> Inl d
           | SubmitReturned j \<Rightarrow> (case validate_job_id j of Inr j \<Rightarrow> Inr j | Inl _ \<Rightarrow> Inl (px_invalid_id P j))) of
       Inl d \<Rightarrow> uncertain P r (tr_target_host q) (''transfer outcome unknown: '' @ d) w
     | Inr j \<Rightarrow> wbind (retry_on_conflict P r (\<lambda>current w. wbind (clock P w) (\<lambda>now w.
           to_store w (record_placed (px_env P) (w_store w) (br_id current) (br_revision current)
             (tr_request_fingerprint q) j now))) w) (\<lambda>placed w.
         (Inr (outcome_of (br_id placed) OUTCOME_PLACED (Some (tr_target_host q)) (Some j) []), w)))"

definition transfer_checked ::
  "placer_env \<Rightarrow> broker_record \<Rightarrow> transfer_request \<Rightarrow> string option \<Rightarrow> placer_world \<Rightarrow> placement_outcome wres" where
  "transfer_checked P r q observed w = (let host = tr_target_host q in case observed of
      None \<Rightarrow> uncertain P r host
        (''target '' @ host @ '' gave no capacity evidence this pass; replay held until it answers'') w
    | Some sroot \<Rightarrow>
        if sroot \<noteq> tr_target_state_root q then uncertain P r host
          (''target '' @ host @ '' now resolves state root '' @ px_repr P sroot @ '', not the recorded ''
           @ px_repr P (tr_target_state_root q) @ ''; replay held for operator reconciliation'') w
        else wbind (from_store w (get (px_env P) (w_store w) (br_id r))) (\<lambda>current w.
          case cancel_pending current of
            Some pending \<Rightarrow> (Inr pending, w)
          | None \<Rightarrow> submit_and_record P r q sroot w))"

definition transfer :: "placer_env \<Rightarrow> broker_record \<Rightarrow> string option \<Rightarrow> placer_world \<Rightarrow> placement_outcome wres" where
  "transfer P r observed w = (case cancel_pending r of
      Some pending \<Rightarrow> (Inr pending, w)
    | None \<Rightarrow> wbind (from_store w (transfer_request_of (px_env P) (w_store w) r)) (\<lambda>q w.
        case observed of
          Some sroot \<Rightarrow> transfer_checked P r q (Some sroot) w
        | None \<Rightarrow> wbind (probe P (tr_target_host q) w) (\<lambda>answer w. case answer of
            ProbeRaised d \<Rightarrow> uncertain P r (tr_target_host q)
              (''target '' @ tr_target_host q @ '' state root unavailable ('' @ d @ ''); replay held'') w
          | ProbeRoot sroot \<Rightarrow> transfer_checked P r q sroot w)))"

section \<open>Placing one held job\<close>

datatype target_choice = Chosen string string | NoTarget

text \<open>The walk over the ranking: the first allowed host with an absolute state root, and the skipped ones.\<close>

fun choose_target ::
  "placer_env \<Rightarrow> broker_record \<Rightarrow> rank list \<Rightarrow> placer_world \<Rightarrow> (target_choice \<times> (string \<times> string) list) \<times> placer_world" where
  "choose_target P r [] w = ((NoTarget, []), w)"
| "choose_target P r (rk # ranking) w = (let host = rank_host rk in
     case px_refuse_target P host of
       Some why \<Rightarrow> (case choose_target P r ranking w of ((c, skipped), w) \<Rightarrow>
         ((c, (host, ''target-refused: '' @ why) # skipped), w))
     | None \<Rightarrow> (case px_job_refusal P r host of
         Some why \<Rightarrow> (case choose_target P r ranking w of ((c, skipped), w) \<Rightarrow>
           ((c, (host, ''job-refused: '' @ why) # skipped), w))
       | None \<Rightarrow> (let answer = px_state_root P (w_tick w) host; w = tick P w in
           case answer of
             ProbeRaised d \<Rightarrow> (case choose_target P r ranking w of ((c, skipped), w) \<Rightarrow>
               ((c, (host, ''state-root-unknown: '' @ d) # skipped), w))
           | ProbeRoot (Some sroot) \<Rightarrow>
               if starts_with ''/'' sroot then ((Chosen host sroot, []), w)
               else (case choose_target P r ranking w of ((c, skipped), w) \<Rightarrow>
                 ((c, (host, ''state-root-unknown'') # skipped), w))
           | ProbeRoot None \<Rightarrow> (case choose_target P r ranking w of ((c, skipped), w) \<Rightarrow>
               ((c, (host, ''state-root-unknown'') # skipped), w)))))"

definition hold_job :: "placer_env \<Rightarrow> broker_record \<Rightarrow> (string \<times> string) list \<Rightarrow> pyfloat \<Rightarrow> placer_world \<Rightarrow> placement_outcome wres" where
  "hold_job P r blockers now w = wbind (to_store w
       (record_held_blockers (px_env P) (w_store w) (br_id r) (br_revision r) blockers now)) (\<lambda>_ w.
     (Inr (outcome_of (br_id r) OUTCOME_HELD None None blockers), w))"

definition commit_target ::
  "placer_env \<Rightarrow> broker_record \<Rightarrow> placement_decision \<Rightarrow> capacity_snapshot list \<Rightarrow> string \<Rightarrow> string \<Rightarrow> pyfloat \<Rightarrow>
   placer_world \<Rightarrow> placement_outcome wres" where
  "commit_target P r d debited host sroot now w =
     wbind (from_store w (verify_payload (px_env P) (w_store w) r)) (\<lambda>_ w.
     case find (\<lambda>s. sn_host s = host) debited of
       None \<Rightarrow> (Inl StopIteration, w)
     | Some s \<Rightarrow>
         wbind (to_store w (reserve (px_env P) (w_store w) (br_id r) (br_revision r) d s sroot now)) (\<lambda>r w.
         wbind (clock P w) (\<lambda>now w.
         wbind (to_store w (begin_transfer (px_env P) (w_store w) (br_id r) (br_revision r) now)) (\<lambda>r w.
           transfer P r (Some sroot) w))))"

definition decide ::
  "placer_env \<Rightarrow> broker_record \<Rightarrow> capacity_snapshot list \<Rightarrow> pyfloat \<Rightarrow> pyfloat \<Rightarrow> placement_decision
   \<Rightarrow> broker_error + placement_decision" where
  "decide P r debited now max_age d0 = (case px_rerank P of
      Some f \<Rightarrow> (if dc_host d0 \<noteq> None then f r d0 debited now max_age else Inr d0) | None \<Rightarrow> Inr d0)"

definition act_on ::
  "placer_env \<Rightarrow> broker_record \<Rightarrow> capacity_snapshot list \<Rightarrow> pyfloat \<Rightarrow> placement_decision \<Rightarrow> placer_world \<Rightarrow> placement_outcome wres" where
  "act_on P r debited now d w =
     (if dc_host d = None then hold_job P r (dc_blockers d) now w
      else case choose_target P r (dc_ranking d) w of (c, w) \<Rightarrow> (case c of
           (NoTarget, skipped) \<Rightarrow> hold_job P r (sort (dc_blockers d @ skipped)) now w
         | (Chosen host sroot, skipped) \<Rightarrow>
             commit_target P r (d\<lparr>dc_host := Some host, dc_blockers := sort (dc_blockers d @ skipped)\<rparr>)
               debited host sroot now w))"

definition place_locked ::
  "placer_env \<Rightarrow> string \<Rightarrow> capacity_snapshot list \<Rightarrow> pyfloat \<Rightarrow> placer_world \<Rightarrow> placement_outcome wres" where
  "place_locked P i snapshots max_age w =
     wbind (from_store w (get (px_env P) (w_store w) i)) (\<lambda>r w.
     if br_state r \<noteq> Held then (Inl BrokerRecordConflict, w)
     else wbind (clock P w) (\<lambda>now w.
     wbind (from_store w (outstanding_charges (px_env P) (w_store w))) (\<lambda>charges w.
       case rbind (placement_request_of (br_intent r))
              (\<lambda>rq. place_broker_job (debit_snapshots snapshots charges) rq now max_age) of
         Inl _ \<Rightarrow> (Inl ValueError, w)
       | Inr d0 \<Rightarrow> wbind (from_store w (decide P r (debit_snapshots snapshots charges) now max_age d0))
           (act_on P r (debit_snapshots snapshots charges) now))))"

definition place where
  "place P i snapshots max_age w =
     (if px_pass_locked P then (Inl BrokerStoreBusy, w) else place_locked P i snapshots max_age w)"

section \<open>Recovery\<close>

definition resume_record :: "placer_env \<Rightarrow> broker_record \<Rightarrow> placer_world \<Rightarrow> (placement_outcome option) wres" where
  "resume_record P r w = wbind (clock P w) (\<lambda>now w.
     wbind (to_store w (resume_holding (px_env P) (w_store w) (br_id r) (br_revision r) now)) (\<lambda>r w.
       (Inr (Some (outcome_of (br_id r) OUTCOME_RELEASED None None [])), w)))"

definition recover_one :: "placer_env \<Rightarrow> broker_record \<Rightarrow> placer_world \<Rightarrow> (placement_outcome option) wres" where
  "recover_one P r w =
     (if br_state r = Reserved
      then wbind (clock P w) (\<lambda>now w.
        wbind (to_store w (release_reservation (px_env P) (w_store w) (br_id r) (br_revision r)
          ''unstarted reservation released during recovery'' now)) (\<lambda>r w. resume_record P r w))
      else if br_state r = Returned then resume_record P r w
      else if br_state r = Transferring then wbind (transfer P r None w) (\<lambda>out w. (Inr (Some out), w))
      else (Inr None, w))"

definition recover_retrying :: "placer_env \<Rightarrow> broker_record \<Rightarrow> placer_world \<Rightarrow> (placement_outcome option) wres" where
  "recover_retrying P r w = (case recover_one P r w of
      (Inl e, w1) \<Rightarrow>
        if e = BrokerRecordConflict
        then wbind (from_store w1 (get (px_env P) (w_store w1) (br_id r))) (\<lambda>current w. recover_one P current w)
        else (Inl e, w1)
    | ok \<Rightarrow> ok)"

text \<open>
  The loops over records. \<open>except BrokerStoreError\<close> keeps the record's id with the exception;
  another exception leaves the loop.
\<close>

fun recover_all ::
  "placer_env \<Rightarrow> broker_record list \<Rightarrow> placer_world \<Rightarrow> (placement_outcome list \<times> (string \<times> broker_error) list) wres" where
  "recover_all P [] w = (Inr ([], []), w)"
| "recover_all P (r # rs) w = (case recover_retrying P r w of
      (Inl e, w) \<Rightarrow>
        if is_store_error e
        then wbind (recover_all P rs w) (\<lambda>(outs, refused) w. (Inr (outs, (br_id r, e) # refused), w))
        else (Inl e, w)
    | (Inr out, w) \<Rightarrow> wbind (recover_all P rs w) (\<lambda>(outs, refused) w.
        (Inr ((case out of None \<Rightarrow> outs | Some x \<Rightarrow> x # outs), refused), w)))"

definition recover ::
  "placer_env \<Rightarrow> placer_world \<Rightarrow>
   (placement_outcome list \<times> (string \<times> broker_error) list \<times> (string \<times> scan_problem) list) wres" where
  "recover P w =
     (if px_pass_locked P then (Inl BrokerStoreBusy, w)
      else wbind (from_store w (scan (px_env P) (w_store w))) (\<lambda>(records, problems) w.
        wbind (recover_all P records w) (\<lambda>(outs, refused) w. (Inr (outs, refused, problems), w))))"

section \<open>One strict FIFO pass\<close>

definition check_pass_inputs ::
  "placer_env \<Rightarrow> capacity_snapshot list \<Rightarrow> pyfloat \<Rightarrow> pyfloat \<Rightarrow> placer_world \<Rightarrow> unit wres" where
  "check_pass_inputs P snapshots max_age retry_interval w =
     (case retry_interval of
        NonFin \<Rightarrow> (Inl ValueError, w)
      | Fin x \<Rightarrow>
          if x < 0 then (Inl ValueError, w)
          else wbind (clock P w) (\<lambda>now w.
            case broker_observation_policy now max_age of
              Inl _ \<Rightarrow> (Inl ValueError, w)
            | Inr _ \<Rightarrow> if distinct (map sn_host snapshots) then (Inr (), w) else (Inl ValueError, w)))"

definition observed_at :: "capacity_snapshot list \<Rightarrow> rat \<Rightarrow> rat \<Rightarrow> string \<Rightarrow> rat option" where
  "observed_at snapshots now max_age host = (case find (\<lambda>s. sn_host s = host) snapshots of
      Some s \<Rightarrow> (case sn_observed_at s of
          Fin t \<Rightarrow> if 0 \<le> now - t \<and> now - t \<le> max_age then Some t else None
        | NonFin \<Rightarrow> None)
    | None \<Rightarrow> None)"

text \<open>\<open>listed\<close> is the \<open>target_jobs\<close> argument; the host's snapshot must be newer than the acceptance.\<close>

definition settleable ::
  "(string \<Rightarrow> rat option) \<Rightarrow> (string \<Rightarrow> string list) option \<Rightarrow> broker_record \<Rightarrow> bool" where
  "settleable obs listed r = (case (current_attempt r, listed) of
      (Some a, Some jobs) \<Rightarrow>
        br_state r = Placed \<and> at_charge_released_at a = None
        \<and> (case at_target_job_id a of None \<Rightarrow> False | Some j \<Rightarrow> j \<in> set (jobs (at_target_host a)))
        \<and> (case (at_accepted_at a, obs (at_target_host a)) of (Some t, Some seen) \<Rightarrow> t < seen | _ \<Rightarrow> False)
    | _ \<Rightarrow> False)"

definition settle_one :: "placer_env \<Rightarrow> broker_record \<Rightarrow> placer_world \<Rightarrow> bool wres" where
  "settle_one P r w = wbind (clock P w) (\<lambda>now w.
     case to_store w (settle_charge (px_env P) (w_store w) (br_id r) (br_revision r) now) of
       (Inr _, w) \<Rightarrow> (Inr True, w)
     | (Inl e, w) \<Rightarrow>
         if e \<noteq> BrokerRecordConflict then (Inl e, w)
         else wbind (from_store w (get (px_env P) (w_store w) (br_id r))) (\<lambda>current w.
           case current_attempt current of
             None \<Rightarrow> (Inr False, w)
           | Some latest \<Rightarrow>
               if br_state current \<noteq> Placed \<or> at_charge_released_at latest \<noteq> None
                  \<or> at_target_job_id latest \<noteq> at_target_job_id (the (current_attempt r))
               then (Inr False, w)
               else wbind (clock P w) (\<lambda>now w.
                 wbind (to_store w (settle_charge (px_env P) (w_store w) (br_id current) (br_revision current) now))
                   (\<lambda>_ w. (Inr True, w)))))"

fun settle_all ::
  "placer_env \<Rightarrow> (broker_record \<Rightarrow> bool) \<Rightarrow> broker_record list \<Rightarrow> placer_world \<Rightarrow> (string list) wres" where
  "settle_all P due [] w = (Inr [], w)"
| "settle_all P due (r # rs) w =
     (if due r
      then wbind (settle_one P r w) (\<lambda>done w. wbind (settle_all P due rs w) (\<lambda>ids w.
        (Inr (if done then br_id r # ids else ids), w)))
      else settle_all P due rs w)"

definition replay_one :: "placer_env \<Rightarrow> broker_record \<Rightarrow> placer_world \<Rightarrow> placement_outcome wres" where
  "replay_one P r w = wbind (from_store w (get (px_env P) (w_store w) (br_id r))) (\<lambda>current w. transfer P current None w)"

fun replay_all ::
  "placer_env \<Rightarrow> (broker_record \<Rightarrow> bool) \<Rightarrow> broker_record list \<Rightarrow> placer_world \<Rightarrow>
   (placement_outcome list \<times> (string \<times> broker_error) list) wres" where
  "replay_all P due [] w = (Inr ([], []), w)"
| "replay_all P due (r # rs) w =
     (if due r
      then (case replay_one P r w of
          (Inl e, w) \<Rightarrow>
            if is_store_error e
            then wbind (replay_all P due rs w) (\<lambda>(outs, refused) w. (Inr (outs, (br_id r, e) # refused), w))
            else (Inl e, w)
        | (Inr out, w) \<Rightarrow> wbind (replay_all P due rs w) (\<lambda>(outs, refused) w. (Inr (out # outs, refused), w)))
      else replay_all P due rs w)"

record fifo_report =
  ff_placements :: "placement_outcome list"
  ff_head :: "string option"
  ff_waiting :: "string list"
  ff_stopped :: "broker_error option"
  ff_refused :: "(string \<times> broker_error) list"
  ff_skipped :: "string list"

definition fifo_done :: fifo_report where
  "fifo_done = \<lparr>ff_placements = [], ff_head = None, ff_waiting = [], ff_stopped = None, ff_refused = [], ff_skipped = []\<rparr>"

definition head_report :: "placement_outcome list \<Rightarrow> broker_record \<Rightarrow> broker_record list \<Rightarrow> broker_error option \<Rightarrow> fifo_report" where
  "head_report outs r rs err = \<lparr>ff_placements = outs, ff_head = Some (br_id r), ff_waiting = map br_id rs,
     ff_stopped = err, ff_refused = [], ff_skipped = []\<rparr>"

text \<open>\<open>state\<close> of the re-read after a failed placement: \<open>None\<close> when the record cannot be read.\<close>

fun place_queue ::
  "placer_env \<Rightarrow> capacity_snapshot list \<Rightarrow> pyfloat \<Rightarrow> broker_record list \<Rightarrow> placer_world \<Rightarrow> fifo_report wres" where
  "place_queue P snapshots max_age [] w = (Inr fifo_done, w)"
| "place_queue P snapshots max_age (r # rs) w =
     (case place_locked P (br_id r) snapshots max_age w of
        (Inr out, w) \<Rightarrow>
          if po_outcome out = OUTCOME_HELD then (Inr (head_report [out] r rs None), w)
          else wbind (place_queue P snapshots max_age rs w) (\<lambda>rep w.
            (Inr (rep\<lparr>ff_placements := out # ff_placements rep\<rparr>), w))
      | (Inl e, w) \<Rightarrow>
          if \<not> is_store_error e then (Inl e, w)
          else (case get (px_env P) (w_store w) (br_id r) of
            Inl e' \<Rightarrow>
              if is_store_error e'
              then wbind (place_queue P snapshots max_age rs w) (\<lambda>rep w.
                (Inr (rep\<lparr>ff_refused := (br_id r, e) # ff_refused rep\<rparr>), w))
              else (Inl e', w)
          | Inr current \<Rightarrow>
              if br_state current = Cancelled
              then wbind (place_queue P snapshots max_age rs w) (\<lambda>rep w.
                (Inr (rep\<lparr>ff_skipped := br_id r # ff_skipped rep\<rparr>), w))
              else if br_state current \<noteq> Held
              then wbind (place_queue P snapshots max_age rs w) (\<lambda>rep w.
                (Inr (rep\<lparr>ff_refused := (br_id r, e) # ff_refused rep\<rparr>), w))
              else (Inr (head_report [] r rs (Some e)), w)))"

fun get_records :: "broker_env \<Rightarrow> broker_store \<Rightarrow> broker_record list \<Rightarrow> broker_error + broker_record list" where
  "get_records env st [] = Inr []"
| "get_records env st (r # rs) = rbind (get env st (br_id r)) (\<lambda>x. rbind (get_records env st rs) (\<lambda>xs. Inr (x # xs)))"

datatype pass_report =
    StoppedAtScan "(string \<times> scan_problem) list"
  | PassReport "placement_outcome list" "string list" "placement_outcome list" "(string \<times> broker_error) list" fifo_report

definition fifo_queue :: "broker_record list \<Rightarrow> broker_record list" where
  "fifo_queue records = sort_key (\<lambda>r. (br_created_at r, br_id r)) (filter (\<lambda>r. br_state r = Held) records)"

definition run_once_locked ::
  "placer_env \<Rightarrow> capacity_snapshot list \<Rightarrow> pyfloat \<Rightarrow> (string \<Rightarrow> string list) option \<Rightarrow> pyfloat \<Rightarrow>
   placer_world \<Rightarrow> pass_report wres" where
  "run_once_locked P snapshots max_age listed retry_interval w =
     wbind (check_pass_inputs P snapshots max_age retry_interval w) (\<lambda>_ w.
     wbind (from_store w (scan (px_env P) (w_store w))) (\<lambda>(scanned, problems) w.
     if problems \<noteq> [] then (Inr (StoppedAtScan problems), w)
     else wbind (recover_all P (filter (\<lambda>r. br_state r \<in> {Reserved, Returned}) scanned) w) (\<lambda>(recovered, refused) w.
     wbind (from_store w (get_records (px_env P) (w_store w) scanned)) (\<lambda>records w.
     wbind (clock P w) (\<lambda>now w.
     wbind (settle_all P (case (now, max_age) of
         (Fin n, Fin m) \<Rightarrow> settleable (observed_at snapshots n m) listed | _ \<Rightarrow> (\<lambda>_. False)) records w) (\<lambda>settled w.
     wbind (clock P w) (\<lambda>now w.
     wbind (replay_all P (\<lambda>r. br_state r = Transferring \<and> (case (now, retry_interval) of
         (Fin n, Fin x) \<Rightarrow> x \<le> n - br_updated_at r | _ \<Rightarrow> False)) records w) (\<lambda>(replayed, refused') w.
     wbind (place_queue P snapshots max_age (fifo_queue records) w) (\<lambda>rep w.
       (Inr (PassReport recovered settled replayed (refused @ refused') rep), w))))))))))"

definition run_once where
  "run_once P snapshots max_age listed retry_interval w =
     wbind (check_pass_inputs P snapshots max_age retry_interval w) (\<lambda>_ w.
       if px_pass_locked P then (Inl BrokerStoreBusy, w)
       else run_once_locked P snapshots max_age listed retry_interval w)"

end
