(* ===== verification/Broker_Placer_Safety.thy ===== *)
theory Broker_Placer_Safety
  imports Broker_Placer
begin

text \<open>
  What a placement pass may do. Every function of the placer is a run of store steps
  interleaved with external events (\<open>runs_to\<close>); each request it sends was durably recorded
  beforehand, is not cancelled, and goes to the recorded state root.
\<close>

section \<open>Runs\<close>

definition peers_ok :: "placer_env \<Rightarrow> bool" where
  "peers_ok P \<longleftrightarrow> (\<forall>n st. later (px_env P) st (px_interfere P n st))"

definition carries :: "broker_record \<Rightarrow> transfer_request \<Rightarrow> bool" where
  "carries r q \<longleftrightarrow> (\<exists>a \<in> set (br_attempts r). at_request_fingerprint a = Some (tr_request_fingerprint q)
     \<and> at_transfer_started_at a \<noteq> None \<and> at_target_host a = tr_target_host q
     \<and> at_target_state_root a = tr_target_state_root q \<and> at_idempotency_key a = tr_idempotency_key q)"

text \<open>
  A sent request: at its target the recorded state root was just observed; the request was built from a transferring
  record of a store this store grew from; and the record that was read last carries it and is not cancelled.
\<close>

fun sent_ok :: "placer_env \<Rightarrow> transfer_request \<times> string \<times> broker_store \<Rightarrow> bool" where
  "sent_ok P (q, observed, st) \<longleftrightarrow> observed = tr_target_state_root q \<and> tr_idempotency_key q = tr_job_id q
     \<and> (\<exists>st0 r0. reachable (px_env P) st0 \<and> later (px_env P) st0 st \<and> get (px_env P) st0 (tr_job_id q) = Inr r0
          \<and> br_state r0 = Transferring \<and> transfer_request_of (px_env P) st0 r0 = Inr q)
     \<and> (\<exists>r. get (px_env P) st (tr_job_id q) = Inr r \<and> br_cancellation r = None \<and> carries r q)"

definition runs_to :: "placer_env \<Rightarrow> placer_world \<Rightarrow> placer_world \<Rightarrow> bool" where
  "runs_to P w w' \<longleftrightarrow> later (px_env P) (w_store w) (w_store w')
     \<and> (\<exists>new. w_sent w' = w_sent w @ new \<and> list_all (sent_ok P) new)"

lemma runs_refl [simp, intro]: "runs_to P w w"
  by (simp add: runs_to_def)

lemma runs_trans: "runs_to P w w1 \<Longrightarrow> runs_to P w1 w2 \<Longrightarrow> runs_to P w w2"
  unfolding runs_to_def by (auto intro: rtranclp_trans)

lemma runs_later: "runs_to P w w' \<Longrightarrow> later (px_env P) (w_store w) (w_store w')"
  by (simp add: runs_to_def)

lemma runs_reachable: "runs_to P w w' \<Longrightarrow> reachable (px_env P) (w_store w) \<Longrightarrow> reachable (px_env P) (w_store w')"
  by (meson reachable_trans runs_later)

lemma tick_runs: "peers_ok P \<Longrightarrow> runs_to P w (tick P w)"
  by (simp add: runs_to_def tick_def peers_ok_def)

lemma clock_runs: "peers_ok P \<Longrightarrow> clock P w = (x, w') \<Longrightarrow> runs_to P w w'"
  by (auto simp: clock_def tick_runs)

lemma probe_runs: "peers_ok P \<Longrightarrow> probe P h w = (x, w') \<Longrightarrow> runs_to P w w'"
  by (auto simp: probe_def tick_runs)

lemma to_store_runs:
  assumes "to_store w res = (x, w')" "\<And>r st. res = Inr (r, st) \<Longrightarrow> store_step (px_env P) (w_store w) st"
  shows "runs_to P w w'"
  using assms by (auto simp: to_store_def runs_to_def split: sum.splits prod.splits)

text \<open>Composition: if both parts of a bind run, the whole runs.\<close>

lemma wbind_runs:
  assumes "wbind m f = (x, w')" "\<And>y w1. m = (y, w1) \<Longrightarrow> runs_to P w w1"
    "\<And>v w1. m = (Inr v, w1) \<Longrightarrow> runs_to P w w1 \<Longrightarrow> f v w1 = (x, w') \<Longrightarrow> runs_to P w1 w'"
  shows "runs_to P w w'"
proof -
  obtain y w1 where m: "m = (y, w1)" by (cases m)
  show ?thesis using assms(1,2) assms(3) [of _ w1] m
    by (cases y) (auto simp: wbind_def intro: runs_trans)
qed

lemma from_store_runs [intro]: "from_store w res = (y, w1) \<Longrightarrow> runs_to P w w1"
  by (simp add: from_store_def)

section \<open>Transfers\<close>

lemma retry_runs:
  assumes "retry_on_conflict P r apply w = (x, w')" "\<And>c w y w1. apply c w = (y, w1) \<Longrightarrow> runs_to P w w1"
  shows "runs_to P w w'"
proof -
  obtain y w1 where a: "apply r w = (y, w1)" by (cases "apply r w")
  have "runs_to P w w1" by (rule assms(2) [OF a])
  moreover have "runs_to P w1 w'"
    using assms(1) a assms(2)
    by (cases y) (auto simp: retry_on_conflict_def wbind_def from_store_def split: sum.splits if_splits)
  ultimately show ?thesis by (rule runs_trans)
qed

lemma diagnose_runs: "peers_ok P \<Longrightarrow> diagnose P r m w = (x, w') \<Longrightarrow> runs_to P w w'"
  unfolding diagnose_def
  by (erule retry_runs, erule wbind_runs) (auto intro: clock_runs step_diagnostic elim!: to_store_runs)

lemma uncertain_runs: "peers_ok P \<Longrightarrow> uncertain P r h m w = (x, w') \<Longrightarrow> runs_to P w w'"
  unfolding uncertain_def by (erule wbind_runs) (auto intro: diagnose_runs)

text \<open>A request built from the store earlier is still carried by the current record.\<close>

definition built :: "placer_env \<Rightarrow> broker_record \<Rightarrow> transfer_request \<Rightarrow> broker_store \<Rightarrow> bool" where
  "built P r q st \<longleftrightarrow> (\<exists>st0. reachable (px_env P) st0 \<and> later (px_env P) st0 st
     \<and> transfer_request_of (px_env P) st0 r = Inr q)"

lemma built_runs: "built P r q (w_store w) \<Longrightarrow> runs_to P w w' \<Longrightarrow> built P r q (w_store w')"
  unfolding built_def by (meson rtranclp_trans runs_later)

lemma built_carried:
  assumes "env_ok (px_env P)" "built P r q st" "get (px_env P) st (br_id r) = Inr c"
  shows "carries c q" "current_attempt c \<noteq> None" "tr_idempotency_key q = tr_job_id q" "tr_job_id q = br_id r"
    and "\<exists>st0 r0. reachable (px_env P) st0 \<and> later (px_env P) st0 st \<and> get (px_env P) st0 (tr_job_id q) = Inr r0
      \<and> br_state r0 = Transferring \<and> transfer_request_of (px_env P) st0 r0 = Inr q"
proof -
  from assms(2) obtain st0 where s: "reachable (px_env P) st0" "later (px_env P) st0 st"
    and q0: "transfer_request_of (px_env P) st0 r = Inr q" by (auto simp: built_def)
  note q = transfer_request_Inr [OF q0]
  obtain c' where "get (px_env P) st (br_id r) = Inr c'" "record_later r c'"
    using reachable_later [OF s(1) assms(1) s(2) q(1)] by blast
  then have ev: "record_evolves r c" using assms(3) by (simp add: record_later_def)
  have r: "check_consistency r" "record_wf r" using get_sound [OF q(1)] by auto
  have ne: "br_attempts r \<noteq> []" "at_phase (last (br_attempts r)) = Transferring"
    using check_consistency_attempts [OF r(1)] q(2) by auto
  let ?k = "length (br_attempts r) - 1"
  have k: "?k < length (br_attempts r)" "last (br_attempts r) = br_attempts r ! ?k"
    using ne(1) by (simp_all add: last_conv_nth)
  have le: "length (br_attempts r) \<le> length (br_attempts c)"
    using ev by (auto simp: record_evolves_def dest: list_all2_lengthD)
  have e: "attempt_evolves (last (br_attempts r)) (br_attempts c ! ?k)" using evolves_nth [OF ev k(1)] k(2) by simp
  have "at_transfer_started_at (last (br_attempts r)) \<noteq> None"
    using check_consistency_last [OF r(1) ne(1)] ne(2) by (simp add: attempt_consistent_def)
  then show "carries c q" unfolding carries_def
    using e q(3,6,7,8) k(1) le by (intro bexI [of _ "br_attempts c ! ?k"])
      (auto simp: attempt_evolves_def same_attempt_def)
  show "current_attempt c \<noteq> None" using le k(1) by (auto simp: current_attempt_def)
  show id: "tr_job_id q = br_id r" by (rule q(10))
  show "\<exists>st0 r0. reachable (px_env P) st0 \<and> later (px_env P) st0 st \<and> get (px_env P) st0 (tr_job_id q) = Inr r0
      \<and> br_state r0 = Transferring \<and> transfer_request_of (px_env P) st0 r0 = Inr q"
    using s q0 q(1,2) id by auto
  show "tr_idempotency_key q = tr_job_id q"
    using record_wf_last [OF r(2) ne(1)] q(8,10) by (simp add: attempt_wf_def)
qed

lemma send_runs:
  assumes "peers_ok P" "send P q observed w = (x, w')" "sent_ok P (q, observed, w_store w)"
  shows "runs_to P w w'"
proof -
  have "runs_to P w (w\<lparr>w_sent := w_sent w @ [(q, observed, w_store w)]\<rparr>)" using assms(3) by (simp add: runs_to_def)
  then show ?thesis using assms(2) tick_runs [OF assms(1)] by (auto simp: send_def intro: runs_trans)
qed

lemma submit_runs:
  assumes "peers_ok P" "submit_and_record P r q observed w = (x, w')" "sent_ok P (q, observed, w_store w)"
  shows "runs_to P w w'"
  using assms(2) unfolding submit_and_record_def
proof (rule wbind_runs)
  fix y w1 assume "send P q observed w = (y, w1)"
  then show "runs_to P w w1" using assms(1,3) send_runs by blast
next
  fix ans w1
  let ?put = "\<lambda>j current w. wbind (clock P w) (\<lambda>now w. to_store w (record_placed (px_env P) (w_store w)
     (br_id current) (br_revision current) (tr_request_fingerprint q) j now))"
  have put: "runs_to P w w2" if "?put j c w = (y, w2)" for j c w y w2
    using that by (rule wbind_runs) (auto intro: clock_runs [OF assms(1)] step_placed elim!: to_store_runs)
  assume "(case case ans of SubmitRaised d \<Rightarrow> Inl d
      | SubmitReturned j \<Rightarrow> (case validate_job_id j of Inl x \<Rightarrow> Inl (px_invalid_id P j) | Inr j \<Rightarrow> Inr j) of
      Inl d \<Rightarrow> uncertain P r (tr_target_host q) (''transfer outcome unknown: '' @ d) w1
    | Inr j \<Rightarrow> wbind (retry_on_conflict P r (?put j) w1) (\<lambda>placed w.
        (Inr (outcome_of (br_id placed) OUTCOME_PLACED (Some (tr_target_host q)) (Some j) []), w))) = (x, w')"
  then show "runs_to P w1 w'"
    by (auto split: sum.splits submit_answer.splits intro: uncertain_runs [OF assms(1)] retry_runs put
        elim!: wbind_runs)
qed

lemma cancel_pending_None:
  "cancel_pending c = None \<Longrightarrow> current_attempt c \<noteq> None \<Longrightarrow> br_cancellation c = None"
  by (auto simp: cancel_pending_def split: option.splits)

lemma transfer_checked_runs:
  assumes "env_ok (px_env P)" "peers_ok P" "built P r q (w_store w)" "transfer_checked P r q obs w = (x, w')"
  shows "runs_to P w w'"
proof (cases "obs = Some (tr_target_state_root q)")
  case False
  then show ?thesis using assms(4) uncertain_runs [OF assms(2)]
    by (auto simp: transfer_checked_def Let_def split: option.splits if_splits)
next
  case True
  then have "wbind (from_store w (get (px_env P) (w_store w) (br_id r))) (\<lambda>current w.
      case cancel_pending current of Some pending \<Rightarrow> (Inr pending, w)
      | None \<Rightarrow> submit_and_record P r q (tr_target_state_root q) w) = (x, w')"
    using assms(4) by (simp add: transfer_checked_def)
  then show ?thesis
  proof (rule wbind_runs)
    fix c w1
    assume g: "from_store w (get (px_env P) (w_store w) (br_id r)) = (Inr c, w1)"
    then have c: "get (px_env P) (w_store w) (br_id r) = Inr c" "w1 = w" by (auto simp: from_store_def)
    note b = built_carried [OF assms(1,3) c(1)]
    assume "(case cancel_pending c of Some pending \<Rightarrow> (Inr pending, w1)
      | None \<Rightarrow> submit_and_record P r q (tr_target_state_root q) w1) = (x, w')"
    then show "runs_to P w1 w'"
      using b c cancel_pending_None [of c] submit_runs [OF assms(2)]
      by (auto split: option.splits simp del: sent_ok.simps intro!: submit_runs [OF assms(2)])
        (auto simp: b c)
  qed auto
qed

lemma transfer_runs:
  assumes "env_ok (px_env P)" "peers_ok P" "reachable (px_env P) (w_store w)" "transfer P r obs w = (x, w')"
  shows "runs_to P w w'"
proof (cases "cancel_pending r")
  case None
  then have "wbind (from_store w (transfer_request_of (px_env P) (w_store w) r)) (\<lambda>q w. case obs of
          Some sroot \<Rightarrow> transfer_checked P r q (Some sroot) w
        | None \<Rightarrow> wbind (probe P (tr_target_host q) w) (\<lambda>answer w. case answer of
            ProbeRaised d \<Rightarrow> uncertain P r (tr_target_host q)
              (''target '' @ tr_target_host q @ '' state root unavailable ('' @ d @ ''); replay held'') w
          | ProbeRoot sroot \<Rightarrow> transfer_checked P r q sroot w)) = (x, w')"
    using assms(4) by (simp add: transfer_def)
  then show ?thesis
  proof (rule wbind_runs)
    fix q w1
    assume q: "from_store w (transfer_request_of (px_env P) (w_store w) r) = (Inr q, w1)"
    then have w1: "w1 = w" and b: "built P r q (w_store w)" using assms(3) by (auto simp: from_store_def built_def)
    assume f: "(case obs of Some sroot \<Rightarrow> transfer_checked P r q (Some sroot) w1
        | None \<Rightarrow> wbind (probe P (tr_target_host q) w1) (\<lambda>answer w. case answer of
            ProbeRaised d \<Rightarrow> uncertain P r (tr_target_host q)
              (''target '' @ tr_target_host q @ '' state root unavailable ('' @ d @ ''); replay held'') w
          | ProbeRoot sroot \<Rightarrow> transfer_checked P r q sroot w)) = (x, w')"
    note chk = transfer_checked_runs [OF assms(1,2)]
    show "runs_to P w1 w'"
    proof (cases obs)
      case (Some s)
      then show ?thesis using f w1 chk [OF b] by simp
    next
      case None
      with f have "wbind (probe P (tr_target_host q) w1) (\<lambda>answer w. case answer of
            ProbeRaised d \<Rightarrow> uncertain P r (tr_target_host q)
              (''target '' @ tr_target_host q @ '' state root unavailable ('' @ d @ ''); replay held'') w
          | ProbeRoot sroot \<Rightarrow> transfer_checked P r q sroot w) = (x, w')" by simp
      then show ?thesis
      proof (rule wbind_runs)
        fix ans w2
        assume "runs_to P w1 w2"
        then have "built P r q (w_store w2)" using b w1 built_runs by blast
        moreover assume "(case ans of ProbeRaised d \<Rightarrow> uncertain P r (tr_target_host q)
              (''target '' @ tr_target_host q @ '' state root unavailable ('' @ d @ ''); replay held'') w2
          | ProbeRoot sroot \<Rightarrow> transfer_checked P r q sroot w2) = (x, w')"
        ultimately show "runs_to P w2 w'" using chk uncertain_runs [OF assms(2)] by (auto split: probe_answer.splits)
      qed (auto intro: probe_runs [OF assms(2)])
    qed
  qed auto
qed (use assms(4) in \<open>auto simp: transfer_def\<close>)

section \<open>Placement\<close>

lemma choose_target_runs: "peers_ok P \<Longrightarrow> choose_target P r ranking w = (c, w') \<Longrightarrow> runs_to P w w'"
proof (induction ranking arbitrary: w c w')
  case (Cons rk ranking)
  have IH: "runs_to P v v'" if "choose_target P r ranking v = (k, v')" for v k v'
    using Cons.IH [OF Cons.prems(1) that] .
  have t: "runs_to P w (tick P w)" by (rule tick_runs [OF Cons.prems(1)])
  show ?case using Cons.prems(2) IH runs_trans [OF t] t
    by (auto simp: Let_def split: option.splits prod.splits probe_answer.splits if_splits)
qed auto

lemma hold_job_runs: "hold_job P r bs now w = (x, w') \<Longrightarrow> runs_to P w w'"
  unfolding hold_job_def by (erule wbind_runs) (auto intro: step_held_blockers elim!: to_store_runs)

lemma commit_target_runs:
  assumes "env_ok (px_env P)" "peers_ok P" "reachable (px_env P) (w_store w)"
    and hosts: "\<forall>s \<in> set debited. sn_host s \<noteq> []"
    and run: "commit_target P r d debited host sroot now w = (x, w')"
  shows "runs_to P w w'"
  using run unfolding commit_target_def
proof (rule wbind_runs)
  fix v w1
  assume w1: "from_store w (verify_payload (px_env P) (w_store w) r) = (Inr v, w1)"
    and f: "(case find (\<lambda>s. sn_host s = host) debited of None \<Rightarrow> (Inl StopIteration, w1)
     | Some s \<Rightarrow> wbind (to_store w1 (reserve (px_env P) (w_store w1) (br_id r) (br_revision r) d s sroot now)) (\<lambda>r w.
         wbind (clock P w) (\<lambda>now w.
         wbind (to_store w (begin_transfer (px_env P) (w_store w) (br_id r) (br_revision r) now)) (\<lambda>r w.
           transfer P r (Some sroot) w)))) = (x, w')"
  show "runs_to P w1 w'"
  proof (cases "find (\<lambda>s. sn_host s = host) debited")
    case (Some s)
    then have ne: "sn_host s \<noteq> []" using hosts by (auto simp: find_Some_iff)
    have re: "reachable (px_env P) (w_store w1)" using w1 assms(3) by (auto simp: from_store_def)
    from f Some have "wbind (to_store w1 (reserve (px_env P) (w_store w1) (br_id r) (br_revision r) d s sroot now)) (\<lambda>r w.
         wbind (clock P w) (\<lambda>now w.
         wbind (to_store w (begin_transfer (px_env P) (w_store w) (br_id r) (br_revision r) now)) (\<lambda>r w.
           transfer P r (Some sroot) w))) = (x, w')" by simp
    then show ?thesis
    proof (rule wbind_runs)
      fix r1 w2
      assume r2: "runs_to P w1 w2" and g: "wbind (clock P w2) (\<lambda>now w.
         wbind (to_store w (begin_transfer (px_env P) (w_store w) (br_id r1) (br_revision r1) now)) (\<lambda>r w.
           transfer P r (Some sroot) w)) = (x, w')"
      show "runs_to P w2 w'" using g
      proof (rule wbind_runs)
        fix t w3
        assume r3: "runs_to P w2 w3" and h: "wbind (to_store w3 (begin_transfer (px_env P) (w_store w3) (br_id r1)
           (br_revision r1) t)) (\<lambda>r w. transfer P r (Some sroot) w) = (x, w')"
        show "runs_to P w3 w'" using h
        proof (rule wbind_runs)
          fix r4 w4
          assume "runs_to P w3 w4" "transfer P r4 (Some sroot) w4 = (x, w')"
          then show "runs_to P w4 w'"
            using transfer_runs [OF assms(1,2)] runs_reachable re r2 r3 by blast
        qed (auto intro: step_begin elim!: to_store_runs)
      qed (auto intro: clock_runs [OF assms(2)])
    qed (auto intro: step_reserve [OF ne] elim!: to_store_runs)
  qed (use f in auto)
qed auto

text \<open>
  The remaining functions are compositions; \<open>runs\<close> lifts \<open>runs_to\<close> to functions and its
  rules follow the shape of the code.
\<close>

definition runs :: "placer_env \<Rightarrow> (placer_world \<Rightarrow> 'a wres) \<Rightarrow> bool" where
  "runs P f \<longleftrightarrow> (\<forall>w x w'. reachable (px_env P) (w_store w) \<longrightarrow> f w = (x, w') \<longrightarrow> runs_to P w w')"

lemma runsI [intro]: "(\<And>w x w'. reachable (px_env P) (w_store w) \<Longrightarrow> f w = (x, w') \<Longrightarrow> runs_to P w w') \<Longrightarrow> runs P f"
  by (simp add: runs_def)

lemma runsD: "runs P f \<Longrightarrow> reachable (px_env P) (w_store w) \<Longrightarrow> f w = (x, w') \<Longrightarrow> runs_to P w w'"
  by (simp add: runs_def)

lemma runs_return [inv_intros]: "runs P (\<lambda>w. (c, w))"
  by auto

lemma runs_wbind [inv_intros]:
  assumes "runs P f" "\<And>v. runs P (g v)"
  shows "runs P (\<lambda>w. wbind (f w) g)"
proof
  fix w x w'
  assume w: "reachable (px_env P) (w_store w)" and f: "wbind (f w) g = (x, w')"
  show "runs_to P w w'" using f
    by (rule wbind_runs) (meson assms runsD runs_reachable w)+
qed

lemma runs_from_store [inv_intros]: "runs P (\<lambda>w. from_store w (h w))"
  by (auto simp: from_store_def)

lemma runs_to_store [inv_intros]:
  "(\<And>w r st. h w = Inr (r, st) \<Longrightarrow> store_step (px_env P) (w_store w) st) \<Longrightarrow> runs P (\<lambda>w. to_store w (h w))"
  by (auto elim!: to_store_runs)

lemma runs_clock [inv_intros]: "peers_ok P \<Longrightarrow> runs P (clock P)"
  by (auto intro: clock_runs)

lemma runs_if [inv_intros]: "runs P f \<Longrightarrow> runs P g \<Longrightarrow> runs P (\<lambda>w. if b w then f w else g w)"
  unfolding runs_def by metis

lemma runs_case_sum [inv_intros]:
  "(\<And>e. runs P (f e)) \<Longrightarrow> (\<And>v. runs P (g v)) \<Longrightarrow> runs P (\<lambda>w. case s of Inl e \<Rightarrow> f e w | Inr v \<Rightarrow> g v w)"
  by (cases s) auto

lemma runs_case_choice [inv_intros]:
  "(\<And>h s. runs P (f h s)) \<Longrightarrow> runs P g \<Longrightarrow> runs P (\<lambda>w. case c of Chosen h s \<Rightarrow> f h s w | NoTarget \<Rightarrow> g w)"
  by (cases c) auto

lemma runs_case_prod [inv_intros]: "(\<And>a b. runs P (f a b)) \<Longrightarrow> runs P (\<lambda>w. case p of (a, b) \<Rightarrow> f a b w)"
  by (cases p) auto

lemma runs_transfer [inv_intros]: "env_ok (px_env P) \<Longrightarrow> peers_ok P \<Longrightarrow> runs P (transfer P r obs)"
  by (auto intro: transfer_runs)

lemma runs_resume [inv_intros]: "peers_ok P \<Longrightarrow> runs P (resume_record P r)"
  unfolding resume_record_def by (intro inv_intros) (auto intro: step_resume)

lemma runs_recover_one [inv_intros]:
  assumes "env_ok (px_env P)" "peers_ok P"
  shows "runs P (recover_one P r)"
  unfolding recover_one_def by (intro inv_intros assms) (auto intro: step_release)

text \<open>Two ways to continue after a failure: by the exception, or with the result.\<close>

lemma runs_handle:
  assumes "runs P f" "\<And>e. runs P (g e)" "\<And>v. runs P (h v)"
  shows "runs P (\<lambda>w. case f w of (Inl e, w1) \<Rightarrow> g e w1 | (Inr v, w1) \<Rightarrow> h v w1)"
proof
  fix w x w'
  assume w: "reachable (px_env P) (w_store w)"
    and f: "(case f w of (Inl e, w1) \<Rightarrow> g e w1 | (Inr v, w1) \<Rightarrow> h v w1) = (x, w')"
  obtain y w1 where y: "f w = (y, w1)" by (cases "f w")
  have "runs_to P w w1" using assms(1) w y by (rule runsD)
  moreover have "runs_to P w1 w'"
    using f y runsD [OF assms(2) runs_reachable [OF \<open>runs_to P w w1\<close> w]]
      runsD [OF assms(3) runs_reachable [OF \<open>runs_to P w w1\<close> w]] by (cases y) auto
  ultimately show "runs_to P w w'" by (rule runs_trans)
qed

lemma recover_retrying_alt:
  "recover_retrying P r = (\<lambda>w. case recover_one P r w of
      (Inl e, w1) \<Rightarrow> (if e = BrokerRecordConflict
        then wbind (from_store w1 (get (px_env P) (w_store w1) (br_id r))) (\<lambda>current w. recover_one P current w)
        else (Inl e, w1))
    | (Inr v, w1) \<Rightarrow> (Inr v, w1))"
  by (auto simp: recover_retrying_def fun_eq_iff split: prod.splits sum.splits)

lemma runs_recover_retrying [inv_intros]:
  "env_ok (px_env P) \<Longrightarrow> peers_ok P \<Longrightarrow> runs P (recover_retrying P r)"
  unfolding recover_retrying_alt by (intro runs_handle inv_intros)

lemma runs_recover_all:
  assumes "env_ok (px_env P)" "peers_ok P"
  shows "runs P (recover_all P rs)"
proof (induction rs)
  case Nil
  then show ?case by auto
next
  case (Cons r rs)
  then show ?case unfolding recover_all.simps case_prod_beta'
    by (intro runs_handle [unfolded case_prod_beta'] inv_intros assms)
qed

lemma debit_host [simp]: "sn_host (debit_snapshot charges s) = sn_host s"
  by (simp add: debit_snapshot_def split: option.split)

lemma debit_hosts: "\<forall>s \<in> set snaps. sn_host s \<noteq> [] \<Longrightarrow> \<forall>s \<in> set (debit_snapshots snaps charges). sn_host s \<noteq> []"
  by (auto simp: debit_snapshots_def)

lemma runs_choose:
  assumes "peers_ok P" "\<And>c. runs P (f c)"
  shows "runs P (\<lambda>w. case choose_target P r ranking w of (c, w1) \<Rightarrow> f c w1)"
proof
  fix w x w'
  assume w: "reachable (px_env P) (w_store w)" and f: "(case choose_target P r ranking w of (c, w1) \<Rightarrow> f c w1) = (x, w')"
  obtain c w1 where c: "choose_target P r ranking w = (c, w1)" by fastforce
  have "runs_to P w w1" by (rule choose_target_runs [OF assms(1) c])
  moreover have "f c w1 = (x, w')" using f c by simp
  ultimately show "runs_to P w w'" using runsD [OF assms(2) runs_reachable [OF _ w]] runs_trans by blast
qed

lemma runs_hold [inv_intros]: "runs P (hold_job P r bs now)"
  by (auto intro: hold_job_runs)

lemma runs_commit:
  "env_ok (px_env P) \<Longrightarrow> peers_ok P \<Longrightarrow> \<forall>s \<in> set debited. sn_host s \<noteq> [] \<Longrightarrow>
   runs P (commit_target P r d debited host sroot now)"
  by (auto intro: commit_target_runs)

lemma runs_act_on:
  assumes "env_ok (px_env P)" "peers_ok P" "\<forall>s \<in> set debited. sn_host s \<noteq> []"
  shows "runs P (act_on P r debited now d)"
  unfolding act_on_def
  by (intro runs_if runs_hold runs_choose runs_case_prod runs_case_choice runs_commit assms)

lemma runs_place_locked:
  assumes "env_ok (px_env P)" "peers_ok P" "\<forall>s \<in> set snapshots. sn_host s \<noteq> []"
  shows "runs P (place_locked P i snapshots max_age)"
  unfolding place_locked_def
  by (intro inv_intros runs_act_on assms debit_hosts)

lemma runs_place_queue:
  assumes "env_ok (px_env P)" "peers_ok P" "\<forall>s \<in> set snapshots. sn_host s \<noteq> []"
  shows "runs P (place_queue P snapshots max_age rs)"
proof (induction rs)
  case (Cons r rs)
  have k: "runs P (\<lambda>w. wbind (place_queue P snapshots max_age rs w) (\<lambda>rep w. (Inr (f rep), w)))" for f :: "fifo_report \<Rightarrow> fifo_report"
    by (intro inv_intros Cons)
  show ?case unfolding place_queue.simps
  proof (rule runsI)
    fix w w' :: placer_world and x
    assume w: "reachable (px_env P) (w_store w)"
    obtain y w1 where y: "place_locked P (br_id r) snapshots max_age w = (y, w1)" by fastforce
    have r1: "runs_to P w w1" by (rule runsD [OF runs_place_locked [OF assms] w y])
    note kk = runsD [OF k runs_reachable [OF r1 w]]
    assume "(case place_locked P (br_id r) snapshots max_age w of
        (Inr out, w) \<Rightarrow>
          if po_outcome out = OUTCOME_HELD then (Inr (head_report [out] r rs None), w)
          else wbind (place_queue P snapshots max_age rs w) (\<lambda>rep w.
            (Inr (rep\<lparr>ff_placements := out # ff_placements rep\<rparr>), w))
      | (Inl e, w) \<Rightarrow>
          if \<not> is_store_error e then (Inl e, w)
          else (case get (px_env P) (w_store w) (br_id r) of
            Inl e' \<Rightarrow>
              if is_store_error e'
              then wbind (place_queue P snapshots max_age rs w) (\<lambda>rep w.
                (Inr (rep\<lparr>ff_refused := (br_id r, e) # ff_refused rep\<rparr>), w))
              else (Inl e', w)
          | Inr current \<Rightarrow>
              if br_state current = Cancelled
              then wbind (place_queue P snapshots max_age rs w) (\<lambda>rep w.
                (Inr (rep\<lparr>ff_skipped := br_id r # ff_skipped rep\<rparr>), w))
              else if br_state current \<noteq> Held
              then wbind (place_queue P snapshots max_age rs w) (\<lambda>rep w.
                (Inr (rep\<lparr>ff_refused := (br_id r, e) # ff_refused rep\<rparr>), w))
              else (Inr (head_report [] r rs (Some e)), w))) = (x, w')"
    then have "runs_to P w1 w'" unfolding y
      by (cases y) (auto split: if_splits sum.splits intro: kk)
    with r1 show "runs_to P w w'" by (rule runs_trans)
  qed
qed auto

section \<open>A pass\<close>

lemma runs_settle_one [inv_intros]: "peers_ok P \<Longrightarrow> runs P (settle_one P r)"
proof -
  assume p: "peers_ok P"
  have st: "runs P (\<lambda>w. to_store w (settle_charge (px_env P) (w_store w) i n now))" for i n now
    by (intro inv_intros) (auto intro: step_settle)
  have alt: "settle_one P r = (\<lambda>w. wbind (clock P w) (\<lambda>now w.
     case to_store w (settle_charge (px_env P) (w_store w) (br_id r) (br_revision r) now) of
       (Inl e, w1) \<Rightarrow> (if e \<noteq> BrokerRecordConflict then (Inl e, w1)
         else wbind (from_store w1 (get (px_env P) (w_store w1) (br_id r))) (\<lambda>current w.
           if current_attempt current = None \<or> br_state current \<noteq> Placed
              \<or> at_charge_released_at (the (current_attempt current)) \<noteq> None
              \<or> at_target_job_id (the (current_attempt current)) \<noteq> at_target_job_id (the (current_attempt r))
           then (Inr False, w)
           else wbind (clock P w) (\<lambda>now w.
             wbind (to_store w (settle_charge (px_env P) (w_store w) (br_id current) (br_revision current) now))
               (\<lambda>_ w. (Inr True, w)))))
     | (Inr v, w1) \<Rightarrow> (Inr True, w1)))"
    unfolding settle_one_def fun_eq_iff
    by (intro allI arg_cong2 [where f = wbind] refl ext)
      (auto split: prod.splits sum.splits option.splits simp: wbind_def from_store_def)
  show ?thesis unfolding alt by (intro inv_intros runs_handle st p)
qed

lemma runs_settle_all [inv_intros]: "peers_ok P \<Longrightarrow> runs P (settle_all P due rs)"
proof (induction rs)
  case (Cons r rs)
  then show ?case unfolding settle_all.simps by (intro inv_intros) auto
qed auto

lemma runs_replay_one [inv_intros]: "env_ok (px_env P) \<Longrightarrow> peers_ok P \<Longrightarrow> runs P (replay_one P r)"
  unfolding replay_one_def by (intro inv_intros)

lemma runs_replay_all [inv_intros]:
  assumes "env_ok (px_env P)" "peers_ok P"
  shows "runs P (replay_all P due rs)"
proof (induction rs)
  case (Cons r rs)
  then show ?case unfolding replay_all.simps case_prod_beta'
    by (intro runs_if runs_handle [unfolded case_prod_beta'] inv_intros assms)
qed auto

lemma runs_check_inputs [inv_intros]: "peers_ok P \<Longrightarrow> runs P (check_pass_inputs P snapshots max_age retry)"
  unfolding check_pass_inputs_def by (cases retry) (auto intro!: inv_intros)

lemma runs_run_once_locked:
  assumes "env_ok (px_env P)" "peers_ok P" "\<forall>s \<in> set snapshots. sn_host s \<noteq> []"
  shows "runs P (run_once_locked P snapshots max_age listed retry)"
  unfolding run_once_locked_def case_prod_beta'
  by (intro inv_intros runs_recover_all runs_place_queue assms)


definition demo_placer :: placer_env where
  "demo_placer = \<lparr>px_env = sample_env, px_clock = (\<lambda>_. Fin 100), px_state_root = (\<lambda>_ _. ProbeRoot (Some ''/var/vq'')),
     px_submit = (\<lambda>_ _. SubmitReturned ''0123456789ab''), px_interfere = (\<lambda>_ st. st),
     px_refuse_target = (\<lambda>_. None), px_job_refusal = (\<lambda>_ _. None), px_rerank = None, px_pass_locked = False,
     px_repr = (\<lambda>s. s), px_invalid_id = (\<lambda>_. ''ValueError'')\<rparr>"

definition demo_world :: placer_world where
  "demo_world = \<lparr>w_store = demo_held, w_tick = 0, w_sent = []\<rparr>"

lemma demo_placer_ok: "env_ok (px_env demo_placer)" "peers_ok demo_placer" "reachable (px_env demo_placer) (w_store demo_world)"
  using sample_env_ok demo_held_reachable by (simp_all add: demo_placer_def demo_world_def peers_ok_def)

definition demo_pass :: "pass_report wres" where
  "demo_pass = run_once demo_placer [sample_snapshot ''a'' 8] (Fin 30) None (Fin 300) demo_world"


section \<open>Capacity is never promised twice\<close>

lemma choose_target_Chosen:
  "choose_target P r ranking w = ((Chosen host sroot, skipped), w') \<Longrightarrow>
   host \<in> rank_host ` set ranking \<and> starts_with ''/'' sroot \<and> px_refuse_target P host = None
     \<and> px_job_refusal P r host = None"
  by (induction ranking arbitrary: w w' skipped)
    (auto simp: Let_def split: option.splits prod.splits probe_answer.splits if_splits)

text \<open>The room a raw snapshot has for a job on top of the open attempts of all records.\<close>

definition has_room :: "broker_record list \<Rightarrow> broker_intent \<Rightarrow> capacity_snapshot \<Rightarrow> bool" where
  "has_room records intent s \<longleftrightarrow> (let open_charges = (\<lambda>h. map at_charge (filter (open_on h) (concat (map br_attempts records)))) in
     if sn_is_scheduler_host s
     then \<exists>j. sn_free_jobs s = Some j
       \<and> (\<Sum>a\<leftarrow>filter (\<lambda>a. at_charge_released_at a = None) (concat (map br_attempts records)). ch_job_slots (at_charge a)) + 1 \<le> j
     else \<exists>c m j. sn_free_cpus s = Some c \<and> sn_free_mem_mb s = Some m \<and> sn_free_jobs s = Some j
       \<and> sum_list (map ch_cpus (open_charges (sn_host s))) + in_cpus intent \<le> c
       \<and> sum_list (map ch_mem_mb (open_charges (sn_host s))) + in_mem_mb intent \<le> m
       \<and> sum_list (map ch_job_slots (open_charges (sn_host s))) + 1 \<le> j)"

lemma sum_slots_update:
  "(\<Sum>c\<leftarrow>AList.update h v m. ch_job_slots (snd c))
     = (\<Sum>c\<leftarrow>m. ch_job_slots (snd c)) - ch_job_slots (charge_of m h) + ch_job_slots v"
  by (induction m) (auto simp: charge_of_def)

lemma add_charges_total:
  "(\<Sum>c\<leftarrow>add_charges m as. ch_job_slots (snd c)) = (\<Sum>c\<leftarrow>m. ch_job_slots (snd c))
     + (\<Sum>a\<leftarrow>filter (\<lambda>a. at_charge_released_at a = None) as. ch_job_slots (at_charge a))"
  by (induction as arbitrary: m) (auto simp: Let_def sum_slots_update charge_of_def)

text \<open>A host the capacity decision ranks over the debited snapshots has that room.\<close>

lemma ranked_has_room:
  assumes charges: "charges = add_charges [] (concat (map br_attempts records))"
    and rq: "placement_request_of intent = Inr rq" and d: "place_broker_job (debit_snapshots snapshots charges) rq now max_age = Inr d"
    and host: "host \<in> rank_host ` set (dc_ranking d)"
  shows "\<exists>s \<in> set snapshots. sn_host s = host \<and> has_room records intent s"
proof -
  obtain n m where nm: "now = Fin n" "max_age = Fin m" using place_broker_job_finite [OF d] by blast
  have r: "rq_cpus rq = in_cpus intent" "rq_mem_mb rq = in_mem_mb intent"
    using rq by (auto simp: placement_request_of_def make_placement_request_def split: if_splits option.splits pyfloat.splits)
  obtain s where s: "s \<in> set snapshots" "host_blocker (debit_snapshot charges s) rq n m = None" "sn_host s = host"
    using host d unfolding nm place_broker_job_Inr by (auto simp: Let_def debit_snapshots_def)
  have sums: "ch_cpus (charge_of charges h) = sum_list (map ch_cpus (map at_charge (filter (open_on h) (concat (map br_attempts records)))))"
    "ch_mem_mb (charge_of charges h) = sum_list (map ch_mem_mb (map at_charge (filter (open_on h) (concat (map br_attempts records)))))"
    "ch_job_slots (charge_of charges h) = sum_list (map ch_job_slots (map at_charge (filter (open_on h) (concat (map br_attempts records)))))" for h
    by (simp_all add: charges add_charges_sum o_def, simp_all add: charge_of_def)
  have all: "(\<Sum>c\<leftarrow>charges. ch_job_slots (snd c))
      = (\<Sum>a\<leftarrow>filter (\<lambda>a. at_charge_released_at a = None) (concat (map br_attempts records)). ch_job_slots (at_charge a))"
    by (simp add: charges add_charges_total)
  have "sn_is_scheduler_host (debit_snapshot charges s) = sn_is_scheduler_host s"
    by (simp add: debit_snapshot_def split: option.split)
  then have "if sn_is_scheduler_host s
      then \<exists>j. sn_free_jobs (debit_snapshot charges s) = Some j \<and> 1 \<le> j
      else \<exists>c mem j. sn_free_cpus (debit_snapshot charges s) = Some c \<and> sn_free_mem_mb (debit_snapshot charges s) = Some mem
        \<and> sn_free_jobs (debit_snapshot charges s) = Some j \<and> rq_cpus rq \<le> c \<and> rq_mem_mb rq \<le> mem \<and> 1 \<le> j"
    using host_blocker_slots [OF s(2)] host_blocker_headroom [OF s(2)] scheduler_slot_gap_None headroom_gap_None by auto
  then have "if sn_is_scheduler_host s then \<exists>j. sn_free_jobs s = Some j \<and> (\<Sum>c\<leftarrow>charges. ch_job_slots (snd c)) + 1 \<le> j
      else \<exists>c m j. sn_free_cpus s = Some c \<and> sn_free_mem_mb s = Some m \<and> sn_free_jobs s = Some j
        \<and> ch_cpus (charge_of charges (sn_host s)) + in_cpus intent \<le> c
        \<and> ch_mem_mb (charge_of charges (sn_host s)) + in_mem_mb intent \<le> m
        \<and> ch_job_slots (charge_of charges (sn_host s)) + 1 \<le> j"
    using r by (auto simp: debit_snapshot_def charge_of_def split: if_splits option.splits)
  then have "has_room records intent s" unfolding has_room_def Let_def sums all .
  with s show ?thesis by blast
qed

text \<open>What an operation sends: nothing, or requests with a given property.\<close>

definition sends :: "(transfer_request \<Rightarrow> bool) \<Rightarrow> placer_world \<Rightarrow> placer_world \<Rightarrow> bool" where
  "sends Q w w' \<longleftrightarrow> (\<exists>new. w_sent w' = w_sent w @ new \<and> list_all (\<lambda>(q, _, _). Q q) new)"

lemma sends_refl [simp]: "w_sent w' = w_sent w \<Longrightarrow> sends Q w w'"
  by (simp add: sends_def)

lemma sends_trans: "sends Q w w1 \<Longrightarrow> sends Q w1 w2 \<Longrightarrow> sends Q w w2"
  unfolding sends_def by fastforce

lemma wbind_sends:
  assumes "wbind m f = (x, w')" "\<And>y w1. m = (y, w1) \<Longrightarrow> sends Q w w1"
    "\<And>v w1. m = (Inr v, w1) \<Longrightarrow> f v w1 = (x, w') \<Longrightarrow> sends Q w1 w'"
  shows "sends Q w w'"
proof -
  obtain y w1 where m: "m = (y, w1)" by (cases m)
  show ?thesis using assms(1,2) assms(3) [of _ w1] m by (cases y) (auto simp: wbind_def intro: sends_trans)
qed

lemma tick_sent [simp]: "w_sent (tick P w) = w_sent w"
  by (simp add: tick_def)

lemma silent:
  "clock P w = (y, w1) \<Longrightarrow> sends Q w w1" "probe P h w = (u, w1) \<Longrightarrow> sends Q w w1"
  "from_store w res = (v, w1) \<Longrightarrow> sends Q w w1" "to_store w res' = (z, w1) \<Longrightarrow> sends Q w w1"
  by (auto simp: clock_def probe_def from_store_def to_store_def split: sum.splits prod.splits)

lemma retry_sends:
  assumes "retry_on_conflict P r apply w = (x, w')" "\<And>c w y w1. apply c w = (y, w1) \<Longrightarrow> sends Q w w1"
  shows "sends Q w w'"
proof -
  obtain y w1 where a: "apply r w = (y, w1)" by (cases "apply r w")
  have "sends Q w w1" by (rule assms(2) [OF a])
  moreover have "sends Q w1 w'" using assms(1) a assms(2)
    by (cases y) (auto simp: retry_on_conflict_def wbind_def from_store_def split: sum.splits if_splits)
  ultimately show ?thesis by (rule sends_trans)
qed

lemma uncertain_sends: "uncertain P r h m w = (x, w') \<Longrightarrow> sends Q w w'"
  unfolding uncertain_def diagnose_def
  by (erule wbind_sends) (auto elim!: retry_sends wbind_sends intro: silent)

lemma submit_sends:
  assumes "submit_and_record P r q observed w = (x, w')" "Q q"
  shows "sends Q w w'"
  using assms(1) unfolding submit_and_record_def
proof (rule wbind_sends)
  fix y w1 assume "send P q observed w = (y, w1)"
  then show "sends Q w w1" using assms(2) by (auto simp: send_def sends_def)
next
  fix ans w1
  let ?put = "\<lambda>j current w. wbind (clock P w) (\<lambda>now w. to_store w (record_placed (px_env P) (w_store w)
     (br_id current) (br_revision current) (tr_request_fingerprint q) j now))"
  have put: "sends Q w w2" if "?put j c w = (y, w2)" for j c w y w2
    using that by (rule wbind_sends) (auto intro: silent)
  assume "(case case ans of SubmitRaised d \<Rightarrow> Inl d
      | SubmitReturned j \<Rightarrow> (case validate_job_id j of Inl x \<Rightarrow> Inl (px_invalid_id P j) | Inr j \<Rightarrow> Inr j) of
      Inl d \<Rightarrow> uncertain P r (tr_target_host q) (''transfer outcome unknown: '' @ d) w1
    | Inr j \<Rightarrow> wbind (retry_on_conflict P r (?put j) w1) (\<lambda>placed w.
        (Inr (outcome_of (br_id placed) OUTCOME_PLACED (Some (tr_target_host q)) (Some j) []), w))) = (x, w')"
  then show "sends Q w1 w'"
    by (auto split: sum.splits submit_answer.splits intro: uncertain_sends retry_sends put elim!: wbind_sends)
qed

lemma transfer_checked_sends: "transfer_checked P r q obs w = (x, w') \<Longrightarrow> Q q \<Longrightarrow> sends Q w w'"
  unfolding transfer_checked_def Let_def
  by (auto split: option.splits if_splits intro: uncertain_sends silent submit_sends elim!: wbind_sends)

text \<open>A transfer sends at most the request of its record.\<close>

lemma transfer_sends:
  assumes "transfer P r obs w = (x, w')"
    "\<And>q. transfer_request_of (px_env P) (w_store w) r = Inr q \<Longrightarrow> Q q"
  shows "sends Q w w'"
proof (cases "cancel_pending r")
  case None
  with assms(1) have "wbind (from_store w (transfer_request_of (px_env P) (w_store w) r)) (\<lambda>q w. case obs of
          Some sroot \<Rightarrow> transfer_checked P r q (Some sroot) w
        | None \<Rightarrow> wbind (probe P (tr_target_host q) w) (\<lambda>answer w. case answer of
            ProbeRaised d \<Rightarrow> uncertain P r (tr_target_host q)
              (''target '' @ tr_target_host q @ '' state root unavailable ('' @ d @ ''); replay held'') w
          | ProbeRoot sroot \<Rightarrow> transfer_checked P r q sroot w)) = (x, w')" by (simp add: transfer_def)
  then show ?thesis
    by (rule wbind_sends)
      (auto simp: from_store_def split: option.splits probe_answer.splits
        intro: silent elim!: wbind_sends uncertain_sends transfer_checked_sends [OF _ assms(2)])
qed (use assms(1) in \<open>auto simp: transfer_def\<close>)

text \<open>The record a committed target is transferred with is the reserved one: no other revision passes the check.\<close>

lemma reserved_then_begun:
  assumes "env_ok env" "reachable env st" "sn_host sn \<noteq> []" "reserve env st i n d sn sroot now = Inr (r1, st1)"
    "later env st1 st2" "begin_transfer env st2 (br_id r1) (br_revision r1) now' = Inr (r2, st3)"
  shows "br_id r2 = i \<and> at_target_host (last (br_attempts r2)) = sn_host sn"
proof -
  have u: "update env st i n now (reserve_change d sn sroot) = Inr (r1, st1)" and "sroot \<noteq> []"
    using assms(4) by (auto simp: reserve_def starts_with_def split: if_splits)
  from u obtain t r where r: "get env st i = Inr r"
      "br_attempts r1 = br_attempts r @ [new_attempt r d sn sroot t]" "br_id r1 = br_id r"
    by (auto simp: update_Inr reserve_change_def split: if_splits)
  have id: "br_id r1 = i" using r(3) get_sound [OF r(1)] by simp
  have g1: "get env st1 i = Inr (as_read r1)"
    using reserve.update_evolves [where p = "(d, sn, sroot)", simplified, OF _ u] assms(3) \<open>sroot \<noteq> []\<close>
      reachable_inv [OF assms(2,1)] by (auto simp: store_inv_def)
  have "reachable env st1" using assms(2) step_reserve [OF assms(3,4)] by (meson r_into_rtranclp reachable_trans)
  from reachable_later [OF this assms(1,5) g1] obtain c where c: "get env st2 i = Inr c" "record_later (as_read r1) c" by blast
  from assms(6) [unfolded id] c(1) obtain t' u where b: "br_revision c = br_revision r1"
      "begin_transfer_change env c t' = Inr u" "br_attempts r2 = br_attempts u" "br_id r2 = br_id u"
    by (auto simp: begin_transfer_def update_Inr)
  have "c = as_read r1" using c(2) b(1) by (auto simp: record_later_def)
  then show ?thesis using b id r(2)
    by (auto simp: begin_transfer_change_def Let_def replace_attempt_def new_attempt_def split: if_splits)
qed

lemma commit_target_sends:
  assumes "env_ok (px_env P)" "peers_ok P" "reachable (px_env P) (w_store w)" "\<forall>s \<in> set debited. sn_host s \<noteq> []"
    and run: "commit_target P r d debited host sroot now w = (x, w')"
  shows "sends (\<lambda>q. tr_job_id q = br_id r \<and> tr_target_host q = host) w w'" (is "sends ?Q _ _")
  using run unfolding commit_target_def
proof (rule wbind_sends)
  fix v w1
  assume w1: "from_store w (verify_payload (px_env P) (w_store w) r) = (Inr v, w1)"
    and f: "(case find (\<lambda>s. sn_host s = host) debited of None \<Rightarrow> (Inl StopIteration, w1)
     | Some s \<Rightarrow> wbind (to_store w1 (reserve (px_env P) (w_store w1) (br_id r) (br_revision r) d s sroot now)) (\<lambda>r w.
         wbind (clock P w) (\<lambda>now w.
         wbind (to_store w (begin_transfer (px_env P) (w_store w) (br_id r) (br_revision r) now)) (\<lambda>r w.
           transfer P r (Some sroot) w)))) = (x, w')"
  show "sends ?Q w1 w'"
  proof (cases "find (\<lambda>s. sn_host s = host) debited")
    case (Some s)
    then have s: "sn_host s \<noteq> []" "sn_host s = host" using assms(4) by (auto simp: find_Some_iff)
    have ww: "w1 = w" using w1 by (auto simp: from_store_def)
    from f Some have "wbind (to_store w1 (reserve (px_env P) (w_store w1) (br_id r) (br_revision r) d s sroot now)) (\<lambda>r w.
         wbind (clock P w) (\<lambda>now w.
         wbind (to_store w (begin_transfer (px_env P) (w_store w) (br_id r) (br_revision r) now)) (\<lambda>r w.
           transfer P r (Some sroot) w))) = (x, w')" by simp
    then show ?thesis
    proof (rule wbind_sends)
      fix r1 w2
      assume a: "to_store w1 (reserve (px_env P) (w_store w1) (br_id r) (br_revision r) d s sroot now) = (Inr r1, w2)"
        and g: "wbind (clock P w2) (\<lambda>now w.
         wbind (to_store w (begin_transfer (px_env P) (w_store w) (br_id r1) (br_revision r1) now)) (\<lambda>r w.
           transfer P r (Some sroot) w)) = (x, w')"
      have res: "reserve (px_env P) (w_store w) (br_id r) (br_revision r) d s sroot now = Inr (r1, w_store w2)"
        using a ww by (auto simp: to_store_def split: sum.splits prod.splits)
      show "sends ?Q w2 w'" using g
      proof (rule wbind_sends)
        fix t w3
        assume c: "clock P w2 = (Inr t, w3)" and h: "wbind (to_store w3 (begin_transfer (px_env P) (w_store w3) (br_id r1)
           (br_revision r1) t)) (\<lambda>r w. transfer P r (Some sroot) w) = (x, w')"
        have later: "later (px_env P) (w_store w2) (w_store w3)" using runs_later [OF clock_runs [OF assms(2) c]] .
        show "sends ?Q w3 w'" using h
        proof (rule wbind_sends)
          fix r4 w4
          assume b: "to_store w3 (begin_transfer (px_env P) (w_store w3) (br_id r1) (br_revision r1) t) = (Inr r4, w4)"
            and tr: "transfer P r4 (Some sroot) w4 = (x, w')"
          have "begin_transfer (px_env P) (w_store w3) (br_id r1) (br_revision r1) t = Inr (r4, w_store w4)"
            using b by (auto simp: to_store_def split: sum.splits prod.splits)
          from reserved_then_begun [OF assms(1,3) s(1) res later this]
          show "sends ?Q w4 w'" using s(2) by (intro transfer_sends [OF tr]) (auto dest: transfer_request_Inr)
        qed (auto intro: silent)
      qed (auto intro: silent)
    qed (auto intro: silent)
  qed (use f in auto)
qed (auto intro: silent)

lemma choose_target_silent: "choose_target P r ranking w = (c, w') \<Longrightarrow> w_sent w' = w_sent w"
  by (induction ranking arbitrary: w c w')
    (fastforce simp: Let_def split: option.splits prod.splits probe_answer.splits if_splits)+

text \<open>A re-ranker narrows the capacity decision; the completion-time policy does (\<open>Broker_Completion\<close>).\<close>

definition rerank_narrows :: "placer_env \<Rightarrow> bool" where
  "rerank_narrows P \<longleftrightarrow> (\<forall>f r d ss now age d'. px_rerank P = Some f \<and> f r d ss now age = Inr d'
     \<longrightarrow> rank_host ` set (dc_ranking d') \<subseteq> rank_host ` set (dc_ranking d))"

lemma decide_narrows:
  "rerank_narrows P \<Longrightarrow> decide P r ss now age d0 = Inr d \<Longrightarrow> rank_host ` set (dc_ranking d) \<subseteq> rank_host ` set (dc_ranking d0)"
  unfolding decide_def rerank_narrows_def by (auto split: option.splits if_splits)

lemma act_on_sends:
  assumes "env_ok (px_env P)" "peers_ok P" "reachable (px_env P) (w_store w)" "\<forall>s \<in> set debited. sn_host s \<noteq> []"
    and run: "act_on P r debited now d w = (x, w')"
  shows "sends (\<lambda>q. tr_job_id q = br_id r \<and> tr_target_host q \<in> rank_host ` set (dc_ranking d)
    \<and> px_refuse_target P (tr_target_host q) = None \<and> px_job_refusal P r (tr_target_host q) = None) w w'" (is "sends ?Q _ _")
proof -
  have hold: "sends ?Q w1 w2" if "hold_job P r bs now w1 = (y, w2)" for bs w1 y w2
    using that unfolding hold_job_def by (rule wbind_sends) (auto intro: silent)
  obtain c skipped w1 where c: "choose_target P r (dc_ranking d) w = ((c, skipped), w1)" by (metis prod_cases3 surj_pair)
  have quiet: "sends ?Q w w1" using choose_target_silent [OF c] by simp
  show ?thesis
  proof (cases "dc_host d = None")
    case True
    then show ?thesis using run hold by (simp add: act_on_def)
  next
    case False
    have "sends ?Q w1 w'"
    proof (cases c)
      case NoTarget
      then show ?thesis using run False c hold by (simp add: act_on_def)
    next
      case (Chosen host sroot)
      note ch = choose_target_Chosen [OF c [unfolded Chosen]]
      have re: "reachable (px_env P) (w_store w1)" using runs_reachable [OF choose_target_runs [OF assms(2) c] assms(3)] .
      from run False c Chosen have "commit_target P r (d\<lparr>dc_host := Some host, dc_blockers := sort (dc_blockers d @ skipped)\<rparr>)
          debited host sroot now w1 = (x, w')" by (simp add: act_on_def)
      from commit_target_sends [OF assms(1,2) re assms(4) this] show ?thesis
        using ch unfolding sends_def by (auto elim!: list.pred_mono_strong)
    qed
    then show ?thesis using quiet sends_trans by blast
  qed
qed

text \<open>
  C5: capacity already promised is not promised again. Take the placement of one held job, in any interleaving with other
  processes and with any re-ranker that adds no host. If it sends a request, then the request is for this job and goes
  to a target of the given snapshots that neither the target policy nor the job refuses, and the raw snapshot of that
  target has room for the job on top of the charge of every unreleased attempt of every record that the store held when
  the charges were computed: in cpus, in memory and in job slots. On a scheduler host the free slots cover the open
  attempts on all hosts and one more.
\<close>

theorem placement_never_overpromises:
  assumes "env_ok (px_env P)" "peers_ok P" "reachable (px_env P) (w_store w)" "\<forall>s \<in> set snapshots. sn_host s \<noteq> []"
    and "rerank_narrows P" "place_locked P i snapshots max_age w = (x, w')"
    and "w_sent w' = w_sent w @ new" "(q, sroot, st) \<in> set new"
  shows "\<exists>r records. get (px_env P) (w_store w) i = Inr r \<and> tr_job_id q = i \<and> distinct (map br_id records)
    \<and> (\<forall>r'. r' \<in> set records \<longleftrightarrow> (\<exists>j. get (px_env P) (w_store (tick P w)) j = Inr r'))
    \<and> px_refuse_target P (tr_target_host q) = None \<and> px_job_refusal P r (tr_target_host q) = None
    \<and> (\<exists>s \<in> set snapshots. sn_host s = tr_target_host q \<and> has_room records (br_intent r) s)"
proof -
  have "w_sent w' \<noteq> w_sent w" using assms(7,8) by auto
  then obtain r charges rq d0 d where r: "get (px_env P) (w_store w) i = Inr r"
    and ch: "outstanding_charges (px_env P) (w_store (tick P w)) = Inr charges"
    and rq: "placement_request_of (br_intent r) = Inr rq"
    and d0: "place_broker_job (debit_snapshots snapshots charges) rq (px_clock P (w_tick w)) max_age = Inr d0"
    and d: "decide P r (debit_snapshots snapshots charges) (px_clock P (w_tick w)) max_age d0 = Inr d"
    and run: "act_on P r (debit_snapshots snapshots charges) (px_clock P (w_tick w)) d (tick P w) = (x, w')"
    using assms(6)
    by (auto simp: place_locked_def wbind_def from_store_def clock_def split: sum.splits if_splits prod.splits)
  have re: "reachable (px_env P) (w_store (tick P w))" using runs_reachable [OF tick_runs [OF assms(2)] assms(3)] .
  have q: "tr_job_id q = i" "tr_target_host q \<in> rank_host ` set (dc_ranking d)"
    "px_refuse_target P (tr_target_host q) = None" "px_job_refusal P r (tr_target_host q) = None"
    using act_on_sends [OF assms(1,2) re debit_hosts [OF assms(4)] run] assms(7,8) get_sound [OF r]
    by (auto simp: sends_def list_all_iff)
  have host: "tr_target_host q \<in> rank_host ` set (dc_ranking d0)" using decide_narrows [OF assms(5) d] q(2) by blast
  have "distinct (map fst (bs_records (w_store (tick P w))))" using reachable_inv [OF re assms(1)] by (simp add: store_inv_def)
  from outstanding_records [OF ch this] obtain records where rec: "distinct (map br_id records)"
    "\<forall>r'. r' \<in> set records \<longleftrightarrow> (\<exists>j. get (px_env P) (w_store (tick P w)) j = Inr r')"
    "charges = add_charges [] (concat (map br_attempts records))" by blast
  show ?thesis using ranked_has_room [OF rec(3) rq d0 host] rec(1,2) r q by blast
qed

theorem placement_never_overpromises_witness:
  "\<exists>q sroot st. w_sent (snd (place_locked demo_placer demo_id [sample_snapshot ''a'' 8] (Fin 30) demo_world)) = [(q, sroot, st)]
     \<and> (\<exists>records. (\<forall>r'. r' \<in> set records \<longleftrightarrow> (\<exists>j. get sample_env demo_held j = Inr r'))
          \<and> tr_target_host q = ''a'' \<and> has_room records sample_intent (sample_snapshot ''a'' 8))"
proof -
  let ?p = "place_locked demo_placer demo_id [sample_snapshot ''a'' 8] (Fin 30) demo_world"
  have "map (\<lambda>_. ()) (w_sent (snd ?p)) = [()]" by code_simp
  then obtain q sroot st where sent: "w_sent (snd ?p) = [(q, sroot, st)]" by (auto simp: map_eq_Cons_conv)
  have new: "w_sent (snd ?p) = w_sent demo_world @ w_sent (snd ?p)" "(q, sroot, st) \<in> set (w_sent (snd ?p))"
    using sent by (simp_all add: demo_world_def)
  have h: "\<forall>s \<in> set [sample_snapshot ''a'' 8]. sn_host s \<noteq> []" by (simp add: sample_snapshot_def)
  have n: "rerank_narrows demo_placer" by (simp add: rerank_narrows_def demo_placer_def)
  have g: "get sample_env demo_held demo_id = Inr demo_r1" "br_intent demo_r1 = sample_intent"
    by code_simp (simp add: demo_r1_def)
  have w: "px_env demo_placer = sample_env" "w_store demo_world = demo_held" "w_store (tick demo_placer demo_world) = demo_held"
    by (simp_all add: demo_placer_def demo_world_def tick_def)
  obtain records where "\<forall>r'. r' \<in> set records \<longleftrightarrow> (\<exists>j. get sample_env demo_held j = Inr r')"
    "sn_host (sample_snapshot ''a'' 8) = tr_target_host q" "has_room records sample_intent (sample_snapshot ''a'' 8)"
    using placement_never_overpromises [OF demo_placer_ok h n prod.collapse [symmetric] new] g unfolding w by auto
  then have "tr_target_host q = ''a'' \<and> has_room records sample_intent (sample_snapshot ''a'' 8)" by (simp add: sample_snapshot_def)
  then show ?thesis using sent \<open>\<forall>r'. _\<close> by blast
qed

section \<open>Strict FIFO\<close>

lemma update_id:
  assumes "update env st i n now change = Inr (s, st')" "\<And>r t u. change r t = Inr u \<Longrightarrow> br_id u = br_id r"
  shows "br_id s = i"
proof -
  from assms(1) obtain t r u where "get env st i = Inr r" "change r t = Inr u" "br_id s = br_id u"
    by (auto simp: update_Inr)
  then show ?thesis using assms(2) get_sound by metis
qed

lemma operation_ids:
  "reserve env st i n d sn sroot now = Inr (s, st') \<Longrightarrow> br_id s = i"
  "begin_transfer env st i n now = Inr (s, st') \<Longrightarrow> br_id s = i"
  "record_placed env st i n fp j now = Inr (s, st') \<Longrightarrow> br_id s = i"
  by (auto simp: reserve_def begin_transfer_def record_placed_def reserve_change_def begin_transfer_change_def
      placed_change_def Let_def split: if_splits sum.splits elim!: update_id)

lemma wbind_Inr [simp]: "wbind m f = (Inr x, w') \<longleftrightarrow> (\<exists>v w1. m = (Inr v, w1) \<and> f v w1 = (Inr x, w'))"
  by (cases m; cases "fst m") (auto simp: wbind_def)

lemma from_store_Inr [simp]: "from_store w res = (Inr v, w') \<longleftrightarrow> res = Inr v \<and> w' = w"
  by (auto simp: from_store_def)

lemma to_store_Inr [simp]: "to_store w res = (Inr v, w') \<longleftrightarrow> (\<exists>st. res = Inr (v, st) \<and> w' = w\<lparr>w_store := st\<rparr>)"
  by (auto simp: to_store_def split: sum.splits prod.splits)

lemma retry_Inr:
  assumes "retry_on_conflict P r apply w = (Inr x, w')" "\<And>c w x w'. apply c w = (Inr x, w') \<Longrightarrow> br_id x = br_id c"
  shows "br_id x = br_id r"
  using assms get_sound
  by (fastforce simp: retry_on_conflict_def split: prod.splits sum.splits if_splits)

lemma transfer_job: "transfer P r obs w = (Inr out, w') \<Longrightarrow> po_job out = br_id r"
proof -
  have u: "po_job out = br_id r" if "uncertain P r h m w = (Inr out, w')" for h m w w' out
    using that by (auto simp: uncertain_def)
  have p: "po_job out = br_id r" if c: "cancel_pending c = Some out" "br_id c = br_id r" for c out
    using c by (auto simp: cancel_pending_def split: option.splits)
  have s: "po_job out = br_id r" if "submit_and_record P r q o' w = (Inr out, w')" for q o' w w' out
    using that u by (auto simp: submit_and_record_def split: sum.splits submit_answer.splits
        elim!: retry_Inr) (rule operation_ids(3), assumption)
  have c: "po_job out = br_id r" if "transfer_checked P r q o' w = (Inr out, w')" for q o' w w' out
    using that by (auto simp: transfer_checked_def Let_def split: option.splits if_splits
        intro: u s p dest: get_sound)
  assume "transfer P r obs w = (Inr out, w')"
  then show ?thesis
    apply (cases "cancel_pending r"; cases obs)
       apply (clarsimp simp: transfer_def simp del: append.simps)
    subgoal for q ans w1 by (cases ans) (auto intro: u c)
    by (auto simp: transfer_def intro: p c)
qed

lemma place_locked_job: "place_locked P i snapshots max_age w = (Inr out, w') \<Longrightarrow> po_job out = i"
proof -
  have h: "po_job out = br_id r" if "hold_job P r bs now w = (Inr out, w')" for r bs now w w' out
    using that by (auto simp: hold_job_def)
  have c: "po_job out = br_id r" if "commit_target P r d debited host sroot now w = (Inr out, w')" for r d debited host sroot now w w' out
    using that by (auto simp: commit_target_def split: option.splits dest!: transfer_job operation_ids)
  assume "place_locked P i snapshots max_age w = (Inr out, w')"
  then have "\<exists>r. get (px_env P) (w_store w) i = Inr r \<and> (\<exists>d debited now w1 w2. act_on P r debited now d w1 = (Inr out, w2))"
    apply (clarsimp simp: place_locked_def split: if_splits)
    subgoal for r now w1 charges
      by (cases "rbind (placement_request_of (br_intent r))
            (\<lambda>rq. place_broker_job (debit_snapshots snapshots charges) rq now max_age)") (simp_all, blast)
    done
  then obtain r d debited now w1 w2 where g: "get (px_env P) (w_store w) i = Inr r"
    and a: "act_on P r debited now d w1 = (Inr out, w2)" by blast
  have "po_job out = br_id r"
    using a by (auto simp: act_on_def split: if_splits prod.splits target_choice.splits intro: h c)
  then show ?thesis using get_sound [OF g] by simp
qed

lemma place_queue_order:
  assumes "place_queue P snapshots max_age rs w = (Inr rep, w')"
  shows "\<exists>handled. map br_id rs = handled @ (case ff_head rep of None \<Rightarrow> [] | Some h \<Rightarrow> h # ff_waiting rep)
    \<and> (ff_head rep = None \<longrightarrow> ff_waiting rep = [] \<and> ff_stopped rep = None)
    \<and> set handled = set (map po_job (filter (\<lambda>out. po_outcome out \<noteq> OUTCOME_HELD) (ff_placements rep)))
        \<union> fst ` set (ff_refused rep) \<union> set (ff_skipped rep)"
  using assms
proof (induction rs arbitrary: w rep w')
  case Nil
  then show ?case by (auto simp: fifo_done_def)
next
  case (Cons r rs)
  obtain y w1 where y: "place_locked P (br_id r) snapshots max_age w = (y, w1)" by fastforce
  consider (head) outs err where "rep = head_report outs r rs err" "\<forall>out \<in> set outs. po_outcome out = OUTCOME_HELD"
    | (rest) rep0 w2 where "place_queue P snapshots max_age rs w1 = (Inr rep0, w2)"
        "(\<exists>out. y = Inr out \<and> po_outcome out \<noteq> OUTCOME_HELD \<and> rep = rep0\<lparr>ff_placements := out # ff_placements rep0\<rparr>)
         \<or> (\<exists>e. rep = rep0\<lparr>ff_refused := (br_id r, e) # ff_refused rep0\<rparr>)
         \<or> rep = rep0\<lparr>ff_skipped := br_id r # ff_skipped rep0\<rparr>"
    using Cons.prems y by (cases y) (fastforce split: if_splits sum.splits)+
  then show ?case
  proof cases
    case head
    then show ?thesis by (intro exI [of _ "[]"]) (auto simp: head_report_def)
  next
    case rest
    from Cons.IH [OF rest(1)] obtain handled where
      "map br_id rs = handled @ (case ff_head rep0 of None \<Rightarrow> [] | Some h \<Rightarrow> h # ff_waiting rep0)"
      "ff_head rep0 = None \<longrightarrow> ff_waiting rep0 = [] \<and> ff_stopped rep0 = None"
      "set handled = set (map po_job (filter (\<lambda>out. po_outcome out \<noteq> OUTCOME_HELD) (ff_placements rep0)))
        \<union> fst ` set (ff_refused rep0) \<union> set (ff_skipped rep0)" by (elim exE conjE) (rule that)
    moreover have "po_job out = br_id r" if "y = Inr out" for out using y that place_locked_job by simp
    ultimately show ?thesis using rest(2)
      by (intro exI [of _ "br_id r # handled"]) (auto split: option.splits simp del: set_filter)
  qed
qed

text \<open>
  C9: strict first come, first served. The queue holds the held jobs by acceptance time, then
  id. A pass works through it from the front: the jobs it placed, skipped (cancelled meanwhile)
  or refused (they left the held state) and then the head and the waiting jobs are exactly the
  queue, in order; when a job stays at the head, everything behind it is waiting and none of it
  was tried; without a head nothing waits.
\<close>

theorem fifo_pass_in_order:
  assumes "place_queue P snapshots max_age (fifo_queue records) w = (Inr rep, w')"
  shows "sorted (map (\<lambda>r. (br_created_at r, br_id r)) (fifo_queue records))
    \<and> (\<exists>handled. map br_id (fifo_queue records) =
          handled @ (case ff_head rep of None \<Rightarrow> [] | Some h \<Rightarrow> h # ff_waiting rep)
        \<and> (ff_head rep = None \<longrightarrow> ff_waiting rep = [] \<and> ff_stopped rep = None)
        \<and> set handled = set (map po_job (filter (\<lambda>out. po_outcome out \<noteq> OUTCOME_HELD) (ff_placements rep)))
            \<union> fst ` set (ff_refused rep) \<union> set (ff_skipped rep))"
  using place_queue_order [OF assms] by (simp add: fifo_queue_def)

definition demo_head :: fifo_report where
  "demo_head = head_report [outcome_of demo_id OUTCOME_HELD None None []] demo_r1 [] None"

theorem fifo_pass_in_order_witness:
  "\<exists>handled. [demo_id] = handled @ (case ff_head demo_head of None \<Rightarrow> [] | Some h \<Rightarrow> h # ff_waiting demo_head)"
proof -
  have q: "fifo_queue [demo_r1] = [demo_r1]" by (simp add: fifo_queue_def demo_r1_def new_record_def)
  have "fst (place_queue demo_placer [] (Fin 30) [demo_r1] demo_world) = Inr demo_head" by code_simp
  then have "place_queue demo_placer [] (Fin 30) (fifo_queue [demo_r1]) demo_world
      = (Inr demo_head, snd (place_queue demo_placer [] (Fin 30) [demo_r1] demo_world))"
    unfolding q by (metis prod.collapse)
  from fifo_pass_in_order [OF this] have "\<exists>handled. map br_id [demo_r1]
      = handled @ (case ff_head demo_head of None \<Rightarrow> [] | Some h \<Rightarrow> h # ff_waiting demo_head)"
    unfolding q by blast
  then show ?thesis by (simp add: demo_r1_def)
qed

section \<open>Recovery\<close>

context record_transition
begin

lemma update_read_back:
  assumes "ok p" "get env st i = Inr r" "store_ok env st" "0 \<le> t" "change p r t = Inr u"
    "finite_json (record_json env r)" "\<And>x. \<not> e_too_large env x" "length (br_attempts u) = length (br_attempts r)"
  shows "\<exists>st' u'. u' = u\<lparr>br_revision := br_revision r + 1, br_updated_at := t\<rparr>
    \<and> update env st i (br_revision r) (Fin t) (change p) = Inr (u', st')
    \<and> get env st' i = Inr (as_read u') \<and> store_ok env st' \<and> finite_json (record_json env (as_read u'))"
proof -
  have snd: "attempts_sound r" using assms(2,3) by (auto simp: store_ok_def)
  obtain st' where up: "update env st i (br_revision r) (Fin t) (change p)
      = Inr (u\<lparr>br_revision := br_revision r + 1, br_updated_at := t\<rparr>, st')"
    using update_succeeds [OF assms(1,2) snd assms(4-8)] by blast
  from update_evolves [OF assms(1) up assms(3)] assms(2)
  have e: "record_evolves r u" "get env st' i = Inr (as_read (u\<lparr>br_revision := br_revision r + 1, br_updated_at := t\<rparr>))"
      "store_ok env st'" by auto
  have "finite_json (record_json env (as_read (u\<lparr>br_revision := br_revision r + 1, br_updated_at := t\<rparr>)))"
    using e(1) assms(8) by (intro writable_evolves [OF assms(6)]) simp_all
  with up e show ?thesis by blast
qed

end

definition quiet :: "placer_env \<Rightarrow> bool" where
  "quiet P \<longleftrightarrow> (\<forall>n st. px_interfere P n st = st) \<and> (\<forall>n. \<exists>t. px_clock P n = Fin t \<and> 0 \<le> t)
     \<and> (\<forall>x. \<not> e_too_large (px_env P) x)"

lemma quiet_clock:
  assumes "quiet P"
  obtains t w1 where "clock P w = (Inr (Fin t), w1)" "0 \<le> t" "w_store w1 = w_store w" "w_sent w1 = w_sent w"
  using assms unfolding quiet_def clock_def tick_def by (metis (mono_tags, lifting) placer_world.select_convs(1,3) placer_world.surjective placer_world.update_convs(1,2))

lemma settled_from_closed:
  "check_consistency r \<Longrightarrow> br_state r \<in> {Held, Cancelled} \<Longrightarrow> list_all settled (br_attempts r)"
  using check_consistency_closed [OF refl, of r] by simp

lemma resume_record_quiet:
  assumes q: "quiet P" and g: "get (px_env P) (w_store w) i = Inr c" "store_ok (px_env P) (w_store w)"
    and s: "br_state c = Returned" "br_id s = i" "br_revision s = br_revision c"
    and fin: "finite_json (record_json (px_env P) c)"
  shows "\<exists>out w' r'. resume_record P s w = (Inr (Some out), w') \<and> po_outcome out = OUTCOME_RELEASED
    \<and> w_sent w' = w_sent w \<and> get (px_env P) (w_store w') i = Inr r'
    \<and> br_state r' = (if br_cancellation c = None then Held else Cancelled) \<and> list_all settled (br_attempts r')"
proof -
  obtain t w1 where w1: "clock P w = (Inr (Fin t), w1)" "0 \<le> t" "w_store w1 = w_store w" "w_sent w1 = w_sent w"
    by (rule quiet_clock [OF q])
  obtain u where u: "resume_change c t = Inr u" "br_attempts u = br_attempts c"
      "br_state u = (if br_cancellation c = None then Held else Cancelled)"
    using s(1) by (cases "br_cancellation c") (auto simp: resume_change_def)
  have big: "\<not> e_too_large (px_env P) x" for x using q by (simp add: quiet_def)
  obtain st' u' where st': "u' = u\<lparr>br_revision := br_revision c + 1, br_updated_at := t\<rparr>"
      "update (px_env P) (w_store w) i (br_revision c) (Fin t) resume_change = Inr (u', st')"
      "get (px_env P) st' i = Inr (as_read u')"
    using resume.update_read_back [OF TrueI g w1(2) u(1) fin big] u(2) by auto
  have "br_state (as_read u') \<in> {Held, Cancelled}" using st'(1) u(3) by simp
  then have "list_all settled (br_attempts (as_read u'))" using settled_from_closed get_sound [OF st'(3)] by blast
  then show ?thesis using w1 st' s u(3)
    by (simp add: resume_record_def wbind_def to_store_def resume_holding_def)
qed

text \<open>
  recovery settles what a crash interrupted without sending anything. Recovering a reserved
  or returned record of the current revision, with no other process writing meanwhile, reports it
  released and leaves it held, or cancelled if cancellation had been requested, with no charge
  outstanding; nothing is sent.
\<close>

theorem recovery_returns_to_holding:
  assumes "env_ok (px_env P)" "reachable (px_env P) (w_store w)" "get (px_env P) (w_store w) i = Inr r"
    and st: "br_state r \<in> {Reserved, Returned}"
    and q: "quiet P" and fin: "finite_json (record_json (px_env P) r)"
  shows "\<exists>out w' r'. recover_one P r w = (Inr (Some out), w') \<and> po_outcome out = OUTCOME_RELEASED
    \<and> w_sent w' = w_sent w \<and> get (px_env P) (w_store w') i = Inr r'
    \<and> br_state r' = (if br_cancellation r = None then Held else Cancelled)
    \<and> list_all settled (br_attempts r')"
proof -
  have ok: "store_ok (px_env P) (w_store w)" using reachable_inv [OF assms(2,1)] by (simp add: store_inv_def)
  have rid: "br_id r = i" using get_sound [OF assms(3)] by simp
  show ?thesis
  proof (cases "br_state r = Returned")
    case True
    then show ?thesis
      using resume_record_quiet [OF q assms(3) ok True rid refl fin] by (simp add: recover_one_def)
  next
    case False
    then have res: "br_state r = Reserved" using st by simp
    obtain t w1 where w1: "clock P w = (Inr (Fin t), w1)" "0 \<le> t" "w_store w1 = w_store w" "w_sent w1 = w_sent w"
      by (rule quiet_clock [OF q])
    let ?why = "''unstarted reservation released during recovery''"
    have why: "parse_reason ?why = Inr ?why" by code_simp
    have ne: "br_attempts r \<noteq> []" using check_consistency_attempts [of r] get_sound [OF assms(3)] res by simp
    obtain u where u: "release_change ?why r t = Inr u" "length (br_attempts u) = length (br_attempts r)"
        "br_state u = Returned" "br_cancellation u = br_cancellation r" "br_id u = br_id r"
      using res ne by (simp add: release_change_def)
    have big: "\<not> e_too_large (px_env P) x" for x using q by (simp add: quiet_def)
    obtain st' u' where st': "u' = u\<lparr>br_revision := br_revision r + 1, br_updated_at := t\<rparr>"
        "update (px_env P) (w_store w) i (br_revision r) (Fin t) (release_change ?why) = Inr (u', st')"
        "get (px_env P) st' i = Inr (as_read u')" "store_ok (px_env P) st'"
        "finite_json (record_json (px_env P) (as_read u'))"
      using release.update_read_back [of ?why, OF _ assms(3) ok w1(2) u(1) fin big u(2)] by auto
    have "recover_one P r w = resume_record P u' (w1\<lparr>w_store := st'\<rparr>)"
      using res w1 st'(2) rid why by (simp add: recover_one_def wbind_def to_store_def release_reservation_def)
    then show ?thesis
      using resume_record_quiet [OF q, of "w1\<lparr>w_store := st'\<rparr>" i "as_read u'" u'] st' u rid w1 by simp
  qed
qed

theorem recovery_returns_to_holding_witness:
  "\<exists>out w' r'. recover_one demo_placer demo_r2 (demo_world\<lparr>w_store := demo_reserved\<rparr>) = (Inr (Some out), w')
    \<and> po_outcome out = OUTCOME_RELEASED \<and> w_sent w' = []
    \<and> get sample_env (w_store w') demo_id = Inr r' \<and> br_state r' = Held"
proof -
  have "finite_json (record_json sample_env demo_r2)" by code_simp
  moreover have "quiet demo_placer" by (simp add: quiet_def demo_placer_def sample_env_def)
  moreover have "br_state demo_r2 = Reserved" "br_cancellation demo_r2 = None"
    by (simp_all add: demo_r2_def demo_r1_def new_record_def)
  moreover have "px_env demo_placer = sample_env" by (simp add: demo_placer_def)
  ultimately show ?thesis
    using recovery_returns_to_holding [of demo_placer "demo_world\<lparr>w_store := demo_reserved\<rparr>" demo_id demo_r2]
      sample_env_ok demo_reachable(1) demo_get(1)
    by (fastforce simp: demo_world_def)
qed

end
