(* ===== verification/Drain.thy ===== *)
theory Drain
  imports Job_Spec
begin

text \<open>
  Dispatch holds, \<open>drain.py\<close>: the legacy drain document (one object in \<open>drain.json\<close>), the
  store of independently owned scheduler leases beside it, the operations on both and the effective
  policy the dispatch loop reads.

  The two files are the state, \<open>drain_world\<close>; a file that does not decode is its own value. The
  operations are the direct ones (\<open>via_rpc=False\<close>) that the daemon itself and its RPC handlers
  run under the file locks. A timestamp is kept as the string it is compared by; \<open>de_iso\<close> gives
  what \<open>datetime.fromisoformat\<close> makes of it, \<open>de_now_naive\<close> and \<open>de_now_aware\<close> are the
  wall clock as \<open>datetime.now(tzinfo)\<close> reads it for a naive and an aware timestamp (microseconds),
  \<open>de_utcnow\<close> is the text of \<open>utcnow_iso()\<close>, and \<open>de_store_fits\<close>
  says whether the encoded lease store is within the size limit of its file.
\<close>

section \<open>State\<close>

record drain_state =
  dr_enabled :: bool
  dr_max_jobs :: "int option"
  dr_max_cpus :: "int option"
  dr_set_at :: string
  dr_reason :: "string option"
  dr_owner_pid :: "int option"
  dr_owner_pid_start_time :: int
  dr_scheduler_hosts :: "string list"
  dr_full_dispatch :: bool
  dr_reject_submits :: bool
  dr_update_mode :: "string option"
  dr_duration_seconds :: "int option"

record drain_lease =
  ls_lease_id :: string
  ls_scheduler_host :: string
  ls_owner :: string
  ls_set_at :: string
  ls_reason :: "string option"
  ls_owner_pid :: "int option"
  ls_owner_pid_start_time :: int

record drain_env =
  de_iso :: "string \<Rightarrow> iso_stamp"
  de_now_naive :: int
  de_now_aware :: int
  de_utcnow :: string
  de_store_fits :: "drain_lease list \<Rightarrow> bool"

datatype drain_file = DrainFile drain_state | CorruptDrain
datatype lease_store = LeaseStore "drain_lease list" | UnreadableLeases string

record drain_world =
  dw_file :: "drain_file option"
  dw_leases :: lease_store

datatype drain_error = SchedulerDrainLeaseError string | OwnedFullDrainReleaseError | DrainValueError

text \<open>The defaults of the pydantic model.\<close>

definition new_drain_state :: "string \<Rightarrow> drain_state" where
  "new_drain_state set_at = \<lparr>dr_enabled = True, dr_max_jobs = None, dr_max_cpus = None, dr_set_at = set_at,
     dr_reason = None, dr_owner_pid = None, dr_owner_pid_start_time = 0, dr_scheduler_hosts = [],
     dr_full_dispatch = False, dr_reject_submits = False, dr_update_mode = None,
     dr_duration_seconds = None\<rparr>"

definition is_full_drain :: "drain_state \<Rightarrow> bool" where
  "is_full_drain s \<longleftrightarrow> dr_enabled s \<and> (dr_full_dispatch s
     \<or> dr_max_jobs s = None \<and> dr_max_cpus s = None \<and> dr_scheduler_hosts s = [])"

definition is_scheduler_target_drain :: "drain_state \<Rightarrow> bool" where
  "is_scheduler_target_drain s \<longleftrightarrow> dr_enabled s \<and> dr_scheduler_hosts s \<noteq> []"

definition drains_scheduler_target :: "drain_state \<Rightarrow> string option \<Rightarrow> bool" where
  "drains_scheduler_target s target = (case target of
      None \<Rightarrow> False | Some t \<Rightarrow> t \<noteq> [] \<and> t \<in> set (dr_scheduler_hosts s))"

definition effective_max_jobs :: "drain_state \<Rightarrow> int option \<Rightarrow> int option" where
  "effective_max_jobs s daemon_max = (case dr_max_jobs s of
      None \<Rightarrow> daemon_max
    | Some m \<Rightarrow> (case daemon_max of None \<Rightarrow> Some m | Some d \<Rightarrow> Some (min m d)))"

definition effective_max_cpus :: "drain_state \<Rightarrow> int \<Rightarrow> int" where
  "effective_max_cpus s daemon_max = (case dr_max_cpus s of None \<Rightarrow> daemon_max | Some m \<Rightarrow> min m daemon_max)"

section \<open>The effective policy\<close>

text \<open>\<open>list(dict.fromkeys(xs))\<close>: the first occurrence of each element.\<close>

definition dedup :: "'a list \<Rightarrow> 'a list" where
  "dedup xs = rev (remdups (rev xs))"

definition compose_effective_drain_state :: "drain_state option \<Rightarrow> drain_lease list \<Rightarrow> drain_state option" where
  "compose_effective_drain_state legacy leases =
     (let legacy = (case legacy of Some s \<Rightarrow> if dr_enabled s then Some s else None | None \<Rightarrow> None);
          lease_hosts = map ls_scheduler_host leases in
      if leases = [] then legacy
      else case legacy of
        None \<Rightarrow>
          (let effective = (new_drain_state (Min (ls_set_at ` set leases)))
                 \<lparr>dr_scheduler_hosts := dedup lease_hosts, dr_full_dispatch := False\<rparr> in
           Some (case leases of
               [l] \<Rightarrow> effective\<lparr>dr_reason := ls_reason l, dr_owner_pid := ls_owner_pid l,
                        dr_owner_pid_start_time := ls_owner_pid_start_time l\<rparr>
             | _ \<Rightarrow> effective))
      | Some s \<Rightarrow> Some (s\<lparr>dr_enabled := True,
            dr_scheduler_hosts := dedup (dr_scheduler_hosts s @ lease_hosts),
            dr_full_dispatch := (is_full_drain s \<or> dr_full_dispatch s)\<rparr>))"

text \<open>Whether the timed hold has run out; a timestamp that does not parse never expires.\<close>

definition drain_expired :: "drain_env \<Rightarrow> drain_state \<Rightarrow> bool" where
  "drain_expired env s = (case dr_duration_seconds s of
      None \<Rightarrow> False
    | Some d \<Rightarrow> (case de_iso env (dr_set_at s) of
        IsoBad _ \<Rightarrow> False
      | IsoNaive t \<Rightarrow> d * 1000000 \<le> de_now_naive env - t
      | IsoAware t \<Rightarrow> d * 1000000 \<le> de_now_aware env - t))"

definition expire_full_hold :: "drain_state \<Rightarrow> drain_state" where
  "expire_full_hold s = s\<lparr>dr_full_dispatch := False, dr_update_mode := None, dr_reject_submits := False,
     dr_duration_seconds := None\<rparr>"

text \<open>
  The state read and the file afterwards: an expired hold is rewritten or removed in passing.
\<close>

definition read_drain_state :: "drain_env \<Rightarrow> drain_world \<Rightarrow> drain_state option \<times> drain_world" where
  "read_drain_state env w = (case dw_file w of
      None \<Rightarrow> (None, w)
    | Some CorruptDrain \<Rightarrow> (None, w)
    | Some (DrainFile s) \<Rightarrow>
        if drain_expired env s
        then (if dr_scheduler_hosts s \<noteq> []
              then (Some (expire_full_hold s), w\<lparr>dw_file := Some (DrainFile (expire_full_hold s))\<rparr>)
              else (None, w\<lparr>dw_file := None\<rparr>))
        else (Some s, w))"

definition unreadable_hold :: "drain_env \<Rightarrow> drain_state option \<Rightarrow> drain_state option \<Rightarrow> string \<Rightarrow> drain_state" where
  "unreadable_hold env legacy raw detail =
     (let why = ''scheduler drain leases unreadable: '' @ detail;
          s = (case legacy of Some s \<Rightarrow> s
               | None \<Rightarrow> new_drain_state (case raw of Some r \<Rightarrow> dr_set_at r | None \<Rightarrow> de_utcnow env));
          reason = (case legacy of Some l \<Rightarrow> (case dr_reason l of Some r \<Rightarrow> if r = [] then why else r @ ''; '' @ why
                      | None \<Rightarrow> why) | None \<Rightarrow> why) in
      s\<lparr>dr_enabled := True, dr_full_dispatch := True, dr_duration_seconds := None, dr_reason := Some reason\<rparr>)"

definition read_scheduler_drain_leases :: "drain_world \<Rightarrow> string + drain_lease list" where
  "read_scheduler_drain_leases w = (case dw_leases w of
      UnreadableLeases detail \<Rightarrow> Inl detail
    | LeaseStore ls \<Rightarrow>
        if \<not> distinct (map ls_lease_id ls) then Inl ''contains duplicate lease IDs''
        else if \<not> distinct (map (\<lambda>l. (ls_scheduler_host l, ls_owner l)) ls)
        then Inl ''contains duplicate scheduler-host/owner claims''
        else Inr ls)"

definition read_effective_drain_snapshot ::
  "drain_env \<Rightarrow> drain_world \<Rightarrow>
   (drain_state option \<times> drain_lease list \<times> string option \<times> drain_state option) \<times> drain_world" where
  "read_effective_drain_snapshot env w = (case read_drain_state env w of (raw, w1) \<Rightarrow>
     (let legacy = (case raw of Some s \<Rightarrow> if dr_enabled s then Some s else None | None \<Rightarrow> None) in
      case read_scheduler_drain_leases w1 of
        Inl detail \<Rightarrow> ((legacy, [], Some detail, Some (unreadable_hold env legacy raw detail)), w1)
      | Inr leases \<Rightarrow> ((legacy, leases, None, compose_effective_drain_state legacy leases), w1)))"

definition read_effective_drain_state :: "drain_env \<Rightarrow> drain_world \<Rightarrow> drain_state option \<times> drain_world" where
  "read_effective_drain_state env w = (case read_effective_drain_snapshot env w of ((_, _, _, s), w1) \<Rightarrow> (s, w1))"

text \<open>The same expiry on a copy, for a reader that must not write.\<close>

definition project_read_only_legacy_expiry ::
  "(string \<Rightarrow> iso_stamp) \<Rightarrow> iso_stamp \<Rightarrow> drain_state option \<Rightarrow> drain_state option" where
  "project_read_only_legacy_expiry stamp_of observed state = (case state of
      None \<Rightarrow> None
    | Some s \<Rightarrow>
        if \<not> dr_enabled s then None
        else (case dr_duration_seconds s of
          None \<Rightarrow> Some s
        | Some d \<Rightarrow> (case (stamp_of (dr_set_at s), observed) of
            (IsoAware t, IsoAware now) \<Rightarrow>
              if d * 1000000 \<le> now - t
              then (if dr_scheduler_hosts s = [] then None else Some (expire_full_hold s))
              else Some s
          | _ \<Rightarrow> Some s)))"

section \<open>Lease mutations\<close>

record lease_args =
  la_acquire :: "drain_lease option"
  la_release_id :: "string option"
  la_release_host :: "string option"
  la_release_owner :: "string option"
  la_release_all :: bool

datatype lease_mutation =
    Acquire drain_lease
  | ReleaseId string
  | ReleaseHost string "string option"
  | ReleaseAll

definition blank :: "string \<Rightarrow> bool" where
  "blank s \<longleftrightarrow> py_strip s = []"

text \<open>The one mutation the keyword arguments ask for, or the refusal.\<close>

definition lease_mutation_of :: "lease_args \<Rightarrow> drain_error + lease_mutation" where
  "lease_mutation_of args =
     (if list_ex (\<lambda>x. case x of Some v \<Rightarrow> blank v | None \<Rightarrow> False)
          [la_release_id args, la_release_host args, la_release_owner args]
      then Inl (SchedulerDrainLeaseError ''must be a non-empty string'')
      else case (la_acquire args, la_release_id args, la_release_host args, la_release_owner args, la_release_all args) of
        (Some a, None, None, None, False) \<Rightarrow> Inr (Acquire a)
      | (None, Some i, None, None, False) \<Rightarrow> Inr (ReleaseId i)
      | (None, None, Some h, owner, False) \<Rightarrow> Inr (ReleaseHost h owner)
      | (None, None, None, None, True) \<Rightarrow> Inr ReleaseAll
      | _ \<Rightarrow> Inl (SchedulerDrainLeaseError ''exactly one lease mutation is required''))"

definition no_mutation :: lease_args where
  "no_mutation = \<lparr>la_acquire = None, la_release_id = None, la_release_host = None, la_release_owner = None,
     la_release_all = False\<rparr>"

text \<open>
  The loop over the stored leases of an acquisition: \<open>Inl\<close> a refused id, \<open>Inr (Some l)\<close> the
  existing claim, \<open>Inr None\<close> the loop's \<open>else\<close>.
\<close>

fun find_claim :: "drain_lease \<Rightarrow> drain_lease list \<Rightarrow> drain_error + drain_lease option" where
  "find_claim a [] = Inr None"
| "find_claim a (l # ls) =
     (if ls_lease_id l = ls_lease_id a
      then (if ls_scheduler_host l \<noteq> ls_scheduler_host a \<or> ls_owner l \<noteq> ls_owner a
            then Inl (SchedulerDrainLeaseError ''already names a different scheduler drain claim'')
            else Inr (Some l))
      else if ls_scheduler_host l = ls_scheduler_host a \<and> ls_owner l = ls_owner a then Inr (Some l)
      else find_claim a ls)"

definition sort_leases :: "drain_lease list \<Rightarrow> drain_lease list" where
  "sort_leases = sort_key (\<lambda>l. (ls_scheduler_host l, ls_owner l, ls_lease_id l))"

definition retain :: "(drain_lease \<Rightarrow> bool) \<Rightarrow> drain_lease list \<Rightarrow> drain_lease list \<times> drain_lease option \<times> bool" where
  "retain keep ls = (let retained = filter keep ls in (retained, None, length retained \<noteq> length ls))"

definition mutate_leases ::
  "lease_mutation \<Rightarrow> drain_lease list \<Rightarrow> drain_error + (drain_lease list \<times> drain_lease option \<times> bool)" where
  "mutate_leases m ls = (case m of
      Acquire a \<Rightarrow> rbind (find_claim a ls) (\<lambda>found. case found of
          Some l \<Rightarrow> Inr (ls, Some l, False)
        | None \<Rightarrow> Inr (ls @ [a], Some a, True))
    | ReleaseId i \<Rightarrow> Inr (retain (\<lambda>l. ls_lease_id l \<noteq> i) ls)
    | ReleaseHost h owner \<Rightarrow>
        Inr (retain (\<lambda>l. \<not> (ls_scheduler_host l = h \<and> (owner = None \<or> owner = Some (ls_owner l)))) ls)
    | ReleaseAll \<Rightarrow> Inr ([], None, ls \<noteq> []))"

definition apply_scheduler_drain_lease_mutation ::
  "drain_env \<Rightarrow> lease_args \<Rightarrow> drain_world \<Rightarrow>
   (drain_error + (drain_lease list \<times> drain_lease option \<times> bool)) \<times> drain_world" where
  "apply_scheduler_drain_lease_mutation env args w =
     (case rbind (lease_mutation_of args) (\<lambda>m. case read_scheduler_drain_leases w of
             Inl detail \<Rightarrow> Inl (SchedulerDrainLeaseError detail)
           | Inr ls \<Rightarrow> Inr (m, ls)) of
        Inl e \<Rightarrow> (Inl e, w)
      | Inr (m, ls) \<Rightarrow> (case mutate_leases m ls of
          Inl e \<Rightarrow> (Inl e, w)
        | Inr (ls', acquired, changed) \<Rightarrow>
            if changed then (if \<not> de_store_fits env (sort_leases ls')
              then (Inl (SchedulerDrainLeaseError ''exceeds the supported size limit''), w)
              else (Inr (sort_leases ls', acquired, True), w\<lparr>dw_leases := LeaseStore (sort_leases ls')\<rparr>))
            else (Inr (ls', acquired, False), w)))"

section \<open>Operations on the legacy document\<close>

definition write_drain_state :: "drain_state \<Rightarrow> drain_world \<Rightarrow> drain_world" where
  "write_drain_state s w = w\<lparr>dw_file := Some (DrainFile s)\<rparr>"

definition clear_drain :: "drain_world \<Rightarrow> bool \<times> drain_world" where
  "clear_drain w = (dw_file w \<noteq> None, w\<lparr>dw_file := None\<rparr>)"

definition release_legacy_scheduler_host ::
  "drain_env \<Rightarrow> string \<Rightarrow> string option \<Rightarrow> string option \<Rightarrow> drain_world \<Rightarrow> (drain_error + bool) \<times> drain_world" where
  "release_legacy_scheduler_host env host expected_reason expected_set_at w =
     (case read_drain_state env w of
        (None, w1) \<Rightarrow> (Inr False, w1)
      | (Some s, w1) \<Rightarrow>
          if host \<notin> set (dr_scheduler_hosts s) then (Inr False, w1)
          else if expected_set_at \<noteq> None \<and> (Some (dr_set_at s) \<noteq> expected_set_at \<or> dr_reason s \<noteq> expected_reason)
          then (Inl (SchedulerDrainLeaseError ''legacy scheduler drain changed after inspection''), w1)
          else let s' = s\<lparr>dr_scheduler_hosts := filter (\<lambda>h. h \<noteq> host) (dr_scheduler_hosts s)\<rparr> in
            if dr_scheduler_hosts s' = [] \<and> \<not> dr_full_dispatch s' \<and> dr_max_jobs s' = None
               \<and> dr_max_cpus s' = None \<and> \<not> dr_reject_submits s' \<and> dr_update_mode s' = None
            then (Inr True, snd (clear_drain w1))
            else (Inr True, write_drain_state s' w1))"

text \<open>
  Releasing a lane is two sections, each under its own lock: the owner leases, then the document.
  \<open>others\<close> is what other processes write between them; the same argument appears wherever an operation
  gives up the lock between its read and its write.
\<close>

definition release_scheduler_host ::
  "drain_env \<Rightarrow> string \<Rightarrow> (drain_world \<Rightarrow> drain_world) \<Rightarrow> drain_world \<Rightarrow> (drain_error + bool) \<times> drain_world" where
  "release_scheduler_host env host others w =
     (case apply_scheduler_drain_lease_mutation env (no_mutation\<lparr>la_release_host := Some host\<rparr>) w of
        (Inl e, w1) \<Rightarrow> (Inl e, w1)
      | (Inr (_, _, released), w1) \<Rightarrow>
          (case release_legacy_scheduler_host env host None None (others w1) of
             (Inl e, w2) \<Rightarrow> (Inl e, w2)
           | (Inr changed, w2) \<Rightarrow> (Inr (released \<or> changed), w2)))"

text \<open>
  An operator's hold goes into the legacy document. \<open>read_drain_state\<close> and \<open>write_drain_state\<close> take the
  lock separately, so the document that is written is computed from what was read, not from what is there
  when it is written. \<open>add_lane\<close> is that computation, \<open>None\<close> when the lane is already held.
\<close>

definition add_lane :: "drain_env \<Rightarrow> string \<Rightarrow> string option \<Rightarrow> drain_state option \<Rightarrow> drain_state option" where
  "add_lane env host reason state = (case state of
      None \<Rightarrow> Some ((new_drain_state (de_utcnow env))\<lparr>dr_reason := reason, dr_scheduler_hosts := [host]\<rparr>)
    | Some s \<Rightarrow>
        if host \<in> set (dr_scheduler_hosts s) then None
        else Some (s\<lparr>dr_full_dispatch := (is_full_drain s \<or> dr_full_dispatch s),
               dr_scheduler_hosts := dr_scheduler_hosts s @ [host],
               dr_reason := (if reason \<noteq> None \<and> (dr_reason s = None \<or> dr_reason s = Some []) then reason
                             else dr_reason s)\<rparr>))"

text \<open>
  \<open>lease\<close> is what \<open>acquire_scheduler_drain_lease\<close> builds for a process-owned hold; an operator's
  hold passes none.
\<close>

definition add_scheduler_host ::
  "drain_env \<Rightarrow> string \<Rightarrow> string option \<Rightarrow> drain_lease option \<Rightarrow> (drain_world \<Rightarrow> drain_world) \<Rightarrow> drain_world \<Rightarrow>
   (drain_error + bool) \<times> drain_world" where
  "add_scheduler_host env host reason lease others w = (case lease of
      Some l \<Rightarrow> (case apply_scheduler_drain_lease_mutation env (no_mutation\<lparr>la_acquire := Some l\<rparr>) w of
          (Inl e, w1) \<Rightarrow> (Inl e, w1)
        | (Inr (_, _, changed), w1) \<Rightarrow> (Inr changed, w1))
    | None \<Rightarrow> (case read_drain_state env w of (state, w1) \<Rightarrow>
        (case add_lane env host reason state of
           None \<Rightarrow> (Inr False, w1)
         | Some s \<Rightarrow> (Inr True, write_drain_state s (others w1)))))"

definition drop_full_hold :: "drain_state \<Rightarrow> drain_world \<Rightarrow> drain_world" where
  "drop_full_hold s w = (let s' = expire_full_hold s in
     if dr_scheduler_hosts s' = [] \<and> dr_max_jobs s' = None \<and> dr_max_cpus s' = None
     then snd (clear_drain w) else write_drain_state s' w)"

definition release_full_drain ::
  "drain_env \<Rightarrow> (drain_world \<Rightarrow> drain_world) \<Rightarrow> drain_world \<Rightarrow> bool \<times> drain_world" where
  "release_full_drain env others w = (case read_drain_state env w of
      (None, w1) \<Rightarrow> (False, w1)
    | (Some s, w1) \<Rightarrow> if \<not> is_full_drain s then (False, w1) else (True, drop_full_hold s (others w1)))"

definition release_owned_full_drain ::
  "drain_env \<Rightarrow> string \<Rightarrow> string \<Rightarrow> drain_world \<Rightarrow> (drain_error + bool) \<times> drain_world" where
  "release_owned_full_drain env expected_reason expected_set_at w =
     (if blank expected_reason \<or> blank expected_set_at then (Inl DrainValueError, w)
      else case read_drain_state env w of
        (None, w1) \<Rightarrow> (Inr False, w1)
      | (Some s, w1) \<Rightarrow>
          if \<not> is_full_drain s then (Inr False, w1)
          else if dr_reason s \<noteq> Some expected_reason \<or> dr_set_at s \<noteq> expected_set_at
          then (Inl OwnedFullDrainReleaseError, w1)
          else (Inr True, drop_full_hold s w1))"

definition mode_label :: "drain_state \<Rightarrow> string" where
  "mode_label s =
     (if is_full_drain s \<and> dr_scheduler_hosts s \<noteq> [] then ''full+scheduler-target''
      else if dr_scheduler_hosts s \<noteq> [] \<and> (dr_max_jobs s \<noteq> None \<or> dr_max_cpus s \<noteq> None)
      then ''partial+scheduler-target''
      else if dr_scheduler_hosts s \<noteq> [] then ''scheduler-target''
      else if is_full_drain s then ''full'' else ''partial'')"

section \<open>Holds\<close>

text \<open>
  The abstract view of a policy: whether all dispatch is held, which scheduler lanes are held, and the
  caps on local work.
\<close>

definition held_full :: "drain_state option \<Rightarrow> bool" where
  "held_full d = (case d of None \<Rightarrow> False | Some s \<Rightarrow> is_full_drain s)"

definition held_lanes :: "drain_state option \<Rightarrow> string set" where
  "held_lanes d = (case d of None \<Rightarrow> {} | Some s \<Rightarrow> if dr_enabled s then set (dr_scheduler_hosts s) else {})"

definition held_caps :: "drain_state option \<Rightarrow> int option \<times> int option" where
  "held_caps d = (case d of None \<Rightarrow> (None, None)
     | Some s \<Rightarrow> if dr_enabled s then (dr_max_jobs s, dr_max_cpus s) else (None, None))"

lemma set_dedup [simp]: "set (dedup xs) = set xs"
  by (simp add: dedup_def)

lemma dedup_Nil_iff [simp]: "dedup xs = [] \<longleftrightarrow> xs = []"
  by (metis set_dedup set_empty)

lemma expire_full_hold_simps [simp]:
  "dr_enabled (expire_full_hold s) = dr_enabled s" "dr_scheduler_hosts (expire_full_hold s) = dr_scheduler_hosts s"
  "dr_max_jobs (expire_full_hold s) = dr_max_jobs s" "dr_max_cpus (expire_full_hold s) = dr_max_cpus s"
  "\<not> dr_full_dispatch (expire_full_hold s)" "dr_duration_seconds (expire_full_hold s) = None"
  by (simp_all add: expire_full_hold_def)

lemma new_drain_state_simps [simp]:
  "dr_enabled (new_drain_state t)" "dr_scheduler_hosts (new_drain_state t) = []"
  "dr_max_jobs (new_drain_state t) = None" "dr_max_cpus (new_drain_state t) = None"
  "\<not> dr_full_dispatch (new_drain_state t)"
  by (simp_all add: new_drain_state_def)

lemmas held_defs = held_full_def held_lanes_def held_caps_def is_full_drain_def

lemma compose_lanes:
  "held_lanes (compose_effective_drain_state legacy leases) = held_lanes legacy \<union> ls_scheduler_host ` set leases"
  by (cases legacy; cases leases)
    (auto simp: held_defs compose_effective_drain_state_def Let_def split: list.splits if_splits)

lemma compose_full: "held_full (compose_effective_drain_state legacy leases) = held_full legacy"
  by (cases legacy; cases leases)
    (auto simp: held_defs compose_effective_drain_state_def Let_def split: list.splits if_splits)

lemma compose_caps: "held_caps (compose_effective_drain_state legacy leases) = held_caps legacy"
  by (cases legacy; cases leases)
    (auto simp: held_defs compose_effective_drain_state_def Let_def split: list.splits if_splits)

section \<open>Who lifts a hold\<close>

text \<open>
  Processes share the two files. One locked section is one step; an operation that reads and writes in
  separate sections leaves the document it read with its process, in \<open>dm_pending\<close>, and a later
  \<open>OpFinish\<close> of that process writes it, whatever happened in between. A process that dies in the gap
  never finishes.
\<close>

datatype pending_write =
    PendingDocument drain_state
  | PendingDropFull drain_state

primrec pending_document :: "pending_write \<Rightarrow> drain_state" where
  "pending_document (PendingDocument s) = s"
| "pending_document (PendingDropFull s) = s"

record drain_machine =
  dm_world :: drain_world
  dm_pending :: "nat \<Rightarrow> pending_write option"

datatype drain_op =
    OpRead
  | OpWrite drain_state
  | OpClear
  | OpAdd nat string "string option"
  | OpReleaseFull nat
  | OpFinish nat
  | OpReleaseOwned string string
  | OpReleaseLegacy string "string option" "string option"
  | OpLease lease_args

definition put_world :: "drain_machine \<Rightarrow> drain_world \<Rightarrow> drain_machine" where
  "put_world m w = m\<lparr>dm_world := w\<rparr>"

definition leave :: "nat \<Rightarrow> pending_write option \<Rightarrow> drain_machine \<Rightarrow> drain_machine" where
  "leave p x m = m\<lparr>dm_pending := (dm_pending m)(p := x)\<rparr>"

definition finish_write :: "pending_write \<Rightarrow> drain_world \<Rightarrow> drain_world" where
  "finish_write x w = (case x of PendingDocument s \<Rightarrow> write_drain_state s w | PendingDropFull s \<Rightarrow> drop_full_hold s w)"

text \<open>The read sections of an operator's hold and of the release of a full drain.\<close>

definition read_for_add :: "drain_env \<Rightarrow> string \<Rightarrow> string option \<Rightarrow> drain_world \<Rightarrow> pending_write option \<times> drain_world" where
  "read_for_add env host reason w = (case read_drain_state env w of (state, w1) \<Rightarrow>
     (map_option PendingDocument (add_lane env host reason state), w1))"

definition read_for_release :: "drain_env \<Rightarrow> drain_world \<Rightarrow> pending_write option \<times> drain_world" where
  "read_for_release env w = (case read_drain_state env w of (state, w1) \<Rightarrow>
     (case state of None \<Rightarrow> None | Some s \<Rightarrow> if is_full_drain s then Some (PendingDropFull s) else None, w1))"

definition run_op :: "drain_env \<Rightarrow> drain_op \<Rightarrow> drain_machine \<Rightarrow> drain_machine" where
  "run_op env op m = (let w = dm_world m in case op of
      OpRead \<Rightarrow> put_world m (snd (read_effective_drain_state env w))
    | OpWrite s \<Rightarrow> put_world m (write_drain_state s w)
    | OpClear \<Rightarrow> put_world m (snd (clear_drain w))
    | OpAdd p h r \<Rightarrow> (case read_for_add env h r w of (x, w1) \<Rightarrow> leave p x (put_world m w1))
    | OpReleaseFull p \<Rightarrow> (case read_for_release env w of (x, w1) \<Rightarrow> leave p x (put_world m w1))
    | OpFinish p \<Rightarrow> (case dm_pending m p of None \<Rightarrow> m | Some x \<Rightarrow> leave p None (put_world m (finish_write x w)))
    | OpReleaseOwned r t \<Rightarrow> put_world m (snd (release_owned_full_drain env r t w))
    | OpReleaseLegacy h r t \<Rightarrow> put_world m (snd (release_legacy_scheduler_host env h r t w))
    | OpLease args \<Rightarrow> put_world m (snd (apply_scheduler_drain_lease_mutation env args w)))"

definition run_ops :: "(drain_env \<times> drain_op) list \<Rightarrow> drain_machine \<Rightarrow> drain_machine" where
  "run_ops ops m = fold (\<lambda>(env, op). run_op env op) ops m"

lemmas machine_defs = put_world_def leave_def finish_write_def read_for_add_def read_for_release_def

text \<open>
  The operations of the code are runs of these steps: the read section, whatever the others do to the
  world, the write section of the same process.
\<close>

lemma release_full_drain_sections:
  "snd (release_full_drain env others w)
     = (let m = run_op env (OpReleaseFull p) \<lparr>dm_world = w, dm_pending = pend\<rparr> in
        if dm_pending m p = None then dm_world m
        else dm_world (run_op env (OpFinish p) (put_world m (others (dm_world m)))))"
  by (simp add: release_full_drain_def run_op_def machine_defs Let_def split: prod.splits option.splits)

lemma add_scheduler_host_sections:
  "snd (add_scheduler_host env h r None others w)
     = (let m = run_op env (OpAdd p h r) \<lparr>dm_world = w, dm_pending = pend\<rparr> in
        if dm_pending m p = None then dm_world m
        else dm_world (run_op env (OpFinish p) (put_world m (others (dm_world m)))))"
  by (simp add: add_scheduler_host_def run_op_def machine_defs Let_def split: prod.splits option.splits)

lemma add_scheduler_host_lease:
  "snd (add_scheduler_host env h r (Some l) others w)
     = snd (apply_scheduler_drain_lease_mutation env (no_mutation\<lparr>la_acquire := Some l\<rparr>) w)"
  by (simp add: add_scheduler_host_def split: prod.splits sum.splits)

lemma release_scheduler_host_sections:
  "snd (release_scheduler_host env h others w)
     = (case apply_scheduler_drain_lease_mutation env (no_mutation\<lparr>la_release_host := Some h\<rparr>) w of
          (Inl e, w1) \<Rightarrow> w1
        | (Inr _, w1) \<Rightarrow> snd (release_legacy_scheduler_host env h None None (others w1)))"
  by (simp add: release_scheduler_host_def split: prod.splits sum.splits)

text \<open>A lane is held by the legacy document or by a stored lease.\<close>

datatype lane_hold = LegacyHold string | LeaseHold drain_lease

primrec hold_host :: "lane_hold \<Rightarrow> string" where
  "hold_host (LegacyHold h) = h"
| "hold_host (LeaseHold l) = ls_scheduler_host l"

primrec holds :: "lane_hold \<Rightarrow> drain_world \<Rightarrow> bool" where
  "holds (LegacyHold h) w = (\<exists>s. dw_file w = Some (DrainFile s) \<and> dr_enabled s \<and> h \<in> set (dr_scheduler_hosts s))"
| "holds (LeaseHold l) w = (\<exists>ls. dw_leases w = LeaseStore ls \<and> l \<in> set ls)"

text \<open>
  A hold in the document is also at the mercy of a process that read the document before the hold was
  taken and has yet to write: \<open>in_flight_knows\<close> says that there is none. A lease has no such reader.
\<close>

primrec in_flight_knows :: "lane_hold \<Rightarrow> (nat \<Rightarrow> pending_write option) \<Rightarrow> bool" where
  "in_flight_knows (LegacyHold h) pend = (\<forall>p x. pend p = Some x \<longrightarrow>
     dr_enabled (pending_document x) \<and> h \<in> set (dr_scheduler_hosts (pending_document x)))"
| "in_flight_knows (LeaseHold l) pend = True"

definition holds_on :: "lane_hold \<Rightarrow> drain_machine \<Rightarrow> bool" where
  "holds_on k m \<longleftrightarrow> holds k (dm_world m) \<and> in_flight_knows k (dm_pending m)"

text \<open>The operations that ask for this hold to be lifted.\<close>

definition mutation_lifts :: "drain_lease \<Rightarrow> lease_args \<Rightarrow> bool" where
  "mutation_lifts l args \<longleftrightarrow> la_release_id args = Some (ls_lease_id l)
     \<or> la_release_host args = Some (ls_scheduler_host l) \<and> la_release_owner args \<in> {None, Some (ls_owner l)}
     \<or> la_release_all args"

primrec lifts :: "lane_hold \<Rightarrow> drain_op \<Rightarrow> bool" where
  "lifts (LegacyHold h) op = (case op of
      OpWrite _ \<Rightarrow> True | OpClear \<Rightarrow> True | OpReleaseLegacy h' _ _ \<Rightarrow> h' = h | _ \<Rightarrow> False)"
| "lifts (LeaseHold l) op = (case op of OpLease args \<Rightarrow> mutation_lifts l args | _ \<Rightarrow> False)"

lemma read_keeps_leases [simp]: "dw_leases (snd (read_drain_state env w)) = dw_leases w"
  by (simp add: read_drain_state_def split: option.splits drain_file.splits)

lemma read_Some:
  assumes "read_drain_state env w = (Some s, w1)"
  shows "dw_file w1 = Some (DrainFile s) \<and> dw_leases w1 = dw_leases w
    \<and> (\<exists>s0. dw_file w = Some (DrainFile s0) \<and> (s = s0 \<or> s = expire_full_hold s0))"
  using assms by (auto simp: read_drain_state_def split: option.splits drain_file.splits if_splits)

lemma read_legacy_hold:
  assumes "holds (LegacyHold h) w"
  shows "\<exists>s w1. read_drain_state env w = (Some s, w1) \<and> dr_enabled s \<and> h \<in> set (dr_scheduler_hosts s)
    \<and> holds (LegacyHold h) w1"
  using assms by (auto simp: read_drain_state_def)

lemma mutation_keeps_file [simp]: "dw_file (snd (apply_scheduler_drain_lease_mutation env args w)) = dw_file w"
  by (simp add: apply_scheduler_drain_lease_mutation_def split: sum.splits prod.splits)

lemma find_claim_stored: "find_claim a ls = Inr (Some l) \<Longrightarrow> l \<in> set ls"
  by (induction ls) (auto split: if_splits)

lemma mutate_leases_keeps:
  assumes "lease_mutation_of args = Inr m" "\<not> mutation_lifts l args" "l \<in> set ls"
    "mutate_leases m ls = Inr (ls', acquired, changed)"
  shows "l \<in> set ls'"
  using assms
  by (auto simp: lease_mutation_of_def mutate_leases_def mutation_lifts_def retain_def Let_def
      split: option.splits bool.splits if_splits lease_mutation.splits)

lemma mutation_keeps_lease:
  assumes "holds (LeaseHold l) w" "\<not> mutation_lifts l args"
  shows "holds (LeaseHold l) (snd (apply_scheduler_drain_lease_mutation env args w))"
  using assms mutate_leases_keeps [OF _ assms(2)]
  by (auto simp: apply_scheduler_drain_lease_mutation_def sort_leases_def read_scheduler_drain_leases_def
      split: sum.splits prod.splits if_splits)

lemma legacy_ops_keep_leases [simp]:
  "dw_leases (snd (release_owned_full_drain env r t w)) = dw_leases w"
  "dw_leases (snd (release_legacy_scheduler_host env h er et w)) = dw_leases w"
  "dw_leases (snd (read_effective_drain_state env w)) = dw_leases w"
  "dw_leases (snd (read_for_add env h reason w)) = dw_leases w"
  "dw_leases (snd (read_for_release env w)) = dw_leases w"
  "dw_leases (finish_write x w) = dw_leases w"
  using read_keeps_leases [of env w]
  by (auto simp: release_owned_full_drain_def release_legacy_scheduler_host_def read_for_add_def read_for_release_def
      finish_write_def drop_full_hold_def clear_drain_def write_drain_state_def Let_def read_effective_drain_state_def
      read_effective_drain_snapshot_def simp del: read_keeps_leases
      split: prod.splits option.splits sum.splits pending_write.splits)

lemma drop_full_hold_legacy: "dr_enabled s \<Longrightarrow> h \<in> set (dr_scheduler_hosts s) \<Longrightarrow> holds (LegacyHold h) (drop_full_hold s w)"
  by (auto simp: drop_full_hold_def Let_def write_drain_state_def)

lemma release_legacy_other:
  assumes "holds (LegacyHold h) w" "h' \<noteq> h"
  shows "holds (LegacyHold h) (snd (release_legacy_scheduler_host env h' r t w))"
proof -
  obtain s w1 where s: "read_drain_state env w = (Some s, w1)" "dr_enabled s" "h \<in> set (dr_scheduler_hosts s)"
    "holds (LegacyHold h) w1" using read_legacy_hold [OF assms(1)] by blast
  then have "filter (\<lambda>x. x \<noteq> h') (dr_scheduler_hosts s) \<noteq> []" using assms(2) by (auto simp: filter_empty_conv)
  with s assms(2) show ?thesis
    by (auto simp: release_legacy_scheduler_host_def Let_def write_drain_state_def)
qed

lemma finish_write_legacy:
  "dr_enabled (pending_document x) \<Longrightarrow> h \<in> set (dr_scheduler_hosts (pending_document x))
     \<Longrightarrow> holds (LegacyHold h) (finish_write x w)"
  using drop_full_hold_legacy by (cases x) (auto simp: finish_write_def write_drain_state_def)

lemma read_for_legacy:
  assumes "holds (LegacyHold h) w"
  shows "holds (LegacyHold h) (snd (read_for_add env h' r w))" "holds (LegacyHold h) (snd (read_for_release env w))"
    "fst (read_for_add env h' r w) = Some x \<or> fst (read_for_release env w) = Some x \<Longrightarrow>
       dr_enabled (pending_document x) \<and> h \<in> set (dr_scheduler_hosts (pending_document x))"
proof -
  obtain s w1 where "read_drain_state env w = (Some s, w1)" "dr_enabled s" "h \<in> set (dr_scheduler_hosts s)"
    "holds (LegacyHold h) w1" using read_legacy_hold [OF assms] by blast
  then show "holds (LegacyHold h) (snd (read_for_add env h' r w))" "holds (LegacyHold h) (snd (read_for_release env w))"
    "fst (read_for_add env h' r w) = Some x \<or> fst (read_for_release env w) = Some x \<Longrightarrow>
       dr_enabled (pending_document x) \<and> h \<in> set (dr_scheduler_hosts (pending_document x))"
    by (auto simp: read_for_add_def read_for_release_def add_lane_def split: if_splits)
qed

lemma run_op_keeps_legacy:
  assumes "holds_on (LegacyHold h) m" "\<not> lifts (LegacyHold h) op"
  shows "holds_on (LegacyHold h) (run_op env op m)"
proof -
  let ?w = "dm_world m"
  have w: "holds (LegacyHold h) ?w" and kn: "in_flight_knows (LegacyHold h) (dm_pending m)"
    using assms(1) by (simp_all only: holds_on_def)
  obtain s w1 where rd: "read_drain_state env ?w = (Some s, w1)" "dr_enabled s" "h \<in> set (dr_scheduler_hosts s)"
    "holds (LegacyHold h) w1" using read_legacy_hold [OF w] by blast
  show ?thesis
  proof (cases op)
    case OpRead
    with rd kn show ?thesis
      by (auto simp: holds_on_def run_op_def put_world_def read_effective_drain_state_def
          read_effective_drain_snapshot_def Let_def split: sum.splits)
  next
    case (OpAdd p h' r)
    then show ?thesis using read_for_legacy(1) [OF w, of env h' r] read_for_legacy(3) [OF w, of env h' r] kn
      by (auto simp: holds_on_def run_op_def put_world_def leave_def Let_def simp del: holds.simps split: prod.splits)
  next
    case (OpReleaseFull p)
    then show ?thesis using read_for_legacy(2) [OF w, of env] read_for_legacy(3) [OF w, of env] kn
      by (auto simp: holds_on_def run_op_def put_world_def leave_def Let_def simp del: holds.simps split: prod.splits)
  next
    case (OpFinish p)
    then show ?thesis using w kn finish_write_legacy [of _ h ?w]
      by (auto simp: holds_on_def run_op_def put_world_def leave_def Let_def simp del: holds.simps split: option.splits)
  next
    case OpReleaseOwned
    with rd w kn drop_full_hold_legacy show ?thesis
      by (auto simp: holds_on_def run_op_def put_world_def Let_def release_owned_full_drain_def)
  next
    case OpReleaseLegacy
    with assms(2) kn release_legacy_other [OF w] show ?thesis
      by (auto simp: holds_on_def run_op_def put_world_def Let_def simp del: holds.simps)
  next
    case OpLease
    with w kn show ?thesis by (auto simp: holds_on_def run_op_def put_world_def Let_def)
  qed (use assms(2) in auto)
qed

lemma run_op_keeps_lease:
  assumes "holds_on (LeaseHold l) m" "\<not> lifts (LeaseHold l) op"
  shows "holds_on (LeaseHold l) (run_op env op m)"
proof (cases op)
  case (OpLease args)
  with assms show ?thesis using mutation_keeps_lease [of l "dm_world m" args env]
    by (simp add: holds_on_def run_op_def put_world_def Let_def del: holds.simps)
next
  case (OpAdd p h r)
  then show ?thesis using assms(1) legacy_ops_keep_leases(4) [of env h r "dm_world m"]
    by (auto simp: holds_on_def run_op_def machine_defs Let_def simp del: legacy_ops_keep_leases split: prod.splits)
next
  case (OpReleaseFull p)
  then show ?thesis using assms(1) legacy_ops_keep_leases(5) [of env "dm_world m"]
    by (auto simp: holds_on_def run_op_def machine_defs Let_def simp del: legacy_ops_keep_leases split: prod.splits)
next
  case (OpFinish p)
  then show ?thesis using assms(1)
    by (auto simp: holds_on_def run_op_def put_world_def leave_def Let_def split: option.splits)
qed (use assms(1) in \<open>auto simp: holds_on_def run_op_def put_world_def Let_def write_drain_state_def clear_drain_def\<close>)

lemma run_op_keeps:
  assumes "holds_on k m" "\<not> lifts k op"
  shows "holds_on k (run_op env op m)"
  using assms run_op_keeps_legacy run_op_keeps_lease by (cases k) blast+

text \<open>
  The interface a client of the policy relies on: an operation that was not asked to lift a hold keeps
  it. It is stated over any state and any way to hold it.
\<close>

locale hold_keeper =
  fixes step :: "'e \<Rightarrow> 'o \<Rightarrow> 'w \<Rightarrow> 'w"
    and held :: "'k \<Rightarrow> 'w \<Rightarrow> bool"
    and lifted :: "'k \<Rightarrow> 'o \<Rightarrow> bool"
  assumes step_keeps: "held k w \<Longrightarrow> \<not> lifted k op \<Longrightarrow> held k (step env op w)"
begin

lemma run_keeps:
  "held k w \<Longrightarrow> list_all (\<lambda>(env, op). \<not> lifted k op) ops \<Longrightarrow> held k (fold (\<lambda>(env, op). step env op) ops w)"
  by (induction ops arbitrary: w) (auto simp: step_keeps)

end

interpretation lanes: hold_keeper run_op holds_on lifts
  by unfold_locales (rule run_op_keeps)

lemma effective_holds:
  assumes "holds k w" "hold_host k \<noteq> []"
  shows "\<exists>s. fst (read_effective_drain_state env w) = Some s
    \<and> (is_full_drain s \<or> drains_scheduler_target s (Some (hold_host k)))"
proof -
  obtain raw w1 where rd: "read_drain_state env w = (raw, w1)" by force
  have lw: "dw_leases w1 = dw_leases w" using read_keeps_leases [of env w] rd by simp
  define legacy where "legacy = (case raw of Some s \<Rightarrow> if dr_enabled s then Some s else None | None \<Rightarrow> None)"
  have lg: "hold_host k \<in> held_lanes legacy" if "k = LegacyHold h" for h
    using read_legacy_hold [of h w env] assms(1) that rd by (auto simp: legacy_def held_lanes_def)
  show ?thesis
  proof (cases "read_scheduler_drain_leases w1")
    case (Inl detail)
    then show ?thesis
      by (auto simp: read_effective_drain_state_def read_effective_drain_snapshot_def rd legacy_def
          unreadable_hold_def is_full_drain_def Let_def)
  next
    case (Inr leases)
    have "hold_host k \<in> held_lanes (compose_effective_drain_state legacy leases)"
    proof (cases k)
      case (LegacyHold h)
      then show ?thesis using lg compose_lanes by simp
    next
      case (LeaseHold l)
      with assms(1) Inr lw have "l \<in> set leases"
        by (auto simp: read_scheduler_drain_leases_def split: if_splits)
      with LeaseHold show ?thesis using compose_lanes by auto
    qed
    then show ?thesis using assms(2) Inr
      by (auto simp: read_effective_drain_state_def read_effective_drain_snapshot_def rd legacy_def Let_def
          held_lanes_def drains_scheduler_target_def split: option.splits if_splits)
  qed
qed

section \<open>Properties\<close>

text \<open>
  the policy the dispatch loop reads is the union of the legacy document and the leases. The lanes
  held are those of an enabled document and those of every lease; all dispatch is held exactly when
  an enabled document holds it, so a lease neither lifts a full hold nor creates one; and the caps on
  local work are the document's.
\<close>

theorem compose_effective_union:
  "held_lanes (compose_effective_drain_state legacy leases) = held_lanes legacy \<union> ls_scheduler_host ` set leases
   \<and> held_full (compose_effective_drain_state legacy leases) = held_full legacy
   \<and> held_caps (compose_effective_drain_state legacy leases) = held_caps legacy"
  by (simp add: compose_lanes compose_full compose_caps)


definition sample_drain_env :: drain_env where
  "sample_drain_env = \<lparr>de_iso = (\<lambda>_. IsoAware 0), de_now_naive = 0, de_now_aware = 7200000000,
     de_utcnow = ''2026-01-01T00:00:00+00:00'', de_store_fits = (\<lambda>_. True)\<rparr>"

definition sample_lease :: "string \<Rightarrow> string \<Rightarrow> drain_lease" where
  "sample_lease i h = \<lparr>ls_lease_id = i, ls_scheduler_host = h, ls_owner = ''rollout:'' @ i, ls_set_at = ''2026'',
     ls_reason = None, ls_owner_pid = None, ls_owner_pid_start_time = 0\<rparr>"

definition sample_drain_world :: drain_world where
  "sample_drain_world = \<lparr>dw_file = Some (DrainFile ((new_drain_state ''2026'')
     \<lparr>dr_scheduler_hosts := [''pbs''], dr_full_dispatch := True, dr_duration_seconds := Some 3600\<rparr>)),
     dw_leases = LeaseStore [sample_lease ''a'' ''slurm'']\<rparr>"


text \<open>
  Without the proviso of that theorem the hold is lost. A full drain is being released: the release has
  read the document and not yet written it. An operator's hold of a lane completes in between, and its
  caller is told that the lane is held. The release then removes the document, hold and all. The same
  happens with two operators' holds: the later write drops the earlier lane.
\<close>

definition full_drain_world :: drain_world where
  "full_drain_world = \<lparr>dw_file = Some (DrainFile ((new_drain_state ''2026'')\<lparr>dr_full_dispatch := True\<rparr>)),
     dw_leases = LeaseStore []\<rparr>"

lemma stale_release_erases_lane:
  "let hold = (\<lambda>w. add_scheduler_host sample_drain_env ''pbs'' None None id w);
       (res, w') = release_full_drain sample_drain_env (\<lambda>w. snd (hold w)) full_drain_world in
   res \<and> fst (hold full_drain_world) = Inr True
     \<and> holds (LegacyHold ''pbs'') (snd (hold full_drain_world))
     \<and> fst (read_effective_drain_state sample_drain_env w') = None"
  by (simp add: add_scheduler_host_def release_full_drain_def full_drain_world_def read_drain_state_def add_lane_def
      drop_full_hold_def clear_drain_def write_drain_state_def is_full_drain_def new_drain_state_def expire_full_hold_def
      read_effective_drain_state_def read_effective_drain_snapshot_def read_scheduler_drain_leases_def
      compose_effective_drain_state_def sample_drain_env_def drain_expired_def Let_def)

lemma stale_add_erases_lane:
  "let w0 = \<lparr>dw_file = None, dw_leases = LeaseStore []\<rparr>;
       (res, w') = add_scheduler_host sample_drain_env ''slurm'' None None
         (\<lambda>w. snd (add_scheduler_host sample_drain_env ''pbs'' None None id w)) w0 in
   res = Inr True \<and> held_lanes (fst (read_effective_drain_state sample_drain_env w')) = {''slurm''}"
  by code_simp

text \<open>The document \<open>f\<close> that is left when only the full hold of \<open>s\<close> is dropped.\<close>

definition full_hold_dropped :: "drain_state \<Rightarrow> drain_file option \<Rightarrow> bool" where
  "full_hold_dropped s f = (case f of
      None \<Rightarrow> dr_scheduler_hosts s = [] \<and> dr_max_jobs s = None \<and> dr_max_cpus s = None
    | Some CorruptDrain \<Rightarrow> False
    | Some (DrainFile s') \<Rightarrow> \<not> is_full_drain s' \<and> dr_scheduler_hosts s' = dr_scheduler_hosts s
        \<and> dr_max_jobs s' = dr_max_jobs s \<and> dr_max_cpus s' = dr_max_cpus s)"

lemma drop_full_hold_effect: "full_hold_dropped s (dw_file (drop_full_hold s w))"
  by (auto simp: full_hold_dropped_def drop_full_hold_def clear_drain_def write_drain_state_def Let_def is_full_drain_def)

text \<open>
  releasing a full drain on behalf of its recorded owner never lifts another one. It succeeds only on
  a full hold with exactly the recorded reason and time; afterwards the document holds no full drain
  while its lanes and its caps are as before. On a refusal or when there is no full hold nothing changes
  beyond the expiry that reading applies, and the leases are never touched.
\<close>

theorem release_owned_full_drain_exact:
  assumes "release_owned_full_drain env reason set_at w = (res, w')"
  shows "dw_leases w' = dw_leases w
    \<and> (res \<noteq> Inr True \<longrightarrow> w' = w \<or> w' = snd (read_drain_state env w))
    \<and> (res = Inr True \<longrightarrow> (\<exists>s. fst (read_drain_state env w) = Some s \<and> is_full_drain s
          \<and> dr_reason s = Some reason \<and> dr_set_at s = set_at
          \<and> full_hold_dropped s (dw_file w')))"
  using assms legacy_ops_keep_leases(1) [of env reason set_at w] drop_full_hold_effect
  by (auto simp: release_owned_full_drain_def split: if_splits prod.splits option.splits)

theorem release_owned_full_drain_exact_witness:
  "\<exists>s. fst (read_drain_state sample_drain_env \<lparr>dw_file = Some (DrainFile ((new_drain_state ''2026'')
       \<lparr>dr_reason := Some ''rollout'', dr_max_jobs := Some 2, dr_full_dispatch := True\<rparr>)), dw_leases = LeaseStore []\<rparr>) = Some s
     \<and> dr_reason s = Some ''rollout''"
proof -
  let ?w = "\<lparr>dw_file = Some (DrainFile ((new_drain_state ''2026'')
       \<lparr>dr_reason := Some ''rollout'', dr_max_jobs := Some 2, dr_full_dispatch := True\<rparr>)), dw_leases = LeaseStore []\<rparr>"
  have "fst (release_owned_full_drain sample_drain_env ''rollout'' ''2026'' ?w) = Inr True" by code_simp
  then obtain w' where w': "release_owned_full_drain sample_drain_env ''rollout'' ''2026'' ?w = (Inr True, w')"
    by (metis prod.collapse)
  show ?thesis using release_owned_full_drain_exact [OF w'] by blast
qed

text \<open>
  The store of leases stays well formed: ids and (host, owner) claims stay unique under every mutation.
\<close>

definition leases_wf :: "drain_lease list \<Rightarrow> bool" where
  "leases_wf ls \<longleftrightarrow> distinct (map ls_lease_id ls) \<and> distinct (map (\<lambda>l. (ls_scheduler_host l, ls_owner l)) ls)"

lemma find_claim_None:
  "find_claim a ls = Inr None \<Longrightarrow> l \<in> set ls \<Longrightarrow>
     ls_lease_id l \<noteq> ls_lease_id a \<and> (ls_scheduler_host l, ls_owner l) \<noteq> (ls_scheduler_host a, ls_owner a)"
  by (induction ls) (auto split: if_splits)

lemma leases_wf_filter: "leases_wf ls \<Longrightarrow> leases_wf (filter P ls)"
  by (simp add: leases_wf_def distinct_map_filter)

lemma leases_wf_sort [simp]: "leases_wf (sort_leases ls) \<longleftrightarrow> leases_wf ls"
  by (simp add: leases_wf_def sort_leases_def distinct_map)

lemma filter_length_eq: "length (filter P xs) = length xs \<Longrightarrow> filter P xs = xs"
  by (metis filter_True length_filter_less less_irrefl)

lemma mutate_leases_wf:
  assumes "leases_wf ls" "mutate_leases m ls = Inr (ls', acquired, changed)"
  shows "leases_wf ls' \<and> (\<not> changed \<longrightarrow> ls' = ls)"
proof (cases m)
  case (Acquire a)
  with assms show ?thesis using find_claim_None [of a ls]
    by (fastforce simp: mutate_leases_def leases_wf_def split: option.splits)
next
  case (ReleaseId i)
  with assms show ?thesis by (auto simp: mutate_leases_def retain_def Let_def leases_wf_filter filter_length_eq)
next
  case (ReleaseHost h w)
  with assms show ?thesis by (auto simp: mutate_leases_def retain_def Let_def leases_wf_filter filter_length_eq)
next
  case ReleaseAll
  with assms show ?thesis by (auto simp: mutate_leases_def leases_wf_def)
qed

lemma read_leases_Inr: "read_scheduler_drain_leases w = Inr ls \<longleftrightarrow> dw_leases w = LeaseStore ls \<and> leases_wf ls"
  by (auto simp: read_scheduler_drain_leases_def leases_wf_def split: lease_store.splits)

lemma find_claim_self: "leases_wf ls \<Longrightarrow> a \<in> set ls \<Longrightarrow> find_claim a ls = Inr (Some a)"
proof (induction ls)
  case (Cons l ls)
  then have "ls_lease_id l = ls_lease_id a \<Longrightarrow> l = a"
    "ls_scheduler_host l = ls_scheduler_host a \<and> ls_owner l = ls_owner a \<Longrightarrow> l = a"
    by (auto simp: leases_wf_def rev_image_eqI)
  with Cons show ?case by (auto simp: leases_wf_def)
qed simp

lemma find_claim_binding:
  "find_claim a ls = Inr (Some l) \<Longrightarrow> ls_scheduler_host l = ls_scheduler_host a \<and> ls_owner l = ls_owner a"
  by (induction ls) (auto split: if_splits)

lemma apply_mutation_Inr:
  assumes "apply_scheduler_drain_lease_mutation env args w = (Inr (ls', acquired, changed), w')"
  obtains m ls ls1 where "lease_mutation_of args = Inr m" "dw_leases w = LeaseStore ls" "leases_wf ls"
    "mutate_leases m ls = Inr (ls1, acquired, changed)"
    "if changed then ls' = sort_leases ls1 \<and> w' = w\<lparr>dw_leases := LeaseStore ls'\<rparr> else ls' = ls \<and> w' = w"
proof -
  obtain m ls ls1 acq ch where m: "lease_mutation_of args = Inr m" "read_scheduler_drain_leases w = Inr ls"
    "mutate_leases m ls = Inr (ls1, acq, ch)"
    using assms by (cases "lease_mutation_of args"; cases "read_scheduler_drain_leases w")
      (auto simp: apply_scheduler_drain_lease_mutation_def split: sum.splits prod.splits)
  moreover have "acq = acquired \<and> ch = changed
      \<and> (if changed then ls' = sort_leases ls1 \<and> w' = w\<lparr>dw_leases := LeaseStore ls'\<rparr> else ls' = ls1 \<and> w' = w)"
    using assms m by (auto simp: apply_scheduler_drain_lease_mutation_def split: if_splits)
  ultimately show thesis
    using that mutate_leases_wf [of ls m ls1 acq ch] by (auto simp: read_leases_Inr split: if_splits)
qed

lemma lease_mutation_acquire:
  "lease_mutation_of args = Inr m \<Longrightarrow> la_acquire args = Some a \<Longrightarrow> m = Acquire a"
  by (auto simp: lease_mutation_of_def split: if_splits option.splits bool.splits)

text \<open>
  The lease store stays well formed and acquiring is idempotent. A mutation of a readable store
  leaves a readable one, in which lease ids and (host, owner) claims are unique, and one that reports
  no change wrote nothing. An acquired claim is stored for the asked host and owner, and a retry of the
  same request, whose answer was lost, finds that claim again and changes nothing.
\<close>

theorem lease_mutation_idempotent:
  assumes "apply_scheduler_drain_lease_mutation env args w = (Inr (ls', acquired, changed), w')"
  shows "read_scheduler_drain_leases w' = Inr ls' \<and> (\<not> changed \<longrightarrow> w' = w)
    \<and> (\<forall>a. la_acquire args = Some a \<longrightarrow>
         (\<exists>l \<in> set ls'. acquired = Some l \<and> ls_scheduler_host l = ls_scheduler_host a \<and> ls_owner l = ls_owner a
            \<and> apply_scheduler_drain_lease_mutation env args w' = (Inr (ls', Some l, False), w')))"
proof (rule apply_mutation_Inr [OF assms])
  fix m ls ls1
  assume m: "lease_mutation_of args = Inr m" and ls: "dw_leases w = LeaseStore ls" "leases_wf ls"
    and mu: "mutate_leases m ls = Inr (ls1, acquired, changed)"
    and res: "if changed then ls' = sort_leases ls1 \<and> w' = w\<lparr>dw_leases := LeaseStore ls'\<rparr> else ls' = ls \<and> w' = w"
  have rd: "read_scheduler_drain_leases w' = Inr ls'"
    using mutate_leases_wf [OF ls(2) mu] res ls by (auto simp: read_leases_Inr split: if_splits)
  have "\<exists>l \<in> set ls'. acquired = Some l \<and> ls_scheduler_host l = ls_scheduler_host a \<and> ls_owner l = ls_owner a
     \<and> apply_scheduler_drain_lease_mutation env args w' = (Inr (ls', Some l, False), w')"
    if a: "la_acquire args = Some a" for a
  proof -
    have ma: "m = Acquire a" by (rule lease_mutation_acquire [OF m a])
    obtain l where l: "find_claim a ls' = Inr (Some l)" "acquired = Some l"
    proof (cases changed)
      case True
      then have "acquired = Some a" "ls1 = ls @ [a]" using mu ma by (auto simp: mutate_leases_def split: option.splits)
      moreover have "leases_wf ls'" using rd by (simp add: read_leases_Inr)
      ultimately show thesis using that find_claim_self [of ls' a] True res by (simp add: sort_leases_def)
    next
      case False
      then show thesis using that mu ma res by (auto simp: mutate_leases_def split: option.splits)
    qed
    have "apply_scheduler_drain_lease_mutation env args w' = (Inr (ls', Some l, False), w')"
      using m ma rd l(1) by (simp add: apply_scheduler_drain_lease_mutation_def mutate_leases_def)
    then show ?thesis using l find_claim_stored [OF l(1)] find_claim_binding [OF l(1)] by blast
  qed
  with rd res show ?thesis by (auto split: if_splits)
qed

theorem lease_mutation_idempotent_witness:
  "apply_scheduler_drain_lease_mutation sample_drain_env (no_mutation\<lparr>la_acquire := Some (sample_lease ''b'' ''pbs'')\<rparr>)
     (sample_drain_world\<lparr>dw_leases := LeaseStore [sample_lease ''b'' ''pbs'', sample_lease ''a'' ''slurm'']\<rparr>)
   = (Inr ([sample_lease ''b'' ''pbs'', sample_lease ''a'' ''slurm''], Some (sample_lease ''b'' ''pbs''), False),
      sample_drain_world\<lparr>dw_leases := LeaseStore [sample_lease ''b'' ''pbs'', sample_lease ''a'' ''slurm'']\<rparr>)"
proof -
  have "apply_scheduler_drain_lease_mutation sample_drain_env (no_mutation\<lparr>la_acquire := Some (sample_lease ''b'' ''pbs'')\<rparr>)
     sample_drain_world = (Inr ([sample_lease ''b'' ''pbs'', sample_lease ''a'' ''slurm''], Some (sample_lease ''b'' ''pbs''), True),
      sample_drain_world\<lparr>dw_leases := LeaseStore [sample_lease ''b'' ''pbs'', sample_lease ''a'' ''slurm'']\<rparr>)"
    by code_simp
  from lease_mutation_idempotent [OF this] show ?thesis by auto
qed

text \<open>
  Releasing the last lane of a document that denies submissions, without caps and without the
  explicit full hold, turns it into a full drain: the emptied list of lanes reads as one.
\<close>

lemma release_last_lane_holds_everything:
  "let s = (new_drain_state ''2026'')\<lparr>dr_scheduler_hosts := [''pbs''], dr_reject_submits := True\<rparr>;
       w = \<lparr>dw_file = Some (DrainFile s), dw_leases = LeaseStore []\<rparr>;
       (res, w') = release_legacy_scheduler_host sample_drain_env ''pbs'' None None w in
   \<not> held_full (Some s) \<and> res = Inr True \<and> held_full (fst (read_drain_state sample_drain_env w'))"
  by code_simp

text \<open>Adding a lane to a disabled document reports success but holds nothing.\<close>

lemma add_lane_to_disabled_document:
  "let w = \<lparr>dw_file = Some (DrainFile ((new_drain_state ''2026'')\<lparr>dr_enabled := False\<rparr>)), dw_leases = LeaseStore []\<rparr>;
       (res, w') = add_scheduler_host sample_drain_env ''pbs'' None None id w in
   res = Inr True \<and> fst (read_effective_drain_state sample_drain_env w') = None"
  by code_simp

end
