(* ===== verification/Job_Queue.thy ===== *)
theory Job_Queue
  imports Job_Spec
begin

text \<open>
  The daemon's transitions of queued jobs: the dependency gate (\<open>admission.py\<close>), the cascade that
  fails dependents of a failed job, the failure of impossible and of unbuildable requests, the finish of
  a run and the retry with backoff (\<open>daemon.py\<close>).

  The state is the queue directory: \<open>qw_disk\<close> maps a job id to its spec file (a file that cannot be
  read is absent) and \<open>qw_events\<close> is the log of state transitions. Each operation holds the spec's lock
  from its re-read to its write, so it is one step. What other code does is a parameter: whether the
  atomic write of a spec succeeds, whether the idempotency claim and the scheduler binding could be made
  durable, the stderr tail and the clock.
\<close>

section \<open>State\<close>

type_synonym specs = "(string \<times> job_spec) list"

record queue_world =
  qw_disk :: specs
  qw_events :: "(string \<times> job_state \<times> job_state) list"

record queue_env =
  qe_write_ok :: "string \<Rightarrow> bool"
  qe_claim_ok :: "job_spec \<Rightarrow> bool"
  qe_close_ok :: "job_spec \<Rightarrow> bool"
  qe_stderr_tail :: "job_spec \<Rightarrow> string"
  qe_now :: int \<comment> \<open>\<open>datetime.now(UTC)\<close> in microseconds\<close>

definition utcnow_iso :: "queue_env \<Rightarrow> iso_stamp" where
  "utcnow_iso env = IsoAware (qe_now env)"

definition write_spec :: "job_spec \<Rightarrow> string \<Rightarrow> queue_world \<Rightarrow> queue_world" where
  "write_spec s jobid w = w\<lparr>qw_disk := AList.update jobid s (qw_disk w)\<rparr>"

definition log_transition :: "string \<Rightarrow> job_state \<Rightarrow> job_state \<Rightarrow> queue_world \<Rightarrow> queue_world" where
  "log_transition jobid a b w = w\<lparr>qw_events := qw_events w @ [(jobid, a, b)]\<rparr>"

section \<open>Failing a pending job\<close>

text \<open>
  The locked re-read and write that the three callers share: only a job that is still \<open>PENDING\<close> on disk
  is failed; \<open>None\<close> when it was not.
\<close>

definition fail_pending ::
  "queue_env \<Rightarrow> (job_spec \<Rightarrow> job_spec) \<Rightarrow> string \<Rightarrow> string \<Rightarrow> queue_world \<Rightarrow> job_spec option \<times> queue_world" where
  "fail_pending env clear jobid reason w = (case map_of (qw_disk w) jobid of
      None \<Rightarrow> (None, w)
    | Some fresh \<Rightarrow>
        if js_state fresh \<noteq> PENDING then (None, w)
        else let failed = clear (fresh\<lparr>js_state := FAILED, js_finished_at := Some (utcnow_iso env),
                               js_failure_reason := Some reason\<rparr>) in
          if \<not> qe_write_ok env jobid then (None, w)
          else (Some failed, log_transition jobid PENDING FAILED (write_spec failed jobid w)))"

definition fail_impossible_spec :: "queue_env \<Rightarrow> job_spec \<Rightarrow> string \<Rightarrow> queue_world \<Rightarrow> job_spec \<times> queue_world" where
  "fail_impossible_spec env spec why w =
     (case fail_pending env (\<lambda>s. s) (js_id spec)
        (''impossible resource request: '' @ why @ ''. Resubmit with a request within the daemon's caps.'') w of
        (None, w) \<Rightarrow> (spec, w)
      | (Some _, w) \<Rightarrow> (spec\<lparr>js_state := FAILED\<rparr>, w))"

definition fail_refresh_job :: "queue_env \<Rightarrow> string \<Rightarrow> string \<Rightarrow> queue_world \<Rightarrow> bool \<times> queue_world" where
  "fail_refresh_job env jobid reason w =
     (True, snd (fail_pending env (\<lambda>s. s\<lparr>js_refresh_before := None\<rparr>) jobid reason w))"

section \<open>Dependencies\<close>

definition unmet_dependencies :: "job_spec \<Rightarrow> specs \<Rightarrow> (string \<times> job_state option) list" where
  "unmet_dependencies spec by_id =
     map (\<lambda>d. (d, map_option js_state (map_of by_id d)))
       (filter (\<lambda>d. case map_of by_id d of None \<Rightarrow> True | Some p \<Rightarrow> js_state p \<noteq> COMPLETED) (js_depends_on spec))
     @ map (\<lambda>d. (d, map_option js_state (map_of by_id d)))
       (filter (\<lambda>d. case map_of by_id d of None \<Rightarrow> True | Some p \<Rightarrow> js_state p \<notin> TERMINAL_STATES) (js_depends_on_any spec))"

definition failed_state :: "job_state \<Rightarrow> bool" where
  "failed_state st \<longleftrightarrow> st \<in> TERMINAL_STATES \<and> st \<noteq> COMPLETED"

definition failed_predecessor :: "job_spec \<Rightarrow> specs \<Rightarrow> (string \<times> job_state) option" where
  "failed_predecessor spec by_id =
     (case find (\<lambda>d. case map_of by_id d of None \<Rightarrow> False | Some p \<Rightarrow> failed_state (js_state p)) (js_depends_on spec) of
        None \<Rightarrow> None
      | Some d \<Rightarrow> Some (d, js_state (the (map_of by_id d))))"

definition maybe_cascade_dependency_failure ::
  "queue_env \<Rightarrow> job_spec \<Rightarrow> specs \<Rightarrow> queue_world \<Rightarrow> job_spec \<times> specs \<times> queue_world" where
  "maybe_cascade_dependency_failure env spec by_id w =
     (if js_state spec \<noteq> PENDING \<or> js_depends_on spec = [] then (spec, by_id, w)
      else case failed_predecessor spec by_id of
        None \<Rightarrow> (spec, by_id, w)
      | Some (p, st) \<Rightarrow>
          (case fail_pending env (\<lambda>s. s) (js_id spec)
                  (''predecessor '' @ p @ '' failed (state='' @ state_value st @ '')'') w of
             (None, w) \<Rightarrow> (spec, by_id, w)
           | (Some fresh, w) \<Rightarrow> (spec\<lparr>js_state := FAILED\<rparr>, AList.update (js_id spec) fresh by_id, w)))"

fun cascade_all :: "queue_env \<Rightarrow> job_spec list \<Rightarrow> specs \<Rightarrow> queue_world \<Rightarrow> job_spec list \<times> specs \<times> queue_world" where
  "cascade_all env [] by_id w = ([], by_id, w)"
| "cascade_all env (s # ss) by_id w =
     (case maybe_cascade_dependency_failure env s by_id w of (s, by_id, w) \<Rightarrow>
      case cascade_all env ss by_id w of (ss, by_id, w) \<Rightarrow> (s # ss, by_id, w))"

text \<open>
  The index of the scanned specs (a later duplicate wins, as in the dict) with the settled rows that a
  live spec names and that the scan left out.
\<close>

definition specs_by_id :: "job_spec list \<Rightarrow> specs" where
  "specs_by_id ss = foldl (\<lambda>m s. AList.update (js_id s) s m) [] ss"

definition resolve_settled_dependencies :: "specs \<Rightarrow> job_spec list \<Rightarrow> specs \<Rightarrow> specs" where
  "resolve_settled_dependencies settled ss by_id =
     (let wanted = filter (\<lambda>d. map_of by_id d = None) (concat (map (\<lambda>s. js_depends_on s @ js_depends_on_any s) ss)) in
      foldl (\<lambda>m d. case map_of settled d of
          None \<Rightarrow> m
        | Some p \<Rightarrow> if js_id p = d then AList.update d p m else m) by_id (sort (remdups wanted)))"

section \<open>Candidates for dispatch\<close>

definition not_before_ready :: "iso_stamp option \<Rightarrow> int \<Rightarrow> bool" where
  "not_before_ready nb now = (case nb of Some (IsoAware t) \<Rightarrow> t \<le> now | _ \<Rightarrow> True)"

definition deps_ready :: "job_spec \<Rightarrow> specs \<Rightarrow> bool" where
  "deps_ready spec by_id \<longleftrightarrow> unmet_dependencies spec by_id = []"

definition pending_candidates :: "int \<Rightarrow> job_spec list \<Rightarrow> specs \<Rightarrow> job_spec list" where
  "pending_candidates now ss by_id = sort_key (\<lambda>s. (- js_priority s, js_submitted_at s))
     (filter (\<lambda>s. js_state s = PENDING \<and> not_before_ready (js_not_before s) now \<and> deps_ready s by_id) ss)"

section \<open>Finish and retry\<close>

definition RETRY_BACKOFF_BASE_SECONDS :: int where "RETRY_BACKOFF_BASE_SECONDS = 10"
definition RETRY_BACKOFF_MAX_SECONDS :: int where "RETRY_BACKOFF_MAX_SECONDS = 600"

definition retry_backoff_seconds :: "int \<Rightarrow> int" where
  "retry_backoff_seconds n = min (RETRY_BACKOFF_BASE_SECONDS * 2 ^ nat (n - 1)) RETRY_BACKOFF_MAX_SECONDS"

text \<open>
  The spec of the next attempt. \<open>retry_count\<close> is 1-indexed in the backoff, so the exponent is not
  negative.
\<close>

definition next_attempt :: "queue_env \<Rightarrow> string \<Rightarrow> job_spec \<Rightarrow> job_spec" where
  "next_attempt env jobid s = (let n = js_retry_count s + 1 in
     s\<lparr>js_retry_count := n,
       js_not_before := Some (IsoAware (qe_now env + retry_backoff_seconds n * 1000000)),
       js_state := PENDING, js_pid := None, js_pgid := None, js_started_at := None, js_exit_code := None,
       js_scheduler_job_id := None, js_scheduler_submitted_at := None, js_scheduler_started_at := None,
       js_program_runtime_pin := map_option without_resolution (js_program_runtime_pin s),
       js_idempotency_key_hash := None, js_submission_intent_digest := None, js_submission_owner_hash := None,
       js_id := jobid\<rparr>)"

text \<open>
  \<open>owner\<close> is the owner of a multi-user scheduler attempt, whose binding must be closed first. The result
  is whether the job was put back, the caller's spec object afterwards, and the queue.
\<close>

definition maybe_retry ::
  "queue_env \<Rightarrow> job_spec \<Rightarrow> int \<Rightarrow> string \<Rightarrow> string option \<Rightarrow> queue_world \<Rightarrow> bool \<times> job_spec \<times> queue_world" where
  "maybe_retry env s rc jobid owner w =
     (if js_retry_max s \<le> 0 then (False, s, w)
      else if js_retry_max s \<le> js_retry_count s then (False, s, w)
      else if \<not> qe_claim_ok env s then (False, s, w)
      else let s' = next_attempt env jobid s in
        if owner \<noteq> None \<and> \<not> qe_close_ok env s' then (False, s', w)
        else (True, s', log_transition jobid RUNNING PENDING (write_spec s' jobid w)))"

definition finished_spec :: "queue_env \<Rightarrow> int \<Rightarrow> job_spec \<Rightarrow> job_spec" where
  "finished_spec env rc s = (let tail = qe_stderr_tail env s in
     s\<lparr>js_state := (if rc = 0 then COMPLETED else FAILED), js_exit_code := Some rc,
       js_failure_tail := (if rc \<noteq> 0 \<and> tail \<noteq> [] then Some tail else js_failure_tail s),
       js_finished_at := Some (utcnow_iso env)\<rparr>)"

text \<open>A reap of a job that something else already ended: only the exit code and the tail are added.\<close>

definition reaped_spec :: "queue_env \<Rightarrow> int \<Rightarrow> job_spec \<Rightarrow> job_spec" where
  "reaped_spec env rc s = (let tail = qe_stderr_tail env s in
     s\<lparr>js_exit_code := (if js_exit_code s = None then Some rc else js_exit_code s),
       js_failure_tail := (if js_state s \<noteq> COMPLETED \<and> js_failure_tail s = None \<and> tail \<noteq> [] then Some tail
                           else js_failure_tail s)\<rparr>)"

datatype finish_outcome = NoSpec | Reaped | Retried | Finished

text \<open>
  \<open>_record_finish\<close> from the re-read under the lock to its release, for the runs of a single-user daemon. What a
  managed container adds to it, the signals to a group left behind and a write that raises are in
  \<open>record_child_finish\<close> of \<open>Daemon_Reap\<close>, which calls this on a row that can be written; the binding of a
  multi-user scheduler attempt, closed before the write, is not modelled.
\<close>

definition record_finish :: "queue_env \<Rightarrow> string \<Rightarrow> int \<Rightarrow> queue_world \<Rightarrow> finish_outcome \<times> queue_world" where
  "record_finish env jobid rc w = (case map_of (qw_disk w) jobid of
      None \<Rightarrow> (NoSpec, w)
    | Some s \<Rightarrow>
        if is_terminal s
        then (Reaped, log_transition jobid (js_state s) (js_state s)
               (if reaped_spec env rc s = s then w else write_spec (reaped_spec env rc s) jobid w))
        else case (if rc = 0 then (False, s, w) else maybe_retry env s rc jobid None w) of
          (True, s', w') \<Rightarrow> (Retried, w')
        | (False, s', w') \<Rightarrow>
            (Finished, log_transition jobid (js_state s') (js_state (finished_spec env rc s'))
               (write_spec (finished_spec env rc s') jobid w')))"

section \<open>Terminal states are final\<close>

definition state_on :: "queue_world \<Rightarrow> string \<Rightarrow> job_state option" where
  "state_on w i = map_option js_state (map_of (qw_disk w) i)"

lemma write_spec_disk [store_simps]: "map_of (qw_disk (write_spec s i w)) = (map_of (qw_disk w))(i \<mapsto> s)"
  by (simp add: write_spec_def map_of_update)

lemma log_transition_disk [simp]: "qw_disk (log_transition i a b w) = qw_disk w"
  by (simp add: log_transition_def)

lemma state_on_write [simp]: "state_on (write_spec s i w) j = (if j = i then Some (js_state s) else state_on w j)"
  by (simp add: state_on_def store_simps)

lemma state_on_log [simp]: "state_on (log_transition i a b w) = state_on w"
  by (simp add: state_on_def fun_eq_iff)

lemma fail_pending_cases:
  assumes "fail_pending env clear i reason w = (res, w')"
  obtains "res = None" "w' = w"
  | s where "map_of (qw_disk w) i = Some s" "js_state s = PENDING" "qe_write_ok env i"
    "res = Some (clear (s\<lparr>js_state := FAILED, js_finished_at := Some (utcnow_iso env), js_failure_reason := Some reason\<rparr>))"
    "w' = log_transition i PENDING FAILED (write_spec (the res) i w)"
  using assms by (auto simp: fail_pending_def Let_def split: option.splits if_splits)

text \<open>
  The contract of every writer of the queue: a terminal state on disk is not overwritten. A client may
  then run any sequence of writers.
\<close>

locale terminal_keeper =
  fixes op :: "'p \<Rightarrow> queue_world \<Rightarrow> queue_world"
  assumes keeps: "state_on w i = Some st \<Longrightarrow> st \<in> TERMINAL_STATES \<Longrightarrow> state_on (op p w) i = Some st"
begin

lemma sequence_keeps:
  "state_on w i = Some st \<Longrightarrow> st \<in> TERMINAL_STATES \<Longrightarrow> state_on (fold op ps w) i = Some st"
  by (induction ps arbitrary: w) (simp_all add: keeps)

end

lemma not_terminal_pending [simp]: "PENDING \<notin> TERMINAL_STATES"
  by (simp add: TERMINAL_STATES_def)

lemma fail_pending_keeps:
  assumes "fail_pending env clear i' reason w = (res, w')" "state_on w i = Some st" "st \<in> TERMINAL_STATES"
  shows "state_on w' i = Some st"
  using assms(1)
proof (cases rule: fail_pending_cases)
  case (2 s)
  then have "i \<noteq> i'" using assms(2,3) by (auto simp: state_on_def)
  with 2 assms(2) show ?thesis by simp
qed (use assms in simp)

interpretation cascade: terminal_keeper "\<lambda>(env, s, by_id) w. snd (snd (maybe_cascade_dependency_failure env s by_id w))"
  by unfold_locales
    (auto simp: maybe_cascade_dependency_failure_def split: option.splits prod.splits dest: fail_pending_keeps)

interpretation impossible: terminal_keeper "\<lambda>(env, s, why) w. snd (fail_impossible_spec env s why w)"
  by unfold_locales (auto simp: fail_impossible_spec_def split: option.splits prod.splits dest: fail_pending_keeps)

interpretation refresh_failure: terminal_keeper "\<lambda>(env, i, reason) w. snd (fail_refresh_job env i reason w)"
  by unfold_locales
    (auto simp: fail_refresh_job_def intro: fail_pending_keeps [OF surjective_pairing])

lemma maybe_retry_other: "maybe_retry env s rc j owner w = (b, s', w') \<Longrightarrow> i \<noteq> j \<Longrightarrow> state_on w' i = state_on w i"
  by (auto simp: maybe_retry_def Let_def split: if_splits)

interpretation finish: terminal_keeper "\<lambda>(env, j, rc) w. snd (record_finish env j rc w)"
proof (unfold_locales, clarify)
  fix w i st env j and rc :: int
  assume st: "state_on w i = Some st" "st \<in> TERMINAL_STATES"
  show "state_on (snd (record_finish env j rc w)) i = Some st"
  proof (cases "i = j")
    case True
    then obtain s where s: "map_of (qw_disk w) j = Some s" "js_state s = st" using st by (auto simp: state_on_def)
    moreover have "js_state (reaped_spec env rc s) = js_state s" by (simp add: reaped_spec_def Let_def)
    ultimately show ?thesis using True st by (simp add: record_finish_def is_terminal_def)
  next
    case False
    then show ?thesis using st
      by (auto simp: record_finish_def split: option.splits prod.splits bool.splits if_splits dest!: maybe_retry_other)
  qed
qed

datatype queue_op =
    Cascade queue_env job_spec specs
  | Impossible queue_env job_spec string
  | RefreshFailed queue_env string string
  | Finish queue_env string int

primrec run_queue_op :: "queue_op \<Rightarrow> queue_world \<Rightarrow> queue_world" where
  "run_queue_op (Cascade env s by_id) w = snd (snd (maybe_cascade_dependency_failure env s by_id w))"
| "run_queue_op (Impossible env s why) w = snd (fail_impossible_spec env s why w)"
| "run_queue_op (RefreshFailed env i reason) w = snd (fail_refresh_job env i reason w)"
| "run_queue_op (Finish env j rc) w = snd (record_finish env j rc w)"

interpretation queue: terminal_keeper run_queue_op
proof
  fix w i st p
  assume "state_on w i = Some st" "st \<in> TERMINAL_STATES"
  then show "state_on (run_queue_op p w) i = Some st"
    using cascade.keeps [of w i st] impossible.keeps [of w i st] refresh_failure.keeps [of w i st] finish.keeps [of w i st]
    by (cases p) fastforce+
qed

section \<open>The cascade and its reference\<close>

text \<open>
  The reference: a pending job is doomed when one of its required predecessors has failed or is doomed
  itself.
\<close>

inductive doomed :: "specs \<Rightarrow> string \<Rightarrow> bool" for d where
  direct: "map_of d i = Some s \<Longrightarrow> js_state s = PENDING \<Longrightarrow> p \<in> set (js_depends_on s) \<Longrightarrow>
    map_of d p = Some q \<Longrightarrow> failed_state (js_state q) \<Longrightarrow> doomed d i"
| indirect: "map_of d i = Some s \<Longrightarrow> js_state s = PENDING \<Longrightarrow> p \<in> set (js_depends_on s) \<Longrightarrow> doomed d p \<Longrightarrow> doomed d i"

definition disk_wf :: "specs \<Rightarrow> bool" where
  "disk_wf d \<longleftrightarrow> distinct (map fst d) \<and> list_all (\<lambda>(i, s). js_id s = i) d"

definition cascaded :: "specs \<Rightarrow> specs \<Rightarrow> bool" where
  "cascaded d0 d \<longleftrightarrow> (\<forall>i. map_of d i = map_of d0 i
     \<or> doomed d0 i \<and> (\<exists>s. map_of d i = Some s \<and> js_state s = FAILED))"

definition failed_on :: "specs \<Rightarrow> string \<Rightarrow> bool" where
  "failed_on d i \<longleftrightarrow> (\<exists>s. map_of d i = Some s \<and> failed_state (js_state s))"

text \<open>One tick of the daemon over the whole queue, as far as the cascade goes.\<close>

definition cascade_tick :: "queue_env \<Rightarrow> queue_world \<Rightarrow> queue_world" where
  "cascade_tick env w = (let ss = map snd (qw_disk w) in snd (snd (cascade_all env ss (specs_by_id ss) w)))"

lemma failed_not_pending [simp]: "\<not> failed_state PENDING"
  by (simp add: failed_state_def)

lemma failed_FAILED [simp]: "failed_state FAILED"
  by (simp add: failed_state_def TERMINAL_STATES_def)

lemma doomed_pending: "doomed d i \<Longrightarrow> \<exists>s. map_of d i = Some s \<and> js_state s = PENDING"
  by (cases rule: doomed.cases) auto

lemma failed_predecessor_find:
  "failed_predecessor s d = map_option (\<lambda>p. (p, js_state (the (map_of d p)))) (find (failed_on d) (js_depends_on s))"
proof -
  have "failed_on d = (\<lambda>p. case map_of d p of None \<Rightarrow> False | Some q \<Rightarrow> failed_state (js_state q))"
    by (auto simp: failed_on_def fun_eq_iff split: option.splits)
  then show ?thesis by (simp add: failed_predecessor_def split: option.splits)
qed

lemma failed_predecessor_None:
  "failed_predecessor s d = None \<longleftrightarrow> (\<forall>p \<in> set (js_depends_on s). \<not> failed_on d p)"
  by (auto simp: failed_predecessor_find find_None_iff)

lemma failed_predecessor_Some:
  "failed_predecessor s d = Some (p, st) \<Longrightarrow> p \<in> set (js_depends_on s) \<and> failed_on d p"
  by (auto simp: failed_predecessor_find find_Some_iff)

lemma failed_on_cong: "map_of d = map_of d' \<Longrightarrow> failed_on d = failed_on d'"
  by (simp add: failed_on_def fun_eq_iff)

lemma cascaded_refl: "cascaded d d"
  by (simp add: cascaded_def)

lemma cascadedD:
  "cascaded d0 d \<Longrightarrow> map_of d i = map_of d0 i \<or> doomed d0 i \<and> (\<exists>s. map_of d i = Some s \<and> js_state s = FAILED)"
  by (simp add: cascaded_def)

lemma cascaded_pending:
  "cascaded d0 d \<Longrightarrow> map_of d i = Some s \<Longrightarrow> js_state s = PENDING \<Longrightarrow> map_of d0 i = Some s"
  using cascadedD [of d0 d i] by auto

lemma cascaded_failed: "cascaded d0 d \<Longrightarrow> failed_on d p \<Longrightarrow> failed_on d0 p \<or> doomed d0 p"
  using cascadedD [of d0 d p] by (auto simp: failed_on_def)

lemma doomedI:
  assumes "map_of d i = Some s" "js_state s = PENDING" "p \<in> set (js_depends_on s)" "failed_on d p \<or> doomed d p"
  shows "doomed d i"
  using assms by (auto simp: failed_on_def intro: doomed.intros)

lemma cascaded_doomed_back:
  assumes "cascaded d0 d" "doomed d i"
  shows "doomed d0 i"
  using assms(2)
proof induction
  case (direct i s p q)
  then have "failed_on d p" by (auto simp: failed_on_def)
  then show ?case
    using doomedI [OF cascaded_pending [OF assms(1) direct(1,2)] direct(2,3)] cascaded_failed [OF assms(1)] by simp
next
  case (indirect i s p)
  then show ?case using doomedI [OF cascaded_pending [OF assms(1) indirect(1,2)] indirect(2,3)] by simp
qed

lemma cascaded_trans:
  assumes "cascaded d0 d1" "cascaded d1 d2"
  shows "cascaded d0 d2"
  unfolding cascaded_def
proof
  fix i
  from cascadedD [OF assms(2), of i] cascadedD [OF assms(1), of i] cascaded_doomed_back [OF assms(1), of i]
  show "map_of d2 i = map_of d0 i \<or> doomed d0 i \<and> (\<exists>s. map_of d2 i = Some s \<and> js_state s = FAILED)"
    by auto
qed

lemma maybe_cascade_step:
  assumes "maybe_cascade_dependency_failure env s by_id w = (s', by_id', w')"
    and inv: "cascaded d0 (qw_disk w)" "map_of by_id = map_of (qw_disk w)"
    and s: "map_of d0 (js_id s) = Some s"
  shows "cascaded d0 (qw_disk w') \<and> map_of by_id' = map_of (qw_disk w')
    \<and> (\<forall>i. failed_on (qw_disk w) i \<longrightarrow> failed_on (qw_disk w') i)
    \<and> (qe_write_ok env (js_id s) \<and> js_state s = PENDING \<and> (\<exists>p \<in> set (js_depends_on s). failed_on (qw_disk w) p)
        \<longrightarrow> failed_on (qw_disk w') (js_id s))"
proof (cases "js_state s = PENDING \<and> (\<exists>p \<in> set (js_depends_on s). failed_on (qw_disk w) p)")
  case False
  then have "(s', by_id', w') = (s, by_id, w)"
    using assms(1) failed_predecessor_None [of s by_id] failed_on_cong [OF inv(2)]
    by (auto simp: maybe_cascade_dependency_failure_def split: if_splits option.splits)
  with inv False show ?thesis by auto
next
  case True
  then obtain p st where fp: "failed_predecessor s by_id = Some (p, st)"
    using failed_predecessor_None [of s by_id] failed_on_cong [OF inv(2)] by auto
  then have p: "p \<in> set (js_depends_on s)" "failed_on (qw_disk w) p"
    using failed_predecessor_Some [OF fp] failed_on_cong [OF inv(2)] by auto
  have doom: "doomed d0 (js_id s)"
    using True doomedI [OF s _ p(1)] cascaded_failed [OF inv(1) p(2)] by simp
  obtain res w1 where f: "fail_pending env (\<lambda>s. s) (js_id s)
      (''predecessor '' @ p @ '' failed (state='' @ state_value st @ '')'') w = (res, w1)" by force
  have eq: "(s', by_id', w') = (case res of None \<Rightarrow> (s, by_id, w1)
      | Some fresh \<Rightarrow> (s\<lparr>js_state := FAILED\<rparr>, AList.update (js_id s) fresh by_id, w1))"
    using assms(1) True p(1) fp f by (auto simp: maybe_cascade_dependency_failure_def split: option.splits if_splits)
  from f show ?thesis
  proof (cases rule: fail_pending_cases)
    case 1
    have "failed_on (qw_disk w) (js_id s)" if "qe_write_ok env (js_id s)"
    proof -
      have "\<exists>x. map_of (qw_disk w) (js_id s) = Some x \<and> js_state x \<noteq> PENDING"
        using f 1 that s cascadedD [OF inv(1), of "js_id s"]
        by (auto simp: fail_pending_def Let_def split: option.splits if_splits)
      then show ?thesis using cascadedD [OF inv(1), of "js_id s"] s True by (auto simp: failed_on_def)
    qed
    with 1 eq inv show ?thesis by auto
  next
    case (2 x)
    let ?f = "x\<lparr>js_state := FAILED, js_finished_at := Some (utcnow_iso env),
        js_failure_reason := Some (''predecessor '' @ p @ '' failed (state='' @ state_value st @ '')'')\<rparr>"
    have d: "map_of (qw_disk w') = (map_of (qw_disk w))(js_id s \<mapsto> ?f)" "map_of by_id' = (map_of by_id)(js_id s \<mapsto> ?f)"
      using 2 eq by (simp_all add: store_simps)
    have "cascaded d0 (qw_disk w')"
      using cascadedD [OF inv(1)] doom by (simp add: cascaded_def d)
    moreover have "failed_on (qw_disk w') i" if "failed_on (qw_disk w) i \<or> i = js_id s" for i
      using that by (auto simp: failed_on_def d)
    ultimately show ?thesis using inv d by simp
  qed
qed

lemma cascade_all_inv:
  assumes "cascade_all env ss by_id w = (ss', by_id', w')"
    and "cascaded d0 (qw_disk w)" "map_of by_id = map_of (qw_disk w)" "\<forall>s \<in> set ss. map_of d0 (js_id s) = Some s"
  shows "cascaded d0 (qw_disk w')
    \<and> (\<forall>i. failed_on (qw_disk w) i \<longrightarrow> failed_on (qw_disk w') i)
    \<and> (\<forall>s \<in> set ss. (\<forall>i. qe_write_ok env i) \<and> js_state s = PENDING \<and> (\<exists>p \<in> set (js_depends_on s). failed_on (qw_disk w) p)
        \<longrightarrow> failed_on (qw_disk w') (js_id s))"
  using assms
proof (induction ss arbitrary: by_id w ss')
  case (Cons s ss)
  obtain s1 b1 w1 where m: "maybe_cascade_dependency_failure env s by_id w = (s1, b1, w1)" by (cases "maybe_cascade_dependency_failure env s by_id w") auto
  note st = maybe_cascade_step [OF m Cons.prems(2,3)]
  obtain ss2 where c: "cascade_all env ss b1 w1 = (ss2, by_id', w')" using Cons.prems(1) m by (auto split: prod.splits)
  have s: "map_of d0 (js_id s) = Some s" and ss: "\<forall>s \<in> set ss. map_of d0 (js_id s) = Some s"
    using Cons.prems(4) by simp_all
  note st = st [OF s]
  have c1: "cascaded d0 (qw_disk w1)" "map_of b1 = map_of (qw_disk w1)" using st by blast+
  note ih = Cons.IH [OF c c1 ss]
  show ?case
  proof (intro conjI ballI impI allI)
    fix x assume x: "x \<in> set (s # ss)" and
      px: "(\<forall>i. qe_write_ok env i) \<and> js_state x = PENDING \<and> (\<exists>p \<in> set (js_depends_on x). failed_on (qw_disk w) p)"
    show "failed_on (qw_disk w') (js_id x)"
    proof (cases "x = s")
      case True
      with px st have "failed_on (qw_disk w1) (js_id x)" by blast
      with ih show ?thesis by blast
    next
      case False
      have "\<exists>p \<in> set (js_depends_on x). failed_on (qw_disk w1) p" using px st by blast
      with False x px ih show ?thesis by (metis set_ConsD)
    qed
  qed (use ih st in blast)+
qed simp

lemma specs_by_id_of:
  "distinct (map js_id ss) \<Longrightarrow> map_of (specs_by_id ss) = map_of (map (\<lambda>s. (js_id s, s)) ss)"
proof (induction ss rule: rev_induct)
  case (snoc s ss)
  then have "map_of (map (\<lambda>s. (js_id s, s)) ss) (js_id s) = None"
    by (auto simp: map_of_eq_None_iff)
  with snoc show ?case
    by (auto simp: specs_by_id_def map_of_update fun_eq_iff map_add_def split: option.splits)
qed (simp add: specs_by_id_def)

lemma disk_wf_specs:
  assumes "disk_wf d"
  shows "map (\<lambda>s. (js_id s, s)) (map snd d) = d" "map js_id (map snd d) = map fst d"
  using assms by (auto simp: disk_wf_def list_all_iff intro!: map_idI)

lemma cascade_tick_step:
  assumes "disk_wf (qw_disk w)" "\<forall>i. qe_write_ok env i"
  shows "cascaded (qw_disk w) (qw_disk (cascade_tick env w))"
    "map_of (qw_disk w) i = Some s \<Longrightarrow> js_state s = PENDING \<Longrightarrow> p \<in> set (js_depends_on s) \<Longrightarrow>
       failed_on (qw_disk w) p \<Longrightarrow> failed_on (qw_disk (cascade_tick env w)) i"
proof -
  let ?d = "qw_disk w" let ?ss = "map snd ?d"
  obtain ss' b' w' where c: "cascade_all env ?ss (specs_by_id ?ss) w = (ss', b', w')"
    by (cases "cascade_all env ?ss (specs_by_id ?ss) w") auto
  have b: "map_of (specs_by_id ?ss) = map_of ?d"
    using specs_by_id_of [of ?ss] assms(1) unfolding disk_wf_specs [OF assms(1)] by (simp add: disk_wf_def)
  have el: "\<forall>s \<in> set ?ss. map_of ?d (js_id s) = Some s"
    using assms(1) by (auto simp: disk_wf_def list_all_iff)
  note inv = cascade_all_inv [OF c cascaded_refl b el]
  have t: "cascade_tick env w = w'" by (simp add: cascade_tick_def Let_def c)
  show "cascaded ?d (qw_disk (cascade_tick env w))" using inv t by simp
  assume i: "map_of ?d i = Some s" "js_state s = PENDING" "p \<in> set (js_depends_on s)" "failed_on ?d p"
  have "(i, s) \<in> set ?d" using i(1) by (rule map_of_SomeD)
  then have "s \<in> set ?ss" "js_id s = i" using assms(1) by (force simp: disk_wf_def list_all_iff)+
  with i inv assms(2) t show "failed_on (qw_disk (cascade_tick env w)) i" by blast
qed

lemma set_update: "x \<in> set (AList.update i y d) \<Longrightarrow> x = (i, y) \<or> x \<in> set d"
  by (induction d) (auto split: if_splits)

lemma disk_wf_update: "disk_wf d \<Longrightarrow> js_id s = i \<Longrightarrow> disk_wf (AList.update i s d)"
proof -
  assume d: "disk_wf d" "js_id s = i"
  have "js_id x = j" if "(j, x) \<in> set (AList.update i s d)" for j x
    using set_update [OF that] d by (auto simp: disk_wf_def list_all_iff)
  with d show ?thesis by (auto simp: disk_wf_def list_all_iff distinct_update)
qed

lemma disk_wf_id: "disk_wf d \<Longrightarrow> map_of d i = Some s \<Longrightarrow> js_id s = i"
  using map_of_SomeD [of d i s] unfolding disk_wf_def list_all_iff by blast

lemma fail_pending_wf:
  assumes "fail_pending env (\<lambda>s. s) i reason w = (res, w')" "disk_wf (qw_disk w)"
  shows "disk_wf (qw_disk w')"
  using assms(1)
proof (cases rule: fail_pending_cases)
  case (2 s)
  then show ?thesis using disk_wf_id [OF assms(2) 2(1)] assms(2) by (simp add: write_spec_def disk_wf_update)
qed (use assms in simp)

lemma maybe_cascade_wf:
  "disk_wf (qw_disk w) \<Longrightarrow> maybe_cascade_dependency_failure env s by_id w = (s', by_id', w') \<Longrightarrow> disk_wf (qw_disk w')"
  by (auto simp: maybe_cascade_dependency_failure_def split: if_splits option.splits prod.splits dest: fail_pending_wf)

lemma cascade_all_wf:
  "disk_wf (qw_disk w) \<Longrightarrow> cascade_all env ss by_id w = (ss', by_id', w') \<Longrightarrow> disk_wf (qw_disk w')"
  by (induction ss arbitrary: by_id w ss') (auto split: prod.splits dest: maybe_cascade_wf)

lemma cascade_tick_wf: "disk_wf (qw_disk w) \<Longrightarrow> disk_wf (qw_disk (cascade_tick env w))"
  by (cases "cascade_all env (map snd (qw_disk w)) (specs_by_id (map snd (qw_disk w))) w")
    (simp add: cascade_tick_def Let_def cascade_all_wf)

text \<open>The pending jobs only decrease, and strictly while one of them has a failed predecessor.\<close>

definition pending_ids :: "specs \<Rightarrow> string set" where
  "pending_ids d = {i. \<exists>s. map_of d i = Some s \<and> js_state s = PENDING}"

definition settled_queue :: "specs \<Rightarrow> bool" where
  "settled_queue d \<longleftrightarrow> (\<forall>i s p. map_of d i = Some s \<longrightarrow> js_state s = PENDING \<longrightarrow> p \<in> set (js_depends_on s) \<longrightarrow> \<not> failed_on d p)"

lemma pending_ids_finite [simp]: "finite (pending_ids d)"
  by (rule finite_subset [OF _ finite_dom_map_of [of d]]) (auto simp: pending_ids_def)

lemma pending_ids_le: "card (pending_ids d) \<le> length d"
proof -
  have "pending_ids d \<subseteq> set (map fst d)" by (auto simp: pending_ids_def dest: map_of_SomeD) (metis fst_conv image_eqI map_of_SomeD)
  then show ?thesis by (metis card_length card_mono finite_set le_trans length_map)
qed

lemma cascade_tick_progress:
  assumes "disk_wf (qw_disk w)" "\<forall>i. qe_write_ok env i"
  shows "settled_queue (qw_disk w) \<or> card (pending_ids (qw_disk (cascade_tick env w))) < card (pending_ids (qw_disk w))"
proof (cases "settled_queue (qw_disk w)")
  case False
  then obtain i s p where i: "map_of (qw_disk w) i = Some s" "js_state s = PENDING" "p \<in> set (js_depends_on s)"
    "failed_on (qw_disk w) p" by (auto simp: settled_queue_def)
  have "failed_on (qw_disk (cascade_tick env w)) i" by (rule cascade_tick_step(2) [OF assms i])
  then have "i \<notin> pending_ids (qw_disk (cascade_tick env w))" by (auto simp: failed_on_def pending_ids_def)
  moreover have "i \<in> pending_ids (qw_disk w)" using i by (auto simp: pending_ids_def)
  moreover have "pending_ids (qw_disk (cascade_tick env w)) \<subseteq> pending_ids (qw_disk w)"
    using cascaded_pending [OF cascade_tick_step(1) [OF assms]] by (auto simp: pending_ids_def)
  ultimately have "pending_ids (qw_disk (cascade_tick env w)) \<subset> pending_ids (qw_disk w)" by blast
  then show ?thesis by (simp add: psubset_card_mono)
qed simp

lemma cascade_tick_settled:
  assumes "disk_wf (qw_disk w)" "\<forall>i. qe_write_ok env i" "settled_queue (qw_disk w)"
  shows "settled_queue (qw_disk (cascade_tick env w))"
proof -
  have "\<not> doomed (qw_disk w) i" for i
  proof
    assume "doomed (qw_disk w) i"
    then show False using assms(3)
      by (induction) (auto simp: settled_queue_def failed_on_def)
  qed
  then have "map_of (qw_disk (cascade_tick env w)) = map_of (qw_disk w)"
    using cascadedD [OF cascade_tick_step(1) [OF assms(1,2)]] by auto
  then show ?thesis using assms(3) by (simp add: settled_queue_def failed_on_def)
qed

lemma cascade_ticks:
  assumes "disk_wf (qw_disk w)" "\<forall>i. qe_write_ok env i"
  defines "w' \<equiv> \<lambda>n. (cascade_tick env ^^ n) w"
  shows "disk_wf (qw_disk (w' n)) \<and> cascaded (qw_disk w) (qw_disk (w' n))
    \<and> (settled_queue (qw_disk (w' n)) \<or> card (pending_ids (qw_disk (w' n))) + n \<le> card (pending_ids (qw_disk w)))"
proof (induction n)
  case 0
  then show ?case using assms(1) cascaded_refl by (simp add: w'_def)
next
  case (Suc n)
  then have wf: "disk_wf (qw_disk (w' n))" by simp
  have eq: "w' (Suc n) = cascade_tick env (w' n)" by (simp add: w'_def)
  show ?case unfolding eq
    using Suc cascade_tick_wf [OF wf] cascaded_trans [OF _ cascade_tick_step(1) [OF wf assms(2)]]
      cascade_tick_progress [OF wf assms(2)] cascade_tick_settled [OF wf assms(2)] by auto
qed

lemma settled_doomed_failed:
  assumes "cascaded d0 d" "settled_queue d" "doomed d0 i"
  shows "failed_on d i"
  using assms(3)
proof induction
  case (direct i s p q)
  have "failed_on d p"
  proof -
    have "\<not> doomed d0 p" using doomed_pending [of d0 p] direct by auto
    then show ?thesis using cascadedD [OF assms(1), of p] direct by (auto simp: failed_on_def)
  qed
  then show ?case using cascadedD [OF assms(1), of i] direct assms(2) by (auto simp: settled_queue_def failed_on_def)
next
  case (indirect i s p)
  then show ?case using cascadedD [OF assms(1), of i] assms(2) by (auto simp: settled_queue_def failed_on_def)
qed

section \<open>Attempts\<close>

lemma next_attempt_simps [simp]:
  "js_state (next_attempt env i s) = PENDING" "js_retry_count (next_attempt env i s) = js_retry_count s + 1"
  "js_retry_max (next_attempt env i s) = js_retry_max s" "js_id (next_attempt env i s) = i"
  "js_pid (next_attempt env i s) = None" "js_exit_code (next_attempt env i s) = None"
  "js_scheduler_job_id (next_attempt env i s) = None" "js_idempotency_key_hash (next_attempt env i s) = None"
  by (simp_all add: next_attempt_def Let_def)

lemma maybe_retry_True:
  assumes "maybe_retry env s rc i owner w = (True, s', w')"
  shows "s' = next_attempt env i s \<and> w' = log_transition i RUNNING PENDING (write_spec s' i w)
    \<and> js_retry_count s < js_retry_max s \<and> qe_claim_ok env s"
  using assms by (auto simp: maybe_retry_def Let_def split: if_splits)

lemma backoff_bounds:
  assumes "1 \<le> n"
  shows "RETRY_BACKOFF_BASE_SECONDS \<le> retry_backoff_seconds n \<and> retry_backoff_seconds n \<le> RETRY_BACKOFF_MAX_SECONDS"
  by (simp add: retry_backoff_seconds_def RETRY_BACKOFF_BASE_SECONDS_def RETRY_BACKOFF_MAX_SECONDS_def)

lemma backoff_mono: "m \<le> n \<Longrightarrow> retry_backoff_seconds m \<le> retry_backoff_seconds n"
  unfolding retry_backoff_seconds_def RETRY_BACKOFF_BASE_SECONDS_def
  by (intro min.mono mult_left_mono power_increasing) auto

text \<open>A dispatch of the job marks it running; the attempt then ends with the exit code.\<close>

definition mark_running :: "string \<Rightarrow> queue_world \<Rightarrow> queue_world" where
  "mark_running i w = (case map_of (qw_disk w) i of
      None \<Rightarrow> w
    | Some s \<Rightarrow> if js_state s = PENDING then write_spec (s\<lparr>js_state := RUNNING\<rparr>) i w else w)"

definition attempt :: "queue_env \<Rightarrow> string \<Rightarrow> int \<Rightarrow> queue_world \<Rightarrow> queue_world" where
  "attempt env i rc w = snd (record_finish env i rc (mark_running i w))"

lemma attempt_pending:
  assumes "map_of (qw_disk w) i = Some s" "js_state s = PENDING" "rc \<noteq> 0" "\<forall>s. qe_claim_ok env s"
  shows "if 0 < js_retry_max s \<and> js_retry_count s < js_retry_max s
    then \<exists>s'. map_of (qw_disk (attempt env i rc w)) i = Some s' \<and> js_state s' = PENDING
           \<and> js_retry_max s' = js_retry_max s \<and> js_retry_count s' = js_retry_count s + 1
    else state_on (attempt env i rc w) i = Some FAILED"
proof -
  let ?r = "s\<lparr>js_state := RUNNING\<rparr>"
  have m: "map_of (qw_disk (mark_running i w)) i = Some ?r"
    using assms by (simp add: mark_running_def store_simps)
  have "\<not> is_terminal ?r" by (simp add: is_terminal_def TERMINAL_STATES_def)
  with m assms(3,4) show ?thesis
    by (auto simp: attempt_def record_finish_def maybe_retry_def store_simps Let_def finished_spec_def)
qed

section \<open>Properties\<close>


definition sample_queue_env :: queue_env where
  "sample_queue_env = \<lparr>qe_write_ok = (\<lambda>_. True), qe_claim_ok = (\<lambda>_. True), qe_close_ok = (\<lambda>_. True),
     qe_stderr_tail = (\<lambda>_. []), qe_now = 0\<rparr>"

text \<open>A queue with a failed job, one that needs it, and one that needs that one.\<close>

definition sample_queue :: queue_world where
  "sample_queue = \<lparr>qw_disk = [(''c'', sample_spec ''c''\<lparr>js_depends_on := [''b'']\<rparr>),
     (''b'', sample_spec ''b''\<lparr>js_depends_on := [''a'']\<rparr>), (''a'', sample_spec ''a''\<lparr>js_state := KILLED\<rparr>)], qw_events = []\<rparr>"


text \<open>
  C35: the cascade fails exactly the transitive dependents of failed jobs. When the spec files can be
  written, as many ticks as there are files bring the queue to the state in which every pending job that
  depends, directly or through other pending jobs, on a job that failed is \<open>FAILED\<close>, and every other
  file is untouched; jobs whose predecessors are merely missing keep waiting.
\<close>

theorem cascade_fails_exactly_doomed:
  assumes "disk_wf (qw_disk w)" "\<forall>i. qe_write_ok env i" "length (qw_disk w) \<le> n"
  shows "(doomed (qw_disk w) i \<longrightarrow> state_on ((cascade_tick env ^^ n) w) i = Some FAILED)
    \<and> (\<not> doomed (qw_disk w) i \<longrightarrow> map_of (qw_disk ((cascade_tick env ^^ n) w)) i = map_of (qw_disk w) i)"
proof -
  let ?d = "qw_disk ((cascade_tick env ^^ n) w)"
  note t = cascade_ticks [OF assms(1,2), of n]
  have "pending_ids ?d = {}" if "\<not> settled_queue ?d"
  proof -
    have "card (pending_ids ?d) = 0" using t that pending_ids_le [of "qw_disk w"] assms(3) by linarith
    then show ?thesis by simp
  qed
  then have "settled_queue ?d" by (auto simp: settled_queue_def pending_ids_def)
  then have f: "failed_on ?d i" if "doomed (qw_disk w) i"
    using settled_doomed_failed [OF _ _ that] t by blast
  have "state_on ((cascade_tick env ^^ n) w) i = Some FAILED" if "doomed (qw_disk w) i"
    using f [OF that] cascadedD [of "qw_disk w" ?d i] t doomed_pending [OF that]
    by (auto simp: state_on_def failed_on_def)
  with t cascadedD [of "qw_disk w" ?d i] show ?thesis by blast
qed

theorem cascade_fails_exactly_doomed_witness:
  "state_on ((cascade_tick sample_queue_env ^^ 3) sample_queue) ''c'' = Some FAILED"
proof -
  have b: "doomed (qw_disk sample_queue) ''b''"
    by (rule doomed.direct [where p = "''a''" and s = "sample_spec ''b''\<lparr>js_depends_on := [''a'']\<rparr>"
          and q = "sample_spec ''a''\<lparr>js_state := KILLED\<rparr>"])
      (simp_all add: sample_queue_def sample_spec_def new_job_spec_def failed_state_def TERMINAL_STATES_def)
  have "doomed (qw_disk sample_queue) ''c''"
    by (rule doomed.indirect [OF _ _ _ b, where s = "sample_spec ''c''\<lparr>js_depends_on := [''b'']\<rparr>"])
      (simp_all add: sample_queue_def sample_spec_def new_job_spec_def)
  then show ?thesis
    using cascade_fails_exactly_doomed [of sample_queue sample_queue_env 3 "''c''"]
    by (simp add: disk_wf_def sample_queue_def sample_queue_env_def sample_spec_def new_job_spec_def)
qed

text \<open>
  C36: retries are bounded. A job whose command keeps failing is put back exactly \<open>retry_max\<close> times
  (less what it already used) and then ends \<open>FAILED\<close>: after \<open>k\<close> failed attempts it is pending
  again while its budget lasts, and \<open>FAILED\<close> from the next one on.
\<close>

theorem retries_run_out:
  assumes "map_of (qw_disk w) i = Some s" "js_state s = PENDING" "0 \<le> js_retry_count s" "rc \<noteq> 0"
    "\<forall>s. qe_claim_ok env s"
  shows "state_on ((attempt env i rc ^^ k) w) i =
    Some (if int k \<le> max 0 (js_retry_max s - js_retry_count s) then PENDING else FAILED)"
proof -
  define n where "n = max 0 (js_retry_max s - js_retry_count s)"
  have n: "0 \<le> n" "0 < js_retry_max s \<and> js_retry_count s + int k < js_retry_max s \<longleftrightarrow> int k < n" for k
    using assms(3) by (auto simp: n_def)
  define alive where "alive k \<longleftrightarrow> (\<exists>s'. map_of (qw_disk ((attempt env i rc ^^ k) w)) i = Some s' \<and> js_state s' = PENDING
    \<and> js_retry_max s' = js_retry_max s \<and> js_retry_count s' = js_retry_count s + int k)" for k
  have step: "if int k < n then alive (Suc k) else state_on ((attempt env i rc ^^ Suc k) w) i = Some FAILED" if "alive k" for k
  proof -
    from that obtain s' where s': "map_of (qw_disk ((attempt env i rc ^^ k) w)) i = Some s'" "js_state s' = PENDING"
      "js_retry_max s' = js_retry_max s" "js_retry_count s' = js_retry_count s + int k" by (auto simp: alive_def)
    show ?thesis using attempt_pending [OF s'(1,2) assms(4,5)] n(2) [of k] s'(3,4)
      by (simp add: alive_def algebra_simps split: if_splits)
  qed
  have failed: "state_on ((attempt env i rc ^^ Suc k) w) i = Some FAILED" if f: "state_on ((attempt env i rc ^^ k) w) i = Some FAILED" for k
  proof -
    let ?w = "(attempt env i rc ^^ k) w"
    have "mark_running i ?w = ?w" using f by (auto simp: mark_running_def state_on_def)
    then show ?thesis using finish.keeps [OF f, of "(env, i, rc)"] by (simp add: attempt_def TERMINAL_STATES_def)
  qed
  have "if int k \<le> n then alive k else state_on ((attempt env i rc ^^ k) w) i = Some FAILED"
  proof (induction k)
    case 0
    then show ?case using assms n(1) by (auto simp: alive_def)
  next
    case (Suc k)
    then show ?case using step [of k] failed [of k] by (cases "int k \<le> n"; cases "int k < n") auto
  qed
  then show ?thesis by (auto simp: state_on_def alive_def n_def split: if_splits)
qed

theorem retries_run_out_witness:
  "state_on ((attempt sample_queue_env ''j'' 1 ^^ 3)
     \<lparr>qw_disk = [(''j'', sample_spec ''j''\<lparr>js_retry_max := 2\<rparr>)], qw_events = []\<rparr>) ''j'' = Some FAILED"
  using retries_run_out [of "\<lparr>qw_disk = [(''j'', sample_spec ''j''\<lparr>js_retry_max := 2\<rparr>)], qw_events = []\<rparr>" "''j''"
      "sample_spec ''j''\<lparr>js_retry_max := 2\<rparr>" 1 sample_queue_env 3]
  by (simp add: sample_spec_def new_job_spec_def sample_queue_env_def)

text \<open>
  a retry starts clean and waits its turn. When the job is put back, its attempt count grew by one
  within the budget, the run's process ids, exit code and scheduler id are cleared and so is the claim of
  the original submission; it is not ready before 10 seconds and is ready after at most 600 seconds,
  with a delay that never shrinks from one retry to the next.
\<close>

theorem retry_clean_and_delayed:
  assumes "maybe_retry env s rc i owner w = (True, s', w')" "0 \<le> js_retry_count s"
  shows "map_of (qw_disk w') i = Some s' \<and> js_state s' = PENDING
    \<and> js_retry_count s' = js_retry_count s + 1 \<and> js_retry_count s' \<le> js_retry_max s'
    \<and> js_pid s' = None \<and> js_exit_code s' = None \<and> js_scheduler_job_id s' = None \<and> js_idempotency_key_hash s' = None
    \<and> (\<forall>t. not_before_ready (js_not_before s') t \<longrightarrow> qe_now env + 10 * 1000000 \<le> t)
    \<and> (\<forall>t \<ge> qe_now env + 600 * 1000000. not_before_ready (js_not_before s') t)
    \<and> retry_backoff_seconds (js_retry_count s) \<le> retry_backoff_seconds (js_retry_count s')"
proof -
  note r = maybe_retry_True [OF assms(1)]
  have nb: "js_not_before s' = Some (IsoAware (qe_now env + retry_backoff_seconds (js_retry_count s + 1) * 1000000))"
    using r by (simp add: next_attempt_def Let_def)
  have "10 \<le> retry_backoff_seconds (js_retry_count s + 1)" "retry_backoff_seconds (js_retry_count s + 1) \<le> 600"
    using backoff_bounds [of "js_retry_count s + 1"] assms(2)
    by (simp_all add: RETRY_BACKOFF_BASE_SECONDS_def RETRY_BACKOFF_MAX_SECONDS_def)
  then show ?thesis
    using r nb backoff_mono [of "js_retry_count s" "js_retry_count s + 1"]
    by (auto simp: store_simps not_before_ready_def)
qed

theorem retry_clean_and_delayed_witness:
  "js_retry_count (fst (snd (maybe_retry sample_queue_env (sample_spec ''j''\<lparr>js_retry_max := 2\<rparr>) 1 ''j'' None sample_queue))) = 1"
proof -
  let ?s = "sample_spec ''j''\<lparr>js_retry_max := 2\<rparr>"
  have "fst (maybe_retry sample_queue_env ?s 1 ''j'' None sample_queue)"
    by (simp add: maybe_retry_def sample_spec_def new_job_spec_def sample_queue_env_def Let_def)
  then obtain s' w' where "maybe_retry sample_queue_env ?s 1 ''j'' None sample_queue = (True, s', w')"
    by (metis prod.collapse)
  from retry_clean_and_delayed [OF this] this show ?thesis by (simp add: sample_spec_def new_job_spec_def)
qed

text \<open>
  A retry that fails to close its scheduler binding reports that the job was not put back, but the
  caller's spec object already carries the next attempt: its count, backoff and cleared ids are then
  written with the \<open>FAILED\<close> state.
\<close>

lemma failed_close_leaks_attempt:
  assumes "0 < js_retry_max s" "js_retry_count s < js_retry_max s" "qe_claim_ok env s"
    "owner \<noteq> None" "\<not> qe_close_ok env (next_attempt env i s)"
  shows "maybe_retry env s rc i owner w = (False, next_attempt env i s, w)"
  using assms by (simp add: maybe_retry_def Let_def)

end
