(* ===== verification/Scheduler_Admission.thy ===== *)
theory Scheduler_Admission
  imports Job_Spec
begin

text \<open>
  The driver's budgets for scheduler targets, \<open>scheduler_admission.py\<close>, and the order in which one
  dispatch pass visits the pending jobs (\<open>_fair_resource_dispatch_order\<close> of \<open>daemon.py\<close>).

  The configuration enters as the list of hosts in file order with the fields the class reads. A
  Python dict is an association list, a \<open>Counter\<close> one whose missing keys count zero. Times are
  rational seconds.
\<close>

section \<open>Budgets\<close>

record host_config =
  hc_scheduler :: string
  hc_fleet_canonical_host :: "string option"
  hc_scheduler_max_jobs :: "int option"
  hc_scheduler_submit_interval_seconds :: rat
  hc_ssh :: string
  hc_remote_vq :: string
  hc_scheduler_driver :: "string option"
  hc_scheduler_max_wall_time_seconds :: "int option"
  hc_scheduler_max_cpus :: "int option"

type_synonym hosts = "(string \<times> host_config) list"

record scheduler_admission =
  sa_canonical :: "(string \<times> string) list"
  sa_caps :: "(string \<times> int) list"
  sa_intervals :: "(string \<times> rat) list"
  sa_active :: "(string option \<times> int) list"
  sa_last_attempts :: "(string \<times> rat) list"

definition canonical_names :: "hosts \<Rightarrow> (string \<times> string) list" where
  "canonical_names hosts = map (\<lambda>(name, h). (name, case hc_fleet_canonical_host h of
      None \<Rightarrow> name | Some c \<Rightarrow> if c = [] then name else c)) hosts"

definition canonical_of :: "(string \<times> string) list \<Rightarrow> string \<Rightarrow> string" where
  "canonical_of names target = the_or target (map_of names target)"

fun target_caps :: "(string \<times> string) list \<Rightarrow> hosts \<Rightarrow> (string \<times> int) list \<Rightarrow> (string \<times> int) list" where
  "target_caps names [] caps = caps"
| "target_caps names ((name, h) # hosts) caps = (let target = canonical_of names name in
     target_caps names hosts (case hc_scheduler_max_jobs h of
        None \<Rightarrow> caps
      | Some m \<Rightarrow> AList.update target (min (the_or m (map_of caps target)) m) caps))"

fun target_intervals :: "(string \<times> string) list \<Rightarrow> hosts \<Rightarrow> (string \<times> rat) list \<Rightarrow> (string \<times> rat) list" where
  "target_intervals names [] ivs = ivs"
| "target_intervals names ((name, h) # hosts) ivs = (let target = canonical_of names name in
     target_intervals names hosts (AList.update target
       (max (the_or 0 (map_of ivs target)) (hc_scheduler_submit_interval_seconds h)) ivs))"

definition count_of :: "('k \<times> int) list \<Rightarrow> 'k \<Rightarrow> int" where
  "count_of c k = the_or 0 (map_of c k)"

definition add_count :: "'k \<Rightarrow> int \<Rightarrow> ('k \<times> int) list \<Rightarrow> ('k \<times> int) list" where
  "add_count k n c = AList.update k (count_of c k + n) c"

definition make_admission ::
  "hosts \<Rightarrow> (string option \<times> int) list \<Rightarrow> (string \<times> rat) list \<Rightarrow> scheduler_admission" where
  "make_admission hosts reservations last_attempts = (let names = canonical_names hosts in
     \<lparr>sa_canonical = names, sa_caps = target_caps names hosts [], sa_intervals = target_intervals names hosts [],
      sa_active = fold (\<lambda>(t, n). add_count (map_option (canonical_of names) t) n) reservations [],
      sa_last_attempts = last_attempts\<rparr>)"

definition canonical :: "scheduler_admission \<Rightarrow> string \<Rightarrow> string" where
  "canonical a target = canonical_of (sa_canonical a) target"

definition can_attempt :: "scheduler_admission \<Rightarrow> string \<Rightarrow> rat \<Rightarrow> bool" where
  "can_attempt a target now = (let c = canonical a target in
     (case map_of (sa_caps a) c of
        Some cap \<Rightarrow> \<not> cap \<le> count_of (sa_active a) (Some c) + count_of (sa_active a) None | None \<Rightarrow> True)
     \<and> (case map_of (sa_last_attempts a) c of
        None \<Rightarrow> True | Some previous \<Rightarrow> the_or 0 (map_of (sa_intervals a) c) \<le> now - previous))"

definition total_reserved :: "scheduler_admission \<Rightarrow> int" where
  "total_reserved a = (\<Sum>(k, n)\<leftarrow>sa_active a. n)"

definition UNLIMITED_JOBS :: int where "UNLIMITED_JOBS = 2 ^ 30"

definition free_jobs :: "scheduler_admission \<Rightarrow> string \<Rightarrow> int" where
  "free_jobs a target = (let c = canonical a target in
     case map_of (sa_caps a) c of
       None \<Rightarrow> UNLIMITED_JOBS
     | Some cap \<Rightarrow> cap - count_of (sa_active a) (Some c) - count_of (sa_active a) None)"

definition attempted :: "scheduler_admission \<Rightarrow> string \<Rightarrow> rat \<Rightarrow> scheduler_admission" where
  "attempted a target now = a\<lparr>sa_last_attempts := AList.update (canonical a target) now (sa_last_attempts a)\<rparr>"

definition reserve_slot :: "scheduler_admission \<Rightarrow> string option \<Rightarrow> scheduler_admission" where
  "reserve_slot a target = a\<lparr>sa_active := add_count (map_option (canonical a) target) 1 (sa_active a)\<rparr>"

section \<open>The order of a pass\<close>

text \<open>
  The rounds of the generator: one job of every pool that has one left, in the order of the pools.
\<close>

function round_robin :: "'a list list \<Rightarrow> 'a list" where
  "round_robin gs = (if gs = [] then [] else map hd gs @ round_robin (filter (\<lambda>g. g \<noteq> []) (map tl gs)))"
  by auto

lemma rest_shrinks:
  "sum_list (map length (filter (\<lambda>g. g \<noteq> []) (map tl gs))) + length (filter (\<lambda>g. g \<noteq> []) (map tl gs))
   \<le> sum_list (map length gs)"
  by (induction gs) (auto simp: length_greater_0_conv [symmetric] simp del: length_greater_0_conv)

termination round_robin
proof (relation "measure (\<lambda>gs. sum_list (map length gs) + length gs)")
  fix gs :: "'a list list"
  assume "gs \<noteq> []"
  then have "0 < length gs" by simp
  then show "(filter (\<lambda>g. g \<noteq> []) (map tl gs), gs) \<in> measure (\<lambda>gs. sum_list (map length gs) + length gs)"
    using rest_shrinks [of gs] unfolding in_measure by linarith
qed simp

declare round_robin.simps [simp del]

definition rotate_after :: "string option \<Rightarrow> string list \<Rightarrow> string list" where
  "rotate_after previous targets = (case previous of
      None \<Rightarrow> targets
    | Some p \<Rightarrow> if p \<in> set targets
        then tl (dropWhile (\<lambda>t. t \<noteq> p) targets) @ takeWhile (\<lambda>t. t \<noteq> p) targets @ [p]
        else targets)"

definition pool_of :: "scheduler_admission \<Rightarrow> job_spec \<Rightarrow> string option" where
  "pool_of a s = map_option (canonical a) (js_scheduler_target s)"

definition pool_jobs :: "scheduler_admission \<Rightarrow> job_spec list \<Rightarrow> string \<Rightarrow> job_spec list" where
  "pool_jobs a pending t = filter (\<lambda>s. pool_of a s = Some t) pending"

definition pool_names :: "scheduler_admission \<Rightarrow> job_spec list \<Rightarrow> string list" where
  "pool_names a pending = sort (remdups (map (the \<circ> pool_of a) (filter (\<lambda>s. js_scheduler_target s \<noteq> None) pending)))"

definition fair_resource_dispatch_order ::
  "scheduler_admission \<Rightarrow> string option \<Rightarrow> job_spec list \<Rightarrow> job_spec list" where
  "fair_resource_dispatch_order a previous pending =
     filter (\<lambda>s. js_scheduler_target s = None) pending
     @ round_robin (map (pool_jobs a pending) (rotate_after previous (pool_names a pending)))"

section \<open>The budget is kept\<close>

lemma count_add [simp]: "count_of (add_count k n c) k' = count_of c k' + (if k' = k then n else 0)"
  by (simp add: count_of_def add_count_def map_of_update)

lemma admission_simps [simp]:
  "sa_caps (attempted a t now) = sa_caps a" "sa_caps (reserve_slot a x) = sa_caps a"
  "sa_intervals (attempted a t now) = sa_intervals a" "sa_intervals (reserve_slot a x) = sa_intervals a"
  "sa_active (attempted a t now) = sa_active a" "sa_last_attempts (reserve_slot a x) = sa_last_attempts a"
  "canonical (attempted a t now) = canonical a" "canonical (reserve_slot a x) = canonical a"
  by (simp_all add: attempted_def reserve_slot_def canonical_def fun_eq_iff)

definition in_use :: "scheduler_admission \<Rightarrow> string \<Rightarrow> int" where
  "in_use a c = count_of (sa_active a) (Some c) + count_of (sa_active a) None"

text \<open>
  One guarded submission of a pass: attempted only when the target may be, and then paced and charged.
\<close>

definition submit_once :: "string \<times> rat \<Rightarrow> scheduler_admission \<Rightarrow> scheduler_admission" where
  "submit_once tn a = (case tn of (t, now) \<Rightarrow>
     if can_attempt a t now then reserve_slot (attempted a t now) (Some t) else a)"

text \<open>
  The contract a dispatch pass relies on: a guarded step never takes a pool above its cap when it was
  within it, and never charges a pool it was not asked for.
\<close>

locale slot_budget =
  fixes step :: "'r \<Rightarrow> 's \<Rightarrow> 's"
    and used :: "'s \<Rightarrow> 'k \<Rightarrow> int"
    and cap :: "'s \<Rightarrow> 'k \<Rightarrow> int option"
  assumes cap_kept: "cap (step r s) = cap s"
    and within: "cap s k = Some m \<Longrightarrow> used (step r s) k \<le> max (used s k) m"
begin

lemma pass_within: "cap s k = Some m \<Longrightarrow> used (fold step rs s) k \<le> max (used s k) m"
proof (induction rs arbitrary: s)
  case (Cons r rs)
  have "used (fold step rs (step r s)) k \<le> max (used (step r s) k) m"
    by (rule Cons.IH) (simp add: Cons.prems cap_kept)
  with within [OF Cons.prems, of r] show ?case by simp
qed simp

end

interpretation submits: slot_budget submit_once in_use "\<lambda>a. map_of (sa_caps a)"
proof
  fix a :: scheduler_admission and k m and r :: "string \<times> rat"
  assume cap: "map_of (sa_caps a) k = Some m"
  obtain t now where r: "r = (t, now)" by (cases r)
  show "in_use (submit_once r a) k \<le> max (in_use a k) m"
  proof (cases "can_attempt a t now \<and> canonical a t = k")
    case True
    then have "in_use a k < m" using cap by (auto simp: can_attempt_def Let_def in_use_def)
    with True show ?thesis by (simp add: submit_once_def r in_use_def reserve_slot_def)
  next
    case False
    then show ?thesis by (auto simp: submit_once_def r in_use_def reserve_slot_def)
  qed
qed (auto simp: submit_once_def split: prod.splits)

section \<open>Fairness\<close>

lemma round_robin_Nil [simp]: "round_robin [] = []"
  by (simp add: round_robin.simps)

lemma round_robin_map: "[] \<notin> set gs \<Longrightarrow> round_robin (map (map f) gs) = map f (round_robin gs)"
proof (induction gs rule: round_robin.induct)
  case (1 gs)
  let ?rest = "filter (\<lambda>g. g \<noteq> []) (map tl gs)"
  show ?case
  proof (cases "gs = []")
    case False
    have "filter (\<lambda>g. g \<noteq> []) (map tl (map (map f) gs)) = map (map f) ?rest"
    proof (induction gs)
      case (Cons g gs)
      then show ?case by (cases g) auto
    qed simp
    moreover have "map hd (map (map f) gs) = map f (map hd gs)"
      using 1(2) by (auto intro!: hd_map)
    ultimately show ?thesis using 1(1) [OF False] False
      by (simp add: round_robin.simps [of "map (map f) gs"] round_robin.simps [of gs])
  qed simp
qed

lemma mset_round_robin: "[] \<notin> set gs \<Longrightarrow> mset (round_robin gs) = mset (concat gs)"
proof (induction gs rule: round_robin.induct)
  case (1 gs)
  let ?rest = "filter (\<lambda>g. g \<noteq> []) (map tl gs)"
  show ?case
  proof (cases "gs = []")
    case False
    have "mset (concat gs) = mset (map hd gs) + mset (concat ?rest)" using 1(2)
    proof (induction gs)
      case (Cons g gs)
      then show ?case by (cases g) auto
    qed simp
    with 1(1) [OF False] False show ?thesis by (simp add: round_robin.simps [of gs])
  qed simp
qed

lemma set_round_robin: "[] \<notin> set gs \<Longrightarrow> set (round_robin gs) = set (concat gs)"
  using mset_round_robin mset_eq_setD by blast

lemma enumerate_Nil_iff [simp]: "enumerate n xs = [] \<longleftrightarrow> xs = []"
  by (cases xs) simp_all

lemma round_robin_rounds:
  "[] \<notin> set gs \<Longrightarrow> sorted (map fst (round_robin (map (enumerate n) gs)))
     \<and> (\<forall>x \<in> set (round_robin (map (enumerate n) gs)). n \<le> fst x)"
proof (induction gs arbitrary: n rule: round_robin.induct)
  case (1 gs)
  let ?rest = "filter (\<lambda>g. g \<noteq> []) (map tl gs)"
  show ?case
  proof (cases "gs = []")
    case False
    have rest: "filter (\<lambda>g. g \<noteq> []) (map tl (map (enumerate n) gs)) = map (enumerate (Suc n)) ?rest"
      using 1(2)
    proof (induction gs)
      case (Cons g gs)
      then show ?case by (cases g) auto
    qed simp
    have ih: "sorted (map fst (round_robin (map (enumerate (Suc n)) ?rest)))"
      "\<forall>x \<in> set (round_robin (map (enumerate (Suc n)) ?rest)). Suc n \<le> fst x"
      using 1(1) [OF False, of "Suc n"] by auto
    have hg: "fst (hd (enumerate n g)) = n" if "g \<in> set gs" for g using 1(2) that by (cases g) auto
    then have hds: "map fst (map hd (map (enumerate n) gs)) = replicate (length gs) n"
      by (intro replicate_eqI) auto
    have hd_n: "\<forall>x \<in> set (map hd (map (enumerate n) gs)). fst x = n" using hg by auto
    have "round_robin (map (enumerate n) gs)
        = map hd (map (enumerate n) gs) @ round_robin (map (enumerate (Suc n)) ?rest)"
      unfolding round_robin.simps [of "map (enumerate n) gs"] rest using False by simp
    then show ?thesis using ih hd_n hds unfolding map_append
      by (auto simp: sorted_append sorted_replicate Suc_leD simp del: map_map)
  qed simp
qed

lemma pool_names_iff: "t \<in> set (pool_names a pending) \<longleftrightarrow> (\<exists>s \<in> set pending. pool_of a s = Some t)"
  by (force simp: pool_names_def pool_of_def)

lemma pool_names_distinct: "distinct (pool_names a pending)"
  by (simp add: pool_names_def)

lemma dropWhile_at: "x \<in> set ts \<Longrightarrow> \<exists>ys. dropWhile (\<lambda>t. t \<noteq> x) ts = x # ys"
  by (induction ts) auto

lemma rotate_after_mset: "distinct ts \<Longrightarrow> mset (rotate_after p ts) = mset ts"
proof -
  have "mset (tl (dropWhile (\<lambda>t. t \<noteq> x) ts) @ takeWhile (\<lambda>t. t \<noteq> x) ts @ [x]) = mset ts" if "x \<in> set ts" for x
  proof -
    obtain ys where ys: "dropWhile (\<lambda>t. t \<noteq> x) ts = x # ys"
      using dropWhile_at \<open>x \<in> set ts\<close> by fast
    have "mset ts = mset (takeWhile (\<lambda>t. t \<noteq> x) ts @ dropWhile (\<lambda>t. t \<noteq> x) ts)" by simp
    then show ?thesis unfolding ys by simp
  qed
  then show ?thesis by (simp add: rotate_after_def split: option.splits)
qed

lemma pools_partition:
  assumes "distinct ts" "\<forall>s \<in> set xs. \<forall>t. pool_of a s = Some t \<longrightarrow> t \<in> set ts"
  shows "mset (concat (map (pool_jobs a xs) ts)) = mset (filter (\<lambda>s. js_scheduler_target s \<noteq> None) xs)"
  using assms(2)
proof (induction xs)
  case Nil
  then show ?case by (simp add: pool_jobs_def image_mset_const_eq)
next
  case (Cons s xs)
  have jobs: "mset (concat (map (pool_jobs a (s # xs)) us)) =
      (if \<exists>t \<in> set us. pool_of a s = Some t then {#s#} else {#}) + mset (concat (map (pool_jobs a xs) us))"
    if "distinct us" for us
    using that by (induction us) (auto simp: pool_jobs_def)
  show ?case using Cons jobs [OF assms(1)] by (cases "js_scheduler_target s") (auto simp: pool_of_def)
qed

text \<open>The turn of a job within its pool, from zero.\<close>

definition turn :: "scheduler_admission \<Rightarrow> job_spec list \<Rightarrow> job_spec \<Rightarrow> nat" where
  "turn a pending s = length (takeWhile (\<lambda>x. x \<noteq> s) (filter (\<lambda>x. pool_of a x = pool_of a s) pending))"

lemma takeWhile_nth: "distinct xs \<Longrightarrow> k < length xs \<Longrightarrow> length (takeWhile (\<lambda>x. x \<noteq> xs ! k) xs) = k"
proof (induction xs arbitrary: k)
  case (Cons x xs)
  then show ?case by (cases k) (auto simp: nth_mem)
qed simp

section \<open>Properties\<close>

text \<open>
  a dispatch pass never exceeds a scheduler target's budget. However many guarded submissions a pass
  makes, to whatever aliases and at whatever times, the allocations charged to a canonical target,
  together with those whose target is unknown, end within its cap, or at what they already were before
  the pass; and the budget the broker is told, \<open>free_jobs\<close>, is positive exactly when the pass would not
  refuse for lack of slots.
\<close>

theorem pass_within_scheduler_budget:
  assumes "map_of (sa_caps a) c = Some cap"
  shows "in_use (fold submit_once rs a) c \<le> max (in_use a c) cap
    \<and> (canonical a t = c \<longrightarrow> (can_attempt a t now \<longleftrightarrow> 0 < free_jobs a t \<and> (case map_of (sa_last_attempts a) c of
          None \<Rightarrow> True | Some p \<Rightarrow> the_or 0 (map_of (sa_intervals a) c) \<le> now - p)))"
  using submits.pass_within [OF assms] assms by (auto simp: can_attempt_def free_jobs_def Let_def)

definition sample_admission :: scheduler_admission where
  "sample_admission = make_admission
     [(''pbs'', \<lparr>hc_scheduler = ''pbs'', hc_fleet_canonical_host = None, hc_scheduler_max_jobs = Some 2,
        hc_scheduler_submit_interval_seconds = 5, hc_ssh = ''pbs'', hc_remote_vq = ''vq'',
        hc_scheduler_driver = Some ''here'', hc_scheduler_max_wall_time_seconds = None,
        hc_scheduler_max_cpus = None\<rparr>),
      (''pbs-long'', \<lparr>hc_scheduler = ''pbs'', hc_fleet_canonical_host = Some ''pbs'', hc_scheduler_max_jobs = Some 3,
        hc_scheduler_submit_interval_seconds = 0, hc_ssh = ''pbs'', hc_remote_vq = ''vq'',
        hc_scheduler_driver = Some ''here'', hc_scheduler_max_wall_time_seconds = None,
        hc_scheduler_max_cpus = None\<rparr>)] [(Some ''pbs-long'', 1)] []"

theorem pass_within_scheduler_budget_witness:
  "in_use (fold submit_once [(''pbs-long'', 0), (''pbs'', 10), (''pbs'', 20)] sample_admission) ''pbs'' \<le> 2"
proof -
  have "map_of (sa_caps sample_admission) ''pbs'' = Some 2" by code_simp
  from pass_within_scheduler_budget [OF this, of "[(''pbs-long'', 0), (''pbs'', 10), (''pbs'', 20)]"]
  have "in_use (fold submit_once [(''pbs-long'', 0), (''pbs'', 10), (''pbs'', 20)] sample_admission) ''pbs''
    \<le> max (in_use sample_admission ''pbs'') 2" by simp
  moreover have "in_use sample_admission ''pbs'' = 1" by code_simp
  ultimately show ?thesis by simp
qed

text \<open>
  the order of a pass is complete and fair. Every pending job is visited exactly once; local jobs come
  first, in the given order; and among scheduler pools the visits go by turns: the \<open>k\<close>-th job of a pool,
  in priority order, is never visited after the \<open>k+1\<close>-st of another pool, so a pool with a long backlog
  cannot delay the first jobs of the others.
\<close>

theorem dispatch_order_fair:
  assumes "distinct pending"
  shows "mset (fair_resource_dispatch_order a previous pending) = mset pending
    \<and> (\<exists>rest. fair_resource_dispatch_order a previous pending = filter (\<lambda>s. js_scheduler_target s = None) pending @ rest
         \<and> (\<forall>s \<in> set rest. js_scheduler_target s \<noteq> None) \<and> sorted (map (turn a pending) rest))"
proof -
  define ts where "ts = rotate_after previous (pool_names a pending)"
  have ms: "mset ts = mset (pool_names a pending)"
    unfolding ts_def by (rule rotate_after_mset [OF pool_names_distinct])
  have ts: "distinct ts" "\<forall>t. t \<in> set ts \<longleftrightarrow> (\<exists>s \<in> set pending. pool_of a s = Some t)"
    using pool_names_distinct mset_eq_imp_distinct_iff [OF ms] mset_eq_setD [OF ms] pool_names_iff by auto
  let ?gs = "map (pool_jobs a pending) ts"
  have ne: "[] \<notin> set ?gs" using ts(2) by (auto simp: pool_jobs_def filter_empty_conv eq_commute [of "[]"])
  have part: "mset (concat ?gs) = mset (filter (\<lambda>s. js_scheduler_target s \<noteq> None) pending)"
    by (rule pools_partition) (use ts in auto)
  have all: "mset (round_robin ?gs) = mset (filter (\<lambda>s. js_scheduler_target s \<noteq> None) pending)"
    using mset_round_robin [OF ne] part by simp
  have ne': "[] \<notin> set (map (enumerate 0) ?gs)" using ne by (auto simp: image_iff eq_commute [of "[]"])
  have eq: "round_robin ?gs = map snd (round_robin (map (enumerate 0) ?gs))"
    using round_robin_map [OF ne', of snd] by (simp add: comp_def)
  have "turn a pending (snd x) = fst x" if "x \<in> set (round_robin (map (enumerate 0) ?gs))" for x
  proof -
    have "x \<in> set (concat (map (enumerate 0) ?gs))" using that set_round_robin [OF ne'] by simp
    then obtain t where t: "x \<in> set (enumerate 0 (pool_jobs a pending t))" by auto
    then have x: "fst x < length (pool_jobs a pending t)" "snd x = pool_jobs a pending t ! fst x"
      using t [unfolded in_set_enumerate_eq] by simp_all
    then have "pool_of a (snd x) = Some t" using nth_mem [OF x(1)] by (auto simp: pool_jobs_def)
    then have "turn a pending (snd x) = length (takeWhile (\<lambda>y. y \<noteq> snd x) (pool_jobs a pending t))"
      by (simp add: turn_def pool_jobs_def)
    also have "\<dots> = fst x" unfolding x(2) by (rule takeWhile_nth) (use x(1) assms in \<open>auto simp: pool_jobs_def\<close>)
    finally show ?thesis .
  qed
  then have "map (turn a pending) (round_robin ?gs) = map fst (round_robin (map (enumerate 0) ?gs))"
    by (simp add: eq)
  then have "sorted (map (turn a pending) (round_robin ?gs))" using round_robin_rounds [OF ne, of 0] by simp
  moreover have "\<forall>s \<in> set (round_robin ?gs). js_scheduler_target s \<noteq> None"
    using mset_eq_setD [OF all] by auto
  moreover have "mset (filter (\<lambda>s. js_scheduler_target s = None) pending @ round_robin ?gs) = mset pending"
    by (simp add: all)
  ultimately show ?thesis unfolding fair_resource_dispatch_order_def ts_def [symmetric] by blast
qed

theorem dispatch_order_fair_witness:
  "mset (fair_resource_dispatch_order sample_admission (Some ''pbs'')
      [sample_spec ''a''\<lparr>js_scheduler_target := Some ''pbs''\<rparr>, sample_spec ''b''])
   = mset [sample_spec ''a''\<lparr>js_scheduler_target := Some ''pbs''\<rparr>, sample_spec ''b'']"
  using dispatch_order_fair [of "[sample_spec ''a''\<lparr>js_scheduler_target := Some ''pbs''\<rparr>, sample_spec ''b'']"]
  by (simp add: sample_spec_def new_job_spec_def)

end
