(* ===== verification/Broker_Evidence.thy ===== *)
theory Broker_Evidence
  imports Broker_Codec Drain Scheduler_Admission
begin

text \<open>
  Capacity evidence: what a target's daemon publishes about its admission
  (\<open>Daemon._publish_admission_snapshot\<close>), what the target answers to \<open>vq broker capacity\<close>
  (\<open>broker_capacity.sample_local\<close>), and how the broker turns that answer into the snapshot its
  decision reads (\<open>evidence_from_payload\<close>, \<open>collect\<close>). The route to a target is \<open>broker_target.route\<close>.

  A decoded JSON object is an association list with distinct keys. Integers are unbounded:
  \<open>math.isfinite\<close> raises \<open>OverflowError\<close> on one that no float can hold, which \<open>float_overflow\<close> marks. Digests
  of the configuration, the ping envelope, the RPC answer, free memory and the program probes are
  parameters. The texts of the refusals are constructors of \<open>evidence_error\<close>.
\<close>

section \<open>Routing\<close>

record target_config =
  tc_hosts :: hosts
  tc_pools :: "(string \<times> string list) list"
  tc_lane_digest :: "host_config \<Rightarrow> string" \<comment> \<open>\<open>lane_digest\<close>: SHA-256 of the lane fields\<close>
  tc_config_digest :: "host_config \<Rightarrow> string" \<comment> \<open>SHA-256 of the host's whole configuration\<close>

type_synonym binding = "(string \<times> string) list"

datatype route_error = NotConfigured string | NoDriverAuthority string | NoRecordedAuthority | AuthorityChanged

definition is_remote_driver :: "host_config \<Rightarrow> bool" where
  "is_remote_driver authority \<longleftrightarrow> hc_ssh authority \<noteq> ''localhost''"

definition route :: "target_config \<Rightarrow> string \<Rightarrow> route_error + host_config \<times> binding" where
  "route cfg target = (case map_of (tc_hosts cfg) target of
      None \<Rightarrow> Inl (NotConfigured target)
    | Some host \<Rightarrow> (case (if hc_scheduler host \<noteq> ''local'' then hc_scheduler_driver host else Some target) of
        None \<Rightarrow> Inl (NoDriverAuthority target)
      | Some driver \<Rightarrow> (case map_of (tc_hosts cfg) driver of
          None \<Rightarrow> Inl (NoDriverAuthority target)
        | Some authority \<Rightarrow>
            if hc_scheduler authority \<noteq> ''local'' then Inl (NoDriverAuthority target)
            else Inr (authority, [(''target'', target), (''driver'', driver), (''ssh'', hc_ssh authority),
                (''remote_vq'', hc_remote_vq authority), (''scheduler'', hc_scheduler host)]
              @ (if hc_scheduler host \<noteq> ''local'' \<and> is_remote_driver authority
                 then [(''lane_sha256'', tc_lane_digest cfg host)]
                 else if hc_scheduler host \<noteq> ''local''
                 then [(''target_config_sha256'', tc_config_digest cfg host)] else [])))))"

definition binding_val :: "binding \<Rightarrow> pyval" where
  "binding_val b = PyDict (map (\<lambda>(k, v). (k, PyStr v)) b)"

text \<open>Equality of a decoded value with a binding: dictionaries compare without their order.\<close>

definition equals_binding :: "pyval \<Rightarrow> binding \<Rightarrow> bool" where
  "equals_binding v b = (case v of
      PyDict d \<Rightarrow> set d = set (map (\<lambda>(k, x). (k, PyStr x)) b) | _ \<Rightarrow> False)"

definition bound_route :: "target_config \<Rightarrow> broker_attempt \<Rightarrow> route_error + host_config" where
  "bound_route cfg a = rbind (route cfg (at_target_host a)) (\<lambda>(authority, current).
     let recorded = field (at_snapshot a) ''authority'' in
     if recorded = PyNone
     then (if map_of current ''scheduler'' \<noteq> Some ''local'' then Inl NoRecordedAuthority else Inr authority)
     else if \<not> equals_binding recorded current then Inl AuthorityChanged
     else Inr authority)"

section \<open>What the daemon publishes\<close>

record local_job =
  lj_cpus :: int
  lj_mem_mb :: "int option"
  lj_gpu_devices :: "string list"

record daemon_view =
  dv_admin_update_marker :: bool
  dv_hold_scope :: "string list option"
  dv_config_fingerprint :: "string option"
  dv_host_pressure :: bool
  dv_spec_facts :: "(int \<times> bool \<times> bool) option"
  dv_scheduler_facts :: "(target_config \<times> scheduler_admission \<times> job_spec list) option"
  dv_running :: "local_job list"
  dv_orphans :: "local_job list"
  dv_survivors :: "local_job list"
  dv_max_cpus :: int
  dv_max_jobs :: "int option"
  dv_max_mem_mb :: "int option"
  dv_default_job_mem_mb :: "int option"
  dv_max_scheduler_jobs :: "int option"
  dv_gpu_devices :: "string list"
  dv_snapshot :: pyval

definition LOCAL_DISPATCH_SCOPE :: string where "LOCAL_DISPATCH_SCOPE = ''@local''"

definition eff_mem_mb :: "daemon_view \<Rightarrow> int option \<Rightarrow> int option" where
  "eff_mem_mb d m = (case m of Some x \<Rightarrow> Some x | None \<Rightarrow> dv_default_job_mem_mb d)"

definition local_jobs :: "daemon_view \<Rightarrow> local_job list" where
  "local_jobs d = dv_running d @ dv_orphans d @ dv_survivors d"

definition busy_gpu_devices :: "daemon_view \<Rightarrow> string list" where
  "busy_gpu_devices d = remdups (concat (map lj_gpu_devices (local_jobs d)))"

definition used_mem_mb :: "daemon_view \<Rightarrow> int option" where
  "used_mem_mb d = (let charges = map (\<lambda>j. eff_mem_mb d (lj_mem_mb j)) (local_jobs d) in
     if None \<in> set charges then None else Some (sum_list (map the charges)))"

definition drain_holds_local :: "drain_state option \<Rightarrow> bool" where
  "drain_holds_local ds = (case ds of None \<Rightarrow> False
     | Some s \<Rightarrow> dr_enabled s \<and> (is_full_drain s \<or> dr_max_jobs s \<noteq> None \<or> dr_max_cpus s \<noteq> None \<or> dr_reject_submits s))"

definition drain_holds_target :: "drain_state option \<Rightarrow> string \<Rightarrow> bool" where
  "drain_holds_target ds name = (case ds of None \<Rightarrow> False
     | Some s \<Rightarrow> dr_enabled s \<and> (is_full_drain s \<or> drains_scheduler_target s (Some name) \<or> dr_reject_submits s))"

definition in_hold_scope :: "daemon_view \<Rightarrow> string \<Rightarrow> bool" where
  "in_hold_scope d name \<longleftrightarrow> dv_admin_update_marker d
     \<and> (case dv_hold_scope d of None \<Rightarrow> True | Some scope \<Rightarrow> name \<in> set scope)"

definition local_holds :: "daemon_view \<Rightarrow> string option \<Rightarrow> drain_state option \<Rightarrow> string list" where
  "local_holds d fingerprint ds =
     (if in_hold_scope d LOCAL_DISPATCH_SCOPE then [''an admin update holds local dispatch''] else [])
     @ (if fingerprint \<noteq> dv_config_fingerprint d then [''the config changed and is not yet applied''] else [])
     @ (if drain_holds_local ds then [''the host is drained''] else [])
     @ (if dv_host_pressure d then [''dispatch is held for host memory pressure''] else [])
     @ (case dv_spec_facts d of None \<Rightarrow> [''this tick did not evaluate the queue'']
        | Some (_, refresh, build) \<Rightarrow>
            (if refresh then [''a pending job's refresh can hold local dispatch''] else [])
            @ (if build then [''a build job is running''] else []))"

definition target_holds :: "daemon_view \<Rightarrow> string option \<Rightarrow> drain_state option \<Rightarrow> string \<Rightarrow> string list" where
  "target_holds d fingerprint ds name =
     (if in_hold_scope d name then [''an admin update holds this scheduler target''] else [])
     @ (if fingerprint \<noteq> dv_config_fingerprint d then [''the config changed and is not yet applied''] else [])
     @ (if drain_holds_target ds name then [''the scheduler target is drained''] else [])
     @ (case dv_spec_facts d of Some (_, refresh, build) \<Rightarrow>
          if refresh \<or> build then [''a refresh or build holds dispatch''] else [] | None \<Rightarrow> [])"

definition target_free_jobs :: "daemon_view \<Rightarrow> scheduler_admission \<Rightarrow> string \<Rightarrow> int" where
  "target_free_jobs d a name = (case dv_max_scheduler_jobs d of
      None \<Rightarrow> free_jobs a name | Some m \<Rightarrow> min (free_jobs a name) (m - total_reserved a))"

definition pending_on_target :: "scheduler_admission \<Rightarrow> string \<Rightarrow> job_spec \<Rightarrow> bool" where
  "pending_on_target a name s \<longleftrightarrow> js_state s = PENDING
     \<and> (case js_scheduler_target s of None \<Rightarrow> False | Some t \<Rightarrow> t \<noteq> [] \<and> canonical a t = canonical a name)"

definition scheduler_target_fact ::
  "daemon_view \<Rightarrow> string option \<Rightarrow> drain_state option \<Rightarrow> rat \<Rightarrow> target_config \<Rightarrow> scheduler_admission \<Rightarrow>
   job_spec list \<Rightarrow> string \<times> host_config \<Rightarrow> (string \<times> pyval) option" where
  "scheduler_target_fact d fingerprint ds submit_clock cfg a specs = (\<lambda>(name, host).
     if hc_scheduler host \<notin> {''slurm'', ''pbs''} then None
     else case route cfg name of
         Inl _ \<Rightarrow> None
       | Inr (_, authority) \<Rightarrow> Some (name, PyDict [
           (''holds'', PyList (map PyStr (target_holds d fingerprint ds name))),
           (''free_jobs'', PyInt (target_free_jobs d a name)),
           (''queue_ready'', PyBool (\<not> list_ex (pending_on_target a name) specs)),
           (''can_attempt'', PyBool (can_attempt a name submit_clock)),
           (''authority'', binding_val authority)]))"

definition py_opt_int :: "int option \<Rightarrow> pyval" where
  "py_opt_int v = (case v of None \<Rightarrow> PyNone | Some n \<Rightarrow> PyInt n)"

definition admission_snapshot ::
  "daemon_view \<Rightarrow> string option \<Rightarrow> drain_state option \<Rightarrow> rat \<Rightarrow> rat \<Rightarrow> pyval" where
  "admission_snapshot d fingerprint ds submit_clock now = PyDict [
     (''scheduler_targets'', PyDict (case dv_scheduler_facts d of None \<Rightarrow> []
        | Some (cfg, a, specs) \<Rightarrow>
            List.map_filter (scheduler_target_fact d fingerprint ds submit_clock cfg a specs) (tc_hosts cfg))),
     (''schema'', PyStr ''vq.daemon-admission/1''),
     (''published_at'', PyFloat (Fin now)),
     (''holds'', PyList (map PyStr (local_holds d fingerprint ds))),
     (''local_pending'', PyInt (case dv_spec_facts d of None \<Rightarrow> 0 | Some (n, _) \<Rightarrow> n)),
     (''max_cpus'', PyInt (dv_max_cpus d)),
     (''max_jobs'', py_opt_int (dv_max_jobs d)),
     (''max_mem_mb'', py_opt_int (dv_max_mem_mb d)),
     (''gpu_devices'', if dv_gpu_devices d = [] then PyNone else PyList (map PyStr (dv_gpu_devices d))),
     (''used_gpus'', PyInt (int (length (busy_gpu_devices d)))),
     (''local_active'', PyInt (int (length (local_jobs d)))),
     (''used_cpus'', PyInt (sum_list (map lj_cpus (local_jobs d)))),
     (''used_mem_mb'', py_opt_int (used_mem_mb d))]"

text \<open>
  The whole operation: it consumes the facts of the tick and reads the effective drain policy. Nothing the
  model represents raises inside it, so the branch that withdraws the snapshot has no case here.
\<close>

definition publish_admission_snapshot ::
  "drain_env \<Rightarrow> string option \<Rightarrow> rat \<Rightarrow> rat \<Rightarrow> daemon_view \<times> drain_world \<Rightarrow> daemon_view \<times> drain_world" where
  "publish_admission_snapshot env fingerprint submit_clock now = (\<lambda>(d, w).
     case read_effective_drain_state env w of (ds, w1) \<Rightarrow>
       (d\<lparr>dv_spec_facts := None, dv_scheduler_facts := None,
          dv_snapshot := admission_snapshot d fingerprint ds submit_clock now\<rparr>, w1))"

section \<open>What the target answers\<close>

definition CAPACITY_SCHEMA :: string where "CAPACITY_SCHEMA = ''vq.broker-capacity/1''"
definition ADMISSION_SNAPSHOT_MAX_AGE_SECONDS :: rat where "ADMISSION_SNAPSHOT_MAX_AGE_SECONDS = 30"

definition ADMISSION_KEYS :: "string list" where
  "ADMISSION_KEYS = [''schema'', ''published_at'', ''holds'', ''local_pending'', ''max_cpus'', ''max_jobs'',
     ''max_mem_mb'', ''local_active'', ''used_cpus'', ''used_mem_mb'']"

datatype sample_error =
    SampleOverflowError | SampleAttributeError | SampleKeyError | SampleTypeError | SampleRouteError route_error

text \<open>An integer that rounds to no finite float: \<open>math.isfinite\<close> raises on it.\<close>

definition float_overflow :: "pyval \<Rightarrow> bool" where
  "float_overflow v = (case v of PyInt n \<Rightarrow> 2 ^ 1024 - 2 ^ 970 \<le> \<bar>n\<bar> | _ \<Rightarrow> False)"

definition int_at_least :: "int \<Rightarrow> pyval \<Rightarrow> bool" where
  "int_at_least lo v = (case v of PyInt n \<Rightarrow> lo \<le> n | _ \<Rightarrow> False)"

definition none_or_int_at_least :: "int \<Rightarrow> pyval \<Rightarrow> bool" where
  "none_or_int_at_least lo v \<longleftrightarrow> v = PyNone \<or> int_at_least lo v"

definition is_str :: "pyval \<Rightarrow> bool" where
  "is_str v = (case v of PyStr _ \<Rightarrow> True | _ \<Rightarrow> False)"

definition str_of :: "pyval \<Rightarrow> string" where
  "str_of v = (case v of PyStr s \<Rightarrow> s | _ \<Rightarrow> [])"

definition int_of :: "pyval \<Rightarrow> int" where
  "int_of v = (case v of PyInt n \<Rightarrow> n | _ \<Rightarrow> 0)"

text \<open>The format \<open>.0f\<close>: to the nearest integer, ties to even.\<close>

definition format_0f :: "rat \<Rightarrow> string" where
  "format_0f x = (let n = \<lfloor>x\<rfloor>; r = x - of_int n in
     show_int (if r < 1 / 2 \<or> r = 1 / 2 \<and> even n then n else n + 1))"

definition snapshot_malformed :: "(string \<times> pyval) list \<Rightarrow> bool" where
  "snapshot_malformed d \<longleftrightarrow>
     \<not> finite_number (field d ''published_at'')
     \<or> (case field d ''holds'' of PyList hs \<Rightarrow> \<not> list_all is_str hs | _ \<Rightarrow> True)
     \<or> \<not> list_all (\<lambda>k. int_at_least 0 (field d k)) [''local_pending'', ''local_active'', ''used_cpus'']
     \<or> \<not> int_at_least 1 (field d ''max_cpus'')
     \<or> \<not> list_all (\<lambda>k. none_or_int_at_least 1 (field d k)) [''max_jobs'', ''max_mem_mb'']
     \<or> \<not> none_or_int_at_least 0 (field d ''used_mem_mb'')"

text \<open>The accepted snapshot, or the reason that is added to the closed gates.\<close>

definition valid_admission_snapshot ::
  "pyval \<Rightarrow> rat \<Rightarrow> sample_error + string + (string \<times> pyval) list" where
  "valid_admission_snapshot answer sampled_at =
     (let malformed = ''the daemon's admission snapshot is missing or malformed'' in
      case answer of
        PyDict d \<Rightarrow>
          if field d ''schema'' \<noteq> PyStr ''vq.daemon-admission/1'' \<or> \<not> list_all (\<lambda>k. k \<in> set (map fst d)) ADMISSION_KEYS
          then Inr (Inl malformed)
          else if float_overflow (field d ''published_at'') then Inl SampleOverflowError
          else if snapshot_malformed d then Inr (Inl malformed)
          else (let age = sampled_at - number_of (field d ''published_at'') in
            if age < -5 \<or> ADMISSION_SNAPSHOT_MAX_AGE_SECONDS < age
            then Inr (Inl (''the daemon's admission snapshot is '' @ format_0f age @ '' s old''))
            else Inr (Inr d))
      | _ \<Rightarrow> Inr (Inl malformed))"

text \<open>The daemon's GPU count and the free ones.\<close>

definition gpu_figures :: "(string \<times> pyval) list option \<Rightarrow> int option \<times> int option" where
  "gpu_figures snapshot = (case snapshot of
      None \<Rightarrow> (None, None)
    | Some d \<Rightarrow>
        if ''gpu_devices'' \<notin> set (map fst d) then (None, None)
        else (case (case field d ''gpu_devices'' of PyNone \<Rightarrow> PyList [] | v \<Rightarrow> v) of
            PyList devices \<Rightarrow> (case field d ''used_gpus'' of
                PyInt used \<Rightarrow> if 0 \<le> used \<and> used \<le> int (length devices)
                  then (Some (int (length devices)), Some (int (length devices) - used)) else (None, None)
              | _ \<Rightarrow> (None, None))
          | _ \<Rightarrow> (None, None)))"

record sample_inputs =
  si_now :: rat
  si_multi_user :: bool
  si_envelope :: "(string \<times> pyval) list" \<comment> \<open>of \<open>local_daemon_ping\<close>\<close>
  si_answer :: "string + pyval" \<comment> \<open>of \<open>get_admission_snapshot\<close>, or the text of the exception\<close>
  si_mem_available_mb :: "int option"
  si_specs :: "job_spec list" \<comment> \<open>of \<open>list_jobs\<close>\<close>
  si_programs :: "string list" \<comment> \<open>the registered names\<close>
  si_availability :: "string \<Rightarrow> string + string"
  si_target_pin :: "string \<Rightarrow> string \<Rightarrow> string + runtime_pin option" \<comment> \<open>\<open>_validate_scheduler_target_expected_sha\<close>\<close>
  si_timestamp :: "iso_stamp \<Rightarrow> rat option"

definition client_root :: "(string \<times> pyval) list \<Rightarrow> pyval" where
  "client_root envelope = (case field envelope ''state_roots'' of PyDict roots \<Rightarrow> field roots ''client'' | _ \<Rightarrow> PyNone)"

definition root_agreement :: "(string \<times> pyval) list \<Rightarrow> bool" where
  "root_agreement envelope = (case field envelope ''state_roots'' of
      PyDict roots \<Rightarrow> (case (field roots ''client'', field roots ''daemons'') of
          (PyStr client, PyList daemons) \<Rightarrow> starts_with ''/'' client \<and>
             list_ex (\<lambda>e. case e of PyDict kv \<Rightarrow> field kv ''state_root'' = PyStr client | _ \<Rightarrow> False) daemons
        | _ \<Rightarrow> False)
    | _ \<Rightarrow> False)"

text \<open>Iterating a value, as \<open>list.extend\<close> does.\<close>

definition py_iter :: "pyval \<Rightarrow> pyval list option" where
  "py_iter v = (case v of PyList vs \<Rightarrow> Some vs | PyStr s \<Rightarrow> Some (map (\<lambda>c. PyStr [c]) s)
     | PyDict d \<Rightarrow> Some (map (\<lambda>kv. PyStr (fst kv)) d) | _ \<Rightarrow> None)"

text \<open>The scheduler lane's entry and the reasons it adds.\<close>

definition scheduler_evidence ::
  "(string \<times> pyval) list option \<Rightarrow> string \<Rightarrow> sample_error + (string \<times> pyval) list option \<times> pyval list" where
  "scheduler_evidence snapshot target =
     (let missing = (None, [PyStr ''daemon has no scheduler admission evidence for this target'']) in
      case (case snapshot of None \<Rightarrow> PyDict [] | Some d \<Rightarrow> the_or (PyDict []) (map_of d ''scheduler_targets'')) of
        PyDict targets \<Rightarrow> (case field targets target of
            PyDict entry \<Rightarrow> (case map_of entry ''holds'' of
                None \<Rightarrow> Inl SampleKeyError
              | Some hs \<Rightarrow> (case py_iter hs of
                    None \<Rightarrow> Inl SampleTypeError
                  | Some hs' \<Rightarrow> Inr (Some entry, hs' @
                      (if field entry ''can_attempt'' = PyBool True then []
                       else [PyStr ''scheduler submission pacing or budget holds admission'']))))
          | _ \<Rightarrow> Inr missing)
      | _ \<Rightarrow> Inl SampleAttributeError)"

text \<open>Free CPUs, memory and job slots from the snapshot.\<close>

definition local_headroom :: "(string \<times> pyval) list \<Rightarrow> int option \<Rightarrow> int \<times> int option \<times> int" where
  "local_headroom d mem_available =
     (let known = (case mem_available of None \<Rightarrow> [] | Some a \<Rightarrow> [a]);
          bounds = (if field d ''max_mem_mb'' = PyNone then known
                    else if field d ''used_mem_mb'' = PyNone then []
                    else known @ [int_of (field d ''max_mem_mb'') - int_of (field d ''used_mem_mb'')]) in
      (int_of (field d ''max_cpus'') - int_of (field d ''used_cpus''),
       if bounds = [] then None else Some (Min (set bounds)),
       if field d ''max_jobs'' = PyNone then UNLIMITED_JOBS
       else int_of (field d ''max_jobs'') - int_of (field d ''local_active'')))"

text \<open>One program: its status, and the runtime a scheduler lane pins.\<close>

definition program_status ::
  "sample_inputs \<Rightarrow> string option \<Rightarrow> string \<Rightarrow> string \<times> string option" where
  "program_status I scheduler_target name =
     (if name \<notin> set (si_programs I) then (''NOT_REGISTERED'', None)
      else case scheduler_target of
          None \<Rightarrow> (case si_availability I name of Inl e \<Rightarrow> (''ERROR: '' @ e, None) | Inr s \<Rightarrow> (s, None))
        | Some t \<Rightarrow> (case si_target_pin I t name of
            Inl e \<Rightarrow> (''ERROR: '' @ e, None)
          | Inr pin \<Rightarrow> (case (case pin of None \<Rightarrow> None | Some p \<Rightarrow> pin_expected_git_sha p) of
              None \<Rightarrow> (''RUNTIME_UNVERIFIED'', None)
            | Some sha \<Rightarrow> if sha = [] then (''RUNTIME_UNVERIFIED'', None) else (''OK'', Some sha))))"

definition py_trunc :: "rat \<Rightarrow> int" where
  "py_trunc x = (if 0 \<le> x then \<lfloor>x\<rfloor> else \<lceil>x\<rceil>)"

definition idle_seconds :: "sample_inputs \<Rightarrow> int option" where
  "idle_seconds I =
     (let here = filter (\<lambda>s. js_scheduler_target s = None) (si_specs I);
          finished = List.map_filter (\<lambda>s. if is_terminal s then Option.bind (js_finished_at s) (si_timestamp I) else None) here in
      if list_ex (\<lambda>s. js_state s \<in> {RUNNING, SUSPENDED}) here \<or> finished = [] then None
      else Some (max 0 (py_trunc (si_now I - Max (set finished)))))"

definition py_opt_str :: "string option \<Rightarrow> pyval" where
  "py_opt_str v = (case v of None \<Rightarrow> PyNone | Some s \<Rightarrow> PyStr s)"

text \<open>The closed gates found before the scheduler lane or the local holds are looked at.\<close>

definition base_reasons :: "sample_inputs \<Rightarrow> string list" where
  "base_reasons I =
     (if si_multi_user I then [''multi-user host: not a broker target in this contract''] else [])
     @ (if field (si_envelope I) ''ok'' = PyBool True then [] else [''the daemon did not answer''])
     @ (if root_agreement (si_envelope I) then [] else [''no running daemon was shown to use this state root''])"

definition daemon_snapshot :: "sample_inputs \<Rightarrow> sample_error + string + (string \<times> pyval) list" where
  "daemon_snapshot I = (case si_answer I of
      Inl e \<Rightarrow> Inr (Inl (''the daemon gave no admission snapshot: '' @ e))
    | Inr answer \<Rightarrow> valid_admission_snapshot answer (si_now I))"

text \<open>The scheduler lane a sample is for: its host and this configuration's binding of it.\<close>

definition sampled_lane ::
  "target_config \<Rightarrow> string option \<Rightarrow> sample_error + (host_config \<times> binding) option" where
  "sampled_lane cfg target = (case target of
      None \<Rightarrow> Inr None
    | Some t \<Rightarrow> (case (route cfg t, map_of (tc_hosts cfg) t) of
        (Inr (_, b), Some host) \<Rightarrow> Inr (Some (host, b))
      | (Inl e, _) \<Rightarrow> Inl (SampleRouteError e)
      | (_, None) \<Rightarrow> Inl SampleKeyError))"

definition lane_reasons :: "(host_config \<times> binding) option \<Rightarrow> (string \<times> pyval) list option \<Rightarrow> pyval list" where
  "lane_reasons lane scheduler = (case (lane, scheduler) of
      (Some (_, b), Some entry) \<Rightarrow>
        if equals_binding (field entry ''authority'') b then []
        else [PyStr ''scheduler configuration changed since daemon admission snapshot'']
    | _ \<Rightarrow> [])"

definition sample_queue_ready ::
  "sample_inputs \<Rightarrow> string option \<Rightarrow> (string \<times> pyval) list option \<Rightarrow> (string \<times> pyval) list option \<Rightarrow> bool" where
  "sample_queue_ready I target snapshot scheduler = (case target of
      Some t \<Rightarrow> (case scheduler of None \<Rightarrow> False | Some entry \<Rightarrow> field entry ''queue_ready'' = PyBool True)
        \<and> \<not> list_ex (\<lambda>s. js_state s = PENDING \<and> js_scheduler_target s = Some t) (si_specs I)
    | None \<Rightarrow> (case snapshot of None \<Rightarrow> False | Some d \<Rightarrow> int_of (field d ''local_pending'') = 0)
        \<and> \<not> list_ex (\<lambda>s. js_scheduler_target s = None \<and> js_state s = PENDING) (si_specs I))"

definition sample_free ::
  "sample_inputs \<Rightarrow> string option \<Rightarrow> (string \<times> pyval) list option \<Rightarrow> (string \<times> pyval) list option \<Rightarrow> pyval \<times> pyval \<times> pyval" where
  "sample_free I target snapshot scheduler = (case target of
      Some _ \<Rightarrow> (PyNone, PyNone, case scheduler of None \<Rightarrow> PyNone | Some entry \<Rightarrow> field entry ''free_jobs'')
    | None \<Rightarrow> (case snapshot of None \<Rightarrow> (PyNone, PyNone, PyNone)
        | Some d \<Rightarrow> (case local_headroom d (si_mem_available_mb I) of
            (c, m, j) \<Rightarrow> (PyInt c, py_opt_int m, PyInt j))))"

definition sample_local ::
  "sample_inputs \<Rightarrow> target_config \<Rightarrow> string list option \<Rightarrow> string option \<Rightarrow> sample_error + pyval" where
  "sample_local I cfg programs target =
     rbind (daemon_snapshot I) (\<lambda>found.
     let snapshot = (case found of Inl _ \<Rightarrow> None | Inr d \<Rightarrow> Some d) in
     rbind (case target of
              Some t \<Rightarrow> scheduler_evidence snapshot t
            | None \<Rightarrow> Inr (None, case snapshot of None \<Rightarrow> [] | Some d \<Rightarrow>
                (case field d ''holds'' of PyList hs \<Rightarrow> hs | _ \<Rightarrow> []))) (\<lambda>(scheduler, held).
     rbind (sampled_lane cfg target) (\<lambda>lane.
     let reasons = map PyStr (base_reasons I @ (case found of Inl e \<Rightarrow> [e] | Inr _ \<Rightarrow> [])) @ held @ lane_reasons lane scheduler;
         names = (case programs of None \<Rightarrow> sort (si_programs I) | Some ps \<Rightarrow> sort (remdups ps));
         statuses = map (\<lambda>n. (n, program_status I target n)) names;
         pending = filter (\<lambda>s. js_scheduler_target s = None \<and> js_state s = PENDING) (si_specs I) in
     Inr (PyDict [
       (''max_wall_time_seconds'', case lane of None \<Rightarrow> PyNone | Some (h, _) \<Rightarrow> py_opt_int (hc_scheduler_max_wall_time_seconds h)),
       (''max_request_cpus'', case lane of None \<Rightarrow> PyNone | Some (h, _) \<Rightarrow> py_opt_int (hc_scheduler_max_cpus h)),
       (''runtime_pins'', PyDict (List.map_filter (\<lambda>(n, _, pin). map_option (\<lambda>sha. (n, PyStr sha)) pin) statuses)),
       (''scheduler_target'', py_opt_str target),
       (''authority'', case lane of None \<Rightarrow> PyNone | Some (_, b) \<Rightarrow> binding_val b),
       (''lane_sha256'', case lane of None \<Rightarrow> PyNone | Some (h, _) \<Rightarrow> PyStr (tc_lane_digest cfg h)),
       (''schema'', PyStr CAPACITY_SCHEMA),
       (''sampled_at'', PyFloat (Fin (si_now I))),
       (''state_root'', if root_agreement (si_envelope I) then client_root (si_envelope I) else PyNone),
       (''daemon_ok'', PyBool (field (si_envelope I) ''ok'' = PyBool True)),
       (''state_root_agreement'', PyBool (root_agreement (si_envelope I))),
       (''admission'', PyDict [(''open'', PyBool (reasons = [])), (''reasons'', PyList reasons)]),
       (''queue_ready'', PyBool (sample_queue_ready I target snapshot scheduler)),
       (''snapshot_age_seconds'', case snapshot of None \<Rightarrow> PyNone
          | Some d \<Rightarrow> PyFloat (Fin (max 0 (si_now I - number_of (field d ''published_at''))))),
       (''pending_local_jobs'', case snapshot of None \<Rightarrow> PyInt 0 | Some d \<Rightarrow> field d ''local_pending''),
       (''pending_cpus'', PyInt (sum_list (map js_cpus pending))),
       (''free_cpus'', fst (sample_free I target snapshot scheduler)),
       (''free_mem_mb'', fst (snd (sample_free I target snapshot scheduler))),
       (''free_jobs'', snd (snd (sample_free I target snapshot scheduler))),
       (''gpus'', py_opt_int (fst (gpu_figures snapshot))),
       (''free_gpus'', py_opt_int (snd (gpu_figures snapshot))),
       (''idle_seconds'', py_opt_int (idle_seconds I)),
       (''programs'', PyDict (map (\<lambda>(n, s, _). (n, PyStr s)) statuses)),
       (''jobs'', PyList (map PyStr (sort (map js_id (si_specs I)))))]))))"

section \<open>What the broker makes of it\<close>

datatype malformation =
    NotCapacityAnswer | NoAdmission | AdmissionMalformed | ReasonsMalformed | NotBoolean string | StateRootMalformed
  | ProgramsMalformed | JobsMalformed | AuthorityMalformed | UnhashableScheduler | PinsMalformed
  | NotInteger string | AgeInvalid

datatype evidence_error =
    Unusable malformation | Unconfigured | NoRoute route_error | NoAnswer string | DifferentAuthority
  | NotDrivenThere | NoLaneDigest | LaneDiffers

record target_evidence =
  te_host :: string
  te_snapshot :: capacity_snapshot
  te_state_root :: "string option"
  te_programs :: "(string \<times> string) list"
  te_jobs :: "string list"
  te_reasons :: "string list"
  te_error :: "evidence_error option"

definition closed_evidence :: "string \<Rightarrow> pyfloat \<Rightarrow> evidence_error \<Rightarrow> target_evidence" where
  "closed_evidence host observed_at e = \<lparr>te_host = host,
     te_snapshot = \<lparr>sn_host = host, sn_observed_at = observed_at, sn_free_cpus = None, sn_free_mem_mb = None,
       sn_free_jobs = None, sn_reachable = False, sn_daemon_healthy = False, sn_state_root_agreement = False,
       sn_admission_open = False, sn_queue_ready = False, sn_is_scheduler_host = False,
       sn_scheduler_admission = False, sn_max_request_cpus = None, sn_authority = PyNone,
       sn_runtime_pins = PyNone, sn_pools = [], sn_max_wall_time_seconds = PyNone, sn_pending_cpus = 0,
       sn_idle_seconds = None\<rparr>,
     te_state_root = None, te_programs = [], te_jobs = [], te_reasons = [], te_error = Some e\<rparr>"

definition int_or_none :: "(string \<times> pyval) list \<Rightarrow> string \<Rightarrow> malformation + int option" where
  "int_or_none d name = (case field d name of PyNone \<Rightarrow> Inr None | PyInt n \<Rightarrow> Inr (Some n) | _ \<Rightarrow> Inl (NotInteger name))"

definition refuse_unless :: "bool \<Rightarrow> malformation \<Rightarrow> malformation + unit" where
  "refuse_unless ok e = (if ok then Inr () else Inl e)"

definition check_admission :: "(string \<times> pyval) list \<Rightarrow> malformation + bool \<times> string list" where
  "check_admission d = (case map_of d ''admission'' of
      None \<Rightarrow> Inl NoAdmission
    | Some (PyDict adm) \<Rightarrow> (case field adm ''open'' of
        PyBool b \<Rightarrow> (case field adm ''reasons'' of
            PyList rs \<Rightarrow> if list_all is_str rs then Inr (b, map str_of rs) else Inl ReasonsMalformed
          | _ \<Rightarrow> Inl ReasonsMalformed)
      | _ \<Rightarrow> Inl AdmissionMalformed)
    | _ \<Rightarrow> Inl AdmissionMalformed)"

fun check_booleans :: "(string \<times> pyval) list \<Rightarrow> string list \<Rightarrow> malformation + unit" where
  "check_booleans d [] = Inr ()"
| "check_booleans d (n # ns) = (case field d n of PyBool _ \<Rightarrow> check_booleans d ns | _ \<Rightarrow> Inl (NotBoolean n))"

definition check_state_root :: "(string \<times> pyval) list \<Rightarrow> malformation + string option" where
  "check_state_root d = (case field d ''state_root'' of
      PyNone \<Rightarrow> Inr None
    | PyStr r \<Rightarrow> if starts_with ''/'' r then Inr (Some r) else Inl StateRootMalformed
    | _ \<Rightarrow> Inl StateRootMalformed)"

definition check_authority :: "string \<Rightarrow> (string \<times> pyval) list \<Rightarrow> malformation + unit" where
  "check_authority host d =
     (if field d ''scheduler_target'' = PyNone then Inr ()
      else if field d ''scheduler_target'' \<noteq> PyStr host then Inl AuthorityMalformed
      else case field d ''authority'' of
          PyDict a \<Rightarrow> (case field a ''scheduler'' of
              PyList _ \<Rightarrow> Inl UnhashableScheduler
            | PyDict _ \<Rightarrow> Inl UnhashableScheduler
            | s \<Rightarrow> refuse_unless (s \<in> {PyStr ''slurm'', PyStr ''pbs''} \<and> field a ''target'' = PyStr host
                     \<and> list_all (\<lambda>kv. is_str (snd kv)) a) AuthorityMalformed)
        | _ \<Rightarrow> Inl AuthorityMalformed)"

definition check_pins :: "(string \<times> pyval) list \<Rightarrow> malformation + unit" where
  "check_pins d = (case field d ''runtime_pins'' of
      PyNone \<Rightarrow> Inr ()
    | PyDict pins \<Rightarrow> refuse_unless (list_all (\<lambda>kv. case snd kv of
        PyStr sha \<Rightarrow> length sha = 40 \<and> list_all is_lower_hex sha | _ \<Rightarrow> False) pins) PinsMalformed
    | _ \<Rightarrow> Inl PinsMalformed)"

definition check_age :: "(string \<times> pyval) list \<Rightarrow> malformation + rat" where
  "check_age d = (let age = field d ''snapshot_age_seconds'' in
     if age = PyNone then Inr 0
     else if \<not> finite_number age \<or> number_of age < 0 then Inl AgeInvalid else Inr (number_of age))"

text \<open>
  The checks up to the age of the figures, in the order of the code: whether the target called admission open,
  its reasons, its state root, programs, jobs and pending CPUs.
\<close>

record answer_head =
  ah_open :: bool
  ah_reasons :: "string list"
  ah_root :: "string option"
  ah_programs :: "(string \<times> string) list"
  ah_jobs :: "string list"
  ah_pending_cpus :: int

definition check_programs :: "(string \<times> pyval) list \<Rightarrow> malformation + (string \<times> string) list" where
  "check_programs d = (case field d ''programs'' of
      PyDict ps \<Rightarrow> if list_all (\<lambda>kv. is_str (snd kv)) ps then Inr (map (\<lambda>(k, v). (k, str_of v)) ps) else Inl ProgramsMalformed
    | _ \<Rightarrow> Inl ProgramsMalformed)"

definition check_jobs :: "(string \<times> pyval) list \<Rightarrow> malformation + string list" where
  "check_jobs d = (case field d ''jobs'' of
      PyList js \<Rightarrow> if list_all is_str js then Inr (map str_of js) else Inl JobsMalformed | _ \<Rightarrow> Inl JobsMalformed)"

definition check_head :: "string \<Rightarrow> pyval \<Rightarrow> malformation + (string \<times> pyval) list \<times> answer_head" where
  "check_head host payload = (case payload of
      PyDict d \<Rightarrow>
        if field d ''schema'' \<noteq> PyStr CAPACITY_SCHEMA then Inl NotCapacityAnswer
        else rbind (check_admission d) (\<lambda>(opened, reasons).
          rbind (check_booleans d [''daemon_ok'', ''state_root_agreement'', ''queue_ready'']) (\<lambda>_.
          rbind (check_state_root d) (\<lambda>sroot.
          rbind (check_programs d) (\<lambda>programs.
          rbind (check_jobs d) (\<lambda>jobs.
          rbind (check_authority host d) (\<lambda>_.
          rbind (check_pins d) (\<lambda>_.
          rbind (int_or_none d ''pending_cpus'') (\<lambda>pending.
            Inr (d, \<lparr>ah_open = opened, ah_reasons = reasons, ah_root = sroot, ah_programs = programs,
              ah_jobs = jobs, ah_pending_cpus = the_or 0 pending\<rparr>)))))))))
    | _ \<Rightarrow> Inl NotCapacityAnswer)"

definition minus_age :: "pyfloat \<Rightarrow> rat \<Rightarrow> pyfloat" where
  "minus_age t age = (case t of Fin x \<Rightarrow> Fin (x - age) | NonFin \<Rightarrow> NonFin)"

definition answered_snapshot ::
  "string \<Rightarrow> (string \<times> pyval) list \<Rightarrow> answer_head \<Rightarrow> pyfloat \<Rightarrow> string list \<Rightarrow> malformation + capacity_snapshot" where
  "answered_snapshot host d h observed_at pools =
     rbind (int_or_none d ''free_cpus'') (\<lambda>cpus.
     rbind (int_or_none d ''free_mem_mb'') (\<lambda>mem.
     rbind (int_or_none d ''free_jobs'') (\<lambda>jobs.
     rbind (int_or_none d ''max_request_cpus'') (\<lambda>max_cpus.
     rbind (int_or_none d ''idle_seconds'') (\<lambda>idle.
       Inr \<lparr>sn_host = host, sn_observed_at = observed_at, sn_free_cpus = cpus, sn_free_mem_mb = mem,
         sn_free_jobs = jobs, sn_reachable = True, sn_daemon_healthy = (field d ''daemon_ok'' = PyBool True),
         sn_state_root_agreement = (field d ''state_root_agreement'' = PyBool True \<and> ah_root h \<noteq> None),
         sn_admission_open = (ah_open h \<and> ah_reasons h = []),
         sn_queue_ready = (field d ''queue_ready'' = PyBool True),
         sn_is_scheduler_host = (field d ''scheduler_target'' \<noteq> PyNone),
         sn_scheduler_admission = (field d ''scheduler_target'' = PyStr host),
         sn_max_request_cpus = max_cpus, sn_authority = field d ''authority'',
         sn_runtime_pins = field d ''runtime_pins'', sn_pools = pools,
         sn_max_wall_time_seconds = field d ''max_wall_time_seconds'',
         sn_pending_cpus = max (ah_pending_cpus h) 0, sn_idle_seconds = idle\<rparr>)))))"

datatype evidence_raise = EvidenceOverflowError | EvidenceValueError

definition evidence_from_payload ::
  "string \<Rightarrow> pyval \<Rightarrow> pyfloat \<Rightarrow> string list \<Rightarrow> evidence_raise + target_evidence" where
  "evidence_from_payload host payload observed_at pools = (case check_head host payload of
      Inl e \<Rightarrow> Inr (closed_evidence host observed_at (Unusable e))
    | Inr (d, h) \<Rightarrow>
        if float_overflow (field d ''snapshot_age_seconds'') then Inl EvidenceOverflowError
        else (case check_age d of
          Inl e \<Rightarrow> Inr (closed_evidence host observed_at (Unusable e))
        | Inr age \<Rightarrow> (case answered_snapshot host d h (minus_age observed_at age) pools of
            Inl e \<Rightarrow> Inr (closed_evidence host (minus_age observed_at age) (Unusable e))
          | Inr s \<Rightarrow> Inr \<lparr>te_host = host, te_snapshot = s,
              te_state_root = (if sn_state_root_agreement s then ah_root h else None),
              te_programs = ah_programs h, te_jobs = ah_jobs h, te_reasons = ah_reasons h, te_error = None\<rparr>)))"

section \<open>Collecting from every target\<close>

definition host_pools :: "target_config \<Rightarrow> string \<Rightarrow> string list" where
  "host_pools cfg host = map fst (filter (\<lambda>(_, members). host \<in> set members) (tc_pools cfg))"

definition remote_driver_payload :: "string \<Rightarrow> pyval \<Rightarrow> binding \<Rightarrow> evidence_error + pyval" where
  "remote_driver_payload host payload b = (case payload of
      PyDict d \<Rightarrow> (case field d ''authority'' of
          PyDict reported \<Rightarrow>
            if field d ''scheduler_target'' \<noteq> PyStr host \<or> field reported ''target'' \<noteq> PyStr host
              \<or> field reported ''scheduler'' \<noteq> py_opt_str (map_of b ''scheduler'') then Inl DifferentAuthority
            else if field reported ''ssh'' \<noteq> PyStr ''localhost'' then Inl NotDrivenThere
            else if field d ''lane_sha256'' = PyNone then Inl NoLaneDigest
            else if field d ''lane_sha256'' \<noteq> py_opt_str (map_of b ''lane_sha256'') then Inl LaneDiffers
            else Inr (PyDict (AList.update ''authority'' (binding_val b) d))
        | _ \<Rightarrow> Inl DifferentAuthority)
    | _ \<Rightarrow> Inl DifferentAuthority)"

text \<open>
  The command of one target. \<open>ask\<close> runs \<open>vq broker capacity --json\<close> with the given arguments on a host and
  decodes its output; an exception, also of the decoding, is \<open>Inl\<close> with its text.
\<close>

definition fetch_payload ::
  "target_config \<Rightarrow> (host_config \<Rightarrow> string list \<Rightarrow> string + pyval) \<Rightarrow> string list \<Rightarrow> string \<Rightarrow> evidence_error + pyval" where
  "fetch_payload cfg ask programs host = (case map_of (tc_hosts cfg) host of
      None \<Rightarrow> Inl Unconfigured
    | Some h \<Rightarrow>
       (let program_args = concat (map (\<lambda>n. [''--program'', n]) (sort (remdups programs))) in
        if hc_scheduler h = ''local''
        then (case ask h program_args of Inl e \<Rightarrow> Inl (NoAnswer e) | Inr payload \<Rightarrow> Inr payload)
        else (case route cfg host of
            Inl e \<Rightarrow> Inl (NoRoute e)
          | Inr (authority, b) \<Rightarrow>
              (case ask authority (program_args @ [''--scheduler-target'', host]) of
                 Inl e \<Rightarrow> Inl (NoAnswer e)
               | Inr payload \<Rightarrow>
                   if is_remote_driver authority then remote_driver_payload host payload b
                   else (case payload of
                      PyDict d \<Rightarrow> if field d ''scheduler_target'' = PyStr host \<and> equals_binding (field d ''authority'') b
                        then Inr payload else Inl DifferentAuthority
                    | _ \<Rightarrow> Inl DifferentAuthority)))))"

definition collect_one ::
  "target_config \<Rightarrow> (host_config \<Rightarrow> string list \<Rightarrow> string + pyval) \<Rightarrow> (string \<Rightarrow> pyfloat) \<Rightarrow> string list \<Rightarrow> string \<Rightarrow>
   evidence_raise + target_evidence" where
  "collect_one cfg ask clock programs host = (case fetch_payload cfg ask programs host of
      Inl e \<Rightarrow> Inr (closed_evidence host (clock host) e)
    | Inr payload \<Rightarrow> evidence_from_payload host payload (clock host) (host_pools cfg host))"

fun collect_results ::
  "target_config \<Rightarrow> (host_config \<Rightarrow> string list \<Rightarrow> string + pyval) \<Rightarrow> (string \<Rightarrow> pyfloat) \<Rightarrow> string list \<Rightarrow> string list \<Rightarrow>
   evidence_raise + target_evidence list" where
  "collect_results cfg ask clock programs [] = Inr []"
| "collect_results cfg ask clock programs (h # hs) =
     rbind (collect_one cfg ask clock programs h) (\<lambda>e.
     rbind (collect_results cfg ask clock programs hs) (\<lambda>es. Inr (e # es)))"

text \<open>The evidence by host.\<close>

definition collect ::
  "target_config \<Rightarrow> (host_config \<Rightarrow> string list \<Rightarrow> string + pyval) \<Rightarrow> (string \<Rightarrow> pyfloat) \<Rightarrow> pyfloat \<Rightarrow> string list \<Rightarrow> string list \<Rightarrow>
   evidence_raise + (string \<times> target_evidence) list" where
  "collect cfg ask clock timeout programs targets =
     (if (case timeout of NonFin \<Rightarrow> True | Fin t \<Rightarrow> t \<le> 0) then Inl EvidenceValueError
      else rbind (collect_results cfg ask clock programs targets) (\<lambda>es. Inr (dict_of (map (\<lambda>e. (te_host e, e)) es))))"

definition program_refusal :: "(string \<times> target_evidence) list \<Rightarrow> broker_record \<Rightarrow> string \<Rightarrow> string option" where
  "program_refusal evidence r host = (case in_program (br_intent r) of
      None \<Rightarrow> None
    | Some program \<Rightarrow>
       (let status = (case map_of evidence host of None \<Rightarrow> None | Some e \<Rightarrow> map_of (te_programs e) program) in
        if status = Some ''OK'' then None
        else Some (''program '' @ program @ '' is '' @
          (case status of None \<Rightarrow> ''not registered'' | Some s \<Rightarrow> if s = [] then ''not registered'' else s) @ '' on '' @ host)))"

section \<open>What open evidence proves\<close>

lemma field_Cons [simp]: "field ((k, v) # d) n = (if k = n then v else field d n)"
  by (simp add: field_def)

lemma py_opt_simps [simp]:
  "py_opt_int None = PyNone" "py_opt_int (Some n) = PyInt n" "py_opt_str None = PyNone" "py_opt_str (Some t) = PyStr t"
  "py_opt_int v = PyNone \<longleftrightarrow> v = None" "py_opt_int v = PyInt n \<longleftrightarrow> v = Some n" "PyInt n = py_opt_int v \<longleftrightarrow> v = Some n"
  "int_of (py_opt_int v) = the_or 0 v"
  by (auto simp: py_opt_int_def py_opt_str_def int_of_def split: option.splits)

lemma py_opt_int_inject [simp]: "py_opt_int v = py_opt_int u \<longleftrightarrow> v = u"
  by (cases u) (auto simp: py_opt_int_def split: option.splits)

lemma closed_evidence_blocked [simp]: "host_blocker (te_snapshot (closed_evidence host t e)) rq now age = Some ''unreachable''"
  by (simp add: closed_evidence_def host_blocker_def confirmation_gap_def)

lemma closed_evidence_sel [simp]:
  "te_host (closed_evidence host t e) = host" "sn_host (te_snapshot (closed_evidence host t e)) = host"
  "sn_observed_at (te_snapshot (closed_evidence host t e)) = t" "te_error (closed_evidence host t e) = Some e"
  by (simp_all add: closed_evidence_def)

lemma blocker_None_gates:
  assumes "host_blocker s rq now age = None"
  shows "sn_reachable s" "sn_daemon_healthy s" "sn_state_root_agreement s" "sn_admission_open s" "sn_queue_ready s"
  using assms by (auto simp: host_blocker_def confirmation_gap_def split: if_splits)

lemma int_or_none_Inr: "int_or_none d n = Inr v \<longleftrightarrow> field d n = py_opt_int v"
  by (auto simp: int_or_none_def py_opt_int_def split: pyval.splits option.splits)

lemma answered_sel:
  assumes "answered_snapshot host d h t pools = Inr s"
  shows "sn_host s = host" "sn_observed_at s = t" "sn_pools s = pools"
    "field d ''free_cpus'' = py_opt_int (sn_free_cpus s)" "field d ''free_mem_mb'' = py_opt_int (sn_free_mem_mb s)"
    "field d ''free_jobs'' = py_opt_int (sn_free_jobs s)"
    "field d ''max_request_cpus'' = py_opt_int (sn_max_request_cpus s)"
    "sn_daemon_healthy s \<longleftrightarrow> field d ''daemon_ok'' = PyBool True"
    "sn_state_root_agreement s \<longleftrightarrow> field d ''state_root_agreement'' = PyBool True \<and> ah_root h \<noteq> None"
    "sn_admission_open s \<longleftrightarrow> ah_open h \<and> ah_reasons h = []"
    "sn_queue_ready s \<longleftrightarrow> field d ''queue_ready'' = PyBool True"
    "sn_is_scheduler_host s \<longleftrightarrow> field d ''scheduler_target'' \<noteq> PyNone"
    "sn_max_wall_time_seconds s = field d ''max_wall_time_seconds''"
  using assms by (auto simp: answered_snapshot_def int_or_none_Inr)

lemma check_head_Inr:
  assumes "check_head host (PyDict d) = Inr (d', h)"
  shows "d' = d" "field d ''schema'' = PyStr CAPACITY_SCHEMA" "check_admission d = Inr (ah_open h, ah_reasons h)"
    "check_state_root d = Inr (ah_root h)" "check_programs d = Inr (ah_programs h)" "check_jobs d = Inr (ah_jobs h)"
    "check_authority host d = Inr ()" "check_pins d = Inr ()"
  using assms by (auto simp: check_head_def split: if_splits)

text \<open>The answer behind evidence that the decision would accept.\<close>

lemma evidence_open:
  assumes "evidence_from_payload host payload observed_at pools = Inr ev"
    and "host_blocker (te_snapshot ev) rq now max_age = None"
  obtains d h age s where "check_head host payload = Inr (d, h)" "payload = PyDict d" "check_age d = Inr age"
    "answered_snapshot host d h (minus_age observed_at age) pools = Inr s" "te_snapshot ev = s"
    "te_state_root ev = ah_root h" "ah_root h \<noteq> None" "te_programs ev = ah_programs h" "te_jobs ev = ah_jobs h"
proof -
  obtain d h where h: "check_head host payload = Inr (d, h)"
    using assms
    by (cases "check_head host payload") (auto simp: evidence_from_payload_def)
  moreover from h have p: "payload = PyDict d" by (cases payload) (auto simp: check_head_def split: if_splits)
  moreover obtain age where age: "check_age d = Inr age"
    using assms h
    by (cases "check_age d") (auto simp: evidence_from_payload_def split: if_splits)
  moreover obtain s where s: "answered_snapshot host d h (minus_age observed_at age) pools = Inr s"
    using assms h age
    by (cases "answered_snapshot host d h (minus_age observed_at age) pools")
       (auto simp: evidence_from_payload_def split: if_splits)
  moreover have ev: "te_snapshot ev = s"
    "te_state_root ev = (if sn_state_root_agreement s then ah_root h else None)"
    "te_programs ev = ah_programs h" "te_jobs ev = ah_jobs h"
    using assms(1) h age s by (auto simp: evidence_from_payload_def split: if_splits)
  moreover have "ah_root h \<noteq> None" "sn_state_root_agreement s"
    using blocker_None_gates(3) [OF assms(2)] ev answered_sel(9) [OF s] by simp_all
  ultimately show thesis using that by simp
qed

lemma valid_snapshot_Inr:
  assumes "valid_admission_snapshot answer t = Inr (Inr d)"
  shows "answer = PyDict d" "\<not> snapshot_malformed d" "t - number_of (field d ''published_at'') \<le> 30"
  using assms
  by (auto simp: valid_admission_snapshot_def Let_def ADMISSION_SNAPSHOT_MAX_AGE_SECONDS_def
      split: pyval.splits if_splits)

lemma daemon_snapshot_Inr:
  assumes "daemon_snapshot I = Inr (Inr d)"
  shows "si_answer I = Inr (PyDict d)" "\<not> snapshot_malformed d" "\<exists>hs. field d ''holds'' = PyList hs"
    "si_now I - number_of (field d ''published_at'') \<le> 30"
proof -
  obtain answer where a: "si_answer I = Inr answer" "valid_admission_snapshot answer (si_now I) = Inr (Inr d)"
    using assms by (auto simp: daemon_snapshot_def split: sum.splits)
  from valid_snapshot_Inr [OF a(2)] a(1) show "si_answer I = Inr (PyDict d)" "\<not> snapshot_malformed d"
    "si_now I - number_of (field d ''published_at'') \<le> 30" by simp_all
  then show "\<exists>hs. field d ''holds'' = PyList hs"
    by (cases "field d ''holds''") (simp_all add: snapshot_malformed_def)
qed

text \<open>An open answer about local work: the daemon's snapshot was valid and had no hold.\<close>

lemma local_sample_open:
  assumes "sample_local I cfg programs None = Inr (PyDict p)" "check_admission p = Inr (True, [])"
  obtains d where "daemon_snapshot I = Inr (Inr d)" "base_reasons I = []" "field d ''holds'' = PyList []"
    "field p ''queue_ready'' = PyBool (sample_queue_ready I None (Some d) None)"
    "field p ''free_cpus'' = PyInt (fst (local_headroom d (si_mem_available_mb I)))"
    "field p ''free_mem_mb'' = py_opt_int (fst (snd (local_headroom d (si_mem_available_mb I))))"
    "field p ''free_jobs'' = PyInt (snd (snd (local_headroom d (si_mem_available_mb I))))"
    "field p ''snapshot_age_seconds'' = PyFloat (Fin (max 0 (si_now I - number_of (field d ''published_at''))))"
    "field p ''scheduler_target'' = PyNone"
    "field p ''state_root'' = (if root_agreement (si_envelope I) then client_root (si_envelope I) else PyNone)"
proof -
  obtain found where found: "daemon_snapshot I = Inr found"
    using assms(1) by (cases "daemon_snapshot I") (auto simp: sample_local_def)
  show thesis
  proof (cases found)
    case (Inl e)
    then show thesis using assms found
      by (auto simp: sample_local_def sampled_lane_def lane_reasons_def check_admission_def Let_def split: if_splits)
  next
    case (Inr d)
    from daemon_snapshot_Inr(3) found Inr obtain hs where hs: "field d ''holds'' = PyList hs" by blast
    have "hs = []" "base_reasons I = []" using assms found Inr hs
      by (auto simp: sample_local_def sampled_lane_def lane_reasons_def check_admission_def Let_def split: if_splits)
    with that [of d] assms(1) found Inr hs show thesis
      by (auto simp: sample_local_def sampled_lane_def sample_free_def Let_def split: prod.splits)
  qed
qed

text \<open>Fields of the published snapshot.\<close>

lemma admission_snapshot_field:
  assumes "admission_snapshot d fp ds clk t = PyDict s"
  shows "field s ''holds'' = PyList (map PyStr (local_holds d fp ds))" "field s ''published_at'' = PyFloat (Fin t)"
    "field s ''local_pending'' = PyInt (case dv_spec_facts d of None \<Rightarrow> 0 | Some (n, _) \<Rightarrow> n)"
    "field s ''max_cpus'' = PyInt (dv_max_cpus d)" "field s ''max_jobs'' = py_opt_int (dv_max_jobs d)"
    "field s ''max_mem_mb'' = py_opt_int (dv_max_mem_mb d)" "field s ''used_mem_mb'' = py_opt_int (used_mem_mb d)"
    "field s ''local_active'' = PyInt (int (length (local_jobs d)))"
    "field s ''used_cpus'' = PyInt (sum_list (map lj_cpus (local_jobs d)))"
    "map_of s ''scheduler_targets'' = Some (PyDict (case dv_scheduler_facts d of None \<Rightarrow> []
        | Some (cfg, a, specs) \<Rightarrow> List.map_filter (scheduler_target_fact d fp ds clk cfg a specs) (tc_hosts cfg)))"
  using assms by (auto simp: admission_snapshot_def)

lemma local_holds_Nil:
  "local_holds d fp ds = [] \<longleftrightarrow> \<not> in_hold_scope d LOCAL_DISPATCH_SCOPE \<and> fp = dv_config_fingerprint d
     \<and> \<not> drain_holds_local ds \<and> \<not> dv_host_pressure d \<and> (\<exists>n. dv_spec_facts d = Some (n, False, False))"
  by (auto simp: local_holds_def split: option.splits)

lemma local_headroom_mem:
  assumes "fst (snd (local_headroom s avail)) = Some m" "field s ''max_mem_mb'' = py_opt_int cap"
    "field s ''used_mem_mb'' = py_opt_int used"
  shows "avail = Some a \<Longrightarrow> m \<le> a" "cap = Some c \<Longrightarrow> \<exists>u. used = Some u \<and> m + u \<le> c"
  using assms by (cases avail; cases cap; cases used; force simp: local_headroom_def int_of_def Let_def)+

text \<open>What \<open>host_blocker\<close> checked about a daemon host.\<close>

lemma blocker_None_daemon:
  assumes "host_blocker s rq now max_age = None" "\<not> sn_is_scheduler_host s"
  obtains t c m j where "sn_observed_at s = Fin t" "t \<le> now" "now - t \<le> max_age"
    "sn_free_cpus s = Some c" "rq_cpus rq \<le> c" "sn_free_mem_mb s = Some m" "rq_mem_mb rq \<le> m"
    "sn_free_jobs s = Some j" "1 \<le> j"
  using assms by (auto simp: host_blocker_def headroom_gap_def split: if_splits option.splits pyfloat.splits)

text \<open>
  A daemon that admits one more local job of the given demand: nothing holds its local dispatch and the job fits
  on top of everything it runs.
\<close>

definition admits_local :: "daemon_view \<Rightarrow> string option \<Rightarrow> drain_state option \<Rightarrow> placement_request \<Rightarrow> bool" where
  "admits_local d fp ds rq \<longleftrightarrow>
     \<not> in_hold_scope d LOCAL_DISPATCH_SCOPE \<and> fp = dv_config_fingerprint d \<and> \<not> drain_holds_local ds
     \<and> \<not> dv_host_pressure d \<and> dv_spec_facts d = Some (0, False, False)
     \<and> sum_list (map lj_cpus (local_jobs d)) + rq_cpus rq \<le> dv_max_cpus d
     \<and> (case dv_max_jobs d of None \<Rightarrow> True | Some m \<Rightarrow> int (length (local_jobs d)) < m)
     \<and> (case dv_max_mem_mb d of None \<Rightarrow> True | Some m \<Rightarrow>
          (case used_mem_mb d of None \<Rightarrow> False | Some u \<Rightarrow> u + rq_mem_mb rq \<le> m))"

text \<open>The evidence, the answer and the daemon's snapshot behind an eligible target, in one step.\<close>

lemma eligible_answer:
  assumes "evidence_from_payload host payload (Fin started) pools = Inr e"
    and "host_blocker (te_snapshot e) rq now max_age = None"
  obtains p h age s where "payload = PyDict p" "check_admission p = Inr (True, [])" "check_age p = Inr age"
    "answered_snapshot host p h (Fin (started - age)) pools = Inr s" "host_blocker s rq now max_age = None"
    "field p ''queue_ready'' = PyBool True" "check_state_root p = Inr (te_state_root e)" "te_state_root e \<noteq> None"
    "check_authority host p = Inr ()"
proof -
  obtain p h age s where e: "check_head host payload = Inr (p, h)" "payload = PyDict p" "check_age p = Inr age"
    "answered_snapshot host p h (minus_age (Fin started) age) pools = Inr s" "te_snapshot e = s"
    "te_state_root e = ah_root h" "ah_root h \<noteq> None"
    using evidence_open [OF assms] by metis
  note sel = answered_sel [OF e(4)] and head = check_head_Inr [OF e(1) [unfolded e(2)]]
  note gates = blocker_None_gates [OF assms(2), unfolded e(5)]
  show thesis using that [of p age h s] e assms(2) head gates sel(10,11) by (simp add: minus_age_def)
qed

lemma blocker_None_scheduler:
  assumes "host_blocker s rq now max_age = None" "sn_is_scheduler_host s"
  obtains t j where "sn_observed_at s = Fin t" "now - t \<le> max_age" "sn_free_jobs s = Some j" "1 \<le> j"
    "case sn_max_request_cpus s of None \<Rightarrow> True | Some m \<Rightarrow> rq_cpus rq \<le> m"
  using assms by (auto simp: host_blocker_def scheduler_slot_gap_def split: if_splits option.splits pyfloat.splits)

lemma published_snapshot:
  assumes "publish_admission_snapshot env fp clk published (d, w) = (d', w')"
    "si_answer I = Inr (dv_snapshot d')" "daemon_snapshot I = Inr (Inr a)"
  shows "admission_snapshot d fp (fst (read_effective_drain_state env w)) clk published = PyDict a"
  using assms daemon_snapshot_Inr(1) [OF assms(3)] by (auto simp: publish_admission_snapshot_def split: prod.splits)

lemma field_in: "field d k = v \<Longrightarrow> v \<noteq> PyNone \<Longrightarrow> (k, v) \<in> set d"
  by (auto simp: field_def the_or_def split: option.splits dest: map_of_SomeD)

lemma py_iter_Nil: "py_iter v = Some [] \<longleftrightarrow> v = PyList [] \<or> v = PyStr [] \<or> v = PyDict []"
  by (auto simp: py_iter_def split: pyval.splits)

definition route_binding :: "target_config \<Rightarrow> string \<Rightarrow> binding option" where
  "route_binding cfg t = (case route cfg t of Inl _ \<Rightarrow> None | Inr (_, b) \<Rightarrow> Some b)"

lemma equals_binding_val: "equals_binding (binding_val c) b \<longleftrightarrow> set c = set b"
  by (simp add: equals_binding_def binding_val_def inj_image_eq_iff inj_on_def)

text \<open>An open answer about a scheduler lane.\<close>

lemma lane_sample_open:
  assumes "sample_local I cfg programs (Some t) = Inr (PyDict p)" "check_admission p = Inr (True, [])"
  obtains d entry targets b where "daemon_snapshot I = Inr (Inr d)"
    "the_or (PyDict []) (map_of d ''scheduler_targets'') = PyDict targets" "field targets t = PyDict entry"
    "py_iter (field entry ''holds'') = Some []" "field entry ''can_attempt'' = PyBool True"
    "route_binding cfg t = Some b" "equals_binding (field entry ''authority'') b"
    "field p ''free_jobs'' = field entry ''free_jobs''" "field p ''scheduler_target'' = PyStr t"
    "field p ''queue_ready'' = PyBool (sample_queue_ready I (Some t) (Some d) (Some entry))"
proof -
  obtain found sch held lane where f: "daemon_snapshot I = Inr found"
    "scheduler_evidence (case found of Inl _ \<Rightarrow> None | Inr d \<Rightarrow> Some d) t = Inr (sch, held)"
    "sampled_lane cfg (Some t) = Inr lane"
    using assms(1) by (auto simp: sample_local_def Let_def)
  have p: "field p ''admission'' = PyDict [(''open'', PyBool (r = [])), (''reasons'', PyList r)]"
    if "r = map PyStr (base_reasons I @ (case found of Inl e \<Rightarrow> [e] | Inr _ \<Rightarrow> [])) @ held @ lane_reasons lane sch" for r
    using assms(1) f that by (auto simp: sample_local_def Let_def)
  have empty: "map PyStr (base_reasons I @ (case found of Inl e \<Rightarrow> [e] | Inr _ \<Rightarrow> [])) @ held @ lane_reasons lane sch = []"
    using p [OF refl] assms(2) by (auto simp: check_admission_def field_def the_or_def split: option.splits if_splits)
  then obtain d where d: "found = Inr d" by (cases found) auto
  obtain targets entry where e: "the_or (PyDict []) (map_of d ''scheduler_targets'') = PyDict targets"
    "field targets t = PyDict entry" "sch = Some entry" "py_iter (field entry ''holds'') = Some []"
    "field entry ''can_attempt'' = PyBool True"
    using f(2) d empty
    by (auto simp: scheduler_evidence_def Let_def field_def [of _ "''holds''"] split: pyval.splits option.splits if_splits)
  obtain h b where b: "lane = Some (h, b)" "route_binding cfg t = Some b"
    using f(3) by (auto simp: sampled_lane_def route_binding_def split: sum.splits option.splits)
  show thesis using that [OF _ e(1,2,4,5) b(2)] assms(1) f d e(3) b(1) empty
    by (auto simp: sample_local_def sample_free_def lane_reasons_def Let_def split: if_splits)
qed

abbreviation lane_fact where
  "lane_fact d fp ds clk a specs t c \<equiv> [
     (''holds'', PyList (map PyStr (target_holds d fp ds t))),
     (''free_jobs'', PyInt (target_free_jobs d a t)),
     (''queue_ready'', PyBool (\<not> list_ex (pending_on_target a t) specs)),
     (''can_attempt'', PyBool (can_attempt a t clk)),
     (''authority'', binding_val c)]"

lemma lane_fact_in:
  "(t, PyDict entry) \<in> set (List.map_filter (scheduler_target_fact d fp ds clk cfg a specs) hs)
   \<Longrightarrow> \<exists>c. route_binding cfg t = Some c \<and> entry = lane_fact d fp ds clk a specs t c"
  by (auto simp: map_filter_def scheduler_target_fact_def route_binding_def split: if_splits sum.splits)

text \<open>A daemon that admits one more job to a scheduler target now.\<close>

definition admits_scheduler ::
  "daemon_view \<Rightarrow> string option \<Rightarrow> drain_state option \<Rightarrow> rat \<Rightarrow> scheduler_admission \<Rightarrow> job_spec list \<Rightarrow> string \<Rightarrow> bool" where
  "admits_scheduler d fp ds clk a specs name \<longleftrightarrow>
     \<not> in_hold_scope d name \<and> fp = dv_config_fingerprint d \<and> \<not> drain_holds_target ds name
     \<and> (case dv_spec_facts d of None \<Rightarrow> True | Some (_, refresh, build) \<Rightarrow> \<not> refresh \<and> \<not> build)
     \<and> can_attempt a name clk \<and> 1 \<le> free_jobs a name
     \<and> (case dv_max_scheduler_jobs d of None \<Rightarrow> True | Some m \<Rightarrow> total_reserved a < m)
     \<and> \<not> list_ex (pending_on_target a name) specs"

lemma target_holds_Nil:
  "target_holds d fp ds name = [] \<longleftrightarrow> \<not> in_hold_scope d name \<and> fp = dv_config_fingerprint d
     \<and> \<not> drain_holds_target ds name
     \<and> (case dv_spec_facts d of None \<Rightarrow> True | Some (_, refresh, build) \<Rightarrow> \<not> refresh \<and> \<not> build)"
  by (auto simp: target_holds_def split: option.splits)

section \<open>Sample inputs\<close>

definition demo_hosts :: hosts where
  "demo_hosts =
     [(''here'', \<lparr>hc_scheduler = ''local'', hc_fleet_canonical_host = None, hc_scheduler_max_jobs = None,
        hc_scheduler_submit_interval_seconds = 0, hc_ssh = ''localhost'', hc_remote_vq = ''vq'',
        hc_scheduler_driver = None, hc_scheduler_max_wall_time_seconds = None, hc_scheduler_max_cpus = None\<rparr>),
      (''lane'', \<lparr>hc_scheduler = ''slurm'', hc_fleet_canonical_host = None, hc_scheduler_max_jobs = Some 4,
        hc_scheduler_submit_interval_seconds = 0, hc_ssh = ''login'', hc_remote_vq = ''vq'',
        hc_scheduler_driver = Some ''here'', hc_scheduler_max_wall_time_seconds = None,
        hc_scheduler_max_cpus = Some 64\<rparr>)]"

definition demo_config :: target_config where
  "demo_config = \<lparr>tc_hosts = demo_hosts, tc_pools = [(''all'', [''here'', ''lane''])],
     tc_lane_digest = hc_ssh, tc_config_digest = hc_remote_vq\<rparr>"

definition demo_daemon :: daemon_view where
  "demo_daemon = \<lparr>dv_admin_update_marker = False, dv_hold_scope = None, dv_config_fingerprint = None,
     dv_host_pressure = False, dv_spec_facts = Some (0, False, False),
     dv_scheduler_facts = Some (demo_config, make_admission demo_hosts [(Some ''lane'', 3)] [], []),
     dv_running = [\<lparr>lj_cpus = 4, lj_mem_mb = Some 1000, lj_gpu_devices = []\<rparr>], dv_orphans = [], dv_survivors = [],
     dv_max_cpus = 16, dv_max_jobs = Some 2, dv_max_mem_mb = Some 8000, dv_default_job_mem_mb = None,
     dv_max_scheduler_jobs = Some 10, dv_gpu_devices = [], dv_snapshot = PyNone\<rparr>"

definition demo_drain :: drain_world where
  "demo_drain = \<lparr>dw_file = None, dw_leases = LeaseStore []\<rparr>"

definition demo_inputs :: sample_inputs where
  "demo_inputs = \<lparr>si_now = 110, si_multi_user = False,
     si_envelope = [(''ok'', PyBool True), (''state_roots'', PyDict [(''client'', PyStr ''/srv/vq''),
       (''daemons'', PyList [PyDict [(''state_root'', PyStr ''/srv/vq'')]])])],
     si_answer = Inr (dv_snapshot (fst (publish_admission_snapshot sample_drain_env None 0 100 (demo_daemon, demo_drain)))),
     si_mem_available_mb = Some 9000, si_specs = [], si_programs = [''orca''], si_availability = (\<lambda>_. Inr ''OK''),
     si_target_pin = (\<lambda>_ _. Inr None), si_timestamp = (\<lambda>_. None)\<rparr>"

definition demo_request :: placement_request where
  "demo_request = \<lparr>rq_cpus = 8, rq_mem_mb = 4000, rq_pool = Some ''all'', rq_wall_time_seconds = None\<rparr>"

definition demo_payload :: "string option \<Rightarrow> pyval" where
  "demo_payload target = (case sample_local demo_inputs demo_config None target of Inr p \<Rightarrow> p | Inl _ \<Rightarrow> PyNone)"

definition demo_evidence :: "string \<Rightarrow> string option \<Rightarrow> target_evidence" where
  "demo_evidence host target = (case evidence_from_payload host (demo_payload target) (Fin 111) [''all''] of
     Inr e \<Rightarrow> e | Inl _ \<Rightarrow> closed_evidence host (Fin 0) Unconfigured)"

lemma demo_published:
  "publish_admission_snapshot sample_drain_env None 0 100 (demo_daemon, demo_drain)
     = (fst (publish_admission_snapshot sample_drain_env None 0 100 (demo_daemon, demo_drain)),
        snd (publish_admission_snapshot sample_drain_env None 0 100 (demo_daemon, demo_drain)))"
  by simp

lemma demo_sampled:
  "sample_local demo_inputs demo_config None None = Inr (demo_payload None)"
  "sample_local demo_inputs demo_config None (Some ''lane'') = Inr (demo_payload (Some ''lane''))"
  "evidence_from_payload ''here'' (demo_payload None) (Fin 111) [''all''] = Inr (demo_evidence ''here'' None)"
  "evidence_from_payload ''lane'' (demo_payload (Some ''lane'')) (Fin 111) [''all''] = Inr (demo_evidence ''lane'' (Some ''lane''))"
  "host_blocker (te_snapshot (demo_evidence ''here'' None)) demo_request 120 60 = None"
  "host_blocker (te_snapshot (demo_evidence ''lane'' (Some ''lane''))) demo_request 120 60 = None"
  by code_simp+

section \<open>Properties\<close>

text \<open>
  C37: evidence is never better than the daemon's own admission. When the broker finds a daemon target
  eligible for a job on the evidence it collected, the daemon, at the time its snapshot was published, held no
  local dispatch (no admin update, no unapplied configuration, no drain touching local work, no memory
  pressure, no refresh or build), had no job waiting, and had the CPUs, a job slot and the memory for the job
  on top of all it ran, survivors and orphans included; the memory measured on the host was enough; no local
  job was pending when the target answered; the state root is one a running daemon uses; and the figures were
  at most 30 seconds old when sampled and are no older than the broker's limit now, counted from their
  publication.
\<close>

theorem eligible_daemon_admits:
  assumes "publish_admission_snapshot env fp clk published (d, w) = (d', w')"
    and "si_answer I = Inr (dv_snapshot d')"
    and "sample_local I cfg programs None = Inr payload"
    and "evidence_from_payload host payload (Fin started) pools = Inr e"
    and "host_blocker (te_snapshot e) rq now max_age = None"
  shows "admits_local d fp (fst (read_effective_drain_state env w)) rq
    \<and> (case si_mem_available_mb I of None \<Rightarrow> True | Some a \<Rightarrow> rq_mem_mb rq \<le> a)
    \<and> \<not> list_ex (\<lambda>s. js_scheduler_target s = None \<and> js_state s = PENDING) (si_specs I)
    \<and> root_agreement (si_envelope I) \<and> client_root (si_envelope I) = py_opt_str (te_state_root e) \<and> te_state_root e \<noteq> None
    \<and> si_now I - published \<le> 30 \<and> now - (started - max 0 (si_now I - published)) \<le> max_age"
proof -
  let ?ds = "fst (read_effective_drain_state env w)"
  obtain p h age s where e: "payload = PyDict p" "check_admission p = Inr (True, [])" "check_age p = Inr age"
    "answered_snapshot host p h (Fin (started - age)) pools = Inr s" "host_blocker s rq now max_age = None"
    "field p ''queue_ready'' = PyBool True" "check_state_root p = Inr (te_state_root e)" "te_state_root e \<noteq> None"
    using eligible_answer [OF assms(4,5)] by metis
  note sel = answered_sel [OF e(4)]
  obtain a where a: "daemon_snapshot I = Inr (Inr a)" "field a ''holds'' = PyList []"
    "field p ''queue_ready'' = PyBool (sample_queue_ready I None (Some a) None)"
    "field p ''free_cpus'' = PyInt (fst (local_headroom a (si_mem_available_mb I)))"
    "field p ''free_mem_mb'' = py_opt_int (fst (snd (local_headroom a (si_mem_available_mb I))))"
    "field p ''free_jobs'' = PyInt (snd (snd (local_headroom a (si_mem_available_mb I))))"
    "field p ''snapshot_age_seconds'' = PyFloat (Fin (max 0 (si_now I - number_of (field a ''published_at''))))"
    "field p ''scheduler_target'' = PyNone"
    "field p ''state_root'' = (if root_agreement (si_envelope I) then client_root (si_envelope I) else PyNone)"
    using local_sample_open [OF assms(3) [unfolded e(1)] e(2)] by metis
  note snap = daemon_snapshot_Inr [OF a(1)]
  note pub = admission_snapshot_field [OF published_snapshot [OF assms(1,2) a(1)]]
  obtain t c m j where b: "sn_observed_at s = Fin t" "t \<le> now" "now - t \<le> max_age"
    "sn_free_cpus s = Some c" "rq_cpus rq \<le> c" "sn_free_mem_mb s = Some m" "rq_mem_mb rq \<le> m"
    "sn_free_jobs s = Some j" "1 \<le> j"
    using blocker_None_daemon [OF e(5)] sel(12) a(8) by metis
  have head_room: "fst (local_headroom a (si_mem_available_mb I)) = c"
    "fst (snd (local_headroom a (si_mem_available_mb I))) = Some m" "snd (snd (local_headroom a (si_mem_available_mb I))) = j"
    using sel(4-6) a(4-6) b by simp_all
  note mem = local_headroom_mem [OF head_room(2) pub(6,7)]
  have ready: "sample_queue_ready I None (Some a) None" using e(6) a(3) by simp
  then have "local_holds d fp ?ds = []" "(case dv_spec_facts d of None \<Rightarrow> 0 | Some (n, _) \<Rightarrow> n) = 0"
    using a(2) pub(1,3) by (auto simp: sample_queue_ready_def int_of_def)
  then have held: "\<not> in_hold_scope d LOCAL_DISPATCH_SCOPE" "fp = dv_config_fingerprint d" "\<not> drain_holds_local ?ds"
    "\<not> dv_host_pressure d" "dv_spec_facts d = Some (0, False, False)" by (auto simp: local_holds_Nil)
  have "case dv_max_mem_mb d of None \<Rightarrow> True | Some k \<Rightarrow> (case used_mem_mb d of None \<Rightarrow> False | Some u \<Rightarrow> u + rq_mem_mb rq \<le> k)"
    using mem(2) b(7) by (fastforce split: option.splits)
  then have "admits_local d fp ?ds rq" using held head_room b(5,9) pub(4,5,8,9)
    by (auto simp: admits_local_def local_headroom_def int_of_def Let_def split: option.splits)
  moreover have "case si_mem_available_mb I of None \<Rightarrow> True | Some k \<Rightarrow> rq_mem_mb rq \<le> k"
    using mem(1) b(7) by (fastforce split: option.splits)
  moreover have "\<not> list_ex (\<lambda>s. js_scheduler_target s = None \<and> js_state s = PENDING) (si_specs I)"
    using ready by (simp add: sample_queue_ready_def)
  moreover have "root_agreement (si_envelope I) \<and> client_root (si_envelope I) = py_opt_str (te_state_root e) \<and> te_state_root e \<noteq> None"
    using e(7,8) a(9) by (auto simp: check_state_root_def split: if_splits pyval.splits)
  moreover have "si_now I - published \<le> 30 \<and> now - (started - max 0 (si_now I - published)) \<le> max_age"
    using snap(4) pub(2) e(3) a(7) sel(2) b(1,3)
    by (auto simp: number_of_def check_age_def Let_def split: if_splits)
  ultimately show ?thesis by blast
qed

theorem eligible_daemon_admits_witness:
  "admits_local demo_daemon None (fst (read_effective_drain_state sample_drain_env demo_drain)) demo_request"
  using eligible_daemon_admits [OF demo_published _ demo_sampled(1,3,5)] by (simp add: demo_inputs_def)

text \<open>
  C38: the same for a scheduler target. When the broker finds a scheduler lane eligible, the driver's daemon had
  published facts about exactly that lane in which no admin update, unapplied configuration, drain of the
  lane, refresh or build held it, no pending job was waiting for it or for an alias, its budget and the
  daemon's cap on scheduler jobs had a free slot and its pacing allowed an attempt; the lane is configured
  there as in the configuration that answered; and no job for it was pending when the target answered.
\<close>

theorem eligible_lane_admits:
  assumes "publish_admission_snapshot env fp clk published (d, w) = (d', w')"
    and "dv_scheduler_facts d = Some (facts_cfg, a, specs)"
    and "si_answer I = Inr (dv_snapshot d')"
    and "sample_local I cfg programs (Some t) = Inr payload"
    and "evidence_from_payload host payload (Fin started) pools = Inr e"
    and "host_blocker (te_snapshot e) rq now max_age = None"
  shows "t = host \<and> admits_scheduler d fp (fst (read_effective_drain_state env w)) clk a specs host
    \<and> (case (route_binding facts_cfg host, route_binding cfg host) of (Some b, Some c) \<Rightarrow> set b = set c | _ \<Rightarrow> False)
    \<and> \<not> list_ex (\<lambda>s. js_state s = PENDING \<and> js_scheduler_target s = Some host) (si_specs I)"
proof -
  let ?ds = "fst (read_effective_drain_state env w)"
  obtain p h age s where e: "payload = PyDict p" "check_admission p = Inr (True, [])"
    "answered_snapshot host p h (Fin (started - age)) pools = Inr s" "host_blocker s rq now max_age = None"
    "field p ''queue_ready'' = PyBool True" "check_authority host p = Inr ()"
    using eligible_answer [OF assms(5,6)] by metis
  note sel = answered_sel [OF e(3)]
  obtain q entry targets b where q: "daemon_snapshot I = Inr (Inr q)"
    "the_or (PyDict []) (map_of q ''scheduler_targets'') = PyDict targets" "field targets t = PyDict entry"
    "py_iter (field entry ''holds'') = Some []" "field entry ''can_attempt'' = PyBool True"
    "route_binding cfg t = Some b" "equals_binding (field entry ''authority'') b"
    "field p ''free_jobs'' = field entry ''free_jobs''" "field p ''scheduler_target'' = PyStr t"
    "field p ''queue_ready'' = PyBool (sample_queue_ready I (Some t) (Some q) (Some entry))"
    using lane_sample_open [OF assms(4) [unfolded e(1)] e(2)] by metis
  have t: "t = host" using e(6) q(9) by (auto simp: check_authority_def split: if_splits)
  have "targets = List.map_filter (scheduler_target_fact d fp ?ds clk facts_cfg a specs) (tc_hosts facts_cfg)"
    using q(2) admission_snapshot_field(10) [OF published_snapshot [OF assms(1,3) q(1)]] assms(2) by simp
  then have "(t, PyDict entry) \<in> set (List.map_filter (scheduler_target_fact d fp ?ds clk facts_cfg a specs) (tc_hosts facts_cfg))"
    using field_in [OF q(3)] by simp
  then obtain c where c: "route_binding facts_cfg t = Some c" "entry = lane_fact d fp ?ds clk a specs t c"
    using lane_fact_in by blast
  obtain j where j: "sn_free_jobs s = Some j" "1 \<le> j"
    using blocker_None_scheduler [OF e(4)] sel(12) q(9) by (metis pyval.distinct(7))
  have "1 \<le> target_free_jobs d a t" using sel(6) q(8) j c(2) by simp
  then have free: "1 \<le> free_jobs a t" "case dv_max_scheduler_jobs d of None \<Rightarrow> True | Some m \<Rightarrow> total_reserved a < m"
    by (auto simp: target_free_jobs_def split: option.splits)
  have "target_holds d fp ?ds t = []" "can_attempt a t clk" using q(4,5) c(2) by (auto simp: py_iter_Nil)
  moreover have ready: "\<not> list_ex (pending_on_target a t) specs"
    "\<not> list_ex (\<lambda>s. js_state s = PENDING \<and> js_scheduler_target s = Some t) (si_specs I)"
    using e(5) q(10) c(2) by (simp_all add: sample_queue_ready_def)
  ultimately have "admits_scheduler d fp ?ds clk a specs t" using free by (simp add: target_holds_Nil admits_scheduler_def)
  moreover have "set c = set b" using q(7) c(2) by (simp add: equals_binding_val)
  ultimately show ?thesis using t c(1) q(6) ready(2) by simp
qed

theorem eligible_lane_admits_witness:
  "admits_scheduler demo_daemon None (fst (read_effective_drain_state sample_drain_env demo_drain)) 0
     (make_admission demo_hosts [(Some ''lane'', 3)] []) [] ''lane''"
  using eligible_lane_admits [OF demo_published _ _ demo_sampled(2,4,6)] by (simp add: demo_inputs_def demo_daemon_def)

text \<open>The form of a capacity answer about a host, field by field.\<close>

definition str_values :: "pyval \<Rightarrow> bool" where
  "str_values v = (case v of PyDict kvs \<Rightarrow> list_all (\<lambda>kv. is_str (snd kv)) kvs | _ \<Rightarrow> False)"

definition str_list :: "pyval \<Rightarrow> bool" where
  "str_list v = (case v of PyList xs \<Rightarrow> list_all is_str xs | _ \<Rightarrow> False)"

definition entry :: "pyval \<Rightarrow> string \<Rightarrow> pyval" where
  "entry v k = (case v of PyDict kvs \<Rightarrow> field kvs k | _ \<Rightarrow> PyNone)"

definition is_sha1 :: "pyval \<Rightarrow> bool" where
  "is_sha1 v = (case v of PyStr s \<Rightarrow> length s = 40 \<and> list_all is_lower_hex s | _ \<Rightarrow> False)"

definition capacity_answer :: "string \<Rightarrow> pyval \<Rightarrow> bool" where
  "capacity_answer host p \<longleftrightarrow> entry p ''schema'' = PyStr CAPACITY_SCHEMA
     \<and> entry (entry p ''admission'') ''open'' \<in> {PyBool True, PyBool False} \<and> str_list (entry (entry p ''admission'') ''reasons'')
     \<and> list_all (\<lambda>k. entry p k \<in> {PyBool True, PyBool False}) [''daemon_ok'', ''state_root_agreement'', ''queue_ready'']
     \<and> (case entry p ''state_root'' of PyNone \<Rightarrow> True | PyStr r \<Rightarrow> starts_with ''/'' r | _ \<Rightarrow> False)
     \<and> str_values (entry p ''programs'') \<and> str_list (entry p ''jobs'')
     \<and> (entry p ''scheduler_target'' = PyNone \<or> entry p ''scheduler_target'' = PyStr host \<and> str_values (entry p ''authority'')
          \<and> entry (entry p ''authority'') ''scheduler'' \<in> {PyStr ''slurm'', PyStr ''pbs''}
          \<and> entry (entry p ''authority'') ''target'' = PyStr host)
     \<and> (case entry p ''runtime_pins'' of PyNone \<Rightarrow> True | PyDict pins \<Rightarrow> list_all (\<lambda>kv. is_sha1 (snd kv)) pins | _ \<Rightarrow> False)
     \<and> list_all (\<lambda>k. case entry p k of PyNone \<Rightarrow> True | PyInt n \<Rightarrow> True | _ \<Rightarrow> False)
         [''pending_cpus'', ''free_cpus'', ''free_mem_mb'', ''free_jobs'', ''max_request_cpus'', ''idle_seconds'']
     \<and> (case entry p ''snapshot_age_seconds'' of PyNone \<Rightarrow> True | v \<Rightarrow> finite_number v \<and> 0 \<le> number_of v)"

text \<open>Each check accepts exactly its part of that form.\<close>

lemma checks_accept:
  "(\<exists>x. check_admission d = Inr x) \<longleftrightarrow> entry (field d ''admission'') ''open'' \<in> {PyBool True, PyBool False}
     \<and> str_list (entry (field d ''admission'') ''reasons'')"
  "check_booleans d ns = Inr () \<longleftrightarrow> list_all (\<lambda>k. field d k \<in> {PyBool True, PyBool False}) ns"
  "(\<exists>r. check_state_root d = Inr r) \<longleftrightarrow> (case field d ''state_root'' of PyNone \<Rightarrow> True | PyStr r \<Rightarrow> starts_with ''/'' r | _ \<Rightarrow> False)"
  "(\<exists>ps. check_programs d = Inr ps) \<longleftrightarrow> str_values (field d ''programs'')"
  "(\<exists>js. check_jobs d = Inr js) \<longleftrightarrow> str_list (field d ''jobs'')"
  "check_authority host d = Inr () \<longleftrightarrow> field d ''scheduler_target'' = PyNone
     \<or> field d ''scheduler_target'' = PyStr host \<and> str_values (field d ''authority'')
       \<and> entry (field d ''authority'') ''scheduler'' \<in> {PyStr ''slurm'', PyStr ''pbs''} \<and> entry (field d ''authority'') ''target'' = PyStr host"
  "check_pins d = Inr () \<longleftrightarrow> (case field d ''runtime_pins'' of PyNone \<Rightarrow> True
     | PyDict pins \<Rightarrow> list_all (\<lambda>kv. is_sha1 (snd kv)) pins | _ \<Rightarrow> False)"
  "(\<exists>v. int_or_none d k = Inr v) \<longleftrightarrow> (case field d k of PyNone \<Rightarrow> True | PyInt n \<Rightarrow> True | _ \<Rightarrow> False)"
  "(\<exists>a. check_age d = Inr a) \<longleftrightarrow> (case field d ''snapshot_age_seconds'' of PyNone \<Rightarrow> True | v \<Rightarrow> finite_number v \<and> 0 \<le> number_of v)"
proof -
  show "(\<exists>x. check_admission d = Inr x) \<longleftrightarrow> entry (field d ''admission'') ''open'' \<in> {PyBool True, PyBool False}
     \<and> str_list (entry (field d ''admission'') ''reasons'')"
    by (auto simp: check_admission_def entry_def field_def str_list_def split: option.splits pyval.splits)
  show "check_booleans d ns = Inr () \<longleftrightarrow> list_all (\<lambda>k. field d k \<in> {PyBool True, PyBool False}) ns"
    by (induction ns) (auto split: pyval.splits)
  show "check_pins d = Inr () \<longleftrightarrow> (case field d ''runtime_pins'' of PyNone \<Rightarrow> True
     | PyDict pins \<Rightarrow> list_all (\<lambda>kv. is_sha1 (snd kv)) pins | _ \<Rightarrow> False)"
    by (auto simp: check_pins_def refuse_unless_def is_sha1_def split: pyval.splits)
  show "check_authority host d = Inr () \<longleftrightarrow> field d ''scheduler_target'' = PyNone
     \<or> field d ''scheduler_target'' = PyStr host \<and> str_values (field d ''authority'')
       \<and> entry (field d ''authority'') ''scheduler'' \<in> {PyStr ''slurm'', PyStr ''pbs''} \<and> entry (field d ''authority'') ''target'' = PyStr host"
    by (auto simp: check_authority_def refuse_unless_def entry_def str_values_def split: pyval.splits if_splits)
qed (auto simp: check_state_root_def check_programs_def check_jobs_def int_or_none_def check_age_def Let_def str_values_def str_list_def
       split: pyval.splits if_splits)

lemma evidence_accepts:
  assumes "evidence_from_payload host payload t pools = Inr ev"
  shows "te_error ev = None \<longleftrightarrow> capacity_answer host payload"
proof (cases payload)
  case (PyDict d)
  have e [simp]: "entry payload k = field d k" for k using PyDict by (simp add: entry_def)
  have head: "(\<exists>h. check_head host payload = Inr (d, h)) \<longleftrightarrow> field d ''schema'' = PyStr CAPACITY_SCHEMA
      \<and> (\<exists>x. check_admission d = Inr x) \<and> check_booleans d [''daemon_ok'', ''state_root_agreement'', ''queue_ready''] = Inr ()
      \<and> (\<exists>r. check_state_root d = Inr r) \<and> (\<exists>ps. check_programs d = Inr ps) \<and> (\<exists>js. check_jobs d = Inr js)
      \<and> check_authority host d = Inr () \<and> check_pins d = Inr () \<and> (\<exists>v. int_or_none d ''pending_cpus'' = Inr v)"
    unfolding PyDict by (auto simp: check_head_def)
  have snap: "(\<exists>s. answered_snapshot host d h u pools = Inr s) \<longleftrightarrow>
      list_all (\<lambda>k. \<exists>v. int_or_none d k = Inr v) [''free_cpus'', ''free_mem_mb'', ''free_jobs'', ''max_request_cpus'', ''idle_seconds'']" for h u
    by (auto simp: answered_snapshot_def)
  have "te_error ev = None \<longleftrightarrow> (\<exists>h. check_head host payload = Inr (d, h)) \<and> (\<exists>a. check_age d = Inr a)
      \<and> list_all (\<lambda>k. \<exists>v. int_or_none d k = Inr v) [''free_cpus'', ''free_mem_mb'', ''free_jobs'', ''max_request_cpus'', ''idle_seconds'']"
  proof (cases "check_head host payload")
    case (Inl m)
    then show ?thesis using assms by (auto simp: evidence_from_payload_def)
  next
    case (Inr dh)
    obtain h where dh: "dh = (d, h)" using Inr PyDict by (auto simp: check_head_def split: if_splits)
    show ?thesis using assms Inr dh snap [of h "minus_age t (projr (check_age d))"]
      by (auto simp: evidence_from_payload_def split: if_splits sum.splits)
  qed
  then show ?thesis unfolding head capacity_answer_def checks_accept e by (simp only: list.pred_inject) blast
qed (use assms in \<open>auto simp: evidence_from_payload_def check_head_def capacity_answer_def entry_def\<close>)

text \<open>
  C39: what the conversion does with any answer at all. It raises exactly when the answer passes the checks up to
  its pending CPUs and gives the age of its figures as an integer too large for a float. Otherwise it returns
  evidence about the host it asked, dated no later than the call. The evidence is free of an error exactly when
  every field of the answer has the form \<open>capacity_answer\<close> demands of it: the schema, the admission with its reasons, the three booleans,
  the absolute state root, the programs and jobs, the authority of a scheduler target, the runtime pins, the integers and
  the age. Evidence with an error never makes the host eligible, for any request at any time.
\<close>

theorem evidence_error_behaviour:
  "(evidence_from_payload host payload (Fin t) pools = Inl x \<longleftrightarrow> x = EvidenceOverflowError \<and>
      (case check_head host payload of Inl _ \<Rightarrow> False | Inr (d, _) \<Rightarrow> float_overflow (field d ''snapshot_age_seconds'')))
   \<and> (evidence_from_payload host payload (Fin t) pools = Inr ev \<longrightarrow>
      te_host ev = host \<and> sn_host (te_snapshot ev) = host
      \<and> (\<exists>u. sn_observed_at (te_snapshot ev) = Fin u \<and> u \<le> t)
      \<and> (te_error ev = None \<longleftrightarrow> capacity_answer host payload)
      \<and> (\<not> capacity_answer host payload \<longrightarrow> host_blocker (te_snapshot ev) rq now max_age \<noteq> None))"
proof (cases "check_head host payload")
  case (Inl m)
  then have "evidence_from_payload host payload (Fin t) pools = Inr (closed_evidence host (Fin t) (Unusable m))"
    by (simp add: evidence_from_payload_def)
  with Inl show ?thesis using evidence_accepts by fastforce
next
  case (Inr dh)
  obtain d h where dh: "dh = (d, h)" by (cases dh)
  show ?thesis
  proof (cases "float_overflow (field d ''snapshot_age_seconds'')")
    case True
    then show ?thesis using Inr dh by (auto simp: evidence_from_payload_def)
  next
    case False
    then have "\<forall>x. evidence_from_payload host payload (Fin t) pools \<noteq> Inl x"
      using Inr dh by (auto simp: evidence_from_payload_def split: sum.splits)
    then obtain e where e: "evidence_from_payload host payload (Fin t) pools = Inr e"
      by (cases "evidence_from_payload host payload (Fin t) pools") auto
    have "0 \<le> a" if "check_age d = Inr a" for a using that by (auto simp: check_age_def Let_def split: if_splits)
    then have "te_host e = host \<and> sn_host (te_snapshot e) = host \<and> (\<exists>u. sn_observed_at (te_snapshot e) = Fin u \<and> u \<le> t)
        \<and> (te_error e \<noteq> None \<longrightarrow> host_blocker (te_snapshot e) rq now max_age \<noteq> None)"
      using e Inr dh False by (auto simp: evidence_from_payload_def minus_age_def answered_sel(1,2) split: sum.splits)
    then show ?thesis using e False Inr dh evidence_accepts [OF e] by auto
  qed
qed

theorem evidence_error_behaviour_witness:
  "evidence_from_payload ''here'' (PyList []) (Fin 5) [] = Inr (closed_evidence ''here'' (Fin 5) (Unusable NotCapacityAnswer))
   \<and> \<not> capacity_answer ''here'' (PyList [])
   \<and> host_blocker (te_snapshot (closed_evidence ''here'' (Fin 5) (Unusable NotCapacityAnswer))) demo_request 6 60 \<noteq> None
   \<and> capacity_answer ''here'' (demo_payload None)"
proof -
  have e: "evidence_from_payload ''here'' (PyList []) (Fin 5) [] = Inr (closed_evidence ''here'' (Fin 5) (Unusable NotCapacityAnswer))"
    "\<not> capacity_answer ''here'' (PyList [])" by code_simp+
  moreover have "capacity_answer ''here'' (demo_payload None)" by code_simp
  ultimately show ?thesis using evidence_error_behaviour [of "''here''" "PyList []" 5 "[]" _
      "closed_evidence ''here'' (Fin 5) (Unusable NotCapacityAnswer)" demo_request 6 60] by simp
qed

text \<open>
  One target's answer can abort the collection from all of them: the integer age that no float can hold raises
  out of the conversion, although malformed answers are meant to count as no evidence.
\<close>

lemma overflowing_age_aborts_collect:
  "collect demo_config (\<lambda>h args. if ''lane'' \<in> set args
       then (case demo_payload (Some ''lane'') of PyDict d \<Rightarrow> Inr (PyDict (AList.update ''snapshot_age_seconds'' (PyInt (2 ^ 1024)) d)) | _ \<Rightarrow> Inl [])
       else Inr (demo_payload None)) (\<lambda>_. Fin 111) (Fin 60) [] [''here'', ''lane''] = Inl EvidenceOverflowError"
  by code_simp

end
