(* ===== verification/Placement_Policy.thy ===== *)
theory Placement_Policy
  imports Broker_Evidence
begin

text \<open>
  The completion-time planner (\<open>placement_policy.py\<close>): targets and requests with their validators, the hard
  requirements \<open>_rejections\<close>, the predicted components, \<open>explain\<close>, the queue wait from history, and the
  overlay of live capacity answers on a fleet.

  Numbers are exact rationals; the rounding to milliseconds in the explanation is not represented, and the source of a
  component is a constructor, not its text. A time is an \<open>iso_stamp\<close> in microseconds.
\<close>

section \<open>Data\<close>

record interval =
  iv_low :: rat
  iv_high :: rat

record wait_model =
  wm_low :: rat
  wm_high :: rat
  wm_source :: string

record node_shape =
  ns_cpus :: "int option"
  ns_mem_mb :: "int option"
  ns_scratch_mb :: "int option"
  ns_gpus :: "int option"

record free_capacity =
  fc_cpus :: "int option"
  fc_mem_mb :: "int option"
  fc_scratch_mb :: "int option"
  fc_gpus :: "int option"

datatype target_kind = Daemon | Scheduler

record placement_target =
  pt_name :: string
  pt_kind :: target_kind
  pt_observed_at :: iso_stamp
  pt_reachable :: bool
  pt_maintenance :: bool
  pt_os :: "string option"
  pt_arch :: "string option"
  pt_isa_levels :: "string list"
  pt_programs :: "(string \<times> string list) list"
  pt_accounts :: "string list option"
  pt_queue :: "string option"
  pt_data_access :: "string list option"
  pt_licenses :: "string list option"
  pt_node :: node_shape
  pt_max_nodes :: int
  pt_max_walltime_seconds :: "int option"
  pt_walltime_unlimited :: bool
  pt_free :: "free_capacity option"
  pt_queue_wait_seconds :: "wait_model option"
  pt_speed_factor :: rat
  pt_speed_source :: string
  pt_staging_mb_per_second :: "rat option"
  pt_transfer_mb_per_second :: "rat option"

type_synonym fleet = "placement_target list"

record plan_request =
  pr_program :: string
  pr_runtime_digest :: "string option"
  pr_os :: "string option"
  pr_arch :: "string option"
  pr_isa_level :: "string option"
  pr_account :: "string option"
  pr_queue :: "string option"
  pr_required_data_access :: "string list"
  pr_required_licenses :: "string list"
  pr_cpus :: int
  pr_nodes :: int
  pr_mpi_ranks :: "int option"
  pr_threads_per_rank :: "int option"
  pr_mem_mb_per_node :: "int option"
  pr_scratch_mb_per_node :: "int option"
  pr_gpus_per_node :: "int option"
  pr_wall_time_seconds :: "int option"
  pr_runtime_seconds :: "interval option"
  pr_input_mb :: rat
  pr_output_mb :: rat

definition FUTURE_SKEW_SECONDS :: rat where "FUTURE_SKEW_SECONDS = 60"

section \<open>Validation\<close>

definition label_char :: "char \<Rightarrow> bool" where
  "label_char c \<longleftrightarrow> is_alnum c \<or> c \<in> {CHR ''.'', CHR ''_'', CHR ''+'', CHR ''-''}"

definition label_match :: "string \<Rightarrow> bool" where
  "label_match s = (case s of [] \<Rightarrow> False | c # cs \<Rightarrow> is_alnum c \<and> length cs \<le> 63 \<and> list_all label_char cs)"

definition name_match :: "string \<Rightarrow> bool" where
  "name_match s = (case s of [] \<Rightarrow> False
     | c # cs \<Rightarrow> is_alnum c \<and> length cs \<le> 127 \<and> list_all (\<lambda>x. label_char x \<or> x = CHR ''/'') cs)"

definition opt_ok :: "('a \<Rightarrow> bool) \<Rightarrow> 'a option \<Rightarrow> bool" where
  "opt_ok P v = (case v of None \<Rightarrow> True | Some x \<Rightarrow> P x)"

definition interval_ok :: "interval \<Rightarrow> bool" where
  "interval_ok i \<longleftrightarrow> 0 \<le> iv_low i \<and> 0 \<le> iv_high i \<and> iv_low i \<le> iv_high i"

definition wait_ok :: "wait_model \<Rightarrow> bool" where
  "wait_ok w \<longleftrightarrow> 0 \<le> wm_low w \<and> wm_low w \<le> wm_high w \<and> wm_source w \<in> {''history'', ''declared'', ''scheduler-estimate''}"

definition node_ok :: "node_shape \<Rightarrow> bool" where
  "node_ok n \<longleftrightarrow> opt_ok (\<lambda>x. 1 \<le> x) (ns_cpus n) \<and> opt_ok (\<lambda>x. 1 \<le> x) (ns_mem_mb n)
     \<and> opt_ok (\<lambda>x. 0 \<le> x) (ns_scratch_mb n) \<and> opt_ok (\<lambda>x. 0 \<le> x) (ns_gpus n)"

definition free_ok :: "free_capacity \<Rightarrow> bool" where
  "free_ok f \<longleftrightarrow> opt_ok (\<lambda>x. 0 \<le> x) (fc_cpus f) \<and> opt_ok (\<lambda>x. 0 \<le> x) (fc_mem_mb f)
     \<and> opt_ok (\<lambda>x. 0 \<le> x) (fc_scratch_mb f) \<and> opt_ok (\<lambda>x. 0 \<le> x) (fc_gpus f)"

definition aware :: "iso_stamp \<Rightarrow> bool" where
  "aware s = (case s of IsoAware _ \<Rightarrow> True | _ \<Rightarrow> False)"

text \<open>The validator of a target record, after its field types: \<open>Target._consistent\<close>.\<close>

definition target_consistent :: "placement_target \<Rightarrow> bool" where
  "target_consistent t \<longleftrightarrow> \<not> (pt_walltime_unlimited t \<and> pt_max_walltime_seconds t \<noteq> None)
     \<and> (pt_kind t = Daemon \<longrightarrow> pt_max_nodes t = 1 \<and> pt_queue t = None)
     \<and> (pt_kind t = Scheduler \<longrightarrow> pt_free t = None) \<and> aware (pt_observed_at t)"

definition target_ok :: "placement_target \<Rightarrow> bool" where
  "target_ok t \<longleftrightarrow> name_match (pt_name t) \<and> opt_ok label_match (pt_os t) \<and> opt_ok label_match (pt_arch t)
     \<and> list_all label_match (pt_isa_levels t) \<and> length (pt_isa_levels t) \<le> 32
     \<and> list_all (\<lambda>(p, ds). label_match p \<and> list_all hex64 ds) (pt_programs t) \<and> length (pt_programs t) \<le> 256
     \<and> opt_ok (list_all label_match) (pt_accounts t) \<and> opt_ok label_match (pt_queue t)
     \<and> opt_ok (\<lambda>ls. list_all label_match ls \<and> length ls \<le> 256) (pt_data_access t)
     \<and> opt_ok (\<lambda>ls. list_all label_match ls \<and> length ls \<le> 256) (pt_licenses t)
     \<and> node_ok (pt_node t) \<and> 1 \<le> pt_max_nodes t \<and> opt_ok (\<lambda>x. 1 \<le> x) (pt_max_walltime_seconds t)
     \<and> opt_ok free_ok (pt_free t) \<and> opt_ok wait_ok (pt_queue_wait_seconds t)
     \<and> 0 < pt_speed_factor t \<and> pt_speed_source t \<in> {''benchmark'', ''declared'', ''assumed''}
     \<and> opt_ok (\<lambda>x. 0 < x) (pt_staging_mb_per_second t) \<and> opt_ok (\<lambda>x. 0 < x) (pt_transfer_mb_per_second t)
     \<and> target_consistent t"

definition fleet_ok :: "fleet \<Rightarrow> bool" where
  "fleet_ok ts \<longleftrightarrow> 1 \<le> length ts \<and> length ts \<le> 1024 \<and> list_all target_ok ts \<and> distinct (map pt_name ts)"

definition request_shape :: "plan_request \<Rightarrow> bool" where
  "request_shape r \<longleftrightarrow> pr_nodes r \<le> pr_cpus r
     \<and> (case (pr_mpi_ranks r, pr_threads_per_rank r) of
          (None, None) \<Rightarrow> True
        | (Some m, Some k) \<Rightarrow> pr_cpus r = m * k \<and> pr_nodes r \<le> m
        | _ \<Rightarrow> False)"

definition request_ok :: "plan_request \<Rightarrow> bool" where
  "request_ok r \<longleftrightarrow> label_match (pr_program r) \<and> opt_ok hex64 (pr_runtime_digest r)
     \<and> list_all (opt_ok label_match) [pr_os r, pr_arch r, pr_isa_level r, pr_account r, pr_queue r]
     \<and> list_all label_match (pr_required_data_access r) \<and> length (pr_required_data_access r) \<le> 256
     \<and> list_all label_match (pr_required_licenses r) \<and> length (pr_required_licenses r) \<le> 256
     \<and> 1 \<le> pr_cpus r \<and> 1 \<le> pr_nodes r
     \<and> list_all (opt_ok (\<lambda>x. 1 \<le> x)) [pr_mpi_ranks r, pr_threads_per_rank r, pr_mem_mb_per_node r,
          pr_scratch_mb_per_node r, pr_gpus_per_node r, pr_wall_time_seconds r]
     \<and> opt_ok interval_ok (pr_runtime_seconds r) \<and> 0 \<le> pr_input_mb r \<and> 0 \<le> pr_output_mb r \<and> request_shape r"

definition cpus_per_node :: "plan_request \<Rightarrow> int" where
  "cpus_per_node r = (case (pr_mpi_ranks r, pr_threads_per_rank r) of
      (Some m, Some k) \<Rightarrow> ((m + pr_nodes r - 1) div pr_nodes r) * k
    | _ \<Rightarrow> (pr_cpus r + pr_nodes r - 1) div pr_nodes r)"

section \<open>Hard requirements\<close>

fun join :: "string \<Rightarrow> string list \<Rightarrow> string" where
  "join sep [] = []"
| "join sep [x] = x"
| "join sep (x # xs) = x @ sep @ join sep xs"

definition or_unknown :: "string option \<Rightarrow> string" where
  "or_unknown v = (case v of None \<Rightarrow> ''unknown'' | Some s \<Rightarrow> if s = [] then ''unknown'' else s)"

definition short_digest :: "string \<Rightarrow> string" where
  "short_digest d = take 12 d"

definition observation_rejections :: "placement_target \<Rightarrow> rat \<Rightarrow> rat \<Rightarrow> string list" where
  "observation_rejections t age max_age =
     (if \<not> pt_reachable t then [''unreachable when observed''] else [])
     @ (if pt_maintenance t then [''in maintenance''] else [])
     @ (if max_age < age then [''observation is '' @ format_0f age @ '' s old (limit '' @ format_0f max_age @ '' s)'']
        else if age < - FUTURE_SKEW_SECONDS then [''observation is '' @ format_0f (- age) @ '' s in the future: clock skew'']
        else [])"

definition runtimes_of :: "placement_target \<Rightarrow> plan_request \<Rightarrow> string list" where
  "runtimes_of t r = the_or [] (map_of (pt_programs t) (pr_program r))"

definition runtime_rejections :: "placement_target \<Rightarrow> plan_request \<Rightarrow> string list" where
  "runtime_rejections t r =
     (if runtimes_of t r = [] then [''program '' @ pr_program r @ '' is not available'']
      else case pr_runtime_digest r of
          None \<Rightarrow> []
        | Some d \<Rightarrow> if d \<in> set (runtimes_of t r) then []
            else [''runtime '' @ short_digest d @ '' of '' @ pr_program r @ '' is not available (has ''
                  @ join '', '' (map short_digest (runtimes_of t r)) @ '')''])"

definition platform_rejections :: "placement_target \<Rightarrow> plan_request \<Rightarrow> string list" where
  "platform_rejections t r =
     (case pr_os r of None \<Rightarrow> [] | Some x \<Rightarrow> if pt_os t = Some x then []
        else [''operating system '' @ or_unknown (pt_os t) @ '', not '' @ x])
     @ (case pr_arch r of None \<Rightarrow> [] | Some x \<Rightarrow> if pt_arch t = Some x then []
        else [''architecture '' @ or_unknown (pt_arch t) @ '', not '' @ x])
     @ (case pr_isa_level r of None \<Rightarrow> [] | Some x \<Rightarrow> if x \<in> set (pt_isa_levels t) then []
        else [''ISA level '' @ x @ '' is not supported''])"

definition account_rejections :: "placement_target \<Rightarrow> plan_request \<Rightarrow> string list" where
  "account_rejections t r =
     (case pr_account r of None \<Rightarrow> [] | Some x \<Rightarrow> (case pt_accounts t of
          None \<Rightarrow> [''permitted accounts unknown for requested account '' @ x]
        | Some as \<Rightarrow> if x \<in> set as then [] else [''account '' @ x @ '' is not permitted'']))
     @ (case pr_queue r of None \<Rightarrow> [] | Some x \<Rightarrow>
          if pt_kind t \<noteq> Scheduler then [''queue/partition '' @ x @ '' requires a scheduler target'']
          else if pt_queue t \<noteq> Some x then [''queue/partition '' @ or_unknown (pt_queue t) @ '', not '' @ x] else [])"

text \<open>The labels of a required set that a target does not carry; unknown carries none.\<close>

definition label_rejections :: "string \<Rightarrow> (string \<Rightarrow> string) \<Rightarrow> string list \<Rightarrow> string list option \<Rightarrow> string list" where
  "label_rejections what missing required carried =
     (if required = [] then []
      else case carried of
          None \<Rightarrow> [what @ '' unknown for required labels: '' @ join '', '' (sort (remdups required))]
        | Some cs \<Rightarrow> map missing (sort (filter (\<lambda>l. l \<notin> set cs) (remdups required))))"

definition node_rejections :: "string \<Rightarrow> string \<Rightarrow> int option \<Rightarrow> int option \<Rightarrow> string list" where
  "node_rejections what unit requested available = (case requested of
      None \<Rightarrow> []
    | Some n \<Rightarrow> (case available of
        None \<Rightarrow> [what @ '' per node unknown'']
      | Some a \<Rightarrow> if a < n then [''needs '' @ show_int n @ '' '' @ unit @ '' per node; a node has '' @ show_int a] else []))"

definition size_rejections :: "placement_target \<Rightarrow> plan_request \<Rightarrow> string list" where
  "size_rejections t r =
     (if pt_max_nodes t < pr_nodes r
      then [''needs '' @ show_int (pr_nodes r) @ '' nodes; at most '' @ show_int (pt_max_nodes t) @ '' per job''] else [])
     @ node_rejections ''CPUs'' ''CPUs'' (Some (cpus_per_node r)) (ns_cpus (pt_node t))
     @ node_rejections ''memory'' ''MB'' (pr_mem_mb_per_node r) (ns_mem_mb (pt_node t))
     @ node_rejections ''scratch'' ''MB scratch'' (pr_scratch_mb_per_node r) (ns_scratch_mb (pt_node t))
     @ node_rejections ''GPUs'' ''GPUs'' (pr_gpus_per_node r) (ns_gpus (pt_node t))"

definition walltime_rejections :: "placement_target \<Rightarrow> plan_request \<Rightarrow> string list" where
  "walltime_rejections t r =
     (case pr_wall_time_seconds r of None \<Rightarrow> [] | Some w \<Rightarrow> (case pt_max_walltime_seconds t of
          None \<Rightarrow> if pt_walltime_unlimited t then []
            else [''walltime limit unknown for an explicit walltime request'']
        | Some m \<Rightarrow> if m < w then [''requested walltime '' @ show_int w @ '' s exceeds the '' @ show_int m @ '' s walltime limit'']
            else []))
     @ (case pr_runtime_seconds r of None \<Rightarrow> [] | Some i \<Rightarrow>
          (let high = iv_high i / pt_speed_factor t in
           (case pr_wall_time_seconds r of None \<Rightarrow> [] | Some w \<Rightarrow> if of_int w < high
              then [''predicted execution up to '' @ format_0f high @ '' s exceeds the requested '' @ show_int w @ '' s walltime'']
              else [])
           @ (case pt_max_walltime_seconds t of None \<Rightarrow> [] | Some m \<Rightarrow> if of_int m < high
              then [''predicted execution up to '' @ format_0f high @ '' s exceeds the '' @ show_int m @ '' s walltime limit'']
              else [])))"

definition rejections :: "placement_target \<Rightarrow> plan_request \<Rightarrow> rat \<Rightarrow> rat \<Rightarrow> string list" where
  "rejections t r age max_age =
     observation_rejections t age max_age @ runtime_rejections t r @ platform_rejections t r @ account_rejections t r
     @ label_rejections ''data access'' (\<lambda>l. ''data access '' @ l @ '' is not available'') (pr_required_data_access r) (pt_data_access t)
     @ label_rejections ''license eligibility'' (\<lambda>l. ''license '' @ l @ '' is not permitted'') (pr_required_licenses r) (pt_licenses t)
     @ size_rejections t r @ walltime_rejections t r"

section \<open>Predicted completion\<close>

datatype part_source = NothingToMove | MovedAt rat rat | FitsNow | WaitFrom string | ReferenceEstimate rat string
datatype part = Known rat rat part_source | Unknown string

primrec part_span :: "part \<Rightarrow> (rat \<times> rat) option" where
  "part_span (Known l h _) = Some (l, h)"
| "part_span (Unknown _) = None"

definition moving :: "rat \<Rightarrow> rat option \<Rightarrow> string \<Rightarrow> part" where
  "moving mb rate what = (if mb = 0 then Known 0 0 NothingToMove
     else case rate of None \<Rightarrow> Unknown (''no '' @ what @ '' rate recorded for this target'')
       | Some r \<Rightarrow> Known (mb / r) (mb / r) (MovedAt mb r))"

definition fits_option :: "int option \<Rightarrow> int option \<Rightarrow> bool" where
  "fits_option need free = (case need of None \<Rightarrow> True | Some n \<Rightarrow> (case free of None \<Rightarrow> False | Some f \<Rightarrow> n \<le> f))"

definition fits_free :: "placement_target \<Rightarrow> plan_request \<Rightarrow> bool" where
  "fits_free t r \<longleftrightarrow> pt_kind t = Daemon \<and> (case pt_free t of None \<Rightarrow> False
     | Some f \<Rightarrow> fits_option (Some (pr_cpus r)) (fc_cpus f) \<and> fits_option (pr_mem_mb_per_node r) (fc_mem_mb f)
         \<and> fits_option (pr_scratch_mb_per_node r) (fc_scratch_mb f) \<and> fits_option (pr_gpus_per_node r) (fc_gpus f))"

definition queue_wait :: "placement_target \<Rightarrow> plan_request \<Rightarrow> part" where
  "queue_wait t r = (if fits_free t r then Known 0 0 FitsNow
     else case pt_queue_wait_seconds t of
         Some w \<Rightarrow> Known (wm_low w) (wm_high w) (WaitFrom (wm_source w))
       | None \<Rightarrow> if pt_kind t = Daemon
           then Unknown ''does not fit the free capacity now and no wait model is recorded''
           else Unknown ''no queue-wait model for this lane'')"

definition execution :: "placement_target \<Rightarrow> plan_request \<Rightarrow> part" where
  "execution t r = (case pr_runtime_seconds r of
      None \<Rightarrow> Unknown ''the request carries no runtime estimate''
    | Some i \<Rightarrow> Known (iv_low i / pt_speed_factor t) (iv_high i / pt_speed_factor t)
        (ReferenceEstimate (pt_speed_factor t) (pt_speed_source t)))"

definition parts :: "placement_target \<Rightarrow> plan_request \<Rightarrow> (string \<times> part) list" where
  "parts t r = [(''staging'', moving (pr_input_mb r) (pt_staging_mb_per_second t) ''staging''),
     (''queue_wait'', queue_wait t r), (''execution'', execution t r),
     (''transfer'', moving (pr_output_mb r) (pt_transfer_mb_per_second t) ''result transfer'')]"

record candidate =
  cd_target :: string
  cd_kind :: target_kind
  cd_runtime_digest :: string
  cd_data_age_seconds :: rat
  cd_components :: "(string \<times> part) list"
  cd_low :: rat
  cd_high :: rat
  cd_unknown :: "string list"

type_synonym plan_key = "nat \<times> rat \<times> rat \<times> rat \<times> string"

definition known_spans :: "placement_target \<Rightarrow> plan_request \<Rightarrow> (rat \<times> rat) list" where
  "known_spans t r = List.map_filter (\<lambda>(_, p). part_span p) (parts t r)"

definition unknown_parts :: "placement_target \<Rightarrow> plan_request \<Rightarrow> string list" where
  "unknown_parts t r = map fst (filter (\<lambda>(_, p). part_span p = None) (parts t r))"

definition candidate_of :: "placement_target \<Rightarrow> plan_request \<Rightarrow> rat \<Rightarrow> candidate" where
  "candidate_of t r age = \<lparr>cd_target = pt_name t, cd_kind = pt_kind t,
     cd_runtime_digest = (case pr_runtime_digest r of Some d \<Rightarrow> if d = [] then hd (runtimes_of t r) else d
        | None \<Rightarrow> hd (runtimes_of t r)),
     cd_data_age_seconds = age, cd_components = parts t r,
     cd_low = sum_list (map fst (known_spans t r)), cd_high = sum_list (map snd (known_spans t r)),
     cd_unknown = unknown_parts t r\<rparr>"

definition plan_key_of :: "placement_target \<Rightarrow> plan_request \<Rightarrow> plan_key" where
  "plan_key_of t r = (let low = sum_list (map fst (known_spans t r)); high = sum_list (map snd (known_spans t r)) in
     (length (unknown_parts t r), (low + high) / 2, high, - pt_speed_factor t, pt_name t))"

section \<open>The explanation\<close>

datatype placement_error = PlacementError | PlacementValueError | PlacementOverflowError | PlacementIndexError

record explanation =
  ex_selected :: "candidate option"
  ex_candidates :: "candidate list"
  ex_rejected :: "(string \<times> target_kind \<times> rat \<times> string list) list"

text \<open>The age of a target's record in seconds.\<close>

definition age_of :: "int \<Rightarrow> placement_target \<Rightarrow> rat" where
  "age_of now t = (case pt_observed_at t of IsoAware x \<Rightarrow> of_int (now - x) / 1000000 | _ \<Rightarrow> 0)"

text \<open>The loop over the sorted targets: rejected entries, and candidates with their keys.\<close>

fun assess ::
  "plan_request \<Rightarrow> int \<Rightarrow> rat \<Rightarrow> placement_target list \<Rightarrow>
   placement_error + (string \<times> target_kind \<times> rat \<times> string list) list \<times> (plan_key \<times> candidate) list" where
  "assess r now max_age [] = Inr ([], [])"
| "assess r now max_age (t # ts) = (case pt_observed_at t of
      IsoAware _ \<Rightarrow>
        (let age = age_of now t; why = rejections t r age max_age in
         rbind (assess r now max_age ts) (\<lambda>(rejected, eligible).
           if why \<noteq> [] then Inr ((pt_name t, pt_kind t, age, why) # rejected, eligible)
           else Inr (rejected, (plan_key_of t r, candidate_of t r age) # eligible)))
    | _ \<Rightarrow> Inl PlacementValueError)"

definition explain ::
  "fleet \<Rightarrow> plan_request \<Rightarrow> iso_stamp \<Rightarrow> pyfloat \<Rightarrow> placement_error + explanation" where
  "explain ts r now max_age = (case (now, max_age) of
      (IsoAware n, Fin m) \<Rightarrow>
        if m \<le> 0 then Inl PlacementError
        else rbind (assess r n m (sort_key pt_name ts)) (\<lambda>(rejected, eligible).
          let ranked = map snd (sort_key fst eligible) in
          Inr \<lparr>ex_selected = (case ranked of [] \<Rightarrow> None | c # _ \<Rightarrow> Some c), ex_candidates = ranked, ex_rejected = rejected\<rparr>)
    | _ \<Rightarrow> Inl PlacementError)"

section \<open>A lane's queue wait from history\<close>

text \<open>\<open>round\<close>: to the nearest, ties to even; to whole numbers and to three decimals.\<close>

definition round3 :: "rat \<Rightarrow> rat" where
  "round3 x = of_int (round_even (x * 1000)) / 1000"

text \<open>\<open>xs[:n]\<close>, also for a negative \<open>n\<close>.\<close>

definition py_take :: "int \<Rightarrow> 'a list \<Rightarrow> 'a list" where
  "py_take n xs = (if 0 \<le> n then take (nat n) xs else take (length xs - nat (- n)) xs)"

text \<open>The start of a job and how long it had waited, both in seconds.\<close>

definition recorded_wait :: "(string \<Rightarrow> iso_stamp) \<Rightarrow> string \<Rightarrow> rat \<Rightarrow> rat \<Rightarrow> job_spec \<Rightarrow> (rat \<times> rat) option" where
  "recorded_wait stamp_of target now cutoff s =
     (if js_scheduler_target s \<noteq> Some target then None
      else case (js_scheduler_submitted_at s, js_scheduler_started_at s) of
        (Some a, Some b) \<Rightarrow>
          if a = [] \<or> b = [] then None
          else (case (stamp_of a, stamp_of b) of
            (IsoAware x, IsoAware y) \<Rightarrow>
              (let submitted = of_int x / 1000000; started = of_int y / 1000000 in
               if cutoff \<le> started \<and> started \<le> now + FUTURE_SKEW_SECONDS \<and> submitted \<le> started
               then Some (started, started - submitted) else None)
          | _ \<Rightarrow> None)
      | _ \<Rightarrow> None)"

text \<open>\<open>math.ceil(k * count / 10) - 1\<close>: the nearest-rank index of the k-th decile.\<close>

definition decile_index :: "nat \<Rightarrow> nat \<Rightarrow> nat" where
  "decile_index k cnt = (k * cnt + 9) div 10 - 1"

definition queue_wait_history ::
  "(string \<Rightarrow> iso_stamp) \<Rightarrow> job_spec list \<Rightarrow> string \<Rightarrow> rat \<Rightarrow> rat \<Rightarrow> int \<Rightarrow> int \<Rightarrow>
   placement_error + wait_model option \<times> nat" where
  "queue_wait_history stamp_of specs target now days max_jobs min_jobs =
     (let waits = List.map_filter (recorded_wait stamp_of target now (now - days * 86400)) specs;
          recent = sort (map snd (py_take max_jobs (rev (sort waits))));
          cnt = length recent in
      if int cnt < min_jobs then Inr (None, cnt)
      else if cnt = 0 then Inl PlacementIndexError
      else Inr (Some \<lparr>wm_low = round3 (recent ! decile_index 1 cnt), wm_high = round3 (recent ! decile_index 9 cnt),
             wm_source = ''history''\<rparr>, cnt))"

section \<open>A fleet with live capacity\<close>

text \<open>\<open>datetime.fromtimestamp(t, UTC)\<close>: to the microsecond, within the years 1 to 9999.\<close>

definition stamp_at :: "rat \<Rightarrow> placement_error + iso_stamp" where
  "stamp_at t = (let us = round_even (t * 1000000) in
     if -62135596800000000 \<le> us \<and> us < 253402300800000000 then Inr (IsoAware us) else Inl PlacementValueError)"

definition capacity_figure :: "(string \<times> pyval) list \<Rightarrow> string \<Rightarrow> placement_error + int option" where
  "capacity_figure d key = (case field d key of
      PyNone \<Rightarrow> Inr None | PyInt n \<Rightarrow> if n < 0 then Inl PlacementError else Inr (Some n) | _ \<Rightarrow> Inl PlacementError)"

text \<open>Applies an overlay to the daemon target of that name.\<close>

fun overlay_target ::
  "(placement_target \<Rightarrow> placement_error + placement_target) \<Rightarrow> string \<Rightarrow> fleet \<Rightarrow> placement_error + fleet" where
  "overlay_target f name [] = Inl PlacementError"
| "overlay_target f name (t # ts) =
     (if pt_name t = name
      then (if pt_kind t \<noteq> Daemon then Inl PlacementError else rbind (f t) (\<lambda>t'. Inr (t' # ts)))
      else rbind (overlay_target f name ts) (\<lambda>ts'. Inr (t # ts')))"

definition overlay_unreachable :: "string list \<Rightarrow> rat \<Rightarrow> placement_target \<Rightarrow> placement_error + placement_target" where
  "overlay_unreachable answered when_seen t =
     (if pt_name t \<in> set answered then Inl PlacementError
      else rbind (stamp_at when_seen) (\<lambda>observed.
        Inr (t\<lparr>pt_observed_at := observed, pt_reachable := False, pt_free := None\<rparr>)))"

definition drop_programs :: "(string \<times> string) list \<Rightarrow> (string \<times> string list) list \<Rightarrow> (string \<times> string list) list" where
  "drop_programs statuses programs =
     fold (\<lambda>(p, s) ps. if s \<noteq> ''OK'' then filter (\<lambda>(q, _). q \<noteq> p) ps else ps) statuses programs"

definition overlay_free :: "free_capacity option \<Rightarrow> int option \<Rightarrow> int option \<Rightarrow> int option \<Rightarrow> free_capacity" where
  "overlay_free old cpus mem gpus = \<lparr>fc_cpus = cpus, fc_mem_mb = mem,
     fc_scratch_mb = (case old of None \<Rightarrow> None | Some f \<Rightarrow> fc_scratch_mb f), fc_gpus = gpus\<rparr>"

definition answered_target ::
  "placement_target \<Rightarrow> target_evidence \<Rightarrow> iso_stamp \<Rightarrow> int option \<Rightarrow> int option \<Rightarrow> int option \<Rightarrow> int option \<Rightarrow> placement_target" where
  "answered_target t e observed cpus mem free_gpus gpus = (let s = te_snapshot e in
     t\<lparr>pt_observed_at := observed,
       pt_reachable := (sn_daemon_healthy s \<and> sn_state_root_agreement s),
       pt_free := (if sn_admission_open s \<and> sn_queue_ready s
         then Some (overlay_free (pt_free t) cpus mem free_gpus) else None),
       pt_node := (case gpus of None \<Rightarrow> pt_node t | Some g \<Rightarrow> (pt_node t)\<lparr>ns_gpus := Some g\<rparr>),
       pt_programs := drop_programs (te_programs e) (pt_programs t)\<rparr>)"

definition overlay_answer :: "pyval \<Rightarrow> placement_target \<Rightarrow> placement_error + placement_target" where
  "overlay_answer answer t = (case answer of
      PyDict d \<Rightarrow>
        if field d ''schema'' \<noteq> PyStr CAPACITY_SCHEMA then Inl PlacementError
        else (case evidence_from_payload (pt_name t) answer (Fin 0) [] of
          Inl _ \<Rightarrow> Inl PlacementOverflowError
        | Inr e \<Rightarrow>
            if te_error e \<noteq> None then Inl PlacementError
            else if float_overflow (field d ''sampled_at'') then Inl PlacementOverflowError
            else if \<not> finite_number (field d ''sampled_at'') then Inl PlacementError
            else rbind (stamp_at (number_of (field d ''sampled_at'') - number_of (field d ''snapshot_age_seconds''))) (\<lambda>observed.
              rbind (capacity_figure d ''free_cpus'') (\<lambda>cpus.
              rbind (capacity_figure d ''free_mem_mb'') (\<lambda>mem.
              rbind (capacity_figure d ''free_gpus'') (\<lambda>free_gpus.
              rbind (capacity_figure d ''gpus'') (\<lambda>gpus.
                Inr (answered_target t e observed cpus mem free_gpus gpus)))))))
    | _ \<Rightarrow> Inl PlacementError)"

fun overlay_all :: "('a \<Rightarrow> placement_target \<Rightarrow> placement_error + placement_target) \<Rightarrow> (string \<times> 'a) list \<Rightarrow> fleet \<Rightarrow>
   placement_error + fleet" where
  "overlay_all f [] ts = Inr ts"
| "overlay_all f ((name, x) # rest) ts = rbind (overlay_target (f x) name ts) (overlay_all f rest)"

definition fleet_with_capacity ::
  "fleet \<Rightarrow> (string \<times> pyval) list \<Rightarrow> (string \<times> rat) list \<Rightarrow> placement_error + fleet" where
  "fleet_with_capacity base answers unreachable =
     (if \<not> fleet_ok base then Inl PlacementValueError
      else rbind (overlay_all (overlay_unreachable (map fst answers)) (sort_key fst unreachable) base)
        (overlay_all overlay_answer (sort_key fst answers)))"

section \<open>What the requirements mean\<close>

text \<open>The hard requirements as one condition.\<close>

definition carries_all :: "string list \<Rightarrow> string list option \<Rightarrow> bool" where
  "carries_all required carried \<longleftrightarrow> set required \<subseteq> set (the_or [] carried)"

definition meets :: "placement_target \<Rightarrow> plan_request \<Rightarrow> rat \<Rightarrow> rat \<Rightarrow> bool" where
  "meets t r age max_age \<longleftrightarrow>
     pt_reachable t \<and> \<not> pt_maintenance t \<and> age \<le> max_age \<and> - FUTURE_SKEW_SECONDS \<le> age
     \<and> runtimes_of t r \<noteq> [] \<and> opt_ok (\<lambda>d. d \<in> set (runtimes_of t r)) (pr_runtime_digest r)
     \<and> opt_ok (\<lambda>x. pt_os t = Some x) (pr_os r) \<and> opt_ok (\<lambda>x. pt_arch t = Some x) (pr_arch r)
     \<and> opt_ok (\<lambda>x. x \<in> set (pt_isa_levels t)) (pr_isa_level r)
     \<and> opt_ok (\<lambda>x. x \<in> set (the_or [] (pt_accounts t))) (pr_account r)
     \<and> opt_ok (\<lambda>x. pt_kind t = Scheduler \<and> pt_queue t = Some x) (pr_queue r)
     \<and> carries_all (pr_required_data_access r) (pt_data_access t)
     \<and> carries_all (pr_required_licenses r) (pt_licenses t)
     \<and> pr_nodes r \<le> pt_max_nodes t
     \<and> fits_option (Some (cpus_per_node r)) (ns_cpus (pt_node t))
     \<and> fits_option (pr_mem_mb_per_node r) (ns_mem_mb (pt_node t))
     \<and> fits_option (pr_scratch_mb_per_node r) (ns_scratch_mb (pt_node t))
     \<and> fits_option (pr_gpus_per_node r) (ns_gpus (pt_node t))
     \<and> opt_ok (\<lambda>w. case pt_max_walltime_seconds t of None \<Rightarrow> pt_walltime_unlimited t | Some m \<Rightarrow> w \<le> m) (pr_wall_time_seconds r)
     \<and> opt_ok (\<lambda>i. opt_ok (\<lambda>w. iv_high i / pt_speed_factor t \<le> of_int w) (pr_wall_time_seconds r)
          \<and> opt_ok (\<lambda>m. iv_high i / pt_speed_factor t \<le> of_int m) (pt_max_walltime_seconds t)) (pr_runtime_seconds r)"

lemma label_rejections_Nil: "label_rejections what missing required carried = [] \<longleftrightarrow> carries_all required carried"
  by (cases carried) (auto simp: label_rejections_def carries_all_def filter_empty_conv)

lemma node_rejections_Nil: "node_rejections what unit n a = [] \<longleftrightarrow> fits_option n a"
  by (auto simp: node_rejections_def fits_option_def split: option.splits)

lemma observation_rejections_Nil: "observation_rejections t age m = [] \<longleftrightarrow>
    pt_reachable t \<and> \<not> pt_maintenance t \<and> age \<le> m \<and> - FUTURE_SKEW_SECONDS \<le> age"
  by (auto simp: observation_rejections_def)

lemma runtime_rejections_Nil: "runtime_rejections t r = [] \<longleftrightarrow>
    runtimes_of t r \<noteq> [] \<and> opt_ok (\<lambda>d. d \<in> set (runtimes_of t r)) (pr_runtime_digest r)"
  by (auto simp: runtime_rejections_def opt_ok_def split: option.splits)

lemma platform_rejections_Nil: "platform_rejections t r = [] \<longleftrightarrow>
    opt_ok (\<lambda>x. pt_os t = Some x) (pr_os r) \<and> opt_ok (\<lambda>x. pt_arch t = Some x) (pr_arch r)
    \<and> opt_ok (\<lambda>x. x \<in> set (pt_isa_levels t)) (pr_isa_level r)"
  by (auto simp: platform_rejections_def opt_ok_def split: option.splits)

lemma account_rejections_Nil: "account_rejections t r = [] \<longleftrightarrow>
    opt_ok (\<lambda>x. x \<in> set (the_or [] (pt_accounts t))) (pr_account r)
    \<and> opt_ok (\<lambda>x. pt_kind t = Scheduler \<and> pt_queue t = Some x) (pr_queue r)"
  by (auto simp: account_rejections_def opt_ok_def split: option.splits)

lemma walltime_rejections_Nil: "walltime_rejections t r = [] \<longleftrightarrow>
    opt_ok (\<lambda>w. case pt_max_walltime_seconds t of None \<Rightarrow> pt_walltime_unlimited t | Some m \<Rightarrow> w \<le> m) (pr_wall_time_seconds r)
    \<and> opt_ok (\<lambda>i. opt_ok (\<lambda>w. iv_high i / pt_speed_factor t \<le> of_int w) (pr_wall_time_seconds r)
         \<and> opt_ok (\<lambda>m. iv_high i / pt_speed_factor t \<le> of_int m) (pt_max_walltime_seconds t)) (pr_runtime_seconds r)"
  by (auto simp: walltime_rejections_def opt_ok_def Let_def not_less split: option.splits)

lemma rejections_Nil: "rejections t r age max_age = [] \<longleftrightarrow> meets t r age max_age"
  unfolding rejections_def meets_def append_is_Nil_conv size_rejections_def label_rejections_Nil node_rejections_Nil
    observation_rejections_Nil runtime_rejections_Nil platform_rejections_Nil account_rejections_Nil walltime_rejections_Nil
  by auto

section \<open>The loop in closed form\<close>

definition rejected_entry :: "plan_request \<Rightarrow> int \<Rightarrow> rat \<Rightarrow> placement_target \<Rightarrow> string \<times> target_kind \<times> rat \<times> string list" where
  "rejected_entry r n m t = (pt_name t, pt_kind t, age_of n t, rejections t r (age_of n t) m)"

definition eligible_entry :: "plan_request \<Rightarrow> int \<Rightarrow> placement_target \<Rightarrow> plan_key \<times> candidate" where
  "eligible_entry r n t = (plan_key_of t r, candidate_of t r (age_of n t))"

lemma assess_closed:
  "list_all (\<lambda>t. aware (pt_observed_at t)) ts \<Longrightarrow> assess r n m ts =
     Inr (map (rejected_entry r n m) (filter (\<lambda>t. \<not> meets t r (age_of n t) m) ts),
          map (eligible_entry r n) (filter (\<lambda>t. meets t r (age_of n t) m) ts))"
proof (induction ts)
  case (Cons t ts)
  then obtain x where x: "pt_observed_at t = IsoAware x" by (auto simp: aware_def split: iso_stamp.splits)
  with Cons show ?case
    by (cases "meets t r (age_of n t) m") (simp_all add: rejections_Nil rejected_entry_def eligible_entry_def Let_def)
qed simp

definition eligible_targets :: "fleet \<Rightarrow> plan_request \<Rightarrow> int \<Rightarrow> rat \<Rightarrow> placement_target list" where
  "eligible_targets ts r n m = filter (\<lambda>t. meets t r (age_of n t) m) (sort_key pt_name ts)"

lemma map_sort_key_fst: "map snd (sort_key fst (map (\<lambda>x. (f x, g x)) xs)) = map g (sort_key f xs)"
proof -
  have "map (\<lambda>x. (f x, g x)) (insort_key f x xs) = insort_key fst (f x, g x) (map (\<lambda>x. (f x, g x)) xs)" for x xs
    by (induction xs) auto
  then have "sort_key fst (map (\<lambda>x. (f x, g x)) xs) = map (\<lambda>x. (f x, g x)) (sort_key f xs)"
    by (induction xs) auto
  then show ?thesis by simp
qed

lemma explain_closed:
  assumes "fleet_ok ts" "0 < m"
  shows "explain ts r (IsoAware n) (Fin m) =
    (let ranked = map (\<lambda>t. candidate_of t r (age_of n t)) (sort_key (\<lambda>t. plan_key_of t r) (eligible_targets ts r n m)) in
     Inr \<lparr>ex_selected = (case ranked of [] \<Rightarrow> None | c # _ \<Rightarrow> Some c), ex_candidates = ranked,
       ex_rejected = map (rejected_entry r n m) (filter (\<lambda>t. \<not> meets t r (age_of n t) m) (sort_key pt_name ts))\<rparr>)"
proof -
  have "list_all (\<lambda>t. aware (pt_observed_at t)) (sort_key pt_name ts)"
    using assms(1) by (auto simp: fleet_ok_def list_all_iff target_ok_def target_consistent_def)
  from assess_closed [OF this] assms(2)
  show ?thesis by (simp add: explain_def eligible_targets_def eligible_entry_def [abs_def] map_sort_key_fst Let_def)
qed

text \<open>The first of the ranked candidates.\<close>

lemma ranked_first:
  assumes "request_ok r"
    and "map (\<lambda>t. candidate_of t r (age_of n t)) (sort_key (\<lambda>t. plan_key_of t r) (eligible_targets ts r n m)) = c # cs"
  shows "\<exists>s \<in> set ts. meets s r (age_of n s) m \<and> cd_target c = pt_name s
    \<and> (\<forall>t \<in> set ts. meets t r (age_of n t) m \<longrightarrow> plan_key_of s r \<le> plan_key_of t r)
    \<and> cd_runtime_digest c \<in> set (runtimes_of s r) \<and> opt_ok (\<lambda>d. cd_runtime_digest c = d) (pr_runtime_digest r)"
proof -
  obtain s ss where s: "sort_key (\<lambda>t. plan_key_of t r) (eligible_targets ts r n m) = s # ss"
    "c = candidate_of s r (age_of n s)" using assms(2) by auto
  have el: "set (s # ss) = {t \<in> set ts. meets t r (age_of n t) m}"
    unfolding s(1) [symmetric] by (auto simp: eligible_targets_def)
  have "sorted (map (\<lambda>t. plan_key_of t r) (s # ss))" unfolding s(1) [symmetric] by simp
  then have "\<forall>t \<in> set (s # ss). plan_key_of s r \<le> plan_key_of t r" by auto
  then have "\<forall>t \<in> set ts. meets t r (age_of n t) m \<longrightarrow> plan_key_of s r \<le> plan_key_of t r" unfolding el by blast
  moreover have "cd_target c = pt_name s" using s(2) by (simp add: candidate_of_def)
  moreover have ms: "s \<in> set ts" "meets s r (age_of n s) m" using el by auto
  moreover have "opt_ok hex64 (pr_runtime_digest r)" using assms(1) by (simp add: request_ok_def)
  then have "cd_runtime_digest c \<in> set (runtimes_of s r) \<and> opt_ok (\<lambda>d. cd_runtime_digest c = d) (pr_runtime_digest r)"
    using ms(2) s(2) by (auto simp: meets_def candidate_of_def opt_ok_def hex64_def split: option.splits)
  ultimately show ?thesis by blast
qed

section \<open>Overlays\<close>

text \<open>The contract of one overlay step: it keeps a daemon target valid, under its name.\<close>

locale fleet_overlay =
  fixes overlay :: "'a \<Rightarrow> placement_target \<Rightarrow> placement_error + placement_target"
  assumes keeps: "\<lbrakk>overlay x t = Inr t'; target_ok t; pt_kind t = Daemon\<rbrakk> \<Longrightarrow> target_ok t' \<and> pt_name t' = pt_name t"
begin

lemma step_keeps:
  "\<lbrakk>overlay_target (overlay x) name ts = Inr us; list_all target_ok ts\<rbrakk>
   \<Longrightarrow> list_all target_ok us \<and> map pt_name us = map pt_name ts"
  by (induction ts arbitrary: us) (auto split: if_splits dest: keeps)

lemma all_keeps:
  "\<lbrakk>overlay_all overlay xs ts = Inr us; list_all target_ok ts\<rbrakk>
   \<Longrightarrow> list_all target_ok us \<and> map pt_name us = map pt_name ts"
proof (induction xs arbitrary: ts)
  case (Cons nx xs)
  obtain name x where nx: "nx = (name, x)" by (cases nx)
  then obtain vs where vs: "overlay_target (overlay x) name ts = Inr vs" "overlay_all overlay xs vs = Inr us"
    using Cons.prems by auto
  show ?case using step_keeps [OF vs(1) Cons.prems(2)] Cons.IH [OF vs(2)] by simp
qed simp

lemma step_effect:
  "\<lbrakk>overlay_target (overlay x) name ts = Inr us; list_all target_ok ts; t \<in> set us; distinct (map pt_name ts)\<rbrakk>
   \<Longrightarrow> t \<in> set ts \<and> pt_name t \<noteq> name \<or> pt_name t = name \<and> (\<exists>t0. overlay x t0 = Inr t)"
proof (induction ts arbitrary: us)
  case (Cons u ts)
  show ?case
  proof (cases "pt_name u = name")
    case True
    then obtain u' where u': "overlay x u = Inr u'" "us = u' # ts" "pt_kind u = Daemon"
      using Cons.prems(1) by (auto split: if_splits)
    have "pt_name u' = name" using keeps [OF u'(1) _ u'(3)] Cons.prems(2) True by simp
    moreover have "\<forall>v \<in> set ts. pt_name v \<noteq> name" using Cons.prems(4) True by (auto simp: image_iff)
    ultimately show ?thesis using Cons.prems(3) u'(1,2) by auto
  next
    case False
    then obtain vs where "overlay_target (overlay x) name ts = Inr vs" "us = u # vs" using Cons.prems(1) by auto
    then show ?thesis using Cons False by auto
  qed
qed simp

text \<open>A target no entry names is untouched; what every step establishes holds of the named ones.\<close>

lemma all_other:
  "\<lbrakk>overlay_all overlay xs ts = Inr us; list_all target_ok ts; distinct (map pt_name ts); t \<in> set us;
    pt_name t \<notin> fst ` set xs\<rbrakk> \<Longrightarrow> t \<in> set ts"
proof (induction xs arbitrary: ts)
  case (Cons nx xs)
  obtain name x where nx: "nx = (name, x)" by (cases nx)
  then obtain vs where vs: "overlay_target (overlay x) name ts = Inr vs" "overlay_all overlay xs vs = Inr us"
    using Cons.prems by auto
  note kept = step_keeps [OF vs(1) Cons.prems(2)]
  then have "t \<in> set vs" using Cons.IH [OF vs(2)] Cons.prems by auto
  from step_effect [OF vs(1) Cons.prems(2) this Cons.prems(3)] Cons.prems(5) nx show ?case by auto
qed simp

lemma all_named:
  assumes "\<And>x t t'. overlay x t = Inr t' \<Longrightarrow> Q t'"
  shows "\<lbrakk>overlay_all overlay xs ts = Inr us; list_all target_ok ts; distinct (map pt_name ts); t \<in> set us;
    pt_name t \<in> fst ` set xs\<rbrakk> \<Longrightarrow> Q t"
proof (induction xs arbitrary: ts)
  case (Cons nx xs)
  obtain name x where nx: "nx = (name, x)" by (cases nx)
  then obtain vs where vs: "overlay_target (overlay x) name ts = Inr vs" "overlay_all overlay xs vs = Inr us"
    using Cons.prems by auto
  note kept = step_keeps [OF vs(1) Cons.prems(2)]
  show ?case
  proof (cases "pt_name t \<in> fst ` set xs")
    case True
    then show ?thesis using Cons.IH [OF vs(2)] kept Cons.prems by auto
  next
    case False
    then have "t \<in> set vs" using all_other [OF vs(2)] kept Cons.prems by auto
    from step_effect [OF vs(1) Cons.prems(2) this Cons.prems(3)] False Cons.prems(5) nx assms show ?thesis by auto
  qed
qed simp

end

lemma stamp_at_aware: "stamp_at x = Inr o' \<Longrightarrow> aware o'"
  by (auto simp: stamp_at_def aware_def Let_def split: if_splits)

lemma capacity_figure_ok: "capacity_figure d k = Inr v \<Longrightarrow> opt_ok (\<lambda>x. 0 \<le> x) v"
  by (auto simp: capacity_figure_def opt_ok_def split: pyval.splits if_splits)

lemma drop_programs_subset: "set (drop_programs ss ps) \<subseteq> set ps \<and> length (drop_programs ss ps) \<le> length ps"
proof (induction ss arbitrary: ps)
  case (Cons x ss)
  have "length (filter P ps) \<le> length ps" for P by simp
  then show ?case using Cons [of "filter (\<lambda>(q, _). q \<noteq> fst x) ps"] Cons [of ps]
    by (cases x) (auto simp: drop_programs_def intro: le_trans)
qed (simp add: drop_programs_def)

interpretation lost: fleet_overlay "overlay_unreachable answered" for answered
proof
  fix x t t'
  assume "overlay_unreachable answered x t = Inr t'" "target_ok t" "pt_kind t = Daemon"
  then show "target_ok t' \<and> pt_name t' = pt_name t"
    by (auto simp: overlay_unreachable_def target_ok_def target_consistent_def opt_ok_def dest: stamp_at_aware split: if_splits)
qed

lemma overlay_answer_Inr:
  assumes "overlay_answer answer t = Inr t'"
  obtains e observed cpus mem free_gpus gpus where "aware observed" "opt_ok (\<lambda>x. 0 \<le> x) cpus" "opt_ok (\<lambda>x. 0 \<le> x) mem"
    "opt_ok (\<lambda>x. 0 \<le> x) free_gpus" "opt_ok (\<lambda>x. 0 \<le> x) gpus" "t' = answered_target t e observed cpus mem free_gpus gpus"
proof -
  obtain d e observed cpus mem free_gpus gpus where
    "stamp_at (number_of (field d ''sampled_at'') - number_of (field d ''snapshot_age_seconds'')) = Inr observed"
    "capacity_figure d ''free_cpus'' = Inr cpus" "capacity_figure d ''free_mem_mb'' = Inr mem"
    "capacity_figure d ''free_gpus'' = Inr free_gpus" "capacity_figure d ''gpus'' = Inr gpus"
    "t' = answered_target t e observed cpus mem free_gpus gpus"
    using assms by (auto simp: overlay_answer_def split: pyval.splits if_splits sum.splits)
  then show thesis by (intro that [of observed cpus mem free_gpus gpus e] stamp_at_aware capacity_figure_ok)
qed

lemma overlay_free_ok:
  "opt_ok free_ok old \<Longrightarrow> opt_ok (\<lambda>x. 0 \<le> x) c \<Longrightarrow> opt_ok (\<lambda>x. 0 \<le> x) m \<Longrightarrow> opt_ok (\<lambda>x. 0 \<le> x) g
   \<Longrightarrow> free_ok (overlay_free old c m g)"
  by (auto simp: overlay_free_def free_ok_def opt_ok_def split: option.splits)

lemma answered_target_ok:
  assumes ok: "target_ok t" and kind: "pt_kind t = Daemon" and "aware observed"
    and figures: "opt_ok (\<lambda>x. 0 \<le> x) cpus" "opt_ok (\<lambda>x. 0 \<le> x) mem" "opt_ok (\<lambda>x. 0 \<le> x) free_gpus" "opt_ok (\<lambda>x. 0 \<le> x) gpus"
  shows "target_ok (answered_target t e observed cpus mem free_gpus gpus)"
proof -
  let ?t = "answered_target t e observed cpus mem free_gpus gpus"
  have old: "opt_ok free_ok (pt_free t)" "node_ok (pt_node t)"
    "list_all (\<lambda>(p, ds). label_match p \<and> list_all hex64 ds) (pt_programs t)" "length (pt_programs t) \<le> 256"
    using ok by (simp_all add: target_ok_def)
  have "opt_ok free_ok (Some (overlay_free (pt_free t) cpus mem free_gpus))"
    using overlay_free_ok [OF old(1) figures(1-3)] by (simp add: opt_ok_def)
  then have free: "opt_ok free_ok (pt_free ?t)" by (simp add: answered_target_def opt_ok_def Let_def)
  have node: "node_ok (pt_node ?t)" using old(2) figures(4)
    by (cases gpus) (simp_all add: answered_target_def node_ok_def opt_ok_def Let_def)
  have programs: "list_all (\<lambda>(p, ds). label_match p \<and> list_all hex64 ds) (pt_programs ?t)" "length (pt_programs ?t) \<le> 256"
    using old(3,4) drop_programs_subset [of "te_programs e" "pt_programs t"]
    by (auto simp: answered_target_def list_all_iff Let_def)
  have same: "pt_name ?t = pt_name t" "pt_kind ?t = pt_kind t" "pt_os ?t = pt_os t" "pt_arch ?t = pt_arch t"
    "pt_isa_levels ?t = pt_isa_levels t" "pt_accounts ?t = pt_accounts t" "pt_queue ?t = pt_queue t"
    "pt_data_access ?t = pt_data_access t" "pt_licenses ?t = pt_licenses t" "pt_max_nodes ?t = pt_max_nodes t"
    "pt_max_walltime_seconds ?t = pt_max_walltime_seconds t" "pt_walltime_unlimited ?t = pt_walltime_unlimited t"
    "pt_queue_wait_seconds ?t = pt_queue_wait_seconds t" "pt_speed_factor ?t = pt_speed_factor t"
    "pt_speed_source ?t = pt_speed_source t" "pt_staging_mb_per_second ?t = pt_staging_mb_per_second t"
    "pt_transfer_mb_per_second ?t = pt_transfer_mb_per_second t" "pt_observed_at ?t = observed"
    by (simp_all add: answered_target_def Let_def)
  from ok kind assms(3) show ?thesis
    unfolding target_ok_def target_consistent_def same by (simp add: free node programs opt_ok_def [of _ None])
qed

interpretation answer: fleet_overlay overlay_answer
proof
  fix x t t'
  assume "overlay_answer x t = Inr t'" "target_ok t" "pt_kind t = Daemon"
  then show "target_ok t' \<and> pt_name t' = pt_name t"
    using answered_target_ok by (auto elim!: overlay_answer_Inr simp: answered_target_def Let_def)
qed

section \<open>Waits from history\<close>

lemma round_even_mono: "x \<le> y \<Longrightarrow> round_even x \<le> round_even y"
proof -
  assume le: "x \<le> y"
  have bounds: "\<lfloor>z\<rfloor> \<le> round_even z" "round_even z \<le> \<lfloor>z\<rfloor> + 1" for z by (auto simp: round_even_def Let_def)
  show ?thesis
  proof (cases "\<lfloor>x\<rfloor> = \<lfloor>y\<rfloor>")
    case True
    then show ?thesis using le by (auto simp: round_even_def Let_def)
  next
    case False
    then have "\<lfloor>x\<rfloor> + 1 \<le> \<lfloor>y\<rfloor>" using floor_mono [OF le] by linarith
    then show ?thesis using bounds [of x] bounds [of y] by linarith
  qed
qed

lemma round3_mono: "x \<le> y \<Longrightarrow> round3 x \<le> round3 y"
  using round_even_mono [of "x * 1000" "y * 1000"] by (simp add: round3_def divide_right_mono)

lemma round3_nonneg: "0 \<le> x \<Longrightarrow> 0 \<le> round3 x"
  using round3_mono [of 0 x] by (simp add: round3_def round_even_def)

lemma recorded_wait_nonneg: "recorded_wait stamp_of t now since s = Some (a, w) \<Longrightarrow> 0 \<le> w"
  by (auto simp: recorded_wait_def Let_def split: if_splits option.splits iso_stamp.splits)

lemma set_py_take: "set (py_take n xs) \<subseteq> set xs"
  by (auto simp: py_take_def dest: in_set_takeD split: if_splits)

lemma length_py_take: "0 \<le> n \<Longrightarrow> length (py_take n xs) \<le> nat n"
  by (simp add: py_take_def)

lemma decile_bounds: "0 < n \<Longrightarrow> decile_index 1 n \<le> decile_index 9 n" "0 < n \<Longrightarrow> decile_index 9 n < n"
  by (auto simp: decile_index_def)

section \<open>Sample inputs\<close>

definition sample_target :: "string \<Rightarrow> int \<Rightarrow> placement_target" where
  "sample_target name cpus = \<lparr>pt_name = name, pt_kind = Daemon, pt_observed_at = IsoAware 0, pt_reachable = True,
     pt_maintenance = False, pt_os = Some ''linux'', pt_arch = None, pt_isa_levels = [],
     pt_programs = [(''orca'', [replicate 64 CHR ''a''])], pt_accounts = None, pt_queue = None, pt_data_access = None,
     pt_licenses = None, pt_node = \<lparr>ns_cpus = Some cpus, ns_mem_mb = Some 64000, ns_scratch_mb = None, ns_gpus = None\<rparr>,
     pt_max_nodes = 1, pt_max_walltime_seconds = None, pt_walltime_unlimited = True,
     pt_free = Some \<lparr>fc_cpus = Some cpus, fc_mem_mb = Some 64000, fc_scratch_mb = None, fc_gpus = None\<rparr>,
     pt_queue_wait_seconds = None, pt_speed_factor = 1, pt_speed_source = ''assumed'',
     pt_staging_mb_per_second = None, pt_transfer_mb_per_second = None\<rparr>"

definition sample_plan_request :: plan_request where
  "sample_plan_request = \<lparr>pr_program = ''orca'', pr_runtime_digest = None, pr_os = Some ''linux'', pr_arch = None,
     pr_isa_level = None, pr_account = None, pr_queue = None, pr_required_data_access = [], pr_required_licenses = [],
     pr_cpus = 8, pr_nodes = 1, pr_mpi_ranks = None, pr_threads_per_rank = None, pr_mem_mb_per_node = Some 4000,
     pr_scratch_mb_per_node = None, pr_gpus_per_node = None, pr_wall_time_seconds = Some 3600,
     pr_runtime_seconds = Some \<lparr>iv_low = 60, iv_high = 600\<rparr>, pr_input_mb = 0, pr_output_mb = 0\<rparr>"

lemma sample_fleet_ok: "fleet_ok [sample_target ''big'' 16, sample_target ''small'' 4]" "request_ok sample_plan_request"
  by code_simp+

section \<open>Properties\<close>

text \<open>
  the planner decides exactly by the hard requirements. On every valid fleet it returns; the candidates are
  precisely the targets that meet all requirements and the rejected ones precisely the others, each with at
  least one reason; a target is selected whenever one qualifies, and it is least in the ranking (fewest
  unknown components, then the midpoint and the upper bound of the predicted completion, the faster target, the
  name); the runtime reported is one the target has, and the requested one when one was requested.
\<close>

theorem explain_exact:
  assumes "fleet_ok ts" "request_ok r" "0 < m"
  shows "\<exists>e. explain ts r (IsoAware n) (Fin m) = Inr e
    \<and> set (map cd_target (ex_candidates e)) = pt_name ` {t \<in> set ts. meets t r (age_of n t) m}
    \<and> set (map fst (ex_rejected e)) = pt_name ` {t \<in> set ts. \<not> meets t r (age_of n t) m}
    \<and> (\<forall>(_, _, _, why) \<in> set (ex_rejected e). why \<noteq> [])
    \<and> (case ex_selected e of
         None \<Rightarrow> \<forall>t \<in> set ts. \<not> meets t r (age_of n t) m
       | Some c \<Rightarrow> \<exists>s \<in> set ts. meets s r (age_of n s) m \<and> cd_target c = pt_name s
           \<and> (\<forall>t \<in> set ts. meets t r (age_of n t) m \<longrightarrow> plan_key_of s r \<le> plan_key_of t r)
           \<and> cd_runtime_digest c \<in> set (runtimes_of s r)
           \<and> opt_ok (\<lambda>d. cd_runtime_digest c = d) (pr_runtime_digest r))"
proof -
  let ?el = "eligible_targets ts r n m"
  let ?ranked = "sort_key (\<lambda>t. plan_key_of t r) ?el"
  have el: "set ?ranked = {t \<in> set ts. meets t r (age_of n t) m}" by (auto simp: eligible_targets_def)
  have none: "\<forall>t \<in> set ts. \<not> meets t r (age_of n t) m" if "map (\<lambda>t. candidate_of t r (age_of n t)) ?ranked = []"
    using that el by auto
  have cands: "set (map cd_target (map (\<lambda>t. candidate_of t r (age_of n t)) ?ranked))
      = pt_name ` {t \<in> set ts. meets t r (age_of n t) m}"
    unfolding set_map el by (simp add: image_image candidate_of_def)
  let ?rej = "map (rejected_entry r n m) (filter (\<lambda>t. \<not> meets t r (age_of n t) m) (sort_key pt_name ts))"
  have rej: "set (map fst ?rej) = pt_name ` {t \<in> set ts. \<not> meets t r (age_of n t) m}"
    "\<forall>(_, _, _, why) \<in> set ?rej. why \<noteq> []"
    by (auto simp: image_image rejected_entry_def rejections_Nil)
  have final: "case (case map (\<lambda>t. candidate_of t r (age_of n t)) ?ranked of [] \<Rightarrow> None | c # _ \<Rightarrow> Some c) of
         None \<Rightarrow> \<forall>t \<in> set ts. \<not> meets t r (age_of n t) m
       | Some c \<Rightarrow> \<exists>s \<in> set ts. meets s r (age_of n s) m \<and> cd_target c = pt_name s
           \<and> (\<forall>t \<in> set ts. meets t r (age_of n t) m \<longrightarrow> plan_key_of s r \<le> plan_key_of t r)
           \<and> cd_runtime_digest c \<in> set (runtimes_of s r) \<and> opt_ok (\<lambda>d. cd_runtime_digest c = d) (pr_runtime_digest r)"
  proof (cases "map (\<lambda>t. candidate_of t r (age_of n t)) ?ranked")
    case Nil
    then show ?thesis using none by simp
  next
    case (Cons c cs)
    then show ?thesis using ranked_first [OF assms(2) Cons] by (simp only: list.case option.case)
  qed
  show ?thesis unfolding explain_closed [OF assms(1,3)] Let_def sum.inject ex_simps(1) simp_thms
    using cands rej final by (simp only: explanation.select_convs simp_thms)
qed

theorem explain_exact_witness:
  "\<exists>e. explain [sample_target ''big'' 16, sample_target ''small'' 4] sample_plan_request (IsoAware 0) (Fin 60) = Inr e
    \<and> set (map fst (ex_rejected e)) = pt_name ` {t \<in> set [sample_target ''big'' 16, sample_target ''small'' 4].
        \<not> meets t sample_plan_request (age_of 0 t) 60}"
  using explain_exact [OF sample_fleet_ok, of 60 0] by force

text \<open>
  The plan does not depend on the order in which the fleet lists its targets.
\<close>

theorem explain_order_independent:
  assumes "fleet_ok ts" "mset us = mset ts"
  shows "explain us r now max_age = explain ts r now max_age"
proof -
  have "sort_key pt_name us = sort_key pt_name ts"
  proof (rule sort_key_inj_key_eq)
    show "mset us = mset (sort_key pt_name ts)" using assms(2) by simp
    show "inj_on pt_name (set us)"
      using assms by (auto simp: fleet_ok_def distinct_map dest: mset_eq_setD)
    show "sorted (map pt_name (sort_key pt_name ts))" by simp
  qed
  then show ?thesis by (auto simp: explain_def split: iso_stamp.splits pyfloat.splits)
qed

theorem explain_order_independent_witness:
  "explain [sample_target ''small'' 4, sample_target ''big'' 16] sample_plan_request (IsoAware 0) (Fin 60)
   = explain [sample_target ''big'' 16, sample_target ''small'' 4] sample_plan_request (IsoAware 0) (Fin 60)"
  by (rule explain_order_independent [OF sample_fleet_ok(1)]) simp

text \<open>
  A fleet overlaid with live answers is again a valid fleet of the same targets in the same order. Targets
  without an answer and not reported lost are as the operator recorded them; a lost one is unreachable with nothing
  free, so the planner never selects it, whatever is requested.
\<close>

theorem fleet_with_capacity_valid:
  assumes "fleet_with_capacity base answers unreachable = Inr fleet"
  shows "fleet_ok fleet \<and> map pt_name fleet = map pt_name base
    \<and> (\<forall>t \<in> set fleet. pt_name t \<notin> fst ` set answers \<longrightarrow>
         (if pt_name t \<in> fst ` set unreachable
          then pt_free t = None \<and> (\<forall>r age m. \<not> meets t r age m) else t \<in> set base))"
proof -
  obtain ts where base: "fleet_ok base"
    and ts: "overlay_all (overlay_unreachable (map fst answers)) (sort_key fst unreachable) base = Inr ts"
    and fl: "overlay_all overlay_answer (sort_key fst answers) ts = Inr fleet"
    using assms by (auto simp: fleet_with_capacity_def split: if_splits)
  have ok: "list_all target_ok base" "distinct (map pt_name base)" using base by (auto simp: fleet_ok_def)
  note k1 = lost.all_keeps [OF ts ok(1)]
  note k2 = answer.all_keeps [OF fl conjunct1 [OF k1]]
  have names: "map pt_name fleet = map pt_name base" using k1 k2 by simp
  then have "length fleet = length base" by (metis length_map)
  then have "fleet_ok fleet" using base k2 names by (simp add: fleet_ok_def)
  moreover have "if pt_name t \<in> fst ` set unreachable then pt_free t = None \<and> (\<forall>r age m. \<not> meets t r age m) else t \<in> set base"
    if t: "t \<in> set fleet" "pt_name t \<notin> fst ` set answers" for t
  proof -
    have t1: "t \<in> set ts" using answer.all_other [OF fl conjunct1 [OF k1]] k1 ok(2) t by simp
    have "\<not> pt_reachable t \<and> pt_free t = None" if "pt_name t \<in> fst ` set unreachable"
      by (rule lost.all_named [OF _ ts ok t1, where Q = "\<lambda>t. \<not> pt_reachable t \<and> pt_free t = None"])
        (use that in \<open>auto simp: overlay_unreachable_def split: if_splits\<close>)
    moreover have "t \<in> set base" if "pt_name t \<notin> fst ` set unreachable"
      using lost.all_other [OF ts ok t1] that by simp
    ultimately show ?thesis by (auto simp: meets_def)
  qed
  ultimately show ?thesis using names by blast
qed

theorem fleet_with_capacity_valid_witness:
  "\<exists>fleet. fleet_with_capacity [sample_target ''here'' 16, sample_target ''small'' 4] [(''here'', demo_payload None)] [(''small'', 90)] = Inr fleet
     \<and> fleet_ok fleet \<and> (\<forall>t \<in> set fleet. pt_name t = ''small'' \<longrightarrow> \<not> meets t sample_plan_request 0 60)"
proof -
  define fleet where "fleet = (case fleet_with_capacity [sample_target ''here'' 16, sample_target ''small'' 4]
      [(''here'', demo_payload None)] [(''small'', 90)] of Inr f \<Rightarrow> f | Inl _ \<Rightarrow> [])"
  have f: "fleet_with_capacity [sample_target ''here'' 16, sample_target ''small'' 4]
      [(''here'', demo_payload None)] [(''small'', 90)] = Inr fleet"
    unfolding fleet_def by code_simp
  from fleet_with_capacity_valid [OF f] f show ?thesis by auto
qed

text \<open>
  A wait model from history is a valid one, and shows only what was recorded. Its bounds are ordered and not
  negative, each is, rounded to milliseconds, the wait of a recorded job of that lane, and it rests on at least the required and at most the
  allowed number of jobs.
\<close>

theorem queue_wait_history_valid:
  assumes "queue_wait_history stamp_of specs target now days max_jobs min_jobs = Inr (Some w, n)" "0 \<le> max_jobs"
  shows "wait_ok w \<and> min_jobs \<le> int n \<and> int n \<le> max_jobs
    \<and> (\<forall>x \<in> {wm_low w, wm_high w}. \<exists>s \<in> set specs. js_scheduler_target s = Some target
         \<and> map_option (\<lambda>p. round3 (snd p)) (recorded_wait stamp_of target now (now - days * 86400) s) = Some x)"
proof -
  define waits where "waits = List.map_filter (recorded_wait stamp_of target now (now - days * 86400)) specs"
  define recent where "recent = sort (map snd (py_take max_jobs (rev (sort waits))))"
  define lo hi where "lo = recent ! decile_index 1 (length recent)" and "hi = recent ! decile_index 9 (length recent)"
  have w: "w = \<lparr>wm_low = round3 lo, wm_high = round3 hi, wm_source = ''history''\<rparr>" "n = length recent"
      "0 < length recent" "min_jobs \<le> int n"
    using assms(1) unfolding queue_wait_history_def Let_def waits_def [symmetric] recent_def [symmetric] lo_def hi_def
    by (auto split: if_splits)
  have rec: "\<exists>s \<in> set specs. js_scheduler_target s = Some target
      \<and> map_option snd (recorded_wait stamp_of target now (now - days * 86400) s) = Some x" if x: "x \<in> set recent" for x
  proof -
    have "x \<in> snd ` set waits" using x set_py_take [of max_jobs "rev (sort waits)"] unfolding recent_def by auto
    then obtain a where "(a, x) \<in> set waits" by auto
    then obtain s where "s \<in> set specs" "recorded_wait stamp_of target now (now - days * 86400) s = Some (a, x)"
      by (auto simp: waits_def map_filter_def)
    then show ?thesis by (intro bexI [of _ s]) (auto simp: recorded_wait_def split: if_splits)
  qed
  note d = decile_bounds [OF w(3)]
  have mem: "lo \<in> set recent" "hi \<in> set recent" using d by (auto simp: lo_def hi_def)
  have "0 \<le> lo" using rec [OF mem(1)] recorded_wait_nonneg by force
  moreover have "lo \<le> hi" using d by (simp add: lo_def hi_def sorted_nth_mono recent_def)
  moreover have "int n \<le> max_jobs" using w(2) length_py_take [OF assms(2), of "rev (sort waits)"] assms(2) by (simp add: recent_def)
  ultimately show ?thesis using rec [OF mem(1)] rec [OF mem(2)] w(1,4) round3_mono round3_nonneg
    by (fastforce simp: wait_ok_def)
qed

theorem queue_wait_history_valid_witness:
  "wait_ok \<lparr>wm_low = 5, wm_high = 5, wm_source = ''history''\<rparr>"
proof -
  have "queue_wait_history (\<lambda>s. IsoAware (int (length s) * 1000000))
      [sample_spec ''a''\<lparr>js_scheduler_target := Some ''pbs'', js_scheduler_submitted_at := Some ''x'',
         js_scheduler_started_at := Some ''xxxxxx''\<rparr>] ''pbs'' 10 1 20 1
    = Inr (Some \<lparr>wm_low = 5, wm_high = 5, wm_source = ''history''\<rparr>, 1)" by code_simp
  from queue_wait_history_valid [OF this] show ?thesis by simp
qed

end
