(* ===== verification/Broker_Completion.thy ===== *)
theory Broker_Completion
  imports Placement_Policy Broker_Placer_Safety
begin

text \<open>
  The completion-time policy of the broker (\<open>broker_completion.py\<close>): the hosts that the capacity decision
  admits, ordered or refused by the planner over the operator's fleet with this pass's evidence laid over it.

  The texts of validation errors are a parameter. \<open>rank_admitted\<close> raises only when an admitted host has no
  snapshot or a time outside the calendar; a fleet file that cannot be used is \<open>Inl\<close> with its reason.
\<close>

section \<open>The re-ranker\<close>

definition COMMAND_PROGRAM :: string where "COMMAND_PROGRAM = ''vq-command''"
definition COMMAND_RUNTIME :: string where "COMMAND_RUNTIME = replicate 64 CHR ''0''"
definition PREFIX :: string where "PREFIX = ''completion-time: ''"

datatype rerank_error = RerankKeyError | RerankTimeError

definition held_decision :: "placement_decision \<Rightarrow> (string \<times> string) list \<Rightarrow> placement_decision" where
  "held_decision d blockers = d\<lparr>dc_host := None, dc_ranking := [], dc_blockers := sort blockers\<rparr>"

text \<open>A recorded target with this pass's observation, free capacity and, for a plain command, its stand-in program.\<close>

definition observed_target :: "broker_intent \<Rightarrow> capacity_snapshot \<Rightarrow> placement_target \<Rightarrow> rerank_error + placement_target" where
  "observed_target intent s t = (case sn_observed_at s of
      NonFin \<Rightarrow> Inl RerankTimeError
    | Fin x \<Rightarrow> (case stamp_at x of
        Inl _ \<Rightarrow> Inl RerankTimeError
      | Inr observed \<Rightarrow>
          Inr (t\<lparr>pt_observed_at := observed, pt_reachable := True,
            pt_free := Some (case pt_free t of
                None \<Rightarrow> \<lparr>fc_cpus = sn_free_cpus s, fc_mem_mb = sn_free_mem_mb s, fc_scratch_mb = None, fc_gpus = None\<rparr>
              | Some f \<Rightarrow> f\<lparr>fc_cpus := sn_free_cpus s, fc_mem_mb := sn_free_mem_mb s\<rparr>),
            pt_programs := (if in_program intent = None
              then AList.update COMMAND_PROGRAM [COMMAND_RUNTIME] (pt_programs t) else pt_programs t)\<rparr>)))"

text \<open>The loop over the admitted hosts: the observed targets and the blockers of the others.\<close>

fun admitted_targets ::
  "fleet \<Rightarrow> broker_intent \<Rightarrow> capacity_snapshot list \<Rightarrow> string list \<Rightarrow>
   rerank_error + placement_target list \<times> (string \<times> string) list" where
  "admitted_targets base intent ss [] = Inr ([], [])"
| "admitted_targets base intent ss (host # hosts) =
     (case map_of (rev (map (\<lambda>t. (pt_name t, t)) base)) host of
        Some t \<Rightarrow>
          if pt_kind t = Daemon
          then (case map_of (rev (map (\<lambda>s. (sn_host s, s)) ss)) host of
              None \<Rightarrow> Inl RerankKeyError
            | Some s \<Rightarrow> rbind (observed_target intent s t) (\<lambda>t'.
                rbind (admitted_targets base intent ss hosts) (\<lambda>(ts, bs). Inr (t' # ts, bs))))
          else rbind (admitted_targets base intent ss hosts) (\<lambda>(ts, bs).
            Inr (ts, (host, PREFIX @ ''not a daemon target of the placement fleet'') # bs))
      | None \<Rightarrow> rbind (admitted_targets base intent ss hosts) (\<lambda>(ts, bs).
            Inr (ts, (host, PREFIX @ ''not a daemon target of the placement fleet'') # bs)))"

definition plan_request_of :: "broker_intent \<Rightarrow> plan_request" where
  "plan_request_of i = \<lparr>pr_program = (case in_program i of None \<Rightarrow> COMMAND_PROGRAM | Some p \<Rightarrow> if p = [] then COMMAND_PROGRAM else p),
     pr_runtime_digest = None, pr_os = None, pr_arch = None, pr_isa_level = None, pr_account = None, pr_queue = None,
     pr_required_data_access = [], pr_required_licenses = [], pr_cpus = in_cpus i, pr_nodes = 1, pr_mpi_ranks = None,
     pr_threads_per_rank = None, pr_mem_mb_per_node = Some (in_mem_mb i), pr_scratch_mb_per_node = None,
     pr_gpus_per_node = None, pr_wall_time_seconds = in_wall_time_seconds i,
     pr_runtime_seconds = (case in_runtime_seconds i of
        Some (low # high # _) \<Rightarrow> Some \<lparr>iv_low = number_of low, iv_high = number_of high\<rparr> | _ \<Rightarrow> None),
     pr_input_mb = 0, pr_output_mb = 0\<rparr>"

text \<open>The decision that follows a successful plan.\<close>

definition planned_decision ::
  "placement_decision \<Rightarrow> (string \<times> string) list \<Rightarrow> explanation \<Rightarrow> placement_decision" where
  "planned_decision d blockers e =
     (let order = map cd_target (ex_candidates e);
          ranks = rev (map (\<lambda>k. (rank_host k, k)) (dc_ranking d)) in
      d\<lparr>dc_host := (case order of [] \<Rightarrow> None | h # _ \<Rightarrow> Some h),
        dc_ranking := map (\<lambda>h. the (map_of ranks h)) order,
        dc_blockers := sort (blockers @ map (\<lambda>(t, _, _, why). (t, PREFIX @ join ''; '' why)) (ex_rejected e))\<rparr>)"

definition plan_targets ::
  "placement_target list \<Rightarrow> plan_request \<Rightarrow> rat \<Rightarrow> pyfloat \<Rightarrow> explanation option" where
  "plan_targets targets r now max_age =
     (if \<not> fleet_ok targets \<or> \<not> request_ok r then None
      else case stamp_at now of
          Inl _ \<Rightarrow> None
        | Inr stamp \<Rightarrow> (case explain targets r stamp max_age of Inl _ \<Rightarrow> None | Inr e \<Rightarrow> Some e))"

text \<open>
  \<open>uncaught\<close>: the times for which \<open>datetime.fromtimestamp\<close> raises something other than the \<open>ValueError\<close> that is caught
  (infinities, and times beyond the calendar of the platform). A NaN or a year outside 1 to 9999 is a \<open>ValueError\<close>.
\<close>

definition rank_admitted ::
  "(placement_target list \<Rightarrow> plan_request \<Rightarrow> string) \<Rightarrow> (pyfloat \<Rightarrow> bool) \<Rightarrow> fleet \<Rightarrow> broker_intent \<Rightarrow> placement_decision \<Rightarrow>
   capacity_snapshot list \<Rightarrow> pyfloat \<Rightarrow> pyfloat \<Rightarrow> rerank_error + placement_decision" where
  "rank_admitted error_text uncaught base intent d ss now max_age =
     rbind (admitted_targets base intent ss (map rank_host (dc_ranking d))) (\<lambda>(targets, more).
       if fleet_ok targets \<and> request_ok (plan_request_of intent) \<and> uncaught now then Inl RerankTimeError
       else case (case now of NonFin \<Rightarrow> None | Fin n \<Rightarrow> plan_targets targets (plan_request_of intent) n max_age) of
           None \<Rightarrow> Inr (held_decision d ((dc_blockers d @ more) @
             map (\<lambda>t. (pt_name t, PREFIX @ take 300 (error_text targets (plan_request_of intent)))) targets))
         | Some e \<Rightarrow> Inr (planned_decision d (dc_blockers d @ more) e))"

definition completion_time_rerank ::
  "string + fleet \<Rightarrow> (placement_target list \<Rightarrow> plan_request \<Rightarrow> string) \<Rightarrow> (pyfloat \<Rightarrow> bool) \<Rightarrow> broker_record \<Rightarrow> placement_decision \<Rightarrow>
   capacity_snapshot list \<Rightarrow> pyfloat \<Rightarrow> pyfloat \<Rightarrow> rerank_error + placement_decision" where
  "completion_time_rerank load error_text uncaught r d ss now max_age = (case load of
      Inl reason \<Rightarrow> Inr (held_decision d (dc_blockers d @
        map (\<lambda>k. (rank_host k, PREFIX @ ''placement fleet unusable: '' @ take 300 reason)) (dc_ranking d)))
    | Inr base \<Rightarrow> rank_admitted error_text uncaught base (br_intent r) d ss now max_age)"

section \<open>The contract of a re-ranker\<close>

text \<open>
  What the placer relies on: a re-ranker orders or refuses admitted hosts and adds none; every refusal is a
  blocker, and no blocker is lost.
\<close>

locale reranker =
  fixes rerank :: "broker_record \<Rightarrow> placement_decision \<Rightarrow> capacity_snapshot list \<Rightarrow> pyfloat \<Rightarrow> pyfloat \<Rightarrow>
    'e + placement_decision"
  assumes never_adds: "rerank r d ss now age = Inr d' \<Longrightarrow> set (dc_ranking d') \<subseteq> set (dc_ranking d)"
    and keeps_blockers: "rerank r d ss now age = Inr d' \<Longrightarrow> set (dc_blockers d) \<subseteq> set (dc_blockers d')"
    and accounts: "\<lbrakk>rerank r d ss now age = Inr d'; k \<in> set (dc_ranking d)\<rbrakk>
      \<Longrightarrow> rank_host k \<in> rank_host ` set (dc_ranking d') \<or> rank_host k \<in> fst ` set (dc_blockers d')"
begin

lemma chosen_admitted:
  assumes "placement_request_of intent = Inr rq"
    and "place_broker_job ss rq (Fin n) (Fin m) = Inr d"
    and "rerank r d ss now age = Inr d'"
    and "choose_target P rec (dc_ranking d') w = ((Chosen host sroot, skipped), w')"
  shows "px_refuse_target P host = None \<and> starts_with ''/'' sroot
    \<and> (\<exists>s \<in> set ss. sn_host s = host \<and> host_blocker s rq n m = None)"
proof -
  note ch = choose_target_Chosen [OF assms(4)]
  have "host \<in> rank_host ` set (dc_ranking d)" using ch never_adds [OF assms(3)] by auto
  then obtain s where "s \<in> set ss" "host_blocker s rq n m = None" "sn_host s = host"
    using assms(2) by (auto simp: place_broker_job_Inr Let_def)
  with ch show ?thesis by blast
qed

end

section \<open>The completion-time policy is a re-ranker\<close>

lemma named_entry: "map_of (rev (map (\<lambda>t. (f t, t)) ts)) n = Some t \<Longrightarrow> t \<in> set ts \<and> f t = n"
  by (auto dest!: map_of_SomeD)

lemma observed_target_sel:
  "observed_target i s t = Inr t' \<Longrightarrow> pt_name t' = pt_name t \<and> pt_kind t' = pt_kind t \<and> pt_maintenance t' = pt_maintenance t"
  by (auto simp: observed_target_def split: pyfloat.splits sum.splits)

lemma admitted_targets_Inr:
  "admitted_targets base i ss hosts = Inr (ts, bs) \<Longrightarrow>
   (\<forall>t \<in> set ts. pt_name t \<in> set hosts \<and> (\<exists>t0 \<in> set base. pt_name t0 = pt_name t \<and> pt_kind t0 = Daemon \<and> pt_maintenance t0 = pt_maintenance t))
   \<and> (\<forall>h \<in> set hosts. h \<in> pt_name ` set ts \<or> h \<in> fst ` set bs)"
proof (induction hosts arbitrary: ts bs)
  case (Cons host hosts)
  show ?case
  proof (cases "map_of (rev (map (\<lambda>t. (pt_name t, t)) base)) host")
    case None
    then obtain bs' where "admitted_targets base i ss hosts = Inr (ts, bs')"
      "bs = (host, PREFIX @ ''not a daemon target of the placement fleet'') # bs'" using Cons.prems by auto
    then show ?thesis using Cons.IH by auto
  next
    case (Some t)
    note t = named_entry [OF Some]
    show ?thesis
    proof (cases "pt_kind t = Daemon")
      case False
      then obtain bs' where "admitted_targets base i ss hosts = Inr (ts, bs')"
        "bs = (host, PREFIX @ ''not a daemon target of the placement fleet'') # bs'" using Cons.prems Some by auto
      then show ?thesis using Cons.IH by auto
    next
      case True
      then obtain s t' ts' where s: "observed_target i s t = Inr t'" "admitted_targets base i ss hosts = Inr (ts', bs)" "ts = t' # ts'"
        using Cons.prems Some by (auto split: option.splits)
      from observed_target_sel [OF s(1)] t True
      have "pt_name t' = host" "\<exists>t0 \<in> set base. pt_name t0 = pt_name t' \<and> pt_kind t0 = Daemon \<and> pt_maintenance t0 = pt_maintenance t'"
        by auto
      then show ?thesis using Cons.IH [OF s(2)] s(3) by auto
    qed
  qed
qed simp

lemma explain_names:
  assumes "fleet_ok ts" "explain ts r now age = Inr e"
  shows "cd_target ` set (ex_candidates e) \<union> fst ` set (ex_rejected e) = pt_name ` set ts"
    and "c \<in> set (ex_candidates e) \<Longrightarrow> \<exists>t \<in> set ts. pt_name t = cd_target c \<and> \<not> pt_maintenance t"
proof -
  obtain n m where nm: "now = IsoAware n" "age = Fin m" "0 < m"
    using assms(2) by (auto simp: explain_def split: iso_stamp.splits pyfloat.splits if_splits)
  from explain_closed [OF assms(1) nm(3), of r n] assms(2) [unfolded nm(1,2)]
  have e: "ex_candidates e = map (\<lambda>t. candidate_of t r (age_of n t)) (sort_key (\<lambda>t. plan_key_of t r) (eligible_targets ts r n m))"
    "ex_rejected e = map (rejected_entry r n m) (filter (\<lambda>t. \<not> meets t r (age_of n t) m) (sort_key pt_name ts))"
    by (auto simp: Let_def)
  show "cd_target ` set (ex_candidates e) \<union> fst ` set (ex_rejected e) = pt_name ` set ts"
    unfolding e by (auto simp: image_image candidate_of_def rejected_entry_def eligible_targets_def)
  show "\<exists>t \<in> set ts. pt_name t = cd_target c \<and> \<not> pt_maintenance t" if "c \<in> set (ex_candidates e)"
    using that unfolding e by (auto simp: candidate_of_def eligible_targets_def meets_def)
qed

lemma map_of_rank_host:
  assumes "h \<in> rank_host ` set ks"
  shows "\<exists>k \<in> set ks. map_of (rev (map (\<lambda>k. (rank_host k, k)) ks)) h = Some k \<and> rank_host k = h"
proof (cases "map_of (rev (map (\<lambda>k. (rank_host k, k)) ks)) h")
  case None
  then have "h \<notin> fst ` set (rev (map (\<lambda>k. (rank_host k, k)) ks))" by (simp add: map_of_eq_None_iff)
  with assms show ?thesis by (simp add: image_image)
next
  case (Some k)
  with named_entry [OF Some] show ?thesis by blast
qed

text \<open>The three outcomes of a plan over the admitted hosts.\<close>

lemma rank_admitted_cases:
  assumes "rank_admitted text uncaught base i d ss now age = Inr d'"
  obtains (held) ts bs why where "admitted_targets base i ss (map rank_host (dc_ranking d)) = Inr (ts, bs)"
      "d' = held_decision d ((dc_blockers d @ bs) @ map (\<lambda>t. (pt_name t, why)) ts)"
    | (planned) ts bs stamp e where "admitted_targets base i ss (map rank_host (dc_ranking d)) = Inr (ts, bs)"
      "fleet_ok ts" "explain ts (plan_request_of i) stamp age = Inr e" "d' = planned_decision d (dc_blockers d @ bs) e"
proof -
  obtain ts bs where a: "admitted_targets base i ss (map rank_host (dc_ranking d)) = Inr (ts, bs)"
    using assms by (auto simp: rank_admitted_def)
  let ?plan = "case now of NonFin \<Rightarrow> None | Fin n \<Rightarrow> plan_targets ts (plan_request_of i) n age"
  show thesis
  proof (cases ?plan)
    case None
    then show thesis using assms a by (intro held [OF a]) (auto simp: rank_admitted_def split: if_splits)
  next
    case (Some e)
    then show thesis using planned [OF a] assms a
      by (auto simp: rank_admitted_def plan_targets_def split: if_splits sum.splits pyfloat.splits)
  qed
qed

text \<open>What a plan makes of the decision: the candidates in order, each with its old rank.\<close>

lemma planned_ranking:
  assumes "cd_target ` set (ex_candidates e) \<subseteq> rank_host ` set (dc_ranking d)"
  shows "set (dc_ranking (planned_decision d bs e)) \<subseteq> set (dc_ranking d)"
    "rank_host ` set (dc_ranking (planned_decision d bs e)) = cd_target ` set (ex_candidates e)"
proof -
  let ?at = "\<lambda>h. the (map_of (rev (map (\<lambda>k. (rank_host k, k)) (dc_ranking d))) h)"
  have at: "?at (cd_target c) \<in> set (dc_ranking d) \<and> rank_host (?at (cd_target c)) = cd_target c"
    if "c \<in> set (ex_candidates e)" for c
  proof -
    have "cd_target c \<in> rank_host ` set (dc_ranking d)" using assms that by blast
    from map_of_rank_host [OF this] show ?thesis by auto
  qed
  have r: "set (dc_ranking (planned_decision d bs e)) = (\<lambda>c. ?at (cd_target c)) ` set (ex_candidates e)"
    by (simp add: planned_decision_def Let_def image_image)
  show "set (dc_ranking (planned_decision d bs e)) \<subseteq> set (dc_ranking d)" unfolding r using at by blast
  show "rank_host ` set (dc_ranking (planned_decision d bs e)) = cd_target ` set (ex_candidates e)"
    unfolding r image_image using at by (intro image_cong) simp_all
qed

lemma planned_blockers:
  "set (dc_blockers (planned_decision d bs e)) = set bs \<union> (\<lambda>(t, _, _, why). (t, PREFIX @ join ''; '' why)) ` set (ex_rejected e)"
  by (simp add: planned_decision_def Let_def)

text \<open>The contract over a fleet: also, every host still ranked is a daemon target of it, not in maintenance.\<close>

definition reranked :: "fleet \<Rightarrow> placement_decision \<Rightarrow> placement_decision \<Rightarrow> bool" where
  "reranked base d d' \<longleftrightarrow> set (dc_ranking d') \<subseteq> set (dc_ranking d) \<and> set (dc_blockers d) \<subseteq> set (dc_blockers d')
     \<and> (\<forall>k \<in> set (dc_ranking d). rank_host k \<in> rank_host ` set (dc_ranking d') \<or> rank_host k \<in> fst ` set (dc_blockers d'))
     \<and> (\<forall>h \<in> rank_host ` set (dc_ranking d'). \<exists>t \<in> set base. pt_name t = h \<and> pt_kind t = Daemon \<and> \<not> pt_maintenance t)"

lemma held_reranked: "rank_host ` set (dc_ranking d) \<subseteq> fst ` set extra \<Longrightarrow> reranked base d (held_decision d (dc_blockers d @ extra))"
  by (auto simp: reranked_def held_decision_def)

lemma rank_admitted_reranked:
  assumes "rank_admitted text uncaught base i d ss now age = Inr d'"
  shows "reranked base d d'"
proof (cases rule: rank_admitted_cases [OF assms, case_names held planned])
  case (held ts bs why)
  note a = admitted_targets_Inr [OF held(1)]
  have "rank_host ` set (dc_ranking d) \<subseteq> pt_name ` set ts \<union> fst ` set bs" using a by auto
  then have "rank_host ` set (dc_ranking d) \<subseteq> fst ` set (bs @ map (\<lambda>t. (pt_name t, why)) ts)"
    by (auto simp: image_Un image_image)
  from held_reranked [OF this] held(2) show ?thesis by simp
next
  case (planned ts bs stamp e)
  note a = admitted_targets_Inr [OF planned(1)] and n = explain_names [OF planned(2,3)]
  have sub: "cd_target ` set (ex_candidates e) \<subseteq> rank_host ` set (dc_ranking d)"
  proof -
    have "pt_name ` set ts \<subseteq> rank_host ` set (dc_ranking d)" using a by auto
    then show ?thesis using n(1) by blast
  qed
  note r = planned_ranking [OF sub, of "dc_blockers d @ bs", folded planned(4)]
  have b: "set (dc_blockers d) \<subseteq> set (dc_blockers d')" "fst ` set (dc_blockers d') \<supseteq> fst ` set bs \<union> fst ` set (ex_rejected e)"
    unfolding planned(4) planned_blockers by (force simp: image_Un)+
  have "rank_host ` set (dc_ranking d) \<subseteq> pt_name ` set ts \<union> fst ` set bs" using a by auto
  then have "rank_host ` set (dc_ranking d) \<subseteq> rank_host ` set (dc_ranking d') \<union> fst ` set (dc_blockers d')"
    unfolding n(1) [symmetric] r(2) using b(2) by blast
  moreover have "\<exists>t \<in> set base. pt_name t = h \<and> pt_kind t = Daemon \<and> \<not> pt_maintenance t" if h: "h \<in> rank_host ` set (dc_ranking d')" for h
  proof -
    obtain c where "c \<in> set (ex_candidates e)" "h = cd_target c" using h [unfolded r(2)] by blast
    then obtain t where "t \<in> set ts" "pt_name t = h" "\<not> pt_maintenance t" using n(2) by blast
    then show ?thesis using a by metis
  qed
  ultimately show ?thesis using r(1) b(1) by (auto simp: reranked_def)
qed

lemma completion_reranked:
  assumes "completion_time_rerank load text uncaught r d ss now age = Inr d'"
  shows "reranked (case load of Inl _ \<Rightarrow> [] | Inr base \<Rightarrow> base) d d'"
proof (cases load)
  case (Inl reason)
  then show ?thesis using assms held_reranked
    by (auto simp: completion_time_rerank_def image_image)
next
  case (Inr base)
  then show ?thesis using assms rank_admitted_reranked by (simp add: completion_time_rerank_def)
qed

interpretation completion: reranker "completion_time_rerank load error_text uncaught" for load error_text uncaught
proof
  fix r d ss now age d'
  assume "completion_time_rerank load error_text uncaught r d ss now age = Inr d'"
  from completion_reranked [OF this]
  show "set (dc_ranking d') \<subseteq> set (dc_ranking d)" "set (dc_blockers d) \<subseteq> set (dc_blockers d')"
    "k \<in> set (dc_ranking d) \<Longrightarrow> rank_host k \<in> rank_host ` set (dc_ranking d') \<or> rank_host k \<in> fst ` set (dc_blockers d')" for k
    by (auto simp: reranked_def)
qed

section \<open>Properties\<close>

lemma completion_host:
  assumes "completion_time_rerank load text uncaught r d ss now age = Inr d'"
  shows "dc_host d' = (case dc_ranking d' of [] \<Rightarrow> None | k # ks \<Rightarrow> Some (rank_host k))"
proof (cases load)
  case (Inl reason)
  then show ?thesis using assms by (auto simp: completion_time_rerank_def held_decision_def)
next
  case (Inr base)
  with assms have "rank_admitted text uncaught base (br_intent r) d ss now age = Inr d'" by (simp add: completion_time_rerank_def)
  then show ?thesis
  proof (cases rule: rank_admitted_cases [case_names held planned])
    case (held ts bs why)
    then show ?thesis by (simp add: held_decision_def)
  next
    case (planned ts bs stamp e)
    note a = admitted_targets_Inr [OF planned(1)] and n = explain_names [OF planned(2,3)]
    have "pt_name ` set ts \<subseteq> rank_host ` set (dc_ranking d)" using a by auto
    then have "cd_target ` set (ex_candidates e) \<subseteq> rank_host ` set (dc_ranking d)" using n(1) by blast
    then show ?thesis using map_of_rank_host [of _ "dc_ranking d"] unfolding planned(4)
      by (cases "ex_candidates e") (fastforce simp: planned_decision_def Let_def)+
  qed
qed

text \<open>The placer of the broker with this policy; an exception of the policy leaves the pass.\<close>

lemma completion_narrows:
  "rerank_narrows (P\<lparr>px_rerank := Some (\<lambda>r d ss now age.
     case completion_time_rerank load text uncaught r d ss now age of Inl _ \<Rightarrow> Inl ValueError | Inr d' \<Rightarrow> Inr d')\<rparr>)"
  using completion.never_adds by (fastforce simp: rerank_narrows_def split: sum.splits)

text \<open>
  C40: the completion-time policy never weakens the capacity decision. Whatever it returns, for any fleet file, readable
  or not: every host it still ranks was ranked by the capacity decision, whose snapshot, less every outstanding charge
  of the broker, had no blocker for the job, and is a daemon target of the fleet that is not in maintenance; the chosen
  host is the first of them, and there is none when no host is ranked; every admitted host that is not ranked any more
  has a blocker of its own; no blocker of the capacity decision is lost; and with an unusable fleet file nothing is ranked.
\<close>

theorem completion_rerank_safe:
  assumes "placement_request_of (br_intent r) = Inr rq"
    and "place_broker_job (debit_snapshots snapshots charges) rq (Fin n) (Fin m) = Inr d"
    and "completion_time_rerank load error_text uncaught r d (debit_snapshots snapshots charges) (Fin n) (Fin m) = Inr d'"
  shows "(\<forall>k \<in> set (dc_ranking d'). k \<in> set (dc_ranking d)
        \<and> (\<exists>s \<in> set snapshots. sn_host s = rank_host k \<and> host_blocker (debit_snapshot charges s) rq n m = None)
        \<and> (case load of Inl _ \<Rightarrow> False
           | Inr base \<Rightarrow> \<exists>t \<in> set base. pt_name t = rank_host k \<and> pt_kind t = Daemon \<and> \<not> pt_maintenance t))
    \<and> dc_host d' = (case dc_ranking d' of [] \<Rightarrow> None | k # ks \<Rightarrow> Some (rank_host k))
    \<and> (\<forall>k \<in> set (dc_ranking d). rank_host k \<in> rank_host ` set (dc_ranking d') \<or> rank_host k \<in> fst ` set (dc_blockers d'))
    \<and> set (dc_blockers d) \<subseteq> set (dc_blockers d')"
proof -
  note contract = completion_reranked [OF assms(3)]
  have "\<exists>s \<in> set snapshots. sn_host s = rank_host k \<and> host_blocker (debit_snapshot charges s) rq n m = None"
    if "k \<in> set (dc_ranking d)" for k
    using that assms(2) by (auto simp: place_broker_job_Inr Let_def debit_snapshots_def)
  then show ?thesis using contract completion_host [OF assms(3)] by (auto simp: reranked_def split: sum.splits)
qed

theorem completion_rerank_safe_witness:
  "(\<exists>t \<in> set [sample_target ''a'' 16]. pt_name t = ''a'' \<and> \<not> pt_maintenance t)
   \<and> (\<exists>d' why. completion_time_rerank (Inl ''no such file'') (\<lambda>_ _. []) (\<lambda>_. False) sample_record
        \<lparr>dc_host = Some ''a'', dc_blockers = [], dc_ranking = [(-1, -1, -8000, -8, 0, 1, ''a'')]\<rparr>
        (debit_snapshots [sample_snapshot ''a'' 8] []) (Fin 100) (Fin 30) = Inr d' \<and> (''a'', why) \<in> set (dc_blockers d'))"
proof -
  let ?s = "debit_snapshots [sample_snapshot ''a'' 8] []"
  let ?rq = "\<lparr>rq_cpus = 4, rq_mem_mb = 2000, rq_pool = None, rq_wall_time_seconds = Some 3600\<rparr>"
  let ?d = "\<lparr>dc_host = Some ''a'', dc_blockers = [], dc_ranking = [(-1, -1, -8000, -8, 0, 1, ''a'')]\<rparr>"
  have 1: "placement_request_of (br_intent sample_record) = Inr ?rq" by code_simp
  have 2: "place_broker_job ?s ?rq (Fin 100) (Fin 30) = Inr ?d" by code_simp
  have 3: "completion_time_rerank (Inr [sample_target ''a'' 16]) (\<lambda>_ _. []) (\<lambda>_. False) sample_record ?d ?s (Fin 100) (Fin 30) = Inr ?d"
    by code_simp
  obtain d' where 4: "completion_time_rerank (Inl ''no such file'') (\<lambda>_ _. []) (\<lambda>_. False) sample_record ?d ?s (Fin 100) (Fin 30) = Inr d'"
    by (simp add: completion_time_rerank_def)
  have "dc_ranking d' = []" using 4 by (auto simp: completion_time_rerank_def held_decision_def)
  then have "''a'' \<in> fst ` set (dc_blockers d')" using completion_rerank_safe [OF 1 2 4] by simp
  moreover have "\<exists>t \<in> set [sample_target ''a'' 16]. pt_name t = ''a'' \<and> \<not> pt_maintenance t"
    using completion_rerank_safe [OF 1 2 3] by auto
  ultimately show ?thesis using 4 by force
qed

end
