(* ===== verification/Daemon_Start.thy ===== *)
theory Daemon_Start
  imports Job_Queue Broker_Evidence
begin

text \<open>
  The start of one job by the daemon: the checks that precede it, the two locked writes that bracket the
  launch of a local process, and the managed-container variant (\<open>_start_job\<close>, \<open>_fail_dispatch\<close>,
  \<open>_persist_program_runtime_resolution\<close>, \<open>_start_managed_container\<close> of \<open>daemon.py\<close>), for the single-user
  daemon.

  Each locked section of the code is one step on the queue. Between two sections other processes may
  write spec files: \<open>se_race n\<close> is what they do in the \<open>n\<close>-th gap, and is arbitrary. The program registry,
  the bundle check, systemd, the container engine and the operating system enter as the answers they
  give. Log files and environment variables are not modelled; that their set-up may raise is
  (\<open>se_setup_ok\<close>).
\<close>

section \<open>State\<close>

text \<open>A child of this daemon, a group of a previous one, and a killed group that outlived its reaped wrapper.\<close>

record running_job = local_job +
  rj_container :: bool \<comment> \<open>a managed container instead of a child process\<close>
  rj_term_deadline :: "rat option"
  rj_term_sigkilled :: bool

record orphan_job = local_job +
  oj_pgid :: int
  oj_term_deadline :: "rat option"

record terminal_survivor = local_job +
  ts_pgid :: int
  ts_state :: job_state
  ts_deadline :: rat

definition new_running :: "bool \<Rightarrow> string list \<Rightarrow> job_spec \<Rightarrow> running_job" where
  "new_running container gpus s = \<lparr>lj_cpus = js_cpus s, lj_mem_mb = js_mem_mb s, lj_gpu_devices = gpus,
     rj_container = container, rj_term_deadline = None, rj_term_sigkilled = False\<rparr>"

record scheduler_job =
  sj_job_id :: string \<comment> \<open>\<open>handle.job_id\<close>\<close>
  sj_array_size :: "int option"
  sj_target :: string
  sj_cpus :: int
  sj_allocation_finished :: bool
  sj_term_qdeled :: bool
  sj_last_status_write :: rat
  sj_marker_since :: "rat option" \<comment> \<open>\<open>finished_without_marker_since\<close>\<close>
  sj_marker_misses :: int
  sj_fetch_misses :: int
  sj_explicit_absence :: bool

record daemon =
  dm_view :: daemon_view \<comment> \<open>caps and configuration; its job lists are not used here\<close>
  dm_cgroup_enabled :: bool
  dm_queue :: queue_world
  dm_running :: "(string \<times> running_job) list"
  dm_orphans :: "(string \<times> orphan_job) list"
  dm_survivors :: "(string \<times> terminal_survivor) list"
  dm_scheduler_running :: "(string \<times> scheduler_job) list"
  dm_admission_retry_at :: "(string \<times> rat) list"
  dm_launched :: "int list" \<comment> \<open>every process group this daemon launched\<close>
  dm_sigkilled :: "int list" \<comment> \<open>every process group it sent SIGKILL\<close>
  dm_submits :: "(string \<times> int) list" \<comment> \<open>every call of a dispatcher's \<open>submit\<close>: job id and attempt\<close>

text \<open>\<open>StartRaised\<close>: an exception leaves the operation.\<close>

datatype start_result = Started | NotStarted | StartRaised

record runtime_resolution =
  rr_failure :: "string option"
  rr_deferred :: "string option"
  rr_resolved_git_sha :: "string option"
  rr_runtime_root :: "string option"
  rr_runtime_source :: "string option"
  rr_runtime_python :: "string option"

record start_env =
  se_queue :: queue_env
  se_now_iso :: string
  se_clock :: rat
  se_race :: "nat \<Rightarrow> queue_world \<Rightarrow> queue_world"
  se_resolution :: "job_spec \<Rightarrow> runtime_resolution"
  se_bundle_failure :: "job_spec \<Rightarrow> string option"
  se_setup_ok :: bool
  se_scope_exists :: bool
  se_scope_stopped :: bool
  se_scope_still_exists :: bool
  se_update_marker :: "string list option option" \<comment> \<open>the live marker's scope, at the claim\<close>
  se_workdir :: string
  se_launch :: "job_spec \<Rightarrow> string + int"
  se_pgid :: "int option"
  se_pid_start_time :: "int option"
  se_container_prepare :: "job_spec \<Rightarrow> string option" \<comment> \<open>the error\<close>
  se_container_present :: bool
  se_container_settled :: bool

definition spec_of :: "daemon \<Rightarrow> string \<Rightarrow> job_spec option" where
  "spec_of d i = map_of (qw_disk (dm_queue d)) i"

definition write_row :: "job_spec \<Rightarrow> string \<Rightarrow> daemon \<Rightarrow> daemon" where
  "write_row s i d = d\<lparr>dm_queue := write_spec s i (dm_queue d)\<rparr>"

definition log_row :: "string \<Rightarrow> job_state \<Rightarrow> job_state \<Rightarrow> daemon \<Rightarrow> daemon" where
  "log_row i a b d = d\<lparr>dm_queue := log_transition i a b (dm_queue d)\<rparr>"

definition others_write :: "start_env \<Rightarrow> nat \<Rightarrow> daemon \<Rightarrow> daemon" where
  "others_write env n d = d\<lparr>dm_queue := se_race env n (dm_queue d)\<rparr>"

definition write_ok :: "start_env \<Rightarrow> string \<Rightarrow> bool" where
  "write_ok env i = qe_write_ok (se_queue env) i"

section \<open>Failing a dispatch\<close>

definition fail_dispatch :: "start_env \<Rightarrow> job_spec \<Rightarrow> string \<Rightarrow> int option \<Rightarrow> daemon \<Rightarrow> start_result \<times> daemon" where
  "fail_dispatch env spec reason exit_code d = (
     let i = js_id spec; fresh = the_or spec (spec_of d i) in
     if is_terminal fresh then (NotStarted, d)
     else if \<not> write_ok env i then (StartRaised, d)
     else (NotStarted, log_row i (js_state fresh) FAILED (write_row (fresh\<lparr>js_state := FAILED,
        js_finished_at := Some (utcnow_iso (se_queue env)), js_exit_code := exit_code,
        js_failure_reason := Some reason\<rparr>) i d)))"

section \<open>The runtime recorded for a program\<close>

definition unenforced_pin :: runtime_pin where
  "unenforced_pin = \<lparr>pin_expected_git_sha = None, pin_enforce_git_sha = False, pin_resolved_git_sha = None,
     pin_resolved_runtime_root = None, pin_resolved_runtime_source = None, pin_resolved_runtime_python = None,
     pin_expected_import_version = None, pin_import_check = None, pin_import_symbols = [],
     pin_scheduler_host = None, pin_resolved_executable = None, pin_program_kind = None,
     pin_program_version = None, pin_artifact_identity = None, pin_managed_generation = None\<rparr>"

definition same_resolution_intent :: "job_spec \<Rightarrow> job_spec \<Rightarrow> bool" where
  "same_resolution_intent fresh spec \<longleftrightarrow> js_state fresh = PENDING \<and> js_program fresh = js_program spec
     \<and> js_scheduler_target fresh = js_scheduler_target spec \<and> js_command fresh = js_command spec
     \<and> js_qvf_artifact_name fresh = js_qvf_artifact_name spec
     \<and> map_option without_resolution (js_program_runtime_pin fresh)
        = map_option without_resolution (js_program_runtime_pin spec)"

definition resolved_row :: "runtime_resolution \<Rightarrow> runtime_pin \<Rightarrow> job_spec \<Rightarrow> job_spec" where
  "resolved_row r pin fresh = fresh\<lparr>
     js_program_runtime_pin := Some (pin\<lparr>pin_resolved_git_sha := rr_resolved_git_sha r,
       pin_resolved_runtime_root := rr_runtime_root r, pin_resolved_runtime_source := rr_runtime_source r,
       pin_resolved_runtime_python := rr_runtime_python r\<rparr>),
     js_command := (case (js_qvf_artifact_name fresh, rr_runtime_python r) of
         (Some _, Some python) \<Rightarrow> python # tl (js_command fresh) | _ \<Rightarrow> js_command fresh)\<rparr>"

text \<open>
  The result is \<open>None\<close> when the write raises, else whether the caller may go on; with the caller's spec
  object, which takes the recorded pin and command.
\<close>

definition persist_program_runtime_resolution ::
  "start_env \<Rightarrow> job_spec \<Rightarrow> runtime_resolution \<Rightarrow> daemon \<Rightarrow> bool option \<times> job_spec \<times> daemon" where
  "persist_program_runtime_resolution env spec r d = (
     let i = js_id spec;
         stale = (case js_program_runtime_pin spec of None \<Rightarrow> False | Some p \<Rightarrow> p \<noteq> without_resolution p);
         commit = (\<lambda>row. if \<not> write_ok env i then (None, spec, d)
            else (Some True, spec\<lparr>js_command := (if rr_resolved_git_sha r = None then js_command spec else js_command row),
                    js_program_runtime_pin := js_program_runtime_pin row\<rparr>, write_row row i d)) in
     if rr_resolved_git_sha r = None \<and> \<not> stale then (Some True, spec, d)
     else case spec_of d i of
       None \<Rightarrow> (Some False, spec, d)
     | Some fresh \<Rightarrow>
         if \<not> same_resolution_intent fresh spec then (Some False, spec, d)
         else if rr_resolved_git_sha r = None
         then (case js_program_runtime_pin fresh of
             None \<Rightarrow> (None, spec, d)
           | Some p \<Rightarrow> commit (fresh\<lparr>js_program_runtime_pin := Some (without_resolution p)\<rparr>))
         else (case js_program_runtime_pin fresh of
             None \<Rightarrow> if rr_runtime_root r = None \<and> rr_runtime_python r = None then (Some False, spec, d)
                     else commit (resolved_row r unenforced_pin fresh)
           | Some p \<Rightarrow> commit (resolved_row r p fresh)))"

section \<open>The gates before a start\<close>

definition ADMISSION_RETRY_SECONDS :: rat where "ADMISSION_RETRY_SECONDS = 30"

text \<open>\<open>Inr\<close>: the spec that may be started, with its runtime recorded.\<close>

definition prepare_start :: "start_env \<Rightarrow> job_spec \<Rightarrow> daemon \<Rightarrow> (start_result + job_spec) \<times> daemon" where
  "prepare_start env spec d = (
     let i = js_id spec; fail = (\<lambda>s reason d. case fail_dispatch env s reason (Some (-1)) d of (r, d) \<Rightarrow> (Inl r, d)) in
     case spec_of d i of
       None \<Rightarrow> (Inl NotStarted, d)
     | Some fresh \<Rightarrow>
         if js_state fresh \<noteq> PENDING then (Inl NotStarted, d)
         else if se_clock env < the_or 0 (map_of (dm_admission_retry_at d) i) then (Inl NotStarted, d)
         else let r = se_resolution env fresh in
           if rr_deferred r \<noteq> None
           then (Inl NotStarted, d\<lparr>dm_admission_retry_at :=
                   AList.update i (se_clock env + ADMISSION_RETRY_SECONDS) (dm_admission_retry_at d)\<rparr>)
           else let d1 = others_write env 0 (d\<lparr>dm_admission_retry_at := AList.delete i (dm_admission_retry_at d)\<rparr>) in
             case rr_failure r of
               Some failure \<Rightarrow> fail fresh failure d1
             | None \<Rightarrow> (case se_bundle_failure env fresh of
                 Some failure \<Rightarrow> fail fresh failure d1
               | None \<Rightarrow> (case persist_program_runtime_resolution env fresh r d1 of
                   (None, s, d2) \<Rightarrow> (Inl StartRaised, d2)
                 | (Some False, s, d2) \<Rightarrow> (Inl NotStarted, d2)
                 | (Some True, s, d2) \<Rightarrow> (Inr s, d2))))"

section \<open>A local process\<close>

definition admin_update_holds_spec :: "string list option option \<Rightarrow> job_spec \<Rightarrow> bool" where
  "admin_update_holds_spec marker s = (case marker of
      None \<Rightarrow> False
    | Some None \<Rightarrow> True
    | Some (Some scope) \<Rightarrow> (case js_scheduler_target s of
        Some t \<Rightarrow> t \<in> set scope | None \<Rightarrow> LOCAL_DISPATCH_SCOPE \<in> set scope))"

text \<open>The locked claim: \<open>PENDING\<close> to \<open>RUNNING\<close> without process ids, before the launch.\<close>

definition claim_local :: "start_env \<Rightarrow> string list \<Rightarrow> job_spec \<Rightarrow> daemon \<Rightarrow> (start_result + job_spec) \<times> daemon" where
  "claim_local env gpus spec d = (let i = js_id spec in
     case spec_of d i of
       None \<Rightarrow> (Inl NotStarted, d)
     | Some latest \<Rightarrow>
         if js_state latest \<noteq> PENDING then (Inl NotStarted, d)
         else if admin_update_holds_spec (se_update_marker env) latest then (Inl NotStarted, d)
         else if js_program_runtime_pin latest \<noteq> js_program_runtime_pin spec then (Inl NotStarted, d)
         else if js_gpus latest \<noteq> js_gpus spec \<or> the_or 0 (js_gpus latest) \<noteq> int (length gpus) then (Inl NotStarted, d)
         else if \<not> write_ok env i then (Inl StartRaised, d)
         else let claimed = latest\<lparr>js_gpu_devices := (if gpus = [] then None else Some gpus),
                js_workdir := Some (se_workdir env), js_state := RUNNING, js_pid := None, js_pgid := None,
                js_pid_start_time := None, js_started_at := Some (se_now_iso env)\<rparr> in
           (Inr claimed, write_row claimed i d))"

text \<open>
  The locked record of the process: a terminal label that landed since the claim wins and the process is
  killed. A row that cannot be read here raises, with the process left behind.
\<close>

definition record_pid :: "start_env \<Rightarrow> string \<Rightarrow> job_spec \<Rightarrow> int \<Rightarrow> daemon \<Rightarrow> start_result \<times> daemon" where
  "record_pid env i claimed pid d = (case spec_of d i of
      None \<Rightarrow> (StartRaised, d)
    | Some latest \<Rightarrow>
        if is_terminal latest
        then let relabel = js_id latest \<noteq> i in
          if relabel \<and> \<not> write_ok env i then (StartRaised, d)
          else (NotStarted, (if relabel then write_row (latest\<lparr>js_id := i\<rparr>) i d else d)
            \<lparr>dm_sigkilled := pid # dm_sigkilled d\<rparr>)
        else if \<not> write_ok env i then (StartRaised, d)
        else let s = claimed\<lparr>js_pid := Some pid, js_pgid := se_pgid env, js_pid_start_time := se_pid_start_time env,
               js_started_at := Some (se_now_iso env)\<rparr> in
          (Started, log_row i PENDING RUNNING (write_row s i (d\<lparr>dm_running := AList.update i
             (new_running False (the_or [] (js_gpu_devices s)) s) (dm_running d)\<rparr>))))"

definition scope_leaked :: "start_env \<Rightarrow> daemon \<Rightarrow> bool" where
  "scope_leaked env d \<longleftrightarrow> dm_cgroup_enabled d \<and> se_scope_exists env \<and> \<not> se_scope_stopped env \<and> se_scope_still_exists env"

definition start_local :: "start_env \<Rightarrow> string list \<Rightarrow> job_spec \<Rightarrow> daemon \<Rightarrow> start_result \<times> daemon" where
  "start_local env gpus spec d = (let i = js_id spec; d1 = others_write env 1 d in
     if \<not> se_setup_ok env then (StartRaised, d1)
     else if scope_leaked env d
     then fail_dispatch env spec (''cgroup scope vq-job-'' @ i @ ''.scope is leaked and cannot be stopped'') (Some (-1)) d1
     else case claim_local env gpus spec d1 of
       (Inl r, d2) \<Rightarrow> (r, d2)
     | (Inr claimed, d2) \<Rightarrow> (case se_launch env claimed of
         Inl err \<Rightarrow> fail_dispatch env claimed (''failed to start: '' @ err) (Some (-1)) (others_write env 2 d2)
       | Inr pid \<Rightarrow> record_pid env i claimed pid
             (others_write env 2 (d2\<lparr>dm_launched := pid # dm_launched d2\<rparr>))))"

section \<open>A managed container\<close>

definition CONTAINER_COMMAND :: string where "CONTAINER_COMMAND = ''vq-docker''"

definition container_requested :: "string list \<Rightarrow> bool" where
  "container_requested command \<longleftrightarrow> command \<noteq> [] \<and> hd command = CONTAINER_COMMAND"

definition restore_managed_container :: "start_env \<Rightarrow> job_spec \<Rightarrow> daemon \<Rightarrow> daemon" where
  "restore_managed_container env spec d =
     (if se_container_settled env \<and> is_terminal spec then d
      else d\<lparr>dm_running := AList.update (js_id spec) (new_running True [] spec) (dm_running d)\<rparr>)"

definition start_managed_container :: "start_env \<Rightarrow> job_spec \<Rightarrow> daemon \<Rightarrow> start_result \<times> daemon" where
  "start_managed_container env spec d = (let i = js_id spec;
     broken = (\<lambda>err. if se_container_present env then (Started, restore_managed_container env spec d)
                      else fail_dispatch env spec err (Some (-1)) d) in
     case spec_of d i of
       None \<Rightarrow> broken ''the spec file cannot be read''
     | Some fresh \<Rightarrow>
         if js_state fresh \<noteq> PENDING then (NotStarted, d)
         else case se_container_prepare env fresh of
           Some err \<Rightarrow> broken err
         | None \<Rightarrow>
             if \<not> write_ok env i then broken ''the spec file cannot be written''
             else let claimed = fresh\<lparr>js_state := RUNNING, js_started_at := Some (se_now_iso env), js_pid := None, js_pgid := None\<rparr> in
               (Started, restore_managed_container env claimed (write_row claimed i d)))"

section \<open>What a start leaves behind\<close>

definition row_state :: "daemon \<Rightarrow> string \<Rightarrow> job_state option" where
  "row_state d i = state_on (dm_queue d) i"

lemma row_state_spec: "row_state d i = map_option js_state (spec_of d i)"
  by (simp add: row_state_def state_on_def spec_of_def)

lemma spec_of_write [simp]: "spec_of (write_row s i d) = (spec_of d)(i \<mapsto> s)"
  by (simp add: spec_of_def write_row_def store_simps fun_eq_iff)

lemma spec_of_log [simp]: "spec_of (log_row i a b d) = spec_of d"
  by (simp add: spec_of_def log_row_def fun_eq_iff)

lemma row_state_write [simp]: "row_state (write_row s i d) j = (if j = i then Some (js_state s) else row_state d j)"
  by (simp add: row_state_spec)

lemma row_state_log [simp]: "row_state (log_row i a b d) = row_state d"
  by (simp add: row_state_spec fun_eq_iff)

lemma daemon_frame [simp]:
  "dm_running (write_row s i d) = dm_running d" "dm_running (log_row i a b d) = dm_running d"
  "dm_running (others_write env n d) = dm_running d"
  "dm_launched (write_row s i d) = dm_launched d" "dm_launched (log_row i a b d) = dm_launched d"
  "dm_launched (others_write env n d) = dm_launched d"
  "dm_sigkilled (write_row s i d) = dm_sigkilled d" "dm_sigkilled (log_row i a b d) = dm_sigkilled d"
  "dm_sigkilled (others_write env n d) = dm_sigkilled d"
  "dm_scheduler_running (write_row s i d) = dm_scheduler_running d"
  "dm_scheduler_running (log_row i a b d) = dm_scheduler_running d"
  "dm_scheduler_running (others_write env n d) = dm_scheduler_running d"
  "dm_submits (write_row s i d) = dm_submits d" "dm_submits (log_row i a b d) = dm_submits d"
  "dm_submits (others_write env n d) = dm_submits d"
  by (simp_all add: write_row_def log_row_def others_write_def)

lemma spec_of_frame [simp]:
  "spec_of (d\<lparr>dm_running := x1\<rparr>) = spec_of d" "spec_of (d\<lparr>dm_launched := x2\<rparr>) = spec_of d"
  "spec_of (d\<lparr>dm_sigkilled := x2\<rparr>) = spec_of d" "spec_of (d\<lparr>dm_admission_retry_at := x3\<rparr>) = spec_of d"
  "spec_of (d\<lparr>dm_scheduler_running := x4\<rparr>) = spec_of d" "spec_of (d\<lparr>dm_submits := x5\<rparr>) = spec_of d"
  by (simp_all add: spec_of_def fun_eq_iff)

lemma row_state_frame [simp]:
  "row_state (d\<lparr>dm_running := x1\<rparr>) = row_state d" "row_state (d\<lparr>dm_launched := x2\<rparr>) = row_state d"
  "row_state (d\<lparr>dm_sigkilled := x2\<rparr>) = row_state d" "row_state (d\<lparr>dm_admission_retry_at := x3\<rparr>) = row_state d"
  "row_state (d\<lparr>dm_scheduler_running := x4\<rparr>) = row_state d" "row_state (d\<lparr>dm_submits := x5\<rparr>) = row_state d"
  by (simp_all add: row_state_spec fun_eq_iff)

lemma fail_dispatch_cases:
  assumes "fail_dispatch env spec reason ec d = (r, d')"
  obtains "d' = d" "r \<noteq> Started"
  | s where "\<not> is_terminal (the_or spec (spec_of d (js_id spec)))" "r = NotStarted" "js_state s = FAILED"
    "d' = log_row (js_id spec) (js_state (the_or spec (spec_of d (js_id spec)))) FAILED (write_row s (js_id spec) d)"
    "js_retry_count s = js_retry_count (the_or spec (spec_of d (js_id spec)))"
proof (cases "is_terminal (the_or spec (spec_of d (js_id spec))) \<or> \<not> write_ok env (js_id spec)")
  case True
  then show ?thesis using assms that(1) by (auto simp: fail_dispatch_def Let_def split: if_splits)
next
  case False
  then show ?thesis using assms that(2) [of "(the_or spec (spec_of d (js_id spec)))\<lparr>js_state := FAILED,
      js_finished_at := Some (utcnow_iso (se_queue env)), js_exit_code := ec, js_failure_reason := Some reason\<rparr>"]
    by (simp add: fail_dispatch_def Let_def)
qed

text \<open>
  What the other processes may do in the gaps: finish jobs, but never revive a finished one, and never put
  back one that was claimed.
\<close>

definition fair_writers :: "start_env \<Rightarrow> bool" where
  "fair_writers env \<longleftrightarrow> (\<forall>n w i. (\<forall>st \<in> TERMINAL_STATES. state_on w i = Some st \<longrightarrow> state_on (se_race env n w) i = Some st)
     \<and> (state_on (se_race env n w) i = Some PENDING \<longrightarrow> state_on w i = Some PENDING))"

lemma row_state_others: "row_state (others_write env n d) = state_on (se_race env n (dm_queue d))"
  by (simp add: row_state_def others_write_def fun_eq_iff)

lemma fair_keeps:
  assumes "fair_writers env" "row_state d i = Some st" "st \<in> TERMINAL_STATES"
  shows "row_state (others_write env n d) i = Some st"
  using assms(1) [unfolded fair_writers_def, rule_format, THEN conjunct1, rule_format, OF assms(3)] assms(2)
  by (simp only: row_state_others row_state_def)

lemma fair_pending:
  assumes "fair_writers env" "row_state (others_write env n d) i = Some PENDING"
  shows "row_state d i = Some PENDING"
  using assms(1) [unfolded fair_writers_def, rule_format, THEN conjunct2, rule_format] assms(2)
  by (simp only: row_state_others row_state_def)

lemma fail_dispatch_frame:
  assumes "fail_dispatch env spec reason ec d = (r, d')"
  shows "r \<noteq> Started \<and> dm_running d' = dm_running d \<and> dm_launched d' = dm_launched d \<and> dm_sigkilled d' = dm_sigkilled d
    \<and> dm_scheduler_running d' = dm_scheduler_running d \<and> dm_submits d' = dm_submits d"
  using assms by (cases rule: fail_dispatch_cases) auto

lemma fail_dispatch_keeps:
  assumes "fail_dispatch env spec reason ec d = (r, d')" "row_state d j = Some st" "st \<in> TERMINAL_STATES"
  shows "row_state d' j = Some st"
  using assms(1)
proof (cases rule: fail_dispatch_cases)
  case (2 s)
  then have "j \<noteq> js_id spec" using assms(2,3) by (auto simp: row_state_spec is_terminal_def)
  with 2 assms(2) show ?thesis by simp
qed (use assms in simp)

lemma fail_dispatch_not_pending:
  assumes "fail_dispatch env spec reason ec d = (r, d')" "row_state d' i = Some PENDING"
  shows "row_state d i = Some PENDING"
  using assms(1) by (cases rule: fail_dispatch_cases) (use assms(2) in \<open>auto split: if_splits\<close>)

lemma claim_local_cases:
  assumes "claim_local env gpus spec d = (x, d')"
  obtains r where "x = Inl r" "r \<noteq> Started" "d' = d"
  | s where "x = Inr s" "row_state d (js_id spec) = Some PENDING" "d' = write_row s (js_id spec) d" "js_state s = RUNNING"
    "js_gpu_devices s = (if gpus = [] then None else Some gpus)" "the_or 0 (js_gpus s) = int (length gpus)"
    "\<not> admin_update_holds_spec (se_update_marker env) (the (spec_of d (js_id spec)))"
    "js_cpus s = js_cpus (the (spec_of d (js_id spec)))" "js_mem_mb s = js_mem_mb (the (spec_of d (js_id spec)))"
    "js_id s = js_id (the (spec_of d (js_id spec)))"
    "js_retry_count s = js_retry_count (the (spec_of d (js_id spec)))"
  using assms
  by (auto simp: claim_local_def Let_def row_state_spec split: option.splits if_splits)

lemma claim_local_frame:
  assumes "claim_local env gpus spec d = (x, d')"
  shows "dm_running d' = dm_running d \<and> dm_launched d' = dm_launched d \<and> dm_sigkilled d' = dm_sigkilled d
    \<and> dm_scheduler_running d' = dm_scheduler_running d \<and> dm_submits d' = dm_submits d"
  using assms by (cases rule: claim_local_cases) auto

lemma record_pid_cases:
  assumes "record_pid env i claimed pid d = (r, d')"
  obtains "r = StartRaised" "d' = d"
  | st where "r = NotStarted" "row_state d i = Some st" "st \<in> TERMINAL_STATES" "row_state d' = row_state d"
     "dm_sigkilled d' = pid # dm_sigkilled d" "dm_running d' = dm_running d" "dm_launched d' = dm_launched d"
  | s where "r = Started" "\<forall>st \<in> TERMINAL_STATES. row_state d i \<noteq> Some st" "spec_of d' = (spec_of d)(i \<mapsto> s)"
     "s = claimed\<lparr>js_pid := Some pid, js_pgid := se_pgid env, js_pid_start_time := se_pid_start_time env,
               js_started_at := Some (se_now_iso env)\<rparr>"
     "dm_running d' = AList.update i (new_running False (the_or [] (js_gpu_devices s)) s) (dm_running d)"
     "dm_sigkilled d' = dm_sigkilled d" "dm_launched d' = dm_launched d"
proof (cases "spec_of d i")
  case None
  then show ?thesis using assms that(1) by (simp add: record_pid_def)
next
  case (Some latest)
  show ?thesis
  proof (cases "is_terminal latest")
    case True
    then show ?thesis using assms Some that(1) that(2) [of "js_state latest"]
      by (auto simp: record_pid_def Let_def is_terminal_def row_state_spec fun_eq_iff split: if_splits)
  next
    case False
    then have "\<forall>st \<in> TERMINAL_STATES. row_state d i \<noteq> Some st" using Some by (auto simp: is_terminal_def row_state_spec)
    then show ?thesis using assms Some False that(1) that(3) [of "claimed\<lparr>js_pid := Some pid, js_pgid := se_pgid env,
        js_pid_start_time := se_pid_start_time env, js_started_at := Some (se_now_iso env)\<rparr>"]
      by (auto simp: record_pid_def Let_def split: if_splits)
  qed
qed

lemma start_local_cases:
  assumes "start_local env gpus spec d = (r, d')"
  obtains (raised) "r = StartRaised" "d' = others_write env 1 d"
  | (leaked) reason where "fail_dispatch env spec reason (Some (-1)) (others_write env 1 d) = (r, d')"
  | (refused) "claim_local env gpus spec (others_write env 1 d) = (Inl r, d')"
  | (launch_failed) claimed d2 err where "claim_local env gpus spec (others_write env 1 d) = (Inr claimed, d2)"
     "fail_dispatch env claimed err (Some (-1)) (others_write env 2 d2) = (r, d')"
  | (launched) claimed d2 pid where "claim_local env gpus spec (others_write env 1 d) = (Inr claimed, d2)"
     "record_pid env (js_id spec) claimed pid (others_write env 2 (d2\<lparr>dm_launched := pid # dm_launched d2\<rparr>)) = (r, d')"
     "se_launch env claimed = Inr pid"
  using assms unfolding start_local_def Let_def
  by (auto split: if_splits prod.splits sum.splits)

lemma start_local_Started:
  assumes "start_local env gpus spec d = (Started, d')"
  shows "\<exists>s pid. spec_of d' (js_id spec) = Some s \<and> js_state s = RUNNING \<and> js_pid s = Some pid
    \<and> dm_launched d' = pid # dm_launched d \<and> dm_sigkilled d' = dm_sigkilled d
    \<and> dm_running d' = AList.update (js_id spec) (new_running False gpus s) (dm_running d)
    \<and> the_or 0 (js_gpus s) = int (length gpus)
    \<and> row_state (others_write env 1 d) (js_id spec) = Some PENDING
    \<and> (\<exists>s0. spec_of (others_write env 1 d) (js_id spec) = Some s0 \<and> js_cpus s = js_cpus s0 \<and> js_mem_mb s = js_mem_mb s0
         \<and> \<not> admin_update_holds_spec (se_update_marker env) s0)"
  using assms
proof (cases rule: start_local_cases)
  case (launched claimed d2 pid)
  show ?thesis using launched(1)
  proof (cases rule: claim_local_cases)
    case (2 s)
    from launched(2) show ?thesis
    proof (cases rule: record_pid_cases)
      case (3 s')
      then show ?thesis using 2 by (auto simp: row_state_spec)
    qed (use 2 in auto)
  qed auto
qed (auto dest: fail_dispatch_frame elim: claim_local_cases)

lemma start_local_unstarted:
  assumes "start_local env gpus spec d = (r, d')" "r \<noteq> Started"
  shows "dm_running d' = dm_running d \<and> (dm_launched d' = dm_launched d \<and> dm_sigkilled d' = dm_sigkilled d
    \<or> (\<exists>pid. dm_launched d' = pid # dm_launched d \<and> (r = StartRaised \<or>
         dm_sigkilled d' = pid # dm_sigkilled d \<and> (\<exists>st \<in> TERMINAL_STATES. row_state d' (js_id spec) = Some st))))"
  using assms(1)
proof (cases rule: start_local_cases)
  case (launched claimed d2 pid)
  from launched(2) show ?thesis
    by (cases rule: record_pid_cases) (use assms(2) claim_local_frame [OF launched(1)] in auto)
next
  case (launch_failed claimed d2 err)
  then show ?thesis using claim_local_frame [OF launch_failed(1)] fail_dispatch_frame [OF launch_failed(2)] by simp
qed (auto dest: fail_dispatch_frame claim_local_frame)

lemma claim_local_keeps:
  assumes "claim_local env gpus spec d = (x, d')" "row_state d j = Some st" "st \<in> TERMINAL_STATES"
  shows "row_state d' j = Some st"
  using assms(1) by (cases rule: claim_local_cases) (use assms(2,3) in auto)

lemma record_pid_keeps:
  assumes "record_pid env i claimed pid d = (r, d')" "row_state d j = Some st" "st \<in> TERMINAL_STATES"
  shows "row_state d' j = Some st"
  using assms(1) by (cases rule: record_pid_cases) (use assms(2,3) in \<open>auto simp: row_state_spec\<close>)

lemma start_local_keeps:
  assumes "start_local env gpus spec d = (r, d')" "fair_writers env" "row_state d j = Some st" "st \<in> TERMINAL_STATES"
  shows "row_state d' j = Some st"
proof -
  note f = fair_keeps [OF assms(2) _ assms(4)]
  have 1: "row_state (others_write env 1 d) j = Some st" by (rule f [OF assms(3)])
  have c: "row_state d2 j = Some st" if "claim_local env gpus spec (others_write env 1 d) = (x, d2)" for x d2
    by (rule claim_local_keeps [OF that 1 assms(4)])
  show ?thesis using assms(1)
  proof (cases rule: start_local_cases)
    case (launched claimed d2 pid)
    show ?thesis by (rule record_pid_keeps [OF launched(2) f assms(4)]) (use c [OF launched(1)] in simp)
  next
    case (launch_failed claimed d2 err)
    show ?thesis by (rule fail_dispatch_keeps [OF launch_failed(2) f assms(4)]) (use c [OF launch_failed(1)] in simp)
  qed (use 1 c assms(4) in \<open>auto intro: fail_dispatch_keeps\<close>)
qed

lemma start_local_claimed_not_pending:
  assumes "start_local env gpus spec d = (r, d')" "fair_writers env" "dm_launched d' \<noteq> dm_launched d"
  shows "row_state d' (js_id spec) \<noteq> Some PENDING"
  using assms(1)
proof (cases rule: start_local_cases)
  case (launched claimed d2 pid)
  have "row_state d2 (js_id spec) = Some RUNNING"
    using launched(1) by (cases rule: claim_local_cases) auto
  then have n: "row_state (others_write env 2 (d2\<lparr>dm_launched := pid # dm_launched d2\<rparr>)) (js_id spec) \<noteq> Some PENDING"
    using fair_pending [OF assms(2), of 2 "d2\<lparr>dm_launched := pid # dm_launched d2\<rparr>"] by auto
  have "js_state claimed = RUNNING" using launched(1) by (cases rule: claim_local_cases) auto
  with launched(2) n show ?thesis by (cases rule: record_pid_cases) (auto simp: row_state_spec)
next
  case (launch_failed claimed d2 err)
  then show ?thesis using assms(3) claim_local_frame [OF launch_failed(1)] fail_dispatch_frame [OF launch_failed(2)] by simp
qed (use assms(3) in \<open>auto dest: fail_dispatch_frame claim_local_frame\<close>)

text \<open>Whoever writes a terminal label in the gap after the claim wins over the launch.\<close>

lemma start_local_late_kill:
  assumes "start_local env gpus spec d = (r, d')" "\<forall>w. state_on (se_race env 2 w) (js_id spec) = Some st"
    "st \<in> TERMINAL_STATES" "dm_launched d' \<noteq> dm_launched d"
  shows "r \<noteq> Started \<and> row_state d' (js_id spec) = Some st"
  using assms(1)
proof (cases rule: start_local_cases)
  case (launched claimed d2 pid)
  have t: "row_state (others_write env 2 (d2\<lparr>dm_launched := pid # dm_launched d2\<rparr>)) (js_id spec) = Some st"
    using assms(2) by (simp add: row_state_others)
  from launched(2) show ?thesis
    by (cases rule: record_pid_cases) (use t assms(3) in auto)
next
  case (launch_failed claimed d2 err)
  then show ?thesis using assms(4) claim_local_frame [OF launch_failed(1)] fail_dispatch_frame [OF launch_failed(2)] by simp
qed (use assms(4) in \<open>auto dest: fail_dispatch_frame claim_local_frame\<close>)

section \<open>Examples\<close>

text \<open>A kill by another process: the row becomes \<open>KILLED\<close> unless it is already terminal.\<close>

definition kill_row :: "string \<Rightarrow> queue_world \<Rightarrow> queue_world" where
  "kill_row i w = (case map_of (qw_disk w) i of
      None \<Rightarrow> w | Some s \<Rightarrow> if is_terminal s then w else write_spec (s\<lparr>js_state := KILLED\<rparr>) i w)"

definition no_resolution :: runtime_resolution where
  "no_resolution = \<lparr>rr_failure = None, rr_deferred = None, rr_resolved_git_sha = None, rr_runtime_root = None,
     rr_runtime_source = None, rr_runtime_python = None\<rparr>"

definition sample_start_env :: "(nat \<Rightarrow> queue_world \<Rightarrow> queue_world) \<Rightarrow> start_env" where
  "sample_start_env race = \<lparr>se_queue = sample_queue_env, se_now_iso = ''2026'', se_clock = 100, se_race = race,
     se_resolution = (\<lambda>_. no_resolution), se_bundle_failure = (\<lambda>_. None), se_setup_ok = True,
     se_scope_exists = False, se_scope_stopped = False, se_scope_still_exists = False, se_update_marker = None,
     se_workdir = ''/wd'', se_launch = (\<lambda>_. Inr 4711), se_pgid = Some 4711, se_pid_start_time = None,
     se_container_prepare = (\<lambda>_. None), se_container_present = False, se_container_settled = False\<rparr>"

definition sample_daemon :: "job_spec list \<Rightarrow> daemon" where
  "sample_daemon specs = \<lparr>dm_view = demo_daemon, dm_cgroup_enabled = True,
     dm_queue = \<lparr>qw_disk = map (\<lambda>s. (js_id s, s)) specs, qw_events = []\<rparr>, dm_running = [], dm_orphans = [],
     dm_survivors = [], dm_scheduler_running = [], dm_admission_retry_at = [], dm_launched = [], dm_sigkilled = [],
     dm_submits = []\<rparr>"

lemma kill_row_state: "state_on (kill_row i w) j =
  (if j = i \<and> state_on w i \<noteq> None \<and> the (state_on w i) \<notin> TERMINAL_STATES then Some KILLED else state_on w j)"
  by (auto simp: kill_row_def is_terminal_def state_on_def store_simps split: option.splits)

lemma sample_killers_fair: "fair_writers (sample_start_env (\<lambda>n. if n = 2 then kill_row i else id))"
  unfolding fair_writers_def by (auto simp: sample_start_env_def kill_row_state)

section \<open>Properties\<close>



end
