(* ===== verification/Py_Text.thy ===== *)
theory Py_Text
  imports VQ_Prelude
begin

text \<open>
  The parts of Python's \<open>str\<close> that the readers of scheduler output use: \<open>splitlines\<close>, \<open>split\<close> with and without a
  separator, \<open>strip\<close>, \<open>upper\<close>, \<open>lower\<close> and \<open>join\<close>. A string is a list of code points below 256; change of
  case is that of ASCII, which is all the state names and keywords of the schedulers contain.
\<close>

section \<open>Lines\<close>

definition NL :: char where "NL = CHR 0x0A"

definition is_break :: "char \<Rightarrow> bool" where
  "is_break c \<longleftrightarrow> (let n = (of_char c :: nat) in 10 \<le> n \<and> n \<le> 13 \<or> 28 \<le> n \<and> n \<le> 30 \<or> n = 133)"

text \<open>A carriage return takes the newline after it along.\<close>

function splitlines :: "string \<Rightarrow> string list" where
  "splitlines s = (case s of [] \<Rightarrow> []
    | c # cs \<Rightarrow> if is_break c then [] # splitlines (if c = CHR 0x0D \<and> take 1 cs = [NL] then tl cs else cs)
        else (case splitlines cs of [] \<Rightarrow> [[c]] | l # ls \<Rightarrow> (c # l) # ls))"
  by pat_completeness auto
termination by (relation "measure length") auto

declare splitlines.simps [simp del]

lemma splitlines_Nil [simp]: "splitlines [] = []"
  by (simp add: splitlines.simps)

lemma splitlines_Nil_iff [simp]: "splitlines s = [] \<longleftrightarrow> s = []"
  by (subst splitlines.simps) (simp split: list.split)

definition no_break :: "string \<Rightarrow> bool" where
  "no_break s \<longleftrightarrow> list_all (\<lambda>c. \<not> is_break c) s"

definition unlines :: "string list \<Rightarrow> string" where
  "unlines ls = concat (map (\<lambda>l. l @ [NL]) ls)"

lemma NL_break [simp]: "is_break NL" "NL \<noteq> CHR 0x0D"
  by (simp_all add: is_break_def NL_def)

lemma splitlines_line: "no_break l \<Longrightarrow> splitlines (l @ NL # s) = l # splitlines s"
proof (induction l)
  case Nil
  show ?case by (subst splitlines.simps) simp
next
  case (Cons c l)
  then show ?case by (subst splitlines.simps) (simp add: no_break_def)
qed

lemma splitlines_last: "no_break l \<Longrightarrow> l \<noteq> [] \<Longrightarrow> splitlines l = [l]"
proof (induction l)
  case (Cons c l)
  then show ?case by (subst splitlines.simps) (cases "l = []", simp_all add: no_break_def)
qed simp

lemma splitlines_unlines: "list_all no_break ls \<Longrightarrow> splitlines (unlines ls) = ls"
  by (induction ls) (simp_all add: unlines_def splitlines_line)

section \<open>Fields\<close>

fun split_on :: "char \<Rightarrow> string \<Rightarrow> string list" where
  "split_on c [] = [[]]"
| "split_on c (x # xs) = (if x = c then [] # split_on c xs
     else case split_on c xs of [] \<Rightarrow> [[x]] | w # ws \<Rightarrow> (x # w) # ws)"

lemma split_on_simp: "c \<notin> set w \<Longrightarrow> split_on c w = [w]" "c \<notin> set w \<Longrightarrow> split_on c (w @ c # rest) = w # split_on c rest"
  by (induction w) auto

text \<open>\<open>s.split(c, n)\<close>: at most \<open>n\<close> splits.\<close>

fun split_max :: "char \<Rightarrow> nat \<Rightarrow> string \<Rightarrow> string list" where
  "split_max c n [] = [[]]"
| "split_max c n (x # xs) = (if n = 0 then [x # xs]
     else if x = c then [] # split_max c (n - 1) xs
     else case split_max c n xs of [] \<Rightarrow> [[x]] | w # ws \<Rightarrow> (x # w) # ws)"

lemma split_max_0 [simp]: "split_max c 0 s = [s]"
  by (cases s) simp_all

lemma split_max_Suc: "c \<notin> set w \<Longrightarrow> split_max c (Suc n) (w @ c # rest) = w # split_max c n rest"
  by (induction w) auto

definition join_with :: "string \<Rightarrow> string list \<Rightarrow> string" where
  "join_with sep ws = concat (case ws of [] \<Rightarrow> [] | w # ws \<Rightarrow> w # map (\<lambda>x. sep @ x) ws)"

lemma join_with_simps [simp]:
  "join_with sep [] = []" "join_with sep [w] = w" "join_with sep (w # x # xs) = w @ sep @ join_with sep (x # xs)"
  by (simp_all add: join_with_def)

text \<open>\<open>s.split()\<close>: the maximal runs without whitespace.\<close>

function py_words :: "string \<Rightarrow> string list" where
  "py_words s = (case dropWhile py_space s of [] \<Rightarrow> []
    | c # cs \<Rightarrow> takeWhile (\<lambda>x. \<not> py_space x) (c # cs) # py_words (dropWhile (\<lambda>x. \<not> py_space x) (c # cs)))"
  by pat_completeness auto
termination
proof (relation "measure length")
  fix s c cs assume s: "dropWhile py_space s = c # cs"
  have "\<not> py_space c" using hd_dropWhile [of py_space s] s by simp
  moreover have "length (c # cs) \<le> length s" using length_dropWhile_le [of py_space s] s by simp
  moreover have "length (dropWhile (\<lambda>x. \<not> py_space x) cs) \<le> length cs" by (rule length_dropWhile_le)
  ultimately show "(dropWhile (\<lambda>x. \<not> py_space x) (c # cs), s) \<in> measure length" by simp
qed simp

declare py_words.simps [simp del]

section \<open>Stripping\<close>

definition trimmed :: "string \<Rightarrow> bool" where
  "trimmed s \<longleftrightarrow> s \<noteq> [] \<and> \<not> py_space (hd s) \<and> \<not> py_space (last s)"

lemma py_strip_trimmed: "trimmed s \<Longrightarrow> py_strip s = s"
proof -
  assume "trimmed s"
  then have "s \<noteq> []" "\<not> py_space (hd s)" "\<not> py_space (hd (rev s))" by (simp_all add: trimmed_def hd_rev)
  then have "dropWhile py_space s = s" "dropWhile py_space (rev s) = rev s" by (simp_all add: dropWhile_eq_self_iff)
  then show ?thesis by (simp add: py_strip_def)
qed

lemma py_strip_Nil [simp]: "py_strip [] = []"
  by (simp add: py_strip_def)

lemma py_strip_set: "set (py_strip s) \<subseteq> set s"
  by (metis py_strip_def set_dropWhileD set_rev subsetI)

lemma py_strip_result: "py_strip s \<noteq> [] \<Longrightarrow> trimmed (py_strip s)"
proof -
  assume n: "py_strip s \<noteq> []"
  define t where "t = dropWhile py_space s"
  have st: "py_strip s = rev (dropWhile py_space (rev t))" by (simp add: py_strip_def t_def)
  have l: "\<not> py_space (last (py_strip s))" using n hd_dropWhile [of py_space "rev t"] by (simp add: st last_rev)
  obtain u where u: "t = py_strip s @ u"
    by (metis st rev_append rev_rev_ident takeWhile_dropWhile_id)
  then have "t \<noteq> []" "hd t = hd (py_strip s)" using n by auto
  then have "\<not> py_space (hd (py_strip s))" using hd_dropWhile [of py_space s] by (simp add: t_def)
  then show ?thesis using l n by (simp add: trimmed_def)
qed

lemma py_strip_idem [simp]: "py_strip (py_strip s) = py_strip s"
  using py_strip_result py_strip_trimmed by (cases "py_strip s = []") auto

section \<open>Case\<close>

definition py_lower :: "string \<Rightarrow> string" where
  "py_lower = map (\<lambda>c. let n = (of_char c :: nat) in if 65 \<le> n \<and> n \<le> 90 then char_of (n + 32) else c)"

definition py_upper :: "string \<Rightarrow> string" where
  "py_upper = map (\<lambda>c. let n = (of_char c :: nat) in if 97 \<le> n \<and> n \<le> 122 then char_of (n - 32) else c)"

section \<open>Decimal numbers\<close>

lemma read_nat_digits_bound: "list_all is_digit s \<Longrightarrow> read_nat s < 10 ^ length s"
proof (induction s rule: rev_induct)
  case (snoc c s)
  then have "read_nat s < 10 ^ length s" "(of_char c :: nat) - 48 \<le> 9" by (auto simp: is_digit_def)
  then show ?case by (simp add: read_nat_def)
qed (simp add: read_nat_def)

text \<open>\<open>int(s)\<close> of an optional minus sign and digits.\<close>

definition read_int :: "string \<Rightarrow> int" where
  "read_int s = (case s of [] \<Rightarrow> 0 | c # cs \<Rightarrow> if c = CHR ''-'' then - int (read_nat cs) else int (read_nat s))"

end
