(* ===== verification/Start_Fence.thy ===== *)
theory Start_Fence
  imports Py_Text
begin

text \<open>
  The start fence of a scheduler attempt, \<open>scheduler_start_fence.py\<close>. Every attempt has a token; the job's
  first action and an operator's fence race for one exclusive hard link in the attempt's workspace, and
  whichever lands first decides whether the command can run.

  The daemon's private records are association lists keyed by job id and attempt (\<open>_create\<close> publishes once).
  The shell snippets the module generates are functions on the workspace: the guarded tests are one
  step with the link that follows them, and the link is exclusive. The digest of \<open>scheduler_recovery\<close> is
  a parameter. I/O errors on the private records are not modelled.
\<close>

section \<open>Tokens and claims\<close>

definition token_ok :: "string \<Rightarrow> bool" where
  "token_ok t \<longleftrightarrow> length t = 32 \<and> list_all is_lower_hex t"

definition claim_name :: "string \<Rightarrow> string option" where
  "claim_name token = (if token_ok token then Some (''attempt-'' @ token @ ''.claim'') else None)"

type_synonym attempt_key = "string \<times> int" \<comment> \<open>job id and retry count\<close>

definition create :: "'k \<Rightarrow> 'v \<Rightarrow> ('k \<times> 'v) list \<Rightarrow> 'v \<times> ('k \<times> 'v) list" where
  "create k v m = (case map_of m k of Some existing \<Rightarrow> (existing, m) | None \<Rightarrow> (v, AList.update k v m))"

record token_record =
  tr_schema :: string
  tr_job_id :: string
  tr_retry_count :: int
  tr_remote_workspace :: string
  tr_token :: string

definition TOKEN_SCHEMA :: string where "TOKEN_SCHEMA = ''vq.scheduler-start-token/1''"

definition token_matches :: "token_record \<Rightarrow> string \<Rightarrow> int \<Rightarrow> string \<Rightarrow> bool" where
  "token_matches r job_id retry_count workspace \<longleftrightarrow> tr_schema r = TOKEN_SCHEMA \<and> tr_job_id r = job_id
     \<and> tr_retry_count r = retry_count \<and> tr_remote_workspace r = workspace \<and> token_ok (tr_token r)"

text \<open>\<open>None\<close>: a \<open>ValueError\<close>. \<open>new_token\<close> is what \<open>secrets\<close> would give.\<close>

definition issue_token ::
  "string \<Rightarrow> string \<Rightarrow> int \<Rightarrow> string \<Rightarrow> (attempt_key \<times> token_record) list \<Rightarrow>
   string option \<times> (attempt_key \<times> token_record) list" where
  "issue_token new_token job_id retry_count workspace store =
     (case create (job_id, retry_count) \<lparr>tr_schema = TOKEN_SCHEMA, tr_job_id = job_id, tr_retry_count = retry_count,
         tr_remote_workspace = workspace, tr_token = new_token\<rparr> store of
        (r, store') \<Rightarrow> (if token_matches r job_id retry_count workspace then Some (tr_token r) else None, store'))"

section \<open>The fence an operator records\<close>

record attempt_binding =
  ab_id :: string
  ab_retry_count :: int
  ab_remote_workspace :: string
  ab_rest :: pyval

record fence_plan =
  fp_binding :: attempt_binding
  fp_token :: string
  fp_claim :: string
  fp_claim_line :: string
  fp_plan_digest :: string

record digests =
  dg_fence :: "attempt_binding \<Rightarrow> string \<Rightarrow> string"
  dg_plan :: "attempt_binding \<Rightarrow> string \<Rightarrow> string \<Rightarrow> string \<Rightarrow> string"

definition plan :: "digests \<Rightarrow> attempt_binding \<Rightarrow> token_record option \<Rightarrow> fence_plan option" where
  "plan dg original token_record = (case token_record of
      None \<Rightarrow> None
    | Some r \<Rightarrow>
        if \<not> token_matches r (ab_id original) (ab_retry_count original) (ab_remote_workspace original) then None
        else case claim_name (tr_token r) of
          None \<Rightarrow> None
        | Some claim \<Rightarrow> let fence_id = take 32 (dg_fence dg original (tr_token r));
               line = ''fenced '' @ tr_token r @ '' '' @ fence_id in
            Some \<lparr>fp_binding = original, fp_token = tr_token r, fp_claim = claim, fp_claim_line = line,
              fp_plan_digest = dg_plan dg original (tr_token r) claim line\<rparr>)"

definition persist_intent ::
  "fence_plan \<Rightarrow> (attempt_key \<times> fence_plan) list \<Rightarrow> fence_plan option \<times> (attempt_key \<times> fence_plan) list" where
  "persist_intent p store = (case create (ab_id (fp_binding p), ab_retry_count (fp_binding p)) p store of
     (r, store') \<Rightarrow> (if fp_plan_digest r \<noteq> fp_plan_digest p then None else Some r, store'))"

datatype fence_outcome = Fenced string bool | StartedFirst string string | Conflict string | Unsafe string

definition record_result ::
  "fence_plan \<Rightarrow> fence_outcome \<Rightarrow> (attempt_key \<times> string \<times> fence_outcome) list \<Rightarrow>
   (string \<times> fence_outcome) \<times> (attempt_key \<times> string \<times> fence_outcome) list" where
  "record_result p reply store =
     create (ab_id (fp_binding p), ab_retry_count (fp_binding p)) (fp_plan_digest p, reply) store"

section \<open>The two sides of the race\<close>

datatype dir_state = DirMissing | DirPresent | DirUnsafe \<comment> \<open>a link, or not a directory\<close>
datatype claim_file = NoClaim | Claim string | ClaimUnsafe

record workspace =
  ws_dir :: dir_state
  ws_marker_dir :: dir_state
  ws_writable :: bool \<comment> \<open>directories and the temporary file can be created\<close>
  ws_claim :: claim_file \<comment> \<open>the token's claim, without its line end\<close>
  ws_script_token :: string \<comment> \<open>of the staged job script\<close>

definition claim_bytes :: "string \<Rightarrow> string" where
  "claim_bytes c = take 256 (c @ [CHR 0x0A])"

definition exists_reply :: "string \<Rightarrow> string" where
  "exists_reply c = ''exists:'' @ claim_bytes c"

definition echo :: "string \<Rightarrow> string" where
  "echo s = s @ [CHR 0x0A]"

definition unsafe_reply :: "string \<Rightarrow> string" where
  "unsafe_reply w = echo (''unsafe:'' @ w)"

definition fence_script :: "string \<Rightarrow> workspace \<Rightarrow> string \<times> workspace" where
  "fence_script line ws = (
     if ws_dir ws = DirUnsafe \<or> ws_dir ws = DirMissing \<and> \<not> ws_writable ws then (unsafe_reply ''workspace'', ws)
     else let ws = ws\<lparr>ws_dir := DirPresent\<rparr> in
       if ws_marker_dir ws = DirUnsafe \<or> ws_marker_dir ws = DirMissing \<and> \<not> ws_writable ws
       then (unsafe_reply ''marker-dir'', ws)
       else let ws = ws\<lparr>ws_marker_dir := DirPresent\<rparr> in
         if \<not> ws_writable ws then (unsafe_reply ''temporary'', ws)
         else case ws_claim ws of
           NoClaim \<Rightarrow> (echo ''created'', ws\<lparr>ws_claim := Claim line\<rparr>)
         | ClaimUnsafe \<Rightarrow> (unsafe_reply ''claim'', ws)
         | Claim c \<Rightarrow> (exists_reply c, ws))"

definition started_line :: "string \<Rightarrow> string \<Rightarrow> string" where
  "started_line token sid = ''started '' @ token @ '' '' @ sid"

text \<open>The job script's first lines: whether the command runs. \<open>$(...)\<close> drops the trailing line ends.\<close>

definition drop_newlines :: "string \<Rightarrow> string" where
  "drop_newlines s = rev (dropWhile (\<lambda>c. c = CHR 0x0A) (rev s))"

definition job_script :: "string \<Rightarrow> string \<Rightarrow> workspace \<Rightarrow> bool \<times> workspace" where
  "job_script token sid ws = (
     if ws_script_token ws \<noteq> token then (False, ws)
     else if \<not> ws_writable ws then (False, ws)
     else case ws_claim ws of
       NoClaim \<Rightarrow> (True, ws\<lparr>ws_claim := Claim (started_line token sid)\<rparr>)
     | ClaimUnsafe \<Rightarrow> (False, ws)
     | Claim c \<Rightarrow> (drop_newlines (claim_bytes c) = started_line token sid, ws))"

definition MAX_REPLY_BYTES :: nat where "MAX_REPLY_BYTES = 4096"

definition interpret_reply :: "fence_plan \<Rightarrow> string \<Rightarrow> fence_outcome" where
  "interpret_reply p stdout = (let txt = take MAX_REPLY_BYTES stdout in
     if py_strip txt = ''created'' then Fenced (fp_claim_line p) True
     else if starts_with ''exists:'' txt
     then let claim = drop_newlines (drop 7 txt) in
       if claim = fp_claim_line p then Fenced claim False
       else case split_on (CHR '' '') claim of
           [a, b, c] \<Rightarrow> if a = ''started'' \<and> b = fp_token p then StartedFirst claim c else Conflict claim
         | _ \<Rightarrow> Conflict claim
     else if starts_with ''unsafe:'' txt then Unsafe (py_strip (drop 7 txt))
     else Unsafe ''unrecognized reply'')"

section \<open>The race\<close>

record race =
  rc_ws :: workspace
  rc_ran :: "string list" \<comment> \<open>scheduler ids under which the command ran\<close>
  rc_replies :: "fence_outcome list"

text \<open>
  Any number of allocations of the attempt may start (a lost submit may have been repeated, the scheduler
  may rerun one), the operator's fence may be applied again and again, and a later attempt may stage its
  script over this one's.
\<close>

inductive race_step :: "fence_plan \<Rightarrow> race \<Rightarrow> race \<Rightarrow> bool" for p where
  job: "job_script (fp_token p) sid (rc_ws r) = (b, ws) \<Longrightarrow> CHR '' '' \<notin> set sid \<Longrightarrow> CHR 0x0A \<notin> set sid
    \<Longrightarrow> length sid \<le> 200
    \<Longrightarrow> race_step p r (r\<lparr>rc_ws := ws, rc_ran := (if b then sid # rc_ran r else rc_ran r)\<rparr>)"
| fence: "fence_script (fp_claim_line p) (rc_ws r) = (out, ws)
    \<Longrightarrow> race_step p r (r\<lparr>rc_ws := ws, rc_replies := interpret_reply p out # rc_replies r\<rparr>)"
| restage: "t \<noteq> fp_token p \<Longrightarrow> race_step p r (r\<lparr>rc_ws := (rc_ws r)\<lparr>ws_script_token := t\<rparr>\<rparr>)"

definition fresh_race :: "race \<Rightarrow> bool" where
  "fresh_race r \<longleftrightarrow> ws_claim (rc_ws r) = NoClaim \<and> rc_ran r = [] \<and> rc_replies r = []"

section \<open>Reading a reply\<close>

definition clean :: "string \<Rightarrow> bool" where
  "clean s \<longleftrightarrow> CHR '' '' \<notin> set s \<and> CHR 0x0A \<notin> set s"

lemma clean_hex: "list_all is_lower_hex s \<Longrightarrow> clean s"
  by (auto simp: clean_def list_all_iff is_lower_hex_def)

lemma drop_newlines_claim:
  assumes "length c \<le> 255" "CHR 0x0A \<notin> set c"
  shows "drop_newlines (claim_bytes c) = c"
proof -
  have "claim_bytes c = c @ [CHR 0x0A]" using assms(1) by (simp add: claim_bytes_def)
  moreover have "dropWhile (\<lambda>x. x = CHR 0x0A) (rev c) = rev c" using assms(2)
    by (cases "rev c") (auto simp: rev_swap)
  ultimately show ?thesis by (simp add: drop_newlines_def)
qed

lemma claim_bytes_length: "length (claim_bytes c) \<le> 256"
  by (simp add: claim_bytes_def)

lemma exists_not_created: "py_strip (''exists:'' @ s) \<noteq> ''created''"
proof -
  have "\<exists>ys. rev (dropWhile py_space (rev (x # xs))) = x # ys" if "\<not> py_space x" for x xs
  proof -
    have "\<exists>zs. dropWhile py_space (us @ [x]) = zs @ [x]" for us using that by (induction us) auto
    then obtain zs where "dropWhile py_space (rev xs @ [x]) = zs @ [x]" by blast
    then show ?thesis by simp
  qed
  from this [of "CHR ''e''" "''xists:'' @ s"] show ?thesis
    by (auto simp: py_strip_def py_space_def)
qed

lemma interpret_exists:
  "interpret_reply p (exists_reply c) =
     (let claim = drop_newlines (claim_bytes c) in
      if claim = fp_claim_line p then Fenced claim False
      else case split_on (CHR '' '') claim of
          [a, b, x] \<Rightarrow> if a = ''started'' \<and> b = fp_token p then StartedFirst claim x else Conflict claim
        | _ \<Rightarrow> Conflict claim)"
proof -
  have t: "take MAX_REPLY_BYTES (''exists:'' @ claim_bytes c) = ''exists:'' @ claim_bytes c"
    by (rule take_all) (use claim_bytes_length [of c] in \<open>simp add: MAX_REPLY_BYTES_def\<close>)
  have d: "drop 7 (''exists:'' @ claim_bytes c) = claim_bytes c" "starts_with ''exists:'' (''exists:'' @ claim_bytes c)"
    by simp_all (simp add: starts_with_def)
  show ?thesis unfolding exists_reply_def interpret_reply_def Let_def t d(1) using exists_not_created [of "claim_bytes c"] d(2) by argo
qed

lemma interpret_created: "interpret_reply p (echo ''created'') = Fenced (fp_claim_line p) True"
proof -
  have "py_strip (take MAX_REPLY_BYTES (echo ''created'')) = ''created''" by code_simp
  then show ?thesis by (simp add: interpret_reply_def Let_def)
qed

lemma interpret_unsafe: "w \<in> {''workspace'', ''marker-dir'', ''temporary'', ''claim''} \<Longrightarrow>
  \<exists>x. interpret_reply p (unsafe_reply w) = Unsafe x"
proof -
  have "list_all (\<lambda>w. py_strip (take MAX_REPLY_BYTES (unsafe_reply w)) \<noteq> ''created''
      \<and> \<not> starts_with ''exists:'' (take MAX_REPLY_BYTES (unsafe_reply w))
      \<and> starts_with ''unsafe:'' (take MAX_REPLY_BYTES (unsafe_reply w)))
    [''workspace'', ''marker-dir'', ''temporary'', ''claim'']" by code_simp
  moreover assume "w \<in> {''workspace'', ''marker-dir'', ''temporary'', ''claim''}"
  ultimately show ?thesis by (auto simp: interpret_reply_def Let_def)
qed

section \<open>The claim decides\<close>

text \<open>A plan whose token and digest have their documented form.\<close>

definition plan_ok :: "fence_plan \<Rightarrow> bool" where
  "plan_ok p \<longleftrightarrow> token_ok (fp_token p) \<and> (\<exists>f. clean f \<and> length f \<le> 32 \<and> fp_claim_line p = ''fenced '' @ fp_token p @ '' '' @ f)"

lemma plan_ok_plan:
  assumes "plan dg b tr = Some p" "\<forall>b t. list_all is_lower_hex (dg_fence dg b t)"
  shows "plan_ok p"
proof -
  obtain r where r: "tr = Some r" "token_ok (tr_token r)" "fp_token p = tr_token r"
    "fp_claim_line p = ''fenced '' @ tr_token r @ '' '' @ take 32 (dg_fence dg b (tr_token r))"
    using assms(1) by (auto simp: plan_def token_matches_def Let_def split: option.splits if_splits)
  have "list_all is_lower_hex (take 32 (dg_fence dg b (tr_token r)))"
    using assms(2) by (auto simp: list_all_iff dest: in_set_takeD)
  then show ?thesis using r clean_hex by (auto simp: plan_ok_def)
qed

lemma token_clean: "plan_ok p \<Longrightarrow> clean (fp_token p)"
  by (simp add: plan_ok_def token_ok_def clean_hex)

lemma fence_line_bytes: "plan_ok p \<Longrightarrow> drop_newlines (claim_bytes (fp_claim_line p)) = fp_claim_line p"
  using token_clean [of p] by (intro drop_newlines_claim) (auto simp: plan_ok_def token_ok_def clean_def)

lemma started_line_bytes:
  assumes "plan_ok p" "clean sid" "length sid \<le> 200"
  shows "drop_newlines (claim_bytes (started_line (fp_token p) sid)) = started_line (fp_token p) sid"
  by (rule drop_newlines_claim)
    (use assms token_clean [OF assms(1)] in \<open>auto simp: plan_ok_def token_ok_def clean_def started_line_def\<close>)

lemma interpret_started:
  assumes "plan_ok p" "clean sid" "length sid \<le> 200"
  shows "interpret_reply p (exists_reply (started_line (fp_token p) sid))
    = StartedFirst (started_line (fp_token p) sid) sid"
proof -
  have t: "CHR '' '' \<notin> set (fp_token p)" using token_clean [OF assms(1)] by (simp add: clean_def)
  have "split_on (CHR '' '') (started_line (fp_token p) sid) = [''started'', fp_token p, sid]"
    using split_on_simp(2) [of "CHR '' ''" "''started''" "fp_token p @ CHR '' '' # sid"]
      split_on_simp(2) [OF t, of sid] split_on_simp(1) [of "CHR '' ''" sid] assms(2)
    by (simp add: started_line_def clean_def del: split_on.simps)
  moreover have "started_line (fp_token p) sid \<noteq> fp_claim_line p"
    using assms(1) by (auto simp: plan_ok_def started_line_def)
  ultimately show ?thesis by (simp add: interpret_exists started_line_bytes [OF assms] Let_def del: split_on.simps)
qed

definition decided :: "fence_plan \<Rightarrow> race \<Rightarrow> bool" where
  "decided p r \<longleftrightarrow> (case ws_claim (rc_ws r) of
      NoClaim \<Rightarrow> rc_ran r = [] \<and> (\<forall>x \<in> set (rc_replies r). \<exists>w. x = Unsafe w)
    | ClaimUnsafe \<Rightarrow> False
    | Claim c \<Rightarrow>
        c = fp_claim_line p \<and> rc_ran r = [] \<and> (\<forall>x \<in> set (rc_replies r). (\<exists>b. x = Fenced c b) \<or> (\<exists>w. x = Unsafe w))
        \<or> (\<exists>sid. clean sid \<and> length sid \<le> 200 \<and> c = started_line (fp_token p) sid \<and> set (rc_ran r) = {sid}
             \<and> (\<forall>x \<in> set (rc_replies r). x = StartedFirst c sid \<or> (\<exists>w. x = Unsafe w))))"

lemma fence_script_cases:
  assumes "fence_script line ws = (out, ws')"
  obtains w where "w \<in> {''workspace'', ''marker-dir'', ''temporary'', ''claim''}" "out = unsafe_reply w" "ws_claim ws' = ws_claim ws"
  | "ws_claim ws = NoClaim" "out = echo ''created''" "ws_claim ws' = Claim line"
  | c where "ws_claim ws = Claim c" "out = exists_reply c" "ws_claim ws' = Claim c"
proof -
  have "\<exists>w \<in> {''workspace'', ''marker-dir'', ''temporary'', ''claim''}. out = unsafe_reply w \<and> ws_claim ws' = ws_claim ws"
    if "ws_claim ws = ClaimUnsafe \<or> \<not> ws_writable ws \<or> ws_dir ws = DirUnsafe \<or> ws_marker_dir ws = DirUnsafe"
    using assms that unfolding fence_script_def Let_def by (auto split: if_splits claim_file.splits)
  moreover have "(case ws_claim ws of NoClaim \<Rightarrow> out = echo ''created'' \<and> ws_claim ws' = Claim line
      | Claim c \<Rightarrow> out = exists_reply c \<and> ws_claim ws' = Claim c | ClaimUnsafe \<Rightarrow> True)"
    if "ws_writable ws" "ws_dir ws \<noteq> DirUnsafe" "ws_marker_dir ws \<noteq> DirUnsafe"
    using assms that unfolding fence_script_def Let_def by (auto split: claim_file.splits)
  ultimately show ?thesis using that by (cases "ws_claim ws") auto
qed

lemma race_step_decided:
  assumes "race_step p r r'" "decided p r" "plan_ok p"
  shows "decided p r'"
  using assms(1)
proof cases
  case (job sid b ws)
  then have c: "clean sid" by (simp add: clean_def)
  show ?thesis
  proof (cases "ws_claim (rc_ws r)")
    case NoClaim
    then show ?thesis using job c assms(2) by (auto simp: job_script_def decided_def split: if_splits)
  next
    case (Claim x)
    then show ?thesis using job c assms(2,3) started_line_bytes [OF assms(3)] fence_line_bytes [OF assms(3)]
      by (auto simp: job_script_def decided_def started_line_def plan_ok_def split: if_splits)
  next
    case ClaimUnsafe
    then show ?thesis using assms(2) by (simp add: decided_def)
  qed
next
  case (fence out ws)
  from fence(2) show ?thesis
  proof (cases rule: fence_script_cases)
    case (1 w)
    then show ?thesis using fence(1) assms(2) interpret_unsafe [OF 1(1), of p]
      by (auto simp: decided_def split: claim_file.splits)
  next
    case 2
    then show ?thesis using fence(1) assms(2) by (auto simp: decided_def interpret_created)
  next
    case (3 c)
    then show ?thesis using fence(1) assms(2,3) interpret_exists [of p c] fence_line_bytes [OF assms(3)] interpret_started [OF assms(3)]
      by (auto simp: decided_def Let_def)
  qed
next
  case (restage t)
  then show ?thesis using assms(2) by (cases "ws_claim (rc_ws r)") (simp_all add: decided_def)
qed

lemma race_reachable_decided:
  assumes "(race_step p)\<^sup>*\<^sup>* r r'" "decided p r" "plan_ok p"
  shows "decided p r'"
  using assms by induction (auto intro: race_step_decided)

section \<open>Properties\<close>

text \<open>
  C20: the fence and the job exclude each other. From a workspace without a claim, through any sequence of
  starts of allocations of the attempt, operator fences and later attempts: once one reply of the fence
  reads as fenced, the command has not run under this attempt and never will; once the command ran, it
  ran under one scheduler id only, no reply ever reads as fenced, and every reply that is not a refusal
  of the host names exactly that scheduler id; and no reply is taken for foreign evidence.
\<close>

theorem fence_excludes_start:
  assumes "plan dg original tr = Some p" "\<forall>b t. list_all is_lower_hex (dg_fence dg b t)"
    "fresh_race r0" "(race_step p)\<^sup>*\<^sup>* r0 r" "(race_step p)\<^sup>*\<^sup>* r r'"
  shows "(Fenced x b \<in> set (rc_replies r) \<longrightarrow> rc_ran r' = [])
    \<and> (rc_ran r \<noteq> [] \<longrightarrow> (\<exists>sid. set (rc_ran r') = {sid} \<and> (\<forall>y \<in> set (rc_replies r'). (\<exists>c. y = StartedFirst c sid) \<or> (\<exists>w. y = Unsafe w))))
    \<and> (\<forall>c. Conflict c \<notin> set (rc_replies r'))"
proof -
  have ok: "plan_ok p" by (rule plan_ok_plan [OF assms(1,2)])
  have d0: "decided p r0" using assms(3) by (simp add: fresh_race_def decided_def)
  have d: "decided p r" by (rule race_reachable_decided [OF assms(4) d0 ok])
  then have d': "decided p r'" by (rule race_reachable_decided [OF assms(5) _ ok])
  have mono: "set (rc_replies r) \<subseteq> set (rc_replies r') \<and> set (rc_ran r) \<subseteq> set (rc_ran r')"
    using assms(5) by induction (auto elim!: race_step.cases)
  show ?thesis
  proof (cases "ws_claim (rc_ws r')")
    case NoClaim
    then show ?thesis using d' mono by (fastforce simp: decided_def)
  next
    case (Claim c)
    then consider (fenced) "rc_ran r' = []" "\<forall>y \<in> set (rc_replies r'). (\<exists>b. y = Fenced c b) \<or> (\<exists>w. y = Unsafe w)"
      | (started) sid where "set (rc_ran r') = {sid}" "\<forall>y \<in> set (rc_replies r'). y = StartedFirst c sid \<or> (\<exists>w. y = Unsafe w)"
      using d' unfolding decided_def \<open>ws_claim (rc_ws r') = Claim c\<close> claim_file.case by blast
    then show ?thesis
    proof cases
      case fenced
      then show ?thesis using mono by auto
    next
      case started
      then have "Fenced x b \<notin> set (rc_replies r)" "\<forall>c. Conflict c \<notin> set (rc_replies r')" using mono by blast+
      then show ?thesis using started by blast
    qed
  qed (use d' in \<open>simp add: decided_def\<close>)
qed

definition sample_digests :: digests where
  "sample_digests = \<lparr>dg_fence = (\<lambda>_ _. replicate 64 (CHR ''a'')), dg_plan = (\<lambda>_ _ _ _. replicate 64 (CHR ''b''))\<rparr>"

definition sample_binding :: attempt_binding where
  "sample_binding = \<lparr>ab_id = ''j'', ab_retry_count = 0, ab_remote_workspace = ''/scratch/j'', ab_rest = PyNone\<rparr>"

definition sample_token_store :: "(attempt_key \<times> token_record) list" where
  "sample_token_store = snd (issue_token (replicate 32 (CHR ''0'')) ''j'' 0 ''/scratch/j'' [])"

definition sample_plan :: fence_plan where
  "sample_plan = the (plan sample_digests sample_binding (map_of sample_token_store (''j'', 0)))"

definition sample_race :: race where
  "sample_race = \<lparr>rc_ws = \<lparr>ws_dir = DirPresent, ws_marker_dir = DirMissing, ws_writable = True, ws_claim = NoClaim,
     ws_script_token = replicate 32 (CHR ''0'')\<rparr>, rc_ran = [], rc_replies = []\<rparr>"

theorem fence_excludes_start_witness:
  "\<exists>r. (race_step sample_plan)\<^sup>*\<^sup>* sample_race r \<and> rc_ran r = [] \<and> rc_replies r \<noteq> []"
proof -
  have p: "plan sample_digests sample_binding (map_of sample_token_store (''j'', 0)) = Some sample_plan"
  proof -
    have "plan sample_digests sample_binding (map_of sample_token_store (''j'', 0)) \<noteq> None" by code_simp
    then show ?thesis by (auto simp: sample_plan_def)
  qed
  have hex: "\<forall>b t. list_all is_lower_hex (dg_fence sample_digests b t)"
    by (simp add: sample_digests_def list_all_iff is_lower_hex_def)
  have f: "fresh_race sample_race" by (simp add: fresh_race_def sample_race_def)
  obtain out ws where o: "fence_script (fp_claim_line sample_plan) (rc_ws sample_race) = (out, ws)" by fastforce
  define r1 where "r1 = sample_race\<lparr>rc_ws := ws, rc_replies := interpret_reply sample_plan out # rc_replies sample_race\<rparr>"
  have s1: "race_step sample_plan sample_race r1" unfolding r1_def by (rule race_step.fence [OF o])
  have out: "out = echo ''created''" using o by (simp add: sample_race_def fence_script_def Let_def)
  obtain b ws2 where j: "job_script (fp_token sample_plan) ''77.pbs'' (rc_ws r1) = (b, ws2)" by fastforce
  define r2 where "r2 = r1\<lparr>rc_ws := ws2, rc_ran := (if b then ''77.pbs'' # rc_ran r1 else rc_ran r1)\<rparr>"
  have s2: "race_step sample_plan r1 r2" unfolding r2_def by (rule race_step.job [OF j]) simp_all
  have "Fenced (fp_claim_line sample_plan) True \<in> set (rc_replies r1)" by (simp add: r1_def out interpret_created)
  then have "rc_ran r2 = []"
    using fence_excludes_start [OF p hex f r_into_rtranclp r_into_rtranclp, OF s1 s2] by blast
  moreover have "rc_replies r2 \<noteq> []" by (simp add: r2_def r1_def)
  ultimately show ?thesis using s1 s2 by (meson converse_rtranclp_into_rtranclp r_into_rtranclp)
qed

end
