(* ===== verification/Scheduler_Submit.thy ===== *)
theory Scheduler_Submit
  imports Daemon_Start Start_Fence
begin

text \<open>
  The submit transaction of a scheduler job, for the single-user daemon: the two-phase claim around
  \<open>qsub\<close>/\<open>sbatch\<close> (\<open>_start_scheduler_job\<close>), the parking of an ambiguous outcome, its resolution from
  remote evidence (\<open>_reconcile_unconfirmed_scheduler_submit\<close>), the operator's start fence, and the
  cancellation of an allocation whose job was killed meanwhile, all in \<open>daemon.py\<close>.

  What the cluster answers is a parameter: the outcome of \<open>dispatcher.submit\<close>, the receipt, the job's own
  start marker, imported operator evidence, the reply to the fence, whether \<open>qdel\<close> was accepted and what
  the following poll shows. Other processes write spec files between the locked sections, as in
  \<open>Daemon_Start\<close>. \<open>dm_submits\<close> logs every call of \<open>submit\<close> with the attempt it was made for.
\<close>

section \<open>What the cluster answers\<close>

datatype submit_outcome = SubmitAccepted string "int option" | SubmitUnknown string | SubmitRejected string
datatype receipt = ReceiptAccepted string | ReceiptRejected int | ReceiptOther

record cluster_env =
  ce_start :: start_env
  ce_dispatcher_error :: "string \<Rightarrow> string option"
  ce_prepare_retry_ok :: bool
  ce_max_wall_time_seconds :: "int option"
  ce_remote_workspace :: "string \<Rightarrow> string"
  ce_submit :: "job_spec \<Rightarrow> submit_outcome"
  ce_imported :: "job_spec \<Rightarrow> string + string option"
  ce_receipt :: "job_spec \<Rightarrow> receipt option"
  ce_recorded_job_id :: "job_spec \<Rightarrow> string option"
  ce_fence_intent :: "job_spec \<Rightarrow> string + fence_plan option"
  ce_fence_plan :: "job_spec \<Rightarrow> string + fence_plan"
  ce_fence_run :: "fence_plan \<Rightarrow> (int \<times> string) option"
  ce_fence_recorded :: bool
  ce_cancel_ok :: bool
  ce_cancel_finished :: "bool option" \<comment> \<open>the poll after \<open>qdel\<close>: \<open>None\<close> raised, else whether it shows \<open>FINISHED\<close>\<close>

definition py_quote :: "string \<Rightarrow> string" where
  "py_quote s = [CHR 0x27] @ s @ [CHR 0x27]"

definition wall_time_exceeds :: "int option \<Rightarrow> int option \<Rightarrow> bool" where
  "wall_time_exceeds requested maximum = (case (requested, maximum) of (Some r, Some m) \<Rightarrow> \<not> r \<le> m | _ \<Rightarrow> False)"

definition stamp_heartbeat :: "cluster_env \<Rightarrow> job_spec \<Rightarrow> job_spec" where
  "stamp_heartbeat ce s = s\<lparr>js_last_heartbeat_at := Some (se_now_iso (ce_start ce))\<rparr>"

text \<open>Write the row, or raise; then go on.\<close>

definition commit_row ::
  "cluster_env \<Rightarrow> job_spec \<Rightarrow> string \<Rightarrow> (daemon \<Rightarrow> start_result \<times> daemon) \<Rightarrow> daemon \<Rightarrow> start_result \<times> daemon" where
  "commit_row ce s i k d = (if \<not> write_ok (ce_start ce) i then (StartRaised, d) else k (write_row s i d))"

definition unless_raised ::
  "start_result \<times> daemon \<Rightarrow> (start_result \<Rightarrow> daemon \<Rightarrow> start_result \<times> daemon) \<Rightarrow> start_result \<times> daemon" where
  "unless_raised x k = (case x of (StartRaised, d) \<Rightarrow> (StartRaised, d) | (r, d) \<Rightarrow> k r d)"

section \<open>Landing a definite failure\<close>

definition fail_scheduler_dispatch_transaction ::
  "cluster_env \<Rightarrow> string \<Rightarrow> job_spec \<Rightarrow> string \<Rightarrow> string \<Rightarrow> daemon \<Rightarrow> start_result \<times> daemon" where
  "fail_scheduler_dispatch_transaction ce i admitted target reason d = (
     if (case spec_of d i of None \<Rightarrow> False | Some fresh \<Rightarrow> is_terminal fresh) then (NotStarted, d)
     else commit_row ce (admitted\<lparr>js_state := FAILED, js_scheduler_target := Some target,
         js_scheduler_state := Some ''submit_rejected'', js_scheduler_job_id := None,
         js_finished_at := Some (utcnow_iso (se_queue (ce_start ce))), js_exit_code := None,
         js_failure_reason := Some reason\<rparr>) i
       (\<lambda>d. (NotStarted, log_row i (js_state admitted) FAILED d)) d)"

definition terminalize_unadmitted_scheduler_submit ::
  "cluster_env \<Rightarrow> string \<Rightarrow> string \<Rightarrow> string \<Rightarrow> string \<Rightarrow> daemon \<Rightarrow> start_result \<times> daemon" where
  "terminalize_unadmitted_scheduler_submit ce i reason live_state after_terminal_state d0 = (
     let d = others_write (ce_start ce) 31 d0 in
     case spec_of d i of
       None \<Rightarrow> (NotStarted, d)
     | Some fresh \<Rightarrow>
         if is_terminal fresh
         then commit_row ce (if js_scheduler_state fresh \<in> {Some ''submitting'', Some ''submit_outcome_unknown'',
                  Some ''submit_outcome_unknown_after_terminal'', Some ''submit_reconciliation_quarantined_after_terminal''}
                then stamp_heartbeat ce (fresh\<lparr>js_scheduler_state := Some after_terminal_state\<rparr>) else fresh) i
              (\<lambda>d. (NotStarted, d)) d
         else commit_row ce (fresh\<lparr>js_state := FAILED, js_scheduler_state := Some live_state,
                js_failure_reason := Some reason, js_exit_code := None,
                js_finished_at := Some (utcnow_iso (se_queue (ce_start ce)))\<rparr>) i
              (\<lambda>d. (NotStarted, log_row i (js_state fresh) FAILED d)) d)"

section \<open>Parking an ambiguous outcome\<close>

definition mark_scheduler_submit_outcome_unknown ::
  "cluster_env \<Rightarrow> string \<Rightarrow> string \<Rightarrow> string \<Rightarrow> daemon \<Rightarrow> start_result \<times> daemon" where
  "mark_scheduler_submit_outcome_unknown ce i durable_state reason d0 = (let d = others_write (ce_start ce) 30 d0 in
     case spec_of d i of
       None \<Rightarrow> (NotStarted, d)
     | Some fresh \<Rightarrow>
         if js_scheduler_target fresh = None then (NotStarted, d)
         else if is_terminal fresh
         then commit_row ce (stamp_heartbeat ce (fresh\<lparr>js_scheduler_state := Some
                  (if durable_state = ''submit_evidence_conflict'' then ''submit_evidence_conflict_after_terminal''
                   else ''submit_outcome_unknown_after_terminal''), js_failure_reason := Some reason\<rparr>)) i
                (\<lambda>d. (NotStarted, d)) d
         else commit_row ce (stamp_heartbeat ce (fresh\<lparr>js_state := SUBMIT_OUTCOME_UNKNOWN,
                  js_scheduler_state := Some durable_state, js_failure_reason := Some reason\<rparr>)) i
                (\<lambda>d. (NotStarted, if js_state fresh \<noteq> SUBMIT_OUTCOME_UNKNOWN \<or> js_scheduler_state fresh \<noteq> Some durable_state
                       then log_row i (js_state fresh) SUBMIT_OUTCOME_UNKNOWN d else d)) d)"

section \<open>Cancelling an allocation of a finished job\<close>

definition recovered_job :: "job_spec \<Rightarrow> string \<Rightarrow> string \<Rightarrow> scheduler_job" where
  "recovered_job s jid target = \<lparr>sj_job_id = jid, sj_array_size = None, sj_target = target, sj_cpus = js_cpus s,
     sj_allocation_finished = False, sj_term_qdeled = False, sj_last_status_write = 0, sj_marker_since = None,
     sj_marker_misses = 0, sj_fetch_misses = 0, sj_explicit_absence = False\<rparr>"

definition track :: "string \<Rightarrow> scheduler_job \<Rightarrow> daemon \<Rightarrow> daemon" where
  "track i sj d = d\<lparr>dm_scheduler_running := AList.update i sj (dm_scheduler_running d)\<rparr>"

definition untrack :: "string \<Rightarrow> daemon \<Rightarrow> daemon" where
  "untrack i d = d\<lparr>dm_scheduler_running := AList.delete i (dm_scheduler_running d)\<rparr>"

text \<open>Its last locked section, once a poll shows the allocation finished.\<close>

definition settle_cancelled :: "cluster_env \<Rightarrow> string \<Rightarrow> string \<Rightarrow> daemon \<Rightarrow> start_result \<times> daemon" where
  "settle_cancelled ce i jid d0 = (let d = others_write (ce_start ce) 21 d0 in
     case spec_of d i of
       None \<Rightarrow> (NotStarted, d)
     | Some final \<Rightarrow>
         if is_terminal final \<and> js_scheduler_job_id final = Some jid
         then commit_row ce (stamp_heartbeat ce (final\<lparr>js_scheduler_state := Some ''submit_cancelled_after_terminal''\<rparr>)) i
                (\<lambda>d. (NotStarted, untrack i d)) d
         else (NotStarted, untrack i d))"

definition cancel_recovered_terminal_scheduler_submit ::
  "cluster_env \<Rightarrow> string \<Rightarrow> string \<Rightarrow> string \<Rightarrow> daemon \<Rightarrow> start_result \<times> daemon" where
  "cancel_recovered_terminal_scheduler_submit ce i jid target d0 = (let d = others_write (ce_start ce) 20 d0 in
     case spec_of d i of
       None \<Rightarrow> (NotStarted, d)
     | Some fresh \<Rightarrow>
         if \<not> is_terminal fresh then (NotStarted, d)
         else commit_row ce (stamp_heartbeat ce (fresh\<lparr>js_scheduler_job_id := Some jid,
                js_scheduler_state := Some ''submit_cancel_pending_after_terminal''\<rparr>)) i
           (\<lambda>d. let runtime = recovered_job fresh jid target in
              if \<not> ce_cancel_ok ce then (NotStarted, track i runtime d)
              else if ce_cancel_finished ce \<noteq> Some True then (NotStarted, track i (runtime\<lparr>sj_term_qdeled := True\<rparr>) d)
              else settle_cancelled ce i jid (track i (runtime\<lparr>sj_term_qdeled := True\<rparr>) d)) d)"

section \<open>Resolving an ambiguous submit\<close>

definition persist_recovered_scheduler_job_id ::
  "cluster_env \<Rightarrow> string \<Rightarrow> string \<Rightarrow> daemon \<Rightarrow> start_result \<times> daemon" where
  "persist_recovered_scheduler_job_id ce i jid d0 = (let d = others_write (ce_start ce) 32 d0 in
     case spec_of d i of
       None \<Rightarrow> (NotStarted, d)
     | Some fresh \<Rightarrow>
         if is_terminal fresh \<or> js_scheduler_target fresh = None then (NotStarted, d)
         else case js_scheduler_job_id fresh of
           Some j \<Rightarrow> (if j = jid then Started else NotStarted, d)
         | None \<Rightarrow> commit_row ce (fresh\<lparr>js_scheduler_job_id := Some jid\<rparr>) i (\<lambda>d. (Started, d)) d)"

text \<open>\<open>Started\<close>: the attempt was settled here.\<close>

definition FENCED_REASON :: string where
  "FENCED_REASON = ''scheduler attempt fenced before start by operator: the command never ran under this attempt (not a scheduler rejection, not proven non-admission)''"

definition settled_by :: "start_result \<times> daemon \<Rightarrow> start_result \<times> daemon" where
  "settled_by x = unless_raised x (\<lambda>r d. (Started, d))"

definition apply_scheduler_start_fence :: "cluster_env \<Rightarrow> string \<Rightarrow> job_spec \<Rightarrow> daemon \<Rightarrow> start_result \<times> daemon" where
  "apply_scheduler_start_fence ce i spec d = (
     let conflict = (\<lambda>reason. settled_by
           (mark_scheduler_submit_outcome_unknown ce i ''submit_evidence_conflict'' reason d)) in
     case ce_fence_intent ce spec of
       Inl err \<Rightarrow> conflict (''operator start fence cannot be applied: '' @ err)
     | Inr None \<Rightarrow> (NotStarted, d)
     | Inr (Some intent) \<Rightarrow> (case ce_fence_plan ce spec of
         Inl err \<Rightarrow> conflict (''operator start fence cannot be applied: '' @ err)
       | Inr current \<Rightarrow>
           if fp_plan_digest current \<noteq> fp_plan_digest intent
           then conflict (''operator start fence cannot be applied: recorded start fence conflicts with the original attempt'')
           else case ce_fence_run ce intent of
             None \<Rightarrow> (NotStarted, d)
           | Some (rc, out) \<Rightarrow> (case interpret_reply intent out of
               Unsafe _ \<Rightarrow> (NotStarted, d)
             | Fenced _ _ \<Rightarrow>
                 if \<not> ce_fence_recorded ce then (NotStarted, d)
                 else settled_by (terminalize_unadmitted_scheduler_submit ce i FENCED_REASON
                        ''submit_fenced_unstarted'' ''submit_fenced_after_terminal'' d)
             | StartedFirst _ _ \<Rightarrow> (NotStarted, d)
             | Conflict _ \<Rightarrow>
                 if rc \<noteq> 0 \<or> \<not> ce_fence_recorded ce then (NotStarted, d)
                 else conflict ''start-fence claim holds foreign evidence; preserved'')))"

definition TERMINAL_AMBIGUITY :: "string set" where
  "TERMINAL_AMBIGUITY = {''submitting'', ''submit_outcome_unknown'', ''submit_outcome_unknown_after_terminal'',
     ''submit_reconciliation_quarantined_after_terminal'', ''submit_cancel_pending_after_terminal''}"

definition scheduler_state_in :: "job_spec \<Rightarrow> string set \<Rightarrow> bool" where
  "scheduler_state_in s S \<longleftrightarrow> (case js_scheduler_state s of None \<Rightarrow> False | Some x \<Rightarrow> x \<in> S)"

text \<open>The last locked section: the recovered id is bound to the row, or the evidence conflicts.\<close>

definition bind_recovered :: "cluster_env \<Rightarrow> string \<Rightarrow> string \<Rightarrow> string \<Rightarrow> daemon \<Rightarrow> start_result \<times> daemon" where
  "bind_recovered ce i jid target d0 = (let d = others_write (ce_start ce) 34 d0 in
     case spec_of d i of
       None \<Rightarrow> (StartRaised, d)
     | Some fresh \<Rightarrow>
         if is_terminal fresh then cancel_recovered_terminal_scheduler_submit ce i jid target d
         else if js_scheduler_job_id fresh \<noteq> Some jid
         then commit_row ce (stamp_heartbeat ce (fresh\<lparr>js_state := SUBMIT_OUTCOME_UNKNOWN,
                js_scheduler_state := Some ''submit_evidence_conflict'', js_scheduler_job_id := None\<rparr>)) i
                (\<lambda>d. (NotStarted, log_row i (js_state fresh) SUBMIT_OUTCOME_UNKNOWN d)) d
         else commit_row ce (stamp_heartbeat ce (fresh\<lparr>js_state := RUNNING, js_scheduler_state := None,
                js_scheduler_job_id := Some jid\<rparr>)) i
                (\<lambda>d. (Started, track i (recovered_job fresh jid target) (log_row i (js_state fresh) RUNNING d))) d)"

definition adopt_acceptance :: "cluster_env \<Rightarrow> string \<Rightarrow> job_spec \<Rightarrow> string \<Rightarrow> string \<Rightarrow> daemon \<Rightarrow> start_result \<times> daemon" where
  "adopt_acceptance ce i spec jid target d = (
     if is_terminal spec then cancel_recovered_terminal_scheduler_submit ce i jid target d
     else unless_raised (persist_recovered_scheduler_job_id ce i jid d) (\<lambda>r d.
       if r = Started then bind_recovered ce i jid target d
       else let d = others_write (ce_start ce) 33 d in
         case spec_of d i of
           None \<Rightarrow> (NotStarted, d)
         | Some raced \<Rightarrow> if is_terminal raced then cancel_recovered_terminal_scheduler_submit ce i jid target d
                          else (NotStarted, d)))"

definition acceptance_ids :: "cluster_env \<Rightarrow> job_spec \<Rightarrow> string option \<Rightarrow> string list" where
  "acceptance_ids ce spec imported =
     (case imported of None \<Rightarrow> [] | Some j \<Rightarrow> [j])
     @ (case ce_recorded_job_id ce spec of None \<Rightarrow> [] | Some j \<Rightarrow> [j])
     @ (case ce_receipt ce spec of Some (ReceiptAccepted j) \<Rightarrow> [j] | _ \<Rightarrow> [])"

definition reconcile_unconfirmed_scheduler_submit ::
  "cluster_env \<Rightarrow> string \<Rightarrow> job_spec \<Rightarrow> daemon \<Rightarrow> start_result \<times> daemon" where
  "reconcile_unconfirmed_scheduler_submit ce i spec d = (
     let mark = mark_scheduler_submit_outcome_unknown ce i in
     if scheduler_state_in spec {''submit_evidence_conflict'', ''submit_evidence_conflict_after_terminal''} then (NotStarted, d)
     else case js_scheduler_target spec of
       None \<Rightarrow> (NotStarted, d)
     | Some target \<Rightarrow>
       if is_terminal spec \<and> \<not> scheduler_state_in spec TERMINAL_AMBIGUITY then (NotStarted, d)
       else if is_terminal spec \<and> js_scheduler_state spec = Some ''submit_cancel_pending_after_terminal''
               \<and> js_scheduler_job_id spec \<noteq> None
       then (if ce_dispatcher_error ce target \<noteq> None then (NotStarted, d)
             else cancel_recovered_terminal_scheduler_submit ce i (the (js_scheduler_job_id spec)) target d)
       else if ce_dispatcher_error ce target \<noteq> None
       then mark ''submit_outcome_unknown'' ''scheduler submit receipt is currently unobservable'' d
       else case ce_imported ce spec of
         Inl err \<Rightarrow> mark ''submit_evidence_conflict'' (''operator evidence cannot be applied: '' @ err) d
       | Inr imported \<Rightarrow> (case remdups (acceptance_ids ce spec imported) of
           _ # _ # _ \<Rightarrow> mark ''submit_evidence_conflict''
               ''conflicting daemon binding, scheduler receipt, and job-start marker ids'' d
         | [jid] \<Rightarrow> adopt_acceptance ce i spec jid target d
         | [] \<Rightarrow> (case ce_receipt ce spec of
             Some (ReceiptRejected rc) \<Rightarrow> terminalize_unadmitted_scheduler_submit ce i
                 (''scheduler submit was durably rejected (exit '' @ show_int rc @ '')'')
                 ''submit_rejected'' ''submit_rejected_after_terminal'' d
           | _ \<Rightarrow> unless_raised (apply_scheduler_start_fence ce i spec d) (\<lambda>r d.
               if r = Started then (NotStarted, d)
               else mark ''submit_outcome_unknown'' ''scheduler acceptance has no valid receipt or job-start marker'' d))))"

section \<open>The submit transaction\<close>

definition retry_evidence_rotated :: "cluster_env \<Rightarrow> string \<Rightarrow> job_spec \<Rightarrow> daemon \<Rightarrow> bool" where
  "retry_evidence_rotated ce target spec d \<longleftrightarrow> js_retry_count spec \<le> 0 \<or>
     (case spec_of d (js_id spec) of
        None \<Rightarrow> False
      | Some latest \<Rightarrow> js_id latest = js_id spec \<and> js_state latest = PENDING \<and> js_scheduler_target latest = Some target
          \<and> 0 < js_retry_count latest \<and> ce_prepare_retry_ok ce)"

definition submitting_row :: "cluster_env \<Rightarrow> string \<Rightarrow> job_spec \<Rightarrow> job_spec" where
  "submitting_row ce i latest = latest\<lparr>js_state := SUBMITTING, js_started_at := Some (se_now_iso (ce_start ce)),
     js_scheduler_job_id := None, js_scheduler_state := Some ''submitting'',
     js_scheduler_remote_workspace := (if js_scheduler_remote_workspace latest \<in> {None, Some []}
        then Some (ce_remote_workspace ce i) else js_scheduler_remote_workspace latest)\<rparr>"

text \<open>Phase one: \<open>PENDING\<close> to \<open>SUBMITTING\<close> is durable before the scheduler is called.\<close>

definition claim_scheduler ::
  "cluster_env \<Rightarrow> string \<Rightarrow> job_spec \<Rightarrow> daemon \<Rightarrow> (start_result + job_spec) \<times> daemon" where
  "claim_scheduler ce target spec d = (let i = js_id spec in
     case spec_of d i of
       None \<Rightarrow> (Inl NotStarted, d)
     | Some latest \<Rightarrow>
         if js_state latest \<noteq> PENDING then (Inl NotStarted, d)
         else if js_scheduler_target latest \<noteq> Some target then (Inl NotStarted, d)
         else if js_program_runtime_pin latest \<noteq> js_program_runtime_pin spec then (Inl NotStarted, d)
         else if \<not> write_ok (ce_start ce) i then (Inl StartRaised, d)
         else if wall_time_exceeds (js_wall_time_seconds latest) (ce_max_wall_time_seconds ce)
         then (Inl NotStarted, log_row i PENDING FAILED (write_row (latest\<lparr>js_state := FAILED,
                js_finished_at := Some (utcnow_iso (se_queue (ce_start ce))), js_exit_code := None,
                js_failure_reason := Some (''scheduler lane '' @ py_quote target @ '' allows at most ''
                  @ show_int (the (ce_max_wall_time_seconds ce)) @ '' s; requested ''
                  @ show_int (the (js_wall_time_seconds latest)) @ '' s'')\<rparr>) i d))
         else (Inr (submitting_row ce i latest), write_row (submitting_row ce i latest) i d))"

text \<open>
  The row that records an acceptance: what was submitted, with the live observations and a terminal
  transition of the row found on disk.
\<close>

definition accepted_row :: "cluster_env \<Rightarrow> string \<Rightarrow> job_spec \<Rightarrow> job_spec \<Rightarrow> job_spec" where
  "accepted_row ce jid spec latest = (
     let observed = spec\<lparr>js_scheduler_state := js_scheduler_state latest, js_scheduler_exec_host := js_scheduler_exec_host latest,
           js_scheduler_walltime_used := js_scheduler_walltime_used latest,
           js_scheduler_walltime_limit := js_scheduler_walltime_limit latest,
           js_last_heartbeat_at := js_last_heartbeat_at latest, js_scheduler_job_id := Some jid\<rparr> in
     if is_terminal latest
     then observed\<lparr>js_state := js_state latest, js_finished_at := js_finished_at latest,
        js_failure_reason := js_failure_reason latest, js_failure_tail := js_failure_tail latest,
        js_exit_code := js_exit_code latest, js_paused_at := js_paused_at latest,
        js_paused_monotonic_at := js_paused_monotonic_at latest,
        js_paused_seconds_total := js_paused_seconds_total latest, js_paused_by := js_paused_by latest\<rparr>
     else observed\<lparr>js_state := RUNNING, js_scheduler_submitted_at := Some (se_now_iso (ce_start ce)),
        js_scheduler_state := (if js_scheduler_state latest = Some ''submitting'' then None else js_scheduler_state latest)\<rparr>)"

text \<open>Phase two. An accepted allocation is tracked before anything that may fail.\<close>

definition accept_scheduler ::
  "cluster_env \<Rightarrow> string \<Rightarrow> string \<Rightarrow> job_spec \<Rightarrow> string \<Rightarrow> int option \<Rightarrow> daemon \<Rightarrow> start_result \<times> daemon" where
  "accept_scheduler ce i target spec jid array_size d0 = (
     let d = track i (recovered_job spec jid target\<lparr>sj_array_size := array_size\<rparr>) d0;
         row = accepted_row ce jid spec (the_or spec (spec_of d i)) in
     if \<not> write_ok (ce_start ce) i then (Started, d)
     else if is_terminal row
     then cancel_recovered_terminal_scheduler_submit ce i jid target (write_row row i d)
     else (Started, log_row i SUBMITTING RUNNING (write_row row i d)))"

text \<open>The call of the scheduler and what follows from its outcome.\<close>

definition submit_claimed :: "cluster_env \<Rightarrow> string \<Rightarrow> string \<Rightarrow> job_spec \<Rightarrow> daemon \<Rightarrow> start_result \<times> daemon" where
  "submit_claimed ce i target s d0 = (
     let d = others_write (ce_start ce) 12 (d0\<lparr>dm_submits := (i, js_retry_count s) # dm_submits d0\<rparr>) in
     case ce_submit ce s of
       SubmitUnknown reason \<Rightarrow>
         unless_raised (mark_scheduler_submit_outcome_unknown ce i ''submit_outcome_unknown'' reason d) (\<lambda>_ d.
           case spec_of d i of
             None \<Rightarrow> (NotStarted, d)
           | Some x \<Rightarrow> unless_raised (reconcile_unconfirmed_scheduler_submit ce i x d) (\<lambda>_ d. (NotStarted, d)))
     | SubmitRejected err \<Rightarrow> fail_scheduler_dispatch_transaction ce i s target
           (''scheduler submit to '' @ target @ '' failed: '' @ err) d
     | SubmitAccepted jid array_size \<Rightarrow> accept_scheduler ce i target s jid array_size d)"

definition start_scheduler_job :: "cluster_env \<Rightarrow> string \<Rightarrow> job_spec \<Rightarrow> daemon \<Rightarrow> start_result \<times> daemon" where
  "start_scheduler_job ce target spec d0 = (
     let env = ce_start ce; d = others_write env 10 d0 in
     case ce_dispatcher_error ce target of
       Some err \<Rightarrow> fail_dispatch env spec (''scheduler host '' @ py_quote target @ '': '' @ err) (Some (-1)) d
     | None \<Rightarrow>
         if \<not> retry_evidence_rotated ce target spec d then (NotStarted, d)
         else case claim_scheduler ce target spec (others_write env 11 d) of
           (Inl r, d) \<Rightarrow> (r, d)
         | (Inr s, d) \<Rightarrow> submit_claimed ce (js_id spec) target s d)"

text \<open>The whole start of a job.\<close>

definition start_job :: "cluster_env \<Rightarrow> string list \<Rightarrow> job_spec \<Rightarrow> daemon \<Rightarrow> start_result \<times> daemon" where
  "start_job ce gpus spec d = (case prepare_start (ce_start ce) spec d of
      (Inl r, d) \<Rightarrow> (r, d)
    | (Inr s, d) \<Rightarrow> (case js_scheduler_target s of
        Some target \<Rightarrow> start_scheduler_job ce target s d
      | None \<Rightarrow> if container_requested (js_command s) then start_managed_container (ce_start ce) s d
                else start_local (ce_start ce) gpus s d))"

section \<open>At most one submit per attempt\<close>

text \<open>
  How a row may change: it may end; a row that ended stays ended; otherwise a row that was put back as
  \<open>PENDING\<close> carries a new attempt number.
\<close>

definition row_advances :: "job_spec \<Rightarrow> job_spec \<Rightarrow> bool" where
  "row_advances s s' \<longleftrightarrow> is_terminal s' \<or> \<not> is_terminal s \<and> (js_retry_count s < js_retry_count s'
     \<or> js_retry_count s = js_retry_count s' \<and> (js_state s' = PENDING \<longrightarrow> js_state s = PENDING))"

definition orderly :: "(queue_world \<Rightarrow> queue_world) \<Rightarrow> bool" where
  "orderly f \<longleftrightarrow> (\<forall>w i s'. map_of (qw_disk (f w)) i = Some s' \<longrightarrow> (\<exists>s. map_of (qw_disk w) i = Some s \<and> row_advances s s'))"

definition orderly_env :: "start_env \<Rightarrow> bool" where
  "orderly_env env \<longleftrightarrow> (\<forall>n. orderly (se_race env n))"

definition advances :: "daemon \<Rightarrow> daemon \<Rightarrow> bool" where
  "advances d d' \<longleftrightarrow> dm_submits d' = dm_submits d \<and> (\<forall>i s'. spec_of d' i = Some s' \<longrightarrow>
     (case spec_of d i of Some s \<Rightarrow> row_advances s s' | None \<Rightarrow> is_terminal s'))"

lemma row_advances_refl [simp]: "row_advances s s"
  by (auto simp: row_advances_def)

lemma row_advances_terminal [intro]: "is_terminal s' \<Longrightarrow> row_advances s s'"
  by (simp add: row_advances_def)

lemma row_advances_trans: "row_advances s s' \<Longrightarrow> row_advances s' s'' \<Longrightarrow> row_advances s s''"
  by (auto simp: row_advances_def)

lemma advancesD:
  assumes "advances d d'" "spec_of d' i = Some s'"
  shows "case spec_of d i of Some s \<Rightarrow> row_advances s s' | None \<Rightarrow> is_terminal s'"
  using assms by (simp add: advances_def)

lemma advances_refl [simp]: "advances d d"
  by (auto simp: advances_def split: option.splits)

lemma advances_trans [trans]:
  assumes "advances d d'" "advances d' d''"
  shows "advances d d''"
  unfolding advances_def
proof (intro conjI allI impI)
  fix i s'' assume s'': "spec_of d'' i = Some s''"
  show "case spec_of d i of Some s \<Rightarrow> row_advances s s'' | None \<Rightarrow> is_terminal s''"
  proof (cases "spec_of d' i")
    case None
    then have "is_terminal s''" using advancesD [OF assms(2) s''] by simp
    then show ?thesis by (simp add: row_advances_def split: option.splits)
  next
    case (Some s')
    then have 1: "row_advances s' s''" using advancesD [OF assms(2) s''] by simp
    note 2 = advancesD [OF assms(1) Some]
    show ?thesis using 1 2 row_advances_trans [OF _ 1] by (auto simp: row_advances_def [of s' s''] split: option.splits)
  qed
qed (use assms in \<open>simp add: advances_def\<close>)

lemma advances_others: "orderly_env env \<Longrightarrow> advances d (others_write env n d)"
  by (force simp: advances_def orderly_env_def orderly_def spec_of_def others_write_def split: option.splits)

lemma advances_write:
  "(\<And>s. spec_of d i = Some s \<Longrightarrow> row_advances s s') \<Longrightarrow> (spec_of d i = None \<Longrightarrow> is_terminal s') \<Longrightarrow> advances d (write_row s' i d)"
  by (auto simp: advances_def split: option.splits)

lemma advances_frame [simp]:
  "advances d (log_row i a b d') = advances d d'" "advances d (track i sj d') = advances d d'"
  "advances d (untrack i d') = advances d d'" "advances d (d'\<lparr>dm_running := x\<rparr>) = advances d d'"
  "advances d (d'\<lparr>dm_admission_retry_at := y\<rparr>) = advances d d'"
  by (simp_all add: advances_def track_def untrack_def)

lemma advances_frame_left [simp]:
  "advances (track i sj d) d' = advances d d'" "advances (d\<lparr>dm_admission_retry_at := y\<rparr>) d' = advances d d'"
  by (simp_all add: advances_def track_def)

lemma advances_commit:
  assumes "\<And>s. spec_of d i = Some s \<Longrightarrow> row_advances s s'" "spec_of d i = None \<Longrightarrow> is_terminal s'"
    "\<And>d'. advances d' (snd (k d'))"
  shows "advances d (snd (commit_row ce s' i k d))"
proof (cases "write_ok (ce_start ce) i")
  case True
  have "advances d (write_row s' i d)" by (rule advances_write) (use assms in auto)
  also have "advances \<dots> (snd (k (write_row s' i d)))" by (rule assms(3))
  finally show ?thesis using True by (simp add: commit_row_def)
qed (simp add: commit_row_def)

lemma advances_unless_raised:
  assumes "advances d (snd x)" "\<And>r d'. advances d' (snd (k r d'))"
  shows "advances d (snd (unless_raised x k))"
  using assms advances_trans by (auto simp: unless_raised_def split: prod.splits start_result.splits)

lemma terminal_FAILED [simp]: "is_terminal (s\<lparr>js_state := FAILED\<rparr>)"
  by (simp add: is_terminal_def TERMINAL_STATES_def)

lemma is_terminal_update [simp]:
  "is_terminal (stamp_heartbeat ce s) = is_terminal s" "js_state (stamp_heartbeat ce s) = js_state s"
  "js_retry_count (stamp_heartbeat ce s) = js_retry_count s"
  by (simp_all add: stamp_heartbeat_def is_terminal_def)

lemmas row_defs = row_advances_def is_terminal_def

lemma advances_fail_dispatch: "advances d (snd (fail_dispatch env spec reason ec d))"
proof (cases "fail_dispatch env spec reason ec d")
  case (Pair r d')
  then show ?thesis
  proof (cases rule: fail_dispatch_cases)
    case (2 s)
    then have "is_terminal s" by (simp add: is_terminal_def TERMINAL_STATES_def)
    then show ?thesis using Pair 2 by (simp add: advances_write row_advances_def)
  qed (simp add: Pair)
qed

lemma advances_fail_transaction: "advances d (snd (fail_scheduler_dispatch_transaction ce i s target reason d))"
  by (auto simp: fail_scheduler_dispatch_transaction_def row_advances_def is_terminal_def TERMINAL_STATES_def
      intro!: advances_commit)

lemma after_others:
  assumes "orderly_env (ce_start ce)" "\<And>d. advances d (snd (f d))"
  shows "advances d (snd (f (others_write (ce_start ce) n d)))"
  using advances_trans [OF advances_others [OF assms(1)] assms(2)] .

text \<open>The shape of a locked section: read the row, then act on it.\<close>

lemma advances_section:
  assumes "orderly_env (ce_start ce)" "\<And>d. advances d (snd (g d))"
    "\<And>d s. spec_of d i = Some s \<Longrightarrow> advances d (snd (h d s))"
  shows "advances d0 (snd (let d = others_write (ce_start ce) n d0 in case spec_of d i of None \<Rightarrow> g d | Some s \<Rightarrow> h d s))"
proof -
  have "advances d (snd (case spec_of d i of None \<Rightarrow> g d | Some s \<Rightarrow> h d s))" for d
    using assms(2,3) by (simp split: option.splits)
  from after_others [OF assms(1) this] show ?thesis by (simp add: Let_def)
qed

lemma advances_mark:
  "orderly_env (ce_start ce) \<Longrightarrow> advances d (snd (mark_scheduler_submit_outcome_unknown ce i st reason d))"
  unfolding mark_scheduler_submit_outcome_unknown_def
  by (rule advances_section) (auto simp: row_defs TERMINAL_STATES_def intro!: advances_commit)

lemma advances_terminalize:
  "orderly_env (ce_start ce) \<Longrightarrow> advances d (snd (terminalize_unadmitted_scheduler_submit ce i reason a b d))"
  unfolding terminalize_unadmitted_scheduler_submit_def
  by (rule advances_section) (auto simp: row_defs TERMINAL_STATES_def intro!: advances_commit)

lemma advances_settle_cancelled:
  "orderly_env (ce_start ce) \<Longrightarrow> advances d (snd (settle_cancelled ce i jid d))"
  unfolding settle_cancelled_def by (rule advances_section) (auto simp: row_defs intro!: advances_commit)

lemma advances_cancel:
  assumes "orderly_env (ce_start ce)"
  shows "advances d (snd (cancel_recovered_terminal_scheduler_submit ce i jid target d))"
  unfolding cancel_recovered_terminal_scheduler_submit_def
  by (rule advances_section [OF assms])
    (use advances_settle_cancelled [OF assms, of "track i x d" for x d] in \<open>auto simp: row_defs Let_def intro!: advances_commit\<close>)

lemma advances_persist_recovered:
  "orderly_env (ce_start ce) \<Longrightarrow> advances d (snd (persist_recovered_scheduler_job_id ce i jid d))"
  unfolding persist_recovered_scheduler_job_id_def
  by (rule advances_section) (auto simp: row_defs split: option.splits intro!: advances_commit)

lemma advances_fence:
  assumes "orderly_env (ce_start ce)"
  shows "advances d (snd (apply_scheduler_start_fence ce i spec d))"
proof -
  have s: "advances d (snd (settled_by x))" if "advances d (snd x)" for x
    using that by (auto simp: settled_by_def intro: advances_unless_raised)
  show ?thesis unfolding apply_scheduler_start_fence_def Let_def
    using s advances_mark [OF assms] advances_terminalize [OF assms]
    by (simp split: sum.splits option.splits fence_outcome.splits)
qed

lemma advances_bind_recovered:
  assumes "orderly_env (ce_start ce)"
  shows "advances d (snd (bind_recovered ce i jid target d))"
  unfolding bind_recovered_def
  by (rule advances_section [OF assms])
    (use advances_cancel [OF assms] in \<open>auto simp: row_defs intro!: advances_commit\<close>)

lemma advances_adopt:
  assumes "orderly_env (ce_start ce)"
  shows "advances d (snd (adopt_acceptance ce i spec jid target d))"
proof -
  have raced: "advances d (snd (let d = others_write (ce_start ce) 33 d in case spec_of d i of
      None \<Rightarrow> (NotStarted, d)
    | Some raced \<Rightarrow> if is_terminal raced then cancel_recovered_terminal_scheduler_submit ce i jid target d else (NotStarted, d)))" for d
    by (rule advances_section [OF assms]) (simp_all add: advances_cancel [OF assms])
  then show ?thesis unfolding adopt_acceptance_def
    using advances_cancel [OF assms] advances_bind_recovered [OF assms]
    by (simp add: advances_unless_raised [OF advances_persist_recovered [OF assms]])
qed

lemma advances_reconcile:
  assumes "orderly_env (ce_start ce)"
  shows "advances d (snd (reconcile_unconfirmed_scheduler_submit ce i spec d))"
  unfolding reconcile_unconfirmed_scheduler_submit_def Let_def
  using advances_cancel [OF assms] advances_mark [OF assms] advances_adopt [OF assms] advances_terminalize [OF assms]
    advances_unless_raised [OF advances_fence [OF assms]]
  by (simp split: option.splits sum.splits list.splits receipt.splits)

lemma advances_prepare: "orderly_env env \<Longrightarrow> advances d (snd (prepare_start env spec d))"
proof -
  assume o: "orderly_env env"
  have p: "advances d (snd (snd (persist_program_runtime_resolution env s r d)))" for s r d
    by (auto simp: persist_program_runtime_resolution_def resolved_row_def row_defs Let_def intro!: advances_write split: option.splits)
  note t = advances_trans [OF advances_others [OF o]]
  have 1: "advances d (snd (fail_dispatch env s f e (others_write env 0 (d\<lparr>dm_admission_retry_at := x\<rparr>))))" for s f e x
    using t [OF advances_fail_dispatch, of "d\<lparr>dm_admission_retry_at := x\<rparr>"] by simp
  have 2: "advances d (snd (snd (persist_program_runtime_resolution env s r (others_write env 0 (d\<lparr>dm_admission_retry_at := x\<rparr>)))))" for s r x
    using t [OF p, of "d\<lparr>dm_admission_retry_at := x\<rparr>"] by simp
  show ?thesis unfolding prepare_start_def Let_def using 1 2
    by (auto split: option.splits prod.splits bool.splits) (metis snd_conv)+
qed

text \<open>
  The invariant: the submit calls are for different attempts, and a row never shows an attempt that was
  already submitted as \<open>PENDING\<close> (nor an earlier one, unless it ended).
\<close>

definition past :: "int \<Rightarrow> job_spec \<Rightarrow> bool" where
  "past n s \<longleftrightarrow> is_terminal s \<or> n < js_retry_count s \<or> n = js_retry_count s \<and> js_state s \<noteq> PENDING"

definition submitted_once :: "daemon \<Rightarrow> bool" where
  "submitted_once d \<longleftrightarrow> distinct (dm_submits d)
     \<and> (\<forall>i n s. (i, n) \<in> set (dm_submits d) \<longrightarrow> spec_of d i = Some s \<longrightarrow> past n s)"

lemma past_advances: "past n s \<Longrightarrow> row_advances s s' \<Longrightarrow> past n s'"
  by (auto simp: past_def row_advances_def)

lemma submitted_once_advances [inv_intros]:
  assumes "submitted_once d" "advances d d'"
  shows "submitted_once d'"
  unfolding submitted_once_def
proof (intro conjI allI impI)
  fix i n s' assume m: "(i, n) \<in> set (dm_submits d')" and s': "spec_of d' i = Some s'"
  have m: "(i, n) \<in> set (dm_submits d)" using m assms(2) by (simp add: advances_def)
  from advancesD [OF assms(2) s'] show "past n s'"
  proof (cases "spec_of d i")
    case None
    with advancesD [OF assms(2) s'] show ?thesis by (simp add: past_def)
  next
    case (Some s)
    with assms(1) m have "past n s" by (simp add: submitted_once_def)
    then show ?thesis using advancesD [OF assms(2) s'] Some past_advances by simp
  qed
qed (use assms in \<open>simp add: submitted_once_def advances_def\<close>)

lemma submitted_once_write:
  assumes "submitted_once d" "\<And>n. (i, n) \<in> set (dm_submits d) \<Longrightarrow> past n s"
  shows "submitted_once (write_row s i d)"
  using assms by (auto simp: submitted_once_def)

lemma submitted_once_frame [simp]:
  "submitted_once (log_row i a b d) = submitted_once d" "submitted_once (track i sj d) = submitted_once d"
  "submitted_once (d\<lparr>dm_running := x\<rparr>) = submitted_once d" "submitted_once (d\<lparr>dm_launched := y\<rparr>) = submitted_once d"
  "submitted_once (d\<lparr>dm_sigkilled := y\<rparr>) = submitted_once d"
  by (simp_all add: submitted_once_def track_def)

lemma track_submits [simp]: "dm_submits (track i sj d) = dm_submits d" "spec_of (track i sj d) = spec_of d"
  by (simp_all add: track_def)

lemma pending_past:
  assumes "submitted_once d" "spec_of d i = Some s" "js_state s = PENDING" "(i, n) \<in> set (dm_submits d)"
  shows "n < js_retry_count s"
  using assms by (force simp: submitted_once_def past_def is_terminal_def)

section \<open>The starts keep the invariant\<close>

lemma claim_scheduler_cases:
  assumes "claim_scheduler ce target spec d = (x, d')"
  obtains r where "x = Inl r" "r \<noteq> Started" "advances d d'"
  | latest where "spec_of d (js_id spec) = Some latest" "js_state latest = PENDING" "js_scheduler_target latest = Some target"
    "x = Inr (submitting_row ce (js_id spec) latest)" "d' = write_row (submitting_row ce (js_id spec) latest) (js_id spec) d"
proof -
  have "advances d (log_row i a b (write_row (s\<lparr>js_state := FAILED, js_finished_at := f, js_exit_code := e, js_failure_reason := g\<rparr>) j d))"
    for i a b s f e g j by (auto simp: row_defs TERMINAL_STATES_def intro!: advances_write)
  then show ?thesis using assms that unfolding claim_scheduler_def Let_def by (auto split: option.splits if_splits)
qed

lemma submitting_row_sel [simp]:
  "js_retry_count (submitting_row ce i s) = js_retry_count s" "js_state (submitting_row ce i s) = SUBMITTING"
  "js_scheduler_target (submitting_row ce i s) = js_scheduler_target s"
  by (simp_all add: submitting_row_def)

lemma accepted_row_past:
  assumes "n \<le> js_retry_count spec"
  shows "past n (accepted_row ce jid spec latest)"
  using assms by (auto simp: past_def accepted_row_def is_terminal_def Let_def)

lemma once_accept:
  assumes "submitted_once d" "orderly_env (ce_start ce)"
    "\<And>n. (i, n) \<in> set (dm_submits d) \<Longrightarrow> n \<le> js_retry_count spec"
  shows "submitted_once (snd (accept_scheduler ce i target spec jid arr d))"
proof -
  let ?d = "track i (recovered_job spec jid target\<lparr>sj_array_size := arr\<rparr>) d"
  let ?row = "accepted_row ce jid spec (the_or spec (spec_of ?d i))"
  have "submitted_once (write_row ?row i ?d)"
    using assms(1,3) by (intro submitted_once_write accepted_row_past) simp_all
  then show ?thesis unfolding accept_scheduler_def Let_def
    using assms(1) submitted_once_advances [OF _ advances_cancel [OF assms(2)]] by simp
qed

lemma start_scheduler_cases:
  assumes "start_scheduler_job ce target spec d = (r, d')"
  defines "d2 \<equiv> others_write (ce_start ce) 11 (others_write (ce_start ce) 10 d)"
  obtains (quiet) "dm_submits d' = dm_submits d" "orderly_env (ce_start ce) \<Longrightarrow> advances d d'"
  | (called) latest where "spec_of d2 (js_id spec) = Some latest" "js_state latest = PENDING"
     "js_scheduler_target latest = Some target"
     "submit_claimed ce (js_id spec) target (submitting_row ce (js_id spec) latest)
        (write_row (submitting_row ce (js_id spec) latest) (js_id spec) d2) = (r, d')"
proof -
  note o = advances_trans [OF advances_others]
  have f: "thesis" if "fail_dispatch (ce_start ce) spec reason e (others_write (ce_start ce) 10 d) = (r, d')" for reason e
    using quiet fail_dispatch_frame [OF that] advances_fail_dispatch [of "others_write (ce_start ce) 10 d" "ce_start ce" spec reason e] that o
    by simp
  have c: "thesis" if "claim_scheduler ce target spec d2 = (Inl r, d')"
    using that
  proof (cases rule: claim_scheduler_cases)
    case (1 r1)
    then show ?thesis using quiet o [OF _ o [OF _ 1(3) [unfolded d2_def]]] by (simp add: d2_def advances_def [of _ d'])
  qed simp
  show ?thesis
  proof (cases "claim_scheduler ce target spec d2")
    case (Pair x d3)
    then show ?thesis
    proof (cases rule: claim_scheduler_cases)
      case (1 r1)
      then show ?thesis using assms(1) Pair f c quiet advances_others
        by (auto simp: start_scheduler_job_def Let_def d2_def split: option.splits if_splits)
    next
      case (2 latest)
      then show ?thesis using assms(1) Pair f called quiet advances_others
        by (auto simp: start_scheduler_job_def Let_def d2_def split: option.splits if_splits)
    qed
  qed
qed

lemma once_submit_claimed:
  assumes "submitted_once d" "orderly_env (ce_start ce)" "js_state s \<noteq> PENDING" "spec_of d i = Some s"
    "\<And>n. (i, n) \<in> set (dm_submits d) \<Longrightarrow> n < js_retry_count s"
  shows "submitted_once (snd (submit_claimed ce i target s d))"
proof -
  let ?d = "d\<lparr>dm_submits := (i, js_retry_count s) # dm_submits d\<rparr>" and ?env = "ce_start ce"
  have "submitted_once ?d" using assms by (auto simp: submitted_once_def past_def)
  then have o: "submitted_once (others_write ?env 12 ?d)" by (rule submitted_once_advances [OF _ advances_others [OF assms(2)]])
  have "submitted_once (snd (accept_scheduler ce i target s jid arr (others_write ?env 12 ?d)))" for jid arr
    by (rule once_accept [OF o assms(2)]) (use assms(5) in force)
  moreover have "submitted_once (snd (unless_raised (mark_scheduler_submit_outcome_unknown ce i st reason (others_write ?env 12 ?d))
      (\<lambda>_ d. case spec_of d i of None \<Rightarrow> (NotStarted, d)
        | Some x \<Rightarrow> unless_raised (reconcile_unconfirmed_scheduler_submit ce i x d) (\<lambda>_ d. (NotStarted, d)))))" for st reason
    by (rule submitted_once_advances [OF o], rule advances_unless_raised [OF advances_mark [OF assms(2)]])
      (auto intro!: advances_unless_raised [OF advances_reconcile [OF assms(2)]] split: option.splits)
  ultimately show ?thesis using submitted_once_advances [OF o advances_fail_transaction]
    by (simp add: submit_claimed_def Let_def split: submit_outcome.splits)
qed

lemma once_start_scheduler:
  assumes "submitted_once d" "orderly_env (ce_start ce)"
  shows "submitted_once (snd (start_scheduler_job ce target spec d))"
proof (cases "start_scheduler_job ce target spec d")
  case (Pair r d')
  from this show ?thesis
  proof (cases rule: start_scheduler_cases)
    case quiet
    then show ?thesis using assms submitted_once_advances Pair by simp
  next
    case (called latest)
    let ?d2 = "others_write (ce_start ce) 11 (others_write (ce_start ce) 10 d)" and ?s = "submitting_row ce (js_id spec) latest"
    have d2: "submitted_once ?d2"
      using submitted_once_advances [OF submitted_once_advances [OF assms(1)]] advances_others [OF assms(2)] by blast
    note lt = pending_past [OF d2 called(1,2)]
    have "submitted_once (write_row ?s (js_id spec) ?d2)"
      by (rule submitted_once_write [OF d2]) (use lt in \<open>auto simp: past_def\<close>)
    then have "submitted_once (snd (submit_claimed ce (js_id spec) target ?s (write_row ?s (js_id spec) ?d2)))"
      by (rule once_submit_claimed [OF _ assms(2)]) (use lt in auto)
    then show ?thesis using called(4) Pair by simp
  qed
qed

lemma once_record_pid:
  assumes "submitted_once d" "js_state claimed = RUNNING" "\<And>n. (i, n) \<in> set (dm_submits d) \<Longrightarrow> n \<le> js_retry_count claimed"
  shows "submitted_once (snd (record_pid env i claimed pid d))"
proof -
  have "submitted_once (write_row (claimed\<lparr>js_pid := a, js_pgid := b, js_pid_start_time := c, js_started_at := e\<rparr>) i d)" for a b c e
    using assms by (intro submitted_once_write) (auto simp: past_def is_terminal_def dest: assms(3))
  then have w: "submitted_once (write_row (claimed\<lparr>js_pid := a, js_pgid := b, js_pid_start_time := c, js_started_at := e\<rparr>) i
      (d\<lparr>dm_running := x\<rparr>))" for a b c e x
    by (simp add: write_row_def submitted_once_def spec_of_def)
  have t: "submitted_once (write_row (s\<lparr>js_id := j\<rparr>) i d)" if "spec_of d i = Some s" "is_terminal s" for s j
    using assms(1) that by (intro submitted_once_write) (auto simp: past_def is_terminal_def)
  show ?thesis unfolding record_pid_def Let_def
    using assms(1) w t by (auto split: option.splits)
qed

lemma once_start_local:
  assumes "submitted_once d" "orderly_env env"
  shows "submitted_once (snd (start_local env gpus spec d))"
proof (cases "start_local env gpus spec d")
  case (Pair r d')
  note others = submitted_once_advances [OF _ advances_others [OF assms(2)]]
  have d1: "submitted_once (others_write env 1 d)" by (rule others [OF assms(1)])
  have claimed: "submitted_once d2 \<and> js_state s = RUNNING \<and> (\<forall>n. (js_id spec, n) \<in> set (dm_submits d2) \<longrightarrow> n \<le> js_retry_count s)"
    if "claim_local env gpus spec (others_write env 1 d) = (Inr s, d2)" for s d2
    using that
  proof (cases rule: claim_local_cases)
    case (2 s')
    then obtain latest where l: "spec_of (others_write env 1 d) (js_id spec) = Some latest" "js_state latest = PENDING"
      by (auto simp: row_state_spec)
    have lt: "n < js_retry_count s" if "(js_id spec, n) \<in> set (dm_submits d2)" for n
      using pending_past [OF d1 l, of n] that 2 l(1) by simp
    moreover have "submitted_once d2" unfolding 2(3)
      by (rule submitted_once_write [OF d1]) (use 2 lt in \<open>auto simp: past_def\<close>)
    ultimately show ?thesis using 2 by force
  qed auto
  from Pair show ?thesis
  proof (cases rule: start_local_cases)
    case (leaked reason)
    then show ?thesis using Pair submitted_once_advances [OF d1 advances_fail_dispatch] by (metis snd_conv)
  next
    case refused
    then show ?thesis using Pair d1 by (auto elim: claim_local_cases)
  next
    case (launch_failed s d2 err)
    then show ?thesis using Pair claimed [OF launch_failed(1)] others
      submitted_once_advances [OF _ advances_fail_dispatch] by (metis snd_conv)
  next
    case (launched s d2 pid)
    let ?d = "others_write env 2 (d2\<lparr>dm_launched := pid # dm_launched d2\<rparr>)"
    have "submitted_once ?d" using claimed [OF launched(1)] by (intro others) simp
    then have "submitted_once (snd (record_pid env (js_id spec) s pid ?d))"
      using claimed [OF launched(1)] by (intro once_record_pid) auto
    then show ?thesis using Pair launched(2) by simp
  qed (use Pair d1 in simp)
qed

lemma advances_container: "advances d (snd (start_managed_container env spec d))"
  unfolding start_managed_container_def restore_managed_container_def Let_def
  by (auto simp: row_defs advances_fail_dispatch intro!: advances_write split: option.splits)

lemma once_start_job:
  assumes "submitted_once d" "orderly_env (ce_start ce)" "start_job ce gpus spec d = (r, d')"
  shows "submitted_once d'"
proof -
  have p: "submitted_once (snd (prepare_start (ce_start ce) spec d))"
    by (rule submitted_once_advances [OF assms(1) advances_prepare [OF assms(2)]])
  show ?thesis
  proof (cases "prepare_start (ce_start ce) spec d")
    case (Pair x d1)
    then have "submitted_once d1" using p by simp
    then show ?thesis using assms(3) Pair once_start_scheduler [OF _ assms(2)] once_start_local [OF _ assms(2)]
        submitted_once_advances [OF _ advances_container]
      unfolding start_job_def by (cases x) (auto split: option.splits if_splits, metis snd_conv, metis snd_conv, metis snd_conv)
  qed
qed

section \<open>Runs of the daemon\<close>

inductive daemon_step :: "daemon \<Rightarrow> daemon \<Rightarrow> bool" where
  start: "orderly_env (ce_start ce) \<Longrightarrow> start_job ce gpus spec d = (r, d') \<Longrightarrow> daemon_step d d'"
| reconcile: "orderly_env (ce_start ce) \<Longrightarrow> reconcile_unconfirmed_scheduler_submit ce i spec d = (r, d') \<Longrightarrow> daemon_step d d'"
| queue: "daemon_step d (d\<lparr>dm_queue := run_queue_op op (dm_queue d)\<rparr>)"
| outside: "orderly f \<Longrightarrow> daemon_step d (d\<lparr>dm_queue := f (dm_queue d)\<rparr>)"
| arrive: "spec_of d i = None \<Longrightarrow> i \<notin> fst ` set (dm_submits d) \<Longrightarrow> daemon_step d (write_row s i d)"

lemma fail_pending_orderly:
  assumes "\<And>s. is_terminal (clear s) = is_terminal s"
  shows "orderly (\<lambda>w. snd (fail_pending env clear j reason w))"
  unfolding orderly_def
proof (intro allI impI)
  fix w i s' assume s': "map_of (qw_disk (snd (fail_pending env clear j reason w))) i = Some s'"
  show "\<exists>s. map_of (qw_disk w) i = Some s \<and> row_advances s s'"
  proof (cases "fail_pending env clear j reason w")
    case (Pair res w')
    from Pair show ?thesis
    proof (cases rule: fail_pending_cases)
      case (2 s)
      then have "is_terminal (the res)" using assms by (simp add: is_terminal_def TERMINAL_STATES_def)
      then show ?thesis using 2 s' Pair
        by (cases "i = j") (auto simp: store_simps)
    qed (use s' Pair in auto)
  qed
qed

lemma finish_orderly: "orderly (\<lambda>w. snd (record_finish env j rc w))"
proof -
  have t: "is_terminal (finished_spec env rc s)" for s
    by (simp add: finished_spec_def is_terminal_def TERMINAL_STATES_def Let_def)
  have r: "is_terminal (reaped_spec env rc s) = is_terminal s" for s
    by (simp add: reaped_spec_def is_terminal_def Let_def)
  show ?thesis unfolding orderly_def record_finish_def maybe_retry_def Let_def
    using t r by (auto simp: row_advances_def store_simps next_attempt_def Let_def split: option.splits if_splits)
qed

lemma queue_op_orderly: "orderly (run_queue_op op)"
proof -
  have id: "orderly (\<lambda>w. w)" by (simp add: orderly_def)
  have same: "is_terminal (s\<lparr>js_refresh_before := None\<rparr>) = is_terminal s" for s by (simp add: is_terminal_def)
  note f = fail_pending_orderly [of "\<lambda>s. s"] fail_pending_orderly [of "\<lambda>s. s\<lparr>js_refresh_before := None\<rparr>", OF same]
  show ?thesis
  proof (cases op)
    case (Cascade env s by_id)
    have "run_queue_op op = (\<lambda>w. w) \<or> (\<exists>reason. run_queue_op op = (\<lambda>w. snd (fail_pending env (\<lambda>s. s) (js_id s) reason w)))"
    proof (cases "js_state s \<noteq> PENDING \<or> js_depends_on s = [] \<or> failed_predecessor s by_id = None")
      case False
      then obtain q st where "failed_predecessor s by_id = Some (q, st)" by auto
      then have "run_queue_op op = (\<lambda>w. snd (fail_pending env (\<lambda>s. s) (js_id s)
          (''predecessor '' @ q @ '' failed (state='' @ state_value st @ '')'') w))"
        using False unfolding Cascade run_queue_op.simps maybe_cascade_dependency_failure_def fun_eq_iff
        by (auto split: prod.splits option.splits)
      then show ?thesis by blast
    qed (auto simp: Cascade maybe_cascade_dependency_failure_def fun_eq_iff)
    then show ?thesis using id f(1) by auto
  next
    case (Impossible env s why)
    then have "run_queue_op op = (\<lambda>w. snd (fail_pending env (\<lambda>s. s) (js_id s)
        (''impossible resource request: '' @ why @ ''. Resubmit with a request within the daemon's caps.'') w))"
      by (auto simp: fun_eq_iff fail_impossible_spec_def split: option.splits prod.splits)
    then show ?thesis using f(1) by simp
  next
    case (RefreshFailed env i reason)
    then have "run_queue_op op = (\<lambda>w. snd (fail_pending env (\<lambda>s. s\<lparr>js_refresh_before := None\<rparr>) i reason w))"
      by (auto simp: fun_eq_iff fail_refresh_job_def)
    then show ?thesis using f(2) by simp
  next
    case (Finish env j rc)
    then have "run_queue_op op = (\<lambda>w. snd (record_finish env j rc w))" by (simp add: fun_eq_iff)
    then show ?thesis using finish_orderly by simp
  qed
qed

lemma advances_queue: "orderly f \<Longrightarrow> advances d (d\<lparr>dm_queue := f (dm_queue d)\<rparr>)"
  by (force simp: advances_def orderly_def spec_of_def split: option.splits)

lemma daemon_step_once: "daemon_step d d' \<Longrightarrow> submitted_once d \<Longrightarrow> submitted_once d'"
proof (induction rule: daemon_step.induct)
  case (start ce gpus spec d r d')
  then show ?case by (blast intro: once_start_job)
next
  case (reconcile ce i spec d r d')
  then show ?case using submitted_once_advances [OF _ advances_reconcile] by (metis snd_conv)
next
  case (queue d op)
  then show ?case by (rule submitted_once_advances [OF _ advances_queue [OF queue_op_orderly]])
next
  case (outside f d)
  then show ?case by (blast intro: submitted_once_advances advances_queue)
next
  case (arrive d i s)
  then show ?case by (intro submitted_once_write) force+
qed

section \<open>An accepted or ambiguous submit keeps its slot\<close>

text \<open>
  The rows a dispatch pass counts as scheduler reservations when no runtime tracks them (without the ageing
  of recovered rows): the attempt is in flight or ambiguous, or its job ended while it was.
\<close>

definition AMBIGUOUS_AFTER_TERMINAL :: "string set" where
  "AMBIGUOUS_AFTER_TERMINAL = {''submitting'', ''submit_outcome_unknown'', ''submit_outcome_unknown_after_terminal'',
     ''submit_evidence_conflict_after_terminal'', ''submit_reconciliation_quarantined_after_terminal'',
     ''submit_cancel_pending_after_terminal''}"

definition reserves_ambiguous :: "job_spec \<Rightarrow> bool" where
  "reserves_ambiguous s \<longleftrightarrow> js_state s \<in> {SUBMITTING, SUBMIT_OUTCOME_UNKNOWN}
     \<or> is_terminal s \<and> scheduler_state_in s AMBIGUOUS_AFTER_TERMINAL"

definition holds_slot :: "string \<Rightarrow> daemon \<Rightarrow> bool" where
  "holds_slot i d \<longleftrightarrow> map_of (dm_scheduler_running d) i \<noteq> None \<or> (\<exists>s. spec_of d i = Some s \<and> reserves_ambiguous s)"

text \<open>
  The other processes of a submit in flight: a kill may end the row, and nothing else touches it.
\<close>

definition kills_only :: "start_env \<Rightarrow> bool" where
  "kills_only env \<longleftrightarrow> (\<forall>n w i. case map_of (qw_disk w) i of None \<Rightarrow> map_of (qw_disk (se_race env n w)) i = None
     | Some s \<Rightarrow> map_of (qw_disk (se_race env n w)) i = Some s
        \<or> (\<exists>st \<in> TERMINAL_STATES. \<not> is_terminal s \<and> map_of (qw_disk (se_race env n w)) i = Some (s\<lparr>js_state := st\<rparr>)))"

definition parked :: "job_spec \<Rightarrow> bool" where
  "parked s \<longleftrightarrow> js_scheduler_target s \<noteq> None \<and> scheduler_state_in s TERMINAL_AMBIGUITY
     \<and> (js_state s \<in> {SUBMITTING, SUBMIT_OUTCOME_UNKNOWN} \<or> is_terminal s)"

definition parked_at :: "string \<Rightarrow> daemon \<Rightarrow> bool" where
  "parked_at i d \<longleftrightarrow> (\<exists>s. spec_of d i = Some s \<and> parked s)"

definition terminal_at :: "string \<Rightarrow> daemon \<Rightarrow> bool" where
  "terminal_at i d \<longleftrightarrow> (\<exists>s. spec_of d i = Some s \<and> is_terminal s)"

text \<open>The evidence on which a slot is given up.\<close>

definition gives_up :: "cluster_env \<Rightarrow> bool" where
  "gives_up ce \<longleftrightarrow> (\<exists>s err. ce_submit ce s = SubmitRejected err) \<or> (\<exists>s rc. ce_receipt ce s = Some (ReceiptRejected rc))
     \<or> (\<exists>s p rc out line b. ce_fence_intent ce s = Inr (Some p) \<and> ce_fence_run ce p = Some (rc, out)
          \<and> interpret_reply p out = Fenced line b)
     \<or> ce_cancel_ok ce \<and> ce_cancel_finished ce = Some True"

lemma parked_job_id [simp]: "parked (s\<lparr>js_scheduler_job_id := j\<rparr>) = parked s"
  by (simp add: parked_def scheduler_state_in_def is_terminal_def)

lemma parked_holds: "parked_at i d \<Longrightarrow> holds_slot i d"
  unfolding parked_at_def holds_slot_def parked_def reserves_ambiguous_def
  by (auto simp: scheduler_state_in_def TERMINAL_AMBIGUITY_def AMBIGUOUS_AFTER_TERMINAL_def split: option.splits)

lemma tracked_holds [simp]: "holds_slot i (track i sj d)"
  by (simp add: holds_slot_def track_def store_simps)

lemma kill_cases:
  assumes "kills_only env" "spec_of d i = Some s"
  obtains "spec_of (others_write env n d) i = Some s"
  | st where "st \<in> TERMINAL_STATES" "spec_of (others_write env n d) i = Some (s\<lparr>js_state := st\<rparr>)"
proof -
  have "case map_of (qw_disk (dm_queue d)) i of None \<Rightarrow> map_of (qw_disk (se_race env n (dm_queue d))) i = None
     | Some s \<Rightarrow> map_of (qw_disk (se_race env n (dm_queue d))) i = Some s
        \<or> (\<exists>st \<in> TERMINAL_STATES. \<not> is_terminal s \<and> map_of (qw_disk (se_race env n (dm_queue d))) i = Some (s\<lparr>js_state := st\<rparr>))"
    using assms(1) unfolding kills_only_def by blast
  then show ?thesis using assms(2) that by (auto simp: spec_of_def others_write_def)
qed

lemma parked_others: "kills_only env \<Longrightarrow> parked_at i d \<Longrightarrow> parked_at i (others_write env n d)"
  by (auto simp: parked_at_def parked_def scheduler_state_in_def is_terminal_def elim: kill_cases [of env d i _ n])

lemma terminal_others: "kills_only env \<Longrightarrow> terminal_at i d \<Longrightarrow> terminal_at i (others_write env n d)"
  by (auto simp: terminal_at_def is_terminal_def elim: kill_cases [of env d i _ n])

lemma holds_frame [simp]: "holds_slot i (log_row j a b d) = holds_slot i d"
  by (simp add: holds_slot_def)

lemma holds_write: "reserves_ambiguous s \<Longrightarrow> holds_slot i (write_row s i d)"
  by (simp add: holds_slot_def)

text \<open>A submit whose writes succeed, beside which only kills happen, and for which no such evidence appears.\<close>

definition in_flight :: "cluster_env \<Rightarrow> bool" where
  "in_flight ce \<longleftrightarrow> kills_only (ce_start ce) \<and> (\<forall>i. write_ok (ce_start ce) i) \<and> \<not> gives_up ce"

lemma in_flightD:
  assumes "in_flight ce"
  shows "kills_only (ce_start ce)" "commit_row ce s i k d = k (write_row s i d)"
    "\<not> (ce_cancel_ok ce \<and> ce_cancel_finished ce = Some True)" "ce_receipt ce s \<noteq> Some (ReceiptRejected rc)"
    "ce_fence_intent ce s = Inr (Some p) \<Longrightarrow> ce_fence_run ce p = Some (rc, out) \<Longrightarrow> interpret_reply p out \<noteq> Fenced line b"
    "ce_submit ce s \<noteq> SubmitRejected err"
  using assms unfolding in_flight_def gives_up_def commit_row_def by auto

lemma mark_holds:
  assumes "in_flight ce" "parked_at i d"
  shows "holds_slot i (snd (mark_scheduler_submit_outcome_unknown ce i st reason d))"
    and "fst (mark_scheduler_submit_outcome_unknown ce i st reason d) = NotStarted"
  using parked_others [OF in_flightD(1) [OF assms(1)] assms(2), of 30]
  by (auto simp: mark_scheduler_submit_outcome_unknown_def parked_at_def parked_def Let_def in_flightD(2) [OF assms(1)]
      reserves_ambiguous_def stamp_heartbeat_def is_terminal_def scheduler_state_in_def AMBIGUOUS_AFTER_TERMINAL_def
      intro!: holds_write)

lemma mark_parks:
  assumes "in_flight ce" "parked_at i d"
  shows "parked_at i (snd (mark_scheduler_submit_outcome_unknown ce i ''submit_outcome_unknown'' reason d))"
  using parked_others [OF in_flightD(1) [OF assms(1)] assms(2), of 30]
  by (auto simp: mark_scheduler_submit_outcome_unknown_def parked_at_def parked_def Let_def in_flightD(2) [OF assms(1)]
      stamp_heartbeat_def is_terminal_def scheduler_state_in_def TERMINAL_AMBIGUITY_def)

lemma cancel_holds:
  assumes "in_flight ce" "parked_at i d \<or> terminal_at i d"
  shows "holds_slot i (snd (cancel_recovered_terminal_scheduler_submit ce i jid target d))"
proof -
  let ?d = "others_write (ce_start ce) 20 d"
  have "parked_at i ?d \<or> terminal_at i ?d"
    using assms(2) parked_others terminal_others in_flightD(1) [OF assms(1)] by blast
  then obtain s where s: "spec_of ?d i = Some s" "parked s \<or> is_terminal s" by (auto simp: parked_at_def terminal_at_def)
  then have "\<not> is_terminal s \<Longrightarrow> holds_slot i ?d" using parked_holds by (auto simp: parked_at_def)
  then show ?thesis using s in_flightD(3) [OF assms(1)]
    by (auto simp: cancel_recovered_terminal_scheduler_submit_def Let_def in_flightD(2) [OF assms(1)])
qed

lemma bind_holds:
  assumes "in_flight ce" "parked_at i d"
  shows "holds_slot i (snd (bind_recovered ce i jid target d))"
proof -
  let ?d = "others_write (ce_start ce) 34 d"
  have p: "parked_at i ?d" by (rule parked_others [OF in_flightD(1) [OF assms(1)] assms(2)])
  then obtain s where "spec_of ?d i = Some s" by (auto simp: parked_at_def)
  moreover have "holds_slot i (snd (cancel_recovered_terminal_scheduler_submit ce i jid target ?d))"
    by (rule cancel_holds [OF assms(1)]) (use p in simp)
  ultimately show ?thesis
    by (auto simp: bind_recovered_def Let_def in_flightD(2) [OF assms(1)] reserves_ambiguous_def stamp_heartbeat_def intro!: holds_write)
qed

lemma raced_holds:
  assumes "in_flight ce" "parked_at i d"
  shows "holds_slot i (snd (let d = others_write (ce_start ce) 33 d in case spec_of d i of
      None \<Rightarrow> (NotStarted, d)
    | Some r \<Rightarrow> if is_terminal r then cancel_recovered_terminal_scheduler_submit ce i jid target d else (NotStarted, d)))"
  using parked_others [OF in_flightD(1) [OF assms(1)] assms(2), of 33] cancel_holds [OF assms(1)] parked_holds
  by (auto simp: Let_def split: option.splits)

lemma adopt_holds:
  assumes "in_flight ce" "parked_at i d"
  shows "holds_slot i (snd (adopt_acceptance ce i spec jid target d))"
proof (cases "persist_recovered_scheduler_job_id ce i jid d")
  case (Pair r d')
  have "parked_at i (others_write (ce_start ce) 32 d)" by (rule parked_others [OF in_flightD(1) [OF assms(1)] assms(2)])
  then obtain s where s: "spec_of (others_write (ce_start ce) 32 d) i = Some s" "parked s" by (auto simp: parked_at_def)
  have x: "parked_at i d' \<and> r \<noteq> StartRaised"
    using s Pair by (auto simp: persist_recovered_scheduler_job_id_def Let_def in_flightD(2) [OF assms(1)] parked_at_def
        split: option.splits if_splits)
  then show ?thesis unfolding adopt_acceptance_def Pair
    using cancel_holds [OF assms(1), of i d jid target] assms(2) bind_holds [OF assms(1), of i d' jid target]
      raced_holds [OF assms(1), of i d' jid target]
    by (auto simp: unless_raised_def split: start_result.splits)
qed

lemma fence_holds:
  assumes "in_flight ce" "parked_at i d" "apply_scheduler_start_fence ce i spec d = (r, d')"
  shows "holds_slot i d' \<and> (r \<noteq> Started \<longrightarrow> d' = d)"
proof -
  have m: "settled_by (mark_scheduler_submit_outcome_unknown ce i st reason d)
      = (Started, snd (mark_scheduler_submit_outcome_unknown ce i st reason d))" for st reason
    using mark_holds(2) [OF assms(1,2), of st reason]
    by (cases "mark_scheduler_submit_outcome_unknown ce i st reason d") (simp add: settled_by_def unless_raised_def)
  note nf = in_flightD(5) [OF assms(1)]
  show ?thesis using assms(3) mark_holds(1) [OF assms(1,2)] parked_holds [OF assms(2)]
    unfolding apply_scheduler_start_fence_def Let_def m
    by (auto split: sum.splits option.splits fence_outcome.splits if_splits dest: nf)
qed

lemma reconcile_holds:
  assumes "in_flight ce" "parked_at i d"
  shows "holds_slot i (snd (reconcile_unconfirmed_scheduler_submit ce i spec d))"
proof -
  have fence: "holds_slot i (snd (unless_raised (apply_scheduler_start_fence ce i spec d) (\<lambda>r d. if r = Started then (NotStarted, d)
      else mark_scheduler_submit_outcome_unknown ce i st reason d)))" for st reason
    using fence_holds [OF assms, of spec] mark_holds(1) [OF assms]
    by (cases "apply_scheduler_start_fence ce i spec d") (auto simp: unless_raised_def split: start_result.splits)
  show ?thesis unfolding reconcile_unconfirmed_scheduler_submit_def Let_def
    using parked_holds [OF assms(2)] mark_holds(1) [OF assms] cancel_holds [OF assms(1), of i d] assms(2) adopt_holds [OF assms]
      fence in_flightD(4) [OF assms(1)]
    by (auto split: option.splits sum.splits list.splits receipt.splits)
qed

lemma accept_holds:
  assumes "in_flight ce"
  shows "holds_slot i (snd (accept_scheduler ce i target spec jid arr d))"
proof -
  let ?d = "track i (recovered_job spec jid target\<lparr>sj_array_size := arr\<rparr>) d"
  let ?row = "accepted_row ce jid spec (the_or spec (spec_of ?d i))"
  have "holds_slot i (log_row i a b (write_row ?row i ?d))" for a b by (simp add: holds_slot_def track_def store_simps)
  moreover have "holds_slot i (snd (cancel_recovered_terminal_scheduler_submit ce i jid target (write_row ?row i ?d)))"
    if "is_terminal ?row" by (rule cancel_holds [OF assms]) (use that in \<open>simp add: terminal_at_def\<close>)
  ultimately show ?thesis by (simp add: accept_scheduler_def Let_def)
qed

lemma submit_claimed_holds:
  assumes "in_flight ce" "spec_of d i = Some s" "parked s"
  shows "holds_slot i (snd (submit_claimed ce i target s d))"
proof -
  define d1 where "d1 = others_write (ce_start ce) 12 (d\<lparr>dm_submits := (i, js_retry_count s) # dm_submits d\<rparr>)"
  have p: "parked_at i d1" unfolding d1_def
    by (intro parked_others [OF in_flightD(1) [OF assms(1)]]) (use assms(2,3) in \<open>simp add: parked_at_def\<close>)
  have unk: "holds_slot i (snd (unless_raised (mark_scheduler_submit_outcome_unknown ce i ''submit_outcome_unknown'' reason d1)
      (\<lambda>_ d. case spec_of d i of None \<Rightarrow> (NotStarted, d)
        | Some x \<Rightarrow> unless_raised (reconcile_unconfirmed_scheduler_submit ce i x d) (\<lambda>_ d. (NotStarted, d)))))" for reason
  proof (cases "mark_scheduler_submit_outcome_unknown ce i ''submit_outcome_unknown'' reason d1")
    case (Pair r6 d6)
    then have d6: "parked_at i d6" "r6 = NotStarted"
      using mark_parks [OF assms(1) p, of reason] mark_holds(2) [OF assms(1) p, of "''submit_outcome_unknown''" reason] by simp_all
    then obtain q where q: "spec_of d6 i = Some q" by (auto simp: parked_at_def)
    then show ?thesis using Pair d6(2) reconcile_holds [OF assms(1) d6(1), of q]
      by (auto simp: unless_raised_def split: prod.splits start_result.splits)
  qed
  show ?thesis
    using unk accept_holds [OF assms(1)] in_flightD(6) [OF assms(1), of s]
    by (simp add: submit_claimed_def Let_def d1_def [symmetric] split: submit_outcome.splits)
qed

lemma start_holds:
  assumes "in_flight ce" "start_scheduler_job ce target spec d = (r, d')" "dm_submits d' \<noteq> dm_submits d"
  shows "holds_slot (js_id spec) d'"
  using assms(2)
proof (cases rule: start_scheduler_cases)
  case (called latest)
  let ?s = "submitting_row ce (js_id spec) latest"
  have "parked ?s" using called(3) by (simp add: parked_def scheduler_state_in_def TERMINAL_AMBIGUITY_def submitting_row_def)
  then have "holds_slot (js_id spec) (snd (submit_claimed ce (js_id spec) target ?s
      (write_row ?s (js_id spec) (others_write (ce_start ce) 11 (others_write (ce_start ce) 10 d)))))"
    by (intro submit_claimed_holds [OF assms(1)]) simp
  then show ?thesis using called(4) by simp
qed (use assms(3) in simp)

section \<open>Properties\<close>

text \<open>
  C10: no attempt is ever submitted twice. In every run of the daemon, made of starts of local and
  scheduler jobs, resolutions of ambiguous submits, dependency cascades, process reaps and retries,
  arrivals of new jobs and writes of other processes that do not put a job back without a new attempt
  number: the calls of the cluster's submit command are for pairwise different attempts. This includes
  runs in which a submit's outcome was lost, a row vanished or a kill raced the submission.
\<close>

theorem at_most_one_submit_per_attempt:
  assumes "dm_submits d = []" "daemon_step\<^sup>*\<^sup>* d d'"
  shows "distinct (dm_submits d')"
proof -
  have "submitted_once d" using assms(1) by (simp add: submitted_once_def)
  with assms(2) have "submitted_once d'" by induction (auto intro: daemon_step_once)
  then show ?thesis by (simp add: submitted_once_def)
qed

definition sample_cluster :: "(nat \<Rightarrow> queue_world \<Rightarrow> queue_world) \<Rightarrow> submit_outcome \<Rightarrow> cluster_env" where
  "sample_cluster race outcome = \<lparr>ce_start = sample_start_env race, ce_dispatcher_error = (\<lambda>_. None),
     ce_prepare_retry_ok = True, ce_max_wall_time_seconds = None, ce_remote_workspace = (\<lambda>i. ''/scratch/'' @ i),
     ce_submit = (\<lambda>_. outcome), ce_imported = (\<lambda>_. Inr None), ce_receipt = (\<lambda>_. None),
     ce_recorded_job_id = (\<lambda>_. None), ce_fence_intent = (\<lambda>_. Inr None), ce_fence_plan = (\<lambda>_. Inl []),
     ce_fence_run = (\<lambda>_. None), ce_fence_recorded = True, ce_cancel_ok = False, ce_cancel_finished = None\<rparr>"

definition sample_scheduler_spec :: "string \<Rightarrow> job_spec" where
  "sample_scheduler_spec i = sample_spec i\<lparr>js_scheduler_target := Some ''pbs''\<rparr>"

theorem at_most_one_submit_per_attempt_witness:
  "\<exists>d'. daemon_step\<^sup>*\<^sup>* (sample_daemon [sample_scheduler_spec ''j'']) d' \<and> distinct (dm_submits d') \<and> dm_submits d' = [(''j'', 0)]"
proof -
  define ce where "ce = sample_cluster (\<lambda>_. id) (SubmitUnknown ''lost'')"
  define d where "d = sample_daemon [sample_scheduler_spec ''j'']"
  obtain r d1 where s1: "start_job ce [] (sample_scheduler_spec ''j'') d = (r, d1)" by fastforce
  obtain r' d2 where s2: "start_job ce [] (sample_scheduler_spec ''j'') d1 = (r', d2)" by fastforce
  have o: "orderly_env (ce_start ce)"
    by (auto simp: orderly_env_def orderly_def ce_def sample_cluster_def sample_start_env_def)
  have steps: "daemon_step\<^sup>*\<^sup>* d d2"
    using daemon_step.start [OF o s1] daemon_step.start [OF o s2] by (meson converse_rtranclp_into_rtranclp rtranclp.rtrancl_refl)
  have "dm_submits (snd (start_job ce [] (sample_scheduler_spec ''j'') (snd (start_job ce [] (sample_scheduler_spec ''j'') d)))) = [(''j'', 0)]"
    unfolding ce_def d_def by code_simp
  then have "dm_submits d2 = [(''j'', 0)]" by (simp add: s1 s2)
  moreover have "distinct (dm_submits d2)"
    by (rule at_most_one_submit_per_attempt [OF _ steps]) (simp add: d_def sample_daemon_def)
  ultimately show ?thesis using steps unfolding d_def by blast
qed


lemma kill_row_kills: "kills_only (sample_start_env (\<lambda>n. if n = 12 then kill_row j else id))"
  unfolding kills_only_def sample_start_env_def
  by (auto simp: kill_row_def store_simps TERMINAL_STATES_def split: option.splits)


text \<open>
  A kill of a job parked on conflicting evidence gives its slot up although nothing was resolved: the row
  keeps the scheduler state \<open>submit_evidence_conflict\<close>, which the reservations of a pass do not list for
  terminal rows. A kill of a job parked on an unknown outcome keeps it.
\<close>

lemma kill_releases_conflict:
  assumes "js_state s = SUBMIT_OUTCOME_UNKNOWN" "st \<in> TERMINAL_STATES"
  shows "js_scheduler_state s = Some ''submit_evidence_conflict'' \<Longrightarrow> reserves_ambiguous s \<and> \<not> reserves_ambiguous (s\<lparr>js_state := st\<rparr>)"
    "js_scheduler_state s = Some ''submit_outcome_unknown'' \<Longrightarrow> reserves_ambiguous s \<and> reserves_ambiguous (s\<lparr>js_state := st\<rparr>)"
  using assms by (auto simp: reserves_ambiguous_def scheduler_state_in_def AMBIGUOUS_AFTER_TERMINAL_def TERMINAL_STATES_def is_terminal_def)

end
