(* ===== verification/Daemon_Reap.thy ===== *)
theory Daemon_Reap
  imports Daemon_Start
begin

text \<open>
  How the daemon learns that its local processes ended, and how it ends those that outlive a kill:
  \<open>_reconcile_running\<close>, \<open>_reconcile_terminal_survivors\<close> and \<open>_reconcile_orphans\<close> of \<open>daemon.py\<close> with the
  operations they call. A kill writes a terminal label and sends SIGTERM; the daemon then owes the group
  a grace, after which it sends SIGKILL. Until then the job is charged for its resources, in the table of
  children, of orphans, or of survivors whose wrapper was already reaped.

  The operating system and the container engine enter as the answers they give in one pass. \<open>killpg\<close> is the one of
  \<open>watchdog.py\<close>, which answers a group that is gone and one it may not signal alike and raises neither; a group it may
  not signal also counts as not alive, since liveness is asked with the same call. What can raise in a pass is the
  unguarded read of an ended child's row and the write of a spec file, and both end the pass. Notifications, reruns,
  cgroup scopes and the removal of scratch directories follow the locked sections and are not modelled.
\<close>

section \<open>Answers of one pass\<close>

record container_result =
  cr_settled :: bool
  cr_requested_terminal :: "job_state option"
  cr_requested_reason :: "string option"

record reap_env =
  re_queue :: queue_env
  re_clock :: rat
  re_poll :: "string \<Rightarrow> int option" \<comment> \<open>the exit code of a child that ended\<close>
  re_container_poll :: "string \<Rightarrow> job_spec \<Rightarrow> unit + int option" \<comment> \<open>\<open>Inl\<close>: verify, terminate or poll raised\<close>
  re_container_result :: "string \<Rightarrow> job_spec \<Rightarrow> container_result option" \<comment> \<open>\<open>None\<close>: raised\<close>
  re_pgroup_alive :: "int \<Rightarrow> bool"
  re_own_pgrp :: int
  re_exit_marker :: "job_spec \<Rightarrow> int option"

definition KILL_ESCALATION_GRACE_SECONDS :: rat where "KILL_ESCALATION_GRACE_SECONDS = 10"

definition sigkill :: "int \<Rightarrow> daemon \<Rightarrow> daemon" where
  "sigkill pgid d = d\<lparr>dm_sigkilled := pgid # dm_sigkilled d\<rparr>"

section \<open>Children\<close>

text \<open>An entry is a mutable object of its table: the operations return it as they leave it.\<close>

definition escalate_if_killed :: "reap_env \<Rightarrow> string \<Rightarrow> running_job \<Rightarrow> daemon \<Rightarrow> running_job \<times> daemon" where
  "escalate_if_killed env i rj d = (
     if rj_term_sigkilled rj then (rj, d)
     else case spec_of d i of
       None \<Rightarrow> (rj, d)
     | Some spec \<Rightarrow>
         if \<not> is_terminal spec then (rj\<lparr>rj_term_deadline := None\<rparr>, d)
         else case js_pgid spec of
           None \<Rightarrow> (rj, d)
         | Some pgid \<Rightarrow> (case rj_term_deadline rj of
             None \<Rightarrow> (rj\<lparr>rj_term_deadline := Some (re_clock env + KILL_ESCALATION_GRACE_SECONDS)\<rparr>, d)
           | Some deadline \<Rightarrow>
               if re_clock env < deadline then (rj, d)
               else (rj\<lparr>rj_term_sigkilled := True\<rparr>, sigkill pgid d)))"

definition track_terminal_survivor :: "reap_env \<Rightarrow> string \<Rightarrow> job_spec \<Rightarrow> running_job \<Rightarrow> daemon \<Rightarrow> daemon" where
  "track_terminal_survivor env i spec rj d = (
     if rj_term_sigkilled rj then d
     else case js_pgid spec of
       None \<Rightarrow> d
     | Some pgid \<Rightarrow>
         if pgid = re_own_pgrp env \<or> \<not> re_pgroup_alive env pgid then d
         else d\<lparr>dm_survivors := AList.update i
           \<lparr>lj_cpus = lj_cpus rj, lj_mem_mb = lj_mem_mb rj, lj_gpu_devices = lj_gpu_devices rj, ts_pgid = pgid,
            ts_state = js_state spec,
            ts_deadline = the_or (re_clock env + KILL_ESCALATION_GRACE_SECONDS) (rj_term_deadline rj)\<rparr> (dm_survivors d)\<rparr>)"

text \<open>The group of a wrapper that ended without having waited for its command, and whether it was killed.\<close>

definition reap_stranded_group :: "reap_env \<Rightarrow> string \<Rightarrow> job_spec \<Rightarrow> int \<Rightarrow> daemon \<Rightarrow> bool \<times> daemon" where
  "reap_stranded_group env i spec rc d = (
     let paused = (js_state spec = SUSPENDED \<or> js_pause_intent_at spec \<noteq> None) in
     if \<not> paused \<and> (0 \<le> rc \<or> is_terminal spec) then (False, d)
     else case js_pgid spec of
       None \<Rightarrow> (False, d)
     | Some pgid \<Rightarrow> if pgid = re_own_pgrp env \<or> \<not> re_pgroup_alive env pgid then (False, d)
         else (True, log_row i (js_state spec) (js_state spec) (sigkill pgid d)))"

text \<open>\<open>Kept\<close>: the entry stays; \<open>Gone\<close>: it is removed when the pass ends; \<open>Raised\<close>: an exception ends the pass.\<close>

datatype reap_result = Kept | Gone | ReapRaised

definition writable :: "reap_env \<Rightarrow> string \<Rightarrow> bool" where
  "writable env i \<longleftrightarrow> qe_write_ok (re_queue env) i"

text \<open>The label a settled container asks for; \<open>None\<close> when it cannot be written.\<close>

definition requested_row :: "reap_env \<Rightarrow> container_result \<Rightarrow> string \<Rightarrow> job_spec \<Rightarrow> daemon \<Rightarrow> daemon option" where
  "requested_row env cr i spec d = (case cr_requested_terminal cr of
      Some st \<Rightarrow> if is_terminal spec then Some d
        else if \<not> writable env i then None
        else Some (write_row (spec\<lparr>js_state := st, js_failure_reason := cr_requested_reason cr,
               js_finished_at := Some (utcnow_iso (re_queue env))\<rparr>) i d)
    | None \<Rightarrow> Some d)"

text \<open>Whether recording the end of a run writes the row at all.\<close>

definition finish_writes :: "queue_env \<Rightarrow> int \<Rightarrow> job_spec \<Rightarrow> bool" where
  "finish_writes env rc s \<longleftrightarrow> (is_terminal s \<longrightarrow> reaped_spec env rc s \<noteq> s)"

text \<open>The row is ready to be settled (\<open>Inr\<close>), or the operation ends here.\<close>

definition container_ready :: "reap_env \<Rightarrow> string \<Rightarrow> running_job \<Rightarrow> job_spec \<Rightarrow> daemon \<Rightarrow> reap_result + daemon" where
  "container_ready env i rj spec d =
     (if \<not> rj_container rj then Inr d
      else case re_container_result env i spec of
        None \<Rightarrow> Inl Kept
      | Some cr \<Rightarrow> if \<not> cr_settled cr then Inl Kept
          else (case requested_row env cr i spec d of None \<Rightarrow> Inl ReapRaised | Some d1 \<Rightarrow> Inr d1))"

definition record_child_finish :: "reap_env \<Rightarrow> string \<Rightarrow> running_job \<Rightarrow> int \<Rightarrow> daemon \<Rightarrow> reap_result \<times> daemon" where
  "record_child_finish env i rj rc d0 = (case spec_of d0 i of
      None \<Rightarrow> (ReapRaised, d0)
    | Some spec0 \<Rightarrow> (case container_ready env i rj spec0 d0 of
          Inl r \<Rightarrow> (r, d0)
        | Inr d1 \<Rightarrow> (case reap_stranded_group env i (the (spec_of d1 i)) rc d1 of
            (stranded, d2) \<Rightarrow>
              let spec = the (spec_of d2 i) in
              if finish_writes (re_queue env) rc spec \<and> \<not> writable env i then (ReapRaised, d2)
              else let d3 = d2\<lparr>dm_queue := snd (record_finish (re_queue env) i rc (dm_queue d2))\<rparr> in
                (Gone, if is_terminal spec \<and> \<not> stranded then track_terminal_survivor env i spec rj d3 else d3))))"

definition reap_one :: "reap_env \<Rightarrow> string \<Rightarrow> running_job \<Rightarrow> daemon \<Rightarrow> reap_result \<times> running_job \<times> daemon" where
  "reap_one env i rj d = (let finish = (\<lambda>rc. case record_child_finish env i rj rc d of (r, d') \<Rightarrow> (r, rj, d')) in
     if rj_container rj
     then (case spec_of d i of
         None \<Rightarrow> (Kept, rj, d)
       | Some spec \<Rightarrow> (case re_container_poll env i spec of
           Inr (Some rc) \<Rightarrow> finish rc
         | _ \<Rightarrow> (Kept, rj, d)))
     else case re_poll env i of
       None \<Rightarrow> (Kept, escalate_if_killed env i rj d)
     | Some rc \<Rightarrow> finish rc)"

text \<open>
  The pass over the table: whether it went through, the table as it leaves it, and the part of it that stays
  when it does go through. Finished entries are removed only then.
\<close>

fun reap_each :: "reap_env \<Rightarrow> (string \<times> running_job) list \<Rightarrow> daemon
    \<Rightarrow> bool \<times> (string \<times> running_job) list \<times> (string \<times> running_job) list \<times> daemon" where
  "reap_each env [] d = (True, [], [], d)"
| "reap_each env ((i, rj) # js) d = (case reap_one env i rj d of
      (ReapRaised, rj, d) \<Rightarrow> (False, (i, rj) # js, (i, rj) # js, d)
    | (r, rj, d) \<Rightarrow> (case reap_each env js d of
        (ok, table, kept, d) \<Rightarrow> (ok, (i, rj) # table, (if r = Gone then kept else (i, rj) # kept), d)))"

definition reconcile_running :: "reap_env \<Rightarrow> daemon \<Rightarrow> bool \<times> daemon" where
  "reconcile_running env d = (case reap_each env (dm_running d) d of
      (ok, table, kept, d) \<Rightarrow> (ok, d\<lparr>dm_running := if ok then kept else table\<rparr>))"

section \<open>Survivors\<close>

fun reconcile_survivors :: "reap_env \<Rightarrow> (string \<times> terminal_survivor) list \<Rightarrow> daemon
    \<Rightarrow> (string \<times> terminal_survivor) list \<times> daemon" where
  "reconcile_survivors env [] d = ([], d)"
| "reconcile_survivors env ((i, ts) # tss) d = (
     if \<not> re_pgroup_alive env (ts_pgid ts) then reconcile_survivors env tss d
     else if re_clock env < ts_deadline ts
     then (case reconcile_survivors env tss d of (kept, d) \<Rightarrow> ((i, ts) # kept, d))
     else reconcile_survivors env tss (log_row i (ts_state ts) (ts_state ts) (sigkill (ts_pgid ts) d)))"

definition reconcile_terminal_survivors :: "reap_env \<Rightarrow> daemon \<Rightarrow> daemon" where
  "reconcile_terminal_survivors env d = (case reconcile_survivors env (dm_survivors d) d of
      (kept, d) \<Rightarrow> d\<lparr>dm_survivors := kept\<rparr>)"

section \<open>Orphans\<close>

definition escalate_orphan_if_killed :: "reap_env \<Rightarrow> string \<Rightarrow> orphan_job \<Rightarrow> daemon \<Rightarrow> bool \<times> orphan_job \<times> daemon" where
  "escalate_orphan_if_killed env i oj d = (case spec_of d i of
      None \<Rightarrow> (False, oj, d)
    | Some spec \<Rightarrow>
        if \<not> is_terminal spec then (False, oj\<lparr>oj_term_deadline := None\<rparr>, d)
        else if oj_pgid oj = re_own_pgrp env then (False, oj, d)
        else case oj_term_deadline oj of
          None \<Rightarrow> (False, oj\<lparr>oj_term_deadline := Some (re_clock env + KILL_ESCALATION_GRACE_SECONDS)\<rparr>, d)
        | Some deadline \<Rightarrow>
            if re_clock env < deadline then (False, oj, d)
            else (True, oj, log_row i (js_state spec) (js_state spec) (sigkill (oj_pgid oj) d)))"

text \<open>The result is \<open>False\<close> when the write raises.\<close>

definition record_orphan_finish :: "reap_env \<Rightarrow> string \<Rightarrow> int \<Rightarrow> daemon \<Rightarrow> bool \<times> daemon" where
  "record_orphan_finish env i rc d = (case spec_of d i of
      None \<Rightarrow> (True, d)
    | Some s \<Rightarrow>
        if finish_writes (re_queue env) rc s \<and> \<not> writable env i then (False, d)
        else let w = dm_queue d in
        (True, d\<lparr>dm_queue :=
          (if is_terminal s
           then (if reaped_spec (re_queue env) rc s = s then w else write_spec (reaped_spec (re_queue env) rc s) i w)
           else case (if rc = 0 then (False, s, w) else maybe_retry (re_queue env) s rc i None w) of
             (True, s', w') \<Rightarrow> w'
           | (False, s', w') \<Rightarrow> log_transition i (js_state s') (js_state (finished_spec (re_queue env) rc s'))
               (write_spec (finished_spec (re_queue env) rc s') i w'))\<rparr>))"

definition mark_aborted_by_queue :: "reap_env \<Rightarrow> string \<Rightarrow> string \<Rightarrow> daemon \<Rightarrow> bool \<times> daemon" where
  "mark_aborted_by_queue env i reason d = (case spec_of d i of
      None \<Rightarrow> (True, d)
    | Some fresh \<Rightarrow>
        if is_terminal fresh then (True, d)
        else if \<not> writable env i then (False, d)
        else (True, log_row i (js_state fresh) ABORTED_BY_QUEUE (write_row (fresh\<lparr>js_state := ABORTED_BY_QUEUE,
               js_finished_at := Some (utcnow_iso (re_queue env)), js_failure_reason := Some reason\<rparr>) i d)))"

text \<open>
  First every group is looked at, then those that are gone are settled, one by one: \<open>True\<close> marks an orphan that is
  gone. A settled orphan leaves the table at once, so an exception keeps the ones after it.
\<close>

fun orphans_gone :: "reap_env \<Rightarrow> (string \<times> orphan_job) list \<Rightarrow> daemon \<Rightarrow> (bool \<times> string \<times> orphan_job) list \<times> daemon" where
  "orphans_gone env [] d = ([], d)"
| "orphans_gone env ((i, oj) # os) d = (
     case (if \<not> re_pgroup_alive env (oj_pgid oj) then (True, oj, d) else escalate_orphan_if_killed env i oj d) of
       (b, oj, d) \<Rightarrow> (case orphans_gone env os d of (t, d) \<Rightarrow> ((b, i, oj) # t, d)))"

definition settle_orphan :: "reap_env \<Rightarrow> string \<Rightarrow> daemon \<Rightarrow> bool \<times> daemon" where
  "settle_orphan env i d = (case spec_of d i of
      None \<Rightarrow> (True, d)
    | Some spec \<Rightarrow> (case re_exit_marker env spec of
        Some rc \<Rightarrow> record_orphan_finish env i rc d
      | None \<Rightarrow> if is_terminal spec then (True, d)
          else mark_aborted_by_queue env i ''orphan process exited (no exit-code marker)'' d))"

fun settle_orphans :: "reap_env \<Rightarrow> (bool \<times> string \<times> orphan_job) list \<Rightarrow> daemon \<Rightarrow> bool \<times> (string \<times> orphan_job) list \<times> daemon" where
  "settle_orphans env [] d = (True, [], d)"
| "settle_orphans env ((gone, i, oj) # t) d = (
     if \<not> gone then (case settle_orphans env t d of (ok, left, d) \<Rightarrow> (ok, (i, oj) # left, d))
     else case settle_orphan env i d of
       (False, d) \<Rightarrow> (False, (i, oj) # map snd t, d)
     | (True, d) \<Rightarrow> settle_orphans env t d)"

definition reconcile_orphans :: "reap_env \<Rightarrow> daemon \<Rightarrow> bool \<times> daemon" where
  "reconcile_orphans env d = (case orphans_gone env (dm_orphans d) d of
      (t, d) \<Rightarrow> (case settle_orphans env t d of (ok, left, d) \<Rightarrow> (ok, d\<lparr>dm_orphans := left\<rparr>)))"

section \<open>One pass over all of them\<close>

text \<open>An exception ends the pass.\<close>

definition reap_tick :: "reap_env \<Rightarrow> daemon \<Rightarrow> bool \<times> daemon" where
  "reap_tick env d = (case reconcile_running env d of
      (False, d) \<Rightarrow> (False, d)
    | (True, d) \<Rightarrow> reconcile_orphans env (reconcile_terminal_survivors env d))"

section \<open>What the tables charge\<close>

definition footprint :: "'a local_job_scheme \<Rightarrow> local_job" where
  "footprint x = \<lparr>lj_cpus = lj_cpus x, lj_mem_mb = lj_mem_mb x, lj_gpu_devices = lj_gpu_devices x\<rparr>"

definition local_table :: "daemon \<Rightarrow> local_job list" where
  "local_table d = map (\<lambda>(i, x). footprint x) (dm_running d) @ map (\<lambda>(i, x). footprint x) (dm_orphans d)
     @ map (\<lambda>(i, x). footprint x) (dm_survivors d)"

lemma footprint_simps [simp]:
  "footprint (rj\<lparr>rj_term_deadline := a\<rparr>) = footprint rj" "footprint (rj\<lparr>rj_term_sigkilled := b\<rparr>) = footprint rj"
  "footprint (oj\<lparr>oj_term_deadline := c\<rparr>) = footprint oj"
  "footprint (new_running b gpus s) = \<lparr>lj_cpus = js_cpus s, lj_mem_mb = js_mem_mb s, lj_gpu_devices = gpus\<rparr>"
  by (simp_all add: footprint_def new_running_def)

lemma mset_update:
  "mset (map (\<lambda>(i, x). f x) (AList.update k v xs)) \<subseteq># add_mset (f v) (mset (map (\<lambda>(i, x). f x) xs))"
proof (induction xs)
  case (Cons y xs)
  then show ?case by (cases y) (auto simp: add_mset_commute [of "f v"] intro: subset_mset.order_trans)
qed simp

text \<open>What a step on one job leaves alone.\<close>

definition only_row :: "string \<Rightarrow> daemon \<Rightarrow> daemon \<Rightarrow> bool" where
  "only_row i d d' \<longleftrightarrow> (\<forall>j. j \<noteq> i \<longrightarrow> spec_of d' j = spec_of d j
        \<and> (\<forall>x. (j, x) \<in> set (dm_survivors d') \<longleftrightarrow> (j, x) \<in> set (dm_survivors d)))
     \<and> dm_running d' = dm_running d \<and> dm_orphans d' = dm_orphans d \<and> dm_view d' = dm_view d
     \<and> dm_scheduler_running d' = dm_scheduler_running d \<and> set (dm_sigkilled d) \<subseteq> set (dm_sigkilled d')"

lemma only_row_refl [simp]: "only_row i d d" by (simp add: only_row_def)

lemma only_row_trans: "only_row i d d' \<Longrightarrow> only_row i d' d'' \<Longrightarrow> only_row i d d''"
  by (auto simp: only_row_def)

lemma only_row_steps [simp]:
  "only_row i d (sigkill p d)" "only_row i d (log_row j a b d)" "only_row i d (write_row s i d)"
  by (auto simp: only_row_def sigkill_def write_row_def log_row_def spec_of_def store_simps)

lemma sigkill_sel [simp]:
  "spec_of (sigkill p d) = spec_of d" "dm_survivors (sigkill p d) = dm_survivors d" "dm_sigkilled (sigkill p d) = p # dm_sigkilled d"
  "dm_survivors (log_row j a b d) = dm_survivors d" "dm_survivors (write_row s j d) = dm_survivors d"
  by (simp_all add: sigkill_def log_row_def write_row_def)

text \<open>The row of a killed job, with the group it was started as.\<close>

definition killed_row :: "string \<Rightarrow> int \<Rightarrow> daemon \<Rightarrow> bool" where
  "killed_row i pgid d \<longleftrightarrow> (\<exists>s. spec_of d i = Some s \<and> is_terminal s \<and> js_pgid s = Some pgid)"

lemma reaped_sel [simp]: "js_pgid (reaped_spec env rc s) = js_pgid s" "js_state (reaped_spec env rc s) = js_state s"
  by (simp_all add: reaped_spec_def Let_def)

lemma finish_rows: "j \<noteq> i \<Longrightarrow> map_of (qw_disk (snd (record_finish env i rc w))) j = map_of (qw_disk w) j"
  by (auto simp: record_finish_def maybe_retry_def Let_def store_simps split: option.split if_splits)

lemma finish_killed:
  assumes "map_of (qw_disk w) i = Some s" "is_terminal s"
  shows "\<exists>s'. map_of (qw_disk (snd (record_finish env i rc w))) i = Some s' \<and> is_terminal s' \<and> js_pgid s' = js_pgid s"
  using assms by (auto simp: record_finish_def is_terminal_def store_simps)

lemma only_row_finish: "only_row i d (d\<lparr>dm_queue := snd (record_finish env i rc (dm_queue d))\<rparr>)"
  by (simp add: only_row_def spec_of_def finish_rows)

lemma set_update_other: "j \<noteq> i \<Longrightarrow> (j, x) \<in> set (AList.update i v xs) \<longleftrightarrow> (j, x) \<in> set xs"
  by (induction xs) auto

lemma set_update_same: "(i, v) \<in> set (AList.update i v xs)" "(i, x) \<in> set (AList.update i v xs) \<Longrightarrow> x = v \<or> (i, x) \<in> set xs"
  by (induction xs) (auto split: if_splits)

lemma only_row_track: "only_row i d (track_terminal_survivor env i s rj d)"
  by (auto simp: track_terminal_survivor_def only_row_def spec_of_def set_update_other split: option.split)

lemma escalate_effect:
  assumes "escalate_if_killed env i rj d = (rj', d')"
  shows "only_row i d d'" "footprint rj' = footprint rj" "spec_of d' = spec_of d" "dm_survivors d' = dm_survivors d"
    "rj_container rj' = rj_container rj"
  using assms by (auto simp: escalate_if_killed_def split: if_splits option.splits)

lemma stranded_effect:
  assumes "reap_stranded_group env i s rc d = (b, d')"
  shows "only_row i d d'" "spec_of d' = spec_of d" "dm_survivors d' = dm_survivors d"
    "b \<Longrightarrow> \<exists>pgid. js_pgid s = Some pgid \<and> dm_sigkilled d' = pgid # dm_sigkilled d"
    "\<not> b \<Longrightarrow> d' = d" "\<not> b \<Longrightarrow> js_pgid s = Some pgid \<Longrightarrow> pgid \<noteq> re_own_pgrp env \<Longrightarrow> re_pgroup_alive env pgid \<Longrightarrow>
      (0 \<le> rc \<or> is_terminal s) \<and> js_state s \<noteq> SUSPENDED \<and> js_pause_intent_at s = None"
  using assms only_row_trans [OF only_row_steps(1,2)]
  by (auto simp: reap_stranded_group_def Let_def split: if_splits option.splits)

lemma survivor_effect:
  obtains (same) "dm_survivors (track_terminal_survivor env i s rj d) = dm_survivors d"
     "rj_term_sigkilled rj \<or> js_pgid s = None \<or> (\<exists>p. js_pgid s = Some p \<and> (p = re_own_pgrp env \<or> \<not> re_pgroup_alive env p))"
  | (kept) ts where "dm_survivors (track_terminal_survivor env i s rj d) = AList.update i ts (dm_survivors d)"
     "footprint ts = footprint rj" "js_pgid s = Some (ts_pgid ts)"
     "ts_state ts = js_state s" "ts_deadline ts = the_or (re_clock env + KILL_ESCALATION_GRACE_SECONDS) (rj_term_deadline rj)"
proof (cases "\<exists>p. js_pgid s = Some p \<and> p \<noteq> re_own_pgrp env \<and> re_pgroup_alive env p \<and> \<not> rj_term_sigkilled rj")
  case True
  then obtain p where p: "js_pgid s = Some p" "p \<noteq> re_own_pgrp env" "re_pgroup_alive env p" "\<not> rj_term_sigkilled rj" by blast
  show ?thesis by (rule kept [of "\<lparr>lj_cpus = lj_cpus rj, lj_mem_mb = lj_mem_mb rj, lj_gpu_devices = lj_gpu_devices rj,
      ts_pgid = p, ts_state = js_state s, ts_deadline = the_or (re_clock env + KILL_ESCALATION_GRACE_SECONDS) (rj_term_deadline rj)\<rparr>"])
      (use p in \<open>simp_all add: track_terminal_survivor_def footprint_def\<close>)
next
  case False
  show ?thesis by (rule same) (use False in \<open>cases "js_pgid s"; auto simp: track_terminal_survivor_def\<close>)+
qed

lemma track_sel [simp]:
  "spec_of (track_terminal_survivor env i s rj d) = spec_of d" "dm_sigkilled (track_terminal_survivor env i s rj d) = dm_sigkilled d"
  by (auto simp: track_terminal_survivor_def spec_of_def split: option.split)

text \<open>
  Why a child whose wrapper ended may be released: its group cannot be alive and unkilled, unless the wrapper
  ended by itself, which it does only after it has waited for the command.
\<close>

definition waited :: "int \<Rightarrow> job_spec \<Rightarrow> bool" where
  "waited rc s \<longleftrightarrow> 0 \<le> rc \<and> \<not> is_terminal s \<and> js_state s \<noteq> SUSPENDED \<and> js_pause_intent_at s = None"

definition group_over :: "reap_env \<Rightarrow> running_job \<Rightarrow> int \<Rightarrow> job_spec \<Rightarrow> int set \<Rightarrow> bool" where
  "group_over env rj rc s killed \<longleftrightarrow> (\<forall>p. js_pgid s = Some p \<longrightarrow> p = re_own_pgrp env \<or> \<not> re_pgroup_alive env p
     \<or> rj_term_sigkilled rj \<or> p \<in> killed \<or> waited rc s)"

definition survives_as :: "reap_env \<Rightarrow> running_job \<Rightarrow> job_spec \<Rightarrow> terminal_survivor \<Rightarrow> bool" where
  "survives_as env rj s ts \<longleftrightarrow> is_terminal s \<and> footprint ts = footprint rj \<and> js_pgid s = Some (ts_pgid ts)
     \<and> ts_state ts = js_state s
     \<and> ts_deadline ts = the_or (re_clock env + KILL_ESCALATION_GRACE_SECONDS) (rj_term_deadline rj)"

text \<open>A group left behind by a wrapper that did not wait: it was stopped, or a signal ended the wrapper.\<close>

definition stranded :: "reap_env \<Rightarrow> int \<Rightarrow> job_spec \<Rightarrow> int \<Rightarrow> bool" where
  "stranded env rc s p \<longleftrightarrow> js_pgid s = Some p \<and> p \<noteq> re_own_pgrp env \<and> re_pgroup_alive env p
     \<and> (js_state s = SUSPENDED \<or> js_pause_intent_at s \<noteq> None \<or> rc < 0 \<and> \<not> is_terminal s)"

text \<open>The row as the lock sees it: a container may ask for a terminal label first.\<close>

definition row_at_lock :: "running_job \<Rightarrow> job_spec \<Rightarrow> job_spec \<Rightarrow> bool" where
  "row_at_lock rj s0 s \<longleftrightarrow> js_pgid s = js_pgid s0 \<and> (\<not> rj_container rj \<or> is_terminal s0 \<longrightarrow> s = s0)"

lemma stranded_kills:
  assumes "reap_stranded_group env i s rc d = (b, d')" "p \<in> set (dm_sigkilled d')"
  shows "p \<in> set (dm_sigkilled d) \<or> stranded env rc s p"
  using assms by (auto simp: reap_stranded_group_def stranded_def Let_def split: if_splits option.splits)

lemma group_over_mono: "group_over env rj rc s K \<Longrightarrow> K \<subseteq> K' \<Longrightarrow> group_over env rj rc s K'"
  by (auto simp: group_over_def)

lemma settle_child:
  fixes rj :: running_job and p :: int
  assumes "reap_stranded_group env i s rc d1 = (b, d2)" "spec_of d1 i = Some s"
  defines "d3 \<equiv> d2\<lparr>dm_queue := snd (record_finish (re_queue env) i rc (dm_queue d2))\<rparr>"
  defines "d' \<equiv> (if is_terminal s \<and> \<not> b then track_terminal_survivor env i s rj d3 else d3)"
  shows "only_row i d1 d' \<and> (\<forall>q \<in> set (dm_sigkilled d'). q \<in> set (dm_sigkilled d1) \<or> stranded env rc s q) \<and> (is_terminal s \<longrightarrow> js_pgid s = Some p \<longrightarrow> killed_row i p d')
    \<and> ((\<exists>ts. dm_survivors d' = AList.update i ts (dm_survivors d1) \<and> survives_as env rj s ts)
       \<or> dm_survivors d' = dm_survivors d1 \<and> group_over env rj rc s (set (dm_sigkilled d')))"
proof (intro conjI impI ballI)
  note st = stranded_effect [OF assms(1)]
  have d3: "only_row i d1 d3" unfolding d3_def by (rule only_row_trans [OF st(1) only_row_finish])
  show "only_row i d1 d'" unfolding d'_def using d3 only_row_trans [OF d3 only_row_track] by simp
  have s3: "dm_survivors d3 = dm_survivors d1" "dm_sigkilled d3 = dm_sigkilled d2" by (simp_all add: d3_def st(3))
  have s2: "spec_of d2 i = Some s" using assms(2) st(2) by simp
  have sk: "dm_sigkilled d' = dm_sigkilled d2" by (simp add: d'_def s3)
  show "q \<in> set (dm_sigkilled d1) \<or> stranded env rc s q" if "q \<in> set (dm_sigkilled d')" for q
    using stranded_kills [OF assms(1)] that sk by simp
  have k: "\<exists>s'. spec_of d3 i = Some s' \<and> is_terminal s' \<and> js_pgid s' = js_pgid s" if "is_terminal s"
    using finish_killed [of "dm_queue d2" i s "re_queue env" rc] that s2 by (simp add: d3_def spec_of_def)
  show "killed_row i p d'" if "is_terminal s" "js_pgid s = Some p"
    using k [OF that(1)] that(2) by (auto simp: killed_row_def d'_def)
  show "(\<exists>ts. dm_survivors d' = AList.update i ts (dm_survivors d1) \<and> survives_as env rj s ts)
       \<or> dm_survivors d' = dm_survivors d1 \<and> group_over env rj rc s (set (dm_sigkilled d'))"
  proof (cases "is_terminal s \<and> \<not> b")
    case True
    then have d': "d' = track_terminal_survivor env i s rj d3" by (simp add: d'_def)
    show ?thesis
    proof (cases rule: survivor_effect [of env i s rj d3])
      case same
      then show ?thesis by (auto simp: d' s3 group_over_def)
    next
      case (kept ts)
      then show ?thesis using True by (auto simp: d' s3 survives_as_def)
    qed
  next
    case False
    then have d': "d' = d3" by (auto simp: d'_def)
    have "group_over env rj rc s (set (dm_sigkilled d2))"
    proof (cases b)
      case True
      then show ?thesis using st(4) by (auto simp: group_over_def)
    next
      case not_b: False
      then show ?thesis using False st(6) by (auto simp: group_over_def waited_def)
    qed
    then show ?thesis using d' s3 by simp
  qed
qed

lemma container_ready_Inl:
  "container_ready env i rj s0 d = Inl r \<Longrightarrow> rj_container rj \<and> (r = Kept \<or> r = ReapRaised \<and> \<not> writable env i)"
  by (auto simp: container_ready_def requested_row_def split: if_splits option.splits)

lemma container_ready_Inr:
  assumes "container_ready env i rj s0 d = Inr d1" "spec_of d i = Some s0"
  shows "\<exists>s. spec_of d1 i = Some s \<and> only_row i d d1 \<and> row_at_lock rj s0 s
    \<and> dm_survivors d1 = dm_survivors d \<and> dm_sigkilled d1 = dm_sigkilled d"
proof (cases "d1 = d")
  case True
  with assms(2) show ?thesis by (simp add: row_at_lock_def)
next
  case False
  then obtain st why fin where "d1 = write_row (s0\<lparr>js_state := st, js_failure_reason := why, js_finished_at := fin\<rparr>) i d"
    "rj_container rj" "\<not> is_terminal s0"
    using assms(1) by (auto simp: container_ready_def requested_row_def split: if_splits option.splits)
  then show ?thesis by (auto simp: row_at_lock_def)
qed

lemma child_finish_cases:
  assumes "record_child_finish env i rj rc d = (r, d')"
  obtains (raised) "r = ReapRaised" "only_row i d d'" "dm_survivors d' = dm_survivors d"
     "\<And>p. p \<in> set (dm_sigkilled d') \<Longrightarrow> p \<in> set (dm_sigkilled d)
        \<or> (\<exists>s0 s. spec_of d i = Some s0 \<and> row_at_lock rj s0 s \<and> stranded env rc s p)"
     "spec_of d i = None \<or> \<not> writable env i" "\<And>p. killed_row i p d \<Longrightarrow> killed_row i p d'"
  | (kept) "r = Kept" "d' = d" "rj_container rj"
  | (gone) s0 s where "r = Gone" "spec_of d i = Some s0" "row_at_lock rj s0 s"
     "only_row i d d'" "\<And>p. p \<in> set (dm_sigkilled d') \<Longrightarrow> p \<in> set (dm_sigkilled d) \<or> stranded env rc s p"
     "\<And>p. is_terminal s \<Longrightarrow> js_pgid s = Some p \<Longrightarrow> killed_row i p d'"
     "(\<exists>ts. dm_survivors d' = AList.update i ts (dm_survivors d) \<and> survives_as env rj s ts)
       \<or> dm_survivors d' = dm_survivors d \<and> group_over env rj rc s (set (dm_sigkilled d'))"
proof (cases "spec_of d i")
  case None
  then show ?thesis using assms raised by (simp add: record_child_finish_def)
next
  case s0: (Some s0)
  show ?thesis
  proof (cases "container_ready env i rj s0 d")
    case (Inl r')
    then have "r' = r" "d' = d" using assms s0 by (simp_all add: record_child_finish_def)
    then show ?thesis using container_ready_Inl [OF Inl] raised kept by auto
  next
    case (Inr d1)
    from container_ready_Inr [OF Inr s0] obtain s where s: "spec_of d1 i = Some s" "only_row i d d1" "row_at_lock rj s0 s"
      "dm_survivors d1 = dm_survivors d" "dm_sigkilled d1 = dm_sigkilled d" by blast
    obtain b d2 where b: "reap_stranded_group env i s rc d1 = (b, d2)" by fastforce
    note st = stranded_effect [OF b]
    have s2: "spec_of d2 i = Some s" using st(2) s(1) by simp
    show ?thesis
    proof (cases "finish_writes (re_queue env) rc s \<and> \<not> writable env i")
      case True
      then have r: "r = ReapRaised" "d' = d2" using assms s0 Inr s(1) b s2 by (simp_all add: record_child_finish_def)
      show ?thesis
      proof (rule raised)
        show "only_row i d d'" using only_row_trans [OF s(2) st(1)] r(2) by simp
        show "p \<in> set (dm_sigkilled d) \<or> (\<exists>s0 s. spec_of d i = Some s0 \<and> row_at_lock rj s0 s \<and> stranded env rc s p)"
          if "p \<in> set (dm_sigkilled d')" for p using stranded_kills [OF b, of p] that r(2) s(3,5) s0 by auto
        show "killed_row i p d'" if "killed_row i p d" for p
          using that s0 s(3) s2 r(2) by (auto simp: killed_row_def row_at_lock_def)
      qed (use r st(3) s(4) True in simp_all)
    next
      case False
      then have r: "r = Gone" "d' = (if is_terminal s \<and> \<not> b then track_terminal_survivor env i s rj
          (d2\<lparr>dm_queue := snd (record_finish (re_queue env) i rc (dm_queue d2))\<rparr>)
          else d2\<lparr>dm_queue := snd (record_finish (re_queue env) i rc (dm_queue d2))\<rparr>)"
        using assms s0 Inr s(1) b s2 by (auto simp: record_child_finish_def Let_def)
      note e = settle_child [OF b s(1), of rj, folded r(2)]
      show ?thesis
      proof (rule gone)
        show "only_row i d d'" using e only_row_trans [OF s(2)] by blast
        show "killed_row i p d'" if "is_terminal s" "js_pgid s = Some p" for p using e that by blast
        show "p \<in> set (dm_sigkilled d) \<or> stranded env rc s p" if "p \<in> set (dm_sigkilled d')" for p using e that s(5) by simp
        show "(\<exists>ts. dm_survivors d' = AList.update i ts (dm_survivors d) \<and> survives_as env rj s ts)
          \<or> dm_survivors d' = dm_survivors d \<and> group_over env rj rc s (set (dm_sigkilled d'))" using e s(4) by simp
      qed (use r s s0 in auto)
    qed
  qed
qed

section \<open>A pass over the children\<close>

definition child_exit :: "reap_env \<Rightarrow> string \<Rightarrow> running_job \<Rightarrow> job_spec \<Rightarrow> int option" where
  "child_exit env i rj s = (if rj_container rj then (case re_container_poll env i s of Inr x \<Rightarrow> x | Inl _ \<Rightarrow> None)
     else re_poll env i)"

lemma reap_one_cases:
  assumes "reap_one env i rj d = (r, rj', d')"
  obtains (raised) rc where "r = ReapRaised" "rj' = rj" "only_row i d d'" "dm_survivors d' = dm_survivors d"
     "\<And>p. p \<in> set (dm_sigkilled d') \<Longrightarrow> p \<in> set (dm_sigkilled d)
        \<or> (\<exists>s0 s. spec_of d i = Some s0 \<and> row_at_lock rj s0 s \<and> child_exit env i rj s0 = Some rc \<and> stranded env rc s p)"
     "spec_of d i = None \<and> re_poll env i \<noteq> None \<and> \<not> rj_container rj \<or> \<not> writable env i"
     "\<And>p. killed_row i p d \<Longrightarrow> killed_row i p d'"
  | (kept) "r = Kept" "footprint rj' = footprint rj" "only_row i d d'" "spec_of d' = spec_of d" "dm_survivors d' = dm_survivors d"
     "rj_container rj' = rj_container rj" "rj_container rj \<and> rj' = rj \<and> d' = d
        \<or> \<not> rj_container rj \<and> re_poll env i = None \<and> escalate_if_killed env i rj d = (rj', d')"
  | (gone) s0 s rc where "r = Gone" "rj' = rj" "spec_of d i = Some s0" "row_at_lock rj s0 s" "child_exit env i rj s0 = Some rc"
     "only_row i d d'" "\<And>p. p \<in> set (dm_sigkilled d') \<Longrightarrow> p \<in> set (dm_sigkilled d) \<or> stranded env rc s p"
     "\<And>p. is_terminal s \<Longrightarrow> js_pgid s = Some p \<Longrightarrow> killed_row i p d'"
     "(\<exists>ts. dm_survivors d' = AList.update i ts (dm_survivors d) \<and> survives_as env rj s ts)
       \<or> dm_survivors d' = dm_survivors d \<and> group_over env rj rc s (set (dm_sigkilled d'))"
proof -
  consider (escalate) "\<not> rj_container rj" "re_poll env i = None" "r = Kept" "escalate_if_killed env i rj d = (rj', d')"
    | (quiet) "rj_container rj" "r = Kept" "rj' = rj" "d' = d"
    | (finish) rc where "record_child_finish env i rj rc d = (r, d')" "rj' = rj"
        "\<And>s. spec_of d i = Some s \<Longrightarrow> child_exit env i rj s = Some rc"
        "spec_of d i = None \<Longrightarrow> re_poll env i \<noteq> None \<and> \<not> rj_container rj"
  proof (cases "rj_container rj")
    case True
    show ?thesis
    proof (cases "\<exists>s rc. spec_of d i = Some s \<and> re_container_poll env i s = Inr (Some rc)")
      case ended: True
      then obtain s rc where "spec_of d i = Some s" "re_container_poll env i s = Inr (Some rc)" by blast
      then show ?thesis using assms True by (intro finish) (auto simp: reap_one_def child_exit_def split: prod.splits)
    next
      case False
      then show ?thesis using assms True by (intro quiet) (auto simp: reap_one_def split: option.splits sum.splits)
    qed
  next
    case False
    show ?thesis
    proof (cases "re_poll env i")
      case None
      then show ?thesis using assms False by (intro escalate) (auto simp: reap_one_def)
    next
      case (Some rc)
      then show ?thesis using assms False by (intro finish) (auto simp: reap_one_def child_exit_def split: prod.splits)
    qed
  qed
  then show ?thesis
  proof cases
    case escalate
    show ?thesis by (rule kept) (use escalate escalate_effect [OF escalate(4)] in simp_all)
  next
    case quiet
    then show ?thesis by (intro kept) simp_all
  next
    case (finish rc)
    from finish(1) show ?thesis
    proof (cases rule: child_finish_cases)
      case raised
      show ?thesis
      proof (rule that(1) [of rc])
        show "p \<in> set (dm_sigkilled d) \<or> (\<exists>s0 s. spec_of d i = Some s0 \<and> row_at_lock rj s0 s
            \<and> child_exit env i rj s0 = Some rc \<and> stranded env rc s p)" if "p \<in> set (dm_sigkilled d')" for p
          using raised(4) [OF that] finish(3) by blast
      qed (use raised finish(2,4) in auto)
    next
      case kept
      then show ?thesis using finish by (intro that(2)) simp_all
    next
      case (gone s0 s)
      show ?thesis by (rule that(3) [of s0 s rc]) (use gone finish(2,3) in simp_all)
    qed
  qed
qed

lemma reap_one_only: "reap_one env i rj d = (r, rj', d') \<Longrightarrow> only_row i d d'"
  by (erule reap_one_cases) simp_all

lemma reap_one_footprint: "reap_one env i rj d = (r, rj', d') \<Longrightarrow> footprint rj' = footprint rj"
  by (erule reap_one_cases) simp_all

text \<open>What the pass leaves alone.\<close>

definition only_rows :: "string set \<Rightarrow> daemon \<Rightarrow> daemon \<Rightarrow> bool" where
  "only_rows I d d' \<longleftrightarrow> (\<forall>j. j \<notin> I \<longrightarrow> spec_of d' j = spec_of d j
        \<and> (\<forall>x. (j, x) \<in> set (dm_survivors d') \<longleftrightarrow> (j, x) \<in> set (dm_survivors d)))
     \<and> dm_running d' = dm_running d \<and> dm_orphans d' = dm_orphans d \<and> dm_view d' = dm_view d
     \<and> dm_scheduler_running d' = dm_scheduler_running d \<and> set (dm_sigkilled d) \<subseteq> set (dm_sigkilled d')"

lemma only_rows_refl [simp]: "only_rows I d d" by (simp add: only_rows_def)

lemma only_rows_step: "only_row i d d1 \<Longrightarrow> only_rows I d1 d2 \<Longrightarrow> only_rows (insert i I) d d2"
  by (auto simp: only_rows_def only_row_def)

lemma reap_each_Cons:
  assumes "reap_each env ((i, rj) # js) d = (ok, table, kept, d')"
  obtains (raised) rj' where "reap_one env i rj d = (ReapRaised, rj', d')" "\<not> ok" "table = (i, rj') # js"
  | (visited) r rj' d1 t k where "reap_one env i rj d = (r, rj', d1)" "r \<noteq> ReapRaised" "reap_each env js d1 = (ok, t, k, d')"
     "table = (i, rj') # t" "kept = (if r = Gone then k else (i, rj') # k)"
  using assms that
  by (cases "reap_one env i rj d"; cases "fst (reap_one env i rj d)"; auto split: prod.splits)

lemma reap_each_frame:
  "reap_each env js d = (ok, table, kept, d') \<Longrightarrow> only_rows (fst ` set js) d d' \<and> map fst table = map fst js
     \<and> map (\<lambda>(i, x). footprint x) table = map (\<lambda>(i, x). footprint x) js \<and> (ok \<longrightarrow> set kept \<subseteq> set table)"
proof (induction js arbitrary: d ok table kept d')
  case (Cons x js)
  obtain i rj where x: "x = (i, rj)" by (cases x)
  from Cons.prems [unfolded x] show ?case
  proof (cases rule: reap_each_Cons)
    case (raised rj')
    then show ?thesis
      using reap_one_footprint [OF raised(1)] only_rows_step [OF reap_one_only [OF raised(1)] only_rows_refl] by (simp add: x)
  next
    case (visited r rj' d1 t k)
    show ?thesis using Cons.IH [OF visited(3)] visited(4,5) reap_one_footprint [OF visited(1)]
        only_rows_step [OF reap_one_only [OF visited(1)]] by (auto simp: x)
  qed
qed simp

text \<open>
  A pass looks at every entry once, unless an exception ends it first; then the entry and all that belongs to it are as
  they were.
\<close>

lemma reap_each_look:
  assumes "reap_each env js d = (ok, table, kept, d')" "distinct (map fst js)" "(i, rj) \<in> set js"
  shows "\<not> ok \<and> spec_of d' i = spec_of d i \<and> (\<forall>x. (i, x) \<in> set (dm_survivors d') \<longleftrightarrow> (i, x) \<in> set (dm_survivors d))
      \<and> (\<forall>x. (i, x) \<in> set table \<longleftrightarrow> x = rj)
    \<or> (\<exists>d1 r rj' d2. reap_one env i rj d1 = (r, rj', d2) \<and> (ok \<longrightarrow> r \<noteq> ReapRaised) \<and> spec_of d1 i = spec_of d i
    \<and> (\<forall>x. (i, x) \<in> set (dm_survivors d1) \<longleftrightarrow> (i, x) \<in> set (dm_survivors d)) \<and> set (dm_sigkilled d) \<subseteq> set (dm_sigkilled d1)
    \<and> spec_of d' i = spec_of d2 i \<and> (\<forall>x. (i, x) \<in> set (dm_survivors d') \<longleftrightarrow> (i, x) \<in> set (dm_survivors d2))
    \<and> set (dm_sigkilled d2) \<subseteq> set (dm_sigkilled d') \<and> (\<forall>x. (i, x) \<in> set table \<longleftrightarrow> x = rj')
    \<and> (ok \<longrightarrow> (\<forall>x. (i, x) \<in> set kept \<longleftrightarrow> x = rj' \<and> r = Kept)))"
  using assms
proof (induction js arbitrary: d table kept)
  case (Cons y js)
  obtain j rk where y: "y = (j, rk)" by (cases y)
  have n: "j \<notin> fst ` set js" "distinct (map fst js)" using Cons.prems(2) by (auto simp: y)
  have uniq: "x = rj" if "(i, x) \<in> set js" "(i, rj) \<in> set js" for x using that n(2) by (auto dest: eq_key_imp_eq_value)
  from Cons.prems(1) [unfolded y] show ?case
  proof (cases rule: reap_each_Cons)
    case (raised rj')
    show ?thesis
    proof (cases "i = j")
      case True
      then have rk: "rk = rj" using Cons.prems(3) n(1) by (force simp: y)
      have t: "(i, x) \<in> set table \<longleftrightarrow> x = rj'" for x using raised(3) n(1) by (force simp: True)
      show ?thesis by (rule disjI2, intro exI [of _ d] exI [of _ ReapRaised] exI [of _ rj'] exI [of _ d'])
          (use raised(1,2) t in \<open>simp add: True rk\<close>)
    next
      case False
      then have js: "(i, rj) \<in> set js" using Cons.prems(3) by (simp add: y)
      have "(i, x) \<in> set table \<longleftrightarrow> x = rj" for x using raised(3) False uniq [of x] js by auto
      then show ?thesis using reap_one_only [OF raised(1)] raised(2) False by (simp add: only_row_def)
    qed
  next
    case (visited r rj' d1 t k)
    note o = reap_one_only [OF visited(1)] and f = reap_each_frame [OF visited(3)]
    have "fst ` set t = fst ` set js" using f by (metis list.set_map)
    then have tj: "(j, x) \<notin> set t" for x using n(1) by force
    show ?thesis
    proof (cases "i = j")
      case True
      have rk: "rk = rj" using Cons.prems(3) n(1) by (force simp: y True)
      have "(i, x) \<in> set kept \<longleftrightarrow> x = rj' \<and> r = Kept" if ok for x
        using visited(2,5) tj f that by (cases r) (auto simp: True)
      moreover have "(i, x) \<in> set table \<longleftrightarrow> x = rj'" for x using visited(4) tj by (auto simp: True)
      ultimately show ?thesis using visited(1,2) f n(1) unfolding rk True
        by (intro disjI2 exI [of _ d] exI [of _ r] exI [of _ rj'] exI [of _ d1]) (simp add: only_rows_def)
    next
      case False
      then have js: "(i, rj) \<in> set js" using Cons.prems(3) by (simp add: y)
      have k: "(i, x) \<in> set kept \<longleftrightarrow> (i, x) \<in> set k" "(i, x) \<in> set table \<longleftrightarrow> (i, x) \<in> set t" for x
        using visited(4,5) False by auto
      have d1: "spec_of d1 i = spec_of d i" "\<And>x. (i, x) \<in> set (dm_survivors d1) \<longleftrightarrow> (i, x) \<in> set (dm_survivors d)"
        "set (dm_sigkilled d) \<subseteq> set (dm_sigkilled d1)" using o False by (auto simp: only_row_def)
      from Cons.IH [OF visited(3) n(2) js] show ?thesis unfolding k d1(1,2) using d1(3) by blast
    qed
  qed
qed simp

lemma reap_each_visit:
  assumes "reap_each env js d = (True, table, kept, d')" "distinct (map fst js)" "(i, rj) \<in> set js"
  shows "\<exists>d1 r rj' d2. reap_one env i rj d1 = (r, rj', d2) \<and> r \<noteq> ReapRaised \<and> spec_of d1 i = spec_of d i
    \<and> (\<forall>x. (i, x) \<in> set (dm_survivors d1) \<longleftrightarrow> (i, x) \<in> set (dm_survivors d)) \<and> set (dm_sigkilled d) \<subseteq> set (dm_sigkilled d1)
    \<and> spec_of d' i = spec_of d2 i \<and> (\<forall>x. (i, x) \<in> set (dm_survivors d') \<longleftrightarrow> (i, x) \<in> set (dm_survivors d2))
    \<and> set (dm_sigkilled d2) \<subseteq> set (dm_sigkilled d') \<and> (\<forall>x. (i, x) \<in> set kept \<longleftrightarrow> x = rj' \<and> r = Kept)"
  using reap_each_look [OF assms] by (elim disjE exE) (simp, blast)

text \<open>The children a pass keeps, and the survivors it adds, were charged before.\<close>

abbreviation footprints :: "(string \<times> 'a local_job_scheme) list \<Rightarrow> local_job list" where
  "footprints xs \<equiv> map (\<lambda>(i, x). footprint x) xs"

lemma reap_one_charge:
  assumes "reap_one env i rj d = (r, rj', d')" "r \<noteq> ReapRaised"
  shows "(if r = Gone then {#} else {#footprint rj'#}) + mset (footprints (dm_survivors d'))
    \<subseteq># add_mset (footprint rj) (mset (footprints (dm_survivors d)))"
  using assms(1)
proof (cases rule: reap_one_cases)
  case (gone s0 s rc)
  from gone(9) show ?thesis
  proof (elim disjE exE conjE)
    fix ts assume "dm_survivors d' = AList.update i ts (dm_survivors d)" "survives_as env rj s ts"
    then show ?thesis using gone(1) mset_update [of footprint i ts "dm_survivors d"] by (simp add: survives_as_def)
  qed (use gone(1) in simp)
qed (use assms(2) in simp_all)

lemma reap_each_charge:
  "reap_each env js d = (True, table, kept, d') \<Longrightarrow>
    mset (footprints kept) + mset (footprints (dm_survivors d')) \<subseteq># mset (footprints js) + mset (footprints (dm_survivors d))
    \<and> (distinct (map fst js) \<longrightarrow> distinct (map fst kept))"
proof (induction js arbitrary: d table kept d')
  case (Cons x js)
  obtain i rj where x: "x = (i, rj)" by (cases x)
  from Cons.prems [unfolded x] show ?case
  proof (cases rule: reap_each_Cons)
    case (visited r rj' d1 t k)
    note ih = Cons.IH [OF visited(3)]
    have f: "fst ` set k \<subseteq> fst ` set js" using reap_each_frame [OF visited(3)] by (metis image_mono list.set_map)
    have "mset (footprints kept) + mset (footprints (dm_survivors d'))
        = (if r = Gone then {#} else {#footprint rj'#}) + (mset (footprints k) + mset (footprints (dm_survivors d')))"
      by (simp add: visited(5))
    also have "\<dots> \<subseteq># (if r = Gone then {#} else {#footprint rj'#}) + (mset (footprints js) + mset (footprints (dm_survivors d1)))"
      using ih by (intro subset_mset.add_left_mono) blast
    also have "\<dots> = mset (footprints js) + ((if r = Gone then {#} else {#footprint rj'#}) + mset (footprints (dm_survivors d1)))"
      by simp
    also have "\<dots> \<subseteq># mset (footprints js) + add_mset (footprint rj) (mset (footprints (dm_survivors d)))"
      by (rule subset_mset.add_left_mono) (rule reap_one_charge [OF visited(1,2)])
    finally show ?thesis using ih f by (auto simp: x visited(5))
  qed simp
qed simp

lemma reconcile_running_frame:
  assumes "reconcile_running env d = (True, d')"
  shows "mset (local_table d') \<subseteq># mset (local_table d) \<and> dm_view d' = dm_view d \<and> dm_scheduler_running d' = dm_scheduler_running d"
proof -
  obtain table kept d1 where e: "reap_each env (dm_running d) d = (True, table, kept, d1)" "d' = d1\<lparr>dm_running := kept\<rparr>"
    using assms by (auto simp: reconcile_running_def split: prod.splits if_splits)
  have f: "only_rows (fst ` set (dm_running d)) d d1" using reap_each_frame [OF e(1)] by simp
  have "mset (local_table d') = mset (footprints kept) + mset (footprints (dm_survivors d1)) + mset (footprints (dm_orphans d1))"
    by (simp add: local_table_def e(2))
  also have "\<dots> \<subseteq># mset (footprints (dm_running d)) + mset (footprints (dm_survivors d)) + mset (footprints (dm_orphans d1))"
    using reap_each_charge [OF e(1)] by (intro subset_mset.add_right_mono) blast
  also have "\<dots> = mset (local_table d)" using f by (simp add: local_table_def only_rows_def)
  finally show ?thesis using f e(2) by (simp add: only_rows_def)
qed

section \<open>Survivors and orphans\<close>

lemma reconcile_survivors_effect:
  "reconcile_survivors env tss d = (kept, d') \<Longrightarrow> spec_of d' = spec_of d \<and> dm_running d' = dm_running d \<and> dm_orphans d' = dm_orphans d
    \<and> set (dm_sigkilled d) \<subseteq> set (dm_sigkilled d')
    \<and> set kept = {(i, ts) \<in> set tss. re_pgroup_alive env (ts_pgid ts) \<and> re_clock env < ts_deadline ts}
    \<and> (\<forall>p. p \<in> set (dm_sigkilled d') \<longleftrightarrow> p \<in> set (dm_sigkilled d) \<or> (\<exists>(i, ts) \<in> set tss. p = ts_pgid ts \<and> re_pgroup_alive env p \<and> ts_deadline ts \<le> re_clock env))"
proof (induction tss arbitrary: d kept d')
  case (Cons x tss)
  obtain i ts where x: "x = (i, ts)" by (cases x)
  consider (dead) "\<not> re_pgroup_alive env (ts_pgid ts)" | (waits) "re_pgroup_alive env (ts_pgid ts)" "re_clock env < ts_deadline ts"
    | (kill) "re_pgroup_alive env (ts_pgid ts)" "ts_deadline ts \<le> re_clock env" by fastforce
  then show ?case
  proof cases
    case dead
    then show ?thesis using Cons.IH [of d kept d'] Cons.prems by (auto simp: x)
  next
    case waits
    obtain k where k: "reconcile_survivors env tss d = (k, d')" "kept = (i, ts) # k"
      using waits Cons.prems by (auto simp: x split: prod.splits)
    then show ?thesis using Cons.IH [OF k(1)] waits by (auto simp: x)
  next
    case kill
    then have "reconcile_survivors env tss (log_row i (ts_state ts) (ts_state ts) (sigkill (ts_pgid ts) d)) = (kept, d')"
      using Cons.prems by (simp add: x)
    from Cons.IH [OF this] show ?thesis using kill by (auto simp: x sigkill_def log_row_def spec_of_def)
  qed
qed auto

lemma escalate_orphan_effect:
  assumes "escalate_orphan_if_killed env i oj d = (b, oj', d')"
  shows "spec_of d' = spec_of d \<and> dm_running d' = dm_running d \<and> dm_survivors d' = dm_survivors d \<and> dm_orphans d' = dm_orphans d
    \<and> footprint oj' = footprint oj \<and> oj_pgid oj' = oj_pgid oj
    \<and> (if b then dm_sigkilled d' = oj_pgid oj # dm_sigkilled d \<and> oj_pgid oj \<noteq> re_own_pgrp env
         \<and> (\<exists>t. oj_term_deadline oj = Some t \<and> t \<le> re_clock env) \<and> (\<exists>s. spec_of d i = Some s \<and> is_terminal s)
       else dm_sigkilled d' = dm_sigkilled d)"
  using assms by (auto simp: escalate_orphan_if_killed_def sigkill_def log_row_def spec_of_def split: option.splits if_splits)

text \<open>Whether and why an orphan is given up.\<close>

definition orphan_over :: "reap_env \<Rightarrow> orphan_job \<Rightarrow> int set \<Rightarrow> bool" where
  "orphan_over env oj killed \<longleftrightarrow> \<not> re_pgroup_alive env (oj_pgid oj) \<or> oj_pgid oj \<in> killed
     \<and> oj_pgid oj \<noteq> re_own_pgrp env \<and> (\<exists>t. oj_term_deadline oj = Some t \<and> t \<le> re_clock env)"

text \<open>How the first loop looks at an orphan, on rows that are those of \<open>d\<close>.\<close>

definition looked_at :: "reap_env \<Rightarrow> daemon \<Rightarrow> int set \<Rightarrow> string \<Rightarrow> orphan_job \<Rightarrow> bool \<Rightarrow> orphan_job \<Rightarrow> bool" where
  "looked_at env d killed i oj b oj' \<longleftrightarrow> (\<exists>d1 d2. spec_of d1 = spec_of d \<and> set (dm_sigkilled d2) \<subseteq> killed
     \<and> (if \<not> re_pgroup_alive env (oj_pgid oj) then (True, oj, d1) else escalate_orphan_if_killed env i oj d1) = (b, oj', d2))"

lemma looked_at_effect:
  assumes "looked_at env d killed i oj b oj'"
  shows "footprint oj' = footprint oj" "oj_pgid oj' = oj_pgid oj" "b \<Longrightarrow> oj' = oj" "b \<Longrightarrow> orphan_over env oj killed"
    "\<not> b \<Longrightarrow> re_pgroup_alive env (oj_pgid oj) \<and> (\<exists>d1 d2. spec_of d1 = spec_of d \<and> escalate_orphan_if_killed env i oj d1 = (False, oj', d2))"
proof -
  obtain d1 d2 where e: "spec_of d1 = spec_of d" "set (dm_sigkilled d2) \<subseteq> killed"
    "(if \<not> re_pgroup_alive env (oj_pgid oj) then (True, oj, d1) else escalate_orphan_if_killed env i oj d1) = (b, oj', d2)"
    using assms by (auto simp: looked_at_def)
  note f = escalate_orphan_effect [of env i oj d1 b oj' d2]
  show "footprint oj' = footprint oj" "oj_pgid oj' = oj_pgid oj" "b \<Longrightarrow> orphan_over env oj killed"
    using e(2,3) f by (auto simp: orphan_over_def split: if_splits)
  show "b \<Longrightarrow> oj' = oj" using e(3) by (auto simp: escalate_orphan_if_killed_def split: if_splits option.splits)
  show "\<not> b \<Longrightarrow> re_pgroup_alive env (oj_pgid oj) \<and> (\<exists>d1 d2. spec_of d1 = spec_of d \<and> escalate_orphan_if_killed env i oj d1 = (False, oj', d2))"
    using e(1,3) by (auto split: if_splits)
qed

lemma looked_at_cong: "spec_of d = spec_of e \<Longrightarrow> looked_at env d = looked_at env e"
  by (simp add: looked_at_def fun_eq_iff)

definition armed_orphan :: "reap_env \<Rightarrow> daemon \<Rightarrow> int \<Rightarrow> string \<times> orphan_job \<Rightarrow> bool" where
  "armed_orphan env d p x \<longleftrightarrow> (case x of (i, oj) \<Rightarrow> p = oj_pgid oj \<and> p \<noteq> re_own_pgrp env
     \<and> (\<exists>t. oj_term_deadline oj = Some t \<and> t \<le> re_clock env) \<and> (\<exists>s. spec_of d i = Some s \<and> is_terminal s))"

lemma orphans_gone_effect:
  "orphans_gone env os d = (t, d') \<Longrightarrow> spec_of d' = spec_of d \<and> dm_running d' = dm_running d \<and> dm_survivors d' = dm_survivors d
    \<and> set (dm_sigkilled d) \<subseteq> set (dm_sigkilled d')
    \<and> (\<forall>i oj. (i, oj) \<in> set os \<longrightarrow> (\<exists>b oj'. (b, i, oj') \<in> set t \<and> looked_at env d (set (dm_sigkilled d')) i oj b oj'))
    \<and> (\<forall>b i oj'. (b, i, oj') \<in> set t \<longrightarrow> (\<exists>oj. (i, oj) \<in> set os \<and> looked_at env d (set (dm_sigkilled d')) i oj b oj'))
    \<and> (\<forall>p \<in> set (dm_sigkilled d'). p \<in> set (dm_sigkilled d) \<or> (\<exists>x \<in> set os. armed_orphan env d p x))"
proof (induction os arbitrary: d t d')
  case (Cons x os)
  obtain i oj where x: "x = (i, oj)" by (cases x)
  obtain b oj' d1 where e: "(if \<not> re_pgroup_alive env (oj_pgid oj) then (True, oj, d) else escalate_orphan_if_killed env i oj d) = (b, oj', d1)"
    by (metis prod_cases3)
  have f: "spec_of d1 = spec_of d" "dm_running d1 = dm_running d" "dm_survivors d1 = dm_survivors d"
    "set (dm_sigkilled d) \<subseteq> set (dm_sigkilled d1)"
    "\<And>p. p \<in> set (dm_sigkilled d1) \<Longrightarrow> p \<in> set (dm_sigkilled d) \<or> armed_orphan env d p (i, oj)"
    using e escalate_orphan_effect [of env i oj d b oj' d1] by (auto simp: armed_orphan_def split: if_splits)
  obtain u where u: "orphans_gone env os d1 = (u, d')" "t = (b, i, oj') # u"
    using Cons.prems e by (auto simp: x split: prod.splits)
  note ih = Cons.IH [OF u(1)]
  have here: "looked_at env d (set (dm_sigkilled d')) i oj b oj'"
    unfolding looked_at_def using e ih by (intro exI [of _ d] exI [of _ d1]) simp
  have l: "looked_at env d1 = looked_at env d" "armed_orphan env d1 = armed_orphan env d"
    by (rule looked_at_cong [OF f(1)], simp add: armed_orphan_def f(1) fun_eq_iff)
  have 1: "spec_of d' = spec_of d" "dm_running d' = dm_running d" "dm_survivors d' = dm_survivors d"
    "set (dm_sigkilled d) \<subseteq> set (dm_sigkilled d')" using ih f(1-4) by auto
  have 2: "\<exists>b oj'. (b, j, oj') \<in> set t \<and> looked_at env d (set (dm_sigkilled d')) j y b oj'" if "(j, y) \<in> set (x # os)" for j y
  proof (cases "(j, y) \<in> set os")
    case True
    with ih show ?thesis unfolding l u(2) by (meson list.set_intros(2))
  next
    case False
    with that have "j = i" "y = oj" by (simp_all add: x)
    with here show ?thesis unfolding u(2) by (meson list.set_intros(1))
  qed
  have 3: "\<exists>oj. (j, oj) \<in> set (x # os) \<and> looked_at env d (set (dm_sigkilled d')) j oj b y" if "(b, j, y) \<in> set t" for b j y
  proof (cases "(b, j, y) \<in> set u")
    case True
    with ih show ?thesis unfolding l by (meson list.set_intros(2))
  next
    case False
    with that here show ?thesis unfolding u(2) x by auto
  qed
  have 4: "p \<in> set (dm_sigkilled d) \<or> (\<exists>x \<in> set (x # os). armed_orphan env d p x)" if "p \<in> set (dm_sigkilled d')" for p
    using that ih f(5) [of p] unfolding l x by auto
  show ?case using 1 2 3 4 by blast
qed simp

text \<open>Settling an orphan touches no table and no terminal label.\<close>

lemma orphan_finish_rows: "j \<noteq> i \<Longrightarrow> spec_of (snd (record_orphan_finish env i rc d)) j = spec_of d j"
  by (auto simp: record_orphan_finish_def maybe_retry_def Let_def spec_of_def store_simps split: option.split if_splits)

lemma orphan_finish_killed: "killed_row i p d \<Longrightarrow> killed_row i p (snd (record_orphan_finish env i rc d))"
  by (auto simp: killed_row_def record_orphan_finish_def Let_def spec_of_def store_simps is_terminal_def)

lemma orphan_finish_sel [simp]:
  "dm_running (snd (record_orphan_finish env i rc d)) = dm_running d" "dm_survivors (snd (record_orphan_finish env i rc d)) = dm_survivors d"
  "dm_sigkilled (snd (record_orphan_finish env i rc d)) = dm_sigkilled d"
  by (auto simp: record_orphan_finish_def Let_def split: option.split)

lemma aborted_sel [simp]:
  "dm_running (snd (mark_aborted_by_queue env i why d)) = dm_running d" "dm_survivors (snd (mark_aborted_by_queue env i why d)) = dm_survivors d"
  "dm_sigkilled (snd (mark_aborted_by_queue env i why d)) = dm_sigkilled d"
  by (simp_all add: mark_aborted_by_queue_def log_row_def write_row_def split: option.split)

lemma settle_orphan_sel [simp]:
  "dm_running (snd (settle_orphan env i d)) = dm_running d" "dm_survivors (snd (settle_orphan env i d)) = dm_survivors d"
  "dm_sigkilled (snd (settle_orphan env i d)) = dm_sigkilled d"
  by (simp_all add: settle_orphan_def split: option.split)

lemma settle_orphan_killed: "killed_row j p d \<Longrightarrow> killed_row j p (snd (settle_orphan env i d))"
proof (cases "i = j")
  case True
  assume "killed_row j p d"
  with True show ?thesis using orphan_finish_killed [of i p d env]
    by (auto simp: settle_orphan_def killed_row_def split: option.split)
next
  case False
  assume k: "killed_row j p d"
  have "spec_of (snd (settle_orphan env i d)) j = spec_of d j" using False orphan_finish_rows [of j i env]
    by (auto simp: settle_orphan_def mark_aborted_by_queue_def split: option.split)
  with k show ?thesis by (simp add: killed_row_def)
qed

lemma settle_orphan_raises: "\<not> fst (settle_orphan env i d) \<Longrightarrow> \<not> writable env i"
  by (auto simp: settle_orphan_def mark_aborted_by_queue_def record_orphan_finish_def Let_def split: option.splits if_splits)

lemma settle_orphans_effect:
  "settle_orphans env t d = (ok, left, d') \<Longrightarrow> dm_running d' = dm_running d \<and> dm_survivors d' = dm_survivors d
    \<and> dm_sigkilled d' = dm_sigkilled d \<and> (\<forall>j p. killed_row j p d \<longrightarrow> killed_row j p d')
    \<and> (\<forall>(b, x) \<in> set t. b \<or> x \<in> set left) \<and> (\<forall>x \<in> set left. \<exists>b. (b, x) \<in> set t \<and> (ok \<longrightarrow> \<not> b))
    \<and> (\<not> ok \<longrightarrow> (\<exists>(b, i, oj) \<in> set t. \<not> writable env i))"
proof (induction t arbitrary: d left)
  case (Cons y t)
  obtain b i oj where y: "y = (b, i, oj)" by (cases y)
  show ?case
  proof (cases b)
    case False
    then obtain l where l: "settle_orphans env t d = (ok, l, d')" "left = (i, oj) # l"
      using Cons.prems by (auto simp: y split: prod.splits)
    then show ?thesis using Cons.IH [OF l(1)] False by (auto simp: y)
  next
    case True
    obtain ok1 d1 where s: "settle_orphan env i d = (ok1, d1)" by fastforce
    have e: "dm_running d1 = dm_running d" "dm_survivors d1 = dm_survivors d" "dm_sigkilled d1 = dm_sigkilled d"
      "\<And>j p. killed_row j p d \<Longrightarrow> killed_row j p d1" "\<not> ok1 \<Longrightarrow> \<not> writable env i"
      using s settle_orphan_sel [of env i d] settle_orphan_killed [of _ _ d env i] settle_orphan_raises [of env i d] by simp_all
    show ?thesis
    proof (cases ok1)
      case ok1: True
      then have "settle_orphans env t d1 = (ok, left, d')" using Cons.prems True s by (simp add: y)
      from Cons.IH [OF this] show ?thesis using e True by (auto simp: y)
    next
      case False
      then have l: "left = (i, oj) # map snd t" "d' = d1" "\<not> ok" using Cons.prems True s by (simp_all add: y)
      have l1: "set left = snd ` set (y # t)" by (simp add: l(1) y)
      have "\<exists>b. (b, x) \<in> set (y # t)" if m: "x \<in> set left" for x
      proof -
        obtain z where "z \<in> set (y # t)" "x = snd z" using m unfolding l1 by blast
        then show ?thesis by (metis prod.collapse)
      qed
      moreover have "x \<in> set left" if "(b', x) \<in> set (y # t)" for b' x
        using imageI [OF that, of snd] unfolding l1 by simp
      moreover have "\<exists>(b, i, oj) \<in> set (y # t). \<not> writable env i" using e(5) [OF False] by (simp add: y)
      ultimately show ?thesis using e(1-4) l(2,3) by blast
    qed
  qed
qed simp

section \<open>A whole pass\<close>

definition due_survivor :: "reap_env \<Rightarrow> int \<Rightarrow> string \<times> terminal_survivor \<Rightarrow> bool" where
  "due_survivor env p x \<longleftrightarrow> (case x of (i, ts) \<Rightarrow> p = ts_pgid ts \<and> re_pgroup_alive env p \<and> ts_deadline ts \<le> re_clock env)"

lemma reap_tick_parts:
  assumes "reap_tick env d = (ok, d')"
  obtains (raised) table kept d1 where "reap_each env (dm_running d) d = (False, table, kept, d1)" "d' = d1\<lparr>dm_running := table\<rparr>" "\<not> ok"
  | (through) table d1 where "reap_each env (dm_running d) d = (True, table, dm_running d', d1)"
    "set (dm_survivors d') = {(i, ts) \<in> set (dm_survivors d1). re_pgroup_alive env (ts_pgid ts) \<and> re_clock env < ts_deadline ts}"
    "\<And>i oj. (i, oj) \<in> set (dm_orphans d) \<Longrightarrow> orphan_over env oj (set (dm_sigkilled d'))
       \<or> (\<exists>oj'. (i, oj') \<in> set (dm_orphans d') \<and> footprint oj' = footprint oj)"
    "\<And>i oj'. (i, oj') \<in> set (dm_orphans d') \<Longrightarrow> \<exists>oj b. (i, oj) \<in> set (dm_orphans d) \<and> (ok \<longrightarrow> \<not> b)
       \<and> looked_at env d1 (set (dm_sigkilled d')) i oj b oj'"
    "set (dm_sigkilled d1) \<subseteq> set (dm_sigkilled d')"
    "\<And>x p. x \<in> set (dm_survivors d1) \<Longrightarrow> due_survivor env p x \<Longrightarrow> p \<in> set (dm_sigkilled d')"
    "\<And>p. p \<in> set (dm_sigkilled d') \<Longrightarrow> p \<in> set (dm_sigkilled d1) \<or> (\<exists>x \<in> set (dm_survivors d1). due_survivor env p x)
       \<or> (\<exists>x \<in> set (dm_orphans d). armed_orphan env d1 p x)"
    "\<And>j p. killed_row j p d1 \<Longrightarrow> killed_row j p d'"
    "\<not> ok \<Longrightarrow> \<exists>(i, oj) \<in> set (dm_orphans d). \<not> writable env i"
proof -
  obtain ok1 table kept d1 where e: "reap_each env (dm_running d) d = (ok1, table, kept, d1)" by (metis prod_cases4)
  show ?thesis
  proof (cases ok1)
    case False
    then show ?thesis using assms e raised by (simp add: reap_tick_def reconcile_running_def)
  next
    case True
    note e = e [unfolded eqTrueI [OF True]]
    obtain sk d2 where s: "reconcile_survivors env (dm_survivors d1) (d1\<lparr>dm_running := kept\<rparr>) = (sk, d2)" by fastforce
    obtain t d3 where g: "orphans_gone env (dm_orphans d2) (d2\<lparr>dm_survivors := sk\<rparr>) = (t, d3)" by fastforce
    obtain ok2 left d4 where st: "settle_orphans env t d3 = (ok2, left, d4)" by (metis prod_cases3)
    have d': "d' = d4\<lparr>dm_orphans := left\<rparr>" "ok2 = ok"
      using assms e s g st by (simp_all add: reap_tick_def reconcile_running_def reconcile_terminal_survivors_def reconcile_orphans_def)
    note se = reconcile_survivors_effect [OF s] and ge = orphans_gone_effect [OF g]
    note fe = settle_orphans_effect [OF st]
    have o: "dm_orphans d2 = dm_orphans d" using reap_each_frame [OF e] se by (simp add: only_rows_def)
    have sp: "spec_of d2 = spec_of d1" "spec_of d3 = spec_of d1" "spec_of (d2\<lparr>dm_survivors := sk\<rparr>) = spec_of d1"
      using se ge by (auto simp: spec_of_def fun_eq_iff)
    have k: "killed_row j p d1 = killed_row j p d3" for j p by (simp add: killed_row_def sp)
    have t: "dm_running d' = kept" "dm_survivors d' = sk" "dm_orphans d' = left" "dm_sigkilled d' = dm_sigkilled d3"
      using fe se ge by (simp_all add: d')
    have l: "looked_at env (d2\<lparr>dm_survivors := sk\<rparr>) = looked_at env d1"
      "armed_orphan env (d2\<lparr>dm_survivors := sk\<rparr>) = armed_orphan env d1"
      by (rule looked_at_cong [OF sp(3)], simp add: armed_orphan_def sp(3) fun_eq_iff)
    have sk: "set (dm_sigkilled d1) \<subseteq> set (dm_sigkilled d2)" "set (dm_sigkilled d2) \<subseteq> set (dm_sigkilled d3)" using se ge by simp_all
    show ?thesis
    proof (rule through [of table d1])
      show "reap_each env (dm_running d) d = (True, table, dm_running d', d1)" using e t(1) by simp
      show "set (dm_survivors d') = {(i, ts) \<in> set (dm_survivors d1). re_pgroup_alive env (ts_pgid ts) \<and> re_clock env < ts_deadline ts}"
        using se t(2) by simp
      show "orphan_over env oj (set (dm_sigkilled d')) \<or> (\<exists>oj'. (i, oj') \<in> set (dm_orphans d') \<and> footprint oj' = footprint oj)"
        if m: "(i, oj) \<in> set (dm_orphans d)" for i oj
      proof -
        obtain b oj' where b: "(b, i, oj') \<in> set t" "looked_at env d1 (set (dm_sigkilled d')) i oj b oj'"
          using ge m o t(4) unfolding l by metis
        show ?thesis
        proof (cases b)
          case True
          then show ?thesis using looked_at_effect(4) [OF b(2)] by simp
        next
          case False
          then have "(i, oj') \<in> set (dm_orphans d')" using fe b(1) t(3) by blast
          then show ?thesis using looked_at_effect(1) [OF b(2)] by blast
        qed
      qed
      show "\<exists>oj b. (i, oj) \<in> set (dm_orphans d) \<and> (ok \<longrightarrow> \<not> b) \<and> looked_at env d1 (set (dm_sigkilled d')) i oj b oj'"
        if m: "(i, oj') \<in> set (dm_orphans d')" for i oj'
      proof -
        obtain b where b: "(b, i, oj') \<in> set t" "ok \<longrightarrow> \<not> b" using fe m t(3) d'(2) by blast
        then show ?thesis using ge o t(4) unfolding l by metis
      qed
      show "p \<in> set (dm_sigkilled d')" if "x \<in> set (dm_survivors d1)" "due_survivor env p x" for x p
      proof -
        have "p \<in> set (dm_sigkilled d2)" using se that by (cases x) (auto simp: due_survivor_def)
        then show ?thesis using sk t(4) by auto
      qed
      show "p \<in> set (dm_sigkilled d1) \<or> (\<exists>x \<in> set (dm_survivors d1). due_survivor env p x)
         \<or> (\<exists>x \<in> set (dm_orphans d). armed_orphan env d1 p x)" if "p \<in> set (dm_sigkilled d')" for p
      proof -
        have "p \<in> set (dm_sigkilled d2) \<or> (\<exists>x \<in> set (dm_orphans d). armed_orphan env d1 p x)"
          using ge that t(4) o unfolding l by simp
        then show ?thesis using se unfolding due_survivor_def by (auto simp: split_beta)
      qed
      show "killed_row j p d'" if "killed_row j p d1" for j p
        using fe that k by (simp add: d' killed_row_def spec_of_def)
      show "\<exists>(i, oj) \<in> set (dm_orphans d). \<not> writable env i" if "\<not> ok"
      proof -
        from fe that d'(2) obtain b i oj where "(b, i, oj) \<in> set t" "\<not> writable env i" by blast
        moreover from this(1) obtain oj' where "(i, oj') \<in> set (dm_orphans d)" using ge o by metis
        ultimately show ?thesis by blast
      qed
    qed (use t(4) sk in auto)
  qed
qed

text \<open>The jobs that are charged for their resources.\<close>

definition charged :: "daemon \<Rightarrow> string \<Rightarrow> local_job \<Rightarrow> bool" where
  "charged d i e \<longleftrightarrow> (\<exists>rj. (i, rj) \<in> set (dm_running d) \<and> footprint rj = e) \<or> (\<exists>oj. (i, oj) \<in> set (dm_orphans d) \<and> footprint oj = e)
     \<or> (\<exists>ts. (i, ts) \<in> set (dm_survivors d) \<and> footprint ts = e)"

text \<open>Why a job is no longer charged after a pass.\<close>

definition child_over :: "reap_env \<Rightarrow> daemon \<Rightarrow> int set \<Rightarrow> string \<Rightarrow> local_job \<Rightarrow> bool" where
  "child_over env d killed i e \<longleftrightarrow> (\<exists>rj s0 s rc. (i, rj) \<in> set (dm_running d) \<and> footprint rj = e \<and> spec_of d i = Some s0
     \<and> child_exit env i rj s0 = Some rc \<and> row_at_lock rj s0 s \<and> group_over env rj rc s killed)"

definition survivor_over :: "reap_env \<Rightarrow> int set \<Rightarrow> terminal_survivor \<Rightarrow> bool" where
  "survivor_over env killed ts \<longleftrightarrow> \<not> re_pgroup_alive env (ts_pgid ts) \<or> ts_pgid ts \<in> killed \<and> ts_deadline ts \<le> re_clock env"

lemma survivor_kept:
  assumes "set S' = {(i, ts) \<in> set S. re_pgroup_alive env (ts_pgid ts) \<and> re_clock env < ts_deadline ts}"
    "\<forall>x \<in> set S. \<forall>p. due_survivor env p x \<longrightarrow> p \<in> K" "(i, ts) \<in> set S"
  shows "(i, ts) \<in> set S' \<or> survivor_over env K ts"
  using assms(1,3) assms(2) [rule_format, OF assms(3), of "ts_pgid ts"] by (auto simp: due_survivor_def survivor_over_def not_less)

lemma raised_running:
  assumes "reap_each env js d = (ok, table, kept, d')" "(i, rj) \<in> set js"
  shows "\<exists>rj'. (i, rj') \<in> set table \<and> footprint rj' = footprint rj"
proof -
  note f = reap_each_frame [OF assms(1)]
  obtain n where n: "n < length js" "js ! n = (i, rj)" using assms(2) by (auto simp: in_set_conv_nth)
  have l: "length table = length js" using f by (metis length_map)
  have "map fst table ! n = i" "map (\<lambda>(i, x). footprint x) table ! n = footprint rj" using f n by simp_all
  then show ?thesis using n(1) l nth_mem [of n table] by (cases "table ! n") auto
qed

lemma child_charged_until_over:
  assumes "reap_tick env d = (ok, d')" "distinct (map fst (dm_running d))" "(i, rj) \<in> set (dm_running d)"
  shows "charged d' i (footprint rj) \<or> child_over env d (set (dm_sigkilled d')) i (footprint rj)"
  using assms(1)
proof (cases rule: reap_tick_parts)
  case (raised table kept d1)
  then show ?thesis using raised_running [OF raised(1) assms(3)] by (auto simp: charged_def)
next
  case 1: (through table d1)
  have due: "\<forall>x \<in> set (dm_survivors d1). \<forall>p. due_survivor env p x \<longrightarrow> p \<in> set (dm_sigkilled d')" using 1(6) by blast
  from reap_each_visit [OF 1(1) assms(2) assms(3)] obtain d2 r rj' d3 where v: "reap_one env i rj d2 = (r, rj', d3)"
    "r \<noteq> ReapRaised" "spec_of d2 i = spec_of d i" "\<forall>x. (i, x) \<in> set (dm_survivors d1) \<longleftrightarrow> (i, x) \<in> set (dm_survivors d3)"
    "set (dm_sigkilled d3) \<subseteq> set (dm_sigkilled d1)" "\<forall>x. (i, x) \<in> set (dm_running d') \<longleftrightarrow> x = rj' \<and> r = Kept" by blast
  from v(1) show ?thesis
  proof (cases rule: reap_one_cases)
    case kept
    then show ?thesis using v(6) by (auto simp: charged_def)
  next
    case (gone s0 s rc)
    have over: "child_over env d (set (dm_sigkilled d')) i (footprint rj)" if "group_over env rj rc s (set (dm_sigkilled d'))"
      using that assms(3) gone(3-5) v(3) unfolding child_over_def by auto
    from gone(9) show ?thesis
    proof (elim disjE exE conjE)
      assume "group_over env rj rc s (set (dm_sigkilled d3))"
      then have "group_over env rj rc s (set (dm_sigkilled d'))" using v(5) 1(5) by (blast intro: group_over_mono)
      then show ?thesis using over by blast
    next
      fix ts assume ts: "dm_survivors d3 = AList.update i ts (dm_survivors d2)" "survives_as env rj s ts"
      have "(i, ts) \<in> set (dm_survivors d1)" using v(4) ts(1) set_update_same(1) by simp
      from survivor_kept [OF 1(2) due this] show ?thesis
      proof
        assume "(i, ts) \<in> set (dm_survivors d')"
        then show ?thesis using ts(2) by (auto simp: charged_def survives_as_def)
      next
        assume "survivor_over env (set (dm_sigkilled d')) ts"
        then have "group_over env rj rc s (set (dm_sigkilled d'))" using ts(2)
          by (auto simp: survivor_over_def group_over_def survives_as_def)
        then show ?thesis using over by blast
      qed
    qed
  qed (use v(2) in simp)
qed

lemma survivor_charged_until_over:
  assumes "reap_tick env d = (ok, d')" "i \<notin> fst ` set (dm_running d)" "(i, ts) \<in> set (dm_survivors d)"
  shows "(i, ts) \<in> set (dm_survivors d') \<or> survivor_over env (set (dm_sigkilled d')) ts"
  using assms(1)
proof (cases rule: reap_tick_parts)
  case (raised table kept d1)
  then show ?thesis using reap_each_frame [OF raised(1)] assms(2,3) by (simp add: only_rows_def)
next
  case 1: (through table d1)
  have due: "\<forall>x \<in> set (dm_survivors d1). \<forall>p. due_survivor env p x \<longrightarrow> p \<in> set (dm_sigkilled d')" using 1(6) by blast
  have "(i, ts) \<in> set (dm_survivors d1)" using reap_each_frame [OF 1(1)] assms(2,3) by (simp add: only_rows_def)
  from survivor_kept [OF 1(2) due this] show ?thesis .
qed

lemma orphan_charged_until_over:
  assumes "reap_tick env d = (ok, d')" "(i, oj) \<in> set (dm_orphans d)"
  shows "(\<exists>oj'. (i, oj') \<in> set (dm_orphans d') \<and> footprint oj' = footprint oj) \<or> orphan_over env oj (set (dm_sigkilled d'))"
  using assms(1)
proof (cases rule: reap_tick_parts)
  case (raised table kept d1)
  then show ?thesis using reap_each_frame [OF raised(1)] assms(2) by (auto simp: only_rows_def)
next
  case (through table d1)
  then show ?thesis using assms(2) by blast
qed

text \<open>
  The survivor that an earlier, interrupted pass made of a child that is still in the table is charged like it.
\<close>

definition same_charge :: "daemon \<Rightarrow> bool" where
  "same_charge d \<longleftrightarrow> (\<forall>i rj ts. (i, rj) \<in> set (dm_running d) \<and> (i, ts) \<in> set (dm_survivors d) \<longrightarrow> footprint ts = footprint rj)"


text \<open>Why a group is sent SIGKILL.\<close>

text \<open>A kill whose grace is over: the label was seen at an earlier pass, and the deadline set then has passed.\<close>

definition grace_over :: "reap_env \<Rightarrow> running_job \<Rightarrow> job_spec \<Rightarrow> int \<Rightarrow> bool" where
  "grace_over env rj s p \<longleftrightarrow> is_terminal s \<and> js_pgid s = Some p \<and> (\<exists>t. rj_term_deadline rj = Some t \<and> t \<le> re_clock env)"

lemma escalate_kills:
  assumes "escalate_if_killed env i rj d = (rj', d')" "p \<in> set (dm_sigkilled d')"
  shows "p \<in> set (dm_sigkilled d) \<or> (\<exists>s. spec_of d i = Some s \<and> grace_over env rj s p)"
  using assms by (auto simp: escalate_if_killed_def grace_over_def split: if_splits option.splits)

definition child_killed :: "reap_env \<Rightarrow> daemon \<Rightarrow> int \<Rightarrow> string \<times> running_job \<Rightarrow> bool" where
  "child_killed env d p x \<longleftrightarrow> (case x of (i, rj) \<Rightarrow> \<exists>s0 s. spec_of d i = Some s0 \<and> row_at_lock rj s0 s
     \<and> (grace_over env rj s p \<or> (\<exists>rc. child_exit env i rj s0 = Some rc \<and> stranded env rc s p)))"

lemma reap_one_kills:
  assumes "reap_one env i rj d = (r, rj', d')" "p \<in> set (dm_sigkilled d')"
  shows "p \<in> set (dm_sigkilled d) \<or> child_killed env d p (i, rj)"
  using assms(1)
proof (cases rule: reap_one_cases)
  case (raised rc)
  then show ?thesis using raised(5) [OF assms(2)] by (auto simp: child_killed_def)
next
  case kept
  from kept(7) show ?thesis
  proof (elim disjE conjE)
    assume "escalate_if_killed env i rj d = (rj', d')"
    from escalate_kills [OF this assms(2)] show ?thesis by (auto simp: child_killed_def row_at_lock_def)
  qed (use assms(2) in simp)
next
  case (gone s0 s rc)
  then show ?thesis using gone(7) [OF assms(2)] by (auto simp: child_killed_def)
qed

lemma reap_each_kills:
  "reap_each env js d = (ok, table, kept, d') \<Longrightarrow> distinct (map fst js) \<Longrightarrow> p \<in> set (dm_sigkilled d')
    \<Longrightarrow> p \<in> set (dm_sigkilled d) \<or> (\<exists>x \<in> set js. child_killed env d p x)"
proof (induction js arbitrary: d ok table kept d')
  case (Cons x js)
  obtain i rj where x: "x = (i, rj)" by (cases x)
  from Cons.prems(1) [unfolded x] show ?case
  proof (cases rule: reap_each_Cons)
    case (raised rj')
    then show ?thesis using reap_one_kills [OF raised(1) Cons.prems(3)] by (auto simp: x)
  next
    case (visited r rj' d1 t k)
    have n: "i \<notin> fst ` set js" "distinct (map fst js)" using Cons.prems(2) by (auto simp: x)
    have same: "child_killed env d1 p y = child_killed env d p y" if "y \<in> set js" for y
    proof -
      have "fst y \<noteq> i" using n(1) that by auto
      then show ?thesis using reap_one_only [OF visited(1)] by (cases y) (simp add: child_killed_def only_row_def)
    qed
    from Cons.IH [OF visited(3) n(2) Cons.prems(3)] show ?thesis
      using reap_one_kills [OF visited(1)] same by (auto simp: x)
  qed
qed simp

text \<open>A survivor that appears in a pass inherits the deadline of its child, or gets a new one.\<close>

lemma reap_each_survivors:
  assumes "reap_each env js d = (ok, table, kept, d')" "distinct (map fst js)" "(i, ts) \<in> set (dm_survivors d')"
  shows "(i, ts) \<in> set (dm_survivors d) \<or> (\<exists>rj s0 s. (i, rj) \<in> set js \<and> spec_of d i = Some s0 \<and> row_at_lock rj s0 s
    \<and> survives_as env rj s ts \<and> killed_row i (ts_pgid ts) d')"
proof (cases "i \<in> fst ` set js")
  case False
  then show ?thesis using reap_each_frame [OF assms(1)] assms(3) by (simp add: only_rows_def)
next
  case True
  then obtain rj where rj: "(i, rj) \<in> set js" by force
  from reap_each_look [OF assms(1,2) rj] show ?thesis
  proof (elim disjE exE conjE)
    fix d1 r rj' d2
    assume v: "reap_one env i rj d1 = (r, rj', d2)" "spec_of d1 i = spec_of d i" "spec_of d' i = spec_of d2 i"
      "\<forall>x. (i, x) \<in> set (dm_survivors d1) \<longleftrightarrow> (i, x) \<in> set (dm_survivors d)"
      "\<forall>x. (i, x) \<in> set (dm_survivors d') \<longleftrightarrow> (i, x) \<in> set (dm_survivors d2)"
    from v(1) show ?thesis
    proof (cases rule: reap_one_cases)
      case (gone s0 s rc)
      from gone(9) show ?thesis
      proof (elim disjE exE conjE)
        fix t assume t: "dm_survivors d2 = AList.update i t (dm_survivors d1)" "survives_as env rj s t"
        then have "ts = t \<or> (i, ts) \<in> set (dm_survivors d1)" using set_update_same(2) assms(3) v(5) by metis
        moreover have "killed_row i (ts_pgid t) d'" using gone(8) t(2) v(3) by (simp add: survives_as_def killed_row_def)
        ultimately show ?thesis using t(2) rj gone(3,4) v(2,4) by auto
      qed (use v assms(3) in simp)
    qed (use v assms(3) in auto)
  qed (use assms(3) in simp)
qed

text \<open>Where the deadlines come from.\<close>

definition terminal_row :: "daemon \<Rightarrow> string \<Rightarrow> bool" where
  "terminal_row d i \<longleftrightarrow> (\<exists>s. spec_of d i = Some s \<and> is_terminal s)"

lemma killed_terminal_row: "killed_row i p d \<Longrightarrow> terminal_row d i"
  by (auto simp: killed_row_def terminal_row_def)

definition new_deadline :: "reap_env \<Rightarrow> daemon \<Rightarrow> string \<Rightarrow> rat \<Rightarrow> bool" where
  "new_deadline env d i t \<longleftrightarrow> t = re_clock env + KILL_ESCALATION_GRACE_SECONDS \<and> terminal_row d i"

definition deadline_of :: "daemon \<Rightarrow> string \<Rightarrow> rat \<Rightarrow> bool" where
  "deadline_of d i t \<longleftrightarrow> (\<exists>rj. (i, rj) \<in> set (dm_running d) \<and> rj_term_deadline rj = Some t)
     \<or> (\<exists>ts. (i, ts) \<in> set (dm_survivors d) \<and> ts_deadline ts = t)
     \<or> (\<exists>oj. (i, oj) \<in> set (dm_orphans d) \<and> oj_term_deadline oj = Some t)"

lemma escalate_deadline:
  assumes "escalate_if_killed env i rj d = (rj', d')" "rj_term_deadline rj' = Some t"
  shows "rj_term_deadline rj = Some t \<or> new_deadline env d i t"
  using assms by (auto simp: escalate_if_killed_def new_deadline_def terminal_row_def split: if_splits option.splits)

lemma children_deadlines:
  assumes "reap_each env js d = (ok, table, kept, d')" "distinct (map fst js)" "(i, rj') \<in> set table" "rj_term_deadline rj' = Some t"
  shows "(\<exists>rj. (i, rj) \<in> set js \<and> rj_term_deadline rj = Some t) \<or> new_deadline env d' i t"
proof -
  have "fst ` set table = fst ` set js" using reap_each_frame [OF assms(1)] by (metis list.set_map)
  then obtain rj where rj: "(i, rj) \<in> set js" using assms(3) by force
  from reap_each_look [OF assms(1,2) rj] show ?thesis
  proof (elim disjE exE conjE)
    fix d1 r rk d2
    assume v: "reap_one env i rj d1 = (r, rk, d2)" "spec_of d' i = spec_of d2 i" "\<forall>x. (i, x) \<in> set table \<longleftrightarrow> x = rk"
    have rk: "rk = rj'" using v(3) assms(3) by simp
    from v(1) show ?thesis
    proof (cases rule: reap_one_cases)
      case kept
      have "rj_term_deadline rj = Some t \<or> new_deadline env d1 i t"
        using kept(7) escalate_deadline [of env i rj d1 rk d2 t] assms(4) rk by auto
      then show ?thesis using rj v(2) kept(4) by (auto simp: new_deadline_def terminal_row_def)
    qed (use rj rk assms(4) in auto)
  qed (use rj assms(3,4) in auto)
qed

lemma survivors_deadlines:
  assumes "reap_each env js d = (ok, table, kept, d')" "distinct (map fst js)" "(i, ts) \<in> set (dm_survivors d')"
  shows "(i, ts) \<in> set (dm_survivors d) \<or> (\<exists>rj. (i, rj) \<in> set js \<and> rj_term_deadline rj = Some (ts_deadline ts))
    \<or> new_deadline env d' i (ts_deadline ts)"
  using reap_each_survivors [OF assms]
proof (elim disjE exE conjE)
  fix rj s0 s assume "(i, rj) \<in> set js" "survives_as env rj s ts" "killed_row i (ts_pgid ts) d'"
  then show ?thesis
    by (cases "rj_term_deadline rj") (auto simp: survives_as_def new_deadline_def killed_terminal_row)
qed simp

lemma orphans_deadlines:
  assumes "looked_at env d killed i oj b oj'" "oj_term_deadline oj' = Some t"
  shows "oj_term_deadline oj = Some t \<or> new_deadline env d i t"
proof (cases b)
  case True
  then show ?thesis using looked_at_effect(3) [OF assms(1)] assms(2) by simp
next
  case False
  then obtain d1 d2 where "spec_of d1 = spec_of d" "escalate_orphan_if_killed env i oj d1 = (False, oj', d2)"
    using looked_at_effect(5) [OF assms(1)] by blast
  then show ?thesis using assms(2)
    by (auto simp: escalate_orphan_if_killed_def new_deadline_def terminal_row_def split: if_splits option.splits)
qed

lemma reconcile_running_rows:
  assumes "reap_each env (dm_running d) d = (ok, table, kept, d1)"
  shows "spec_of (snd (reconcile_running env d)) = spec_of d1"
  by (simp add: reconcile_running_def assms spec_of_def fun_eq_iff)

lemma pass_deadlines:
  assumes "reap_tick env d = (ok, d')" "distinct (map fst (dm_running d))" "deadline_of d' i t"
  shows "deadline_of d i t \<or> new_deadline env (snd (reconcile_running env d)) i t"
  using assms(1)
proof (cases rule: reap_tick_parts)
  case (raised table kept d1)
  have n: "new_deadline env (snd (reconcile_running env d)) = new_deadline env d1"
    using reconcile_running_rows [OF raised(1)] by (simp add: new_deadline_def terminal_row_def fun_eq_iff)
  have o: "dm_orphans d1 = dm_orphans d" using reap_each_frame [OF raised(1)] by (simp add: only_rows_def)
  show ?thesis unfolding n
    using assms(3) children_deadlines [OF raised(1) assms(2)] survivors_deadlines [OF raised(1) assms(2)] o raised(2)
    unfolding deadline_of_def by simp metis
next
  case 1: (through table d1)
  have n: "new_deadline env (snd (reconcile_running env d)) = new_deadline env d1"
    using reconcile_running_rows [OF 1(1)] by (simp add: new_deadline_def terminal_row_def fun_eq_iff)
  have k: "set (dm_running d') \<subseteq> set table" using reap_each_frame [OF 1(1)] by simp
  from assms(3) consider (run) rj where "(i, rj) \<in> set (dm_running d')" "rj_term_deadline rj = Some t"
    | (surv) ts where "(i, ts) \<in> set (dm_survivors d')" "ts_deadline ts = t"
    | (orph) oj where "(i, oj) \<in> set (dm_orphans d')" "oj_term_deadline oj = Some t" by (auto simp: deadline_of_def)
  then show ?thesis unfolding n
  proof cases
    case run
    then have "(i, rj) \<in> set table" using k by blast
    from children_deadlines [OF 1(1) assms(2) this run(2)] show "deadline_of d i t \<or> new_deadline env d1 i t"
      by (auto simp: deadline_of_def)
  next
    case surv
    then have "(i, ts) \<in> set (dm_survivors d1)" using 1(2) by simp
    from survivors_deadlines [OF 1(1) assms(2) this] show "deadline_of d i t \<or> new_deadline env d1 i t"
      using surv(2) by (auto simp: deadline_of_def)
  next
    case orph
    from 1(4) [OF orph(1)] obtain oj0 b where "(i, oj0) \<in> set (dm_orphans d)" "looked_at env d1 (set (dm_sigkilled d')) i oj0 b oj" by blast
    then show "deadline_of d i t \<or> new_deadline env d1 i t" using orphans_deadlines orph(2) by (fastforce simp: deadline_of_def)
  qed
qed

text \<open>The survivors carry the terminal label they were left with.\<close>

definition survivors_labelled :: "daemon \<Rightarrow> bool" where
  "survivors_labelled d \<longleftrightarrow> (\<forall>(i, ts) \<in> set (dm_survivors d). ts_state ts \<in> TERMINAL_STATES)"

lemma reap_each_labelled:
  assumes "reap_each env js d = (ok, table, kept, d')" "distinct (map fst js)" "survivors_labelled d"
  shows "survivors_labelled d'"
  using reap_each_survivors [OF assms(1,2)] assms(3) by (fastforce simp: survivors_labelled_def survives_as_def is_terminal_def)

lemma pass_labelled:
  assumes "reap_tick env d = (ok, d')" "distinct (map fst (dm_running d))" "survivors_labelled d"
  shows "survivors_labelled d'"
  using assms(1)
proof (cases rule: reap_tick_parts)
  case (raised table kept d1)
  then show ?thesis using reap_each_labelled [OF raised(1) assms(2,3)] by (simp add: survivors_labelled_def)
next
  case 1: (through table d1)
  then show ?thesis using reap_each_labelled [OF 1(1) assms(2,3)] by (auto simp: survivors_labelled_def)
qed

text \<open>The premise of the first property is kept by every pass.\<close>

lemma table_footprint:
  assumes "reap_each env js d = (ok, table, kept, d')" "distinct (map fst js)" "(i, rj') \<in> set table" "(i, rj) \<in> set js"
  shows "footprint rj' = footprint rj"
  using reap_each_look [OF assms(1,2,4)] assms(3) reap_one_footprint by (elim disjE exE conjE) (simp, metis)

lemma same_charge_children:
  assumes "reap_each env (dm_running d) d = (ok, table, kept, d1)" "distinct (map fst (dm_running d))" "same_charge d"
    "(i, rj') \<in> set table" "(i, ts) \<in> set (dm_survivors d1)"
  shows "footprint ts = footprint rj'"
proof -
  have "fst ` set table = fst ` set (dm_running d)" using reap_each_frame [OF assms(1)] by (metis list.set_map)
  then obtain rj where rj: "(i, rj) \<in> set (dm_running d)" using assms(4) by force
  from reap_each_survivors [OF assms(1,2,5)] show ?thesis
  proof (elim disjE exE conjE)
    assume "(i, ts) \<in> set (dm_survivors d)"
    then show ?thesis using assms(3) rj table_footprint [OF assms(1,2,4) rj] by (auto simp: same_charge_def)
  next
    fix rk s0 s assume "(i, rk) \<in> set (dm_running d)" "survives_as env rk s ts"
    then show ?thesis using table_footprint [OF assms(1,2,4)] by (auto simp: survives_as_def)
  qed
qed

lemma same_charge_pass:
  assumes "reap_tick env d = (ok, d')" "distinct (map fst (dm_running d))" "same_charge d"
  shows "same_charge d'"
  using assms(1)
proof (cases rule: reap_tick_parts)
  case (raised table kept d1)
  then show ?thesis using same_charge_children [OF raised(1) assms(2,3)] by (auto simp: same_charge_def)
next
  case 1: (through table d1)
  have "set (dm_running d') \<subseteq> set table" using reap_each_frame [OF 1(1)] by simp
  then show ?thesis using same_charge_children [OF 1(1) assms(2,3)] 1(2) by (fastforce simp: same_charge_def)
qed

lemma sigkills_after_grace:
  assumes "reap_tick env d = (ok, d')" "distinct (map fst (dm_running d))" "p \<in> set (dm_sigkilled d')"
  shows "p \<in> set (dm_sigkilled d) \<or> (\<exists>x \<in> set (dm_running d). child_killed env d p x)
    \<or> (\<exists>x \<in> set (dm_survivors d). due_survivor env p x)
    \<or> (\<exists>x \<in> set (dm_orphans d). armed_orphan env (snd (reconcile_running env d)) p x)"
  using assms(1)
proof (cases rule: reap_tick_parts)
  case (raised table kept d1)
  then show ?thesis using reap_each_kills [OF raised(1) assms(2)] assms(3) by auto
next
  case 1: (through table d1)
  have a: "armed_orphan env (snd (reconcile_running env d)) = armed_orphan env d1"
    using reconcile_running_rows [OF 1(1)] by (simp add: armed_orphan_def fun_eq_iff)
  from 1(7) [OF assms(3)] show ?thesis unfolding a
  proof (elim disjE bexE)
    assume "p \<in> set (dm_sigkilled d1)"
    from reap_each_kills [OF 1(1) assms(2) this] show "p \<in> set (dm_sigkilled d) \<or> (\<exists>x \<in> set (dm_running d). child_killed env d p x)
      \<or> (\<exists>x \<in> set (dm_survivors d). due_survivor env p x) \<or> (\<exists>x \<in> set (dm_orphans d). armed_orphan env d1 p x)" by blast
  next
    fix x assume x: "x \<in> set (dm_survivors d1)" "due_survivor env p x"
    obtain i ts where xx: "x = (i, ts)" by (cases x)
    from reap_each_survivors [OF 1(1) assms(2) x(1) [unfolded xx]]
    show "p \<in> set (dm_sigkilled d) \<or> (\<exists>x \<in> set (dm_running d). child_killed env d p x)
      \<or> (\<exists>x \<in> set (dm_survivors d). due_survivor env p x) \<or> (\<exists>x \<in> set (dm_orphans d). armed_orphan env d1 p x)"
    proof (elim disjE exE conjE)
      fix rj s0 s assume s: "(i, rj) \<in> set (dm_running d)" "spec_of d i = Some s0" "row_at_lock rj s0 s" "survives_as env rj s ts"
      have "grace_over env rj s p" using s(4) x(2)
        by (cases "rj_term_deadline rj") (auto simp: xx due_survivor_def grace_over_def survives_as_def KILL_ESCALATION_GRACE_SECONDS_def)
      then have "child_killed env d p (i, rj)" using s by (auto simp: child_killed_def)
      then show ?thesis using s(1) by blast
    qed (use x xx in blast)
  qed blast
qed

section \<open>A killed job comes to an end\<close>

text \<open>
  The entries of a killed job: none is a container, none was sent SIGKILL, all have its group, and no deadline
  is later than \<open>T\<close>. In \<open>armed\<close> every entry has a deadline.
\<close>

definition kill_pending :: "bool \<Rightarrow> rat \<Rightarrow> string \<Rightarrow> int \<Rightarrow> daemon \<Rightarrow> bool" where
  "kill_pending armed T i p d \<longleftrightarrow>
     (\<forall>rj. (i, rj) \<in> set (dm_running d) \<longrightarrow> \<not> rj_container rj \<and> \<not> rj_term_sigkilled rj
        \<and> (case rj_term_deadline rj of None \<Rightarrow> \<not> armed | Some t \<Rightarrow> t \<le> T))
     \<and> (\<forall>ts. (i, ts) \<in> set (dm_survivors d) \<longrightarrow> ts_pgid ts = p \<and> ts_deadline ts \<le> T)
     \<and> (\<forall>oj. (i, oj) \<in> set (dm_orphans d) \<longrightarrow> oj_pgid oj = p
        \<and> (case oj_term_deadline oj of None \<Rightarrow> \<not> armed | Some t \<Rightarrow> t \<le> T))"

definition untracked :: "string \<Rightarrow> daemon \<Rightarrow> bool" where
  "untracked i d \<longleftrightarrow> (\<forall>e. \<not> charged d i e)"

lemma escalate_killed:
  assumes "escalate_if_killed env i rj d = (rj', d')" "killed_row i p d" "\<not> rj_term_sigkilled rj"
  shows "p \<in> set (dm_sigkilled d') \<or> \<not> rj_term_sigkilled rj' \<and> (\<exists>t. rj_term_deadline rj' = Some t \<and> re_clock env < t
     \<and> t = the_or (re_clock env + KILL_ESCALATION_GRACE_SECONDS) (rj_term_deadline rj))"
  using assms by (auto simp: escalate_if_killed_def killed_row_def KILL_ESCALATION_GRACE_SECONDS_def split: option.splits if_splits)

lemma escalate_orphan_killed:
  assumes "escalate_orphan_if_killed env i oj d = (False, oj', d')" "killed_row i p d" "oj_pgid oj \<noteq> re_own_pgrp env"
  shows "oj_pgid oj' = oj_pgid oj \<and> (\<exists>t. oj_term_deadline oj' = Some t \<and> re_clock env < t
     \<and> t = the_or (re_clock env + KILL_ESCALATION_GRACE_SECONDS) (oj_term_deadline oj))"
  using assms by (auto simp: escalate_orphan_if_killed_def killed_row_def KILL_ESCALATION_GRACE_SECONDS_def split: option.splits if_splits)

text \<open>A child of a killed job keeps the label of its row, and gets a deadline when it stays.\<close>

lemma killed_row_kept:
  assumes "reap_each env js d = (ok, table, kept, d')" "distinct (map fst js)" "killed_row i p d"
  shows "killed_row i p d'"
proof (cases "i \<in> fst ` set js")
  case True
  then obtain rj where "(i, rj) \<in> set js" by force
  from reap_each_look [OF assms(1,2) this] show ?thesis
  proof (elim disjE exE conjE)
    fix d1 r rj' d2
    assume v: "reap_one env i rj d1 = (r, rj', d2)" "spec_of d1 i = spec_of d i" "spec_of d' i = spec_of d2 i"
    have k1: "killed_row i p d1" using assms(3) v(2) by (simp add: killed_row_def)
    from v(1) have "killed_row i p d2"
    proof (cases rule: reap_one_cases)
      case (gone s0 s rc)
      then show ?thesis using k1 by (auto simp: killed_row_def row_at_lock_def)
    qed (use k1 in \<open>simp_all add: killed_row_def\<close>)
    then show ?thesis using v(3) by (simp add: killed_row_def)
  qed (use assms(3) in \<open>simp add: killed_row_def\<close>)
next
  case False
  then show ?thesis using reap_each_frame [OF assms(1)] assms(3) by (simp add: only_rows_def killed_row_def)
qed

text \<open>A child that got a deadline in a pass, later than the pass, from the one it had.\<close>

definition given_deadline :: "reap_env \<Rightarrow> running_job \<Rightarrow> running_job \<Rightarrow> bool" where
  "given_deadline env rj rj' \<longleftrightarrow> \<not> rj_container rj' \<and> \<not> rj_term_sigkilled rj' \<and> (\<exists>t. rj_term_deadline rj' = Some t
     \<and> re_clock env < t \<and> t = the_or (re_clock env + KILL_ESCALATION_GRACE_SECONDS) (rj_term_deadline rj))"

lemma killed_child_kept:
  assumes "reap_each env js d = (ok, table, kept, d')" "distinct (map fst js)" "killed_row i p d" "(i, rj') \<in> set table"
    "\<And>rj. (i, rj) \<in> set js \<Longrightarrow> \<not> rj_container rj \<and> \<not> rj_term_sigkilled rj"
  shows "p \<in> set (dm_sigkilled d') \<or> (\<exists>rj. (i, rj) \<in> set js \<and> (given_deadline env rj rj' \<or> rj' = rj \<and> (ok \<longrightarrow> (i, rj') \<notin> set kept)))"
proof -
  have "fst ` set table = fst ` set js" using reap_each_frame [OF assms(1)] by (metis list.set_map)
  then obtain rj where rj: "(i, rj) \<in> set js" using assms(4) by force
  from reap_each_look [OF assms(1,2) rj] show ?thesis
  proof (elim disjE exE conjE)
    fix d1 r rk d2
    assume v: "reap_one env i rj d1 = (r, rk, d2)" "spec_of d1 i = spec_of d i" "set (dm_sigkilled d2) \<subseteq> set (dm_sigkilled d')"
      "\<forall>x. (i, x) \<in> set table \<longleftrightarrow> x = rk" "ok \<longrightarrow> (\<forall>x. (i, x) \<in> set kept \<longleftrightarrow> x = rk \<and> r = Kept)"
    have k1: "killed_row i p d1" using assms(3) v(2) by (simp add: killed_row_def)
    have rk: "rj' = rk" using v(4) assms(4) by simp
    from v(1) show ?thesis
    proof (cases rule: reap_one_cases)
      case kept
      then have e: "escalate_if_killed env i rj d1 = (rk, d2)" using assms(5) [OF rj] by simp
      have "p \<in> set (dm_sigkilled d2) \<or> given_deadline env rj rj'"
        using escalate_killed [OF e k1] assms(5) [OF rj] kept(6) rk by (auto simp: given_deadline_def)
      then show ?thesis using rj v(3) by blast
    qed (use rj rk v(5) in auto)
  qed (use rj assms(4) in auto)
qed

text \<open>
  One pass: unless the group is sent SIGKILL, no entry that is left has a deadline later than \<open>T\<close>; and if no exception
  ended the pass, every entry that is left has a deadline later than the pass, so that a pass at \<open>T\<close> leaves none.
\<close>

lemma kill_pending_children:
  assumes "reap_each env (dm_running d) d = (ok, table, kept, d1)" "distinct (map fst (dm_running d))" "killed_row i p d"
    "kill_pending armed T i p d" "armed \<or> re_clock env + KILL_ESCALATION_GRACE_SECONDS \<le> T"
  shows "(i, rj') \<in> set table \<Longrightarrow> p \<in> set (dm_sigkilled d1) \<or> \<not> rj_container rj' \<and> \<not> rj_term_sigkilled rj'
      \<and> (case rj_term_deadline rj' of None \<Rightarrow> \<not> armed | Some t \<Rightarrow> t \<le> T)
      \<and> (ok \<and> (i, rj') \<in> set kept \<longrightarrow> (\<exists>t. rj_term_deadline rj' = Some t \<and> re_clock env < t))"
    and "(i, ts) \<in> set (dm_survivors d1) \<Longrightarrow> ts_pgid ts = p \<and> ts_deadline ts \<le> T"
proof -
  note kp = assms(4) [unfolded kill_pending_def]
  have bound: "the_or (re_clock env + KILL_ESCALATION_GRACE_SECONDS) x \<le> T" if "case x of None \<Rightarrow> \<not> armed | Some t \<Rightarrow> t \<le> T" for x
    using that assms(5) by (cases x) auto
  show "p \<in> set (dm_sigkilled d1) \<or> \<not> rj_container rj' \<and> \<not> rj_term_sigkilled rj'
      \<and> (case rj_term_deadline rj' of None \<Rightarrow> \<not> armed | Some t \<Rightarrow> t \<le> T)
      \<and> (ok \<and> (i, rj') \<in> set kept \<longrightarrow> (\<exists>t. rj_term_deadline rj' = Some t \<and> re_clock env < t))" if m: "(i, rj') \<in> set table"
  proof (rule disjCI)
    assume np: "\<not> (\<not> rj_container rj' \<and> \<not> rj_term_sigkilled rj'
      \<and> (case rj_term_deadline rj' of None \<Rightarrow> \<not> armed | Some t \<Rightarrow> t \<le> T)
      \<and> (ok \<and> (i, rj') \<in> set kept \<longrightarrow> (\<exists>t. rj_term_deadline rj' = Some t \<and> re_clock env < t)))"
    from killed_child_kept [OF assms(1-3) m] kp
    have "p \<in> set (dm_sigkilled d1) \<or> (\<exists>rj. (i, rj) \<in> set (dm_running d) \<and> (given_deadline env rj rj' \<or> rj' = rj \<and> (ok \<longrightarrow> (i, rj') \<notin> set kept)))"
      by blast
    then show "p \<in> set (dm_sigkilled d1)"
    proof (elim disjE exE conjE)
      fix rj assume rj: "(i, rj) \<in> set (dm_running d)" "given_deadline env rj rj'"
      then show ?thesis using np bound [of "rj_term_deadline rj"] kp by (auto simp: given_deadline_def)
    qed (use np kp in auto)
  qed
  show "ts_pgid ts = p \<and> ts_deadline ts \<le> T" if m: "(i, ts) \<in> set (dm_survivors d1)"
    using reap_each_survivors [OF assms(1,2) m]
  proof (elim disjE exE conjE)
    fix rj s0 s assume s: "(i, rj) \<in> set (dm_running d)" "spec_of d i = Some s0" "row_at_lock rj s0 s" "survives_as env rj s ts"
    then have "js_pgid s = Some p" using assms(3) by (auto simp: killed_row_def row_at_lock_def)
    then show ?thesis using s kp bound [of "rj_term_deadline rj"] by (auto simp: survives_as_def)
  qed (use kp in auto)
qed

lemma kill_pending_orphan:
  assumes "looked_at env d1 K i oj b oj'" "killed_row i p d1" "p \<noteq> re_own_pgrp env" "oj_pgid oj = p"
    "case oj_term_deadline oj of None \<Rightarrow> \<not> armed | Some t \<Rightarrow> t \<le> T" "armed \<or> re_clock env + KILL_ESCALATION_GRACE_SECONDS \<le> T"
  shows "oj_pgid oj' = p \<and> (case oj_term_deadline oj' of None \<Rightarrow> \<not> armed | Some t \<Rightarrow> t \<le> T)
    \<and> (\<not> b \<longrightarrow> (\<exists>t. oj_term_deadline oj' = Some t \<and> re_clock env < t))"
proof (cases b)
  case True
  then show ?thesis using looked_at_effect(3) [OF assms(1)] assms(4,5) by simp
next
  case False
  then obtain d0 d2 where e: "spec_of d0 = spec_of d1" "escalate_orphan_if_killed env i oj d0 = (False, oj', d2)"
    using looked_at_effect(5) [OF assms(1)] by blast
  have "killed_row i p d0" using assms(2) e(1) by (simp add: killed_row_def)
  from escalate_orphan_killed [OF e(2) this] show ?thesis using assms(3-6) by (cases "oj_term_deadline oj") auto
qed

lemma kill_pending_pass:
  assumes "reap_tick env d = (ok, d')" "distinct (map fst (dm_running d))" "killed_row i p d" "p \<noteq> re_own_pgrp env"
    "kill_pending armed T i p d" "armed \<or> re_clock env + KILL_ESCALATION_GRACE_SECONDS \<le> T"
  shows "killed_row i p d' \<and> distinct (map fst (dm_running d'))
    \<and> (p \<in> set (dm_sigkilled d') \<or> kill_pending (armed \<or> ok) T i p d' \<and> (ok \<and> T \<le> re_clock env \<longrightarrow> untracked i d'))"
  using assms(1)
proof (cases rule: reap_tick_parts)
  case 1: (raised table kept d1)
  note c = kill_pending_children [OF 1(1) assms(2,3,5,6)]
  have o: "dm_orphans d1 = dm_orphans d" using reap_each_frame [OF 1(1)] by (simp add: only_rows_def)
  have "map fst table = map fst (dm_running d)" using reap_each_frame [OF 1(1)] by simp
  moreover have "killed_row i p d'" using killed_row_kept [OF 1(1) assms(2,3)] 1(2) by (simp add: killed_row_def spec_of_def)
  moreover have "p \<in> set (dm_sigkilled d') \<or> kill_pending armed T i p d'"
    using c assms(5) o unfolding kill_pending_def 1(2) by simp blast
  ultimately show ?thesis using 1(2,3) assms(2) by simp
next
  case 1: (through table d1)
  note c = kill_pending_children [OF 1(1) assms(2,3,5,6)] and kp = assms(5) [unfolded kill_pending_def]
  note row1 = killed_row_kept [OF 1(1) assms(2,3)]
  have dist: "distinct (map fst (dm_running d'))" using reap_each_charge [OF 1(1)] assms(2) by simp
  have k: "set (dm_running d') \<subseteq> set table" using reap_each_frame [OF 1(1)] by simp
  have run: "p \<in> set (dm_sigkilled d') \<or> \<not> rj_container rj' \<and> \<not> rj_term_sigkilled rj'
      \<and> (\<exists>t. rj_term_deadline rj' = Some t \<and> re_clock env < t \<and> t \<le> T)" if m: "(i, rj') \<in> set (dm_running d')" for rj'
    using c(1) [OF subsetD [OF k m]] m 1(5) by auto
  have surv: "ts_pgid ts = p \<and> re_clock env < ts_deadline ts \<and> ts_deadline ts \<le> T" if m: "(i, ts) \<in> set (dm_survivors d')" for ts
    using c(2) [of ts] m 1(2) by auto
  have orph: "oj_pgid oj' = p \<and> (case oj_term_deadline oj' of None \<Rightarrow> \<not> (armed \<or> ok) | Some t \<Rightarrow> t \<le> T)
      \<and> (ok \<longrightarrow> (\<exists>t. oj_term_deadline oj' = Some t \<and> re_clock env < t))" if m: "(i, oj') \<in> set (dm_orphans d')" for oj'
  proof -
    from 1(4) [OF m] obtain oj b where oj: "(i, oj) \<in> set (dm_orphans d)" "ok \<longrightarrow> \<not> b" "looked_at env d1 (set (dm_sigkilled d')) i oj b oj'" by blast
    have "oj_pgid oj = p" "case oj_term_deadline oj of None \<Rightarrow> \<not> armed | Some t \<Rightarrow> t \<le> T" using kp oj(1) by auto
    from kill_pending_orphan [OF oj(3) row1 assms(4) this assms(6)] show ?thesis using oj(2) by (cases "oj_term_deadline oj'") auto
  qed
  show ?thesis
  proof (cases "p \<in> set (dm_sigkilled d')")
    case False
    have "kill_pending (armed \<or> ok) T i p d'" using run surv orph False by (fastforce simp: kill_pending_def)
    moreover have "untracked i d'" if "ok" "T \<le> re_clock env"
      using run surv orph False that by (fastforce simp: untracked_def charged_def)
    ultimately show ?thesis using 1(8) [OF row1] dist by blast
  qed (use 1(8) [OF row1] dist in blast)
qed

text \<open>A killed job stays charged until its group is gone or was sent SIGKILL.\<close>

lemma killed_stays_tracked:
  assumes "reap_tick env d = (ok, d')" "distinct (map fst (dm_running d))" "killed_row i p d" "p \<noteq> re_own_pgrp env"
    "kill_pending armed T i p d" "\<not> untracked i d"
  shows "p \<in> set (dm_sigkilled d') \<or> \<not> re_pgroup_alive env p \<or> \<not> untracked i d'"
proof -
  note kp = assms(5) [unfolded kill_pending_def]
  from assms(6) consider (child) rj where "(i, rj) \<in> set (dm_running d)"
    | (survivor) ts where "(i, ts) \<in> set (dm_survivors d)" "i \<notin> fst ` set (dm_running d)"
    | (orphan) oj where "(i, oj) \<in> set (dm_orphans d)" by (force simp: untracked_def charged_def)
  then show ?thesis
  proof cases
    case child
    from child_charged_until_over [OF assms(1,2) child] show ?thesis
    proof
      assume "child_over env d (set (dm_sigkilled d')) i (footprint rj)"
      then obtain rj s0 s rc where o: "(i, rj) \<in> set (dm_running d)" "spec_of d i = Some s0" "row_at_lock rj s0 s"
        "group_over env rj rc s (set (dm_sigkilled d'))" unfolding child_over_def by blast
      have "is_terminal s" "js_pgid s = Some p" using assms(3) o(2,3) by (auto simp: killed_row_def row_at_lock_def)
      then show ?thesis using o(1,4) kp assms(4) by (auto simp: group_over_def waited_def)
    qed (auto simp: untracked_def)
  next
    case survivor
    from survivor_charged_until_over [OF assms(1) survivor(2,1)] show ?thesis
      using kp survivor(1) by (auto simp: survivor_over_def untracked_def charged_def)
  next
    case orphan
    from orphan_charged_until_over [OF assms(1) orphan] show ?thesis
      using kp orphan by (auto simp: orphan_over_def untracked_def charged_def)
  qed
qed

text \<open>
  A run of passes, with other processes writing to the queue between them. The daemon's main loop logs an exception
  that ends a pass and goes on with the next one.
\<close>

definition others :: "(queue_world \<Rightarrow> queue_world) \<Rightarrow> daemon \<Rightarrow> daemon" where
  "others f d = d\<lparr>dm_queue := f (dm_queue d)\<rparr>"

definition reap_ticks :: "((queue_world \<Rightarrow> queue_world) \<times> reap_env) list \<Rightarrow> daemon \<Rightarrow> daemon" where
  "reap_ticks es d = fold (\<lambda>(f, env) d. snd (reap_tick env (others f d))) es d"

definition keeps_killed :: "string \<Rightarrow> int \<Rightarrow> (queue_world \<Rightarrow> queue_world) \<Rightarrow> bool" where
  "keeps_killed i p f \<longleftrightarrow> (\<forall>w s. map_of (qw_disk w) i = Some s \<and> is_terminal s \<and> js_pgid s = Some p \<longrightarrow>
     (\<exists>s'. map_of (qw_disk (f w)) i = Some s' \<and> is_terminal s' \<and> js_pgid s' = Some p))"

lemma keeps_killedD: "keeps_killed i p f \<Longrightarrow> killed_row i p d \<Longrightarrow> killed_row i p (others f d)"
  by (auto simp: keeps_killed_def killed_row_def spec_of_def others_def)

lemma others_tables [simp]:
  "kill_pending a T i p (others f d) = kill_pending a T i p d" "dm_running (others f d) = dm_running d"
  "dm_sigkilled (others f d) = dm_sigkilled d" "untracked i (others f d) = untracked i d"
  by (simp_all add: kill_pending_def others_def untracked_def charged_def)

lemma reap_tick_sigkilled:
  assumes "reap_tick env d = (ok, d')"
  shows "set (dm_sigkilled d) \<subseteq> set (dm_sigkilled d')"
  using assms
proof (cases rule: reap_tick_parts)
  case (raised table kept d1)
  then show ?thesis using reap_each_frame [OF raised(1)] by (simp add: only_rows_def)
next
  case 1: (through table d1)
  have "set (dm_sigkilled d) \<subseteq> set (dm_sigkilled d1)" using reap_each_frame [OF 1(1)] by (simp add: only_rows_def)
  then show ?thesis using 1(5) by (rule subset_trans)
qed

text \<open>What a run keeps of a killed job, until its group is sent SIGKILL; \<open>g\<close>: the group was found gone.\<close>

definition kill_invariant :: "rat \<Rightarrow> string \<Rightarrow> int \<Rightarrow> bool \<Rightarrow> daemon \<Rightarrow> bool" where
  "kill_invariant T i p g d \<longleftrightarrow> p \<in> set (dm_sigkilled d)
     \<or> killed_row i p d \<and> distinct (map fst (dm_running d)) \<and> kill_pending True T i p d \<and> (g \<or> \<not> untracked i d)"

lemma kill_invariant_pass:
  assumes "kill_invariant T i p g d" "reap_tick env (others f d) = (ok, d')" "keeps_killed i p f" "p \<noteq> re_own_pgrp env"
  shows "kill_invariant T i p (g \<or> \<not> re_pgroup_alive env p) d' \<and> (ok \<and> T \<le> re_clock env \<longrightarrow> p \<in> set (dm_sigkilled d') \<or> untracked i d')"
proof (cases "p \<in> set (dm_sigkilled d)")
  case True
  then have "p \<in> set (dm_sigkilled d')" using reap_tick_sigkilled [OF assms(2)] by auto
  then show ?thesis by (simp add: kill_invariant_def)
next
  case False
  then have k: "killed_row i p (others f d)" "distinct (map fst (dm_running (others f d)))" "kill_pending True T i p (others f d)"
    "g \<or> \<not> untracked i (others f d)"
    using assms(1) keeps_killedD [OF assms(3)] by (auto simp: kill_invariant_def)
  show ?thesis using kill_pending_pass [OF assms(2) k(2,1) assms(4) k(3)] killed_stays_tracked [OF assms(2) k(2,1) assms(4) k(3)] k(4)
    by (auto simp: kill_invariant_def)
qed

lemma kill_invariant_run:
  "kill_invariant T i p g d \<Longrightarrow> \<forall>(f, env) \<in> set es. keeps_killed i p f \<and> p \<noteq> re_own_pgrp env
    \<Longrightarrow> kill_invariant T i p (g \<or> (\<exists>(f, env) \<in> set es. \<not> re_pgroup_alive env p)) (reap_ticks es d)"
proof (induction es arbitrary: d g)
  case (Cons x es)
  obtain f env where x: "x = (f, env)" by (cases x)
  obtain ok d1 where d1: "reap_tick env (others f d) = (ok, d1)" by fastforce
  have "kill_invariant T i p (g \<or> \<not> re_pgroup_alive env p) d1"
    using kill_invariant_pass [OF Cons.prems(1) d1] Cons.prems(2) by (simp add: x)
  from Cons.IH [OF this] show ?case using Cons.prems(2) d1 by (simp add: x reap_ticks_def disj_assoc)
qed (simp add: reap_ticks_def)

section \<open>A pass that raises\<close>

text \<open>A child that ended and whose row cannot be read.\<close>

definition unreadable_child :: "reap_env \<Rightarrow> daemon \<Rightarrow> string \<times> running_job \<Rightarrow> bool" where
  "unreadable_child env d x \<longleftrightarrow> (case x of (i, rj) \<Rightarrow> \<not> rj_container rj \<and> re_poll env i \<noteq> None \<and> spec_of d i = None)"

lemma unreadable_raises: "unreadable_child env d (i, rj) \<Longrightarrow> fst (reap_one env i rj d) = ReapRaised"
  by (auto simp: unreadable_child_def reap_one_def record_child_finish_def)

lemma reap_each_raises:
  "reap_each env js d = (ok, table, kept, d') \<Longrightarrow> distinct (map fst js) \<Longrightarrow>
     (list_ex (unreadable_child env d) js \<longrightarrow> \<not> ok)
     \<and> (\<not> ok \<longrightarrow> list_ex (\<lambda>x. unreadable_child env d x \<or> \<not> writable env (fst x)) js)"
proof (induction js arbitrary: d ok table kept d')
  case (Cons x js)
  obtain i rj where x: "x = (i, rj)" by (cases x)
  from Cons.prems(1) [unfolded x] show ?case
  proof (cases rule: reap_each_Cons)
    case (raised rj')
    from raised(1) have "unreadable_child env d x \<or> \<not> writable env i"
      by (cases rule: reap_one_cases) (auto simp: unreadable_child_def x)
    then show ?thesis using raised(2) by (auto simp: x)
  next
    case (visited r rj' d1 t k)
    have n: "i \<notin> fst ` set js" "distinct (map fst js)" using Cons.prems(2) by (auto simp: x)
    have u: "unreadable_child env d1 y = unreadable_child env d y" if "y \<in> set js" for y
    proof -
      have "fst y \<noteq> i" using n(1) that by auto
      then show ?thesis using reap_one_only [OF visited(1)] by (cases y) (simp add: unreadable_child_def only_row_def)
    qed
    then have "list_ex (unreadable_child env d1) js = list_ex (unreadable_child env d) js"
      "list_ex (\<lambda>x. unreadable_child env d1 x \<or> \<not> writable env (fst x)) js = list_ex (\<lambda>x. unreadable_child env d x \<or> \<not> writable env (fst x)) js"
      by (auto simp: list_ex_iff)
    then show ?thesis using Cons.IH [OF visited(3) n(2)] unreadable_raises [of env d i rj] visited(1,2) by (auto simp: x)
  qed
qed simp

lemma stalled_pass:
  assumes "distinct (map fst (dm_running d))" "list_ex (unreadable_child env d) (dm_running d)"
  shows "\<not> fst (reap_tick env d)" "map fst (dm_running (snd (reap_tick env d))) = map fst (dm_running d)"
    "footprints (dm_running (snd (reap_tick env d))) = footprints (dm_running d)" "dm_orphans (snd (reap_tick env d)) = dm_orphans d"
    "{(i, ts) \<in> set (dm_survivors d). i \<notin> fst ` set (dm_running d)} \<subseteq> set (dm_survivors (snd (reap_tick env d)))"
proof -
  obtain ok table kept d1 where r: "reap_each env (dm_running d) d = (ok, table, kept, d1)" by (metis prod_cases4)
  have "\<not> ok" using reap_each_raises [OF r assms(1)] assms(2) by blast
  then show "\<not> fst (reap_tick env d)" "map fst (dm_running (snd (reap_tick env d))) = map fst (dm_running d)"
    "footprints (dm_running (snd (reap_tick env d))) = footprints (dm_running d)" "dm_orphans (snd (reap_tick env d)) = dm_orphans d"
    "{(i, ts) \<in> set (dm_survivors d). i \<notin> fst ` set (dm_running d)} \<subseteq> set (dm_survivors (snd (reap_tick env d)))"
    using reap_each_frame [OF r] by (auto simp: reap_tick_def reconcile_running_def r only_rows_def)
qed

lemma stalled_child_stays:
  assumes "reap_each env js d = (ok, table, kept, d')" "distinct (map fst js)" "(i, rj) \<in> set js" "\<not> rj_container rj"
  shows "\<exists>rj'. (i, rj') \<in> set table \<and> \<not> rj_container rj'"
  using reap_each_look [OF assms(1-3)]
proof (elim disjE exE conjE)
  fix d1 r rk d2
  assume v: "reap_one env i rj d1 = (r, rk, d2)" "\<forall>x. (i, x) \<in> set table \<longleftrightarrow> x = rk"
  from v(1) have "\<not> rj_container rk" by (cases rule: reap_one_cases) (use assms(4) in auto)
  then show ?thesis using v(2) by blast
qed (use assms(4) in auto)

lemma stalled_passes:
  "distinct (map fst (dm_running d)) \<Longrightarrow> \<forall>(f, env) \<in> set es. re_poll env i \<noteq> None \<and> (\<forall>w. map_of (qw_disk (f w)) i = None)
    \<Longrightarrow> \<exists>rj. (i, rj) \<in> set (dm_running d) \<and> \<not> rj_container rj
    \<Longrightarrow> map fst (dm_running (reap_ticks es d)) = map fst (dm_running d) \<and> dm_orphans (reap_ticks es d) = dm_orphans d"
proof (induction es arbitrary: d)
  case (Cons x es)
  obtain f env where x: "x = (f, env)" by (cases x)
  let ?d = "others f d" and ?d' = "snd (reap_tick env (others f d))"
  obtain rj where rj: "(i, rj) \<in> set (dm_running ?d)" "\<not> rj_container rj" using Cons.prems(3) by auto
  have dist: "distinct (map fst (dm_running ?d))" using Cons.prems(1) by simp
  have "unreadable_child env ?d (i, rj)" using Cons.prems(2) rj(2) by (auto simp: x unreadable_child_def spec_of_def others_def)
  then have u: "list_ex (unreadable_child env ?d) (dm_running ?d)" using rj(1) by (auto simp: list_ex_iff)
  obtain ok table kept d1 where r: "reap_each env (dm_running ?d) ?d = (ok, table, kept, d1)" by (metis prod_cases4)
  have nok: "\<not> ok" using reap_each_raises [OF r dist] u by blast
  have run: "dm_running ?d' = table" using r nok by (simp add: reap_tick_def reconcile_running_def)
  have "\<exists>rj'. (i, rj') \<in> set (dm_running ?d') \<and> \<not> rj_container rj'" using stalled_child_stays [OF r dist rj] run by simp
  moreover have m: "map fst (dm_running ?d') = map fst (dm_running d)" "dm_orphans ?d' = dm_orphans d"
    using stalled_pass [OF dist u] by (simp_all add: others_def)
  ultimately have "map fst (dm_running (reap_ticks es ?d')) = map fst (dm_running ?d') \<and> dm_orphans (reap_ticks es ?d') = dm_orphans ?d'"
    using Cons.IH [of ?d'] Cons.prems(1,2) by simp
  then show ?case using m by (simp add: x reap_ticks_def)
qed (simp add: reap_ticks_def)

lemma raise_reasons:
  assumes "distinct (map fst (dm_running d))" "\<not> fst (reap_tick env d)"
  shows "list_ex (unreadable_child env d) (dm_running d)
    \<or> (\<exists>j. j \<in> fst ` set (dm_running d) \<union> fst ` set (dm_orphans d) \<and> \<not> qe_write_ok (re_queue env) j)"
proof -
  obtain d' where "reap_tick env d = (False, d')" using assms(2) by (metis prod.collapse)
  then show ?thesis
  proof (cases rule: reap_tick_parts)
    case (raised table kept d1)
    then obtain x where "x \<in> set (dm_running d)" "unreadable_child env d x \<or> \<not> writable env (fst x)"
      using reap_each_raises [OF raised(1) assms(1)] unfolding list_ex_iff by blast
    then show ?thesis unfolding list_ex_iff writable_def by blast
  next
    case (through table d1)
    then obtain i oj where "(i, oj) \<in> set (dm_orphans d)" "\<not> writable env i" by blast
    then show ?thesis unfolding writable_def by force
  qed
qed

section \<open>Examples\<close>

definition sample_reap_env :: "rat \<Rightarrow> (string \<Rightarrow> int option) \<Rightarrow> reap_env" where
  "sample_reap_env now poll = \<lparr>re_queue = sample_queue_env, re_clock = now, re_poll = poll,
     re_container_poll = (\<lambda>_ _. Inr None), re_container_result = (\<lambda>_ _. None), re_pgroup_alive = (\<lambda>_. True),
     re_own_pgrp = 1, re_exit_marker = (\<lambda>_. None)\<rparr>"

text \<open>A job that was killed while it ran as group 77, and one that runs on.\<close>

definition killed_daemon :: daemon where
  "killed_daemon = (sample_daemon [sample_spec ''k''\<lparr>js_state := KILLED, js_pgid := Some 77\<rparr>, sample_spec ''r''\<lparr>js_state := RUNNING\<rparr>])
     \<lparr>dm_running := [(''k'', new_running False [] (sample_spec ''k'')), (''r'', new_running False [] (sample_spec ''r''))]\<rparr>"

section \<open>Properties\<close>



lemma keeps_killed_id [simp]: "keeps_killed i p (\<lambda>w. w)" by (simp add: keeps_killed_def)


text \<open>
  C18: SIGKILL is never sent early or at random, also in a pass that an exception ends. A group that a pass sends
  SIGKILL belongs to

  \<^item> a child whose row is terminal and whose deadline is over, or a child whose wrapper ended without having waited for
    its command (the row is paused, or a signal ended the wrapper and the row is not terminal), and then it is not the
    daemon's own group;
  \<^item> a survivor with a terminal label whose deadline is over and whose group still answers;
  \<^item> an orphan whose row is terminal when the pass looks at it and whose deadline is over; never the daemon's own group.

  Deadlines are honest: one that a pass finds in place or sets to one grace after the pass, and it sets one only for a
  job whose row is terminal. And every survivor carries a terminal label.
\<close>

theorem sigkill_justified:
  assumes "reap_tick env d = (ok, d')" "distinct (map fst (dm_running d))" "survivors_labelled d"
  shows "(\<forall>p \<in> set (dm_sigkilled d'). p \<in> set (dm_sigkilled d)
      \<or> (\<exists>(i, rj) \<in> set (dm_running d). \<exists>s0 s. spec_of d i = Some s0 \<and> row_at_lock rj s0 s \<and> js_pgid s = Some p
           \<and> (is_terminal s \<and> (\<exists>t. rj_term_deadline rj = Some t \<and> t \<le> re_clock env)
              \<or> (\<exists>rc. child_exit env i rj s0 = Some rc \<and> p \<noteq> re_own_pgrp env
                   \<and> (js_state s = SUSPENDED \<or> js_pause_intent_at s \<noteq> None \<or> rc < 0 \<and> \<not> is_terminal s))))
      \<or> (\<exists>(i, ts) \<in> set (dm_survivors d). p = ts_pgid ts \<and> re_pgroup_alive env p \<and> ts_deadline ts \<le> re_clock env
           \<and> ts_state ts \<in> TERMINAL_STATES)
      \<or> (\<exists>(i, oj) \<in> set (dm_orphans d). p = oj_pgid oj \<and> p \<noteq> re_own_pgrp env
           \<and> (\<exists>t. oj_term_deadline oj = Some t \<and> t \<le> re_clock env)
           \<and> (\<exists>s. spec_of (snd (reconcile_running env d)) i = Some s \<and> is_terminal s)))
    \<and> (\<forall>i t. deadline_of d' i t \<longrightarrow> deadline_of d i t \<or> t = re_clock env + KILL_ESCALATION_GRACE_SECONDS
           \<and> (\<exists>s. spec_of (snd (reconcile_running env d)) i = Some s \<and> is_terminal s))
    \<and> survivors_labelled d'"
proof (intro conjI allI ballI impI)
  fix p assume p: "p \<in> set (dm_sigkilled d')"
  have "\<forall>(i, ts) \<in> set (dm_survivors d). ts_state ts \<in> TERMINAL_STATES" using assms(3) by (simp add: survivors_labelled_def)
  with sigkills_after_grace [OF assms(1,2) p]
  show "p \<in> set (dm_sigkilled d)
      \<or> (\<exists>(i, rj) \<in> set (dm_running d). \<exists>s0 s. spec_of d i = Some s0 \<and> row_at_lock rj s0 s \<and> js_pgid s = Some p
           \<and> (is_terminal s \<and> (\<exists>t. rj_term_deadline rj = Some t \<and> t \<le> re_clock env)
              \<or> (\<exists>rc. child_exit env i rj s0 = Some rc \<and> p \<noteq> re_own_pgrp env
                   \<and> (js_state s = SUSPENDED \<or> js_pause_intent_at s \<noteq> None \<or> rc < 0 \<and> \<not> is_terminal s))))
      \<or> (\<exists>(i, ts) \<in> set (dm_survivors d). p = ts_pgid ts \<and> re_pgroup_alive env p \<and> ts_deadline ts \<le> re_clock env
           \<and> ts_state ts \<in> TERMINAL_STATES)
      \<or> (\<exists>(i, oj) \<in> set (dm_orphans d). p = oj_pgid oj \<and> p \<noteq> re_own_pgrp env
           \<and> (\<exists>t. oj_term_deadline oj = Some t \<and> t \<le> re_clock env)
           \<and> (\<exists>s. spec_of (snd (reconcile_running env d)) i = Some s \<and> is_terminal s))"
    unfolding child_killed_def due_survivor_def grace_over_def stranded_def armed_orphan_def by fast
next
  show "deadline_of d i t \<or> t = re_clock env + KILL_ESCALATION_GRACE_SECONDS
      \<and> (\<exists>s. spec_of (snd (reconcile_running env d)) i = Some s \<and> is_terminal s)" if "deadline_of d' i t" for i t
    using pass_deadlines [OF assms(1,2) that] by (simp add: new_deadline_def terminal_row_def)
qed (rule pass_labelled [OF assms])

theorem sigkill_justified_witness:
  "let env = sample_reap_env 0 (\<lambda>i. if i = ''r'' then Some (-9) else None) in 77 \<notin> set (dm_sigkilled (snd (reap_tick env killed_daemon)))"
proof -
  define env where "env = sample_reap_env 0 (\<lambda>i. if i = ''r'' then Some (-9) else None)"
  have t: "reap_tick env killed_daemon = (fst (reap_tick env killed_daemon), snd (reap_tick env killed_daemon))" by simp
  have n: "dm_survivors killed_daemon = []" "dm_orphans killed_daemon = []" "dm_sigkilled killed_daemon = []"
    "distinct (map fst (dm_running killed_daemon))" "survivors_labelled killed_daemon"
    by (simp_all add: killed_daemon_def sample_daemon_def survivors_labelled_def)
  have "77 \<notin> set (dm_sigkilled (snd (reap_tick env killed_daemon)))"
  proof
    assume "77 \<in> set (dm_sigkilled (snd (reap_tick env killed_daemon)))"
    with conjunct1 [OF sigkill_justified [OF t n(4,5)]] n(1-3) show False
      by (fastforce simp: killed_daemon_def sample_daemon_def new_running_def child_exit_def env_def sample_reap_env_def
          row_at_lock_def spec_of_def sample_spec_def new_job_spec_def)
  qed
  then show ?thesis by (simp add: env_def)
qed



text \<open>
  Such a pass records the failure of a child before it raises, and the next one records it again: a job that ran once
  spends its whole retry budget.
\<close>

definition stalled_daemon :: daemon where
  "stalled_daemon = (sample_daemon [sample_spec ''a''\<lparr>js_state := RUNNING, js_retry_max := 2\<rparr>])
     \<lparr>dm_running := [(''a'', new_running False [] (sample_spec ''a'')), (''b'', new_running False [] (sample_spec ''b''))]\<rparr>"

lemma stalled_pass_spends_retries:
  "let env = sample_reap_env 0 (\<lambda>_. Some 1); pass = (\<lambda>d. snd (reap_tick env d)) in
   map_option (\<lambda>s. (js_state s, js_retry_count s)) (spec_of (pass stalled_daemon) ''a'') = Some (PENDING, 1)
   \<and> map_option (\<lambda>s. (js_state s, js_retry_count s)) (spec_of (pass (pass stalled_daemon)) ''a'') = Some (PENDING, 2)
   \<and> map_option js_state (spec_of (pass (pass (pass stalled_daemon))) ''a'') = Some FAILED"
  by code_simp

end
