(* ===== verification/Daemon_Dispatch.thy ===== *)
theory Daemon_Dispatch
  imports Scheduler_Submit Daemon_Reap
begin

text \<open>
  One dispatch pass of the single-user daemon, \<open>_dispatch_pending\<close> of \<open>daemon.py\<close>: the holds that stop a
  whole pass, the tallies of what is in use, the reservations of scheduler rows that nothing tracks, the
  refresh of a program environment before the next job, and the loop that visits the pending jobs in
  fair order and starts those that every gate admits.

  The scan of the queue directory, the effective drain state, the marker of an admin update, the clocks
  and, for each job, the environment of its start are arguments. The loop polls the local
  children between submits (\<open>Daemon_Reap\<close>); the reconciliation of the scheduler jobs, with which a pass may end,
  is an argument.
\<close>

section \<open>Arguments and state of a pass\<close>

record dispatch_env =
  de_specs :: "job_spec list" \<comment> \<open>the scan\<close>
  de_settled :: specs
  de_now :: int
  de_parse_iso :: "string \<Rightarrow> iso_stamp"
  de_hosts :: hosts
  de_marker :: "string list option option" \<comment> \<open>the live admin-update marker's scope\<close>
  de_config_unusable :: bool
  de_drain :: "drain_state option"
  de_cluster :: "string \<Rightarrow> cluster_env"
  de_submit_clock :: "string \<Rightarrow> rat"
  de_deadline_passed :: "string \<Rightarrow> bool"
  de_reap :: "string \<Rightarrow> reap_env" \<comment> \<open>what the poll of the children after this job finds\<close>
  de_reconcile_scheduler :: "daemon \<Rightarrow> daemon"
  de_new_jobid :: string
  de_build_command :: "string \<Rightarrow> string list"
  de_build_workspace :: "string \<Rightarrow> string + string" \<comment> \<open>the directory made for it, or the error\<close>
  de_build_wall_time :: int
  de_now_iso :: string
  de_queue :: queue_env

record pass =
  pa_daemon :: daemon
  pa_admission :: scheduler_admission
  pa_reservations :: "job_spec list"
  pa_local_active :: int
  pa_used_cpus :: int
  pa_used_mem :: int
  pa_scheduler_active :: int
  pa_busy_gpus :: "string list"
  pa_last_target :: "string option"
  pa_log :: "(job_spec \<times> job_spec \<times> job_spec option \<times> start_result) list"
    \<comment> \<open>each start: the scanned spec, the re-read one, the row afterwards, the result\<close>

section \<open>What is in use\<close>

definition charged_mem :: "daemon_view \<Rightarrow> int option \<Rightarrow> int" where
  "charged_mem v m = the_or 0 (eff_mem_mb v m)"

definition SCHEDULER_UNTRACKABLE_RESERVATION_SECONDS :: int where
  "SCHEDULER_UNTRACKABLE_RESERVATION_SECONDS = 900"

definition untracked_spec_still_reserves :: "dispatch_env \<Rightarrow> job_spec \<Rightarrow> bool" where
  "untracked_spec_still_reserves env s \<longleftrightarrow> js_scheduler_job_id s \<noteq> None \<or>
     (case (if js_last_heartbeat_at s \<in> {None, Some []} then js_started_at s else js_last_heartbeat_at s) of
        None \<Rightarrow> True
      | Some marked_at \<Rightarrow> (case de_parse_iso env marked_at of
          IsoBad _ \<Rightarrow> True
        | IsoNaive t \<Rightarrow> de_now env - t < SCHEDULER_UNTRACKABLE_RESERVATION_SECONDS * 1000000
        | IsoAware t \<Rightarrow> de_now env - t < SCHEDULER_UNTRACKABLE_RESERVATION_SECONDS * 1000000))"

definition untracked_scheduler_reservations :: "dispatch_env \<Rightarrow> daemon \<Rightarrow> job_spec list \<Rightarrow> job_spec list" where
  "untracked_scheduler_reservations env d specs = (let loose = filter (\<lambda>s. map_of (dm_scheduler_running d) (js_id s) = None) specs in
     filter (\<lambda>s. js_scheduler_state s = Some ''reattach_failed'' \<and> js_state s \<in> {RUNNING, SUSPENDED}
               \<and> untracked_spec_still_reserves env s) loose
     @ filter (\<lambda>s. js_scheduler_state s = Some ''scheduler_reconciliation_quarantined'' \<and> js_state s \<in> {RUNNING, SUSPENDED}) loose
     @ filter (\<lambda>s. js_state s \<in> {SUBMITTING, SUBMIT_OUTCOME_UNKNOWN}) loose
     @ filter (\<lambda>s. is_terminal s \<and> scheduler_state_in s AMBIGUOUS_AFTER_TERMINAL) loose)"

definition live_allocations :: "daemon \<Rightarrow> scheduler_job list" where
  "live_allocations d = filter (\<lambda>j. \<not> sj_allocation_finished j) (map snd (dm_scheduler_running d))"

definition array_slots :: "scheduler_job \<Rightarrow> int" where
  "array_slots j = max 1 (case sj_array_size j of None \<Rightarrow> 1 | Some n \<Rightarrow> if n = 0 then 1 else n)"

definition pass_start ::
  "dispatch_env \<Rightarrow> daemon \<Rightarrow> (string \<times> rat) list \<Rightarrow> string option \<Rightarrow> pass" where
  "pass_start env d last_attempts last_target = (let v = dm_view d; untracked = untracked_scheduler_reservations env d (de_specs env) in
     \<lparr>pa_daemon = d,
      pa_admission = make_admission (de_hosts env)
        (map (\<lambda>j. (Some (sj_target j), array_slots j)) (live_allocations d)
         @ map (\<lambda>s. (js_scheduler_target s, 1)) untracked) last_attempts,
      pa_reservations = untracked,
      pa_local_active = int (length (local_table d)),
      pa_used_cpus = sum_list (map lj_cpus (local_table d)),
      pa_used_mem = sum_list (map (charged_mem v \<circ> lj_mem_mb) (local_table d)),
      pa_scheduler_active = int (length (live_allocations d)) + int (length untracked),
      pa_busy_gpus = remdups (concat (map lj_gpu_devices (local_table d))),
      pa_last_target = last_target, pa_log = []\<rparr>)"

section \<open>Holds\<close>

text \<open>\<open>None\<close>: nothing is dispatched in this pass. Else the targets an admin update holds.\<close>

definition pass_holds :: "dispatch_env \<Rightarrow> daemon \<Rightarrow> string list option" where
  "pass_holds env d = (case de_marker env of
      Some None \<Rightarrow> None
    | m \<Rightarrow>
        if de_config_unusable env then None
        else if (case de_drain env of None \<Rightarrow> False | Some s \<Rightarrow> is_full_drain s) then None
        else if dv_host_pressure (dm_view d) then None
        else Some (case m of Some (Some scope) \<Rightarrow> scope | _ \<Rightarrow> []))"

definition pass_max_jobs :: "dispatch_env \<Rightarrow> daemon_view \<Rightarrow> int option" where
  "pass_max_jobs env v = (case de_drain env of None \<Rightarrow> dv_max_jobs v | Some s \<Rightarrow> effective_max_jobs s (dv_max_jobs v))"

definition pass_max_cpus :: "dispatch_env \<Rightarrow> daemon_view \<Rightarrow> int" where
  "pass_max_cpus env v = (case de_drain env of None \<Rightarrow> dv_max_cpus v | Some s \<Rightarrow> effective_max_cpus s (dv_max_cpus v))"

definition held_by_admin_update :: "string list \<Rightarrow> job_spec \<Rightarrow> bool" where
  "held_by_admin_update scope s \<longleftrightarrow> (case js_scheduler_target s of
      Some t \<Rightarrow> t \<in> set scope | None \<Rightarrow> LOCAL_DISPATCH_SCOPE \<in> set scope)"

definition running_builds :: "job_spec list \<Rightarrow> job_spec list" where
  "running_builds specs = filter (\<lambda>s. js_build_env s \<noteq> None \<and> js_state s = RUNNING) specs"

definition blocked_by_running_build :: "job_spec list \<Rightarrow> job_spec \<Rightarrow> bool" where
  "blocked_by_running_build specs s \<longleftrightarrow> (let builds = running_builds specs; envs = map js_build_env builds in
     builds \<noteq> [] \<and> (js_scheduler_target s = None
       \<or> list_ex (\<lambda>dep. dep \<in> set (map js_id builds)) (js_depends_on s)
       \<or> js_build_env s \<noteq> None
       \<or> js_refresh_before s \<in> set envs
       \<or> js_program s \<in> set envs))"

section \<open>Rebuilding an environment before the next job\<close>

definition BUILD_JOB_PRIORITY :: int where "BUILD_JOB_PRIORITY = 1000000"

definition find_build_job :: "string \<Rightarrow> job_spec list \<Rightarrow> string option" where
  "find_build_job e specs = map_option js_id (find (\<lambda>s. js_build_env s = Some e \<and> \<not> is_terminal s) specs)"

definition build_spec :: "dispatch_env \<Rightarrow> daemon_view \<Rightarrow> string \<Rightarrow> string \<Rightarrow> job_spec \<Rightarrow> job_spec" where
  "build_spec env v workspace e like = (new_job_spec (de_new_jobid env) (de_build_command env e) workspace (dv_max_cpus v) (de_now_iso env))
     \<lparr>js_mem_mb := dv_max_mem_mb v, js_priority := BUILD_JOB_PRIORITY, js_build_env := Some e,
      js_wall_time_seconds := Some (de_build_wall_time env), js_job_name := Some (''build-'' @ e),
      js_submitter := js_submitter like\<rparr>"

text \<open>\<open>Inl\<close>: the error of the directory or of the write.\<close>

definition create_build_job :: "dispatch_env \<Rightarrow> string \<Rightarrow> job_spec \<Rightarrow> daemon \<Rightarrow> (string + string) \<times> daemon" where
  "create_build_job env e like d = (let i = de_new_jobid env in
     case de_build_workspace env i of
       Inl err \<Rightarrow> (Inl err, d)
     | Inr workspace \<Rightarrow>
         if \<not> qe_write_ok (de_queue env) i then (Inl ''the spec file cannot be written'', d)
         else (Inr i, write_row (build_spec env (dm_view d) workspace e like) i d))"

text \<open>The job waits for the build; \<open>None\<close> when the write raises.\<close>

definition attach_build :: "dispatch_env \<Rightarrow> string \<Rightarrow> string \<Rightarrow> daemon \<Rightarrow> bool option \<times> daemon" where
  "attach_build env build_id i d = (case spec_of d i of
      None \<Rightarrow> (Some False, d)
    | Some fresh \<Rightarrow>
        if js_state fresh \<noteq> PENDING then (Some False, d)
        else if \<not> qe_write_ok (de_queue env) i then (None, d)
        else (Some True, write_row (fresh\<lparr>js_depends_on := (if build_id \<in> set (js_depends_on fresh) then js_depends_on fresh
                else js_depends_on fresh @ [build_id]), js_refresh_before := None\<rparr>) i d))"

text \<open>Whether the pass is held, or \<open>None\<close> when an exception ends it.\<close>

definition maybe_refresh_before_run :: "dispatch_env \<Rightarrow> job_spec \<Rightarrow> job_spec list \<Rightarrow> daemon \<Rightarrow> bool option \<times> daemon" where
  "maybe_refresh_before_run env next specs d = (case js_refresh_before next of
      None \<Rightarrow> (Some False, d)
    | Some e \<Rightarrow> (case find_build_job e specs of
        Some build_id \<Rightarrow> attach_build env build_id (js_id next) d
      | None \<Rightarrow>
          if local_table d \<noteq> [] then (Some True, d)
          else case create_build_job env e next d of
            (Inl err, d) \<Rightarrow> (case fail_refresh_job (de_queue env) (js_id next)
                (''could not create build job for env '' @ py_quote e @ '': '' @ err) (dm_queue d) of
                (b, w) \<Rightarrow> (Some b, d\<lparr>dm_queue := w\<rparr>))
          | (Inr build_id, d) \<Rightarrow> attach_build env build_id (js_id next) d))"

section \<open>The gates of one job\<close>

definition impossible_build :: "daemon_view \<Rightarrow> job_spec \<Rightarrow> string option" where
  "impossible_build v s = (
     if js_scheduler_target s \<noteq> None \<or> js_build_env s = None then None
     else if dv_max_cpus v < js_cpus s
     then Some (''requests '' @ show_int (js_cpus s) @ '' cpus but this daemon caps at --max-cpus '' @ show_int (dv_max_cpus v))
     else case (dv_max_mem_mb v, eff_mem_mb v (js_mem_mb s)) of
       (Some cap, Some m) \<Rightarrow> if cap < m
         then Some (''requests '' @ show_int m @ '' MB but this daemon caps at --max-mem-mb '' @ show_int cap) else None
     | _ \<Rightarrow> None)"

text \<open>The devices a local job may start on.\<close>

definition admit_local :: "dispatch_env \<Rightarrow> pass \<Rightarrow> job_spec \<Rightarrow> string list option" where
  "admit_local env p s = (let v = dm_view (pa_daemon p) in
     if (case pass_max_jobs env v of None \<Rightarrow> False | Some m \<Rightarrow> m \<le> pa_local_active p) then None
     else if pass_max_cpus env v < pa_used_cpus p + js_cpus s then None
     else if (case (dv_max_mem_mb v, eff_mem_mb v (js_mem_mb s)) of
         (Some cap, Some m) \<Rightarrow> cap < pa_used_mem p + m | _ \<Rightarrow> False) then None
     else case js_gpus s of
       None \<Rightarrow> Some []
     | Some n \<Rightarrow> let free = filter (\<lambda>g. g \<notin> set (pa_busy_gpus p)) (dv_gpu_devices v) in
         if int (length free) < n then None else Some (take (nat n) free))"

definition admit_scheduler :: "dispatch_env \<Rightarrow> pass \<Rightarrow> job_spec \<Rightarrow> bool" where
  "admit_scheduler env p s \<longleftrightarrow>
     \<not> (case de_drain env of None \<Rightarrow> False | Some ds \<Rightarrow> drains_scheduler_target ds (js_scheduler_target s))
     \<and> (case dv_max_scheduler_jobs (dm_view (pa_daemon p)) of None \<Rightarrow> True | Some m \<Rightarrow> \<not> m \<le> pa_scheduler_active p)"

definition admit :: "dispatch_env \<Rightarrow> pass \<Rightarrow> job_spec \<Rightarrow> string list option" where
  "admit env p s = (if js_scheduler_target s = None then admit_local env p s
     else if admit_scheduler env p s then Some [] else None)"

section \<open>Starting one job\<close>

definition charge :: "pass \<Rightarrow> job_spec \<Rightarrow> string list \<Rightarrow> pass" where
  "charge p fresh gpus = (case js_scheduler_target fresh of
      None \<Rightarrow> p\<lparr>pa_local_active := pa_local_active p + 1, pa_used_cpus := pa_used_cpus p + js_cpus fresh,
        pa_used_mem := pa_used_mem p + charged_mem (dm_view (pa_daemon p)) (js_mem_mb fresh),
        pa_busy_gpus := pa_busy_gpus p @ gpus\<rparr>
    | Some t \<Rightarrow> p\<lparr>pa_scheduler_active := pa_scheduler_active p + 1, pa_admission := reserve_slot (pa_admission p) (Some t)\<rparr>)"

text \<open>An ambiguous submit of this very pass becomes a reservation of it.\<close>

definition reserve_ambiguous :: "pass \<Rightarrow> string \<Rightarrow> pass" where
  "reserve_ambiguous p i = (case spec_of (pa_daemon p) i of
      Some reserved \<Rightarrow>
        if js_state reserved \<in> {SUBMITTING, SUBMIT_OUTCOME_UNKNOWN} \<and> js_id reserved \<notin> set (map js_id (pa_reservations p))
        then p\<lparr>pa_reservations := pa_reservations p @ [reserved], pa_scheduler_active := pa_scheduler_active p + 1,
               pa_admission := reserve_slot (pa_admission p) (js_scheduler_target reserved)\<rparr>
        else p
    | None \<Rightarrow> p)"

text \<open>How the visit of a job ends: the loop goes on, stops, stops with a reconciliation, or an exception leaves it.\<close>

datatype visit = NextJob | BuildStarted | YieldPass | StartFault | ReapFault

definition settle_start :: "dispatch_env \<Rightarrow> job_spec \<Rightarrow> job_spec \<Rightarrow> string list \<Rightarrow> start_result \<Rightarrow> pass \<Rightarrow> visit \<times> pass" where
  "settle_start env spec fresh gpus r p = (let d = pa_daemon p; scheduled = js_scheduler_target fresh \<noteq> None;
       tracked = map_of (dm_scheduler_running d) (js_id fresh) \<noteq> None in
     case (if scheduled \<and> dm_running d \<noteq> [] then reconcile_running (de_reap env (js_id spec)) d else (True, d)) of
       (False, d) \<Rightarrow> (ReapFault, p\<lparr>pa_daemon := d\<rparr>)
     | (True, d) \<Rightarrow>
         (if r = Started \<and> js_build_env fresh \<noteq> None then BuildStarted
          else if scheduled \<and> de_deadline_passed env (js_id spec) then YieldPass else NextJob,
          if r = Started \<or> scheduled \<and> tracked then charge (p\<lparr>pa_daemon := d\<rparr>) fresh gpus else p\<lparr>pa_daemon := d\<rparr>))"

definition start_fresh :: "dispatch_env \<Rightarrow> job_spec \<Rightarrow> job_spec \<Rightarrow> string list \<Rightarrow> pass \<Rightarrow> visit \<times> pass" where
  "start_fresh env spec fresh gpus p0 = (case start_job (de_cluster env (js_id spec)) gpus fresh (pa_daemon p0) of (r, d) \<Rightarrow>
     let p1 = p0\<lparr>pa_daemon := d, pa_log := (spec, fresh, spec_of d (js_id fresh), r) # pa_log p0\<rparr> in
     if r = StartRaised then (StartFault, p1)
     else settle_start env spec fresh gpus r
       (if js_scheduler_target fresh \<noteq> None \<and> r \<noteq> Started \<and> map_of (dm_scheduler_running d) (js_id fresh) = None
        then reserve_ambiguous p1 (js_id fresh) else p1))"

definition dispatch_one :: "dispatch_env \<Rightarrow> string list \<Rightarrow> job_spec list \<Rightarrow> job_spec \<Rightarrow> pass \<Rightarrow> visit \<times> pass" where
  "dispatch_one env held specs spec p = (
     if blocked_by_running_build specs spec \<or> held_by_admin_update held spec \<or> js_refresh_before spec \<noteq> None then (NextJob, p)
     else case impossible_build (dm_view (pa_daemon p)) spec of
       Some why \<Rightarrow> (NextJob, p\<lparr>pa_daemon := (pa_daemon p)\<lparr>dm_queue :=
           snd (fail_impossible_spec (de_queue env) spec why (dm_queue (pa_daemon p)))\<rparr>\<rparr>)
     | None \<Rightarrow> (case admit env p spec of
         None \<Rightarrow> (NextJob, p)
       | Some gpus \<Rightarrow> (case spec_of (pa_daemon p) (js_id spec) of
           None \<Rightarrow> (NextJob, p)
         | Some fresh \<Rightarrow>
             if js_state fresh \<noteq> PENDING then (NextJob, p)
             else case js_scheduler_target fresh of
               None \<Rightarrow> start_fresh env spec fresh gpus p
             | Some t \<Rightarrow>
                 let now = de_submit_clock env (js_id spec) in
                 if \<not> can_attempt (pa_admission p) t now then (NextJob, p)
                 else start_fresh env spec fresh gpus (p\<lparr>pa_admission := attempted (pa_admission p) t now,
                        pa_last_target := Some (canonical (pa_admission p) t)\<rparr>))))"

fun dispatch_loop :: "dispatch_env \<Rightarrow> string list \<Rightarrow> job_spec list \<Rightarrow> job_spec list \<Rightarrow> pass \<Rightarrow> visit \<times> pass" where
  "dispatch_loop env held specs [] p = (NextJob, p)"
| "dispatch_loop env held specs (s # ss) p = (case dispatch_one env held specs s p of
      (NextJob, p) \<Rightarrow> dispatch_loop env held specs ss p | (v, p) \<Rightarrow> (v, p))"

section \<open>The pass\<close>

text \<open>The specs after the dependency cascade, and the jobs that may be dispatched.\<close>

definition pass_candidates :: "dispatch_env \<Rightarrow> daemon \<Rightarrow> job_spec list \<times> job_spec list \<times> daemon" where
  "pass_candidates env d = (
     let by_id = resolve_settled_dependencies (de_settled env) (de_specs env) (specs_by_id (de_specs env)) in
     case cascade_all (de_queue env) (de_specs env) by_id (dm_queue d) of
       (specs, by_id, w) \<Rightarrow> (specs, pending_candidates (de_now env) specs by_id, d\<lparr>dm_queue := w\<rparr>))"

definition dispatch_pending ::
  "dispatch_env \<Rightarrow> (string \<times> rat) list \<Rightarrow> string option \<Rightarrow> daemon \<Rightarrow> (visit \<times> pass) option \<times> daemon" where
  "dispatch_pending env last_attempts last_target d = (case pass_holds env d of
      None \<Rightarrow> (None, d)
    | Some held \<Rightarrow>
        let p = pass_start env d last_attempts last_target in
        case pass_candidates env d of (specs, pending, d1) \<Rightarrow>
          (case (if pending = [] then (Some False, d1) else maybe_refresh_before_run env (hd pending) specs d1) of
             (Some False, d2) \<Rightarrow>
               (case dispatch_loop env held specs
                     (fair_resource_dispatch_order (pa_admission p) last_target pending) (p\<lparr>pa_daemon := d2\<rparr>) of
                 (v, p') \<Rightarrow> (Some (v, p'), if v = YieldPass then de_reconcile_scheduler env (pa_daemon p') else pa_daemon p'))
           | (_, d2) \<Rightarrow> (None, d2)))"

section \<open>What a start does to the local tables\<close>

text \<open>
  The caps and the three tables of local processes, and the scheduler jobs other than the one that is started:
  the scheduler side of a start touches none of them.
\<close>

definition local_side :: "daemon \<Rightarrow> daemon_view \<times> (string \<times> running_job) list \<times> (string \<times> orphan_job) list \<times> (string \<times> terminal_survivor) list" where
  "local_side d = (dm_view d, dm_running d, dm_orphans d, dm_survivors d)"

definition side :: "string \<Rightarrow> daemon \<Rightarrow> _" where
  "side i d = (local_side d, AList.delete i (dm_scheduler_running d))"

lemma delete_update_same [simp]: "AList.delete i (AList.update i v xs) = AList.delete i xs"
  by (induction xs) auto

lemma side_simps [simp]:
  "side i (write_row s j d) = side i d" "side i (log_row j a b d) = side i d"
  "side i (others_write env n d) = side i d" "side i (track i sj d) = side i d"
  "side i (untrack i d) = side i d" "side i (d\<lparr>dm_submits := x\<rparr>) = side i d"
  "side i (d\<lparr>dm_admission_retry_at := y\<rparr>) = side i d" "side i (d\<lparr>dm_queue := w\<rparr>) = side i d"
  "side i (d\<lparr>dm_launched := z\<rparr>) = side i d" "side i (d\<lparr>dm_sigkilled := z\<rparr>) = side i d"
  by (simp_all add: side_def local_side_def write_row_def log_row_def others_write_def track_def untrack_def AList.delete_idem)

lemma side_commit:
  "(\<And>d. side i (snd (k d)) = side i d) \<Longrightarrow> side i (snd (commit_row ce s i k d)) = side i d"
  by (simp add: commit_row_def)

lemma side_unless:
  "side i (snd x) = side i d \<Longrightarrow> (\<And>r d'. side i (snd (k r d')) = side i d')
    \<Longrightarrow> side i (snd (unless_raised x k)) = side i d"
  by (auto simp: unless_raised_def split: prod.splits start_result.splits)

lemmas side_intros = side_commit side_unless

lemma side_fail [simp]: "side i (snd (fail_dispatch env spec reason ec d)) = side i d"
  by (simp add: fail_dispatch_def Let_def)

lemma side_transaction [simp]:
  "side i (snd (fail_scheduler_dispatch_transaction ce i s target reason d)) = side i d"
  by (simp add: fail_scheduler_dispatch_transaction_def commit_row_def)

lemma side_mark [simp]: "side i (snd (mark_scheduler_submit_outcome_unknown ce i st reason d)) = side i d"
  by (simp add: mark_scheduler_submit_outcome_unknown_def Let_def commit_row_def split: option.split)

lemma side_terminalize [simp]:
  "side i (snd (terminalize_unadmitted_scheduler_submit ce i reason a b d)) = side i d"
  by (simp add: terminalize_unadmitted_scheduler_submit_def Let_def commit_row_def split: option.split)

lemma side_settle [simp]: "side i (snd (settle_cancelled ce i jid d)) = side i d"
  by (simp add: settle_cancelled_def Let_def commit_row_def split: option.split)

lemma side_cancel [simp]:
  "side i (snd (cancel_recovered_terminal_scheduler_submit ce i jid target d)) = side i d"
  by (simp add: cancel_recovered_terminal_scheduler_submit_def Let_def commit_row_def split: option.split)

lemma side_persist [simp]: "side i (snd (persist_recovered_scheduler_job_id ce i jid d)) = side i d"
  by (simp add: persist_recovered_scheduler_job_id_def Let_def commit_row_def split: option.split)

lemma side_fence [simp]: "side i (snd (apply_scheduler_start_fence ce i spec d)) = side i d"
  by (simp add: apply_scheduler_start_fence_def settled_by_def Let_def side_unless
      split: sum.split option.split fence_outcome.split)

lemma side_bind [simp]: "side i (snd (bind_recovered ce i jid target d)) = side i d"
  by (simp add: bind_recovered_def Let_def commit_row_def split: option.split)

lemma side_adopt [simp]: "side i (snd (adopt_acceptance ce i spec jid target d)) = side i d"
  unfolding adopt_acceptance_def Let_def by (auto intro!: side_unless split: option.split)

lemma side_reconcile [simp]: "side i (snd (reconcile_unconfirmed_scheduler_submit ce i spec d)) = side i d"
  unfolding reconcile_unconfirmed_scheduler_submit_def Let_def
  by (simp add: side_unless split: option.split sum.split list.split receipt.split)

lemma side_accept [simp]: "side i (snd (accept_scheduler ce i target s jid n d)) = side i d"
  by (simp add: accept_scheduler_def Let_def)

lemma side_submit [simp]: "side i (snd (submit_claimed ce i target s d)) = side i d"
  unfolding submit_claimed_def Let_def
  by (auto intro!: side_unless split: submit_outcome.split option.split)

lemma side_claim_scheduler [simp]: "side i (snd (claim_scheduler ce target spec d)) = side i d"
  by (simp add: claim_scheduler_def Let_def split: option.split)

lemma side_start_scheduler: "side (js_id spec) (snd (start_scheduler_job ce target spec d)) = side (js_id spec) d"
proof -
  have "side (js_id spec) d' = side (js_id spec) d" if "claim_scheduler ce target spec (others_write (ce_start ce) 11 (others_write (ce_start ce) 10 d)) = (x, d')" for x d'
    using side_claim_scheduler [of "js_id spec" ce target spec "others_write (ce_start ce) 11 (others_write (ce_start ce) 10 d)"] that by simp
  then show ?thesis by (auto simp: start_scheduler_job_def Let_def split: option.split prod.split sum.split)
qed

lemma side_persist_runtime [simp]: "side i (snd (snd (persist_program_runtime_resolution env s r d))) = side i d"
  by (auto simp: persist_program_runtime_resolution_def Let_def split: option.split)

lemma prepare_start_Inr:
  assumes "prepare_start env spec d = (Inr s, d')"
  obtains fresh where "spec_of d (js_id spec) = Some fresh" "js_id s = js_id fresh" "js_cpus s = js_cpus fresh"
    "js_mem_mb s = js_mem_mb fresh" "js_scheduler_target s = js_scheduler_target fresh"
proof -
  have k: "js_id s = js_id f \<and> js_cpus s = js_cpus f \<and> js_mem_mb s = js_mem_mb f \<and> js_scheduler_target s = js_scheduler_target f"
    if "persist_program_runtime_resolution env f r d1 = (Some True, s, d2)" for f r d1 d2
    using that by (auto simp: persist_program_runtime_resolution_def Let_def split: option.splits if_splits)
  from assms show ?thesis
    by (auto simp: prepare_start_def Let_def split: option.splits if_splits prod.splits bool.splits dest!: k intro!: that)
qed

lemma side_prepare: "side i (snd (prepare_start env spec d)) = side i d"
proof -
  have "side i d2 = side i d1" if "persist_program_runtime_resolution env f r d1 = (b, s, d2)" for f r b s d1 d2
    using side_persist_runtime [of i env f r d1] that by simp
  moreover have "side i d2 = side i d1" if "fail_dispatch env f r e d1 = (b, d2)" for f r e b d1 d2
    using side_fail [of i env f r e d1] that by simp
  ultimately show ?thesis
    by (auto simp: prepare_start_def Let_def split: option.split prod.split bool.split)
qed

lemma side_claim_local [simp]: "side i (snd (claim_local env gpus spec d)) = side i d"
  by (auto simp: claim_local_def Let_def split: option.split)

text \<open>What starting a job adds to the tables: at most one entry, with the devices that were assigned.\<close>

definition adds_entry :: "daemon \<Rightarrow> daemon \<Rightarrow> local_job \<Rightarrow> bool" where
  "adds_entry d d' e \<longleftrightarrow> mset (local_table d') \<subseteq># add_mset e (mset (local_table d)) \<and> dm_view d' = dm_view d
     \<and> dm_scheduler_running d' = dm_scheduler_running d"

lemma local_side_table: "local_side d' = local_side d \<Longrightarrow> mset (local_table d') = mset (local_table d) \<and> dm_view d' = dm_view d"
  by (simp add: local_side_def local_table_def)

lemma adds_running:
  assumes "dm_running d' = AList.update i rj (dm_running d)" "local_side (d'\<lparr>dm_running := dm_running d\<rparr>) = local_side d"
    "dm_scheduler_running d' = dm_scheduler_running d"
  shows "adds_entry d d' (footprint rj)"
proof -
  have "mset (footprints (dm_running d')) \<subseteq># add_mset (footprint rj) (mset (footprints (dm_running d)))"
    unfolding assms(1) by (rule mset_update)
  then have "mset (footprints (dm_running d')) + (mset (footprints (dm_orphans d)) + mset (footprints (dm_survivors d)))
      \<subseteq># add_mset (footprint rj) (mset (footprints (dm_running d))) + (mset (footprints (dm_orphans d)) + mset (footprints (dm_survivors d)))"
    by (rule subset_mset.add_right_mono)
  then show ?thesis using assms(2,3) by (simp add: adds_entry_def local_table_def local_side_def)
qed

lemma record_pid_others:
  assumes "record_pid env i claimed pid d = (r, d')"
  shows "local_side (d'\<lparr>dm_running := dm_running d\<rparr>) = local_side d \<and> dm_scheduler_running d' = dm_scheduler_running d"
  using assms by (auto simp: record_pid_def Let_def local_side_def write_row_def log_row_def split: option.splits if_splits)

lemma start_local_others:
  assumes "start_local env gpus spec d = (r, d')"
  shows "local_side (d'\<lparr>dm_running := dm_running d\<rparr>) = local_side d \<and> dm_scheduler_running d' = dm_scheduler_running d"
proof -
  have f: "local_side x = local_side y \<and> dm_scheduler_running x = dm_scheduler_running y" if "fail_dispatch env s e c y = (r, x)" for s e c x y
    using side_fail [of "[]" env s e c y] fail_dispatch_frame [OF that] that by (simp add: side_def)
  have c: "local_side x = local_side d \<and> dm_scheduler_running x = dm_scheduler_running d"
    if "claim_local env gpus spec (others_write env 1 d) = (y, x)" for x y
    using side_claim_local [of "[]" env gpus spec "others_write env 1 d"] claim_local_frame [OF that] that side_simps(3) [of "[]" env 1 d]
    by (simp add: side_def)
  have o: "local_side (others_write env n x) = local_side x" "dm_scheduler_running (others_write env n x) = dm_scheduler_running x" for n x
    by (simp_all add: local_side_def others_write_def)
  show ?thesis using assms
  proof (cases rule: start_local_cases)
    case (launched claimed d2 pid)
    then show ?thesis using record_pid_others [OF launched(2)] c [OF launched(1)]
      by (simp add: local_side_def others_write_def)
  next
    case (launch_failed claimed d2 err)
    then show ?thesis using f [OF launch_failed(2)] c [OF launch_failed(1)] o by (simp add: local_side_def)
  qed (use f c o in \<open>fastforce simp: local_side_def\<close>)+
qed

lemma prepare_scheduler: "dm_scheduler_running (snd (prepare_start env spec d)) = dm_scheduler_running d"
proof -
  have "dm_scheduler_running d2 = dm_scheduler_running d1" if "persist_program_runtime_resolution env f r d1 = (b, s, d2)" for f r b s d1 d2
    using that by (auto simp: persist_program_runtime_resolution_def Let_def split: option.splits if_splits)
  moreover have "dm_scheduler_running d2 = dm_scheduler_running d1" if "fail_dispatch env f r e d1 = (b, d2)" for f r e b d1 d2
    using fail_dispatch_frame [OF that] by simp
  ultimately show ?thesis by (auto simp: prepare_start_def Let_def split: option.split prod.split bool.split)
qed

lemma restore_entry:
  "local_side (restore_managed_container env s d) = local_side d \<and> dm_scheduler_running (restore_managed_container env s d) = dm_scheduler_running d
    \<or> adds_entry d (restore_managed_container env s d) (footprint (new_running True [] s))"
  using adds_running [of "restore_managed_container env s d" "js_id s" "new_running True [] s" d]
  by (auto simp: restore_managed_container_def local_side_def)

lemma container_entry:
  assumes "start_managed_container env s d = (r, d')"
  shows "dm_scheduler_running d' = dm_scheduler_running d \<and> (local_side d' = local_side d
    \<or> r = Started \<and> (\<exists>x. adds_entry d d' (footprint (new_running True [] x)) \<and> (x = s \<or> spec_of d' (js_id s) = Some x)))"
proof -
  have b: ?thesis if "(if se_container_present env then (Started, restore_managed_container env s d)
      else fail_dispatch env s err (Some (-1)) d) = (r, d')" for err
  proof (cases "se_container_present env")
    case True
    then show ?thesis using that restore_entry [of env s d] by (auto simp: adds_entry_def)
  next
    case False
    then show ?thesis using that side_fail [of "[]" env s err "Some (-1)" d] fail_dispatch_frame [of env s err "Some (-1)" d r d']
      by (simp add: side_def)
  qed
  show ?thesis
  proof (cases "spec_of d (js_id s)")
    case None
    then show ?thesis using assms b by (simp add: start_managed_container_def)
  next
    case (Some fresh)
    define claimed where "claimed = fresh\<lparr>js_state := RUNNING, js_started_at := Some (se_now_iso env), js_pid := None, js_pgid := None\<rparr>"
    consider (no) "d' = d" | (err) e where "(if se_container_present env then (Started, restore_managed_container env s d)
        else fail_dispatch env s e (Some (-1)) d) = (r, d')"
      | (ok) "r = Started" "d' = restore_managed_container env claimed (write_row claimed (js_id s) d)"
      using assms Some by (auto simp: start_managed_container_def Let_def claimed_def split: if_splits option.splits)
    then show ?thesis
    proof cases
      case ok
      have "spec_of d' (js_id s) = Some claimed" by (simp add: ok(2) restore_managed_container_def)
      moreover have "local_side (write_row claimed (js_id s) d) = local_side d" "local_table (write_row claimed (js_id s) d) = local_table d"
        "dm_view (write_row claimed (js_id s) d) = dm_view d"
        by (simp_all add: local_side_def write_row_def local_table_def)
      ultimately show ?thesis using ok restore_entry [of env claimed "write_row claimed (js_id s) d"]
        by (auto simp: adds_entry_def)
    qed (use b in auto)
  qed
qed

text \<open>The whole start. The row must be the one that was read, under its own id.\<close>

lemma start_job_scheduled:
  assumes "start_job ce gpus spec d = (r, d')" "spec_of d (js_id spec) = Some spec" "js_scheduler_target spec = Some t"
  shows "side (js_id spec) d' = side (js_id spec) d"
proof (cases "prepare_start (ce_start ce) spec d")
  case (Pair x d1)
  have d1: "side j d1 = side j d" for j using side_prepare [of j "ce_start ce" spec d] Pair by simp
  show ?thesis
  proof (cases x)
    case (Inl r0)
    then show ?thesis using assms(1) Pair d1 by (simp add: start_job_def)
  next
    case (Inr s)
    have "js_id s = js_id spec" "js_scheduler_target s = Some t"
      using Pair assms(2,3) by (auto simp: Inr elim!: prepare_start_Inr)
    then show ?thesis using assms(1) Pair Inr d1 side_start_scheduler [of s ce t d1] by (simp add: start_job_def)
  qed
qed

definition entry_for :: "string list \<Rightarrow> job_spec \<Rightarrow> daemon \<Rightarrow> daemon \<Rightarrow> bool" where
  "entry_for gpus spec d d' \<longleftrightarrow> (\<exists>e x. adds_entry d d' e \<and> lj_cpus e = js_cpus x \<and> lj_mem_mb e = js_mem_mb x
     \<and> lj_gpu_devices e \<in> {gpus, []} \<and> (js_cpus x = js_cpus spec \<and> js_mem_mb x = js_mem_mb spec \<or> spec_of d' (js_id spec) = Some x))"

lemma entry_forI:
  assumes "adds_entry d d' (footprint (new_running b g x))" "g \<in> {gpus, []}"
    "js_cpus x = js_cpus spec \<and> js_mem_mb x = js_mem_mb spec \<or> spec_of d' (js_id spec) = Some x"
  shows "entry_for gpus spec d d'"
  unfolding entry_for_def using assms by (intro exI [of _ "footprint (new_running b g x)"] exI [of _ x]) simp

lemma start_job_local:
  assumes "start_job ce gpus spec d = (r, d')" "spec_of d (js_id spec) = Some spec" "js_scheduler_target spec = None"
  shows "dm_scheduler_running d' = dm_scheduler_running d \<and> (local_side d' = local_side d
    \<or> r = Started \<and> entry_for gpus spec d d')"
proof (cases "prepare_start (ce_start ce) spec d")
  case (Pair y d1)
  have d1: "local_side d1 = local_side d" using side_prepare [of "[]" "ce_start ce" spec d] Pair by (simp add: side_def)
  have s1: "dm_scheduler_running d1 = dm_scheduler_running d" using prepare_scheduler [of "ce_start ce" spec d] Pair by simp
  have a: "adds_entry d d' e" if "adds_entry d1 d' e" for e
    using that local_side_table [OF d1] s1 by (simp add: adds_entry_def)
  show ?thesis
  proof (cases y)
    case (Inl r0)
    then show ?thesis using assms(1) Pair d1 s1 by (simp add: start_job_def)
  next
    case (Inr s)
    have s: "js_id s = js_id spec" "js_scheduler_target s = None" "js_cpus s = js_cpus spec" "js_mem_mb s = js_mem_mb spec"
      using Pair assms(2,3) by (auto simp: Inr elim!: prepare_start_Inr)
    show ?thesis
    proof (cases "container_requested (js_command s)")
      case True
      then have c: "start_managed_container (ce_start ce) s d1 = (r, d')" using assms(1) Pair Inr s(2) by (simp add: start_job_def)
      show ?thesis
      proof (cases "local_side d' = local_side d1")
        case False
        then obtain x where x: "r = Started" "adds_entry d1 d' (footprint (new_running True [] x))" "x = s \<or> spec_of d' (js_id s) = Some x"
          using container_entry [OF c] by auto
        have "js_cpus x = js_cpus spec \<and> js_mem_mb x = js_mem_mb spec \<or> spec_of d' (js_id spec) = Some x" using x(3) s by auto
        then have "entry_for gpus spec d d'" by (intro entry_forI [OF a [OF x(2)]]) simp_all
        then show ?thesis using x(1) container_entry [OF c] s1 by simp
      qed (use container_entry [OF c] d1 s1 in simp)
    next
      case False
      then have c: "start_local (ce_start ce) gpus s d1 = (r, d')" using assms(1) Pair Inr s(2) by (simp add: start_job_def)
      note o = start_local_others [OF c]
      show ?thesis
      proof (cases "r = Started")
        case True
        from start_local_Started [OF c [unfolded True]] obtain x where x: "spec_of d' (js_id s) = Some x"
          "dm_running d' = AList.update (js_id s) (new_running False gpus x) (dm_running d1)" by blast
        have e: "adds_entry d1 d' (footprint (new_running False gpus x))" by (rule adds_running [OF x(2)]) (use o in auto)
        have "entry_for gpus spec d d'" by (rule entry_forI [OF a [OF e]]) (use x(1) s(1) in simp_all)
        then show ?thesis using True o s1 by simp
      next
        case False
        then have "dm_running d' = dm_running d1" using start_local_unstarted [OF c] by simp
        then have "local_side d' = local_side d1" using o by (simp add: local_side_def)
        then show ?thesis using o d1 s1 by simp
      qed
    qed
  qed
qed

end
