(* ===== verification/Dispatch_Safety.thy ===== *)
theory Dispatch_Safety
  imports Daemon_Dispatch
begin

text \<open>
  What a dispatch pass (\<open>Daemon_Dispatch\<close>) keeps: its tallies never go above the caps they started within, the tables
  of local processes stay within the tallies, no GPU device is given to two jobs, the scheduler slots in use stay
  within the global and the per-target budgets, and only jobs that every gate admits are started.
\<close>

section \<open>The invariant of a pass\<close>

text \<open>
  The scan still described a job when it was started: its row asked for the same things then and afterwards, and
  for nothing negative.
\<close>

definition same_request :: "job_spec \<Rightarrow> job_spec \<Rightarrow> bool" where
  "same_request s s' \<longleftrightarrow> js_cpus s' = js_cpus s \<and> js_mem_mb s' = js_mem_mb s \<and> js_scheduler_target s' = js_scheduler_target s"

definition current :: "daemon_view \<Rightarrow> job_spec \<times> job_spec \<times> job_spec option \<times> start_result \<Rightarrow> bool" where
  "current v x \<longleftrightarrow> (case x of (spec, fresh, row, r) \<Rightarrow> js_id fresh = js_id spec \<and> same_request spec fresh
     \<and> 0 \<le> js_cpus spec \<and> 0 \<le> charged_mem v (js_mem_mb spec)
     \<and> (case row of None \<Rightarrow> True | Some s \<Rightarrow> same_request spec s))"

definition sane :: "daemon_view \<Rightarrow> local_job \<Rightarrow> bool" where
  "sane v e \<longleftrightarrow> 0 \<le> lj_cpus e \<and> 0 \<le> charged_mem v (lj_mem_mb e)"

definition devices :: "local_job multiset \<Rightarrow> string multiset" where
  "devices M = (\<Sum>e\<in>#M. mset (lj_gpu_devices e))"

text \<open>The tallies cover what the tables hold, and no device is held twice.\<close>

definition covers :: "pass \<Rightarrow> bool" where
  "covers p \<longleftrightarrow> (let d = pa_daemon p; M = mset (local_table d); v = dm_view d in
     int (size M) \<le> pa_local_active p \<and> (\<Sum>e\<in>#M. lj_cpus e) \<le> pa_used_cpus p
     \<and> (\<Sum>e\<in>#M. charged_mem v (lj_mem_mb e)) \<le> pa_used_mem p \<and> (\<forall>e\<in>#M. sane v e)
     \<and> set_mset (devices M) \<subseteq> set (pa_busy_gpus p) \<and> (\<forall>g. count (devices M) g \<le> 1))"

lemma sum_submset:
  fixes f :: "'a \<Rightarrow> int"
  assumes "M \<subseteq># N" "\<forall>x\<in>#N. 0 \<le> f x"
  shows "(\<Sum>x\<in>#M. f x) \<le> (\<Sum>x\<in>#N. f x)"
proof -
  obtain K where N: "N = M + K" using assms(1) by (metis mset_subset_eq_exists_conv)
  have "0 \<le> (\<Sum>x\<in>#K. f x)" using assms(2) unfolding N by (induction K) auto
  then show ?thesis by (simp add: N)
qed

lemma devices_mono: "M \<subseteq># N \<Longrightarrow> devices M \<subseteq># devices N"
  by (metis devices_def image_mset_union mset_subset_eq_add_left mset_subset_eq_exists_conv sum_mset.union)

lemma devices_add [simp]: "devices (add_mset e M) = mset (lj_gpu_devices e) + devices M"
  by (simp add: devices_def)

text \<open>It is enough to cover more.\<close>

lemma covers_submset:
  assumes "M' \<subseteq># M" "int (size M) \<le> a" "(\<Sum>e\<in>#M. lj_cpus e) \<le> c" "(\<Sum>e\<in>#M. charged_mem v (lj_mem_mb e)) \<le> m" "\<forall>e\<in>#M. sane v e"
    "set_mset (devices M) \<subseteq> B" "\<forall>g. count (devices M) g \<le> 1"
  shows "int (size M') \<le> a \<and> (\<Sum>e\<in>#M'. lj_cpus e) \<le> c \<and> (\<Sum>e\<in>#M'. charged_mem v (lj_mem_mb e)) \<le> m \<and> (\<forall>e\<in>#M'. sane v e)
    \<and> set_mset (devices M') \<subseteq> B \<and> (\<forall>g. count (devices M') g \<le> 1)"
proof (intro conjI allI)
  have sane: "\<forall>e\<in>#M. 0 \<le> lj_cpus e" "\<forall>e\<in>#M. 0 \<le> charged_mem v (lj_mem_mb e)" using assms(5) by (auto simp: sane_def)
  show "int (size M') \<le> a" using size_mset_mono [OF assms(1)] assms(2) by simp
  show "(\<Sum>e\<in>#M'. lj_cpus e) \<le> c" using sum_submset [OF assms(1) sane(1)] assms(3) by simp
  show "(\<Sum>e\<in>#M'. charged_mem v (lj_mem_mb e)) \<le> m" using sum_submset [OF assms(1), of "\<lambda>e. charged_mem v (lj_mem_mb e)"] sane(2) assms(4) by simp
  show "\<forall>e\<in>#M'. sane v e" using assms(1,5) by (meson mset_subset_eqD)
  show "set_mset (devices M') \<subseteq> B" using set_mset_mono [OF devices_mono [OF assms(1)]] assms(6) by blast
  show "count (devices M') g \<le> 1" for g
    using mset_subset_eq_count [OF devices_mono [OF assms(1)], of g] assms(7) le_trans by blast
qed

lemma covers_shrink:
  assumes "covers p" "mset (local_table d') \<subseteq># mset (local_table (pa_daemon p))" "dm_view d' = dm_view (pa_daemon p)"
  shows "covers (p\<lparr>pa_daemon := d'\<rparr>)"
  using assms(1) covers_submset [OF assms(2), of "pa_local_active p" "pa_used_cpus p" "dm_view (pa_daemon p)" "pa_used_mem p" "set (pa_busy_gpus p)"]
  by (simp add: covers_def Let_def assms(3))

text \<open>A job that is charged after it was added.\<close>

lemma covers_charge:
  assumes "covers p" "adds_entry (pa_daemon p) d' e" "js_scheduler_target fresh = None" "lj_cpus e = js_cpus fresh" "lj_mem_mb e = js_mem_mb fresh"
    "0 \<le> js_cpus fresh" "0 \<le> charged_mem (dm_view d') (js_mem_mb fresh)" "lj_gpu_devices e \<in> {gpus, []}" "distinct gpus" "set gpus \<inter> set (pa_busy_gpus p) = {}"
  shows "covers (charge (p\<lparr>pa_daemon := d', pa_log := l\<rparr>) fresh gpus)"
proof -
  define M where "M = add_mset e (mset (local_table (pa_daemon p)))"
  have v: "dm_view d' = dm_view (pa_daemon p)" "mset (local_table d') \<subseteq># M" using assms(2) by (auto simp: adds_entry_def M_def)
  note c = assms(1) [unfolded covers_def Let_def]
  have g: "set (lj_gpu_devices e) \<subseteq> set gpus" "distinct (lj_gpu_devices e)" using assms(8,9) by auto
  have "count (devices M) x \<le> 1" for x
  proof (cases "x \<in> set (lj_gpu_devices e)")
    case True
    then have "x \<notin> set_mset (devices (mset (local_table (pa_daemon p))))" using c g(1) assms(10) by blast
    then have "count (devices (mset (local_table (pa_daemon p)))) x = 0" by (simp add: count_eq_zero_iff)
    moreover have "count (mset (lj_gpu_devices e)) x \<le> 1" using g(2) True by (simp add: distinct_count_atmost_1)
    ultimately show ?thesis by (simp add: M_def)
  next
    case False
    then have "count (mset (lj_gpu_devices e)) x = 0" by (simp add: count_eq_zero_iff)
    then have "count (devices M) x = count (devices (mset (local_table (pa_daemon p)))) x"
      unfolding M_def devices_add count_union by linarith
    then show ?thesis using c by simp
  qed
  then have "int (size (mset (local_table d'))) \<le> pa_local_active p + 1 \<and> (\<Sum>e\<in>#mset (local_table d'). lj_cpus e) \<le> pa_used_cpus p + js_cpus fresh
     \<and> (\<Sum>e\<in>#mset (local_table d'). charged_mem (dm_view d') (lj_mem_mb e)) \<le> pa_used_mem p + charged_mem (dm_view d') (js_mem_mb fresh)
     \<and> (\<forall>e\<in>#mset (local_table d'). sane (dm_view d') e)
     \<and> set_mset (devices (mset (local_table d'))) \<subseteq> set (pa_busy_gpus p @ gpus) \<and> (\<forall>g. count (devices (mset (local_table d'))) g \<le> 1)"
    using c g(1) assms(4-7) v(1) by (intro covers_submset [OF v(2)]) (auto simp: M_def sane_def)
  then show ?thesis using assms(3) by (simp add: covers_def charge_def Let_def)
qed

section \<open>One visit\<close>

text \<open>The scheduler jobs that hold an allocation; with the reservations they are what the scheduler tally counts.\<close>

definition tracked_live :: "daemon \<Rightarrow> string set" where
  "tracked_live d = {i. \<exists>j. map_of (dm_scheduler_running d) i = Some j \<and> \<not> sj_allocation_finished j}"

definition slots_held :: "pass \<Rightarrow> int" where
  "slots_held p = int (card (tracked_live (pa_daemon p))) + int (length (pa_reservations p))"

lemma finite_tracked_live [simp]: "finite (tracked_live d)"
proof (rule finite_subset)
  show "tracked_live d \<subseteq> fst ` set (dm_scheduler_running d)" by (auto simp: tracked_live_def dest!: map_of_SomeD intro: rev_image_eqI)
qed simp

lemma tracked_live_side: "side i d' = side i d \<Longrightarrow> tracked_live d' - {i} = tracked_live d - {i}"
proof -
  assume "side i d' = side i d"
  then have "map_of (AList.delete i (dm_scheduler_running d')) j = map_of (AList.delete i (dm_scheduler_running d)) j" for j
    by (simp add: side_def)
  then have "j \<noteq> i \<Longrightarrow> map_of (dm_scheduler_running d') j = map_of (dm_scheduler_running d) j" for j
    by (metis AList.delete_conv fun_upd_other)
  then show ?thesis by (auto simp: tracked_live_def)
qed

lemma tracked_live_card:
  assumes "side i d' = side i d"
  shows "int (card (tracked_live d')) \<le> int (card (tracked_live d)) + 1"
    "i \<notin> tracked_live d' \<Longrightarrow> card (tracked_live d') \<le> card (tracked_live d)"
proof -
  have s: "tracked_live d' \<subseteq> insert i (tracked_live d)" using tracked_live_side [OF assms] by blast
  have "card (tracked_live d') \<le> card (insert i (tracked_live d))" by (rule card_mono [OF _ s]) simp
  also have "\<dots> \<le> card (tracked_live d) + 1" by (simp add: card_insert_if)
  finally show "int (card (tracked_live d')) \<le> int (card (tracked_live d)) + 1" by simp
  show "card (tracked_live d') \<le> card (tracked_live d)" if "i \<notin> tracked_live d'"
    by (rule card_mono) (use s that in auto)
qed

text \<open>How far a visit may move the tallies.\<close>

definition tallied :: "dispatch_env \<Rightarrow> pass \<Rightarrow> pass \<Rightarrow> bool" where
  "tallied env p p' \<longleftrightarrow> (let v = dm_view (pa_daemon p) in
     dm_view (pa_daemon p') = v \<and> sa_caps (pa_admission p') = sa_caps (pa_admission p)
     \<and> (\<forall>m. pass_max_jobs env v = Some m \<longrightarrow> pa_local_active p' \<le> max (pa_local_active p) m)
     \<and> pa_used_cpus p' \<le> max (pa_used_cpus p) (pass_max_cpus env v)
     \<and> (\<forall>m. dv_max_mem_mb v = Some m \<longrightarrow> pa_used_mem p' \<le> max (pa_used_mem p) m)
     \<and> (\<forall>m. dv_max_scheduler_jobs v = Some m \<longrightarrow> pa_scheduler_active p' \<le> max (pa_scheduler_active p) m)
     \<and> (\<forall>c m. map_of (sa_caps (pa_admission p)) c = Some m \<longrightarrow> in_use (pa_admission p') c \<le> max (in_use (pa_admission p) c) m)
     \<and> set (pa_busy_gpus p') \<subseteq> set (pa_busy_gpus p) \<union> set (dv_gpu_devices v)
     \<and> (\<exists>l. pa_log p' = l @ pa_log p))"

lemma tallied_refl [simp]: "tallied env p p" by (simp add: tallied_def)

lemma tallied_trans:
  assumes "tallied env p p'" "tallied env p' p''" shows "tallied env p p''"
proof -
  note 1 = assms(1) [unfolded tallied_def Let_def] and 2 = assms(2) [unfolded tallied_def Let_def]
  have v: "dm_view (pa_daemon p') = dm_view (pa_daemon p)" "sa_caps (pa_admission p') = sa_caps (pa_admission p)" using 1 by simp_all
  have "\<forall>m. pass_max_jobs env (dm_view (pa_daemon p)) = Some m \<longrightarrow> pa_local_active p'' \<le> max (pa_local_active p) m"
    "pa_used_cpus p'' \<le> max (pa_used_cpus p) (pass_max_cpus env (dm_view (pa_daemon p)))"
    "\<forall>m. dv_max_mem_mb (dm_view (pa_daemon p)) = Some m \<longrightarrow> pa_used_mem p'' \<le> max (pa_used_mem p) m"
    "\<forall>m. dv_max_scheduler_jobs (dm_view (pa_daemon p)) = Some m \<longrightarrow> pa_scheduler_active p'' \<le> max (pa_scheduler_active p) m"
    using 1 2 unfolding v by (force, linarith, force, force)
  moreover have "in_use (pa_admission p'') c \<le> max (in_use (pa_admission p) c) m" if "map_of (sa_caps (pa_admission p)) c = Some m" for c m
  proof -
    have "in_use (pa_admission p'') c \<le> max (in_use (pa_admission p') c) m" "in_use (pa_admission p') c \<le> max (in_use (pa_admission p) c) m"
      using 1 2 that unfolding v by blast+
    then show ?thesis by linarith
  qed
  moreover have "set (pa_busy_gpus p'') \<subseteq> set (pa_busy_gpus p) \<union> set (dv_gpu_devices (dm_view (pa_daemon p)))" "\<exists>l. pa_log p'' = l @ pa_log p"
    using 1 2 unfolding v by (blast, force)
  ultimately show ?thesis using 1 2 unfolding tallied_def Let_def v by blast
qed

lemma tallied_frame:
  assumes "dm_view d = dm_view (pa_daemon p)" "\<exists>l'. l = l' @ pa_log p"
  shows "tallied env p (p\<lparr>pa_daemon := d, pa_log := l, pa_reservations := rs\<rparr>)"
  using assms by (simp add: tallied_def)

lemma dispatch_one_cases:
  assumes "dispatch_one env held specs spec p = (v, p')"
  obtains (same) "v = NextJob" "p' = p"
  | (failed) w where "v = NextJob" "p' = p\<lparr>pa_daemon := (pa_daemon p)\<lparr>dm_queue := w\<rparr>\<rparr>"
  | (local) fresh gpus where "admit env p spec = Some gpus" "spec_of (pa_daemon p) (js_id spec) = Some fresh" "js_state fresh = PENDING"
      "js_scheduler_target fresh = None" "start_fresh env spec fresh gpus p = (v, p')"
      "\<not> blocked_by_running_build specs spec" "\<not> held_by_admin_update held spec" "js_refresh_before spec = None"
  | (scheduled) fresh gpus t now where "admit env p spec = Some gpus" "spec_of (pa_daemon p) (js_id spec) = Some fresh" "js_state fresh = PENDING"
      "js_scheduler_target fresh = Some t" "can_attempt (pa_admission p) t now"
      "start_fresh env spec fresh gpus (p\<lparr>pa_admission := attempted (pa_admission p) t now,
         pa_last_target := Some (canonical (pa_admission p) t)\<rparr>) = (v, p')"
      "\<not> blocked_by_running_build specs spec" "\<not> held_by_admin_update held spec" "js_refresh_before spec = None"
  using assms by (auto simp: dispatch_one_def Let_def split: if_splits option.splits)

lemma admit_local_bounds:
  assumes "admit_local env p s = Some gpus"
  defines "v \<equiv> dm_view (pa_daemon p)"
  shows "\<And>m. pass_max_jobs env v = Some m \<Longrightarrow> pa_local_active p < m" "pa_used_cpus p + js_cpus s \<le> pass_max_cpus env v"
    "\<And>m. dv_max_mem_mb v = Some m \<Longrightarrow> pa_used_mem p + charged_mem v (js_mem_mb s) \<le> max (pa_used_mem p) m"
    "set gpus \<subseteq> set (dv_gpu_devices v) - set (pa_busy_gpus p)" "distinct (dv_gpu_devices v) \<Longrightarrow> distinct gpus"
proof -
  note a = assms(1) [unfolded admit_local_def Let_def, folded v_def]
  show "pa_local_active p < m" if "pass_max_jobs env v = Some m" for m using a that by (auto split: if_splits)
  show "pa_used_cpus p + js_cpus s \<le> pass_max_cpus env v" using a by (auto split: if_splits)
  show "pa_used_mem p + charged_mem v (js_mem_mb s) \<le> max (pa_used_mem p) m" if "dv_max_mem_mb v = Some m" for m
    using a that by (cases "eff_mem_mb v (js_mem_mb s)") (auto simp: charged_mem_def split: if_splits)
  have g: "gpus = [] \<or> (\<exists>n. gpus = take n (filter (\<lambda>g. g \<notin> set (pa_busy_gpus p)) (dv_gpu_devices v)))"
    using a by (auto split: if_splits option.splits)
  then show "set gpus \<subseteq> set (dv_gpu_devices v) - set (pa_busy_gpus p)" by (auto dest!: in_set_takeD)
  show "distinct gpus" if "distinct (dv_gpu_devices v)" using g that by auto
qed

text \<open>What a visit establishes. A fault leaves the last start uncounted, but never above the cap.\<close>

definition visit_ok :: "dispatch_env \<Rightarrow> pass \<Rightarrow> visit \<Rightarrow> pass \<Rightarrow> bool" where
  "visit_ok env p v p' \<longleftrightarrow> tallied env p p' \<and> (v \<noteq> ReapFault \<longrightarrow> covers p')
     \<and> (\<forall>m. dv_max_scheduler_jobs (dm_view (pa_daemon p)) = Some m \<longrightarrow> slots_held p' \<le> max (pa_scheduler_active p) m)
     \<and> (v \<notin> {StartFault, ReapFault} \<longrightarrow> slots_held p' \<le> pa_scheduler_active p')"

text \<open>A local start.\<close>

lemma pass_update_order [simp]: "p\<lparr>pa_log := l, pa_daemon := d\<rparr> = p\<lparr>pa_daemon := d, pa_log := l\<rparr>"
  by (cases p) simp

lemma started_entry:
  assumes "start_job ce gpus fresh d = (Started, d')" "spec_of d (js_id fresh) = Some fresh" "js_scheduler_target fresh = None"
    "current v (spec, fresh, spec_of d' (js_id fresh), Started)"
  obtains e where "adds_entry d d' e" "lj_cpus e = js_cpus fresh" "lj_mem_mb e = js_mem_mb fresh" "lj_gpu_devices e \<in> {gpus, []}"
proof (cases "local_side d' = local_side d")
  case True
  have "adds_entry d d' \<lparr>lj_cpus = js_cpus fresh, lj_mem_mb = js_mem_mb fresh, lj_gpu_devices = []\<rparr>"
    using local_side_table [OF True] start_job_local [OF assms(1-3)] by (simp add: adds_entry_def)
  then show ?thesis by (rule that) simp_all
next
  case False
  then have "entry_for gpus fresh d d'" using start_job_local [OF assms(1-3)] by simp
  then obtain e x where e: "adds_entry d d' e" "lj_cpus e = js_cpus x" "lj_mem_mb e = js_mem_mb x" "lj_gpu_devices e \<in> {gpus, []}"
    "js_cpus x = js_cpus fresh \<and> js_mem_mb x = js_mem_mb fresh \<or> spec_of d' (js_id fresh) = Some x" by (auto simp: entry_for_def)
  then have "js_cpus x = js_cpus fresh" "js_mem_mb x = js_mem_mb fresh" using assms(4) by (auto simp: current_def same_request_def)
  then show ?thesis using e that [of e] by simp
qed

lemma slots_same: "dm_scheduler_running (pa_daemon p') = dm_scheduler_running (pa_daemon p) \<Longrightarrow> pa_reservations p' = pa_reservations p
    \<Longrightarrow> slots_held p' = slots_held p"
  by (simp add: slots_held_def tracked_live_def)

lemma local_visit:
  assumes "start_fresh env spec fresh gpus p = (v, p')" "admit env p spec = Some gpus" "spec_of (pa_daemon p) (js_id spec) = Some fresh"
    "js_scheduler_target fresh = None" "list_all (current (dm_view (pa_daemon p))) (pa_log p')" "covers p" "slots_held p \<le> pa_scheduler_active p"
    "distinct (dv_gpu_devices (dm_view (pa_daemon p)))"
  shows "visit_ok env p v p'"
proof -
  obtain r d where s: "start_job (de_cluster env (js_id spec)) gpus fresh (pa_daemon p) = (r, d)" by fastforce
  define p1 where "p1 = p\<lparr>pa_daemon := d, pa_log := (spec, fresh, spec_of d (js_id fresh), r) # pa_log p\<rparr>"
  have p': "p' = (if r = Started then charge p1 fresh gpus else p1)" "v \<noteq> ReapFault"
    using assms(1,4) s by (auto simp: start_fresh_def settle_start_def Let_def p1_def split: if_splits)
  have "(spec, fresh, spec_of d (js_id fresh), r) \<in> set (pa_log p')" by (simp add: p'(1) p1_def charge_def assms(4))
  then have cur: "current (dm_view (pa_daemon p)) (spec, fresh, spec_of d (js_id fresh), r)" using assms(5) by (simp add: list_all_iff)
  then have ids: "js_id fresh = js_id spec" "same_request spec fresh" "0 \<le> js_cpus fresh" "0 \<le> charged_mem (dm_view (pa_daemon p)) (js_mem_mb fresh)"
    by (auto simp: current_def same_request_def)
  have row: "spec_of (pa_daemon p) (js_id fresh) = Some fresh" using assms(3) ids(1) by simp
  note l = start_job_local [OF s row assms(4)]
  have a: "admit_local env p spec = Some gpus" using assms(2,4) ids(2) by (simp add: admit_def same_request_def)
  note b = admit_local_bounds [OF a]
  have slots: "slots_held p' = slots_held p" using l by (intro slots_same) (auto simp: p'(1) p1_def charge_def assms(4))
  have act: "pa_scheduler_active p' = pa_scheduler_active p" by (simp add: p'(1) p1_def charge_def assms(4))
  have "tallied env p p' \<and> covers p'"
  proof (cases "r = Started")
    case True
    from started_entry [OF s [unfolded True] row assms(4) cur [unfolded True]] obtain e where
      e: "adds_entry (pa_daemon p) d e" "lj_cpus e = js_cpus fresh" "lj_mem_mb e = js_mem_mb fresh" "lj_gpu_devices e \<in> {gpus, []}" .
    have v: "dm_view d = dm_view (pa_daemon p)" using e(1) by (simp add: adds_entry_def)
    have "covers p'" using covers_charge [OF assms(6) e(1) assms(4) e(2,3) ids(3) _ e(4)] ids(4) b(4,5) assms(8) v True
      by (auto simp: p' p1_def)
    moreover have "tallied env p p'" using b(1-4) ids(2) v True assms(4)
      by (auto simp: tallied_def p' p1_def charge_def Let_def same_request_def)
    ultimately show ?thesis by simp
  next
    case False
    then have ls: "local_side d = local_side (pa_daemon p)" using l by simp
    have "covers (p\<lparr>pa_daemon := d\<rparr>)" by (rule covers_shrink [OF assms(6)]) (use local_side_table [OF ls] in simp_all)
    then have "covers p'" using False by (simp add: p'(1) p1_def covers_def)
    moreover have "tallied env p p'" using local_side_table [OF ls] False by (simp add: p'(1) p1_def tallied_def)
    ultimately show ?thesis by simp
  qed
  then show ?thesis using assms(7) slots act by (auto simp: visit_ok_def)
qed

text \<open>A submit. It takes at most one slot, and then it is counted once: as a reservation or as a tracked job.\<close>

lemma in_use_reserve [simp]: "in_use (reserve_slot a (Some t)) c = in_use a c + (if canonical a t = c then 1 else 0)"
  by (auto simp: in_use_def reserve_slot_def)

lemma in_use_attempted [simp]: "in_use (attempted a t now) = in_use a"
  by (simp add: in_use_def fun_eq_iff)

lemma reserve_ambiguous_cases:
  assumes "\<And>s. spec_of (pa_daemon p) i = Some s \<Longrightarrow> js_scheduler_target s = Some t"
  shows "reserve_ambiguous p i = p \<or> (\<exists>s. reserve_ambiguous p i = p\<lparr>pa_reservations := pa_reservations p @ [s],
      pa_scheduler_active := pa_scheduler_active p + 1, pa_admission := reserve_slot (pa_admission p) (Some t)\<rparr>)"
proof (cases "spec_of (pa_daemon p) i")
  case (Some s)
  then show ?thesis using assms by (simp add: reserve_ambiguous_def) blast
qed (simp add: reserve_ambiguous_def)

lemma reconcile_running_sides:
  "dm_view (snd (reconcile_running env d)) = dm_view d \<and> dm_scheduler_running (snd (reconcile_running env d)) = dm_scheduler_running d"
proof -
  obtain ok table kept d1 where r: "reap_each env (dm_running d) d = (ok, table, kept, d1)" by (metis prod_cases4)
  show ?thesis using reap_each_frame [OF r] by (simp add: reconcile_running_def r only_rows_def)
qed

text \<open>The counts of a submit: \<open>k\<close> is what is added to the tallies, \<open>n\<close> to the reservations.\<close>

definition counted :: "pass \<Rightarrow> string \<Rightarrow> rat \<Rightarrow> int \<Rightarrow> nat \<Rightarrow> pass \<Rightarrow> bool" where
  "counted p t now k n p' \<longleftrightarrow> pa_scheduler_active p' = pa_scheduler_active p + k \<and> length (pa_reservations p') = length (pa_reservations p) + n
     \<and> pa_local_active p' = pa_local_active p \<and> pa_used_cpus p' = pa_used_cpus p \<and> pa_used_mem p' = pa_used_mem p
     \<and> pa_busy_gpus p' = pa_busy_gpus p \<and> (\<exists>l. pa_log p' = l @ pa_log p)
     \<and> pa_admission p' = (if k = 0 then attempted (pa_admission p) t now else reserve_slot (attempted (pa_admission p) t now) (Some t))"

lemma scheduled_visit_cases:
  assumes "start_fresh env spec fresh gpus (p\<lparr>pa_admission := attempted (pa_admission p) t now, pa_last_target := x\<rparr>) = (v, p')"
    "js_scheduler_target fresh = Some t" "start_job (de_cluster env (js_id spec)) gpus fresh (pa_daemon p) = (r, d)"
    "\<And>s. spec_of d (js_id fresh) = Some s \<Longrightarrow> js_scheduler_target s = Some t"
  obtains d3 k n where "pa_daemon p' = d3" "counted p t now k n p'" "(spec, fresh, spec_of d (js_id fresh), r) \<in> set (pa_log p')"
    "d3 = d \<or> (\<exists>e. reconcile_running e d = (v \<noteq> ReapFault, d3))"
    "k = 0 \<and> n = 0 \<and> (v \<in> {StartFault, ReapFault} \<or> map_of (dm_scheduler_running d) (js_id fresh) = None)
     \<or> k = 1 \<and> n = 0 \<and> v \<noteq> StartFault \<or> k = 1 \<and> n = 1 \<and> map_of (dm_scheduler_running d) (js_id fresh) = None"
proof -
  define p1 where "p1 = p\<lparr>pa_admission := attempted (pa_admission p) t now, pa_last_target := x, pa_daemon := d,
    pa_log := (spec, fresh, spec_of d (js_id fresh), r) # pa_log p\<rparr>"
  define tracked where "tracked = (map_of (dm_scheduler_running d) (js_id fresh) \<noteq> None)"
  define p2 where "p2 = (if r \<noteq> Started \<and> \<not> tracked then reserve_ambiguous p1 (js_id fresh) else p1)"
  have c1: "counted p t now 0 0 p1" "pa_daemon p1 = d" "pa_log p1 = (spec, fresh, spec_of d (js_id fresh), r) # pa_log p"
    by (simp_all add: counted_def p1_def)
  have c2: "pa_daemon p2 = d \<and> pa_log p2 = pa_log p1 \<and> (p2 = p1 \<or> counted p t now 1 1 p2 \<and> r \<noteq> Started \<and> \<not> tracked)"
  proof (cases "r \<noteq> Started \<and> \<not> tracked")
    case True
    then have "p2 = reserve_ambiguous p1 (js_id fresh)" by (simp add: p2_def)
    moreover have "spec_of (pa_daemon p1) (js_id fresh) = Some s \<Longrightarrow> js_scheduler_target s = Some t" for s
      using assms(4) by (simp add: p1_def)
    note reserve_ambiguous_cases [of p1 "js_id fresh" t, OF this]
    ultimately show ?thesis using True by (auto simp: counted_def p1_def)
  qed (use c1 in \<open>auto simp: p2_def\<close>)
  show ?thesis
  proof (cases "r = StartRaised")
    case True
    then have "v = StartFault" "p' = p1" using assms(1-3) by (simp_all add: start_fresh_def Let_def p1_def)
    then show ?thesis using c1 by (intro that [of d 0 0]) simp_all
  next
    case False
    have v: "settle_start env spec fresh gpus r p2 = (v, p')"
      using assms(1-3) False by (auto simp: start_fresh_def Let_def p1_def p2_def tracked_def split: if_splits)
    obtain ok d3 where R: "(if dm_running d \<noteq> [] then reconcile_running (de_reap env (js_id spec)) d else (True, d)) = (ok, d3)" by fastforce
    then have d3: "d3 = d \<or> (\<exists>e. reconcile_running e d = (ok, d3))" by (auto split: if_splits)
    have p': "p' = (if ok \<and> (r = Started \<or> tracked) then charge (p2\<lparr>pa_daemon := d3\<rparr>) fresh gpus else p2\<lparr>pa_daemon := d3\<rparr>)"
      "ok = (v \<noteq> ReapFault)" "v \<noteq> StartFault"
      using v R c2 assms(2) by (auto simp: settle_start_def tracked_def Let_def split: bool.splits if_splits)
    show ?thesis
    proof (cases "ok \<and> (r = Started \<or> tracked)")
      case True
      then have "p2 = p1" using c2 by blast
      then show ?thesis using True p' c1 assms(2) d3
        by (intro that [of d3 1 0]) (auto simp: charge_def counted_def)
    next
      case not_charged: False
      show ?thesis
      proof (cases "p2 = p1")
        case True
        then show ?thesis using not_charged p' c1 d3 tracked_def by (intro that [of d3 0 0]) (auto simp: counted_def)
      next
        case False
        then show ?thesis using not_charged p' c1 c2 d3 tracked_def by (intro that [of d3 1 1]) (auto simp: counted_def)
      qed
    qed
  qed
qed

lemma counted_tallied:
  assumes "counted p t now k n p'" "k = 0 \<or> k = 1" "dm_view (pa_daemon p') = dm_view (pa_daemon p)" "can_attempt (pa_admission p) t now"
    "\<And>m. dv_max_scheduler_jobs (dm_view (pa_daemon p)) = Some m \<Longrightarrow> pa_scheduler_active p < m"
  shows "tallied env p p'"
proof -
  note c = assms(1) [unfolded counted_def]
  have "in_use (pa_admission p') x \<le> max (in_use (pa_admission p) x) m" if "map_of (sa_caps (pa_admission p)) x = Some m" for x m
  proof (cases "canonical (pa_admission p) t = x")
    case True
    then have "in_use (pa_admission p) x < m" using assms(4) that by (auto simp: can_attempt_def Let_def in_use_def)
    then show ?thesis using c by (simp split: if_splits)
  qed (use c in auto)
  moreover have "sa_caps (pa_admission p') = sa_caps (pa_admission p)" using c by (simp split: if_splits)
  moreover have "pa_scheduler_active p' \<le> max (pa_scheduler_active p) m" if "dv_max_scheduler_jobs (dm_view (pa_daemon p)) = Some m" for m
    using c assms(2) assms(5) [OF that] by auto
  ultimately show ?thesis using c assms(3) by (simp add: tallied_def)
qed

lemma start_fresh_logs:
  assumes "start_fresh env spec fresh gpus p = (v, p')"
  shows "pa_log p' = (spec, fresh, spec_of (snd (start_job (de_cluster env (js_id spec)) gpus fresh (pa_daemon p))) (js_id fresh),
      fst (start_job (de_cluster env (js_id spec)) gpus fresh (pa_daemon p))) # pa_log p"
proof -
  have c: "pa_log (charge q fresh gpus) = pa_log q" "pa_log (reserve_ambiguous q i) = pa_log q" for q i
    by (simp_all add: charge_def reserve_ambiguous_def split: option.split)
  have s: "settle_start env spec fresh gpus r q = (v, p') \<Longrightarrow> pa_log p' = pa_log q" for r q
    by (auto simp: settle_start_def Let_def c split: prod.splits bool.splits if_splits)
  show ?thesis using assms unfolding start_fresh_def Let_def
    by (auto simp: c dest!: s split: prod.splits if_splits)
qed

lemma scheduled_visit:
  assumes "start_fresh env spec fresh gpus (p\<lparr>pa_admission := attempted (pa_admission p) t now, pa_last_target := x\<rparr>) = (v, p')"
    "admit env p spec = Some gpus" "spec_of (pa_daemon p) (js_id spec) = Some fresh" "js_scheduler_target fresh = Some t"
    "can_attempt (pa_admission p) t now" "list_all (current (dm_view (pa_daemon p))) (pa_log p')" "covers p" "slots_held p \<le> pa_scheduler_active p"
  shows "visit_ok env p v p'"
proof -
  obtain r d where s: "start_job (de_cluster env (js_id spec)) gpus fresh (pa_daemon p) = (r, d)" by fastforce
  have logged: "(spec, fresh, spec_of d (js_id fresh), r) \<in> set (pa_log p')"
    using start_fresh_logs [OF assms(1)] s by simp
  then have cur: "current (dm_view (pa_daemon p)) (spec, fresh, spec_of d (js_id fresh), r)" using assms(6) by (simp add: list_all_iff)
  then have ids: "js_id fresh = js_id spec" "js_scheduler_target spec = Some t"
    "spec_of d (js_id fresh) = Some y \<Longrightarrow> js_scheduler_target y = Some t" for y
    using assms(4) by (auto simp: current_def same_request_def)
  have row: "spec_of (pa_daemon p) (js_id fresh) = Some fresh" using assms(3) ids(1) by simp
  have sd: "side (js_id fresh) d = side (js_id fresh) (pa_daemon p)" by (rule start_job_scheduled [OF s row assms(4)])
  then have ls: "local_side d = local_side (pa_daemon p)" by (simp add: side_def)
  note lt = local_side_table [OF ls]
  have gate: "pa_scheduler_active p < m" if "dv_max_scheduler_jobs (dm_view (pa_daemon p)) = Some m" for m
    using assms(2) ids(2) that by (auto simp: admit_def admit_scheduler_def split: if_splits)
  show ?thesis
  proof (rule scheduled_visit_cases [OF assms(1,4) s ids(3)], assumption)
    fix d3 k n
    assume 1: "pa_daemon p' = d3" "counted p t now k n p'" "(spec, fresh, spec_of d (js_id fresh), r) \<in> set (pa_log p')"
      "d3 = d \<or> (\<exists>e. reconcile_running e d = (v \<noteq> ReapFault, d3))"
      "k = 0 \<and> n = 0 \<and> (v \<in> {StartFault, ReapFault} \<or> map_of (dm_scheduler_running d) (js_id fresh) = None)
       \<or> k = 1 \<and> n = 0 \<and> v \<noteq> StartFault \<or> k = 1 \<and> n = 1 \<and> map_of (dm_scheduler_running d) (js_id fresh) = None"
    have d3: "dm_view d3 = dm_view d" "dm_scheduler_running d3 = dm_scheduler_running d"
      "v \<noteq> ReapFault \<Longrightarrow> mset (local_table d3) \<subseteq># mset (local_table d)"
      using 1(4) reconcile_running_sides reconcile_running_frame by (auto, metis snd_conv, metis snd_conv)
    have k: "k = 0 \<or> k = 1" using 1(5) by blast
    have live: "tracked_live d3 = tracked_live d" using d3(2) by (simp add: tracked_live_def)
    have none: "int (card (tracked_live d)) \<le> int (card (tracked_live (pa_daemon p)))" if "map_of (dm_scheduler_running d) (js_id fresh) = None"
      using tracked_live_card(2) [OF sd] that by (simp add: tracked_live_def)
    have t: "tallied env p p'" using 1(1,2) d3(1) lt k by (intro counted_tallied [OF 1(2) k _ assms(5) gate]) auto
    have slots: "slots_held p' = int (card (tracked_live d)) + int (length (pa_reservations p)) + int n" "slots_held p
        = int (card (tracked_live (pa_daemon p))) + int (length (pa_reservations p))"
      using 1(1,2) live by (simp_all add: slots_held_def counted_def)
    have act: "pa_scheduler_active p' = pa_scheduler_active p + k" using 1(2) by (simp add: counted_def)
    have up: "slots_held p' \<le> pa_scheduler_active p + 1" "v \<notin> {StartFault, ReapFault} \<Longrightarrow> slots_held p' \<le> pa_scheduler_active p'"
      using 1(5) slots act assms(8) none tracked_live_card(1) [OF sd] by auto
    have "covers p'" if "v \<noteq> ReapFault"
    proof -
      have "mset (local_table d3) \<subseteq># mset (local_table (pa_daemon p))" "dm_view d3 = dm_view (pa_daemon p)" using d3(1,3) that lt by auto
      from covers_shrink [OF assms(7) this] show ?thesis using 1(1,2) by (simp add: covers_def counted_def)
    qed
    then show ?thesis using t up gate unfolding visit_ok_def by force
  qed
qed

section \<open>A whole pass\<close>

lemma visit_ok_same: "covers p \<Longrightarrow> slots_held p \<le> pa_scheduler_active p \<Longrightarrow> visit_ok env p NextJob p"
  by (auto simp: visit_ok_def)

lemma dispatch_one_log: "dispatch_one env held specs spec p = (v, p') \<Longrightarrow> \<exists>l. pa_log p' = l @ pa_log p"
  by (erule dispatch_one_cases) (auto dest!: start_fresh_logs)

lemma dispatch_loop_log: "dispatch_loop env held specs ss p = (v, p') \<Longrightarrow> \<exists>l. pa_log p' = l @ pa_log p"
proof (induction ss arbitrary: p)
  case (Cons s ss)
  obtain v1 p1 where d: "dispatch_one env held specs s p = (v1, p1)" by fastforce
  obtain l where l: "pa_log p1 = l @ pa_log p" using dispatch_one_log [OF d] by blast
  show ?case
  proof (cases "v1 = NextJob")
    case True
    then have "dispatch_loop env held specs ss p1 = (v, p')" using Cons.prems d by simp
    from Cons.IH [OF this] l show ?thesis by auto
  next
    case False
    then have "p' = p1" using Cons.prems d by (cases v1) simp_all
    then show ?thesis using l by simp
  qed
qed simp

lemma dispatch_one_ok:
  assumes "dispatch_one env held specs spec p = (v, p')" "list_all (current (dm_view (pa_daemon p))) (pa_log p')" "covers p"
    "slots_held p \<le> pa_scheduler_active p" "distinct (dv_gpu_devices (dm_view (pa_daemon p)))"
  shows "visit_ok env p v p'"
  using assms(1)
proof (cases rule: dispatch_one_cases)
  case same
  then show ?thesis using assms(3,4) by (simp add: visit_ok_same)
next
  case (failed w)
  have "covers p'" using covers_shrink [OF assms(3), of "(pa_daemon p)\<lparr>dm_queue := w\<rparr>"] failed(2) by (simp add: local_table_def)
  moreover have "slots_held p' = slots_held p" by (rule slots_same) (simp_all add: failed(2))
  moreover have "tallied env p p'" by (simp add: failed(2) tallied_def)
  ultimately show ?thesis using assms(4) failed by (auto simp: visit_ok_def)
next
  case (local fresh gpus)
  then show ?thesis using local_visit assms(2-5) by blast
next
  case (scheduled fresh gpus t now)
  then show ?thesis using scheduled_visit assms(2-4) by blast
qed

lemma dispatch_loop_ok:
  "dispatch_loop env held specs ss p = (v, p') \<Longrightarrow> list_all (current (dm_view (pa_daemon p))) (pa_log p') \<Longrightarrow> covers p
    \<Longrightarrow> slots_held p \<le> pa_scheduler_active p \<Longrightarrow> distinct (dv_gpu_devices (dm_view (pa_daemon p))) \<Longrightarrow> visit_ok env p v p'"
proof (induction ss arbitrary: p)
  case (Cons s ss)
  obtain v1 p1 where d: "dispatch_one env held specs s p = (v1, p1)" by fastforce
  show ?case
  proof (cases "v1 = NextJob")
    case False
    then have "v1 = v" "p1 = p'" using Cons.prems(1) d by (cases v1, simp_all)+
    then show ?thesis using dispatch_one_ok [OF d] Cons.prems(2-5) by simp
  next
    case True
    then have rest: "dispatch_loop env held specs ss p1 = (v, p')" using Cons.prems(1) d by simp
    then have log: "list_all (current (dm_view (pa_daemon p))) (pa_log p1)" using dispatch_loop_log [OF rest] Cons.prems(2) by auto
    have ok: "visit_ok env p NextJob p1" using dispatch_one_ok [OF d log Cons.prems(3-5)] True by simp
    then have v: "dm_view (pa_daemon p1) = dm_view (pa_daemon p)" "tallied env p p1" "covers p1" "slots_held p1 \<le> pa_scheduler_active p1"
      by (auto simp: visit_ok_def tallied_def Let_def)
    have ok': "visit_ok env p1 v p'" by (rule Cons.IH [OF rest]) (use v Cons.prems(2,5) in simp_all)
    have t: "tallied env p p'" using tallied_trans [OF v(2)] ok' by (simp add: visit_ok_def)
    have "slots_held p' \<le> max (pa_scheduler_active p) m" if "dv_max_scheduler_jobs (dm_view (pa_daemon p)) = Some m" for m
    proof -
      have "slots_held p' \<le> max (pa_scheduler_active p1) m" "pa_scheduler_active p1 \<le> max (pa_scheduler_active p) m"
        using ok' v(1,2) that by (auto simp: visit_ok_def tallied_def Let_def)
      then show ?thesis by linarith
    qed
    then show ?thesis using ok' t by (simp add: visit_ok_def)
  qed
qed (auto simp: visit_ok_def)

lemma devices_table: "devices (mset xs) = mset (concat (map lj_gpu_devices xs))"
  by (induction xs) (simp_all add: devices_def)

lemma live_card: "card (tracked_live d) \<le> length (live_allocations d)"
proof -
  have "tracked_live d \<subseteq> fst ` set (filter (\<lambda>x. \<not> sj_allocation_finished (snd x)) (dm_scheduler_running d))"
    by (force simp: tracked_live_def dest!: map_of_SomeD)
  then have "card (tracked_live d) \<le> card (fst ` set (filter (\<lambda>x. \<not> sj_allocation_finished (snd x)) (dm_scheduler_running d)))"
    by (intro card_mono) simp_all
  also have "\<dots> \<le> length (filter (\<lambda>x. \<not> sj_allocation_finished (snd x)) (dm_scheduler_running d))"
    by (metis card_length list.set_map length_map)
  also have "\<dots> = length (live_allocations d)"
    by (simp add: live_allocations_def filter_map comp_def case_prod_beta)
  finally show ?thesis .
qed

lemma pass_start_covers:
  assumes "\<forall>e \<in> set (local_table d). sane (dm_view d) e" "distinct (concat (map lj_gpu_devices (local_table d)))"
  shows "covers ((pass_start env d la lt)\<lparr>pa_daemon := d\<lparr>dm_queue := w\<rparr>\<rparr>)"
    "slots_held ((pass_start env d la lt)\<lparr>pa_daemon := d\<lparr>dm_queue := w\<rparr>\<rparr>) \<le> pa_scheduler_active (pass_start env d la lt)"
proof -
  have s: "(\<Sum>x\<in>#mset xs. f x) = sum_list (map f xs)" for f :: "local_job \<Rightarrow> int" and xs by (metis mset_map sum_mset_sum_list)
  have t: "local_table (d\<lparr>dm_queue := w\<rparr>) = local_table d" by (simp add: local_table_def)
  show "covers ((pass_start env d la lt)\<lparr>pa_daemon := d\<lparr>dm_queue := w\<rparr>\<rparr>)"
    using assms by (simp add: covers_def pass_start_def Let_def s t devices_table comp_def distinct_count_atmost_1 del: mset_map)
  show "slots_held ((pass_start env d la lt)\<lparr>pa_daemon := d\<lparr>dm_queue := w\<rparr>\<rparr>) \<le> pa_scheduler_active (pass_start env d la lt)"
    using live_card [of d] by (simp add: slots_held_def pass_start_def Let_def tracked_live_def)
qed

text \<open>Before the loop only spec files are written.\<close>

lemma candidates_queue: "pass_candidates env d = (specs, pending, d1) \<Longrightarrow> \<exists>w. d1 = d\<lparr>dm_queue := w\<rparr>"
  by (auto simp: pass_candidates_def Let_def split: prod.splits)

lemma attach_queue: "\<exists>w. snd (attach_build env b i d) = d\<lparr>dm_queue := w\<rparr>"
proof -
  have "\<exists>w. d = d\<lparr>dm_queue := w\<rparr>" by (rule exI [of _ "dm_queue d"]) simp
  then show ?thesis by (auto simp: attach_build_def write_row_def split: option.split)
qed

lemma refresh_queue:
  assumes "maybe_refresh_before_run env s specs d = (b, d')"
  shows "\<exists>w. d' = d\<lparr>dm_queue := w\<rparr>"
proof -
  have same: "\<exists>w. d = d\<lparr>dm_queue := w\<rparr>" by (rule exI [of _ "dm_queue d"]) simp
  have created: "\<exists>w. d1 = d\<lparr>dm_queue := w\<rparr>" if "create_build_job env e s d = (x, d1)" for e x d1
    using that same by (auto simp: create_build_job_def write_row_def Let_def split: sum.splits if_splits)
  show ?thesis
  proof (cases "js_refresh_before s")
    case None
    then show ?thesis using assms same by (simp add: maybe_refresh_before_run_def)
  next
    case (Some e)
    obtain x d1 where c: "create_build_job env e s d = (x, d1)" by fastforce
    obtain w where w: "d1 = d\<lparr>dm_queue := w\<rparr>" using created [OF c] by blast
    have a: "\<exists>w'. snd (attach_build env b i d1) = d\<lparr>dm_queue := w'\<rparr>" "\<exists>w'. snd (attach_build env b i d) = d\<lparr>dm_queue := w'\<rparr>" for b i
      using attach_queue [of env b i] w by (metis daemon.surjective daemon.update_convs(3), metis)
    show ?thesis using assms Some c w a same
      by (auto simp: maybe_refresh_before_run_def split: option.splits if_splits sum.splits prod.splits) (metis snd_conv)+
  qed
qed

lemma order_set: "set (fair_resource_dispatch_order a prev pending) \<subseteq> set pending"
proof -
  have ts: "set (rotate_after prev (pool_names a pending)) = set (pool_names a pending)"
    using rotate_after_mset [OF pool_names_distinct] mset_eq_setD by blast
  have "[] \<notin> set (map (pool_jobs a pending) (rotate_after prev (pool_names a pending)))"
    using pool_names_iff ts by (auto simp: pool_jobs_def filter_empty_conv eq_commute [of "[]"])
  from set_round_robin [OF this] show ?thesis by (auto simp: fair_resource_dispatch_order_def pool_jobs_def)
qed

lemma dispatch_pending_loop:
  assumes "dispatch_pending env la lt d = (Some (v, p), d')"
  obtains held specs pending d1 w where "pass_holds env d = Some held" "pass_candidates env d = (specs, pending, d1)"
    "dispatch_loop env held specs (fair_resource_dispatch_order (pa_admission (pass_start env d la lt)) lt pending)
       ((pass_start env d la lt)\<lparr>pa_daemon := d\<lparr>dm_queue := w\<rparr>\<rparr>) = (v, p)"
    "d' = (if v = YieldPass then de_reconcile_scheduler env (pa_daemon p) else pa_daemon p)"
proof -
  obtain held where h: "pass_holds env d = Some held" using assms by (auto simp: dispatch_pending_def split: option.splits)
  obtain specs pending d1 where c: "pass_candidates env d = (specs, pending, d1)" by (metis prod_cases3)
  obtain w1 where w1: "d1 = d\<lparr>dm_queue := w1\<rparr>" using candidates_queue [OF c] by blast
  obtain b d2 where r: "(if pending = [] then (Some False, d1) else maybe_refresh_before_run env (hd pending) specs d1) = (b, d2)" by fastforce
  have "\<exists>w. d2 = d\<lparr>dm_queue := w\<rparr>"
    using r w1 refresh_queue [of env "hd pending" specs d1 b d2] by (auto split: if_splits)
  then obtain w where w: "d2 = d\<lparr>dm_queue := w\<rparr>" by blast
  have "b = Some False" using assms h c r by (auto simp: dispatch_pending_def Let_def split: option.splits bool.splits prod.splits)
  then show ?thesis using assms h c r w that [OF h c]
    by (auto simp: dispatch_pending_def Let_def split: prod.splits)
qed

lemma dispatch_pending_ok:
  assumes "dispatch_pending env la lt d = (Some (v, p), d')" "list_all (current (dm_view d)) (pa_log p)"
    "\<forall>e \<in> set (local_table d). sane (dm_view d) e" "distinct (concat (map lj_gpu_devices (local_table d)))"
    "distinct (dv_gpu_devices (dm_view d))"
  obtains w where "visit_ok env ((pass_start env d la lt)\<lparr>pa_daemon := d\<lparr>dm_queue := w\<rparr>\<rparr>) v p"
proof -
  from assms(1) obtain held specs ss w where
    "dispatch_loop env held specs ss ((pass_start env d la lt)\<lparr>pa_daemon := d\<lparr>dm_queue := w\<rparr>\<rparr>) = (v, p)"
    by (elim dispatch_pending_loop)
  from dispatch_loop_ok [OF this] show ?thesis
    using that pass_start_covers [OF assms(3,4), where env = env and la = la and lt = lt and w = w] assms(2,5) by simp
qed

text \<open>Which jobs a visit starts.\<close>

definition admissible :: "dispatch_env \<Rightarrow> string list \<Rightarrow> job_spec list \<Rightarrow> job_spec list \<Rightarrow> job_spec \<times> job_spec \<times> job_spec option \<times> start_result \<Rightarrow> bool" where
  "admissible env held specs pending x \<longleftrightarrow> (case x of (spec, fresh, _) \<Rightarrow> spec \<in> set pending \<and> js_state fresh = PENDING
     \<and> \<not> blocked_by_running_build specs spec \<and> \<not> held_by_admin_update held spec \<and> js_refresh_before spec = None
     \<and> (js_scheduler_target spec \<noteq> None \<longrightarrow> \<not> (\<exists>ds. de_drain env = Some ds \<and> drains_scheduler_target ds (js_scheduler_target spec))))"

lemma admit_not_drained:
  "admit env p spec = Some gpus \<Longrightarrow> js_scheduler_target spec \<noteq> None
    \<Longrightarrow> \<not> (\<exists>ds. de_drain env = Some ds \<and> drains_scheduler_target ds (js_scheduler_target spec))"
  by (auto simp: admit_def admit_scheduler_def split: if_splits)

lemma dispatch_one_admissible:
  assumes "dispatch_one env held specs spec p = (v, p')" "spec \<in> set pending"
  shows "pa_log p' = pa_log p \<or> (\<exists>x. pa_log p' = x # pa_log p \<and> admissible env held specs pending x)"
  using assms(1)
proof (cases rule: dispatch_one_cases)
  case (local fresh gpus)
  then show ?thesis using start_fresh_logs [OF local(5)] admit_not_drained [OF local(1)] assms(2) by (simp add: admissible_def)
next
  case (scheduled fresh gpus t now)
  then show ?thesis using start_fresh_logs [OF scheduled(6)] admit_not_drained [OF scheduled(1)] assms(2) by (simp add: admissible_def)
qed simp_all

lemma dispatch_loop_admissible:
  "dispatch_loop env held specs ss p = (v, p') \<Longrightarrow> set ss \<subseteq> set pending \<Longrightarrow> list_all (admissible env held specs pending) (pa_log p)
    \<Longrightarrow> list_all (admissible env held specs pending) (pa_log p')"
proof (induction ss arbitrary: p)
  case (Cons s ss)
  obtain v1 p1 where d: "dispatch_one env held specs s p = (v1, p1)" by fastforce
  have "s \<in> set pending" using Cons.prems(2) by simp
  from dispatch_one_admissible [OF d this] have l: "list_all (admissible env held specs pending) (pa_log p1)" using Cons.prems(3) by auto
  show ?case
  proof (cases "v1 = NextJob")
    case True
    then show ?thesis using Cons.IH [OF _ _ l] Cons.prems d by simp
  next
    case False
    then have "p' = p1" using Cons.prems(1) d by (cases v1) simp_all
    then show ?thesis using l by simp
  qed
qed simp

text \<open>A build that was started is the last thing a pass starts.\<close>

definition build_started :: "job_spec \<times> job_spec \<times> job_spec option \<times> start_result \<Rightarrow> bool" where
  "build_started x \<longleftrightarrow> (case x of (spec, fresh, row, r) \<Rightarrow> r = Started \<and> js_build_env fresh \<noteq> None)"

lemma start_fresh_build:
  assumes "start_fresh env spec fresh gpus p = (NextJob, p')"
  shows "\<not> build_started (hd (pa_log p'))"
proof -
  obtain r d where s: "start_job (de_cluster env (js_id spec)) gpus fresh (pa_daemon p) = (r, d)" by fastforce
  have "r \<noteq> StartRaised" "\<not> (r = Started \<and> js_build_env fresh \<noteq> None)"
    using assms s by (auto simp: start_fresh_def settle_start_def Let_def split: if_splits prod.splits bool.splits)
  then show ?thesis using start_fresh_logs [OF assms] s by (simp add: build_started_def)
qed

lemma dispatch_one_build:
  assumes "dispatch_one env held specs spec p = (NextJob, p')" "\<not> list_ex build_started (pa_log p)"
  shows "\<not> list_ex build_started (pa_log p')"
  using assms(1)
proof (cases rule: dispatch_one_cases)
  case (local fresh gpus)
  then show ?thesis using start_fresh_logs [OF local(5)] start_fresh_build [OF local(5)] assms(2) by simp
next
  case (scheduled fresh gpus t now)
  then show ?thesis using start_fresh_logs [OF scheduled(6)] start_fresh_build [OF scheduled(6)] assms(2) by simp
qed (use assms(2) in simp_all)

lemma dispatch_one_build_last:
  assumes "dispatch_one env held specs spec p = (v, p')" "\<not> list_ex build_started (pa_log p)"
  shows "\<not> list_ex build_started (tl (pa_log p'))"
  using assms(1)
proof (cases rule: dispatch_one_cases)
  case (local fresh gpus)
  then show ?thesis using start_fresh_logs [OF local(5)] assms(2) by simp
next
  case (scheduled fresh gpus t now)
  then show ?thesis using start_fresh_logs [OF scheduled(6)] assms(2) by simp
qed (use assms(2) in \<open>cases "pa_log p"; simp\<close>)+

lemma dispatch_loop_build:
  "dispatch_loop env held specs ss p = (v, p') \<Longrightarrow> \<not> list_ex build_started (pa_log p) \<Longrightarrow> \<not> list_ex build_started (tl (pa_log p'))"
proof (induction ss arbitrary: p)
  case Nil
  then show ?case by (cases "pa_log p") auto
next
  case (Cons s ss)
  obtain v1 p1 where d: "dispatch_one env held specs s p = (v1, p1)" by fastforce
  show ?case
  proof (cases "v1 = NextJob")
    case True
    then show ?thesis using Cons.IH [of p1] dispatch_one_build [of env held specs s p p1] Cons.prems d by simp
  next
    case False
    then have "p' = p1" using Cons.prems(1) d by (cases v1) simp_all
    then show ?thesis using dispatch_one_build_last [OF d Cons.prems(2)] by simp
  qed
qed

section \<open>Example\<close>

text \<open>Two GPU jobs of which the host can run one at a time, and two jobs for a cluster on which one slot is left.\<close>

definition sample_jobs :: "job_spec list" where
  "sample_jobs = [sample_spec ''a''\<lparr>js_gpus := Some 1\<rparr>, sample_spec ''b''\<lparr>js_gpus := Some 2\<rparr>,
     sample_scheduler_spec ''s'', sample_scheduler_spec ''t'']"

definition sample_dispatch :: dispatch_env where
  "sample_dispatch = \<lparr>de_specs = sample_jobs, de_settled = [], de_now = 0, de_parse_iso = (\<lambda>_. IsoBad ''''),
     de_hosts = [], de_marker = None, de_config_unusable = False, de_drain = None,
     de_cluster = (\<lambda>_. sample_cluster (\<lambda>_ w. w) (SubmitUnknown ''lost'')), de_submit_clock = (\<lambda>_. 0), de_deadline_passed = (\<lambda>_. False),
     de_reap = (\<lambda>_. sample_reap_env 0 (\<lambda>_. None)), de_reconcile_scheduler = (\<lambda>d. d), de_new_jobid = ''n'',
     de_build_command = (\<lambda>_. []), de_build_workspace = (\<lambda>_. Inl ''''), de_build_wall_time = 60, de_now_iso = ''2026'',
     de_queue = sample_queue_env\<rparr>"

definition sample_host :: daemon where
  "sample_host = (sample_daemon sample_jobs)\<lparr>dm_view := demo_daemon\<lparr>dv_gpu_devices := [''0'', ''1''], dv_max_scheduler_jobs := Some 1\<rparr>\<rparr>"

lemma sample_pass_value:
  "case dispatch_pending sample_dispatch [] None sample_host of (Some (v, p), d') \<Rightarrow>
     v = NextJob \<and> list_all (current (dm_view sample_host)) (pa_log p) \<and> length (pa_log p) = 2
     \<and> map lj_gpu_devices (local_table (pa_daemon p)) = [[''0'']] \<and> map js_id (pa_reservations p) = [''s''] | _ \<Rightarrow> False"
  by code_simp

section \<open>Properties\<close>

lemma visit_ok_tallies:
  assumes "visit_ok env ((pass_start env d la lt)\<lparr>pa_daemon := d\<lparr>dm_queue := w\<rparr>\<rparr>) v p"
  defines "p0 \<equiv> pass_start env d la lt"
  shows "\<And>m. pass_max_jobs env (dm_view d) = Some m \<Longrightarrow> pa_local_active p \<le> max (pa_local_active p0) m"
    "pa_used_cpus p \<le> max (pa_used_cpus p0) (pass_max_cpus env (dm_view d))"
    "\<And>m. dv_max_mem_mb (dm_view d) = Some m \<Longrightarrow> pa_used_mem p \<le> max (pa_used_mem p0) m"
    "\<And>m. dv_max_scheduler_jobs (dm_view d) = Some m \<Longrightarrow> slots_held p \<le> max (pa_scheduler_active p0) m"
    "\<And>c m. map_of (sa_caps (pa_admission p0)) c = Some m \<Longrightarrow> in_use (pa_admission p) c \<le> max (in_use (pa_admission p0) c) m"
    "set (pa_busy_gpus p) \<subseteq> set (pa_busy_gpus p0) \<union> set (dv_gpu_devices (dm_view d))"
    "dm_view (pa_daemon p) = dm_view d"
  using assms by (simp_all add: visit_ok_def tallied_def Let_def)

lemma distinct_if_count: "\<forall>x. count (mset xs) x \<le> 1 \<Longrightarrow> distinct xs"
proof (induction xs)
  case (Cons a xs)
  have 1: "count (mset (a # xs)) x \<le> 1" for x using Cons.prems by blast
  have "count (mset xs) x \<le> count (mset (a # xs)) x" for x by simp
  then have "\<forall>x. count (mset xs) x \<le> 1" using 1 le_trans by blast
  moreover have "count (mset xs) a = 0" using 1 [of a] by simp
  ultimately show ?case using Cons.IH by simp
qed simp

lemma covers_table:
  assumes "covers p"
  defines "t \<equiv> local_table (pa_daemon p)"
  shows "int (length t) \<le> pa_local_active p" "sum_list (map lj_cpus t) \<le> pa_used_cpus p"
    "sum_list (map (\<lambda>e. charged_mem (dm_view (pa_daemon p)) (lj_mem_mb e)) t) \<le> pa_used_mem p"
    "set (concat (map lj_gpu_devices t)) \<subseteq> set (pa_busy_gpus p)" "distinct (concat (map lj_gpu_devices t))"
proof -
  note c = assms(1) [unfolded covers_def Let_def, folded t_def]
  have s: "(\<Sum>x\<in>#mset xs. f x) = sum_list (map f xs)" for f :: "local_job \<Rightarrow> int" and xs by (metis mset_map sum_mset_sum_list)
  show "int (length t) \<le> pa_local_active p" "sum_list (map lj_cpus t) \<le> pa_used_cpus p"
    "sum_list (map (\<lambda>e. charged_mem (dm_view (pa_daemon p)) (lj_mem_mb e)) t) \<le> pa_used_mem p"
    using c unfolding s by simp_all
  have c5: "set_mset (devices (mset t)) \<subseteq> set (pa_busy_gpus p)" "\<forall>g. count (devices (mset t)) g \<le> 1" using c by blast+
  show "set (concat (map lj_gpu_devices t)) \<subseteq> set (pa_busy_gpus p)" using c5(1) unfolding devices_table by simp
  show "distinct (concat (map lj_gpu_devices t))"
    using c5(2) unfolding devices_table by (rule distinct_if_count)
qed

lemma sample_pass:
  obtains p d' where "dispatch_pending sample_dispatch [] None sample_host = (Some (NextJob, p), d')"
    "list_all (current (dm_view sample_host)) (pa_log p)" "length (pa_log p) = 2"
    "map lj_gpu_devices (local_table (pa_daemon p)) = [[''0'']]" "map js_id (pa_reservations p) = [''s'']"
  using sample_pass_value by (auto split: prod.splits option.splits)

lemma sample_host_tables:
  "local_table sample_host = []" "dv_gpu_devices (dm_view sample_host) = [''0'', ''1'']" "dv_max_scheduler_jobs (dm_view sample_host) = Some 1"
  "pass_max_cpus sample_dispatch (dm_view sample_host) = 16"
  by (simp_all add: sample_host_def sample_daemon_def local_table_def pass_max_cpus_def sample_dispatch_def demo_daemon_def)

text \<open>
  C13: a dispatch pass never overcommits the host. Whatever the pending jobs, and however each start ends, the
  local processes that are charged at the end of the pass, counted by their own requests, stay within
  \<open>--max-jobs\<close>, \<open>--max-cpus\<close> and \<open>--max-mem-mb\<close> as the drain state lowers them, or within what was already in use
  when that was more; and no two of them hold the same GPU device, nor one the host does not have. It is assumed
  that no submitter changes the request of a job while it is started, and that requests are not negative.
\<close>

theorem dispatch_within_caps:
  assumes "dispatch_pending env la lt d = (Some (v, p), d')" "v \<noteq> ReapFault" "list_all (current (dm_view d)) (pa_log p)"
    "\<forall>e \<in> set (local_table d). sane (dm_view d) e" "distinct (concat (map lj_gpu_devices (local_table d)))"
    "distinct (dv_gpu_devices (dm_view d))"
  shows "let c = dm_view d; t = local_table d; t' = local_table (pa_daemon p); mem = (\<lambda>e. charged_mem c (lj_mem_mb e)) in
    (\<forall>m. pass_max_jobs env c = Some m \<longrightarrow> int (length t') \<le> max (int (length t)) m)
    \<and> sum_list (map lj_cpus t') \<le> max (sum_list (map lj_cpus t)) (pass_max_cpus env c)
    \<and> (\<forall>m. dv_max_mem_mb c = Some m \<longrightarrow> sum_list (map mem t') \<le> max (sum_list (map mem t)) m)
    \<and> distinct (concat (map lj_gpu_devices t'))
    \<and> set (concat (map lj_gpu_devices t')) \<subseteq> set (concat (map lj_gpu_devices t)) \<union> set (dv_gpu_devices c)"
proof -
  from dispatch_pending_ok [OF assms(1,3-6)] obtain w where
    v: "visit_ok env ((pass_start env d la lt)\<lparr>pa_daemon := d\<lparr>dm_queue := w\<rparr>\<rparr>) v p" .
  note t = visit_ok_tallies [OF v]
  have "covers p" using v assms(2) by (simp add: visit_ok_def)
  note c = covers_table [OF this]
  have p0: "pa_local_active (pass_start env d la lt) = int (length (local_table d))"
    "pa_used_cpus (pass_start env d la lt) = sum_list (map lj_cpus (local_table d))"
    "pa_used_mem (pass_start env d la lt) = sum_list (map (\<lambda>e. charged_mem (dm_view d) (lj_mem_mb e)) (local_table d))"
    "set (pa_busy_gpus (pass_start env d la lt)) = set (concat (map lj_gpu_devices (local_table d)))"
    by (simp_all add: pass_start_def Let_def comp_def)
  show ?thesis unfolding Let_def
  proof (intro conjI allI impI)
    fix m assume "pass_max_jobs env (dm_view d) = Some m"
    then show "int (length (local_table (pa_daemon p))) \<le> max (int (length (local_table d))) m" using t(1) c(1) p0(1) order_trans by metis
  next
    show "sum_list (map lj_cpus (local_table (pa_daemon p))) \<le> max (sum_list (map lj_cpus (local_table d))) (pass_max_cpus env (dm_view d))"
      using t(2) c(2) p0(2) by linarith
  next
    fix m assume "dv_max_mem_mb (dm_view d) = Some m"
    then show "sum_list (map (\<lambda>e. charged_mem (dm_view d) (lj_mem_mb e)) (local_table (pa_daemon p)))
        \<le> max (sum_list (map (\<lambda>e. charged_mem (dm_view d) (lj_mem_mb e)) (local_table d))) m"
      using t(3,7) c(3) p0(3) order_trans by metis
  qed (use t(6) c(4,5) p0(4) in \<open>blast+\<close>)
qed

theorem dispatch_within_caps_witness:
  "\<exists>p d'. dispatch_pending sample_dispatch [] None sample_host = (Some (NextJob, p), d') \<and> length (pa_log p) = 2
     \<and> map lj_gpu_devices (local_table (pa_daemon p)) = [[''0'']] \<and> sum_list (map lj_cpus (local_table (pa_daemon p))) \<le> 16"
proof -
  obtain p d' where p: "dispatch_pending sample_dispatch [] None sample_host = (Some (NextJob, p), d')"
    "list_all (current (dm_view sample_host)) (pa_log p)" "length (pa_log p) = 2"
    "map lj_gpu_devices (local_table (pa_daemon p)) = [[''0'']]" by (rule sample_pass)
  have "sum_list (map lj_cpus (local_table (pa_daemon p))) \<le> 16"
    using dispatch_within_caps [OF p(1) _ p(2)] by (simp add: sample_host_tables Let_def)
  then show ?thesis using p by (intro exI [of _ p] exI [of _ d']) simp
qed



text \<open>
  C15: a dispatch pass starts only what every gate admits. A pass that is held (by an admin update of the whole host, an
  unusable configuration, a full drain, host pressure, or for the rebuild of an environment) starts nothing: it writes
  spec files only. Any other pass starts a job only if the scan showed it pending, past its retry delay and with
  its dependencies met, its row was still pending when it was read again, no running build and no scoped
  admin update holds it, it asks for no rebuild first, and its target is not drained. And a build it
  starts is the last job it starts.
\<close>

theorem dispatch_starts_only_admitted:
  "case dispatch_pending env la lt d of
     (None, d') \<Rightarrow> \<exists>w. d' = d\<lparr>dm_queue := w\<rparr>
   | (Some (v, p), d') \<Rightarrow> \<not> dv_host_pressure (dm_view d) \<and> \<not> de_config_unusable env \<and> de_marker env \<noteq> Some None
       \<and> \<not> (\<exists>ds. de_drain env = Some ds \<and> is_full_drain ds)
       \<and> (\<exists>held specs by_id w. pass_holds env d = Some held
            \<and> cascade_all (de_queue env) (de_specs env)
                (resolve_settled_dependencies (de_settled env) (de_specs env) (specs_by_id (de_specs env))) (dm_queue d) = (specs, by_id, w)
            \<and> list_all (\<lambda>(spec, fresh, _). spec \<in> set specs \<and> js_state spec = PENDING \<and> not_before_ready (js_not_before spec) (de_now env)
                \<and> deps_ready spec by_id \<and> js_state fresh = PENDING
                \<and> \<not> blocked_by_running_build specs spec \<and> \<not> held_by_admin_update held spec \<and> js_refresh_before spec = None
                \<and> \<not> (\<exists>ds t. de_drain env = Some ds \<and> js_scheduler_target spec = Some t \<and> drains_scheduler_target ds (Some t))) (pa_log p))
       \<and> \<not> list_ex (\<lambda>(spec, fresh, row, r). r = Started \<and> js_build_env fresh \<noteq> None) (tl (pa_log p))"
proof (cases "dispatch_pending env la lt d")
  case (Pair out d')
  show ?thesis
  proof (cases out)
    case None
    have same: "\<exists>w. d = d\<lparr>dm_queue := w\<rparr>" by (rule exI [of _ "dm_queue d"]) simp
    have two: "\<exists>w'. d\<lparr>dm_queue := w1\<rparr>\<lparr>dm_queue := w2\<rparr> = d\<lparr>dm_queue := w'\<rparr>" for w1 w2 by auto
    have "\<exists>w. d' = d\<lparr>dm_queue := w\<rparr>" using Pair None same
      by (auto simp: dispatch_pending_def Let_def split: option.splits prod.splits bool.splits if_splits
          dest!: candidates_queue refresh_queue)
    then show ?thesis using Pair None by simp
  next
    case (Some vp)
    obtain v p where vp: "vp = (v, p)" by fastforce
    with Pair Some have e: "dispatch_pending env la lt d = (Some (v, p), d')" by simp
    from dispatch_pending_loop [OF e] obtain held specs pending d1 w where
      h: "pass_holds env d = Some held" and c: "pass_candidates env d = (specs, pending, d1)" and
      l: "dispatch_loop env held specs (fair_resource_dispatch_order (pa_admission (pass_start env d la lt)) lt pending)
         ((pass_start env d la lt)\<lparr>pa_daemon := d\<lparr>dm_queue := w\<rparr>\<rparr>) = (v, p)" by metis
    have n: "pa_log ((pass_start env d la lt)\<lparr>pa_daemon := d\<lparr>dm_queue := w\<rparr>\<rparr>) = []" by (simp add: pass_start_def Let_def)
    have a: "list_all (admissible env held specs pending) (pa_log p)"
      by (rule dispatch_loop_admissible [OF l order_set]) (simp add: n)
    have b: "\<not> list_ex build_started (tl (pa_log p))" by (rule dispatch_loop_build [OF l]) (simp add: n)
    obtain by_id w' where q: "cascade_all (de_queue env) (de_specs env)
        (resolve_settled_dependencies (de_settled env) (de_specs env) (specs_by_id (de_specs env))) (dm_queue d) = (specs, by_id, w')"
      "pending = pending_candidates (de_now env) specs by_id"
      using c by (auto simp: pass_candidates_def Let_def split: prod.splits)
    have g: "\<not> dv_host_pressure (dm_view d) \<and> \<not> de_config_unusable env \<and> de_marker env \<noteq> Some None
        \<and> \<not> (\<exists>ds. de_drain env = Some ds \<and> is_full_drain ds)"
      using h by (auto simp: pass_holds_def split: option.splits if_splits)
    have "list_all (\<lambda>(spec, fresh, _). spec \<in> set specs \<and> js_state spec = PENDING \<and> not_before_ready (js_not_before spec) (de_now env)
        \<and> deps_ready spec by_id \<and> js_state fresh = PENDING
        \<and> \<not> blocked_by_running_build specs spec \<and> \<not> held_by_admin_update held spec \<and> js_refresh_before spec = None
        \<and> \<not> (\<exists>ds t. de_drain env = Some ds \<and> js_scheduler_target spec = Some t \<and> drains_scheduler_target ds (Some t))) (pa_log p)"
      using a by (rule list.pred_mono_strong) (auto simp: admissible_def q(2) pending_candidates_def)
    moreover have "\<not> list_ex (\<lambda>(spec, fresh, row, r). r = Started \<and> js_build_env fresh \<noteq> None) (tl (pa_log p))"
      using b by (simp add: list_ex_iff build_started_def)
    ultimately show ?thesis using e g h q(1) by auto
  qed
qed

end
