(* ===== verification/Scheduler_Dialect.thy ===== *)
theory Scheduler_Dialect
  imports Py_Text
begin

text \<open>
  The string layer between vq and a batch scheduler, \<open>scheduler_dialect.py\<close>: the directives and scripts it writes for
  Torque and Slurm and the readers of what \<open>qsub\<close>, \<open>qstat\<close>, \<open>sbatch\<close>, \<open>squeue\<close> and \<open>sacct\<close> print. A dialect is a
  record of functions, as the protocol class has them; \<open>dialect_contract\<close> states what the rest of vq relies on, and
  both dialects are interpretations of it.

  The regular expressions are written out as scanners. An exception is a value; its message is not represented.
  Amounts with a fraction are exact numbers, where the code has a binary float.
\<close>

section \<open>Common parts\<close>

datatype dialect_error = DialectError | DialectIndexError | DialectValueError

datatype phase = PhasePending | PhaseRunning | PhaseFinished

record qstat_detail =
  qd_raw_state :: string
  qd_exec_host :: "string option"
  qd_walltime_used :: "string option"
  qd_walltime_limit :: "string option"
  qd_exit_code :: "int option"
  qd_queued_reason :: "string option"
  qd_mem_used :: "string option"
  qd_cpu_used :: "string option"
  qd_cpu_usage_observed :: bool
  qd_task_peak_rss :: "string option"
  qd_gpu_live :: "string option"

definition new_detail :: "string \<Rightarrow> qstat_detail" where
  "new_detail raw_state = \<lparr>qd_raw_state = raw_state, qd_exec_host = None, qd_walltime_used = None, qd_walltime_limit = None,
     qd_exit_code = None, qd_queued_reason = None, qd_mem_used = None, qd_cpu_used = None,
     qd_cpu_usage_observed = False, qd_task_peak_rss = None, qd_gpu_live = None\<rparr>"

record resource_request =
  rq_cpus :: int
  rq_scheduler_tasks :: "int option"
  rq_gpus :: "int option"
  rq_mem_mb :: "int option"
  rq_wall_time_seconds :: "int option"
  rq_queue :: "string option"
  rq_account :: "string option"
  rq_job_name :: "string option"
  rq_stdout_path :: "string option"
  rq_stderr_path :: "string option"
  rq_array_size :: "int option"
  rq_extra_directives :: "string list"

definition below_one :: "int option \<Rightarrow> bool" where
  "below_one m \<longleftrightarrow> (case m of None \<Rightarrow> False | Some n \<Rightarrow> n < 1)"

definition make_request :: "resource_request \<Rightarrow> dialect_error + resource_request" where
  "make_request r = (if rq_cpus r < 1 \<or> below_one (rq_scheduler_tasks r) \<or> below_one (rq_mem_mb r)
       \<or> below_one (rq_wall_time_seconds r) \<or> below_one (rq_array_size r) then Inl DialectValueError else Inr r)"

definition pad2 :: "int \<Rightarrow> string" where
  "pad2 n = (let s = show_int n in if length s < 2 then CHR ''0'' # s else s)"

definition format_walltime :: "int \<Rightarrow> dialect_error + string" where
  "format_walltime seconds = (if seconds < 0 then Inl DialectValueError
     else Inr (pad2 (seconds div 3600) @ '':'' @ pad2 (seconds mod 3600 div 60) @ '':'' @ pad2 (seconds mod 60)))"

text \<open>Durations of the CPU counters: days and hours are optional; a fraction is read as an exact number.\<close>

definition SLURM_CPU_RESERVED_SECONDS :: int where
  "SLURM_CPU_RESERVED_SECONDS = (2 ^ 64 - 3) div 1000"

definition slurm_cpu_unavailable :: "rat \<Rightarrow> bool" where
  "slurm_cpu_unavailable seconds \<longleftrightarrow> of_int SLURM_CPU_RESERVED_SECONDS \<le> seconds"

definition digits :: "string \<Rightarrow> bool" where
  "digits s \<longleftrightarrow> s \<noteq> [] \<and> list_all is_digit s"

definition decimal :: "string \<Rightarrow> rat option" where
  "decimal s = (case split_on (CHR ''.'') s of
      [a] \<Rightarrow> if digits a then Some (of_nat (read_nat a)) else None
    | [a, b] \<Rightarrow> if digits a \<and> digits b then Some (of_nat (read_nat a) + of_nat (read_nat b) / 10 ^ length b) else None
    | _ \<Rightarrow> None)"

definition cpu_total :: "bool \<Rightarrow> nat \<Rightarrow> nat \<Rightarrow> string \<Rightarrow> string \<Rightarrow> rat option" where
  "cpu_total has_days days hours m s = (case decimal s of
      None \<Rightarrow> None
    | Some seconds \<Rightarrow>
        if \<not> digits m then None
        else if 60 \<le> read_nat m \<or> 60 \<le> seconds \<or> has_days \<and> 24 \<le> hours then None
        else let total = of_nat (((days * 24 + hours) * 60 + read_nat m) * 60) + seconds in
          if slurm_cpu_unavailable total then None else Some total)"

definition cpu_clock :: "bool \<Rightarrow> nat \<Rightarrow> string \<Rightarrow> rat option" where
  "cpu_clock has_days days clock = (case split_on (CHR '':'') clock of
      [m, s] \<Rightarrow> cpu_total has_days days 0 m s
    | [h, m, s] \<Rightarrow> if digits h then cpu_total has_days days (read_nat h) m s else None
    | _ \<Rightarrow> None)"

definition slurm_cpu_seconds :: "string \<Rightarrow> rat option" where
  "slurm_cpu_seconds value = (case split_on (CHR ''-'') (py_strip value) of
      [clock] \<Rightarrow> cpu_clock False 0 clock
    | [d, clock] \<Rightarrow> if digits d then cpu_clock True (read_nat d) clock else None
    | _ \<Rightarrow> None)"

section \<open>Memory sizes and live usage\<close>

text \<open>The power of 1024 a unit letter stands for.\<close>

definition unit_power :: "string \<Rightarrow> char \<Rightarrow> nat" where
  "unit_power units u = length (takeWhile (\<lambda>c. c \<noteq> u) units) + 1"

definition torque_memory_mb :: "string option \<Rightarrow> rat option" where
  "torque_memory_mb m = (case m of None \<Rightarrow> None | Some value \<Rightarrow>
     let r = dropWhile py_space value; amount = takeWhile is_digit r;
         u = py_lower (dropWhile py_space (dropWhile is_digit r));
         scaled = u \<noteq> [] \<and> hd u \<in> set ''kmgtp''; k = (if scaled then tl u else u);
         word = take 1 k = ''w''; tail = (if take 1 k \<in> {''b'', ''w''} then tl k else k) in
     if amount = [] \<or> list_ex (\<lambda>c. \<not> py_space c) tail \<or> word then None
     else Some (of_nat (read_nat amount) * 1024 ^ (if scaled then unit_power ''kmgtp'' (hd u) else 0) / 1024 ^ 2))"

definition slurm_memory_bytes :: "string \<Rightarrow> int option" where
  "slurm_memory_bytes value = (let s = py_strip value; scaled = s \<noteq> [] \<and> last s \<in> set ''KMGTP'' in
     map_option (\<lambda>a. round_even (a * 2 ^ (10 * (if scaled then unit_power ''KMGTP'' (last s) else 0))))
       (decimal (if scaled then butlast s else s)))"

record live_usage =
  lu_task_peak_rss :: "string option"
  lu_cpu_used :: "string option"

definition slurm_usage_command :: "string list \<Rightarrow> string list" where
  "slurm_usage_command ids = [''sstat'', ''--allsteps'', ''--parsable2'', ''--noheader'', ''--format=JobID,MaxRSS,AveCPU,NTasks'',
     ''-j'', join_with '','' ids]"

text \<open>The steps of each job, with the peak and the CPU time each reports.\<close>

fun usage_steps :: "string list \<Rightarrow> (string \<times> (int option \<times> rat option) list) list
    \<Rightarrow> dialect_error + (string \<times> (int option \<times> rat option) list) list" where
  "usage_steps [] steps = Inr steps"
| "usage_steps (line # lines) steps = (
     if py_strip line = [] then usage_steps lines steps
     else let fs = split_on (CHR ''|'') line in
       if length fs \<noteq> 4 \<or> CHR ''.'' \<notin> set (fs ! 0) then Inl DialectError
       else let job_id = takeWhile (\<lambda>c. c \<noteq> CHR ''.'') (py_strip (fs ! 0));
           tasks = (if digits (py_strip (fs ! 3)) then read_nat (py_strip (fs ! 3)) else 0);
           cpu = (if tasks = 0 then None else map_option (\<lambda>a. a * of_nat tasks) (slurm_cpu_seconds (fs ! 2))) in
         usage_steps lines (AList.update job_id (the_or [] (map_of steps job_id) @ [(slurm_memory_bytes (fs ! 1), cpu)]) steps))"

definition job_usage :: "(int option \<times> rat option) list \<Rightarrow> dialect_error + live_usage" where
  "job_usage rows = (let peaks = List.map_filter fst rows; cpus = List.map_filter snd rows;
       peak = (if length peaks = length rows then Some (show_int (- ((- Max (set peaks)) div 1024)) @ ''kb'') else None) in
     if length cpus = length rows
     then rbind (format_walltime (round_even (sum_list cpus))) (\<lambda>t. Inr \<lparr>lu_task_peak_rss = peak, lu_cpu_used = Some t\<rparr>)
     else Inr \<lparr>lu_task_peak_rss = peak, lu_cpu_used = None\<rparr>)"

fun usage_of_jobs :: "(string \<times> (int option \<times> rat option) list) list \<Rightarrow> dialect_error + (string \<times> live_usage) list" where
  "usage_of_jobs [] = Inr []"
| "usage_of_jobs ((i, rows) # steps) = rbind (job_usage rows) (\<lambda>u. rbind (usage_of_jobs steps) (\<lambda>us. Inr ((i, u) # us)))"

definition slurm_parse_usage :: "string \<Rightarrow> dialect_error + (string \<times> live_usage) list" where
  "slurm_parse_usage stdout = rbind (usage_steps (splitlines stdout) []) usage_of_jobs"

section \<open>Site flags\<close>

text \<open>The value of \<open>--flag=value\<close>.\<close>

definition flag_value :: "string \<Rightarrow> string" where
  "flag_value tok = tl (dropWhile (\<lambda>c. c \<noteq> CHR ''='') tok)"

datatype site_flag = QueueFlag | AccountFlag | QueueIs string | AccountIs string | WholeFlag | OpenFlag | Stray

definition site_flag_of :: "string \<Rightarrow> site_flag" where
  "site_flag_of tok = (
     if tok \<in> {''-q'', ''-p'', ''--partition''} then QueueFlag
     else if tok \<in> {''-A'', ''--account''} then AccountFlag
     else if starts_with ''--partition='' tok then QueueIs (flag_value tok)
     else if starts_with ''--account='' tok then AccountIs (flag_value tok)
     else if starts_with ''--'' tok \<and> CHR ''='' \<in> set tok then WholeFlag
     else if starts_with ''-'' tok then OpenFlag else Stray)"

fun parse_extra :: "string list \<Rightarrow> string option \<times> string option \<times> string list \<Rightarrow> dialect_error + string option \<times> string option \<times> string list" where
  "parse_extra [] acc = Inr acc"
| "parse_extra [tok] (queue, account, extra) = (case site_flag_of tok of
      QueueFlag \<Rightarrow> Inl DialectError
    | AccountFlag \<Rightarrow> Inl DialectError
    | QueueIs v \<Rightarrow> if v = [] then Inl DialectError else Inr (Some v, account, extra)
    | AccountIs v \<Rightarrow> if v = [] then Inl DialectError else Inr (queue, Some v, extra)
    | _ \<Rightarrow> Inr (queue, account, extra @ [tok]))"
| "parse_extra (tok # value # rest) (queue, account, extra) = (case site_flag_of tok of
      QueueFlag \<Rightarrow> parse_extra rest (Some value, account, extra)
    | AccountFlag \<Rightarrow> parse_extra rest (queue, Some value, extra)
    | QueueIs v \<Rightarrow> if v = [] then Inl DialectError else parse_extra (value # rest) (Some v, account, extra)
    | AccountIs v \<Rightarrow> if v = [] then Inl DialectError else parse_extra (value # rest) (queue, Some v, extra)
    | OpenFlag \<Rightarrow> if starts_with ''-'' value then parse_extra (value # rest) (queue, account, extra @ [tok])
        else parse_extra rest (queue, account, extra @ [tok @ '' '' @ value])
    | _ \<Rightarrow> parse_extra (value # rest) (queue, account, extra @ [tok]))"

definition parse_submit_extra :: "string list \<Rightarrow> dialect_error + string option \<times> string option \<times> string list" where
  "parse_submit_extra tokens = parse_extra tokens (None, None, [])"

section \<open>Job names\<close>

definition sanitize_job_name :: "string \<Rightarrow> string" where
  "sanitize_job_name name = (let cleaned = map (\<lambda>c. if is_alnum c \<or> c = CHR ''_'' then c else CHR ''_'') name in
     take 15 (if cleaned = [] \<or> \<not> is_alpha (hd cleaned) then CHR ''j'' # cleaned else cleaned))"

definition sanitize_slurm_job_name :: "string \<Rightarrow> string" where
  "sanitize_slurm_job_name name = (let cleaned = map (\<lambda>c. if is_alnum c \<or> c \<in> {CHR ''.'', CHR ''_'', CHR ''-''} then c else CHR ''_'') name in
     take 50 (if cleaned = [] then ''j'' else cleaned))"

section \<open>Scanning text by lines\<close>

text \<open>\<open>re.search\<close> of a pattern that starts with \<open>^\<close> in multi-line mode: the first line start at which the rest of the pattern matches.\<close>

fun search_lines :: "(string \<Rightarrow> 'a option) \<Rightarrow> bool \<Rightarrow> string \<Rightarrow> 'a option" where
  "search_lines f bol [] = (if bol then f [] else None)"
| "search_lines f bol (c # cs) = (case (if bol then f (c # cs) else None) of Some x \<Rightarrow> Some x | None \<Rightarrow> search_lines f (c = NL) cs)"

text \<open>\<open>\s*$\<close> in multi-line mode.\<close>

definition line_ends :: "string \<Rightarrow> bool" where
  "line_ends r \<longleftrightarrow> NL \<in> set (takeWhile py_space r) \<or> dropWhile py_space r = []"

definition after_keyword :: "string \<Rightarrow> string \<Rightarrow> string option" where
  "after_keyword k s = (if py_lower (take (length k) s) = k then Some (drop (length k) s) else None)"

text \<open>\<open>(-?\d+)\s*$\<close>.\<close>

definition number_line :: "string \<Rightarrow> int option" where
  "number_line s = (let minus = (take 1 s = ''-''); ds = takeWhile is_digit (if minus then tl s else s);
       r = dropWhile is_digit (if minus then tl s else s) in
     if ds \<noteq> [] \<and> line_ends r then Some (if minus then - int (read_nat ds) else int (read_nat ds)) else None)"

text \<open>\<open>\s*key\s*=\s*(-?\d+)\s*$\<close> with the key \<open>exit_status\<close>.\<close>

definition exit_status_at :: "string \<Rightarrow> int option" where
  "exit_status_at s = (case after_keyword ''exit_status'' (dropWhile py_space s) of
      None \<Rightarrow> None
    | Some r \<Rightarrow> (case dropWhile py_space r of [] \<Rightarrow> None
        | c # r' \<Rightarrow> if c = CHR ''='' then number_line (dropWhile py_space r') else None))"

text \<open>\<open>\s*Submitted batch job\s+(\d+)\s*$\<close>.\<close>

definition submitted_at_line :: "string \<Rightarrow> string option" where
  "submitted_at_line s = (case after_keyword ''submitted batch job'' (dropWhile py_space s) of
      None \<Rightarrow> None
    | Some r \<Rightarrow> let ds = takeWhile is_digit (dropWhile py_space r) in
        if takeWhile py_space r \<noteq> [] \<and> ds \<noteq> [] \<and> line_ends (dropWhile is_digit (dropWhile py_space r)) then Some ds else None)"

definition opt_directive :: "('a \<Rightarrow> string) \<Rightarrow> 'a option \<Rightarrow> string list" where
  "opt_directive f m = (case m of None \<Rightarrow> [] | Some x \<Rightarrow> [f x])"

definition walltime_directive :: "string \<Rightarrow> int option \<Rightarrow> dialect_error + string list" where
  "walltime_directive flag m = (case m of None \<Rightarrow> Inr []
     | Some n \<Rightarrow> rbind (format_walltime n) (\<lambda>t. Inr [flag @ t]))"

definition script_lines :: "string \<Rightarrow> string \<Rightarrow> string list \<Rightarrow> string list \<Rightarrow> string list" where
  "script_lines marker shell directives body = (''#!'' @ shell) # map (\<lambda>d. marker @ '' '' @ d) directives @ body"

section \<open>Torque\<close>

definition torque_phase_for_state :: "string \<Rightarrow> dialect_error + phase" where
  "torque_phase_for_state s = (
     if s \<in> {''Q'', ''W'', ''H'', ''T''} then Inr PhasePending
     else if s \<in> {''R'', ''E'', ''S''} then Inr PhaseRunning
     else if s = ''C'' then Inr PhaseFinished else Inl DialectError)"

text \<open>\<open>\d+(?:\[\d*\])?(?:\.\S+)?\<close>, the whole string.\<close>

definition torque_job_id :: "string \<Rightarrow> bool" where
  "torque_job_id s \<longleftrightarrow> (let r = dropWhile is_digit s;
       r' = (if take 1 r = ''['' then (case dropWhile is_digit (tl r) of [] \<Rightarrow> r | c # q \<Rightarrow> if c = CHR '']'' then q else r) else r) in
     takeWhile is_digit s \<noteq> []
     \<and> (r' = [] \<or> hd r' = CHR ''.'' \<and> tl r' \<noteq> [] \<and> list_all (\<lambda>c. \<not> py_space c) (tl r')))"

definition torque_resource_directives :: "resource_request \<Rightarrow> dialect_error + string list" where
  "torque_resource_directives r = rbind (walltime_directive ''-l walltime='' (rq_wall_time_seconds r)) (\<lambda>wall. Inr (
     opt_directive (\<lambda>n. ''-N '' @ sanitize_job_name n) (rq_job_name r)
     @ [''-l nodes=1:ppn='' @ show_int (rq_cpus r) @ (case rq_gpus r of None \<Rightarrow> [] | Some g \<Rightarrow> '':gpus='' @ show_int g)]
     @ opt_directive (\<lambda>m. ''-l mem='' @ show_int m @ ''mb'') (rq_mem_mb r)
     @ wall
     @ opt_directive (\<lambda>q. ''-q '' @ q) (rq_queue r)
     @ opt_directive (\<lambda>a. ''-A '' @ a) (rq_account r)
     @ opt_directive (\<lambda>p. ''-o '' @ p) (rq_stdout_path r)
     @ opt_directive (\<lambda>p. ''-e '' @ p) (rq_stderr_path r)
     @ opt_directive (\<lambda>n. ''-t 0-'' @ show_int (n - 1)) (rq_array_size r)
     @ rq_extra_directives r))"

definition torque_render_job_script :: "string \<Rightarrow> string list \<Rightarrow> string list \<Rightarrow> dialect_error + string" where
  "torque_render_job_script shell directives body = (
     let script = join_with [NL] (script_lines ''#PBS'' shell directives body) @ [NL] in
     if list_all (\<lambda>c. (of_char c :: nat) < 128) script then Inr script else Inl DialectError)"

definition torque_parse_submit_id :: "string \<Rightarrow> dialect_error + string" where
  "torque_parse_submit_id stdout = (let lines = filter (\<lambda>l. l \<noteq> []) (map py_strip (splitlines stdout)) in
     if lines = [] then Inl DialectError
     else if \<not> torque_job_id (last lines) then Inl DialectError else Inr (last lines))"

text \<open>\<open>^(id)\s\<close>.\<close>

definition torque_poll_row :: "string \<Rightarrow> bool" where
  "torque_poll_row line \<longleftrightarrow> (let t = takeWhile (\<lambda>c. \<not> py_space c) line in torque_job_id t \<and> t \<noteq> line)"

fun torque_poll_rows :: "string list \<Rightarrow> (string \<times> phase) list \<Rightarrow> dialect_error + (string \<times> phase) list" where
  "torque_poll_rows [] found = Inr found"
| "torque_poll_rows (line # lines) found = (let fields = py_words line in
     if \<not> torque_poll_row line \<or> length fields < 6 then torque_poll_rows lines found
     else rbind (torque_phase_for_state (last (butlast fields))) (\<lambda>ph. torque_poll_rows lines (AList.update (hd fields) ph found)))"

definition torque_parse_poll :: "string \<Rightarrow> dialect_error + (string \<times> phase) list" where
  "torque_parse_poll stdout = torque_poll_rows (splitlines stdout) []"

definition torque_parse_exit_status :: "string \<Rightarrow> dialect_error + int option" where
  "torque_parse_exit_status stdout = Inr (search_lines exit_status_at True stdout)"

text \<open>\<open>re.split\<close> at the headers \<open>^Job Id:\s*\<close>: the text before the first one, then one block per header.\<close>

function job_blocks :: "bool \<Rightarrow> string \<Rightarrow> string list" where
  "job_blocks bol [] = [[]]"
| "job_blocks bol (c # cs) = (
     if bol \<and> py_lower (take 7 (c # cs)) = ''job id:''
     then let r = drop 7 (c # cs) in [] # job_blocks (last (CHR '':'' # takeWhile py_space r) = NL) (dropWhile py_space r)
     else case job_blocks (c = NL) cs of [] \<Rightarrow> [[c]] | b # bs \<Rightarrow> (c # b) # bs)"
  by pat_completeness auto
termination
  by (relation "measure (\<lambda>(b, s). length s)") (auto simp: less_Suc_eq_le intro: order_trans [OF length_dropWhile_le])

text \<open>A line that starts with a tab continues the one before it.\<close>

fun unwrap_detail_lines :: "string list \<Rightarrow> string list \<Rightarrow> string list" where
  "unwrap_detail_lines joined [] = joined"
| "unwrap_detail_lines joined (line # lines) = (
     if take 1 line = [CHR 0x09] \<and> joined \<noteq> [] then unwrap_detail_lines (butlast joined @ [last joined @ tl line]) lines
     else unwrap_detail_lines (joined @ [line]) lines)"

text \<open>\<open>^\s*([A-Za-z_][A-Za-z0-9_.]*)\s*=\s*(.*?)\s*$\<close>.\<close>

definition detail_field :: "string \<Rightarrow> (string \<times> string) option" where
  "detail_field line = (let s = dropWhile py_space line;
       name_char = (\<lambda>c. is_alnum c \<or> c = CHR ''_'' \<or> c = CHR ''.'');
       name = takeWhile name_char s; r = dropWhile py_space (dropWhile name_char s) in
     if name \<noteq> [] \<and> (is_alpha (hd name) \<or> hd name = CHR ''_'') \<and> take 1 r = ''='' then Some (name, py_strip (tl r)) else None)"

definition detail_fields :: "string list \<Rightarrow> (string \<times> string) list" where
  "detail_fields lines = fold (\<lambda>line m. case detail_field line of Some (k, v) \<Rightarrow> AList.update k v m | None \<Rightarrow> m) lines []"

definition pending_comment :: "string \<Rightarrow> string option \<Rightarrow> string option" where
  "pending_comment raw_state comment = (case comment of
      None \<Rightarrow> None
    | Some c \<Rightarrow> if c \<noteq> [] \<and> torque_phase_for_state raw_state = Inr PhasePending then Some c else None)"

definition torque_block_detail :: "string list \<Rightarrow> qstat_detail" where
  "torque_block_detail lines = (let fields = map_of (detail_fields lines); raw = the_or [] (fields ''job_state'') in
     (new_detail raw)\<lparr>qd_exec_host := fields ''exec_host'', qd_walltime_used := fields ''resources_used.walltime'',
       qd_walltime_limit := fields ''Resource_List.walltime'', qd_mem_used := fields ''resources_used.mem'',
       qd_cpu_used := fields ''resources_used.cput'', qd_queued_reason := pending_comment raw (fields ''comment'')\<rparr>)"

fun torque_blocks :: "string list \<Rightarrow> (string \<times> qstat_detail) list \<Rightarrow> dialect_error + (string \<times> qstat_detail) list" where
  "torque_blocks [] found = Inr found"
| "torque_blocks (b # bs) found = (case unwrap_detail_lines [] (splitlines b) of
      [] \<Rightarrow> Inl DialectIndexError
    | l # lines \<Rightarrow> torque_blocks bs (if py_strip l = [] then found else AList.update (py_strip l) (torque_block_detail lines) found))"

definition torque_parse_qstat_detail :: "string \<Rightarrow> dialect_error + (string \<times> qstat_detail) list" where
  "torque_parse_qstat_detail stdout = torque_blocks (tl (job_blocks True stdout)) []"

section \<open>Slurm\<close>

definition SLURM_PENDING :: "string list" where
  "SLURM_PENDING = [''PENDING'', ''CONFIGURING'', ''REQUEUED'', ''RESV_DEL_HOLD'', ''REQUEUE_FED'', ''REQUEUE_HOLD'']"

definition SLURM_RUNNING :: "string list" where
  "SLURM_RUNNING = [''RUNNING'', ''COMPLETING'', ''SUSPENDED'', ''STOPPED'', ''RESIZING'', ''SIGNALING'', ''STAGE_OUT'']"

definition SLURM_FINISHED :: "string list" where
  "SLURM_FINISHED = [''BOOT_FAIL'', ''CANCELLED'', ''COMPLETED'', ''DEADLINE'', ''FAILED'', ''NODE_FAIL'', ''OUT_OF_MEMORY'',
     ''PREEMPTED'', ''REVOKED'', ''SPECIAL_EXIT'', ''TIMEOUT'']"

definition SLURM_ALIASES :: "(string \<times> string) list" where
  "SLURM_ALIASES = [(''PD'', ''PENDING''), (''CF'', ''CONFIGURING''), (''RQ'', ''REQUEUED''), (''R'', ''RUNNING''),
     (''CG'', ''COMPLETING''), (''S'', ''SUSPENDED''), (''ST'', ''STOPPED''), (''BF'', ''BOOT_FAIL''), (''CA'', ''CANCELLED''),
     (''CD'', ''COMPLETED''), (''DL'', ''DEADLINE''), (''F'', ''FAILED''), (''NF'', ''NODE_FAIL''), (''OOM'', ''OUT_OF_MEMORY''),
     (''PR'', ''PREEMPTED''), (''TO'', ''TIMEOUT'')]"

text \<open>The first word without trailing plus signs, in capitals, with short names expanded; \<open>None\<close>: a blank state has no first word.\<close>

definition slurm_normalize :: "string \<Rightarrow> string option" where
  "slurm_normalize state = (case py_words state of
      [] \<Rightarrow> None
    | w # _ \<Rightarrow> let token = py_upper (rev (dropWhile (\<lambda>c. c = CHR ''+'') (rev w))) in
        Some (the_or token (map_of SLURM_ALIASES token)))"

definition slurm_phase_for_state :: "string \<Rightarrow> dialect_error + phase" where
  "slurm_phase_for_state state = (case slurm_normalize state of
      None \<Rightarrow> Inl DialectIndexError
    | Some n \<Rightarrow>
        if n \<in> set SLURM_PENDING then Inr PhasePending
        else if n \<in> set SLURM_RUNNING then Inr PhaseRunning
        else if n \<in> set SLURM_FINISHED then Inr PhaseFinished else Inl DialectError)"

definition slurm_abnormal_termination :: "string \<Rightarrow> dialect_error + string option" where
  "slurm_abnormal_termination state = (case slurm_normalize state of
      None \<Rightarrow> Inl DialectIndexError
    | Some n \<Rightarrow> Inr (if n \<in> set SLURM_FINISHED - {''COMPLETED'', ''FAILED''} then Some n else None))"

definition slurm_ended_on_its_own :: "string \<Rightarrow> bool" where
  "slurm_ended_on_its_own state \<longleftrightarrow> slurm_normalize state \<in> {Some ''COMPLETED'', Some ''FAILED''}"

definition slurm_resource_directives :: "resource_request \<Rightarrow> dialect_error + string list" where
  "slurm_resource_directives r = rbind (walltime_directive ''--time='' (rq_wall_time_seconds r)) (\<lambda>wall. Inr (
     opt_directive (\<lambda>n. ''--job-name='' @ sanitize_slurm_job_name n) (rq_job_name r)
     @ opt_directive (\<lambda>n. ''--ntasks='' @ show_int n) (rq_scheduler_tasks r)
     @ [''--cpus-per-task='' @ show_int (rq_cpus r)]
     @ opt_directive (\<lambda>g. ''--gpus='' @ show_int g) (rq_gpus r)
     @ opt_directive (\<lambda>m. ''--mem='' @ show_int m @ ''M'') (rq_mem_mb r)
     @ wall
     @ opt_directive (\<lambda>q. ''--partition='' @ q) (rq_queue r)
     @ opt_directive (\<lambda>a. ''--account='' @ a) (rq_account r)
     @ opt_directive (\<lambda>p. ''--output='' @ p) (rq_stdout_path r)
     @ opt_directive (\<lambda>p. ''--error='' @ p) (rq_stderr_path r)
     @ opt_directive (\<lambda>n. ''--array=0-'' @ show_int (n - 1)) (rq_array_size r)
     @ rq_extra_directives r))"

definition slurm_render_job_script :: "string \<Rightarrow> string list \<Rightarrow> string list \<Rightarrow> dialect_error + string" where
  "slurm_render_job_script shell directives body = Inr (join_with [NL] (script_lines ''#SBATCH'' shell directives body) @ [NL])"

definition slurm_parse_submit_id :: "string \<Rightarrow> dialect_error + string" where
  "slurm_parse_submit_id stdout = (case search_lines submitted_at_line True stdout of None \<Rightarrow> Inl DialectError | Some i \<Rightarrow> Inr i)"

definition POLL_FIELD_COUNT :: nat where "POLL_FIELD_COUNT = 6"

definition split_poll_row :: "string \<Rightarrow> dialect_error + string list" where
  "split_poll_row line = (let fields = split_max (CHR ''|'') (POLL_FIELD_COUNT - 1) line in
     if length fields < POLL_FIELD_COUNT \<or> py_strip (fields ! 0) = [] \<or> py_strip (fields ! 1) = [] then Inl DialectError else Inr fields)"

definition blank_line :: "string \<Rightarrow> bool" where
  "blank_line line \<longleftrightarrow> py_strip line = []"

fun slurm_poll_rows :: "string list \<Rightarrow> (string \<times> phase) list \<Rightarrow> dialect_error + (string \<times> phase) list" where
  "slurm_poll_rows [] found = Inr found"
| "slurm_poll_rows (line # lines) found = (
     if blank_line line then slurm_poll_rows lines found
     else rbind (split_poll_row line) (\<lambda>fields. let job_id = py_strip (fields ! 0) in
       if map_of found job_id \<noteq> None then Inl DialectError
       else rbind (slurm_phase_for_state (py_strip (fields ! 1))) (\<lambda>ph. slurm_poll_rows lines (AList.update job_id ph found))))"

definition slurm_parse_poll :: "string \<Rightarrow> dialect_error + (string \<times> phase) list" where
  "slurm_parse_poll stdout = slurm_poll_rows (splitlines stdout) []"

fun slurm_reason_rows :: "string list \<Rightarrow> (string \<times> string) list \<Rightarrow> dialect_error + (string \<times> string) list" where
  "slurm_reason_rows [] found = Inr found"
| "slurm_reason_rows (line # lines) found = (
     if blank_line line then slurm_reason_rows lines found
     else rbind (split_poll_row line) (\<lambda>fields. rbind (slurm_phase_for_state (py_strip (fields ! 1))) (\<lambda>ph.
       let reason = py_strip (fields ! (POLL_FIELD_COUNT - 1)) in
       slurm_reason_rows lines (if ph = PhasePending \<and> reason \<noteq> [] \<and> py_lower reason \<noteq> ''none''
         then AList.update (py_strip (fields ! 0)) reason found else found))))"

definition slurm_parse_poll_reasons :: "string \<Rightarrow> dialect_error + (string \<times> string) list" where
  "slurm_parse_poll_reasons stdout = slurm_reason_rows (splitlines stdout) []"

text \<open>\<open>(-?\d+):(\d+)\<close>, the whole string.\<close>

definition exit_code_pair :: "string \<Rightarrow> (int \<times> nat) option" where
  "exit_code_pair v = (case split_on (CHR '':'') v of
      [a, b] \<Rightarrow> let u = (if take 1 a = ''-'' then tl a else a) in
        if digits u \<and> digits b then Some (read_int a, read_nat b) else None
    | _ \<Rightarrow> None)"

definition terminal_exit_code :: "string \<Rightarrow> string \<Rightarrow> int option" where
  "terminal_exit_code raw_state v = (case exit_code_pair v of
      None \<Rightarrow> None
    | Some (status, signal_number) \<Rightarrow>
        if status \<noteq> 0 then Some status
        else if signal_number \<noteq> 0 then Some (128 + int signal_number)
        else Some (if slurm_normalize raw_state = Some ''COMPLETED'' then 0 else 1))"

text \<open>One accounting row: its job id and its six fields.\<close>

definition sacct_row :: "string \<Rightarrow> dialect_error + string list" where
  "sacct_row line = (let fields = split_on (CHR ''|'') line in
     if length fields \<noteq> 6 \<or> py_strip (fields ! 0) = [] \<or> py_strip (fields ! 1) = [] then Inl DialectError else Inr (map py_strip fields))"

fun exit_rows :: "string list \<Rightarrow> string list \<Rightarrow> int option list \<Rightarrow> dialect_error + int option list" where
  "exit_rows [] seen codes = Inr codes"
| "exit_rows (line # lines) seen codes = (
     if blank_line line then exit_rows lines seen codes
     else rbind (sacct_row line) (\<lambda>fields. let job_id = fields ! 0 in
       if job_id \<in> set seen then Inl DialectError
       else if CHR ''.'' \<in> set job_id then exit_rows lines (job_id # seen) codes
       else rbind (slurm_phase_for_state (fields ! 1)) (\<lambda>ph. exit_rows lines (job_id # seen)
         (if ph = PhaseFinished then codes @ [terminal_exit_code (fields ! 1) (fields ! 2)] else codes))))"

definition slurm_parse_exit_status :: "string \<Rightarrow> dialect_error + int option" where
  "slurm_parse_exit_status stdout = rbind (exit_rows (splitlines stdout) [] []) (\<lambda>codes. Inr (
     if None \<in> set codes \<or> codes = [] then None
     else case find (\<lambda>rc. rc \<noteq> 0) (map the codes) of Some rc \<Rightarrow> Some rc | None \<Rightarrow> Some 0))"

definition blank_none :: "string \<Rightarrow> string option" where
  "blank_none s = (if s = [] then None else Some s)"

definition sacct_detail :: "string list \<Rightarrow> phase \<Rightarrow> qstat_detail" where
  "sacct_detail fs ph = (new_detail (fs ! 1))\<lparr>qd_exec_host := blank_none (fs ! 5),
     qd_walltime_used := blank_none (fs ! 3), qd_walltime_limit := blank_none (fs ! 4),
     qd_exit_code := (if ph = PhaseFinished then terminal_exit_code (fs ! 1) (fs ! 2) else None)\<rparr>"

text \<open>\<open>^(\d+)_(?:\d+|\[[0-9,:%-]+\])$\<close>: the master of an array element.\<close>

definition element_index :: "string \<Rightarrow> bool" where
  "element_index e \<longleftrightarrow> digits e \<or> (3 \<le> length e \<and> hd e = CHR ''['' \<and> last e = CHR '']''
     \<and> list_all (\<lambda>c. is_digit c \<or> c \<in> {CHR '','', CHR '':'', CHR ''%'', CHR ''-''}) (butlast (tl e)))"

definition master_id :: "string \<Rightarrow> string" where
  "master_id job_id = (let m = takeWhile is_digit job_id; r = dropWhile is_digit job_id in
     if m \<noteq> [] \<and> take 1 r = ''_'' \<and> element_index (tl r) then m else job_id)"

definition detail_sort_key :: "string \<times> qstat_detail \<Rightarrow> string \<times> string \<times> string \<times> string \<times> string" where
  "detail_sort_key row = (case row of (job_id, d) \<Rightarrow> (the_or [] (slurm_normalize (qd_raw_state d)), job_id,
     the_or [] (qd_exec_host d), the_or [] (qd_walltime_used d), the_or [] (qd_walltime_limit d)))"

text \<open>\<open>min(rows, key=...)\<close>: the first of the least rows.\<close>

definition least_row :: "(string \<times> qstat_detail) list \<Rightarrow> qstat_detail" where
  "least_row rows = snd (hd (sort_key detail_sort_key rows))"

definition rows_in :: "phase \<Rightarrow> (string \<times> qstat_detail) list \<Rightarrow> (string \<times> qstat_detail) list" where
  "rows_in ph rows = filter (\<lambda>row. slurm_phase_for_state (qd_raw_state (snd row)) = Inr ph) rows"

definition aggregate_exit_code :: "(string \<times> qstat_detail) list \<Rightarrow> int option" where
  "aggregate_exit_code terminal = (
     if list_ex (\<lambda>row. qd_exit_code (snd row) = None) terminal then None
     else let nonzero = sort (filter (\<lambda>rc. rc \<noteq> 0) (map (\<lambda>row. the (qd_exit_code (snd row))) terminal)) in
       Some (if nonzero = [] then 0 else hd nonzero))"

definition aggregate_details :: "(string \<times> qstat_detail) list \<Rightarrow> qstat_detail" where
  "aggregate_details rows = (
     if rows_in PhaseRunning rows \<noteq> [] then least_row (rows_in PhaseRunning rows)
     else if rows_in PhasePending rows \<noteq> [] then least_row (rows_in PhasePending rows)
     else let terminal = rows_in PhaseFinished rows;
         failed = filter (\<lambda>row. slurm_normalize (qd_raw_state (snd row)) \<noteq> Some ''COMPLETED'') terminal;
         selected = least_row (if failed = [] then terminal else failed) in
       (new_detail (qd_raw_state selected))\<lparr>qd_exec_host := qd_exec_host selected, qd_walltime_used := qd_walltime_used selected,
          qd_walltime_limit := qd_walltime_limit selected, qd_exit_code := aggregate_exit_code terminal\<rparr>)"

text \<open>The rows that are not job steps, in the order of the output.\<close>

fun detail_rows :: "string list \<Rightarrow> string list \<Rightarrow> (string \<times> qstat_detail) list \<Rightarrow> dialect_error + (string \<times> qstat_detail) list" where
  "detail_rows [] seen rows = Inr rows"
| "detail_rows (line # lines) seen rows = (
     if blank_line line then detail_rows lines seen rows
     else rbind (sacct_row line) (\<lambda>fields. let job_id = fields ! 0 in
       if job_id \<in> set seen then Inl DialectError
       else if CHR ''.'' \<in> set job_id then detail_rows lines (job_id # seen) rows
       else rbind (slurm_phase_for_state (fields ! 1)) (\<lambda>ph. detail_rows lines (job_id # seen) (rows @ [(job_id, sacct_detail fields ph)]))))"

text \<open>\<open>setdefault(master, []).append(row)\<close> for each row.\<close>

definition group_rows :: "(string \<times> qstat_detail) list \<Rightarrow> (string \<times> (string \<times> qstat_detail) list) list" where
  "group_rows rows = fold (\<lambda>row m. let k = master_id (fst row) in AList.update k (the_or [] (map_of m k) @ [row]) m) rows []"

definition slurm_parse_qstat_detail :: "string \<Rightarrow> dialect_error + (string \<times> qstat_detail) list" where
  "slurm_parse_qstat_detail stdout = rbind (detail_rows (splitlines stdout) [] []) (\<lambda>rows. Inr (
     fold (\<lambda>(m, rs) result. AList.update m (aggregate_details rs) result) (group_rows rows)
       (fold (\<lambda>(i, d) native. AList.update i d native) rows [])))"

section \<open>The protocol\<close>

record scheduler_dialect =
  sd_name :: string
  sd_array_index_env :: string
  sd_job_id_env :: string
  sd_resource_directives :: "resource_request \<Rightarrow> dialect_error + string list"
  sd_render_job_script :: "string \<Rightarrow> string list \<Rightarrow> string list \<Rightarrow> dialect_error + string"
  sd_submit_command :: "string \<Rightarrow> string list \<Rightarrow> string list"
  sd_parse_submit_id :: "string \<Rightarrow> dialect_error + string"
  sd_poll_command :: "string list \<Rightarrow> string list"
  sd_parse_poll :: "string \<Rightarrow> dialect_error + (string \<times> phase) list"
  sd_parse_poll_reasons :: "string \<Rightarrow> dialect_error + (string \<times> string) list"
  sd_detail_command :: "string \<Rightarrow> string list"
  sd_parse_exit_status :: "string \<Rightarrow> dialect_error + int option"
  sd_poll_detail_command :: "string list \<Rightarrow> string list"
  sd_parse_qstat_detail :: "string \<Rightarrow> dialect_error + (string \<times> qstat_detail) list"
  sd_phase_for_state :: "string \<Rightarrow> dialect_error + phase"
  sd_abnormal_termination :: "string \<Rightarrow> dialect_error + string option"
  sd_ended_on_its_own :: "string \<Rightarrow> bool"
  sd_cancel_command :: "string \<Rightarrow> string list"
  sd_hold_command :: "string \<Rightarrow> string list"
  sd_release_command :: "string \<Rightarrow> string list"
  sd_usage :: "((string list \<Rightarrow> string list) \<times> (string \<Rightarrow> dialect_error + (string \<times> live_usage) list)) option"
    \<comment> \<open>\<open>usage_command\<close> and \<open>parse_usage\<close>, which a dialect need not have\<close>

definition torque_dialect :: scheduler_dialect where
  "torque_dialect = \<lparr>sd_name = ''torque'', sd_array_index_env = ''PBS_ARRAYID'', sd_job_id_env = ''PBS_JOBID'',
     sd_resource_directives = torque_resource_directives, sd_render_job_script = torque_render_job_script,
     sd_submit_command = (\<lambda>script_path extra_args. ''qsub'' # extra_args @ [script_path]),
     sd_parse_submit_id = torque_parse_submit_id, sd_poll_command = (\<lambda>ids. ''qstat'' # ids), sd_parse_poll = torque_parse_poll,
     sd_parse_poll_reasons = (\<lambda>_. Inr []), sd_detail_command = (\<lambda>i. [''qstat'', ''-f'', i]),
     sd_parse_exit_status = torque_parse_exit_status, sd_poll_detail_command = (\<lambda>ids. [''qstat'', ''-f''] @ ids),
     sd_parse_qstat_detail = torque_parse_qstat_detail, sd_phase_for_state = torque_phase_for_state,
     sd_abnormal_termination = (\<lambda>_. Inr None), sd_ended_on_its_own = (\<lambda>_. False),
     sd_cancel_command = (\<lambda>i. [''qdel'', i]), sd_hold_command = (\<lambda>i. [''qhold'', i]), sd_release_command = (\<lambda>i. [''qrls'', i]),
     sd_usage = None\<rparr>"

definition slurm_detail_command :: "string \<Rightarrow> string list" where
  "slurm_detail_command job_id = [''sacct'', ''-X'', ''--array'', ''-j'', job_id, ''--parsable2'', ''--noheader'',
     ''--format=JobID,State,ExitCode,Elapsed,Timelimit,NodeList'']"

definition slurm_dialect :: scheduler_dialect where
  "slurm_dialect = \<lparr>sd_name = ''slurm'', sd_array_index_env = ''SLURM_ARRAY_TASK_ID'', sd_job_id_env = ''SLURM_JOB_ID'',
     sd_resource_directives = slurm_resource_directives, sd_render_job_script = slurm_render_job_script,
     sd_submit_command = (\<lambda>script_path extra_args. ''sbatch'' # extra_args @ [script_path]),
     sd_parse_submit_id = slurm_parse_submit_id,
     sd_poll_command = (\<lambda>ids. [''squeue'', ''--noheader'', ''--format=%i|%T|%M|%l|%N|%r'', ''--jobs'', join_with '','' ids]),
     sd_parse_poll = slurm_parse_poll, sd_parse_poll_reasons = slurm_parse_poll_reasons,
     sd_detail_command = slurm_detail_command, sd_parse_exit_status = slurm_parse_exit_status,
     sd_poll_detail_command = (\<lambda>ids. slurm_detail_command (join_with '','' ids)),
     sd_parse_qstat_detail = slurm_parse_qstat_detail, sd_phase_for_state = slurm_phase_for_state,
     sd_abnormal_termination = slurm_abnormal_termination, sd_ended_on_its_own = slurm_ended_on_its_own,
     sd_cancel_command = (\<lambda>i. [''scancel'', i]), sd_hold_command = (\<lambda>i. [''scontrol'', ''hold'', i]),
     sd_release_command = (\<lambda>i. [''scontrol'', ''release'', i]),
     sd_usage = Some (slurm_usage_command, slurm_parse_usage)\<rparr>"

definition dialect_for :: "string \<Rightarrow> dialect_error + scheduler_dialect" where
  "dialect_for name = (if name = ''torque'' then Inr torque_dialect else if name = ''slurm'' then Inr slurm_dialect else Inl DialectError)"

section \<open>Durations\<close>

lemma is_digit_not: "is_digit c \<Longrightarrow> c \<noteq> CHR '':'' \<and> c \<noteq> CHR ''-'' \<and> c \<noteq> CHR ''.'' \<and> \<not> py_space c"
  by (auto simp: is_digit_def py_space_def Let_def)

lemma pad2_digits: "0 \<le> n \<Longrightarrow> digits (pad2 n) \<and> read_nat (pad2 n) = nat n"
proof -
  assume n: "0 \<le> n"
  then have s: "show_int n = show_nat (nat n)" by (simp add: show_int_def)
  have "digits (show_nat (nat n))" using show_nat_digits [of "nat n"] by (simp add: digits_def)
  moreover have "read_nat (CHR ''0'' # x) = read_nat x" for x by (simp add: read_nat_def)
  moreover have "is_digit (CHR ''0'')" by (simp add: is_digit_def)
  ultimately show ?thesis by (auto simp: pad2_def s Let_def digits_def)
qed

lemma digits_free: "digits s \<Longrightarrow> CHR '':'' \<notin> set s \<and> CHR ''-'' \<notin> set s \<and> CHR ''.'' \<notin> set s"
  using is_digit_not by (force simp: digits_def list_all_iff)

lemma digits_hd_last: "digits s \<Longrightarrow> \<not> py_space (hd s) \<and> \<not> py_space (last s)"
  using is_digit_not by (auto simp: digits_def list_all_iff)

lemma decimal_digits: "digits s \<Longrightarrow> decimal s = Some (of_nat (read_nat s))"
  using digits_free [of s] by (simp add: decimal_def split_on_simp(1))

lemma clock_strip:
  assumes "digits a" "digits b" "digits c"
  shows "slurm_cpu_seconds (a @ '':'' @ b @ '':'' @ c) = cpu_total False 0 (read_nat a) b c"
proof -
  have "trimmed (a @ '':'' @ b @ '':'' @ c)" using digits_hd_last [OF assms(1)] digits_hd_last [OF assms(3)] assms
    by (auto simp: trimmed_def digits_def)
  then have "py_strip (a @ '':'' @ b @ '':'' @ c) = a @ '':'' @ b @ '':'' @ c" by (rule py_strip_trimmed)
  moreover have "split_on (CHR ''-'') (a @ '':'' @ b @ '':'' @ c) = [a @ '':'' @ b @ '':'' @ c]"
    using digits_free assms by (intro split_on_simp(1)) auto
  moreover have "split_on (CHR '':'') (a @ '':'' @ b @ '':'' @ c) = [a, b, c]"
    using digits_free assms by (simp add: split_on_simp)
  ultimately show ?thesis using assms(1) by (simp add: slurm_cpu_seconds_def cpu_clock_def)
qed

section \<open>Rows\<close>

lemma update_new: "k \<notin> fst ` set al \<Longrightarrow> AList.update k v al = al @ [(k, v)]"
  by (induction al) auto

record squeue_row =
  sq_id :: string
  sq_state :: string
  sq_used :: string
  sq_limit :: string
  sq_nodes :: string
  sq_reason :: string

text \<open>What \<open>squeue --noheader --format=%i|%T|%M|%l|%N|%r\<close> prints for a job.\<close>

definition squeue_line :: "squeue_row \<Rightarrow> string" where
  "squeue_line r = join_with ''|'' [sq_id r, sq_state r, sq_used r, sq_limit r, sq_nodes r, sq_reason r]"

definition squeue_ok :: "squeue_row \<Rightarrow> bool" where
  "squeue_ok r \<longleftrightarrow> list_all (\<lambda>f. CHR ''|'' \<notin> set f) [sq_id r, sq_state r, sq_used r, sq_limit r, sq_nodes r]
     \<and> list_all no_break [sq_id r, sq_state r, sq_used r, sq_limit r, sq_nodes r, sq_reason r]
     \<and> trimmed (sq_id r) \<and> trimmed (sq_state r)"

lemma squeue_fields:
  assumes "squeue_ok r"
  shows "split_poll_row (squeue_line r) = Inr [sq_id r, sq_state r, sq_used r, sq_limit r, sq_nodes r, sq_reason r]"
proof -
  have f: "CHR ''|'' \<notin> set f" if "f \<in> {sq_id r, sq_state r, sq_used r, sq_limit r, sq_nodes r}" for f
    using assms that by (auto simp: squeue_ok_def)
  have "squeue_line r = sq_id r @ CHR ''|'' # sq_state r @ CHR ''|'' # sq_used r @ CHR ''|'' # sq_limit r @ CHR ''|'' # sq_nodes r
      @ CHR ''|'' # sq_reason r" by (simp add: squeue_line_def)
  then have "split_max (CHR ''|'') 5 (squeue_line r) = [sq_id r, sq_state r, sq_used r, sq_limit r, sq_nodes r, sq_reason r]"
    using f by (simp add: numeral_eq_Suc split_max_Suc)
  then show ?thesis using assms by (simp add: split_poll_row_def POLL_FIELD_COUNT_def squeue_ok_def py_strip_trimmed) (simp add: trimmed_def)
qed

lemma squeue_not_blank: "squeue_ok r \<Longrightarrow> \<not> blank_line (squeue_line r)"
proof
  assume r: "squeue_ok r" "blank_line (squeue_line r)"
  obtain c cs where i: "sq_id r = c # cs" "\<not> py_space c" using r(1) by (cases "sq_id r") (auto simp: squeue_ok_def trimmed_def)
  have d: "dropWhile py_space (squeue_line r) = squeue_line r" using i by (simp add: squeue_line_def)
  have "c \<in> set (squeue_line r)" using i by (simp add: squeue_line_def)
  then have "dropWhile py_space (rev (squeue_line r)) \<noteq> []" using i(2) by (auto simp: dropWhile_eq_Nil_conv)
  then show False using r(2) d by (simp add: blank_line_def py_strip_def)
qed

lemma squeue_no_break: "squeue_ok r \<Longrightarrow> no_break (squeue_line r)"
  by (auto simp: squeue_ok_def squeue_line_def no_break_def is_break_def)

lemma poll_rows_squeue:
  assumes "list_all squeue_ok rows" "distinct (map sq_id rows)" "fst ` set found \<inter> sq_id ` set rows = {}"
    "\<forall>r \<in> set rows. slurm_phase_for_state (sq_state r) = Inr (ph r)"
  shows "slurm_poll_rows (map squeue_line rows) found = Inr (found @ map (\<lambda>r. (sq_id r, ph r)) rows)"
  using assms
proof (induction rows arbitrary: found)
  case (Cons r rows)
  have ok: "squeue_ok r" and ph: "slurm_phase_for_state (sq_state r) = Inr (ph r)" using Cons.prems by auto
  have n: "sq_id r \<notin> fst ` set found" using Cons.prems(3) by auto
  then have m: "map_of found (sq_id r) = None" by (simp add: map_of_eq_None_iff)
  have t: "py_strip (sq_id r) = sq_id r" "py_strip (sq_state r) = sq_state r" using ok by (simp_all add: squeue_ok_def py_strip_trimmed)
  have "slurm_poll_rows (map squeue_line rows) (found @ [(sq_id r, ph r)]) = Inr ((found @ [(sq_id r, ph r)]) @ map (\<lambda>r. (sq_id r, ph r)) rows)"
    by (rule Cons.IH) (use Cons.prems in auto)
  then show ?case using ok squeue_not_blank [OF ok] squeue_fields [OF ok] ph n m t by (simp add: Let_def update_new)
qed simp

definition gives_reason :: "(squeue_row \<Rightarrow> phase) \<Rightarrow> squeue_row \<Rightarrow> bool" where
  "gives_reason ph r \<longleftrightarrow> ph r = PhasePending \<and> py_strip (sq_reason r) \<noteq> [] \<and> py_lower (py_strip (sq_reason r)) \<noteq> ''none''"

lemma reason_rows_squeue:
  assumes "list_all squeue_ok rows" "distinct (map sq_id rows)" "fst ` set found \<inter> sq_id ` set rows = {}"
    "\<forall>r \<in> set rows. slurm_phase_for_state (sq_state r) = Inr (ph r)"
  shows "slurm_reason_rows (map squeue_line rows) found
    = Inr (found @ map (\<lambda>r. (sq_id r, py_strip (sq_reason r))) (filter (gives_reason ph) rows))"
  using assms
proof (induction rows arbitrary: found)
  case (Cons r rows)
  have ok: "squeue_ok r" and ph: "slurm_phase_for_state (sq_state r) = Inr (ph r)" using Cons.prems by auto
  have n: "sq_id r \<notin> fst ` set found" using Cons.prems(3) by auto
  have t: "py_strip (sq_id r) = sq_id r" "py_strip (sq_state r) = sq_state r" using ok by (simp_all add: squeue_ok_def py_strip_trimmed)
  let ?f = "if gives_reason ph r then found @ [(sq_id r, py_strip (sq_reason r))] else found"
  have "slurm_reason_rows (map squeue_line rows) ?f = Inr (?f @ map (\<lambda>r. (sq_id r, py_strip (sq_reason r))) (filter (gives_reason ph) rows))"
    by (rule Cons.IH) (use Cons.prems in auto)
  then show ?case using ok squeue_not_blank [OF ok] squeue_fields [OF ok] ph n t
    by (auto simp: Let_def update_new gives_reason_def [of ph r] POLL_FIELD_COUNT_def)
qed simp

lemma squeue_lines: "list_all squeue_ok rows \<Longrightarrow> splitlines (unlines (map squeue_line rows)) = map squeue_line rows"
  using squeue_no_break by (intro splitlines_unlines) (auto simp: list_all_iff)

section \<open>Accounting rows\<close>

lemma py_words_Nil: "py_words s = [] \<longleftrightarrow> (\<forall>c \<in> set s. py_space c)"
proof (cases "dropWhile py_space s")
  case Nil
  have "py_words s = []" unfolding py_words.simps [of s] Nil by simp
  then show ?thesis using Nil by (simp add: dropWhile_eq_Nil_conv)
next
  case (Cons c cs)
  have "py_words s \<noteq> []" unfolding py_words.simps [of s] Cons by simp
  moreover have "\<not> (\<forall>c \<in> set s. py_space c)" using Cons by (metis dropWhile_eq_Nil_conv list.distinct(1))
  ultimately show ?thesis by simp
qed

lemma words_of_stripped: "py_strip s \<noteq> [] \<Longrightarrow> slurm_normalize (py_strip s) \<noteq> None"
proof -
  assume "py_strip s \<noteq> []"
  then have "hd (py_strip s) \<in> set (py_strip s)" "\<not> py_space (hd (py_strip s))" using py_strip_result by (auto simp: trimmed_def)
  then have "py_words (py_strip s) \<noteq> []" using py_words_Nil by blast
  then show ?thesis by (auto simp: slurm_normalize_def Let_def split: list.split)
qed

lemma phase_error: "slurm_normalize s \<noteq> None \<Longrightarrow> slurm_phase_for_state s = Inl e \<Longrightarrow> e = DialectError"
  by (auto simp: slurm_phase_for_state_def split: option.splits if_splits)

text \<open>What one row says: its id and, unless it is a job step, its detail.\<close>

definition account :: "string \<Rightarrow> (string \<times> qstat_detail option) option" where
  "account line = (case sacct_row line of
      Inl e \<Rightarrow> None
    | Inr fs \<Rightarrow> if CHR ''.'' \<in> set (fs ! 0) then Some (fs ! 0, None)
        else (case slurm_phase_for_state (fs ! 1) of Inl e \<Rightarrow> None | Inr ph \<Rightarrow> Some (fs ! 0, Some (sacct_detail fs ph))))"

definition accounts :: "string list \<Rightarrow> (string \<times> qstat_detail option) option list" where
  "accounts lines = map account (filter (\<lambda>l. \<not> blank_line l) lines)"

definition kept :: "(string \<times> qstat_detail option) option list \<Rightarrow> (string \<times> qstat_detail) list" where
  "kept es = concat (map (\<lambda>e. case e of Some (i, Some d) \<Rightarrow> [(i, d)] | _ \<Rightarrow> []) es)"

abbreviation accounted :: "string list \<Rightarrow> (string \<times> qstat_detail) list" where
  "accounted lines \<equiv> kept (accounts lines)"

definition readable :: "string list \<Rightarrow> bool" where
  "readable lines \<longleftrightarrow> None \<notin> set (accounts lines) \<and> distinct (map (fst \<circ> the) (accounts lines))"

lemma sacct_row_Inr: "sacct_row line = Inr fs \<Longrightarrow> slurm_normalize (fs ! 1) \<noteq> None \<and> length fs = 6"
  using words_of_stripped by (auto simp: sacct_row_def Let_def split: if_splits)

lemma sacct_row_Inl: "sacct_row line = Inl e \<Longrightarrow> e = DialectError"
  by (auto simp: sacct_row_def Let_def split: if_splits)

lemma account_None:
  assumes "account line = None"
  obtains "sacct_row line = Inl DialectError"
  | fs where "sacct_row line = Inr fs" "CHR ''.'' \<notin> set (fs ! 0)" "slurm_phase_for_state (fs ! 1) = Inl DialectError"
  using assms sacct_row_Inl [of line] sacct_row_Inr [of line] phase_error by (fastforce simp: account_def split: sum.splits if_splits)

lemma account_Some:
  assumes "account line = Some (i, m)"
  obtains fs where "sacct_row line = Inr fs" "i = fs ! 0" "CHR ''.'' \<in> set i" "m = None"
  | fs ph where "sacct_row line = Inr fs" "i = fs ! 0" "CHR ''.'' \<notin> set i" "slurm_phase_for_state (fs ! 1) = Inr ph" "m = Some (sacct_detail fs ph)"
  using assms by (auto simp: account_def split: sum.splits if_splits)

lemma detail_rows_accounts:
  "detail_rows lines seen rows = (if None \<notin> set (accounts lines) \<and> distinct (map (fst \<circ> the) (accounts lines))
       \<and> set (map (fst \<circ> the) (accounts lines)) \<inter> set seen = {} then Inr (rows @ accounted lines) else Inl DialectError)"
proof (induction lines arbitrary: seen rows)
  case (Cons line lines)
  show ?case
  proof (cases "blank_line line")
    case True
    then show ?thesis using Cons by (simp add: accounts_def kept_def)
  next
    case False
    then have a: "accounts (line # lines) = account line # accounts lines" by (simp add: accounts_def)
    show ?thesis
    proof (cases "account line")
      case None
      then have "detail_rows (line # lines) seen rows = Inl DialectError" using False
        by (cases rule: account_None) (simp_all add: Let_def)
      then show ?thesis using a None by simp
    next
      case (Some x)
      obtain i m where x: "x = (i, m)" by fastforce
      have "detail_rows (line # lines) seen rows = (if i \<in> set seen then Inl DialectError
          else detail_rows lines (i # seen) (rows @ (case m of None \<Rightarrow> [] | Some d \<Rightarrow> [(i, d)])))"
        using Some [unfolded x] False by (cases rule: account_Some) (simp_all add: Let_def)
      moreover have "accounted (line # lines) = (case m of None \<Rightarrow> [] | Some d \<Rightarrow> [(i, d)]) @ accounted lines"
        using a Some x by (simp add: kept_def split: option.split)
      ultimately show ?thesis using a Some x Cons.IH by (cases m) auto
    qed
  qed
qed (simp add: accounts_def kept_def)

lemma detail_rows_readable: "detail_rows lines [] [] = (if readable lines then Inr (accounted lines) else Inl DialectError)"
  by (simp add: detail_rows_accounts readable_def)

lemma exit_rows_accounts:
  "exit_rows lines seen codes = (if None \<notin> set (accounts lines) \<and> distinct (map (fst \<circ> the) (accounts lines))
       \<and> set (map (fst \<circ> the) (accounts lines)) \<inter> set seen = {}
     then Inr (codes @ map (qd_exit_code \<circ> snd) (rows_in PhaseFinished (accounted lines))) else Inl DialectError)"
proof (induction lines arbitrary: seen codes)
  case (Cons line lines)
  show ?case
  proof (cases "blank_line line")
    case True
    then show ?thesis using Cons by (simp add: accounts_def kept_def)
  next
    case False
    then have a: "accounts (line # lines) = account line # accounts lines" by (simp add: accounts_def)
    show ?thesis
    proof (cases "account line")
      case None
      then have "exit_rows (line # lines) seen codes = Inl DialectError" using False
        by (cases rule: account_None) (simp_all add: Let_def)
      then show ?thesis using a None by simp
    next
      case (Some x)
      obtain i m where x: "x = (i, m)" by fastforce
      let ?mine = "case m of None \<Rightarrow> [] | Some d \<Rightarrow> [(i, d)]"
      have "exit_rows (line # lines) seen codes = (if i \<in> set seen then Inl DialectError
          else exit_rows lines (i # seen) (codes @ map (qd_exit_code \<circ> snd) (rows_in PhaseFinished ?mine)))"
        using Some [unfolded x] False
        by (cases rule: account_Some) (auto simp: Let_def rows_in_def sacct_detail_def new_detail_def)
      moreover have "accounted (line # lines) = ?mine @ accounted lines"
        using a Some x by (simp add: kept_def split: option.split)
      ultimately show ?thesis using a Some x Cons.IH by (cases m) (auto simp: rows_in_def)
    qed
  qed
qed (simp add: accounts_def kept_def rows_in_def)

lemma exit_rows_readable:
  "exit_rows lines [] [] = (if readable lines then Inr (map (qd_exit_code \<circ> snd) (rows_in PhaseFinished (accounted lines))) else Inl DialectError)"
  by (simp add: exit_rows_accounts readable_def)

text \<open>The ids of the rows that are kept are distinct.\<close>

lemma kept_ids: "i \<in> fst ` set (kept es) \<Longrightarrow> i \<in> (fst \<circ> the) ` set es"
proof -
  assume "i \<in> fst ` set (kept es)"
  then obtain d where "Some (i, Some d) \<in> set es" by (auto simp: kept_def split: option.splits)
  then show ?thesis by force
qed

lemma kept_mset: "mset es = mset es' \<Longrightarrow> mset (kept es) = mset (kept es')"
proof -
  have "mset (kept es) = (\<Sum>e\<in>#mset es. mset (case e of Some (i, Some d) \<Rightarrow> [(i, d)] | _ \<Rightarrow> []))" for es
    by (induction es) (simp_all add: kept_def)
  then show "mset es = mset es' \<Longrightarrow> ?thesis" by simp
qed

lemma kept_distinct: "distinct (map (fst \<circ> the) es) \<Longrightarrow> distinct (map fst (kept es))"
proof (induction es)
  case (Cons e es)
  have k: "kept (e # es) = (case e of Some (i, Some d) \<Rightarrow> [(i, d)] | _ \<Rightarrow> []) @ kept es" by (simp add: kept_def)
  have n: "fst (the e) \<notin> fst ` set (kept es)" using Cons.prems kept_ids by fastforce
  have d: "distinct (map fst (kept es))" using Cons by simp
  show ?case
  proof (cases "\<exists>i d. e = Some (i, Some d)")
    case True
    then obtain i x where e: "e = Some (i, Some x)" by blast
    then show ?thesis using k n d by (simp add: e)
  next
    case False
    then have "kept (e # es) = kept es" unfolding k by (auto split: option.split)
    then show ?thesis using d by simp
  qed
qed (simp add: kept_def)

lemma accounted_distinct: "readable lines \<Longrightarrow> distinct (map fst (accounted lines))"
  unfolding readable_def by (rule kept_distinct) simp

lemma accounted_row:
  assumes "(i, d) \<in> set (accounted lines)"
  obtains line fs ph where "line \<in> set lines" "\<not> blank_line line" "sacct_row line = Inr fs" "i = fs ! 0" "CHR ''.'' \<notin> set i"
    "slurm_phase_for_state (fs ! 1) = Inr ph" "d = sacct_detail fs ph"
proof -
  from assms obtain line where l: "line \<in> set lines" "\<not> blank_line line" "account line = Some (i, Some d)"
    by (auto simp: kept_def accounts_def split: option.splits)
  from l(3) show ?thesis by (cases rule: account_Some) (use l that in auto)
qed

section \<open>The aggregate of an array\<close>

lemma least_row_mset:
  assumes "mset rows = mset rows'" "distinct (map fst rows)"
  shows "least_row rows = least_row rows'"
proof -
  have "inj_on detail_sort_key (set rows)"
  proof (rule inj_onI)
    fix x y assume "x \<in> set rows" "y \<in> set rows" "detail_sort_key x = detail_sort_key y"
    moreover from this(3) have "fst x = fst y" by (auto simp: detail_sort_key_def split: prod.splits)
    ultimately show "x = y" using assms(2) by (auto simp: distinct_map dest: inj_onD)
  qed
  then have "sort_key detail_sort_key rows = sort_key detail_sort_key rows'"
    using assms(1) by (intro sort_key_inj_key_eq) (simp_all add: sorted_sort_key)
  then show ?thesis by (simp add: least_row_def)
qed

lemma sort_mset_eq: "mset xs = mset ys \<Longrightarrow> sort xs = sort ys"
  by (metis sorted_list_of_multiset_mset)

lemma aggregate_exit_code_mset: "mset rows = mset rows' \<Longrightarrow> aggregate_exit_code rows = aggregate_exit_code rows'"
proof -
  assume m: "mset rows = mset rows'"
  then have "set rows = set rows'" by (rule mset_eq_setD)
  moreover have "sort (filter (\<lambda>rc. rc \<noteq> 0) (map f rows)) = sort (filter (\<lambda>rc. rc \<noteq> 0) (map f rows'))" for f :: "string \<times> qstat_detail \<Rightarrow> int"
    by (rule sort_mset_eq) (simp add: m)
  ultimately show ?thesis by (simp add: aggregate_exit_code_def list_ex_iff Let_def)
qed

lemma aggregate_details_mset:
  assumes "mset rows = mset rows'" "distinct (map fst rows)"
  shows "aggregate_details rows = aggregate_details rows'"
proof -
  have in_mset: "mset (rows_in ph rows) = mset (rows_in ph rows')" for ph using assms(1) by (simp add: rows_in_def)
  have d: "distinct (map fst (filter P rows))" "distinct (map fst (filter P (rows_in ph rows)))" for P ph
    using assms(2) by (auto simp: rows_in_def distinct_map intro: inj_on_subset)
  have d': "distinct (map fst (rows_in ph rows))" for ph using d(1) by (simp add: rows_in_def)
  have l: "least_row (rows_in ph rows) = least_row (rows_in ph rows')" for ph by (rule least_row_mset [OF in_mset d'])
  have f: "least_row (filter P (rows_in ph rows)) = least_row (filter P (rows_in ph rows'))" for P ph
    by (rule least_row_mset [OF _ d(2)]) (simp add: in_mset)
  have e: "rows_in ph rows = [] \<longleftrightarrow> rows_in ph rows' = []" for ph using in_mset [of ph] by (metis mset_zero_iff)
  have e': "filter P (rows_in ph rows) = [] \<longleftrightarrow> filter P (rows_in ph rows') = []" for P ph
    using in_mset [of ph] by (metis mset_filter mset_zero_iff)
  show ?thesis unfolding aggregate_details_def Let_def l f e e' if_distrib [of least_row] aggregate_exit_code_mset [OF in_mset] ..
qed

lemma group_rows_step:
  "map_of (fold (\<lambda>row m. let k = master_id (fst row) in AList.update k (the_or [] (map_of m k) @ [row]) m) rows m0) k
    = (let mine = filter (\<lambda>r. master_id (fst r) = k) rows in if mine = [] then map_of m0 k else Some (the_or [] (map_of m0 k) @ mine))"
  by (induction rows arbitrary: m0) (auto simp: Let_def update_conv')

lemma map_of_group_rows:
  "map_of (group_rows rows) k = (let mine = filter (\<lambda>r. master_id (fst r) = k) rows in if mine = [] then None else Some mine)"
  unfolding group_rows_def group_rows_step by (simp add: Let_def)

lemma group_rows_distinct: "distinct (map fst (group_rows rows))"
proof -
  have "distinct (map fst m) \<Longrightarrow> distinct (map fst (fold (\<lambda>row m. let k = master_id (fst row) in AList.update k (the_or [] (map_of m k) @ [row]) m) rows m))" for m
    by (induction rows arbitrary: m) (simp_all add: Let_def distinct_update)
  then show ?thesis by (simp add: group_rows_def)
qed

lemma fold_update_map:
  "distinct (map fst gs) \<Longrightarrow> map_of (fold (\<lambda>(k, v) m. AList.update k (f v) m) gs m0) i = (case map_of gs i of None \<Rightarrow> map_of m0 i | Some v \<Rightarrow> Some (f v))"
proof (induction gs arbitrary: m0)
  case (Cons g gs)
  have "map_of gs (fst g) = None" using Cons.prems by (simp add: map_of_eq_None_iff)
  then show ?case using Cons by (cases g) (auto simp: update_conv' split: option.split)
qed simp

definition detail_of :: "(string \<times> qstat_detail) list \<Rightarrow> string \<Rightarrow> qstat_detail option" where
  "detail_of rows k = (let mine = filter (\<lambda>r. master_id (fst r) = k) rows in
     if mine = [] then map_of rows k else Some (aggregate_details mine))"

lemma parse_detail_map:
  "if readable (splitlines out) then \<exists>m. slurm_parse_qstat_detail out = Inr m \<and> map_of m = detail_of (accounted (splitlines out))
   else slurm_parse_qstat_detail out = Inl DialectError"
proof (cases "readable (splitlines out)")
  case True
  let ?rows = "accounted (splitlines out)"
  note u = fold_update_map [where f = "\<lambda>d. d", OF accounted_distinct [OF True]] fold_update_map [where f = aggregate_details, OF group_rows_distinct]
  have "map_of (fold (\<lambda>(m, rs) r. AList.update m (aggregate_details rs) r) (group_rows ?rows) (fold (\<lambda>(i, d) n. AList.update i d n) ?rows [])) k
      = detail_of ?rows k" for k
    unfolding u map_of_group_rows by (simp add: detail_of_def Let_def split: option.split)
  then show ?thesis using True by (auto simp: slurm_parse_qstat_detail_def detail_rows_readable)
qed (simp add: slurm_parse_qstat_detail_def detail_rows_readable)

section \<open>What the rest of vq relies on\<close>

text \<open>
  A verdict on an ended job is given only for a terminal state, and the two verdicts exclude each other; a reason for
  waiting is given only for a pending job, an exit code only for an ended one; a job id is a word.
\<close>

locale dialect_contract =
  fixes D :: scheduler_dialect
  assumes abnormal_is_end: "sd_abnormal_termination D s = Inr (Some n) \<Longrightarrow> sd_phase_for_state D s = Inr PhaseFinished"
    and own_end_is_end: "sd_ended_on_its_own D s \<Longrightarrow> sd_phase_for_state D s = Inr PhaseFinished \<and> sd_abnormal_termination D s = Inr None"
    and reason_is_pending: "sd_parse_poll D out = Inr m \<Longrightarrow> sd_parse_poll_reasons D out = Inr r \<Longrightarrow> map_of r i = Some x
      \<Longrightarrow> map_of m i = Some PhasePending \<and> x \<noteq> []"
    and queued_is_pending: "sd_parse_qstat_detail D out = Inr m' \<Longrightarrow> map_of m' i = Some d \<Longrightarrow> qd_queued_reason d \<noteq> None
      \<Longrightarrow> sd_phase_for_state D (qd_raw_state d) = Inr PhasePending"
    and exit_code_is_end: "sd_parse_qstat_detail D out = Inr m' \<Longrightarrow> map_of m' i = Some d \<Longrightarrow> qd_exit_code d \<noteq> None
      \<Longrightarrow> sd_phase_for_state D (qd_raw_state d) = Inr PhaseFinished"
    and verdict_known: "sd_abnormal_termination D s = Inl e \<Longrightarrow> sd_name D = ''slurm'' \<and> sd_phase_for_state D s \<noteq> Inr p"
    and submit_id_word: "sd_parse_submit_id D out = Inr j \<Longrightarrow> j \<noteq> [] \<and> (\<forall>c \<in> set j. \<not> py_space c)"
begin

lemma verdicts_exclusive: "sd_ended_on_its_own D s \<Longrightarrow> sd_abnormal_termination D s \<noteq> Inr (Some n)"
  using own_end_is_end by fastforce

lemma queued_no_exit_code: "sd_parse_qstat_detail D out = Inr m \<Longrightarrow> map_of m i = Some d \<Longrightarrow> qd_queued_reason d \<noteq> None \<Longrightarrow> qd_exit_code d = None"
  using queued_is_pending exit_code_is_end by (metis Inr_inject phase.distinct(3))

end

subsection \<open>Torque\<close>

lemma torque_job_id_word: "torque_job_id s \<Longrightarrow> s \<noteq> [] \<and> (\<forall>c \<in> set s. \<not> py_space c)"
proof -
  assume t: "torque_job_id s"
  define r where "r = dropWhile is_digit s"
  have s: "s = takeWhile is_digit s @ r" by (simp add: r_def)
  have brackets: "\<not> py_space (CHR ''['')" "\<not> py_space (CHR '']'')" "\<not> py_space (CHR ''.'')" by (simp_all add: py_space_def)
  have tail: "\<forall>c \<in> set q. \<not> py_space c" if "q = [] \<or> hd q = CHR ''.'' \<and> tl q \<noteq> [] \<and> list_all (\<lambda>c. \<not> py_space c) (tl q)" for q
    using that brackets by (cases q) (auto simp: list_all_iff)
  have "\<forall>c \<in> set r. \<not> py_space c"
  proof (cases "take 1 r = ''['' \<and> (\<exists>q. dropWhile is_digit (tl r) = CHR '']'' # q)")
    case True
    then obtain q where q: "dropWhile is_digit (tl r) = CHR '']'' # q" by blast
    have r: "r = CHR ''['' # tl r" using True by (cases r) auto
    have "tl r = takeWhile is_digit (tl r) @ CHR '']'' # q" using q by (metis takeWhile_dropWhile_id)
    moreover have "\<forall>c \<in> set q. \<not> py_space c" using t q True by (intro tail) (simp add: torque_job_id_def Let_def flip: r_def)
    ultimately have "\<forall>c \<in> set (tl r). \<not> py_space c" using brackets is_digit_not by (metis Un_iff set_append set_ConsD set_takeWhileD)
    then show ?thesis using r brackets by (metis set_ConsD)
  next
    case False
    then show ?thesis using t by (intro tail) (auto simp: torque_job_id_def Let_def simp flip: r_def split: list.splits if_splits)
  qed
  moreover have "\<forall>c \<in> set (takeWhile is_digit s). \<not> py_space c" using is_digit_not by (metis set_takeWhileD)
  moreover have "takeWhile is_digit s \<noteq> []" using t by (simp add: torque_job_id_def Let_def)
  ultimately show ?thesis using s by (metis Un_iff append_is_Nil_conv set_append)
qed

lemma torque_blocks_detail:
  "torque_blocks bs found = Inr m \<Longrightarrow> map_of m i = Some d \<Longrightarrow> (\<exists>lines. d = torque_block_detail lines) \<or> map_of found i = Some d"
  by (induction bs found rule: torque_blocks.induct) (fastforce simp: update_conv' split: list.splits if_splits)+

lemma torque_detail_facts:
  assumes "torque_parse_qstat_detail out = Inr m" "map_of m i = Some d"
  shows "qd_exit_code d = None" "qd_queued_reason d \<noteq> None \<Longrightarrow> torque_phase_for_state (qd_raw_state d) = Inr PhasePending"
proof -
  obtain lines where "d = torque_block_detail lines"
    using torque_blocks_detail [of "tl (job_blocks True out)" "[]" m i d] assms by (auto simp: torque_parse_qstat_detail_def)
  then show "qd_exit_code d = None" "qd_queued_reason d \<noteq> None \<Longrightarrow> torque_phase_for_state (qd_raw_state d) = Inr PhasePending"
    by (auto simp: torque_block_detail_def new_detail_def Let_def pending_comment_def split: option.splits if_splits)
qed

interpretation torque: dialect_contract torque_dialect
proof unfold_locales
  fix out j assume "sd_parse_submit_id torque_dialect out = Inr j"
  then have "torque_job_id j" by (auto simp: torque_dialect_def torque_parse_submit_id_def Let_def split: if_splits)
  then show "j \<noteq> [] \<and> (\<forall>c \<in> set j. \<not> py_space c)" by (rule torque_job_id_word)
qed (auto simp: torque_dialect_def dest: torque_detail_facts)

subsection \<open>Slurm\<close>

lemma search_lines_Some: "search_lines f b s = Some x \<Longrightarrow> \<exists>t. f t = Some x"
  by (induction f b s rule: search_lines.induct) (auto split: if_splits option.splits)

lemma slurm_reasons_pending:
  "slurm_poll_rows lines found = Inr m \<Longrightarrow> slurm_reason_rows lines rs = Inr r
    \<Longrightarrow> (\<And>j y. map_of rs j = Some y \<Longrightarrow> map_of found j = Some PhasePending \<and> y \<noteq> [])
    \<Longrightarrow> map_of r i = Some x \<Longrightarrow> map_of m i = Some PhasePending \<and> x \<noteq> []"
proof (induction lines arbitrary: found rs)
  case (Cons line lines)
  show ?case
  proof (cases "blank_line line")
    case True
    then show ?thesis using Cons by simp
  next
    case False
    from Cons.prems(1) False obtain fs ph where f: "split_poll_row line = Inr fs" "map_of found (py_strip (fs ! 0)) = None"
      "slurm_phase_for_state (py_strip (fs ! 1)) = Inr ph" "slurm_poll_rows lines (AList.update (py_strip (fs ! 0)) ph found) = Inr m"
      by (auto simp: Let_def split: if_splits)
    from Cons.prems(2) False f obtain rs' where rs': "slurm_reason_rows lines rs' = Inr r"
      "rs' = rs \<or> ph = PhasePending \<and> (\<exists>y. y \<noteq> [] \<and> rs' = AList.update (py_strip (fs ! 0)) y rs)"
      by (auto simp: Let_def split: if_splits)
    have old: "map_of rs j = Some y \<Longrightarrow> j \<noteq> py_strip (fs ! 0) \<and> map_of found j = Some PhasePending \<and> y \<noteq> []" for j y
      using Cons.prems(3) f(2) by fastforce
    show ?thesis
      by (rule Cons.IH [OF f(4) rs'(1) _ Cons.prems(4)]) (use rs'(2) old in \<open>fastforce simp: update_conv' split: if_splits\<close>)
  qed
qed simp

lemma accounted_facts:
  assumes "row \<in> set (accounted lines)"
  shows "qd_queued_reason (snd row) = None" "\<exists>ph. slurm_phase_for_state (qd_raw_state (snd row)) = Inr ph"
    "qd_exit_code (snd row) \<noteq> None \<Longrightarrow> slurm_phase_for_state (qd_raw_state (snd row)) = Inr PhaseFinished"
    "qd_exit_code (snd row) = Some 0 \<Longrightarrow> slurm_normalize (qd_raw_state (snd row)) = Some ''COMPLETED''"
proof -
  obtain line fs ph where f: "slurm_phase_for_state (fs ! 1) = Inr ph" "snd row = sacct_detail fs ph"
    using assms accounted_row [of "fst row" "snd row" lines] by (metis prod.collapse)
  then show "qd_queued_reason (snd row) = None" "\<exists>ph. slurm_phase_for_state (qd_raw_state (snd row)) = Inr ph"
    "qd_exit_code (snd row) \<noteq> None \<Longrightarrow> slurm_phase_for_state (qd_raw_state (snd row)) = Inr PhaseFinished"
    "qd_exit_code (snd row) = Some 0 \<Longrightarrow> slurm_normalize (qd_raw_state (snd row)) = Some ''COMPLETED''"
    by (auto simp: sacct_detail_def new_detail_def terminal_exit_code_def split: if_splits option.splits)
qed

lemma least_row_mem: "rows \<noteq> [] \<Longrightarrow> \<exists>row \<in> set rows. least_row rows = snd row"
proof -
  assume "rows \<noteq> []"
  then have "hd (sort_key detail_sort_key rows) \<in> set (sort_key detail_sort_key rows)" by (intro hd_in_set) simp
  then show ?thesis by (auto simp: least_row_def)
qed

lemma rows_in_set: "row \<in> set (rows_in ph rows) \<longleftrightarrow> row \<in> set rows \<and> slurm_phase_for_state (qd_raw_state (snd row)) = Inr ph"
  by (auto simp: rows_in_def)

lemma aggregate_exit_zero:
  assumes "aggregate_exit_code rows = Some 0" "row \<in> set rows"
  shows "qd_exit_code (snd row) = Some 0"
proof -
  have known: "\<forall>row \<in> set rows. qd_exit_code (snd row) \<noteq> None" using assms(1) by (auto simp: aggregate_exit_code_def list_ex_iff split: if_splits)
  define nz where "nz = sort (filter (\<lambda>rc. rc \<noteq> 0) (map (\<lambda>row. the (qd_exit_code (snd row))) rows))"
  have "hd nz \<noteq> 0" if "nz \<noteq> []"
  proof -
    have "hd nz \<in> set nz" using that by simp
    then show ?thesis by (auto simp: nz_def)
  qed
  moreover have "(if nz = [] then 0 else hd nz) = 0" using assms(1) by (auto simp: aggregate_exit_code_def Let_def nz_def split: if_splits)
  ultimately have "nz = []" by (cases "nz = []") auto
  then have "\<forall>row \<in> set rows. the (qd_exit_code (snd row)) = 0" by (auto simp: nz_def filter_empty_conv)
  then show ?thesis using known assms(2) by fastforce
qed

lemma aggregate_facts:
  assumes "mine \<noteq> []" "set mine \<subseteq> set (accounted lines)"
  defines "d \<equiv> aggregate_details mine"
  shows "qd_queued_reason d = None" "qd_exit_code d \<noteq> None \<Longrightarrow> slurm_phase_for_state (qd_raw_state d) = Inr PhaseFinished"
    "qd_exit_code d = Some 0 \<Longrightarrow> slurm_normalize (qd_raw_state d) = Some ''COMPLETED''"
proof -
  have f: "row \<in> set mine \<Longrightarrow> row \<in> set (accounted lines)" for row using assms(2) by blast
  have live: "qd_queued_reason d = None \<and> qd_exit_code d = None" if h: "rows_in ph mine \<noteq> []" "ph \<noteq> PhaseFinished" "d = least_row (rows_in ph mine)" for ph
  proof -
    obtain row where "row \<in> set (rows_in ph mine)" "d = snd row" using least_row_mem [OF h(1)] h(3) by auto
    then show ?thesis using accounted_facts [OF f, of row] h(2) by (cases "qd_exit_code (snd row)") (auto simp: rows_in_set)
  qed
  define terminal where "terminal = rows_in PhaseFinished mine"
  define failed where "failed = filter (\<lambda>row. slurm_normalize (qd_raw_state (snd row)) \<noteq> Some ''COMPLETED'') terminal"
  define sel where "sel = least_row (if failed = [] then terminal else failed)"
  have ended: "qd_queued_reason d = None \<and> slurm_phase_for_state (qd_raw_state d) = Inr PhaseFinished
      \<and> (qd_exit_code d = Some 0 \<longrightarrow> slurm_normalize (qd_raw_state d) = Some ''COMPLETED'')"
    if "rows_in PhaseRunning mine = []" "rows_in PhasePending mine = []"
  proof -
    obtain row0 where "row0 \<in> set mine" using assms(1) by (cases mine) auto
    moreover obtain ph where "slurm_phase_for_state (qd_raw_state (snd row0)) = Inr ph" using accounted_facts(2) [OF f [OF \<open>row0 \<in> set mine\<close>]] by blast
    ultimately have "row0 \<in> set terminal" using that by (cases ph) (auto simp: terminal_def rows_in_def filter_empty_conv)
    then have "(if failed = [] then terminal else failed) \<noteq> []" by auto
    from least_row_mem [OF this] obtain row where row: "row \<in> set (if failed = [] then terminal else failed)" "sel = snd row" by (auto simp: sel_def)
    then have t: "row \<in> set terminal" by (auto simp: failed_def split: if_splits)
    have "d = (new_detail (qd_raw_state sel))\<lparr>qd_exec_host := qd_exec_host sel, qd_walltime_used := qd_walltime_used sel,
          qd_walltime_limit := qd_walltime_limit sel, qd_exit_code := aggregate_exit_code terminal\<rparr>"
      unfolding d_def aggregate_details_def sel_def failed_def terminal_def Let_def using that by (simp only: simp_thms if_False)
    then have d: "qd_raw_state d = qd_raw_state (snd row)" "qd_queued_reason d = None" "qd_exit_code d = aggregate_exit_code terminal"
      using row(2) by (simp_all add: new_detail_def)
    have "slurm_normalize (qd_raw_state (snd row)) = Some ''COMPLETED''" if "aggregate_exit_code terminal = Some 0"
      using accounted_facts(4) [OF f] aggregate_exit_zero [OF that t] t by (auto simp: terminal_def rows_in_set)
    then show ?thesis using d t by (auto simp: terminal_def rows_in_set)
  qed
  consider "rows_in PhaseRunning mine \<noteq> []" "d = least_row (rows_in PhaseRunning mine)"
    | "rows_in PhasePending mine \<noteq> []" "d = least_row (rows_in PhasePending mine)"
    | "rows_in PhaseRunning mine = []" "rows_in PhasePending mine = []"
    by (cases "rows_in PhaseRunning mine = []"; cases "rows_in PhasePending mine = []") (simp_all add: d_def aggregate_details_def)
  then have "qd_queued_reason d = None \<and> (qd_exit_code d \<noteq> None \<longrightarrow> slurm_phase_for_state (qd_raw_state d) = Inr PhaseFinished)
      \<and> (qd_exit_code d = Some 0 \<longrightarrow> slurm_normalize (qd_raw_state d) = Some ''COMPLETED'')"
    using live [of PhaseRunning] live [of PhasePending] ended by cases auto
  then show "qd_queued_reason d = None" "qd_exit_code d \<noteq> None \<Longrightarrow> slurm_phase_for_state (qd_raw_state d) = Inr PhaseFinished"
    "qd_exit_code d = Some 0 \<Longrightarrow> slurm_normalize (qd_raw_state d) = Some ''COMPLETED''" by blast+
qed

lemma slurm_detail_facts:
  assumes "slurm_parse_qstat_detail out = Inr m" "map_of m i = Some d"
  shows "qd_queued_reason d = None" "qd_exit_code d \<noteq> None \<Longrightarrow> slurm_phase_for_state (qd_raw_state d) = Inr PhaseFinished"
    "qd_exit_code d = Some 0 \<Longrightarrow> slurm_normalize (qd_raw_state d) = Some ''COMPLETED''"
proof -
  have "map_of m = detail_of (accounted (splitlines out))" using parse_detail_map [of out] assms(1) by (auto split: if_splits)
  then have d: "detail_of (accounted (splitlines out)) i = Some d" using assms(2) by simp
  define mine where "mine = filter (\<lambda>r. master_id (fst r) = i) (accounted (splitlines out))"
  have s: "set mine \<subseteq> set (accounted (splitlines out))" by (auto simp: mine_def)
  consider "mine = []" "(i, d) \<in> set (accounted (splitlines out))" | "mine \<noteq> []" "d = aggregate_details mine"
    using d by (auto simp: detail_of_def Let_def mine_def split: if_splits dest: map_of_SomeD)
  then have "qd_queued_reason d = None \<and> (qd_exit_code d \<noteq> None \<longrightarrow> slurm_phase_for_state (qd_raw_state d) = Inr PhaseFinished)
      \<and> (qd_exit_code d = Some 0 \<longrightarrow> slurm_normalize (qd_raw_state d) = Some ''COMPLETED'')"
    using accounted_facts [of "(i, d)"] aggregate_facts [OF _ s] by cases auto
  then show "qd_queued_reason d = None" "qd_exit_code d \<noteq> None \<Longrightarrow> slurm_phase_for_state (qd_raw_state d) = Inr PhaseFinished"
    "qd_exit_code d = Some 0 \<Longrightarrow> slurm_normalize (qd_raw_state d) = Some ''COMPLETED''" by blast+
qed

lemma finished_only: "n \<in> set SLURM_FINISHED \<Longrightarrow> n \<notin> set SLURM_PENDING \<and> n \<notin> set SLURM_RUNNING"
  by (auto simp: SLURM_FINISHED_def SLURM_PENDING_def SLURM_RUNNING_def)

interpretation slurm: dialect_contract slurm_dialect
proof unfold_locales
  fix s n assume "sd_abnormal_termination slurm_dialect s = Inr (Some n)"
  then show "sd_phase_for_state slurm_dialect s = Inr PhaseFinished"
    using finished_only by (auto simp: slurm_dialect_def slurm_abnormal_termination_def slurm_phase_for_state_def split: option.splits if_splits)
next
  fix s assume "sd_ended_on_its_own slurm_dialect s"
  moreover have "''COMPLETED'' \<in> set SLURM_FINISHED" "''FAILED'' \<in> set SLURM_FINISHED" by (simp_all add: SLURM_FINISHED_def)
  ultimately show "sd_phase_for_state slurm_dialect s = Inr PhaseFinished \<and> sd_abnormal_termination slurm_dialect s = Inr None"
    using finished_only by (auto simp: slurm_dialect_def slurm_ended_on_its_own_def slurm_abnormal_termination_def slurm_phase_for_state_def)
next
  fix out m r i x
  assume "sd_parse_poll slurm_dialect out = Inr m" "sd_parse_poll_reasons slurm_dialect out = Inr r" "map_of r i = Some x"
  then show "map_of m i = Some PhasePending \<and> x \<noteq> []"
    using slurm_reasons_pending [of "splitlines out" "[]" m "[]" r i x] by (simp add: slurm_dialect_def slurm_parse_poll_def slurm_parse_poll_reasons_def)
next
  fix s e p assume "sd_abnormal_termination slurm_dialect s = Inl e"
  then show "sd_name slurm_dialect = ''slurm'' \<and> sd_phase_for_state slurm_dialect s \<noteq> Inr p"
    by (auto simp: slurm_dialect_def slurm_abnormal_termination_def slurm_phase_for_state_def split: option.splits)
next
  fix out j assume "sd_parse_submit_id slurm_dialect out = Inr j"
  then obtain t where "submitted_at_line t = Some j"
    using search_lines_Some [of submitted_at_line True out j] by (auto simp: slurm_dialect_def slurm_parse_submit_id_def split: option.splits)
  then have "j \<noteq> [] \<and> (\<forall>c \<in> set j. is_digit c)" by (auto simp: submitted_at_line_def Let_def split: option.splits if_splits dest: set_takeWhileD)
  then show "j \<noteq> [] \<and> (\<forall>c \<in> set j. \<not> py_space c)" using is_digit_not by blast
qed (auto simp: slurm_dialect_def dest: slurm_detail_facts)

section \<open>Properties\<close>

text \<open>
  C29: what \<open>squeue\<close> prints is read back exactly. For rows with distinct ids and known states, whatever the reason column
  contains (the separator included), \<open>parse_poll\<close> returns each job with its phase in the order of the rows, and
  \<open>parse_poll_reasons\<close> returns the reasons of exactly the pending jobs that have one.
\<close>

theorem squeue_roundtrip:
  assumes "list_all squeue_ok rows" "distinct (map sq_id rows)" "\<forall>r \<in> set rows. slurm_phase_for_state (sq_state r) = Inr (ph r)"
  shows "slurm_parse_poll (unlines (map squeue_line rows)) = Inr (map (\<lambda>r. (sq_id r, ph r)) rows)
    \<and> slurm_parse_poll_reasons (unlines (map squeue_line rows))
      = Inr (map (\<lambda>r. (sq_id r, py_strip (sq_reason r))) (filter (\<lambda>r. ph r = PhasePending
          \<and> py_strip (sq_reason r) \<noteq> [] \<and> py_lower (py_strip (sq_reason r)) \<noteq> ''none'') rows))"
proof -
  have "gives_reason ph = (\<lambda>r. ph r = PhasePending \<and> py_strip (sq_reason r) \<noteq> [] \<and> py_lower (py_strip (sq_reason r)) \<noteq> ''none'')"
    by (auto simp: gives_reason_def)
  then show ?thesis using poll_rows_squeue [of rows "[]" ph] reason_rows_squeue [of rows "[]" ph] assms
    by (simp add: slurm_parse_poll_def slurm_parse_poll_reasons_def squeue_lines)
qed

definition sample_squeue :: "squeue_row list" where
  "sample_squeue = [\<lparr>sq_id = ''12'', sq_state = ''PENDING'', sq_used = ''0:00'', sq_limit = ''1:00'', sq_nodes = [], sq_reason = ''Res|ources''\<rparr>,
     \<lparr>sq_id = ''13_4'', sq_state = ''R'', sq_used = ''0:10'', sq_limit = ''1:00'', sq_nodes = ''n1'', sq_reason = ''None''\<rparr>]"

theorem squeue_roundtrip_witness:
  "slurm_parse_poll (unlines (map squeue_line sample_squeue)) = Inr [(''12'', PhasePending), (''13_4'', PhaseRunning)]
    \<and> slurm_parse_poll_reasons (unlines (map squeue_line sample_squeue)) = Inr [(''12'', ''Res|ources'')]"
proof -
  define ph :: "squeue_row \<Rightarrow> phase" where "ph = (\<lambda>r. if sq_id r = ''12'' then PhasePending else PhaseRunning)"
  have a: "list_all squeue_ok sample_squeue" "distinct (map sq_id sample_squeue)" by code_simp+
  have "list_all (\<lambda>r. slurm_phase_for_state (sq_state r) = Inr (if sq_id r = ''12'' then PhasePending else PhaseRunning)) sample_squeue" by code_simp
  then have p: "\<forall>r \<in> set sample_squeue. slurm_phase_for_state (sq_state r) = Inr (ph r)" by (simp add: ph_def list_all_iff)
  have "map (\<lambda>r. (sq_id r, if sq_id r = ''12'' then PhasePending else PhaseRunning)) sample_squeue = [(''12'', PhasePending), (''13_4'', PhaseRunning)]"
    "map (\<lambda>r. (sq_id r, py_strip (sq_reason r))) (filter (\<lambda>r. (if sq_id r = ''12'' then PhasePending else PhaseRunning) = PhasePending
        \<and> py_strip (sq_reason r) \<noteq> [] \<and> py_lower (py_strip (sq_reason r)) \<noteq> ''none'') sample_squeue) = [(''12'', ''Res|ources'')]"
    by code_simp+
  then show ?thesis using squeue_roundtrip [OF a p] unfolding ph_def by simp
qed

text \<open>
  C28: the reading of accounting output does not depend on the order of its rows. Two outputs of \<open>sacct\<close> with the same
  rows are both refused, or give every job and every array the same detail: the same state, host, times and exit code.
\<close>

theorem sacct_order_irrelevant:
  assumes "mset (splitlines out) = mset (splitlines out')"
  shows "case (slurm_parse_qstat_detail out, slurm_parse_qstat_detail out') of
      (Inr m, Inr m') \<Rightarrow> map_of m = map_of m' | (Inl e, Inl e') \<Rightarrow> e = e' | _ \<Rightarrow> False"
proof -
  have acc: "mset (accounts (splitlines out)) = mset (accounts (splitlines out'))" using assms by (simp add: accounts_def)
  then have s: "set (accounts (splitlines out)) = set (accounts (splitlines out'))" by (rule mset_eq_setD)
  have "mset (map (fst \<circ> the) (accounts (splitlines out))) = mset (map (fst \<circ> the) (accounts (splitlines out')))" using acc by simp
  then have r: "readable (splitlines out) \<longleftrightarrow> readable (splitlines out')"
    using s mset_eq_imp_distinct_iff by (metis readable_def)
  have kept: "mset (accounted (splitlines out)) = mset (accounted (splitlines out'))"
    by (rule kept_mset [OF acc])
  show ?thesis
  proof (cases "readable (splitlines out)")
    case True
    note d = accounted_distinct [OF True] accounted_distinct [OF True [unfolded r]]
    have "detail_of (accounted (splitlines out)) k = detail_of (accounted (splitlines out')) k" for k
    proof -
      have m: "mset (filter P (accounted (splitlines out))) = mset (filter P (accounted (splitlines out')))" for P using kept by simp
      have f: "distinct (map fst (filter P (accounted (splitlines out))))" for P using d(1) by (simp add: distinct_map_filter)
      have e: "map_of (accounted (splitlines out)) = map_of (accounted (splitlines out'))"
        using d mset_eq_setD [OF kept] by (simp add: map_of_inject_set)
      have n: "filter P (accounted (splitlines out)) = [] \<longleftrightarrow> filter P (accounted (splitlines out')) = []" for P
        using m by (metis mset_zero_iff)
      show ?thesis unfolding detail_of_def Let_def n e aggregate_details_mset [OF m f] ..
    qed
    then show ?thesis using True r parse_detail_map [of out] parse_detail_map [of out'] by fastforce
  next
    case False
    then show ?thesis using r parse_detail_map [of out] parse_detail_map [of out'] by simp
  qed
qed

theorem sacct_order_irrelevant_witness:
  "case (slurm_parse_qstat_detail (unlines [''7_1|COMPLETED|0:0|1|2|n'', ''7_2|OOM|0:9|1|2|n'']),
       slurm_parse_qstat_detail (unlines [''7_2|OOM|0:9|1|2|n'', ''7_1|COMPLETED|0:0|1|2|n''])) of
     (Inr m, Inr m') \<Rightarrow> map_of m = map_of m' | (Inl e, Inl e') \<Rightarrow> e = e' | _ \<Rightarrow> False"
proof -
  have l: "splitlines (unlines [a, b]) = [a, b]" if "no_break a" "no_break b" for a b
    using splitlines_unlines [of "[a, b]"] that by simp
  have n: "no_break ''7_1|COMPLETED|0:0|1|2|n''" "no_break ''7_2|OOM|0:9|1|2|n''" by code_simp+
  show ?thesis by (rule sacct_order_irrelevant) (simp add: l n add_mset_commute)
qed



text \<open>
  a duration written for a scheduler directive is read back as the same number of seconds, up to the value that the
  counters reserve for an unknown time, from which on it is read as unknown.
\<close>

theorem walltime_roundtrip:
  assumes "0 \<le> n"
  shows "\<exists>t. format_walltime n = Inr t \<and> slurm_cpu_seconds t = (if n < SLURM_CPU_RESERVED_SECONDS then Some (of_int n) else None)"
proof -
  define h where "h = n div 3600"
  define m where "m = n mod 3600 div 60"
  define s where "s = n mod 60"
  have b: "0 \<le> h" "0 \<le> m" "m < 60" "0 \<le> s" "s < 60" using assms by (simp_all add: h_def m_def s_def pos_imp_zdiv_nonneg_iff)
  have n: "n = (h * 60 + m) * 60 + s"
  proof -
    have "n = h * 3600 + n mod 3600" "n mod 3600 = m * 60 + n mod 3600 mod 60" by (simp_all only: h_def m_def div_mult_mod_eq)
    moreover have "n mod 3600 mod 60 = s" by (simp add: s_def mod_mod_cancel)
    ultimately have "n = h * 3600 + (m * 60 + s)" by metis
    then show ?thesis by (simp add: algebra_simps)
  qed
  note d = pad2_digits [OF b(1)] pad2_digits [OF b(2)] pad2_digits [OF b(4)]
  have "format_walltime n = Inr (pad2 h @ '':'' @ pad2 m @ '':'' @ pad2 s)" using assms by (simp add: format_walltime_def h_def m_def s_def)
  moreover have "slurm_cpu_seconds (pad2 h @ '':'' @ pad2 m @ '':'' @ pad2 s) = cpu_total False 0 (nat h) (pad2 m) (pad2 s)"
    using clock_strip d by simp
  moreover have "cpu_total False 0 (nat h) (pad2 m) (pad2 s) = (if n < SLURM_CPU_RESERVED_SECONDS then Some (of_int n) else None)"
  proof -
    have t: "(of_nat ((nat h * 60 + nat m) * 60) :: rat) + of_nat (nat s) = of_int n"
    proof -
      have "int ((nat h * 60 + nat m) * 60) + int (nat s) = n" using b n by simp
      then show ?thesis by (metis of_int_add of_int_of_nat_eq)
    qed
    have "\<not> 60 \<le> nat m" "\<not> (60 :: rat) \<le> of_nat (nat s)" using b by simp_all
    then show ?thesis using d t by (simp add: cpu_total_def decimal_digits slurm_cpu_unavailable_def Let_def)
  qed
  ultimately show ?thesis by simp
qed

theorem walltime_roundtrip_witness:
  "format_walltime 360000 = Inr ''100:00:00'' \<and> slurm_cpu_seconds ''100:00:00'' = Some 360000"
proof -
  have f: "format_walltime 360000 = Inr ''100:00:00''" by code_simp
  have "360000 < SLURM_CPU_RESERVED_SECONDS" by code_simp
  then show ?thesis using walltime_roundtrip [of 360000] f by simp
qed

text \<open>
  A detail answer that is cut off after the header of a record raises an index error, which the callers do not expect:
  a record without an id was meant to be skipped.
\<close>

lemma truncated_detail_raises: "torque_parse_qstat_detail (unlines [''Job Id: 12.pbs'', ''    job_state = R''] @ ''Job Id: '') = Inl DialectIndexError"
  by code_simp

end
