(* ===== verification/Scheduler_Poll.thy ===== *)
theory Scheduler_Poll
  imports Scheduler_Dialect Job_Spec
begin

text \<open>
  What the daemon learns about its scheduler jobs: the batched polls of \<open>SchedulerDispatcher\<close> in
  \<open>scheduler_dispatch.py\<close> and the read-only observation of one target in \<open>daemon.py\<close>. The dialect is a parameter,
  and so is the host: \<open>run n argv\<close> is its answer to the \<open>n\<close>-th command, an exit status with two streams or an error of
  the transport. A host may answer the same command differently each time.
\<close>

section \<open>Commands and answers\<close>

datatype poll_error = SchedulerError | TransportError | PollDialect dialect_error

record run_result =
  rn_returncode :: int
  rn_stdout :: string
  rn_stderr :: string

type_synonym runner = "nat \<Rightarrow> string list \<Rightarrow> poll_error + run_result"

definition of_dialect :: "dialect_error + 'a \<Rightarrow> poll_error + 'a" where
  "of_dialect x = (case x of Inl e \<Rightarrow> Inl (PollDialect e) | Inr y \<Rightarrow> Inr y)"

text \<open>\<open>shlex.quote\<close> and \<open>shlex.join\<close>.\<close>

definition shell_safe :: "char \<Rightarrow> bool" where
  "shell_safe c \<longleftrightarrow> is_alnum c \<or> c \<in> set ''_@%+=:,./-''"

definition quote_mark :: char where "quote_mark = CHR 0x27"

definition shell_quote :: "string \<Rightarrow> string" where
  "shell_quote s = (if s \<noteq> [] \<and> list_all shell_safe s then s
     else quote_mark # concat (map (\<lambda>c. if c = quote_mark then [quote_mark, CHR 0x22, quote_mark, CHR 0x22, quote_mark] else [c]) s) @ [quote_mark])"

definition rendered_bytes :: "string list \<Rightarrow> nat" where
  "rendered_bytes argv = length (join_with '' '' (map shell_quote argv))"

definition SCHEDULER_POLL_MAX_COMMAND_BYTES :: nat where "SCHEDULER_POLL_MAX_COMMAND_BYTES = 8192"

section \<open>Batches\<close>

fun chunk_ids :: "(string list \<Rightarrow> string list) \<Rightarrow> nat \<Rightarrow> string list \<Rightarrow> string list \<Rightarrow> string list list" where
  "chunk_ids build cap [] current = (if current = [] then [] else [current])"
| "chunk_ids build cap (job_id # ids) current = (
     if current \<noteq> [] \<and> cap < rendered_bytes (build (current @ [job_id])) then current # chunk_ids build cap ids [job_id]
     else chunk_ids build cap ids (current @ [job_id]))"

definition chunk_poll_ids :: "string list \<Rightarrow> (string list \<Rightarrow> string list) \<Rightarrow> string list list" where
  "chunk_poll_ids ids build = chunk_ids build SCHEDULER_POLL_MAX_COMMAND_BYTES ids []"

section \<open>The id of a submitted job\<close>

fun submit_id_candidates :: "scheduler_dialect \<Rightarrow> string list \<Rightarrow> dialect_error + string list" where
  "submit_id_candidates D [] = Inr []"
| "submit_id_candidates D (line # lines) = (
     if py_strip line = [] then submit_id_candidates D lines
     else case sd_parse_submit_id D (py_strip line) of
         Inr i \<Rightarrow> rbind (submit_id_candidates D lines) (\<lambda>is. Inr (i # is))
       | Inl DialectError \<Rightarrow> submit_id_candidates D lines
       | Inl e \<Rightarrow> Inl e)"

definition parse_unique_submit_id :: "scheduler_dialect \<Rightarrow> string \<Rightarrow> dialect_error + string" where
  "parse_unique_submit_id D stdout = rbind (submit_id_candidates D (splitlines stdout))
     (\<lambda>matches. case matches of [i] \<Rightarrow> Inr i | _ \<Rightarrow> Inl DialectError)"

section \<open>Reading one answer\<close>

text \<open>\<open>(?:squeue:\s*error:\s*|slurm_load_jobs\s+error:\s*)?invalid job id specified\<close>, the whole line, in any case.\<close>

definition strip_prefix :: "string \<Rightarrow> string \<Rightarrow> string option" where
  "strip_prefix p s = (if starts_with p s then Some (drop (length p) s) else None)"

definition skip_space :: "string \<Rightarrow> string" where "skip_space = dropWhile py_space"

definition invalid_job_line :: "string \<Rightarrow> bool" where
  "invalid_job_line line = (let s = py_lower line; said = ''invalid job id specified'' in
     s = said
     \<or> (case strip_prefix ''squeue:'' s of None \<Rightarrow> False
         | Some r \<Rightarrow> (case strip_prefix ''error:'' (skip_space r) of None \<Rightarrow> False | Some t \<Rightarrow> skip_space t = said))
     \<or> (case strip_prefix ''slurm_load_jobs'' s of None \<Rightarrow> False
         | Some r \<Rightarrow> r \<noteq> [] \<and> py_space (hd r)
             \<and> (case strip_prefix ''error:'' (skip_space r) of None \<Rightarrow> False | Some t \<Rightarrow> skip_space t = said)))"

definition slurm_invalid_job_poll :: "string \<Rightarrow> bool" where
  "slurm_invalid_job_poll stderr = (let lines = filter (\<lambda>l. l \<noteq> []) (map py_strip (splitlines stderr)) in
     lines \<noteq> [] \<and> list_all invalid_job_line lines)"

definition torque_prefixes :: "string \<Rightarrow> (string \<times> phase) list \<Rightarrow> (string \<times> phase) list" where
  "torque_prefixes job_id live = filter (\<lambda>(listed, ph). CHR ''.'' \<in> set listed \<and> starts_with listed job_id) live"

definition array_rows :: "string \<Rightarrow> (string \<times> phase) list \<Rightarrow> phase list" where
  "array_rows job_id live = map snd (filter (\<lambda>(listed, ph). case strip_prefix (job_id @ ''_'') listed of
      None \<Rightarrow> False | Some e \<Rightarrow> element_index e) live)"

definition phase_for_polled_job :: "string \<Rightarrow> string \<Rightarrow> (string \<times> phase) list \<Rightarrow> phase" where
  "phase_for_polled_job dialect_name job_id live = (case map_of live job_id of
      Some ph \<Rightarrow> ph
    | None \<Rightarrow>
        if dialect_name = ''torque''
        then (case torque_prefixes job_id live of [(listed, ph)] \<Rightarrow> ph | _ \<Rightarrow> PhaseFinished)
        else if dialect_name = ''slurm''
        then (let phs = array_rows job_id live in
          if PhaseRunning \<in> set phs then PhaseRunning else if PhasePending \<in> set phs then PhasePending else PhaseFinished)
        else PhaseFinished)"

definition poll_reasons :: "scheduler_dialect \<Rightarrow> string \<Rightarrow> poll_error + (string \<times> string) list" where
  "poll_reasons D stdout = (case sd_parse_poll_reasons D stdout of
      Inr m \<Rightarrow> Inr m
    | Inl DialectIndexError \<Rightarrow> Inl (PollDialect DialectIndexError)
    | Inl _ \<Rightarrow> Inr [])"

section \<open>The live poll\<close>

record poll_evidence =
  ev_phases :: "(string \<times> phase) list"
  ev_explicitly_absent :: "string list"
  ev_queued_reasons :: "(string \<times> string) list"

definition accounting_required_for_absent :: "scheduler_dialect \<Rightarrow> bool" where
  "accounting_required_for_absent D \<longleftrightarrow> sd_name D = ''slurm''"

text \<open>A dictionary built from pairs, later ones winning.\<close>

definition dict_update :: "(string \<times> 'a) list \<Rightarrow> (string \<times> 'a) list \<Rightarrow> (string \<times> 'a) list" where
  "dict_update m kvs = fold (\<lambda>(k, v) m. AList.update k v m) kvs m"

text \<open>The phase of every id that was asked for.\<close>

definition table_of :: "scheduler_dialect \<Rightarrow> string list \<Rightarrow> (string \<times> phase) list \<Rightarrow> (string \<times> phase) list" where
  "table_of D ids live = dict_update [] (map (\<lambda>jid. (jid, phase_for_polled_job (sd_name D) jid live)) ids)"

text \<open>Each missing candidate is polled alone: the phases, the ids refused by name, and the commands issued.\<close>

fun isolate :: "scheduler_dialect \<Rightarrow> runner \<Rightarrow> string list \<Rightarrow> (string \<times> phase) list \<Rightarrow> string list \<Rightarrow> nat
    \<Rightarrow> (poll_error + (string \<times> phase) list \<times> string list) \<times> nat" where
  "isolate D run [] phases isolated n = (Inr (phases, isolated), n)"
| "isolate D run (jid # jids) phases isolated n = (case run n (sd_poll_command D [jid]) of
      Inl e \<Rightarrow> (Inl e, Suc n)
    | Inr single \<Rightarrow> (case sd_parse_poll D (rn_stdout single) of
        Inl e \<Rightarrow> (Inl (PollDialect e), Suc n)
      | Inr live \<Rightarrow>
          let ph = phase_for_polled_job (sd_name D) jid live; phases = AList.update jid ph phases in
          if rn_returncode single = 0 then isolate D run jids phases isolated (Suc n)
          else if slurm_invalid_job_poll (rn_stderr single) \<and> ph = PhaseFinished
          then isolate D run jids phases (jid # isolated) (Suc n)
          else (Inl SchedulerError, Suc n)))"

definition absent_candidates :: "(string \<times> phase) list \<Rightarrow> string list" where
  "absent_candidates phases = map fst (filter (\<lambda>(jid, ph). ph = PhaseFinished) phases)"

definition poll_chunk :: "scheduler_dialect \<Rightarrow> runner \<Rightarrow> string list \<Rightarrow> nat \<Rightarrow> (poll_error + poll_evidence) \<times> nat" where
  "poll_chunk D run ids n = (case run n (sd_poll_command D ids) of
      Inl e \<Rightarrow> (Inl e, Suc n)
    | Inr result \<Rightarrow> (case sd_parse_poll D (rn_stdout result) of
        Inl e \<Rightarrow> (Inl (PollDialect e), Suc n)
      | Inr live \<Rightarrow> (case poll_reasons D (rn_stdout result) of
          Inl e \<Rightarrow> (Inl e, Suc n)
        | Inr reasons \<Rightarrow>
            let phases = table_of D ids live in
            if \<not> (accounting_required_for_absent D \<and> rn_returncode result \<noteq> 0)
            then (Inr \<lparr>ev_phases = phases, ev_explicitly_absent = [], ev_queued_reasons = reasons\<rparr>, Suc n)
            else if \<not> slurm_invalid_job_poll (rn_stderr result) then (Inl SchedulerError, Suc n)
            else case (if length ids = 1 then (Inr (phases, absent_candidates phases), Suc n)
                       else isolate D run (absent_candidates phases) phases [] (Suc n)) of
                (Inl e, n) \<Rightarrow> (Inl e, n)
              | (Inr (phases, isolated), n) \<Rightarrow>
                  if isolated = [] then (Inl SchedulerError, n)
                  else (Inr \<lparr>ev_phases = phases, ev_explicitly_absent = isolated, ev_queued_reasons = reasons\<rparr>, n))))"

text \<open>The first batch that fails ends the poll.\<close>

fun poll_chunks :: "scheduler_dialect \<Rightarrow> runner \<Rightarrow> string list list \<Rightarrow> poll_evidence \<Rightarrow> nat \<Rightarrow> (poll_error + poll_evidence) \<times> nat" where
  "poll_chunks D run [] ev n = (Inr ev, n)"
| "poll_chunks D run (ids # chunks) ev n = (case poll_chunk D run ids n of
      (Inl e, n) \<Rightarrow> (Inl e, n)
    | (Inr e, n) \<Rightarrow> poll_chunks D run chunks \<lparr>ev_phases = dict_update (ev_phases ev) (ev_phases e),
          ev_explicitly_absent = ev_explicitly_absent ev @ ev_explicitly_absent e,
          ev_queued_reasons = dict_update (ev_queued_reasons ev) (ev_queued_reasons e)\<rparr> n)"

definition no_evidence :: poll_evidence where
  "no_evidence = \<lparr>ev_phases = [], ev_explicitly_absent = [], ev_queued_reasons = []\<rparr>"

definition poll_with_evidence :: "scheduler_dialect \<Rightarrow> runner \<Rightarrow> string list \<Rightarrow> nat \<Rightarrow> (poll_error + poll_evidence) \<times> nat" where
  "poll_with_evidence D run ids n = (case chunk_poll_ids ids (sd_poll_command D) of
      [] \<Rightarrow> (Inr no_evidence, n)
    | [chunk] \<Rightarrow> poll_chunk D run chunk n
    | chunks \<Rightarrow> poll_chunks D run chunks no_evidence n)"

section \<open>The detail poll\<close>

type_synonym details = "(string \<times> qstat_detail) list"

definition poll_detail_chunk :: "scheduler_dialect \<Rightarrow> runner \<Rightarrow> string list \<Rightarrow> nat \<Rightarrow> poll_error + details" where
  "poll_detail_chunk D run ids n = rbind (run n (sd_poll_detail_command D ids)) (\<lambda>result.
     if accounting_required_for_absent D \<and> rn_returncode result \<noteq> 0 then Inl SchedulerError
     else of_dialect (sd_parse_qstat_detail D (rn_stdout result)))"

fun poll_detail_chunks :: "scheduler_dialect \<Rightarrow> runner \<Rightarrow> string list list \<Rightarrow> details \<Rightarrow> nat \<Rightarrow> poll_error + details \<times> nat" where
  "poll_detail_chunks D run [] details n = Inr (details, n)"
| "poll_detail_chunks D run (ids # chunks) details n = rbind (poll_detail_chunk D run ids n)
     (\<lambda>m. poll_detail_chunks D run chunks (dict_update details m) (Suc n))"

definition phase_from_detail :: "scheduler_dialect \<Rightarrow> qstat_detail \<Rightarrow> dialect_error + phase option" where
  "phase_from_detail D d = (if qd_raw_state d = [] then Inr None else rbind (sd_phase_for_state D (qd_raw_state d)) (\<lambda>ph. Inr (Some ph)))"

definition abnormal_termination_from_detail :: "scheduler_dialect \<Rightarrow> qstat_detail \<Rightarrow> dialect_error + string option" where
  "abnormal_termination_from_detail D d = (if qd_raw_state d = [] then Inr None else sd_abnormal_termination D (qd_raw_state d))"

definition ended_on_its_own_from_detail :: "scheduler_dialect \<Rightarrow> qstat_detail \<Rightarrow> bool" where
  "ended_on_its_own_from_detail D d \<longleftrightarrow> qd_raw_state d \<noteq> [] \<and> sd_ended_on_its_own D (qd_raw_state d)"

text \<open>The ids whose detail says that they run.\<close>

fun running_in :: "scheduler_dialect \<Rightarrow> details \<Rightarrow> string list \<Rightarrow> dialect_error + string list" where
  "running_in D details [] = Inr []"
| "running_in D details (i # ids) = (case map_of details i of
      None \<Rightarrow> running_in D details ids
    | Some d \<Rightarrow> rbind (phase_from_detail D d) (\<lambda>ph. rbind (running_in D details ids) (\<lambda>is.
        Inr (if ph = Some PhaseRunning then i # is else is))))"

definition alter :: "string \<Rightarrow> (qstat_detail \<Rightarrow> qstat_detail) \<Rightarrow> details \<Rightarrow> details" where
  "alter i f details = (case map_of details i of None \<Rightarrow> details | Some d \<Rightarrow> AList.update i (f d) details)"

text \<open>The errors that the handlers of a poll name. An index error or a plain value error is not among them.\<close>

definition handled :: "poll_error \<Rightarrow> bool" where
  "handled e \<longleftrightarrow> e \<noteq> PollDialect DialectIndexError \<and> e \<noteq> PollDialect DialectValueError"

fun usage_chunks :: "(string list \<Rightarrow> string list) \<Rightarrow> (string \<Rightarrow> dialect_error + (string \<times> live_usage) list) \<Rightarrow> runner
    \<Rightarrow> string list list \<Rightarrow> details \<Rightarrow> nat \<Rightarrow> poll_error + details" where
  "usage_chunks build parse run [] details n = Inr details"
| "usage_chunks build parse run (ids # chunks) details n = (
     case rbind (run n (build ids)) (\<lambda>r. of_dialect (parse (rn_stdout r))) of
       Inl e \<Rightarrow> if handled e then usage_chunks build parse run chunks details (Suc n) else Inl e
     | Inr usage \<Rightarrow> usage_chunks build parse run chunks
         (fold (\<lambda>i. case map_of usage i of None \<Rightarrow> id
            | Some u \<Rightarrow> alter i (\<lambda>d. d\<lparr>qd_task_peak_rss := lu_task_peak_rss u, qd_cpu_used := lu_cpu_used u\<rparr>)) ids details) (Suc n))"

definition merge_live_usage :: "scheduler_dialect \<Rightarrow> runner \<Rightarrow> string list \<Rightarrow> details \<Rightarrow> nat \<Rightarrow> poll_error + details" where
  "merge_live_usage D run ids details n = (case sd_usage D of
      None \<Rightarrow> Inr details
    | Some (build, parse) \<Rightarrow> rbind (of_dialect (running_in D details ids)) (\<lambda>running.
        usage_chunks build parse run (chunk_poll_ids running build)
          (fold (\<lambda>i. alter i (\<lambda>d. d\<lparr>qd_cpu_used := None, qd_cpu_usage_observed := True\<rparr>)) running details) n))"

definition poll_detail :: "scheduler_dialect \<Rightarrow> runner \<Rightarrow> string list \<Rightarrow> nat \<Rightarrow> poll_error + details" where
  "poll_detail D run ids n = (if ids = [] then Inr []
     else rbind (poll_detail_chunks D run (chunk_poll_ids ids (sd_poll_detail_command D)) [] n)
       (\<lambda>(details, n). merge_live_usage D run ids details n))"

section \<open>Exit codes and cancellation\<close>

text \<open>\<open>int(text)\<close> on a stripped text: a sign, then digits that single underscores may group.\<close>

definition py_int :: "string \<Rightarrow> int option" where
  "py_int text = (let s = py_strip text; u = (if take 1 s \<in> {''-'', ''+''} then tl s else s) in
     if list_all digits (split_on (CHR ''_'') u)
     then Some ((if take 1 s = ''-'' then - 1 else 1) * int (read_nat (concat (split_on (CHR ''_'') u)))) else None)"

definition exit_marker_code :: "poll_error + run_result \<Rightarrow> poll_error + int option" where
  "exit_marker_code answer = (case answer of
      Inl _ \<Rightarrow> Inl SchedulerError
    | Inr r \<Rightarrow> Inr (if rn_returncode r = 0 \<and> py_strip (rn_stdout r) \<noteq> [] then py_int (rn_stdout r) else None))"

text \<open>\<open>exit_code\<close>, with the answers to the reading of the marker and to the detail command.\<close>

definition exit_code :: "scheduler_dialect \<Rightarrow> bool \<Rightarrow> poll_error + run_result \<Rightarrow> poll_error + run_result \<Rightarrow> poll_error + int option" where
  "exit_code D array_element marker detail = rbind (exit_marker_code marker) (\<lambda>marker_rc.
     if marker_rc \<noteq> None then Inr marker_rc
     else if array_element then Inr None
     else rbind detail (\<lambda>r. if rn_returncode r = 0 then of_dialect (sd_parse_exit_status D (rn_stdout r)) else Inr None))"

definition phase_to_state :: "phase \<Rightarrow> int option \<Rightarrow> bool \<Rightarrow> job_state" where
  "phase_to_state ph rc walltime_exceeded = (case ph of
      PhasePending \<Rightarrow> PENDING
    | PhaseRunning \<Rightarrow> RUNNING
    | PhaseFinished \<Rightarrow> if walltime_exceeded then TIME_EXCEEDED
        else case rc of None \<Rightarrow> ABORTED_BY_QUEUE | Some c \<Rightarrow> if c = 0 then COMPLETED else FAILED)"

text \<open>
  The diagnostics that prove the job is already gone: \<open>(?:qdel:\s*)?Unknown Job Id(?:\s+\S+)?\<close> and, in any case,
  \<open>scancel:\s+error:\s+Invalid job id specified\<close>, both on the words of the error stream joined by one blank.
\<close>

definition torque_cancel_absent :: "string list \<Rightarrow> bool" where
  "torque_cancel_absent ws = (let rest = (case ws of w # ws' \<Rightarrow>
         if w = ''qdel:'' then ws' else if starts_with ''qdel:'' w then drop 5 w # ws' else ws | [] \<Rightarrow> ws) in
     take 3 rest = [''Unknown'', ''Job'', ''Id''] \<and> length rest \<le> 4)"

definition cancel_confirmed :: "scheduler_dialect \<Rightarrow> run_result \<Rightarrow> bool" where
  "cancel_confirmed D r \<longleftrightarrow> rn_returncode r = 0
     \<or> sd_name D = ''torque'' \<and> torque_cancel_absent (py_words (rn_stderr r))
     \<or> sd_name D = ''slurm'' \<and> map py_lower (py_words (rn_stderr r)) = [''scancel:'', ''error:'', ''invalid'', ''job'', ''id'', ''specified'']"

definition cancel :: "scheduler_dialect \<Rightarrow> runner \<Rightarrow> string \<Rightarrow> nat \<Rightarrow> poll_error + unit" where
  "cancel D run job_id n = rbind (run n (sd_cancel_command D job_id)) (\<lambda>r. if cancel_confirmed D r then Inr () else Inl SchedulerError)"

section \<open>The observation of a target\<close>

record poll_observation =
  ob_phases :: "(string \<times> phase) list"
  ob_explicitly_absent :: "string list"
  ob_details :: details
  ob_queued_reasons :: "(string \<times> string) list"
  ob_poll_error :: "poll_error option"
  ob_accounting_error :: "poll_error option"

text \<open>The newest GPU samples of the running jobs that asked for GPUs; \<open>samples\<close> is what the host answers.\<close>

definition merge_live_gpu :: "scheduler_dialect \<Rightarrow> (string list \<Rightarrow> (string \<times> string) list) \<Rightarrow> string list \<Rightarrow> details \<Rightarrow> poll_error + details" where
  "merge_live_gpu D samples gpu_ids details = rbind (of_dialect (running_in D details gpu_ids)) (\<lambda>running.
     Inr (if running = [] then details
       else fold (\<lambda>(i, s). alter i (\<lambda>d. d\<lparr>qd_gpu_live := Some s\<rparr>)) (samples running) details))"

text \<open>\<open>handles\<close>: the scheduler ids with whether the job asked for GPUs. \<open>Inl\<close>: an exception that no handler names.\<close>

definition observe_scheduler_dispatcher :: "scheduler_dialect \<Rightarrow> runner \<Rightarrow> (string list \<Rightarrow> (string \<times> string) list)
    \<Rightarrow> (string \<times> bool) list \<Rightarrow> nat \<Rightarrow> poll_error + poll_observation" where
  "observe_scheduler_dispatcher D run samples handles n = (let ids = map fst handles in
     case poll_with_evidence D run ids n of
       (Inl e, n) \<Rightarrow> if handled e
         then Inr \<lparr>ob_phases = [], ob_explicitly_absent = [], ob_details = [], ob_queued_reasons = [],
                ob_poll_error = Some e, ob_accounting_error = None\<rparr>
         else Inl e
     | (Inr ev, n) \<Rightarrow>
         let observed = (\<lambda>details err. rbind (merge_live_gpu D samples (map fst (filter snd handles)) details) (\<lambda>details.
               Inr \<lparr>ob_phases = ev_phases ev, ob_explicitly_absent = ev_explicitly_absent ev, ob_details = details,
                 ob_queued_reasons = ev_queued_reasons ev, ob_poll_error = None, ob_accounting_error = err\<rparr>)) in
         case poll_detail D run ids n of
           Inl e \<Rightarrow> if handled e then observed [] (Some e) else Inl e
         | Inr details \<Rightarrow> observed details None)"

section \<open>Batches cover the ids\<close>

lemma concat_chunk_ids: "concat (chunk_ids build cap ids current) = current @ ids"
  by (induction build cap ids current rule: chunk_ids.induct) auto

lemma chunk_ids_Nil [simp]: "[] \<notin> set (chunk_ids build cap ids current)"
  by (induction build cap ids current rule: chunk_ids.induct) auto

definition fits :: "(string list \<Rightarrow> string list) \<Rightarrow> nat \<Rightarrow> string list \<Rightarrow> bool" where
  "fits build cap c \<longleftrightarrow> length c \<le> 1 \<or> rendered_bytes (build c) \<le> cap"

lemma chunk_ids_fit: "fits build cap current \<Longrightarrow> c \<in> set (chunk_ids build cap ids current) \<Longrightarrow> fits build cap c"
proof (induction build cap ids current rule: chunk_ids.induct)
  case (2 build cap job_id ids current)
  show ?case
  proof (cases "current \<noteq> [] \<and> cap < rendered_bytes (build (current @ [job_id]))")
    case True
    then show ?thesis using 2 by (auto simp: fits_def)
  next
    case False
    then have "fits build cap (current @ [job_id])" by (auto simp: fits_def)
    then show ?thesis using 2(2) 2(4) False by auto
  qed
qed (auto split: if_splits)

text \<open>
  C26: a poll is cut into batches that cover the ids in their order, none of them empty, and each command stays within
  the byte cap unless it asks for a single id.
\<close>

theorem poll_batches_exact:
  "concat (chunk_poll_ids ids build) = ids \<and> list_all (\<lambda>c. c \<noteq> [] \<and> (length c = 1
     \<or> rendered_bytes (build c) \<le> SCHEDULER_POLL_MAX_COMMAND_BYTES)) (chunk_poll_ids ids build)"
proof -
  have "c \<noteq> []" if "c \<in> set (chunk_poll_ids ids build)" for c
    using that chunk_ids_Nil [of build SCHEDULER_POLL_MAX_COMMAND_BYTES ids "[]"] by (auto simp: chunk_poll_ids_def)
  moreover have "fits build SCHEDULER_POLL_MAX_COMMAND_BYTES c" if "c \<in> set (chunk_poll_ids ids build)" for c
    using that chunk_ids_fit [of build SCHEDULER_POLL_MAX_COMMAND_BYTES "[]" c ids] by (simp add: chunk_poll_ids_def fits_def)
  ultimately have "c \<noteq> [] \<and> (length c = 1 \<or> rendered_bytes (build c) \<le> SCHEDULER_POLL_MAX_COMMAND_BYTES)"
    if "c \<in> set (chunk_poll_ids ids build)" for c
    using that by (metis fits_def le_Suc_eq le_zero_eq length_0_conv One_nat_def)
  then show ?thesis by (simp add: list_all_iff chunk_poll_ids_def concat_chunk_ids)
qed

lemma chunk_poll_ids_set: "\<Union> (set ` set (chunk_poll_ids ids build)) = set ids"
  unfolding chunk_poll_ids_def by (metis append_Nil concat_chunk_ids set_concat)

section \<open>What a poll proves\<close>

lemma dict_update_keys: "fst ` set (dict_update m kvs) = fst ` set m \<union> fst ` set kvs"
proof (induction kvs arbitrary: m)
  case (Cons kv kvs)
  then show ?case by (cases kv) (auto simp: dict_update_def dom_map_of_conv_image_fst [symmetric] store_simps)
qed (simp add: dict_update_def)

lemma map_of_dict_update: "map_of (dict_update m kvs) = map_of m ++ map_of (rev kvs)"
proof (induction kvs arbitrary: m)
  case (Cons kv kvs)
  have "dict_update m (kv # kvs) = dict_update (AList.update (fst kv) (snd kv) m) kvs" by (cases kv) (simp add: dict_update_def)
  then show ?case using Cons by (cases kv) (simp add: store_simps map_add_def fun_eq_iff split: option.splits)
qed (simp add: dict_update_def)

text \<open>An answer that settles an id: an orderly table without it, or the refusal of a command that asks for nothing else.\<close>

definition settles :: "scheduler_dialect \<Rightarrow> runner \<Rightarrow> nat \<Rightarrow> string list \<Rightarrow> string \<Rightarrow> bool \<Rightarrow> bool" where
  "settles D run m c i refused \<longleftrightarrow> i \<in> set c \<and> (\<exists>r live. run m (sd_poll_command D c) = Inr r
     \<and> sd_parse_poll D (rn_stdout r) = Inr live \<and> phase_for_polled_job (sd_name D) i live = PhaseFinished
     \<and> (if refused then c = [i] \<and> rn_returncode r \<noteq> 0 \<and> slurm_invalid_job_poll (rn_stderr r) else rn_returncode r = 0))"

definition settled_between :: "scheduler_dialect \<Rightarrow> runner \<Rightarrow> nat \<Rightarrow> nat \<Rightarrow> string \<Rightarrow> bool \<Rightarrow> bool" where
  "settled_between D run a b i refused \<longleftrightarrow> (\<exists>m c. a \<le> m \<and> m < b \<and> settles D run m c i refused)"

definition sound_evidence :: "scheduler_dialect \<Rightarrow> runner \<Rightarrow> nat \<Rightarrow> nat \<Rightarrow> string set \<Rightarrow> poll_evidence \<Rightarrow> bool" where
  "sound_evidence D run a b ids ev \<longleftrightarrow> distinct (map fst (ev_phases ev)) \<and> fst ` set (ev_phases ev) = ids \<and> set (ev_explicitly_absent ev) \<subseteq> ids
     \<and> (\<forall>i \<in> set (ev_explicitly_absent ev). settled_between D run a b i True)
     \<and> (\<forall>i. map_of (ev_phases ev) i = Some PhaseFinished \<longrightarrow>
          settled_between D run a b i False \<or> i \<in> set (ev_explicitly_absent ev))"

lemma settled_between_mono: "settled_between D run a b i r \<Longrightarrow> a' \<le> a \<Longrightarrow> b \<le> b' \<Longrightarrow> settled_between D run a' b' i r"
  unfolding settled_between_def by (meson le_trans less_le_trans)

lemma settledI: "settles D run m c i r \<Longrightarrow> a \<le> m \<Longrightarrow> m < b \<Longrightarrow> settled_between D run a b i r"
  unfolding settled_between_def by blast

definition isolates :: "scheduler_dialect \<Rightarrow> runner \<Rightarrow> string list \<Rightarrow> nat \<Rightarrow> nat \<Rightarrow> (string \<times> phase) list \<times> string list
    \<Rightarrow> (string \<times> phase) list \<times> string list \<Rightarrow> bool" where
  "isolates D run jids n n' before after \<longleftrightarrow> n \<le> n' \<and> set (snd before) \<subseteq> set (snd after)
    \<and> set (snd after) \<subseteq> set (snd before) \<union> set jids \<and> fst ` set (fst after) = fst ` set (fst before) \<union> set jids
    \<and> (\<forall>i. i \<in> set (snd after) \<longrightarrow> i \<in> set (snd before) \<or> settled_between D run n n' i True)
    \<and> (\<forall>i. map_of (fst after) i = Some PhaseFinished \<longrightarrow> i \<notin> set jids \<and> map_of (fst before) i = Some PhaseFinished
         \<or> settled_between D run n n' i False \<or> i \<in> set (snd after))"

lemma isolates_finished:
  "isolates D run jids n n' before after \<Longrightarrow> map_of (fst after) i = Some PhaseFinished \<Longrightarrow>
     i \<notin> set jids \<and> map_of (fst before) i = Some PhaseFinished \<or> settled_between D run n n' i False \<or> i \<in> set (snd after)"
  by (simp add: isolates_def)

lemma isolates_step:
  assumes "isolates D run jids (Suc n) n' (AList.update jid ph phases, isolated1) after" "set isolated \<subseteq> set isolated1"
    "\<And>i. i \<in> set isolated1 \<Longrightarrow> i \<in> set isolated \<or> i = jid \<and> settles D run n [jid] jid True"
    "ph = PhaseFinished \<Longrightarrow> settles D run n [jid] jid False \<or> jid \<in> set isolated1"
  shows "isolates D run (jid # jids) n n' (phases, isolated) after"
proof -
  have n: "Suc n \<le> n'" using assms(1) by (simp add: isolates_def)
  then have here: "settles D run n [jid] jid r \<Longrightarrow> settled_between D run n n' jid r" for r by (auto intro: settledI)
  have later: "settled_between D run (Suc n) n' i r \<Longrightarrow> settled_between D run n n' i r" for i r
    by (erule settled_between_mono) auto
  have keys: "fst ` set (AList.update jid ph phases) = insert jid (fst ` set phases)"
    by (simp add: dom_map_of_conv_image_fst [symmetric] store_simps)
  have sub: "set isolated1 \<subseteq> set isolated \<union> {jid}" using assms(3) by auto
  have a: "i \<in> set (snd after) \<Longrightarrow> i \<in> set isolated \<or> settled_between D run n n' i True" for i
    using assms(1,3) here later unfolding isolates_def by (metis snd_conv)
  have b: "i \<notin> set (jid # jids) \<and> map_of phases i = Some PhaseFinished \<or> settled_between D run n n' i False \<or> i \<in> set (snd after)"
    if "map_of (fst after) i = Some PhaseFinished" for i
  proof -
    from assms(1) that consider "i \<notin> set jids" "map_of (AList.update jid ph phases) i = Some PhaseFinished"
      | "settled_between D run (Suc n) n' i False" | "i \<in> set (snd after)" unfolding isolates_def fst_conv snd_conv by blast
    then show ?thesis
    proof cases
      case 1
      then show ?thesis using assms(1,4) here by (cases "i = jid") (auto simp: store_simps isolates_def)
    qed (use later in blast)+
  qed
  show ?thesis using assms(1,2) n keys sub a b unfolding isolates_def by (auto simp: subset_iff)
qed

lemma isolate_sound: "isolate D run jids phases isolated n = (Inr after, n') \<Longrightarrow> isolates D run jids n n' (phases, isolated) after"
proof (induction jids arbitrary: phases isolated n)
  case (Cons jid jids)
  from Cons.prems obtain single live where s: "run n (sd_poll_command D [jid]) = Inr single"
    "sd_parse_poll D (rn_stdout single) = Inr live" by (auto simp: Let_def split: sum.splits)
  let ?ph = "phase_for_polled_job (sd_name D) jid live"
  show ?case
  proof (cases "rn_returncode single = 0")
    case True
    then have "isolates D run jids (Suc n) n' (AList.update jid ?ph phases, isolated) after"
      using s Cons by (simp add: Let_def)
    then show ?thesis by (rule isolates_step) (use s True in \<open>auto simp: settles_def\<close>)
  next
    case False
    with s Cons.prems have ref: "slurm_invalid_job_poll (rn_stderr single)" "?ph = PhaseFinished" by (auto simp: Let_def split: if_splits)
    then have "isolates D run jids (Suc n) n' (AList.update jid ?ph phases, jid # isolated) after"
      using s False Cons by (simp add: Let_def)
    then show ?thesis by (rule isolates_step) (use s False ref in \<open>auto simp: settles_def\<close>)
  qed
qed (auto simp: isolates_def)

lemma isolate_distinct:
  "isolate D run jids phases isolated n = (Inr after, n') \<Longrightarrow> distinct (map fst phases) \<Longrightarrow> distinct (map fst (fst after))"
  by (induction jids arbitrary: phases isolated n) (auto simp: Let_def distinct_update split: sum.splits if_splits)

lemma dict_update_distinct: "distinct (map fst m) \<Longrightarrow> distinct (map fst (dict_update m kvs))"
  by (induction kvs arbitrary: m) (auto simp: dict_update_def distinct_update)

lemma map_of_rev: "distinct (map fst kvs) \<Longrightarrow> map_of (rev kvs) = map_of kvs"
  by (rule map_of_eqI) (auto simp: rev_map [symmetric] intro!: map_of_eq_Some_iff)

lemma table_of_facts:
  "distinct (map fst (table_of D ids live))" "fst ` set (table_of D ids live) = set ids"
  "map_of (table_of D ids live) i = Some ph \<Longrightarrow> i \<in> set ids \<and> ph = phase_for_polled_job (sd_name D) i live"
  by (auto simp: table_of_def dict_update_distinct dict_update_keys image_image map_of_dict_update dest!: map_of_SomeD)

lemma absent_candidates_set: "set (absent_candidates phases) = {i. (i, PhaseFinished) \<in> set phases}"
  by (force simp: absent_candidates_def)

lemma poll_chunk_sound:
  assumes slurm: "sd_name D = ''slurm''" and poll: "poll_chunk D run ids n = (Inr ev, n')"
  shows "n < n' \<and> sound_evidence D run n n' (set ids) ev"
proof -
  from poll obtain r live reasons where r: "run n (sd_poll_command D ids) = Inr r" "sd_parse_poll D (rn_stdout r) = Inr live"
    "poll_reasons D (rn_stdout r) = Inr reasons" by (auto simp: poll_chunk_def split: sum.splits)
  let ?T = "table_of D ids live"
  note F = table_of_facts [of D ids live]
  have cand: "set (absent_candidates ?T) \<subseteq> set ids" using F(2) by (force simp: absent_candidates_set)
  show ?thesis
  proof (cases "rn_returncode r = 0")
    case True
    then have ev: "ev = \<lparr>ev_phases = ?T, ev_explicitly_absent = [], ev_queued_reasons = reasons\<rparr>" "n' = Suc n"
      using poll r by (auto simp: poll_chunk_def Let_def)
    have "settled_between D run n n' i False" if "map_of ?T i = Some PhaseFinished" for i
      using F(3) [OF that] r True ev(2) by (intro settledI [of _ _ n ids]) (auto simp: settles_def)
    then show ?thesis using F ev by (auto simp: sound_evidence_def)
  next
    case False
    with poll r slurm have ref: "slurm_invalid_job_poll (rn_stderr r)"
      by (auto simp: poll_chunk_def Let_def accounting_required_for_absent_def split: if_splits)
    show ?thesis
    proof (cases "length ids = 1")
      case True
      then obtain j where j: "ids = [j]" by (auto simp: length_Suc_conv)
      then have t: "?T = [(j, phase_for_polled_job (sd_name D) j live)]" by (simp add: table_of_def dict_update_def)
      then have ev: "ev_phases ev = ?T" "ev_explicitly_absent ev = absent_candidates ?T" "n' = Suc n"
        using poll r False ref slurm True by (auto simp: poll_chunk_def Let_def accounting_required_for_absent_def split: if_splits)
      have "settled_between D run n n' j True" if "phase_for_polled_job (sd_name D) j live = PhaseFinished"
        using that r False ref j ev(3) by (intro settledI [of _ _ n ids]) (auto simp: settles_def)
      then show ?thesis using t ev j by (auto simp: sound_evidence_def absent_candidates_def)
    next
      case long: False
      then obtain phases isolated where it: "isolate D run (absent_candidates ?T) ?T [] (Suc n) = (Inr (phases, isolated), n')"
        and ev: "ev_phases ev = phases" "ev_explicitly_absent ev = isolated"
        using poll r False ref slurm by (auto simp: poll_chunk_def Let_def accounting_required_for_absent_def split: if_splits sum.splits prod.splits)
      note iso = isolate_sound [OF it, unfolded isolates_def fst_conv snd_conv]
      have later: "settled_between D run (Suc n) n' i x \<Longrightarrow> settled_between D run n n' i x" for i x by (erule settled_between_mono) auto
      have "i \<in> set (absent_candidates ?T)" if "map_of ?T i = Some PhaseFinished" for i
        using map_of_SomeD [OF that] by (simp add: absent_candidates_set)
      then have fin: "settled_between D run n n' i False \<or> i \<in> set isolated" if "map_of phases i = Some PhaseFinished" for i
        using isolates_finished [OF isolate_sound [OF it], of i] that later by auto
      have abs: "settled_between D run n n' i True" if "i \<in> set isolated" for i using iso that later by (metis empty_iff empty_set)
      have "set isolated \<subseteq> set ids" "fst ` set phases = set ids" using iso cand F(2) by auto
      then show ?thesis using ev iso fin abs isolate_distinct [OF it] F(1) by (simp add: sound_evidence_def Suc_le_eq)
    qed
  qed
qed

lemma sound_evidence_merge:
  assumes "sound_evidence D run a n S ev" "sound_evidence D run n n' T e" "a \<le> n" "n < n'"
  shows "sound_evidence D run a n' (S \<union> T) \<lparr>ev_phases = dict_update (ev_phases ev) (ev_phases e),
      ev_explicitly_absent = ev_explicitly_absent ev @ ev_explicitly_absent e, ev_queued_reasons = q\<rparr>"
proof -
  have up: "settled_between D run a n i r \<Longrightarrow> settled_between D run a n' i r" "settled_between D run n n' i r \<Longrightarrow> settled_between D run a n' i r" for i r
    using assms(3,4) by (auto elim: settled_between_mono)
  have "map_of (rev (ev_phases e)) = map_of (ev_phases e)" using assms(2) by (simp add: sound_evidence_def map_of_rev)
  then have "map_of (ev_phases ev) i = Some PhaseFinished \<or> map_of (ev_phases e) i = Some PhaseFinished"
    if "map_of (dict_update (ev_phases ev) (ev_phases e)) i = Some PhaseFinished" for i
    using that by (auto simp: map_of_dict_update map_add_Some_iff)
  then have fin: "settled_between D run a n' i False \<or> i \<in> set (ev_explicitly_absent ev @ ev_explicitly_absent e)"
    if "map_of (dict_update (ev_phases ev) (ev_phases e)) i = Some PhaseFinished" for i
    using that assms(1,2) up unfolding sound_evidence_def set_append by (metis Un_iff)
  have abs: "settled_between D run a n' i True" if "i \<in> set (ev_explicitly_absent ev @ ev_explicitly_absent e)" for i
    using that assms(1,2) up unfolding sound_evidence_def set_append by (metis Un_iff)
  show ?thesis using assms(1,2) fin abs by (auto simp: sound_evidence_def dict_update_distinct dict_update_keys)
qed

lemma poll_chunks_sound:
  "sd_name D = ''slurm'' \<Longrightarrow> poll_chunks D run chunks ev n = (Inr ev', n') \<Longrightarrow> a \<le> n \<Longrightarrow> sound_evidence D run a n S ev \<Longrightarrow>
     n \<le> n' \<and> sound_evidence D run a n' (S \<union> \<Union> (set ` set chunks)) ev'"
proof (induction chunks arbitrary: ev n S)
  case (Cons ids chunks)
  from Cons.prems(2) obtain e m where e: "poll_chunk D run ids n = (Inr e, m)" by (auto split: prod.splits sum.splits)
  note s = poll_chunk_sound [OF Cons.prems(1) e]
  then have "sound_evidence D run a m (S \<union> set ids) \<lparr>ev_phases = dict_update (ev_phases ev) (ev_phases e),
      ev_explicitly_absent = ev_explicitly_absent ev @ ev_explicitly_absent e,
      ev_queued_reasons = dict_update (ev_queued_reasons ev) (ev_queued_reasons e)\<rparr>"
    using sound_evidence_merge [OF Cons.prems(4) _ Cons.prems(3)] by blast
  then show ?case using Cons.IH [OF Cons.prems(1), of _ m] Cons.prems(2,3) e s by (fastforce simp: Un_assoc)
qed simp

lemma poll_sound:
  assumes slurm: "sd_name D = ''slurm''" and poll: "poll_with_evidence D run ids n = (Inr ev, n')"
  shows "n \<le> n' \<and> sound_evidence D run n n' (set ids) ev"
proof (cases "chunk_poll_ids ids (sd_poll_command D)")
  case Nil
  then have "ids = []" using chunk_poll_ids_set [of ids "sd_poll_command D"] by simp
  then show ?thesis using poll Nil by (auto simp: poll_with_evidence_def sound_evidence_def no_evidence_def)
next
  case (Cons c cs)
  show ?thesis
  proof (cases cs)
    case Nil
    then have "set ids = set c" using chunk_poll_ids_set [of ids "sd_poll_command D"] Cons by simp
    then show ?thesis using poll_chunk_sound [OF slurm, of run c n ev n'] poll Cons Nil by (auto simp: poll_with_evidence_def)
  next
    case more: (Cons c' cs')
    have "sound_evidence D run n n {} no_evidence" by (simp add: sound_evidence_def no_evidence_def)
    then show ?thesis using poll_chunks_sound [OF slurm, of run "chunk_poll_ids ids (sd_poll_command D)" no_evidence n ev n' n "{}"]
        poll Cons more chunk_poll_ids_set [of ids "sd_poll_command D"] by (auto simp: poll_with_evidence_def)
  qed
qed

text \<open>
  C25: a poll of a Slurm target never takes a failure for the end of a job. When it returns, it has a phase for exactly the
  ids that were asked for. A job is reported finished only on an answer of this poll that settles it: a command with
  exit status 0 whose table does not show it live, or a command that asked for this id alone and that Slurm refused
  as an invalid id, and only in the second case is the job reported as explicitly absent.
\<close>

theorem slurm_poll_fails_closed:
  assumes "poll_with_evidence slurm_dialect run ids n = (Inr ev, n')"
  shows "fst ` set (ev_phases ev) = set ids
    \<and> (\<forall>i. i \<in> set (ev_explicitly_absent ev) \<longrightarrow> (\<exists>m. n \<le> m \<and> m < n' \<and> settles slurm_dialect run m [i] i True))
    \<and> (\<forall>i. map_of (ev_phases ev) i = Some PhaseFinished \<longrightarrow> i \<in> set (ev_explicitly_absent ev)
         \<or> (\<exists>m c. n \<le> m \<and> m < n' \<and> settles slurm_dialect run m c i False))"
proof -
  have "sd_name slurm_dialect = ''slurm''" by (simp add: slurm_dialect_def)
  note s = poll_sound [OF this assms]
  have "\<exists>m. n \<le> m \<and> m < n' \<and> settles slurm_dialect run m [i] i True" if absent: "i \<in> set (ev_explicitly_absent ev)" for i
  proof -
    obtain m c where "n \<le> m" "m < n'" "settles slurm_dialect run m c i True"
      using s absent by (auto simp: sound_evidence_def settled_between_def)
    then show ?thesis by (auto simp: settles_def)
  qed
  then show ?thesis using s by (auto simp: sound_evidence_def settled_between_def)
qed

text \<open>A host where job 7 is unknown and job 8 runs: the batch is refused without naming the id, the single poll names it.\<close>

definition sample_runner :: runner where
  "sample_runner n argv = Inr (if argv = sd_poll_command slurm_dialect [''7'', ''8'']
     then \<lparr>rn_returncode = 1, rn_stdout = ''8|RUNNING|1:00|2:00|node1|None'', rn_stderr = ''slurm_load_jobs error: Invalid job id specified''\<rparr>
     else if argv = sd_poll_command slurm_dialect [''7'']
     then \<lparr>rn_returncode = 1, rn_stdout = [], rn_stderr = ''slurm_load_jobs error: Invalid job id specified''\<rparr>
     else \<lparr>rn_returncode = 0, rn_stdout = [], rn_stderr = []\<rparr>)"

lemma sample_poll: "poll_with_evidence slurm_dialect sample_runner [''7'', ''8''] 0
    = (Inr \<lparr>ev_phases = [(''7'', PhaseFinished), (''8'', PhaseRunning)], ev_explicitly_absent = [''7''], ev_queued_reasons = []\<rparr>, 2)"
  by code_simp

theorem slurm_poll_fails_closed_witness:
  "\<exists>m < 2. settles slurm_dialect sample_runner m [''7''] ''7'' True"
  using slurm_poll_fails_closed [OF sample_poll] by (auto simp: less_Suc_eq_le)

text \<open>
  Torque has no such rule: an answer without a table, whatever its exit status, reports every job as finished.
\<close>

lemma torque_outage_reads_finished:
  "poll_with_evidence torque_dialect (\<lambda>n argv. Inr \<lparr>rn_returncode = 153, rn_stdout = [],
      rn_stderr = ''qstat: cannot connect to server pbs (errno=111)''\<rparr>) [''6528.pbs'', ''6529.pbs''] 0
   = (Inr \<lparr>ev_phases = [(''6528.pbs'', PhaseFinished), (''6529.pbs'', PhaseFinished)], ev_explicitly_absent = [], ev_queued_reasons = []\<rparr>, 1)"
  by code_simp

end
