(* ===== verification/Scheduler_Reconcile.thy ===== *)
theory Scheduler_Reconcile
  imports Scheduler_Submit Scheduler_Poll Daemon_Reap
begin

text \<open>
  What the daemon makes of an observation of its scheduler jobs: \<open>_reconcile_scheduler_pass\<close> of \<open>daemon.py\<close> with the
  stamps, the collection of results and the terminal classification it calls, for the single-user daemon that polls in
  the loop itself. The locked sections are steps; other processes write in the numbered gaps between them, as in
  \<open>Scheduler_Submit\<close>. A write of a spec file succeeds.

  The cluster's answers about one job enter by its id: the reading of the exit marker, the outcome of \<open>qdel\<close>, the
  transfer of the workspace and what the fetched workspace holds. Texts that only describe a failure, the removal of
  scratch directories, notifications and GPU summaries are not modelled, nor are the transfer threads: a transfer that
  still runs answers \<open>FetchWaiting\<close>.
\<close>

section \<open>Answers of one pass\<close>

datatype fetch_answer = FetchWaiting | FetchFailed | FetchDone

record reconcile_env =
  rv_cluster :: cluster_env
  rv_clock :: rat
  rv_attempted_at :: string
  rv_evidence_ok :: bool \<comment> \<open>receipt and start marker could be asked for\<close>
  rv_cancel_ok :: "string \<Rightarrow> bool"
  rv_marker :: "string \<Rightarrow> poll_error + run_result"
  rv_fetch_busy :: "string \<Rightarrow> bool"
  rv_fetch :: "string \<Rightarrow> fetch_answer"
  rv_local_marker :: "string \<Rightarrow> int option"
  rv_qstat_detail :: "string \<Rightarrow> string option"
  rv_diagnostic :: "string \<Rightarrow> string"
  rv_json_loads :: "string \<Rightarrow> pyval"

abbreviation rv_start :: "reconcile_env \<Rightarrow> start_env" where "rv_start env \<equiv> ce_start (rv_cluster env)"
abbreviation rv_queue :: "reconcile_env \<Rightarrow> queue_env" where "rv_queue env \<equiv> se_queue (rv_start env)"

definition SCHEDULER_STATUS_REFRESH_SECONDS :: rat where "SCHEDULER_STATUS_REFRESH_SECONDS = 60"
definition SCHEDULER_FINISHED_MARKER_GRACE_SECONDS :: rat where "SCHEDULER_FINISHED_MARKER_GRACE_SECONDS = 120"
definition SCHEDULER_FETCH_FAILURE_LIMIT :: int where "SCHEDULER_FETCH_FAILURE_LIMIT = 3"

definition SCHEDULER_COLLECTION_PHASES :: "string set" where
  "SCHEDULER_COLLECTION_PHASES = {''finishing'', ''marker_probe_failed'', ''fetch_failed'', ''artifacts_unavailable''}"

section \<open>Stamps on a live row\<close>

text \<open>A locked section that changes the row unless it is gone or terminal, and the rows before and after the change.\<close>

definition on_live_row :: "reconcile_env \<Rightarrow> nat \<Rightarrow> string \<Rightarrow> (job_spec \<Rightarrow> daemon \<Rightarrow> daemon) \<Rightarrow> daemon \<Rightarrow> bool \<times> daemon" where
  "on_live_row env gap i f d0 = (let d = others_write (rv_start env) gap d0 in
     case spec_of d i of
       None \<Rightarrow> (False, d)
     | Some fresh \<Rightarrow> if is_terminal fresh then (False, d) else (True, f fresh d))"

definition stamp_now :: "reconcile_env \<Rightarrow> string \<Rightarrow> job_spec \<Rightarrow> job_spec" where
  "stamp_now env st s = stamp_heartbeat (rv_cluster env) (s\<lparr>js_scheduler_state := Some st\<rparr>)"

text \<open>A stamp that is skipped while the state is unchanged and was written a moment ago.\<close>

definition recently :: "reconcile_env \<Rightarrow> string \<Rightarrow> job_spec \<Rightarrow> scheduler_job \<Rightarrow> bool" where
  "recently env st spec sj \<longleftrightarrow> js_scheduler_state spec = Some st
     \<and> rv_clock env - sj_last_status_write sj < SCHEDULER_STATUS_REFRESH_SECONDS"

definition written :: "reconcile_env \<Rightarrow> scheduler_job \<Rightarrow> bool \<times> daemon \<Rightarrow> scheduler_job \<times> daemon" where
  "written env sj x = (if fst x then sj\<lparr>sj_last_status_write := rv_clock env\<rparr> else sj, snd x)"

definition stamp_scheduler_finishing :: "reconcile_env \<Rightarrow> string \<Rightarrow> job_spec \<Rightarrow> scheduler_job \<Rightarrow> daemon \<Rightarrow> scheduler_job \<times> daemon" where
  "stamp_scheduler_finishing env i spec sj d = (if recently env ''finishing'' spec sj then (sj, d)
     else written env sj (on_live_row env 40 i (\<lambda>fresh. write_row (stamp_now env ''finishing'' fresh) i) d))"

text \<open>\<open>fetch_failed\<close> and \<open>marker_probe_failed\<close> leave an event when the state changes.\<close>

definition stamp_retrying :: "reconcile_env \<Rightarrow> nat \<Rightarrow> string \<Rightarrow> string \<Rightarrow> job_spec \<Rightarrow> scheduler_job \<Rightarrow> daemon \<Rightarrow> scheduler_job \<times> daemon" where
  "stamp_retrying env gap st i spec sj d = (if recently env st spec sj then (sj, d)
     else written env sj (on_live_row env gap i (\<lambda>fresh d. let d = write_row (stamp_now env st fresh) i d in
       if js_scheduler_state fresh \<noteq> Some st then log_row i (js_state fresh) (js_state fresh) d else d) d))"

definition stamp_scheduler_fetch_failed :: "reconcile_env \<Rightarrow> string \<Rightarrow> job_spec \<Rightarrow> scheduler_job \<Rightarrow> daemon \<Rightarrow> scheduler_job \<times> daemon" where
  "stamp_scheduler_fetch_failed env = stamp_retrying env 41 ''fetch_failed''"

definition stamp_scheduler_marker_probe_failed :: "reconcile_env \<Rightarrow> string \<Rightarrow> job_spec \<Rightarrow> scheduler_job \<Rightarrow> daemon \<Rightarrow> scheduler_job \<times> daemon" where
  "stamp_scheduler_marker_probe_failed env = stamp_retrying env 42 ''marker_probe_failed''"

definition stamp_scheduler_artifacts_unavailable :: "reconcile_env \<Rightarrow> string \<Rightarrow> daemon \<Rightarrow> daemon" where
  "stamp_scheduler_artifacts_unavailable env i d = snd (on_live_row env 43 i (\<lambda>fresh. write_row (stamp_now env ''artifacts_unavailable'' fresh) i) d)"

definition stamp_scheduler_poll_succeeded :: "reconcile_env \<Rightarrow> string \<Rightarrow> daemon \<Rightarrow> daemon" where
  "stamp_scheduler_poll_succeeded env i d = snd (on_live_row env 44 i (\<lambda>fresh d.
     if js_scheduler_target fresh = None then d
     else write_row (fresh\<lparr>js_scheduler_poll_last_attempted_at := Some (rv_attempted_at env),
            js_scheduler_poll_last_success_at := Some (se_now_iso (rv_start env))\<rparr>) i d) d)"

text \<open>A failed poll cannot revoke an earlier verdict that the allocation is over.\<close>

definition poll_failed_row :: "reconcile_env \<Rightarrow> string \<Rightarrow> job_spec \<Rightarrow> job_spec" where
  "poll_failed_row env reason fresh = fresh\<lparr>
     js_scheduler_state := (if scheduler_state_in fresh SCHEDULER_COLLECTION_PHASES then js_scheduler_state fresh else Some ''poll_failed''),
     js_scheduler_poll_last_attempted_at := Some (rv_attempted_at env),
     js_scheduler_poll_last_error_at := Some (se_now_iso (rv_start env)),
     js_scheduler_poll_last_error := Some (rv_diagnostic env reason)\<rparr>"

definition poll_failure_is_news :: "job_spec \<Rightarrow> bool" where
  "poll_failure_is_news fresh = (if scheduler_state_in fresh SCHEDULER_COLLECTION_PHASES
     then (case js_scheduler_poll_last_error_at fresh of None \<Rightarrow> True | Some e \<Rightarrow> e < the_or [] (js_scheduler_poll_last_success_at fresh))
     else js_scheduler_state fresh \<noteq> Some ''poll_failed'')"

definition stamp_scheduler_poll_failed :: "reconcile_env \<Rightarrow> string \<Rightarrow> string \<Rightarrow> scheduler_job \<Rightarrow> daemon \<Rightarrow> scheduler_job \<times> daemon" where
  "stamp_scheduler_poll_failed env i reason sj d0 = (let d = others_write (rv_start env) 45 d0 in
     case spec_of d i of
       None \<Rightarrow> (sj, d)
     | Some fresh \<Rightarrow>
         if is_terminal fresh \<or> js_scheduler_target fresh = None then (sj, d)
         else (sj\<lparr>sj_last_status_write := rv_clock env\<rparr>,
           let d = write_row (poll_failed_row env reason fresh) i d in
           if poll_failure_is_news fresh then log_row i (js_state fresh) (js_state fresh) d else d))"

text \<open>Only a reading that says something replaces the last one.\<close>

definition reading :: "string option \<Rightarrow> string option \<Rightarrow> string option" where
  "reading new old = (if new \<in> {None, Some []} then old else new)"

definition cluster_state_of :: "phase \<Rightarrow> qstat_detail option \<Rightarrow> string" where
  "cluster_state_of ph detail = (if map_option qd_raw_state detail = Some ''H'' then ''held'' else if ph = PhaseRunning then ''running'' else ''queued'')"

definition status_row :: "reconcile_env \<Rightarrow> phase \<Rightarrow> qstat_detail option \<Rightarrow> string option \<Rightarrow> job_spec \<Rightarrow> job_spec" where
  "status_row env ph detail queued_reason fresh = (
     let st = cluster_state_of ph detail; s = stamp_now env st fresh;
         s = s\<lparr>js_scheduler_started_at := (if st = ''running'' \<and> js_scheduler_started_at s = None then js_last_heartbeat_at s else js_scheduler_started_at s),
           js_scheduler_queued_reason := (if ph = PhasePending
             then (if queued_reason \<in> {None, Some []} then Option.bind detail qd_queued_reason else queued_reason) else None)\<rparr> in
     case detail of None \<Rightarrow> s
     | Some q \<Rightarrow> s\<lparr>js_scheduler_exec_host := reading (qd_exec_host q) (js_scheduler_exec_host s),
         js_scheduler_walltime_used := reading (qd_walltime_used q) (js_scheduler_walltime_used s),
         js_scheduler_walltime_limit := reading (qd_walltime_limit q) (js_scheduler_walltime_limit s),
         js_scheduler_mem_used := reading (qd_mem_used q) (js_scheduler_mem_used s),
         js_scheduler_cpu_used := (if qd_cpu_usage_observed q then qd_cpu_used q else reading (qd_cpu_used q) (js_scheduler_cpu_used s)),
         js_scheduler_task_peak_rss := reading (qd_task_peak_rss q) (js_scheduler_task_peak_rss s),
         js_scheduler_gpu_live := (case qd_gpu_live q of Some (c # cs) \<Rightarrow> Some (rv_json_loads env (c # cs)) | _ \<Rightarrow> js_scheduler_gpu_live s)\<rparr>)"

definition stamp_scheduler_status :: "reconcile_env \<Rightarrow> string \<Rightarrow> job_spec \<Rightarrow> phase \<Rightarrow> qstat_detail option \<Rightarrow> string option
    \<Rightarrow> scheduler_job \<Rightarrow> daemon \<Rightarrow> scheduler_job \<times> daemon" where
  "stamp_scheduler_status env i spec ph detail queued_reason sj d = (
     if recently env (cluster_state_of ph detail) spec sj then (sj, d)
     else written env sj (on_live_row env 46 i (\<lambda>fresh. write_row (status_row env ph detail queued_reason fresh) i) d))"

section \<open>Wall time\<close>

definition hms_to_seconds :: "string option \<Rightarrow> int option" where
  "hms_to_seconds v = (case v of None \<Rightarrow> None | Some value \<Rightarrow>
     (case map py_int (split_on (CHR '':'') value) of
        [Some h, Some m, Some s] \<Rightarrow> if h < 0 \<or> \<not> (0 \<le> m \<and> m < 60) \<or> \<not> (0 \<le> s \<and> s < 60) then None
          else Some (h * 3600 + m * 60 + s)
      | _ \<Rightarrow> None))"

text \<open>\<open>key\s*=\s*([0-9]+:[0-9]{2}:[0-9]{2})\<close>, searched anywhere in a text.\<close>

definition hms_prefix :: "string \<Rightarrow> string option" where
  "hms_prefix s = (let h = takeWhile is_digit s; r = drop (length h) s; t = take 6 r in
     if h \<noteq> [] \<and> length t = 6 \<and> t ! 0 = CHR '':'' \<and> t ! 3 = CHR '':'' \<and> list_all is_digit [t ! 1, t ! 2, t ! 4, t ! 5]
     then Some (h @ t) else None)"

definition hms_after :: "string \<Rightarrow> string \<Rightarrow> string option" where
  "hms_after key s = (case strip_prefix key s of None \<Rightarrow> None
    | Some r \<Rightarrow> (case skip_space r of CHR ''='' # v \<Rightarrow> hms_prefix (skip_space v) | _ \<Rightarrow> None))"

fun search_hms :: "string \<Rightarrow> string \<Rightarrow> string option" where
  "search_hms key [] = None"
| "search_hms key (c # s) = (case hms_after key (c # s) of Some t \<Rightarrow> Some t | None \<Rightarrow> search_hms key s)"

definition or_else :: "'a option \<Rightarrow> 'a option \<Rightarrow> 'a option" where
  "or_else a b = (case a of None \<Rightarrow> b | Some x \<Rightarrow> Some x)"

definition scheduler_walltime_pair :: "job_spec \<Rightarrow> qstat_detail option \<Rightarrow> string option \<Rightarrow> string option \<times> string option" where
  "scheduler_walltime_pair spec detail qstat = (
     let used = or_else (Option.bind detail qd_walltime_used) (js_scheduler_walltime_used spec);
         limit = or_else (Option.bind detail qd_walltime_limit) (js_scheduler_walltime_limit spec) in
     (or_else used (Option.bind qstat (search_hms ''resources_used.walltime'')),
      or_else limit (Option.bind qstat (search_hms ''Resource_List.walltime''))))"

definition scheduler_walltime_exceeded :: "job_spec \<Rightarrow> qstat_detail option \<Rightarrow> string option \<Rightarrow> bool \<times> string option \<times> string option" where
  "scheduler_walltime_exceeded spec detail qstat = (case scheduler_walltime_pair spec detail qstat of
      (used, limit) \<Rightarrow> ((case (hms_to_seconds used, hms_to_seconds limit) of
          (Some u, Some l) \<Rightarrow> 0 < l \<and> l \<le> u | _ \<Rightarrow> False), used, limit))"

definition scheduler_walltime_reason :: "string option \<Rightarrow> string option \<Rightarrow> bool \<Rightarrow> string" where
  "scheduler_walltime_reason used limit missing_marker = ''scheduler walltime limit reached''
     @ (case (used, limit) of (Some u, Some l) \<Rightarrow> '' ('' @ u @ '' >= '' @ l @ '')'' | _ \<Rightarrow> [])
     @ (if missing_marker then ''; exit-marker missing after final workspace fetch'' else ''; preserving recovered exit-marker'')"

section \<open>Terminal classification\<close>

definition with_tail :: "reconcile_env \<Rightarrow> job_spec \<Rightarrow> job_spec" where
  "with_tail env s = (let tail = qe_stderr_tail (rv_queue env) s in
     if js_failure_tail s = None \<and> tail \<noteq> [] then s\<lparr>js_failure_tail := Some tail\<rparr> else s)"

definition end_row :: "reconcile_env \<Rightarrow> job_state \<Rightarrow> string \<Rightarrow> job_spec \<Rightarrow> job_spec" where
  "end_row env st reason fresh = fresh\<lparr>js_state := st, js_finished_at := Some (utcnow_iso (rv_queue env)), js_failure_reason := Some reason\<rparr>"

definition mark_scheduler_time_exceeded :: "reconcile_env \<Rightarrow> string \<Rightarrow> string \<Rightarrow> string option \<Rightarrow> string option \<Rightarrow> daemon \<Rightarrow> daemon" where
  "mark_scheduler_time_exceeded env i reason used limit d = snd (on_live_row env 50 i (\<lambda>fresh d.
     log_row i (js_state fresh) TIME_EXCEEDED (write_row (with_tail env ((end_row env TIME_EXCEEDED reason fresh)\<lparr>
       js_scheduler_walltime_used := or_else used (js_scheduler_walltime_used fresh),
       js_scheduler_walltime_limit := or_else limit (js_scheduler_walltime_limit fresh)\<rparr>)) i d)) d)"

definition abnormal_end_state :: "string \<Rightarrow> job_state" where
  "abnormal_end_state st = (if st = ''OUT_OF_MEMORY'' then OOM_KILLED
     else if st \<in> {''TIMEOUT'', ''DEADLINE''} then TIME_EXCEEDED else ABORTED_BY_QUEUE)"

definition abnormal_end_reason :: "string \<Rightarrow> string \<Rightarrow> int option \<Rightarrow> string" where
  "abnormal_end_reason st raw marker_rc = ''scheduler accounting reports '' @ st
     @ (if raw \<noteq> st then '' (accounting state '' @ py_quote raw @ '')'' else []) @ ''; ''
     @ (case marker_rc of None \<Rightarrow> ''exit-marker missing''
        | Some rc \<Rightarrow> ''exit-marker rc='' @ show_int rc @ '' recorded, but a marker cannot certify a run the scheduler terminated'')"

definition mark_scheduler_abnormal_end :: "reconcile_env \<Rightarrow> string \<Rightarrow> string \<Rightarrow> qstat_detail \<Rightarrow> int option \<Rightarrow> daemon \<Rightarrow> daemon" where
  "mark_scheduler_abnormal_end env i st q marker_rc d = snd (on_live_row env 51 i (\<lambda>fresh d.
     log_row i (js_state fresh) (abnormal_end_state st) (write_row (with_tail env
       ((end_row env (abnormal_end_state st) (abnormal_end_reason st (qd_raw_state q) marker_rc) fresh)\<lparr>
         js_scheduler_state := Some (py_lower st),
         js_scheduler_walltime_used := reading (qd_walltime_used q) (js_scheduler_walltime_used fresh),
         js_scheduler_walltime_limit := reading (qd_walltime_limit q) (js_scheduler_walltime_limit fresh),
         js_scheduler_mem_used := reading (qd_mem_used q) (js_scheduler_mem_used fresh),
         js_scheduler_cpu_used := (if qd_cpu_usage_observed q then qd_cpu_used q else reading (qd_cpu_used q) (js_scheduler_cpu_used fresh))\<rparr>)) i d)) d)"

definition abort_by_queue :: "reconcile_env \<Rightarrow> string \<Rightarrow> daemon \<Rightarrow> daemon" where
  "abort_by_queue env i d = snd (on_live_row env 52 i (\<lambda>fresh d. log_row i (js_state fresh) ABORTED_BY_QUEUE
     (write_row (end_row env ABORTED_BY_QUEUE
        ''scheduler job finished without an exit-marker after 120s marker-visibility grace and final workspace fetch'' fresh) i d)) d)"

text \<open>\<open>None\<close>: an exception leaves the section.\<close>

definition DEFAULT_KILL_REASON :: string where "DEFAULT_KILL_REASON = ''killed by vq/operator request''"

definition late_kill :: "job_spec \<Rightarrow> bool" where
  "late_kill s \<longleftrightarrow> js_state s = KILLED \<and> starts_with DEFAULT_KILL_REASON (the_or [] (js_failure_reason s))"

definition own_end_row :: "int \<Rightarrow> job_spec \<Rightarrow> job_spec" where
  "own_end_row rc s = s\<lparr>js_state := (if rc = 0 then COMPLETED else FAILED), js_exit_code := Some rc,
     js_failure_reason := (if rc = 0 then None else Some (''exit code '' @ show_int rc @
        ''; the scheduler had finished the job before the kill request took effect''))\<rparr>"

definition honor_scheduler_end_over_late_kill :: "reconcile_env \<Rightarrow> scheduler_dialect \<Rightarrow> string \<Rightarrow> qstat_detail \<Rightarrow> int \<Rightarrow> daemon \<Rightarrow> bool \<times> daemon" where
  "honor_scheduler_end_over_late_kill env D i q rc d0 = (if \<not> ended_on_its_own_from_detail D q then (True, d0)
     else let d = others_write (rv_start env) 53 d0 in
       case spec_of d i of
         None \<Rightarrow> (False, d)
       | Some s \<Rightarrow> if late_kill s then (True, log_row i KILLED (js_state (own_end_row rc s)) (write_row (own_end_row rc s) i d)) else (True, d))"

definition finish_scheduler_job :: "reconcile_env \<Rightarrow> string \<Rightarrow> int \<Rightarrow> daemon \<Rightarrow> bool \<times> daemon" where
  "finish_scheduler_job env i rc d0 = (let d = others_write (rv_start env) 54 d0 in
     if spec_of d i = None then (False, d)
     else (True, d\<lparr>dm_queue := snd (record_finish (rv_queue env) i rc (dm_queue d))\<rparr>))"

section \<open>Fetching a workspace\<close>

datatype fetch_outcome = Fetched | Unavailable | Retry

definition fetch_scheduler_results :: "reconcile_env \<Rightarrow> string \<Rightarrow> job_spec \<Rightarrow> scheduler_job \<Rightarrow> daemon \<Rightarrow> fetch_outcome \<times> scheduler_job \<times> daemon" where
  "fetch_scheduler_results env i spec sj d = (case rv_fetch env i of
      FetchWaiting \<Rightarrow> (Retry, sj, d)
    | FetchDone \<Rightarrow> (Fetched, sj\<lparr>sj_fetch_misses := 0\<rparr>, d)
    | FetchFailed \<Rightarrow> let sj = sj\<lparr>sj_fetch_misses := sj_fetch_misses sj + 1\<rparr> in
        if sj_fetch_misses sj < SCHEDULER_FETCH_FAILURE_LIMIT then (Retry, stamp_scheduler_fetch_failed env i spec sj d)
        else (Unavailable, sj, stamp_scheduler_artifacts_unavailable env i d))"

section \<open>What the observation says of one job\<close>

datatype verdict = NotObserved string | Seen phase

definition judge :: "scheduler_dialect \<Rightarrow> poll_observation \<Rightarrow> string \<Rightarrow> verdict" where
  "judge D ob jid = (
     let detail = map_of (ob_details ob) jid; ph = the_or PhaseFinished (map_of (ob_phases ob) jid) in
     if ph \<noteq> PhaseFinished then Seen ph
     else if accounting_required_for_absent D
     then (if detail = None \<and> jid \<in> set (ob_explicitly_absent ob) then Seen PhaseFinished
       else if ob_accounting_error ob \<noteq> None then NotObserved ''accounting poll failed''
       else case detail of
         None \<Rightarrow> NotObserved (''accounting record unavailable for scheduler job '' @ jid)
       | Some q \<Rightarrow> (case phase_from_detail D q of
           Inl e \<Rightarrow> NotObserved ''scheduler detail state could not be mapped''
         | Inr None \<Rightarrow> NotObserved (''accounting state unavailable for scheduler job '' @ jid)
         | Inr (Some p) \<Rightarrow> Seen p))
     else case detail of
         None \<Rightarrow> Seen PhaseFinished
       | Some q \<Rightarrow> (case phase_from_detail D q of Inr (Some p) \<Rightarrow> Seen p | _ \<Rightarrow> Seen PhaseFinished))"

section \<open>One job\<close>

text \<open>\<open>JobLeft\<close>: the job leaves the table now; \<open>JobDone\<close>: when the pass is over; \<open>JobFault\<close>: an exception ends the pass.\<close>

datatype job_result = JobStays | JobDone | JobLeft | JobFault

definition imported_evidence_conflict :: "reconcile_env \<Rightarrow> job_spec \<Rightarrow> scheduler_job \<Rightarrow> string option" where
  "imported_evidence_conflict env spec sj = (case ce_imported (rv_cluster env) spec of
      Inl err \<Rightarrow> Some (''stored operator evidence cannot be verified: '' @ err)
    | Inr None \<Rightarrow> None
    | Inr (Some j) \<Rightarrow>
        if \<not> rv_evidence_ok env then None
        else if length (remdups (sj_job_id sj # acceptance_ids (rv_cluster env) spec (Some j))) \<le> 1 then None
        else Some ''late scheduler acceptance conflicts with imported operator evidence'')"

text \<open>
  A job killed from outside: its ownership is made durable, then the allocation is cancelled. The result is the row as
  the pass goes on with it, or \<open>None\<close> when it goes on to the next job.
\<close>

definition cancel_killed :: "reconcile_env \<Rightarrow> string \<Rightarrow> job_spec \<Rightarrow> scheduler_job \<Rightarrow> daemon \<Rightarrow> job_spec option \<times> scheduler_job \<times> daemon" where
  "cancel_killed env i spec sj d0 = (if \<not> is_terminal spec \<or> sj_term_qdeled sj then (Some spec, sj, d0)
     else let d = others_write (rv_start env) 47 d0 in
       case spec_of d i of
         None \<Rightarrow> (None, sj, d)
       | Some s \<Rightarrow>
           if \<not> is_terminal s then (None, sj, d)
           else let s' = stamp_now env ''submit_cancel_pending_after_terminal'' (s\<lparr>js_scheduler_job_id := Some (sj_job_id sj)\<rparr>);
               d = write_row s' i d in
             if rv_cancel_ok env i then (Some s', sj\<lparr>sj_term_qdeled := True\<rparr>, d) else (None, sj, d))"

text \<open>The end of a job whose marker was read.\<close>

definition reap_by_marker :: "reconcile_env \<Rightarrow> scheduler_dialect \<Rightarrow> string \<Rightarrow> job_spec \<Rightarrow> qstat_detail option \<Rightarrow> string option \<Rightarrow> int
    \<Rightarrow> scheduler_job \<Rightarrow> daemon \<Rightarrow> job_result \<times> scheduler_job \<times> daemon" where
  "reap_by_marker env D i spec detail abnormal rc sj d = (case fetch_scheduler_results env i spec sj d of
      (Retry, sj, d) \<Rightarrow> (JobStays, sj, d)
    | (outcome, sj, d) \<Rightarrow>
        let (sj, d) = (if outcome = Fetched \<and> scheduler_state_in spec {''fetch_failed'', ''marker_probe_failed'', ''poll_failed''}
              then stamp_scheduler_finishing env i spec sj d else (sj, d));
            (over, used, limit) = scheduler_walltime_exceeded spec detail None;
            d = (if over then mark_scheduler_time_exceeded env i (scheduler_walltime_reason used limit False) used limit d else d);
            (ok, d) = (case (abnormal, detail) of
                (Some st, Some q) \<Rightarrow> (True, mark_scheduler_abnormal_end env i st q (Some rc) d)
              | (None, Some q) \<Rightarrow> honor_scheduler_end_over_late_kill env D i q rc d
              | _ \<Rightarrow> (True, d)) in
        if \<not> ok then (JobFault, sj, d)
        else case finish_scheduler_job env i rc d of (ok, d) \<Rightarrow> (if ok then JobDone else JobFault, sj, d))"

text \<open>Its end from accounting, or without any exit code, once every marker source is exhausted.\<close>

definition reap_without_marker :: "reconcile_env \<Rightarrow> scheduler_dialect \<Rightarrow> string \<Rightarrow> job_spec \<Rightarrow> qstat_detail option \<Rightarrow> string option
    \<Rightarrow> daemon \<Rightarrow> bool \<times> daemon" where
  "reap_without_marker env D i spec detail abnormal d = (
     let accounting_rc = (if accounting_required_for_absent D then Option.bind detail qd_exit_code else None);
         (over, used, limit) = scheduler_walltime_exceeded spec detail (rv_qstat_detail env i) in
     if over
     then let d = mark_scheduler_time_exceeded env i (scheduler_walltime_reason used limit True) used limit d in
       (case accounting_rc of None \<Rightarrow> (True, d) | Some rc \<Rightarrow> finish_scheduler_job env i rc d)
     else case accounting_rc of
       None \<Rightarrow> (True, abort_by_queue env i d)
     | Some rc \<Rightarrow>
         let (ok, d) = (case (abnormal, detail) of
                (Some st, Some q) \<Rightarrow> (True, mark_scheduler_abnormal_end env i st q None d)
              | (None, Some q) \<Rightarrow> honor_scheduler_end_over_late_kill env D i q rc d
              | _ \<Rightarrow> (True, d)) in
         if ok then finish_scheduler_job env i rc d else (False, d))"

definition await_marker :: "reconcile_env \<Rightarrow> scheduler_dialect \<Rightarrow> string \<Rightarrow> job_spec \<Rightarrow> qstat_detail option \<Rightarrow> string option
    \<Rightarrow> scheduler_job \<Rightarrow> daemon \<Rightarrow> job_result \<times> scheduler_job \<times> daemon" where
  "await_marker env D i spec detail abnormal sj d = (
     if is_terminal spec then (JobDone, sj, d)
     else let since = the_or (rv_clock env) (sj_marker_since sj);
         (sj, d) = stamp_scheduler_finishing env i spec
            (sj\<lparr>sj_marker_since := Some since, sj_marker_misses := sj_marker_misses sj + 1\<rparr>) d in
       if rv_clock env - since < SCHEDULER_FINISHED_MARKER_GRACE_SECONDS then (JobStays, sj, d)
       else case fetch_scheduler_results env i spec sj d of
         (Retry, sj, d) \<Rightarrow> (JobStays, sj, d)
       | (_, sj, d) \<Rightarrow>
           let (ok, d) = (case rv_local_marker env i of
               Some rc \<Rightarrow> finish_scheduler_job env i rc (case (abnormal, detail) of
                   (Some st, Some q) \<Rightarrow> mark_scheduler_abnormal_end env i st q (Some rc) d | _ \<Rightarrow> d)
             | None \<Rightarrow> reap_without_marker env D i spec detail abnormal d) in
           (if ok then JobDone else JobFault, sj, d))"

text \<open>The allocation is over: its slot is free before anything else.\<close>

definition collect_finished :: "reconcile_env \<Rightarrow> scheduler_dialect \<Rightarrow> string \<Rightarrow> job_spec \<Rightarrow> qstat_detail option
    \<Rightarrow> scheduler_job \<Rightarrow> daemon \<Rightarrow> job_result \<times> scheduler_job \<times> daemon" where
  "collect_finished env D i spec detail sj0 d0 = (
     let sj = sj0\<lparr>sj_allocation_finished := True\<rparr>;
         (sj, d) = (if scheduler_state_in spec {''fetch_failed'', ''marker_probe_failed'', ''artifacts_unavailable''}
            then (sj, d0) else stamp_scheduler_finishing env i spec sj d0) in
     if rv_fetch_busy env i then (JobStays, sj, d)
     else case (case detail of None \<Rightarrow> Inr None | Some q \<Rightarrow> abnormal_termination_from_detail D q) of
       Inl e \<Rightarrow> (JobFault, sj, d)
     | Inr abnormal \<Rightarrow> (case exit_marker_code (rv_marker env i) of
         Inl e \<Rightarrow> (case stamp_scheduler_marker_probe_failed env i spec sj d of (sj, d) \<Rightarrow> (JobStays, sj, d))
       | Inr None \<Rightarrow> await_marker env D i spec detail abnormal sj d
       | Inr (Some rc) \<Rightarrow> reap_by_marker env D i spec detail abnormal rc sj d))"

definition reconcile_job :: "reconcile_env \<Rightarrow> scheduler_dialect \<Rightarrow> poll_observation \<Rightarrow> string \<Rightarrow> scheduler_job \<Rightarrow> daemon
    \<Rightarrow> job_result \<times> scheduler_job \<times> daemon" where
  "reconcile_job env D ob i sj d = (case spec_of d i of
      None \<Rightarrow> (JobStays, sj, d)
    | Some spec \<Rightarrow> (case imported_evidence_conflict env spec sj of
        Some reason \<Rightarrow> (case mark_scheduler_submit_outcome_unknown (rv_cluster env) i ''submit_evidence_conflict'' reason d of
            (StartRaised, d) \<Rightarrow> (JobFault, sj, d)
          | (_, d) \<Rightarrow> (JobLeft, sj, d))
      | None \<Rightarrow> (case cancel_killed env i spec sj d of
          (None, sj, d) \<Rightarrow> (JobStays, sj, d)
        | (Some spec, sj, d) \<Rightarrow>
            let jid = sj_job_id sj; detail = map_of (ob_details ob) jid;
                sj = (if jid \<in> set (ob_explicitly_absent ob) then sj\<lparr>sj_explicit_absence := True\<rparr> else sj) in
            case judge D ob jid of
              NotObserved reason \<Rightarrow> (case stamp_scheduler_poll_failed env i reason sj d of (sj, d) \<Rightarrow> (JobStays, sj, d))
            | Seen ph \<Rightarrow>
                let d = stamp_scheduler_poll_succeeded env i d in
                if ph = PhaseFinished then collect_finished env D i spec detail sj d
                else case stamp_scheduler_status env i spec ph detail (map_of (ob_queued_reasons ob) jid)
                       (sj\<lparr>sj_explicit_absence := False, sj_allocation_finished := False, sj_marker_since := None, sj_marker_misses := 0\<rparr>) d of
                  (sj, d) \<Rightarrow> (JobStays, sj, d))))"

section \<open>The pass\<close>

text \<open>The entries of one target after the other; an entry is the object in the table, changed in place.\<close>

fun reconcile_items :: "reconcile_env \<Rightarrow> scheduler_dialect \<Rightarrow> poll_observation \<Rightarrow> (string \<times> scheduler_job) list \<Rightarrow> daemon
    \<Rightarrow> bool \<times> string list \<times> daemon" where
  "reconcile_items env D ob [] d = (True, [], d)"
| "reconcile_items env D ob ((i, sj) # items) d = (case reconcile_job env D ob i sj d of
      (JobFault, sj, d) \<Rightarrow> (False, [], track i sj d)
    | (JobLeft, sj, d) \<Rightarrow> reconcile_items env D ob items (untrack i d)
    | (JobStays, sj, d) \<Rightarrow> reconcile_items env D ob items (track i sj d)
    | (JobDone, sj, d) \<Rightarrow> (case reconcile_items env D ob items (track i sj d) of (ok, finished, d) \<Rightarrow> (ok, i # finished, d)))"

fun stamp_items :: "reconcile_env \<Rightarrow> string \<Rightarrow> (string \<times> scheduler_job) list \<Rightarrow> daemon \<Rightarrow> daemon" where
  "stamp_items env reason [] d = d"
| "stamp_items env reason ((i, sj) # items) d = (case stamp_scheduler_poll_failed env i reason sj d of
      (sj, d) \<Rightarrow> stamp_items env reason items (track i sj d))"

definition reconcile_target :: "reconcile_env \<Rightarrow> scheduler_dialect \<Rightarrow> poll_observation \<Rightarrow> (string \<times> scheduler_job) list \<Rightarrow> daemon
    \<Rightarrow> bool \<times> string list \<times> daemon" where
  "reconcile_target env D ob items d = (if ob_poll_error ob \<noteq> None then (True, [], stamp_items env ''scheduler poll failed'' items d)
     else reconcile_items env D ob items d)"

text \<open>
  \<open>polls\<close>: the targets that are not deferred, each with the dialect of its observer and the observation, or the
  exception that no handler of the observation names. Finished jobs leave the table when every target is done.
\<close>

fun reconcile_targets :: "reconcile_env \<Rightarrow> (string \<times> scheduler_dialect \<times> (poll_error + poll_observation)) list
    \<Rightarrow> (string \<times> scheduler_job) list \<Rightarrow> daemon \<Rightarrow> bool \<times> string list \<times> daemon" where
  "reconcile_targets env [] table d = (True, [], d)"
| "reconcile_targets env ((target, D, Inl e) # polls) table d = (False, [], d)"
| "reconcile_targets env ((target, D, Inr ob) # polls) table d = (
     case reconcile_target env D ob (filter (\<lambda>(i, sj). sj_target sj = target) table) d of
       (False, finished, d) \<Rightarrow> (False, finished, d)
     | (True, finished, d) \<Rightarrow> (case reconcile_targets env polls table d of (ok, later, d) \<Rightarrow> (ok, finished @ later, d)))"

definition reconcile_scheduler_pass :: "reconcile_env \<Rightarrow> (string \<times> scheduler_dialect \<times> (poll_error + poll_observation)) list
    \<Rightarrow> daemon \<Rightarrow> bool \<times> daemon" where
  "reconcile_scheduler_pass env polls d = (case reconcile_targets env polls (dm_scheduler_running d) d of
      (ok, finished, d) \<Rightarrow> (ok, if ok then fold untrack finished d else d))"

section \<open>One job, step by step\<close>

definition noted :: "poll_observation \<Rightarrow> scheduler_job \<Rightarrow> scheduler_job" where
  "noted ob sj = (if sj_job_id sj \<in> set (ob_explicitly_absent ob) then sj\<lparr>sj_explicit_absence := True\<rparr> else sj)"

definition live_again :: "scheduler_job \<Rightarrow> scheduler_job" where
  "live_again sj = sj\<lparr>sj_explicit_absence := False, sj_allocation_finished := False, sj_marker_since := None, sj_marker_misses := 0\<rparr>"

lemma cancel_killed_id: "cancel_killed env i s sj d = (m, sj1, d1) \<Longrightarrow> sj_job_id sj1 = sj_job_id sj"
  by (auto simp: cancel_killed_def Let_def split: if_splits option.splits)

lemma cancel_killed_terminal: "cancel_killed env i s sj d = (Some spec, sj1, d1) \<Longrightarrow> is_terminal spec \<longleftrightarrow> is_terminal s"
  by (auto simp: cancel_killed_def Let_def stamp_now_def stamp_heartbeat_def is_terminal_def split: if_splits option.splits)

text \<open>What happens to a job whose row is readable and whose evidence does not conflict.\<close>

lemma reconcile_job_eq:
  assumes "spec_of d i = Some s" "imported_evidence_conflict env s sj = None" "cancel_killed env i s sj d = (Some spec, sj1, d1)"
  shows "judge D ob (sj_job_id sj) = NotObserved reason \<Longrightarrow>
      reconcile_job env D ob i sj d = (JobStays, stamp_scheduler_poll_failed env i reason (noted ob sj1) d1)"
    and "judge D ob (sj_job_id sj) = Seen PhaseFinished \<Longrightarrow> reconcile_job env D ob i sj d
      = collect_finished env D i spec (map_of (ob_details ob) (sj_job_id sj)) (noted ob sj1) (stamp_scheduler_poll_succeeded env i d1)"
    and "judge D ob (sj_job_id sj) = Seen ph \<Longrightarrow> ph \<noteq> PhaseFinished \<Longrightarrow> reconcile_job env D ob i sj d
      = (JobStays, stamp_scheduler_status env i spec ph (map_of (ob_details ob) (sj_job_id sj))
          (map_of (ob_queued_reasons ob) (sj_job_id sj)) (live_again (noted ob sj1)) (stamp_scheduler_poll_succeeded env i d1))"
  using assms cancel_killed_id [OF assms(3)]
  by (simp_all add: reconcile_job_def Let_def noted_def live_again_def case_prod_beta)

section \<open>What the pass keeps of a row\<close>

definition row :: "string \<Rightarrow> (job_spec \<Rightarrow> bool) \<Rightarrow> daemon \<Rightarrow> bool" where
  "row i Q d \<longleftrightarrow> (\<exists>s. spec_of d i = Some s \<and> Q s)"

text \<open>
  The other writers keep the row readable, do not complete the job themselves and leave the label of a terminal row
  and its reason alone.
\<close>

definition lawful :: "reconcile_env \<Rightarrow> string \<Rightarrow> bool" where
  "lawful env i \<longleftrightarrow> (\<forall>n w s. map_of (qw_disk w) i = Some s \<longrightarrow>
     (\<exists>s'. map_of (qw_disk (se_race (rv_start env) n w)) i = Some s' \<and> (js_state s' = COMPLETED \<longrightarrow> js_state s = COMPLETED)
        \<and> (is_terminal s \<longrightarrow> js_state s' = js_state s \<and> js_failure_reason s' = js_failure_reason s)))"

lemma spec_of_simps [simp]:
  "spec_of (write_row s i d) j = (if j = i then Some s else spec_of d j)" "spec_of (log_row i a b d) = spec_of d"
  "spec_of (track i sj d) = spec_of d" "spec_of (untrack i d) = spec_of d"
  by (simp_all add: spec_of_def write_row_def log_row_def track_def untrack_def store_simps fun_eq_iff)

lemma row_write [simp]: "row i Q (write_row s i d) \<longleftrightarrow> Q s" "row i Q (log_row j a b d) \<longleftrightarrow> row i Q d"
  by (simp_all add: row_def)

lemma lawful_writes:
  assumes "lawful env i" "spec_of d i = Some s"
  obtains s' where "spec_of (others_write (rv_start env) n d) i = Some s'" "js_state s' = COMPLETED \<Longrightarrow> js_state s = COMPLETED"
    "is_terminal s \<Longrightarrow> js_state s' = js_state s \<and> js_failure_reason s' = js_failure_reason s"
proof -
  from assms have "\<exists>s'. map_of (qw_disk (se_race (rv_start env) n (dm_queue d))) i = Some s' \<and> (js_state s' = COMPLETED \<longrightarrow> js_state s = COMPLETED)
      \<and> (is_terminal s \<longrightarrow> js_state s' = js_state s \<and> js_failure_reason s' = js_failure_reason s)"
    unfolding lawful_def spec_of_def by blast
  then show thesis using that by (auto simp: spec_of_def others_write_def)
qed

text \<open>Changes of a row that touch neither its state nor its reason.\<close>

lemma stamp_same [simp]:
  "js_state (stamp_now env st s) = js_state s" "js_failure_reason (stamp_now env st s) = js_failure_reason s"
  "js_state (poll_failed_row env reason s) = js_state s" "js_failure_reason (poll_failed_row env reason s) = js_failure_reason s"
  "js_state (status_row env ph detail q s) = js_state s" "js_failure_reason (status_row env ph detail q s) = js_failure_reason s"
  by (simp_all add: stamp_now_def stamp_heartbeat_def poll_failed_row_def status_row_def Let_def split: option.split)

locale row_keeper =
  fixes Q :: "job_spec \<Rightarrow> bool"
  assumes race: "lawful env i \<Longrightarrow> row i Q d \<Longrightarrow> row i Q (others_write (rv_start env) n d)"
    and dep: "Q s \<Longrightarrow> js_state s' = js_state s \<Longrightarrow> js_failure_reason s' = js_failure_reason s \<Longrightarrow> Q s'"
begin

lemma on_live_row_keeps:
  assumes "lawful env i" "row i Q d" "\<And>s d. Q s \<Longrightarrow> \<not> is_terminal s \<Longrightarrow> spec_of d i = Some s \<Longrightarrow> row i Q (f s d)"
  shows "row i Q (snd (on_live_row env n i f d))"
  using race [OF assms(1,2), of n] assms(3) by (auto simp: on_live_row_def Let_def row_def split: option.splits)

lemma written_keeps: "row i Q (snd x) \<Longrightarrow> row i Q (snd (written env sj x))"
  by (simp add: written_def)

lemma stamp_keeps:
  assumes "lawful env i" "row i Q d" "\<And>s. js_state (g s) = js_state s \<and> js_failure_reason (g s) = js_failure_reason s"
    "\<And>s d. spec_of (f s d) i = Some (g s) \<or> spec_of (f s d) i = spec_of d i"
  shows "row i Q (snd (on_live_row env n i f d))"
proof (rule on_live_row_keeps [OF assms(1,2)])
  fix s d assume s: "Q s" "\<not> is_terminal s" "spec_of d i = Some s"
  then have "Q (g s)" using assms(3) by (intro dep [OF s(1)]) auto
  then show "row i Q (f s d)" using s assms(4) [of s d] by (auto simp: row_def)
qed

lemma finishing_keeps: "lawful env i \<Longrightarrow> row i Q d \<Longrightarrow> row i Q (snd (stamp_scheduler_finishing env i spec sj d))"
  by (auto simp: stamp_scheduler_finishing_def intro!: written_keeps stamp_keeps [where g = "stamp_now env ''finishing''"])

lemma retrying_keeps: "lawful env i \<Longrightarrow> row i Q d \<Longrightarrow> row i Q (snd (stamp_retrying env n st i spec sj d))"
  by (auto simp: stamp_retrying_def Let_def intro!: written_keeps stamp_keeps [where g = "stamp_now env st"])

lemma unavailable_keeps: "lawful env i \<Longrightarrow> row i Q d \<Longrightarrow> row i Q (stamp_scheduler_artifacts_unavailable env i d)"
  by (auto simp: stamp_scheduler_artifacts_unavailable_def intro!: stamp_keeps [where g = "stamp_now env ''artifacts_unavailable''"])

lemma succeeded_keeps: "lawful env i \<Longrightarrow> row i Q d \<Longrightarrow> row i Q (stamp_scheduler_poll_succeeded env i d)"
  by (auto simp: stamp_scheduler_poll_succeeded_def intro!: stamp_keeps [where g = "\<lambda>s. s\<lparr>js_scheduler_poll_last_attempted_at := Some (rv_attempted_at env),
            js_scheduler_poll_last_success_at := Some (se_now_iso (rv_start env))\<rparr>"])

lemma status_keeps: "lawful env i \<Longrightarrow> row i Q d \<Longrightarrow> row i Q (snd (stamp_scheduler_status env i spec ph detail q sj d))"
  by (auto simp: stamp_scheduler_status_def intro!: written_keeps stamp_keeps [where g = "status_row env ph detail q"])

lemma stamp_poll_failed_keeps:
  assumes "lawful env i" "row i Q d"
  shows "row i Q (snd (stamp_scheduler_poll_failed env i reason sj d))"
proof -
  obtain s where s: "spec_of (others_write (rv_start env) 45 d) i = Some s" "Q s" using race [OF assms, of 45] by (auto simp: row_def)
  moreover have "Q (poll_failed_row env reason s)" by (rule dep [OF s(2)]) simp_all
  ultimately show ?thesis by (auto simp: stamp_scheduler_poll_failed_def Let_def row_def)
qed

lemma fetch_keeps: "lawful env i \<Longrightarrow> row i Q d \<Longrightarrow> row i Q (snd (snd (fetch_scheduler_results env i spec sj d)))"
  by (auto simp: fetch_scheduler_results_def stamp_scheduler_fetch_failed_def Let_def retrying_keeps unavailable_keeps split: fetch_answer.splits)

lemma cancel_killed_keeps:
  assumes "lawful env i" "row i Q d"
  shows "row i Q (snd (snd (cancel_killed env i spec sj d)))"
proof -
  obtain s where s: "spec_of (others_write (rv_start env) 47 d) i = Some s" "Q s" using race [OF assms, of 47] by (auto simp: row_def)
  moreover have "Q (stamp_now env ''submit_cancel_pending_after_terminal'' (s\<lparr>js_scheduler_job_id := j\<rparr>))" for j by (rule dep [OF s(2)]) simp_all
  ultimately show ?thesis using assms by (auto simp: cancel_killed_def Let_def row_def)
qed

end

interpretation open_row: row_keeper "\<lambda>s. js_state s \<noteq> COMPLETED"
  by unfold_locales (auto simp: row_def elim: lawful_writes)

interpretation failed_row: row_keeper "\<lambda>s. is_terminal s \<and> js_state s \<noteq> COMPLETED"
  by unfold_locales (auto simp: row_def is_terminal_def elim!: lawful_writes)

interpretation any_row: row_keeper "\<lambda>s. True"
  by unfold_locales (auto simp: row_def elim: lawful_writes)

interpretation labelled: row_keeper "\<lambda>s. is_terminal s \<and> js_state s = st \<and> js_failure_reason s = why" for st why
  by unfold_locales (auto simp: row_def is_terminal_def elim!: lawful_writes)

section \<open>Jobs that the scheduler disowns\<close>

abbreviation is_open :: "string \<Rightarrow> daemon \<Rightarrow> bool" where "is_open i \<equiv> row i (\<lambda>s. js_state s \<noteq> COMPLETED)"
abbreviation has_failed :: "string \<Rightarrow> daemon \<Rightarrow> bool" where "has_failed i \<equiv> row i (\<lambda>s. is_terminal s \<and> js_state s \<noteq> COMPLETED)"

lemma failed_open: "has_failed i d \<Longrightarrow> is_open i d" by (auto simp: row_def)

lemma with_tail_same [simp]: "js_state (with_tail env s) = js_state s"
  by (simp add: with_tail_def Let_def)

lemma on_live_row_ends:
  assumes "lawful env i" "is_open i d" "\<And>s d. has_failed i (f s d)"
  shows "has_failed i (snd (on_live_row env n i f d))"
  using open_row.race [OF assms(1,2), of n] assms(3) by (auto simp: on_live_row_def Let_def row_def split: option.splits)

lemma abnormal_end_state_failed: "abnormal_end_state st \<in> TERMINAL_STATES \<and> abnormal_end_state st \<noteq> COMPLETED"
  by (simp add: abnormal_end_state_def TERMINAL_STATES_def)

lemma ending_states: "TIME_EXCEEDED \<in> TERMINAL_STATES" "ABORTED_BY_QUEUE \<in> TERMINAL_STATES"
  by (simp_all add: TERMINAL_STATES_def)

lemma marks_end:
  assumes "lawful env i" "is_open i d"
  shows "has_failed i (mark_scheduler_time_exceeded env i reason used limit d)"
    "has_failed i (mark_scheduler_abnormal_end env i st q rc d)" "has_failed i (abort_by_queue env i d)"
  unfolding mark_scheduler_time_exceeded_def mark_scheduler_abnormal_end_def abort_by_queue_def
  by (rule on_live_row_ends [OF assms], simp add: end_row_def is_terminal_def ending_states abnormal_end_state_failed)+

lemma reaped_same: "js_state (reaped_spec env rc s) = js_state s" "js_failure_reason (reaped_spec env rc s) = js_failure_reason s"
  by (simp_all add: reaped_spec_def Let_def)

lemma finish_row:
  assumes "finish_scheduler_job env i rc d = (ok, d')" "spec_of (others_write (rv_start env) 54 d) i = Some s" "is_terminal s"
  shows "ok \<and> spec_of d' i = Some (reaped_spec (rv_queue env) rc s)"
proof -
  have "map_of (qw_disk (dm_queue (others_write (rv_start env) 54 d))) i = Some s" using assms(2) by (simp add: spec_of_def)
  then have "map_of (qw_disk (snd (record_finish (rv_queue env) i rc (dm_queue (others_write (rv_start env) 54 d))))) i
      = Some (reaped_spec (rv_queue env) rc s)" using assms(3) by (simp add: record_finish_def store_simps)
  then show ?thesis using assms(1,2) by (auto simp: finish_scheduler_job_def Let_def spec_of_def)
qed

lemma finish_keeps_failed:
  assumes "finish_scheduler_job env i rc d = (ok, d')" "lawful env i" "has_failed i d"
  shows "has_failed i d'"
proof -
  obtain s where s: "spec_of (others_write (rv_start env) 54 d) i = Some s" "is_terminal s" "js_state s \<noteq> COMPLETED"
    using failed_row.race [OF assms(2,3), of 54] by (auto simp: row_def)
  then show ?thesis using finish_row [OF assms(1) s(1,2)] by (simp add: row_def reaped_same is_terminal_def)
qed

text \<open>The results of the steps as projections, so that the invariants follow the calls.\<close>

lemma reap_by_marker_disowned:
  assumes "lawful env i" "is_open i d" "detail = Some q"
  shows "is_open i (snd (snd (reap_by_marker env D i spec detail (Some st) rc sj d)))"
proof -
  obtain outcome sj1 d1 where f: "fetch_scheduler_results env i spec sj d = (outcome, sj1, d1)" by (metis prod_cases3)
  have 1: "is_open i d1" using open_row.fetch_keeps [OF assms(1,2), of spec sj] f by simp
  obtain sj2 d2 where s: "(if outcome = Fetched \<and> scheduler_state_in spec {''fetch_failed'', ''marker_probe_failed'', ''poll_failed''}
              then stamp_scheduler_finishing env i spec sj1 d1 else (sj1, d1)) = (sj2, d2)" by fastforce
  have 2: "is_open i d2" using open_row.finishing_keeps [OF assms(1) 1, of spec sj1] s 1 by (auto split: if_splits)
  obtain over used limit where w: "scheduler_walltime_exceeded spec detail None = (over, used, limit)" by (metis prod_cases3)
  let ?d3 = "if over then mark_scheduler_time_exceeded env i (scheduler_walltime_reason used limit False) used limit d2 else d2"
  have "is_open i ?d3" using marks_end(1) [OF assms(1) 2] 2 failed_open by simp
  then have 3: "has_failed i (mark_scheduler_abnormal_end env i st q (Some rc) ?d3)" by (rule marks_end [OF assms(1)])
  obtain ok d4 where e: "finish_scheduler_job env i rc (mark_scheduler_abnormal_end env i st q (Some rc) ?d3) = (ok, d4)" by fastforce
  have "is_open i d4" by (rule failed_open [OF finish_keeps_failed [OF e assms(1) 3]])
  then show ?thesis using f s w e 1 assms(3) by (cases outcome) (auto simp: reap_by_marker_def Let_def split: prod.splits)
qed

lemma reap_without_marker_disowned:
  assumes "lawful env i" "is_open i d" "detail = Some q"
  shows "is_open i (snd (reap_without_marker env D i spec detail (Some st) d))"
proof -
  obtain over used limit where w: "scheduler_walltime_exceeded spec detail (rv_qstat_detail env i) = (over, used, limit)" by (metis prod_cases3)
  have fin: "is_open i (snd (finish_scheduler_job env i rc d'))" if "has_failed i d'" for rc d'
    using finish_keeps_failed [OF surjective_pairing assms(1) that] by (rule failed_open)
  show ?thesis using w assms(3) marks_end [OF assms(1,2)] by (auto simp: reap_without_marker_def Let_def failed_open fin split: option.splits)
qed

lemma await_marker_disowned:
  assumes "lawful env i" "is_open i d" "detail = Some q"
  shows "is_open i (snd (snd (await_marker env D i spec detail (Some st) sj d)))"
proof -
  let ?since = "the_or (rv_clock env) (sj_marker_since sj)"
  let ?sj = "sj\<lparr>sj_marker_since := Some ?since, sj_marker_misses := sj_marker_misses sj + 1\<rparr>"
  obtain sj1 d1 where s: "stamp_scheduler_finishing env i spec ?sj d = (sj1, d1)" by fastforce
  have 1: "is_open i d1" using open_row.finishing_keeps [OF assms(1,2), of spec ?sj] s by simp
  obtain outcome sj2 d2 where f: "fetch_scheduler_results env i spec sj1 d1 = (outcome, sj2, d2)" by (metis prod_cases3)
  have 2: "is_open i d2" using open_row.fetch_keeps [OF assms(1) 1, of spec sj1] f by simp
  have 3: "is_open i d3" if "finish_scheduler_job env i rc (mark_scheduler_abnormal_end env i st q (Some rc) d2) = (ok, d3)" for rc ok d3
    by (rule failed_open [OF finish_keeps_failed [OF that assms(1) marks_end(2) [OF assms(1) 2]]])
  note 4 = reap_without_marker_disowned [OF assms(1) 2 assms(3), of D spec st]
  show ?thesis using s f 1 2 3 4 assms(2,3)
    by (cases outcome; cases "rv_local_marker env i") (auto simp: await_marker_def Let_def split: prod.splits)
qed

lemma collect_finished_disowned:
  assumes "lawful env i" "is_open i d" "abnormal_termination_from_detail D q = Inr (Some st)"
  shows "is_open i (snd (snd (collect_finished env D i spec (Some q) sj d)))"
proof -
  obtain sj1 d1 where s: "(if scheduler_state_in spec {''fetch_failed'', ''marker_probe_failed'', ''artifacts_unavailable''}
      then (sj\<lparr>sj_allocation_finished := True\<rparr>, d) else stamp_scheduler_finishing env i spec (sj\<lparr>sj_allocation_finished := True\<rparr>) d) = (sj1, d1)" by fastforce
  have 1: "is_open i d1" using open_row.finishing_keeps [OF assms(1,2), of spec "sj\<lparr>sj_allocation_finished := True\<rparr>"] s assms(2) by (auto split: if_splits)
  have 2: "is_open i (snd (stamp_scheduler_marker_probe_failed env i spec sj1 d1))"
    using open_row.retrying_keeps [OF assms(1) 1] by (simp add: stamp_scheduler_marker_probe_failed_def)
  show ?thesis using s 1 2 assms(3) await_marker_disowned [OF assms(1) 1] reap_by_marker_disowned [OF assms(1) 1]
    by (auto simp: collect_finished_def Let_def split: prod.splits sum.splits option.splits)
qed

lemma mark_unknown_keeps:
  assumes "lawful env i" "is_open i d"
  shows "is_open i (snd (mark_scheduler_submit_outcome_unknown (rv_cluster env) i st reason d))"
  using open_row.race [OF assms, of 30]
  by (auto simp: mark_scheduler_submit_outcome_unknown_def commit_row_def stamp_heartbeat_def Let_def row_def split: option.splits)

text \<open>
  C22: a job that the scheduler disowned is never recorded as completed. When accounting says that the scheduler ended or
  invalidated the job, then whatever the exit marker and the fetched workspace claim, and whatever lawful writers do in
  between, a row that was not completed is not completed after the pass over this job.
\<close>

theorem disowned_never_completed:
  assumes "lawful env i" "spec_of d i = Some s" "js_state s \<noteq> COMPLETED"
    and "map_of (ob_details ob) (sj_job_id sj) = Some q" "abnormal_termination_from_detail D q = Inr (Some st)"
    and "reconcile_job env D ob i sj d = (r, sj', d')"
  shows "row_state d' i \<noteq> Some COMPLETED"
proof -
  have 0: "is_open i d" using assms(2,3) by (auto simp: row_def)
  note unknown = mark_unknown_keeps [OF assms(1) 0, of "''submit_evidence_conflict''"]
  obtain m sj1 d1 where c: "cancel_killed env i s sj d = (m, sj1, d1)" by (metis prod_cases3)
  have 1: "is_open i d1" using open_row.cancel_killed_keeps [OF assms(1) 0, of s sj] c by simp
  have jid: "sj_job_id sj1 = sj_job_id sj" using c by (auto simp: cancel_killed_def Let_def split: if_splits option.splits)
  have "is_open i d'"
    using assms(2,6) c jid unknown 1 open_row.stamp_poll_failed_keeps [OF assms(1) 1] open_row.succeeded_keeps [OF assms(1) 1]
      open_row.status_keeps [OF assms(1) open_row.succeeded_keeps [OF assms(1) 1]]
      collect_finished_disowned [OF assms(1) open_row.succeeded_keeps [OF assms(1) 1] assms(5)] assms(4)
    by (auto simp: reconcile_job_def Let_def split: option.splits verdict.splits prod.splits start_result.splits if_splits) (metis snd_conv)+
  then show ?thesis by (auto simp: row_def row_state_def state_on_def spec_of_def)
qed

section \<open>Labels of finished jobs\<close>

abbreviation has_label :: "string \<Rightarrow> job_state \<Rightarrow> string option \<Rightarrow> daemon \<Rightarrow> bool" where
  "has_label i st why \<equiv> row i (\<lambda>s. is_terminal s \<and> js_state s = st \<and> js_failure_reason s = why)"

lemma label_state: "has_label i st why d \<Longrightarrow> row_state d i = Some st"
  by (auto simp: row_def row_state_def state_on_def spec_of_def)

lemma on_live_row_label:
  assumes "lawful env i" "has_label i st why d"
  shows "has_label i st why (snd (on_live_row env n i f d))"
  by (rule labelled.on_live_row_keeps [OF assms]) auto

lemma finish_label:
  assumes "finish_scheduler_job env i rc d = (ok, d')" "lawful env i" "has_label i st why d"
  shows "ok \<and> has_label i st why d'"
proof -
  obtain s where s: "spec_of (others_write (rv_start env) 54 d) i = Some s" "is_terminal s" "js_state s = st" "js_failure_reason s = why"
    using labelled.race [OF assms(2,3), of 54] by (auto simp: row_def)
  then show ?thesis using finish_row [OF assms(1) s(1,2)] by (simp add: row_def reaped_same is_terminal_def)
qed

text \<open>The one way a label changes: an operator's kill that came after the job had ended by itself.\<close>

definition corrected :: "scheduler_dialect \<Rightarrow> qstat_detail option \<Rightarrow> int \<Rightarrow> job_state \<Rightarrow> string option \<Rightarrow> job_state \<Rightarrow> bool" where
  "corrected D detail rc st why st' \<longleftrightarrow> st = KILLED \<and> starts_with DEFAULT_KILL_REASON (the_or [] why)
     \<and> (\<exists>q. detail = Some q \<and> ended_on_its_own_from_detail D q) \<and> st' = (if rc = 0 then COMPLETED else FAILED)"

lemma honor_label:
  assumes "lawful env i" "has_label i st why d" "honor_scheduler_end_over_late_kill env D i q rc d = (ok, d')"
  shows "ok \<and> (\<exists>st' why'. has_label i st' why' d' \<and> (st' = st \<or> corrected D (Some q) rc st why st'))"
proof -
  obtain s where s: "spec_of (others_write (rv_start env) 53 d) i = Some s" "is_terminal s" "js_state s = st" "js_failure_reason s = why"
    using labelled.race [OF assms(1,2), of 53] by (auto simp: row_def)
  show ?thesis
  proof (cases "ended_on_its_own_from_detail D q \<and> late_kill s")
    case True
    then have "ok" "d' = log_row i KILLED (js_state (own_end_row rc s)) (write_row (own_end_row rc s) i (others_write (rv_start env) 53 d))"
      using assms(3) s(1) by (simp_all add: honor_scheduler_end_over_late_kill_def Let_def)
    moreover have "is_terminal (own_end_row rc s)" by (simp add: own_end_row_def is_terminal_def TERMINAL_STATES_def)
    moreover have "corrected D (Some q) rc st why (js_state (own_end_row rc s))"
      using True s by (simp add: corrected_def late_kill_def own_end_row_def)
    ultimately show ?thesis by (auto simp: row_def)
  next
    case False
    then have "ok \<and> (d' = d \<or> d' = others_write (rv_start env) 53 d)"
      using assms(3) s(1) by (auto simp: honor_scheduler_end_over_late_kill_def Let_def split: if_splits)
    then show ?thesis using assms(2) labelled.race [OF assms(1,2), of 53] by blast
  qed
qed

lemma reap_by_marker_label:
  assumes "lawful env i" "has_label i st why d"
  shows "\<exists>st' why'. has_label i st' why' (snd (snd (reap_by_marker env D i spec detail abnormal rc sj d))) \<and> (st' = st \<or> corrected D detail rc st why st')"
proof -
  obtain outcome sj1 d1 where f: "fetch_scheduler_results env i spec sj d = (outcome, sj1, d1)" by (metis prod_cases3)
  have 1: "has_label i st why d1" using labelled.fetch_keeps [OF assms, of spec sj] f by simp
  obtain sj2 d2 where s: "(if outcome = Fetched \<and> scheduler_state_in spec {''fetch_failed'', ''marker_probe_failed'', ''poll_failed''}
              then stamp_scheduler_finishing env i spec sj1 d1 else (sj1, d1)) = (sj2, d2)" by fastforce
  have 2: "has_label i st why d2" using labelled.finishing_keeps [OF assms(1) 1, of spec sj1] s 1 by (auto split: if_splits)
  obtain over used limit where w: "scheduler_walltime_exceeded spec detail None = (over, used, limit)" by (metis prod_cases3)
  define d3 where "d3 = (if over then mark_scheduler_time_exceeded env i (scheduler_walltime_reason used limit False) used limit d2 else d2)"
  have 3: "has_label i st why d3" using on_live_row_label [OF assms(1) 2] 2 by (simp add: d3_def mark_scheduler_time_exceeded_def)
  obtain ok d4 where e: "(case (abnormal, detail) of (Some st, Some q) \<Rightarrow> (True, mark_scheduler_abnormal_end env i st q (Some rc) d3)
      | (None, Some q) \<Rightarrow> honor_scheduler_end_over_late_kill env D i q rc d3 | _ \<Rightarrow> (True, d3)) = (ok, d4)" by fastforce
  have 4: "ok \<and> (\<exists>st' why'. has_label i st' why' d4 \<and> (st' = st \<or> corrected D detail rc st why st'))"
  proof (cases "abnormal = None \<and> detail \<noteq> None")
    case True
    then obtain q where q: "detail = Some q" "abnormal = None" by auto
    then have "honor_scheduler_end_over_late_kill env D i q rc d3 = (ok, d4)" using e by simp
    from honor_label [OF assms(1) 3 this] show ?thesis using q by simp
  next
    case False
    then have "ok \<and> has_label i st why d4" using e 3 on_live_row_label [OF assms(1) 3]
      by (auto simp: mark_scheduler_abnormal_end_def split: option.splits)
    then show ?thesis by blast
  qed
  obtain ok' d5 where g: "finish_scheduler_job env i rc d4 = (ok', d5)" by fastforce
  have 5: "\<exists>st' why'. has_label i st' why' d5 \<and> (st' = st \<or> corrected D detail rc st why st')"
    using 4 finish_label [OF g assms(1)] by blast
  have "snd (snd (reap_by_marker env D i spec detail abnormal rc sj d)) = d5" if "outcome \<noteq> Retry"
    using that f s w e [unfolded d3_def] g 4
    by (cases outcome; cases over; cases abnormal; cases detail) (simp_all add: reap_by_marker_def Let_def)
  then show ?thesis using f 1 5 by (cases "outcome = Retry") (auto simp: reap_by_marker_def)
qed

lemma collect_finished_label:
  assumes "lawful env i" "has_label i st why d" "is_terminal spec"
  shows "\<exists>st' why'. has_label i st' why' (snd (snd (collect_finished env D i spec detail sj d)))
    \<and> (st' = st \<or> (\<exists>rc. exit_marker_code (rv_marker env i) = Inr (Some rc) \<and> corrected D detail rc st why st'))"
proof -
  obtain sj1 d1 where s: "(if scheduler_state_in spec {''fetch_failed'', ''marker_probe_failed'', ''artifacts_unavailable''}
      then (sj\<lparr>sj_allocation_finished := True\<rparr>, d) else stamp_scheduler_finishing env i spec (sj\<lparr>sj_allocation_finished := True\<rparr>) d) = (sj1, d1)" by fastforce
  have 1: "has_label i st why d1" using labelled.finishing_keeps [OF assms(1,2), of spec "sj\<lparr>sj_allocation_finished := True\<rparr>"] s assms(2) by (auto split: if_splits)
  have 2: "has_label i st why (snd (stamp_scheduler_marker_probe_failed env i spec sj1 d1))"
    using labelled.retrying_keeps [OF assms(1) 1] by (simp add: stamp_scheduler_marker_probe_failed_def)
  have 3: "await_marker env D i spec detail abnormal sj1 d1 = (JobDone, sj1, d1)" for abnormal using assms(3) by (simp add: await_marker_def)
  note 4 = reap_by_marker_label [OF assms(1) 1, of D spec detail]
  show ?thesis using s 1 2 3 4
    by (auto simp: collect_finished_def Let_def split: prod.splits sum.splits option.splits)
qed

lemma reconcile_job_label:
  assumes "lawful env i" "spec_of d i = Some s" "is_terminal s" "reconcile_job env D ob i sj d = (r, sj', d')"
    and "imported_evidence_conflict env s sj = None"
  shows "\<exists>st' why'. has_label i st' why' d' \<and> (st' = js_state s \<or> (\<exists>rc. exit_marker_code (rv_marker env i) = Inr (Some rc)
      \<and> corrected D (map_of (ob_details ob) (sj_job_id sj)) rc (js_state s) (js_failure_reason s) st'))"
proof -
  have 0: "has_label i (js_state s) (js_failure_reason s) d" using assms(2,3) by (simp add: row_def)
  obtain m sj1 d1 where c: "cancel_killed env i s sj d = (m, sj1, d1)" by (metis prod_cases3)
  have 1: "has_label i (js_state s) (js_failure_reason s) d1" using labelled.cancel_killed_keeps [OF assms(1) 0, of s sj] c by simp
  have spec: "is_terminal spec" if "m = Some spec" for spec
    using cancel_killed_terminal [of env i s sj d spec sj1 d1] c that assms(3) by simp
  note 2 = labelled.succeeded_keeps [OF assms(1) 1]
  show ?thesis
  proof (cases m)
    case m: (Some spec)
    show ?thesis
    proof (cases "judge D ob (sj_job_id sj) = Seen PhaseFinished")
      case True
      note eq = trans [OF sym [OF reconcile_job_eq(2) [OF assms(2) assms(5) c [unfolded m] True]] assms(4)]
      show ?thesis using collect_finished_label [OF assms(1) 2 spec [OF m], of D "map_of (ob_details ob) (sj_job_id sj)" "noted ob sj1"]
        unfolding eq by simp
    next
      case False
      have "has_label i (js_state s) (js_failure_reason s) d'"
      proof (cases "judge D ob (sj_job_id sj)")
        case (NotObserved reason)
        note eq = trans [OF sym [OF reconcile_job_eq(1) [OF assms(2) assms(5) c [unfolded m] NotObserved]] assms(4)]
        then show ?thesis using labelled.stamp_poll_failed_keeps [OF assms(1) 1, of reason "noted ob sj1"] by simp
      next
        case (Seen ph)
        with False have "ph \<noteq> PhaseFinished" by auto
        note eq = trans [OF sym [OF reconcile_job_eq(3) [OF assms(2) assms(5) c [unfolded m] Seen this]] assms(4)]
        then show ?thesis using labelled.status_keeps [OF assms(1) 2, of spec ph "map_of (ob_details ob) (sj_job_id sj)"
            "map_of (ob_queued_reasons ob) (sj_job_id sj)" "live_again (noted ob sj1)"] by simp
      qed
      then show ?thesis by blast
    qed
  qed (use assms(2,4,5) c 1 in \<open>auto simp: reconcile_job_def\<close>)
qed

text \<open>
  C23: the label of a finished job stands. A terminal state is the same after the pass over this job, with one exception:
  a job killed by an operator whose accounting record proves that it had ended by itself, and whose exit marker was
  read, gets the outcome that the marker says.
\<close>

theorem terminal_label_kept:
  assumes "lawful env i" "spec_of d i = Some s" "is_terminal s" "reconcile_job env D ob i sj d = (r, sj', d')"
  shows "row_state d' i = Some (js_state s) \<or> (late_kill s \<and> (\<exists>q rc. map_of (ob_details ob) (sj_job_id sj) = Some q
     \<and> ended_on_its_own_from_detail D q \<and> exit_marker_code (rv_marker env i) = Inr (Some rc)
     \<and> row_state d' i = Some (if rc = 0 then COMPLETED else FAILED)))"
proof (cases "imported_evidence_conflict env s sj")
  case (Some reason)
  obtain s' where "spec_of (others_write (rv_start env) 30 d) i = Some s'" "js_state s' = js_state s"
    using lawful_writes [OF assms(1,2), of 30] assms(3) by metis
  then show ?thesis using Some assms(2-4)
    by (auto simp: reconcile_job_def mark_scheduler_submit_outcome_unknown_def commit_row_def stamp_heartbeat_def Let_def is_terminal_def
        row_state_def state_on_def spec_of_def write_row_def store_simps split: option.splits start_result.splits if_splits)
next
  case None
  obtain st' where l: "row_state d' i = Some st'" "st' = js_state s \<or> (\<exists>rc. exit_marker_code (rv_marker env i) = Inr (Some rc)
      \<and> corrected D (map_of (ob_details ob) (sj_job_id sj)) rc (js_state s) (js_failure_reason s) st')"
    using reconcile_job_label [OF assms None] by (blast dest: label_state)
  show ?thesis
  proof (cases "st' = js_state s")
    case False
    then obtain rc where rc: "exit_marker_code (rv_marker env i) = Inr (Some rc)"
      and "corrected D (map_of (ob_details ob) (sj_job_id sj)) rc (js_state s) (js_failure_reason s) st'" using l(2) by blast
    then obtain q where "late_kill s" "map_of (ob_details ob) (sj_job_id sj) = Some q" "ended_on_its_own_from_detail D q"
      "st' = (if rc = 0 then COMPLETED else FAILED)" by (auto simp: corrected_def late_kill_def)
    then show ?thesis using rc l(1) by blast
  qed (use l(1) in simp)
qed

section \<open>Who leaves the table\<close>

text \<open>A pass over one job changes rows, never the table of jobs.\<close>

lemma table_simps [simp]:
  "dm_scheduler_running (write_row s i d) = dm_scheduler_running d" "dm_scheduler_running (log_row i a b d) = dm_scheduler_running d"
  "dm_scheduler_running (others_write env n d) = dm_scheduler_running d"
  by (simp_all add: write_row_def log_row_def others_write_def)

lemma on_live_row_table: "(\<And>s d. dm_scheduler_running (f s d) = dm_scheduler_running d) \<Longrightarrow> dm_scheduler_running (snd (on_live_row env n i f d)) = dm_scheduler_running d"
  by (simp add: on_live_row_def Let_def split: option.split)

lemma stamps_table [simp]:
  "dm_scheduler_running (snd (stamp_scheduler_finishing env i spec sj d)) = dm_scheduler_running d"
  "dm_scheduler_running (snd (stamp_retrying env n st i spec sj d)) = dm_scheduler_running d"
  "dm_scheduler_running (stamp_scheduler_artifacts_unavailable env i d) = dm_scheduler_running d"
  "dm_scheduler_running (stamp_scheduler_poll_succeeded env i d) = dm_scheduler_running d"
  "dm_scheduler_running (snd (stamp_scheduler_status env i spec ph detail q sj d)) = dm_scheduler_running d"
  "dm_scheduler_running (mark_scheduler_time_exceeded env i reason used limit d) = dm_scheduler_running d"
  "dm_scheduler_running (mark_scheduler_abnormal_end env i st qd rc d) = dm_scheduler_running d"
  "dm_scheduler_running (abort_by_queue env i d) = dm_scheduler_running d"
  by (simp_all add: stamp_scheduler_finishing_def stamp_retrying_def stamp_scheduler_artifacts_unavailable_def
      stamp_scheduler_poll_succeeded_def stamp_scheduler_status_def mark_scheduler_time_exceeded_def
      mark_scheduler_abnormal_end_def abort_by_queue_def written_def Let_def on_live_row_table)

lemma steps_table [simp]:
  "dm_scheduler_running (snd (stamp_scheduler_poll_failed env i reason sj d)) = dm_scheduler_running d"
  "dm_scheduler_running (snd (honor_scheduler_end_over_late_kill env D i q rc d)) = dm_scheduler_running d"
  "dm_scheduler_running (snd (finish_scheduler_job env i rc d)) = dm_scheduler_running d"
  "dm_scheduler_running (snd (snd (fetch_scheduler_results env i spec sj d))) = dm_scheduler_running d"
  "dm_scheduler_running (snd (snd (cancel_killed env i spec sj d))) = dm_scheduler_running d"
  "dm_scheduler_running (snd (mark_scheduler_submit_outcome_unknown ce i st reason d)) = dm_scheduler_running d"
  by (simp_all add: stamp_scheduler_poll_failed_def honor_scheduler_end_over_late_kill_def finish_scheduler_job_def
      fetch_scheduler_results_def stamp_scheduler_fetch_failed_def cancel_killed_def mark_scheduler_submit_outcome_unknown_def commit_row_def Let_def
      split: option.split fetch_answer.split)

lemma finishing_table: "(if b then (x, d) else stamp_scheduler_finishing env i spec sj d) = (sj', d') \<Longrightarrow> dm_scheduler_running d' = dm_scheduler_running d"
  by (metis snd_conv stamps_table(1))

lemma reap_without_marker_table [simp]: "dm_scheduler_running (snd (reap_without_marker env D i spec detail abnormal d)) = dm_scheduler_running d"
  by (auto simp: reap_without_marker_def Let_def case_prod_beta split: option.split)

lemma reap_by_marker_table [simp]: "dm_scheduler_running (snd (snd (reap_by_marker env D i spec detail abnormal rc sj d))) = dm_scheduler_running d"
proof -
  obtain outcome sj1 d1 where f: "fetch_scheduler_results env i spec sj d = (outcome, sj1, d1)" by (metis prod_cases3)
  then have "dm_scheduler_running d1 = dm_scheduler_running d" by (metis snd_conv steps_table(4))
  then show ?thesis using f
    by (cases outcome) (auto simp: reap_by_marker_def Let_def case_prod_beta split: option.split)
qed

lemma await_marker_table [simp]: "dm_scheduler_running (snd (snd (await_marker env D i spec detail abnormal sj d))) = dm_scheduler_running d"
proof -
  define x where "x = stamp_scheduler_finishing env i spec (sj\<lparr>sj_marker_since := Some (the_or (rv_clock env) (sj_marker_since sj)), sj_marker_misses := sj_marker_misses sj + 1\<rparr>) d"
  obtain outcome sj1 d1 where f: "fetch_scheduler_results env i spec (fst x) (snd x) = (outcome, sj1, d1)" by (metis prod_cases3)
  have x: "dm_scheduler_running (snd x) = dm_scheduler_running d" by (simp add: x_def)
  then have "dm_scheduler_running d1 = dm_scheduler_running d" using f by (metis snd_conv steps_table(4))
  then show ?thesis using f x
    by (cases outcome) (auto simp: await_marker_def Let_def case_prod_beta x_def [symmetric] split: option.split)
qed

lemma collect_finished_table [simp]: "dm_scheduler_running (snd (snd (collect_finished env D i spec detail sj d))) = dm_scheduler_running d"
  by (auto simp: collect_finished_def stamp_scheduler_marker_probe_failed_def Let_def case_prod_beta split: sum.split option.split)

lemma reconcile_job_table: "dm_scheduler_running (snd (snd (reconcile_job env D ob i sj d))) = dm_scheduler_running d"
proof (cases "spec_of d i")
  case (Some s)
  obtain m sj1 d1 where c: "cancel_killed env i s sj d = (m, sj1, d1)" by (metis prod_cases3)
  then have d1: "dm_scheduler_running d1 = dm_scheduler_running d" by (metis snd_conv steps_table(5))
  show ?thesis
  proof (cases "imported_evidence_conflict env s sj")
    case (Some why)
    obtain r d2 where u: "mark_scheduler_submit_outcome_unknown (rv_cluster env) i ''submit_evidence_conflict'' why d = (r, d2)" by fastforce
    then have "dm_scheduler_running d2 = dm_scheduler_running d" by (metis snd_conv steps_table(6))
    then show ?thesis using u Some \<open>spec_of d i = Some s\<close> by (cases r) (simp_all add: reconcile_job_def)
  next
    case None
    show ?thesis
    proof (cases m)
      case m: (Some spec)
      note eq = reconcile_job_eq [OF Some None c [unfolded m], of D ob]
      show ?thesis
      proof (cases "judge D ob (sj_job_id sj)")
        case (Seen ph)
        then show ?thesis using eq(2,3) d1 by (cases "ph = PhaseFinished") simp_all
      qed (use eq(1) d1 in simp)
    qed (use Some None c d1 in \<open>simp add: reconcile_job_def\<close>)
  qed
qed (simp add: reconcile_job_def)

text \<open>The handle of an entry never changes, and a step that sees no end does not free its slot.\<close>

definition slot_kept :: "scheduler_job \<Rightarrow> scheduler_job \<Rightarrow> bool" where
  "slot_kept sj sj' \<longleftrightarrow> sj_job_id sj' = sj_job_id sj \<and> sj_target sj' = sj_target sj \<and> (sj_allocation_finished sj' \<longrightarrow> sj_allocation_finished sj)"

lemma slot_kept_steps:
  "slot_kept sj (fst (stamp_scheduler_poll_failed env i reason sj d))"
  "slot_kept sj (fst (stamp_scheduler_status env i spec ph detail q (live_again (noted ob sj)) d))" "slot_kept sj (noted ob sj)"
  "slot_kept sj (fst (snd (cancel_killed env i spec sj d)))"
  by (auto simp: slot_kept_def stamp_scheduler_poll_failed_def stamp_scheduler_status_def written_def noted_def live_again_def cancel_killed_def Let_def
      split: option.split)

lemma slot_kept_trans: "slot_kept a b \<Longrightarrow> slot_kept b c \<Longrightarrow> slot_kept a c" by (auto simp: slot_kept_def)

lemma unjudged_stays:
  assumes "judge D ob (sj_job_id sj) \<noteq> Seen PhaseFinished" "\<And>s. imported_evidence_conflict env s sj = None"
    "reconcile_job env D ob i sj d = (r, sj', d')"
  shows "r = JobStays \<and> slot_kept sj sj'"
proof (cases "spec_of d i")
  case None
  then show ?thesis using assms(3) by (simp add: reconcile_job_def slot_kept_def)
next
  case (Some s)
  obtain m sj1 d1 where c: "cancel_killed env i s sj d = (m, sj1, d1)" by (metis prod_cases3)
  then have 1: "slot_kept sj sj1" using slot_kept_steps(4) [where sj = sj and env = env and i = i and spec = s and d = d] by simp
  show ?thesis
  proof (cases m)
    case None
    then show ?thesis using assms(2,3) Some c 1 by (simp add: reconcile_job_def)
  next
    case m: (Some spec)
    show ?thesis
    proof (cases "judge D ob (sj_job_id sj)")
      case (NotObserved reason)
      note eq = trans [OF sym [OF reconcile_job_eq(1) [OF Some assms(2) c [unfolded m] NotObserved]] assms(3)]
      then show ?thesis using 1 slot_kept_steps(1) [where sj = "noted ob sj1" and env = env and i = i and reason = reason and d = d1]
          slot_kept_steps(3) [of sj1 ob] by (auto intro: slot_kept_trans)
    next
      case (Seen ph)
      with assms(1) have "ph \<noteq> PhaseFinished" by auto
      note eq = trans [OF sym [OF reconcile_job_eq(3) [OF Some assms(2) c [unfolded m] Seen this]] assms(3)]
      then show ?thesis using 1 slot_kept_steps(2) [where sj = sj1 and ob = ob and env = env and i = i and spec = spec and ph = ph and
            detail = "map_of (ob_details ob) (sj_job_id sj)" and q = "map_of (ob_queued_reasons ob) (sj_job_id sj)" and d = "stamp_scheduler_poll_succeeded env i d1"]
        by (auto intro: slot_kept_trans)
    qed
  qed
qed

definition holds_entry :: "string \<Rightarrow> scheduler_job \<Rightarrow> daemon \<Rightarrow> bool" where
  "holds_entry i sj d \<longleftrightarrow> (\<exists>sj'. map_of (dm_scheduler_running d) i = Some sj' \<and> slot_kept sj sj')"

lemma entry_tables:
  "j \<noteq> i \<Longrightarrow> holds_entry i sj (track j x d) = holds_entry i sj d" "j \<noteq> i \<Longrightarrow> holds_entry i sj (untrack j d) = holds_entry i sj d"
  "slot_kept sj x \<Longrightarrow> holds_entry i sj (track i x d)"
  by (simp_all add: holds_entry_def track_def untrack_def map_of_update delete_conv')

lemma entry_same_table: "dm_scheduler_running d' = dm_scheduler_running d \<Longrightarrow> holds_entry i sj d' = holds_entry i sj d"
  by (simp add: holds_entry_def)

definition entry_in :: "string \<Rightarrow> scheduler_job \<Rightarrow> (string \<times> scheduler_job) list \<Rightarrow> bool" where
  "entry_in i sj items \<longleftrightarrow> list_all (\<lambda>(j, x). j = i \<longrightarrow> sj = x) items"

lemma reconcile_items_keep:
  assumes "i \<in> fst ` set items \<Longrightarrow> judge D ob (sj_job_id sj) \<noteq> Seen PhaseFinished"
    "\<And>s. imported_evidence_conflict env s sj = None" "entry_in i sj items" "holds_entry i sj d"
  shows "i \<notin> set (fst (snd (reconcile_items env D ob items d))) \<and> holds_entry i sj (snd (snd (reconcile_items env D ob items d)))"
  using assms(1,3,4)
proof (induction items arbitrary: d)
  case (Cons item items)
  obtain j x where item: "item = (j, x)" by fastforce
  obtain r x' d' where s: "reconcile_job env D ob j x d = (r, x', d')" by (metis prod_cases3)
  have t: "dm_scheduler_running d' = dm_scheduler_running d" using reconcile_job_table [of env D ob j x d] s by simp
  from entry_same_table [OF this] have h: "holds_entry i sj d'" using Cons.prems(3) by blast
  have IH: "i \<notin> set (fst (snd (reconcile_items env D ob items d))) \<and> holds_entry i sj (snd (snd (reconcile_items env D ob items d)))"
    if "holds_entry i sj d" for d by (rule Cons.IH [OF _ _ that]) (use Cons.prems in \<open>auto simp: entry_in_def\<close>)
  show ?case
  proof (cases "j = i")
    case True
    then have "x = sj" "judge D ob (sj_job_id sj) \<noteq> Seen PhaseFinished" using Cons.prems(1,2) item by (auto simp: entry_in_def)
    then have "r = JobStays" "slot_kept sj x'" using unjudged_stays [OF _ assms(2), of D ob i d r x' d'] s True by auto
    then show ?thesis using IH [OF entry_tables(3)] True item s by simp
  next
    case False
    have 1: "holds_entry i sj (track j x' d')" "holds_entry i sj (untrack j d')" using h False entry_tables(1,2) by simp_all
    obtain ok fs d2 where e: "reconcile_items env D ob items (track j x' d') = (ok, fs, d2)" by (metis prod_cases3)
    show ?thesis using False item s IH [OF 1(1)] IH [OF 1(2)] 1 e by (cases r) simp_all
  qed
qed simp

lemma stamp_items_keep: "entry_in i sj items \<Longrightarrow> holds_entry i sj d \<Longrightarrow> holds_entry i sj (stamp_items env reason items d)"
proof (induction items arbitrary: d)
  case (Cons item items)
  obtain j x where item: "item = (j, x)" by fastforce
  obtain x' d' where s: "stamp_scheduler_poll_failed env j reason x d = (x', d')" by fastforce
  have "dm_scheduler_running d' = dm_scheduler_running d" using steps_table(1) [of env j reason x d] s by simp
  from entry_same_table [OF this] have h: "holds_entry i sj d'" using Cons.prems(2) by blast
  have k: "slot_kept x x'" using slot_kept_steps(1) [where sj = x and env = env and i = j and reason = reason and d = d] s by simp
  have "holds_entry i sj (track j x' d')"
  proof (cases "j = i")
    case True
    then have "x = sj" using Cons.prems(1) item by (simp add: entry_in_def)
    then show ?thesis using k True entry_tables(3) by simp
  qed (use h entry_tables(1) in simp)
  moreover have "entry_in i sj items" using Cons.prems(1) by (simp add: entry_in_def)
  ultimately show ?case using Cons.IH item s by simp
qed simp

definition unproven :: "string \<times> scheduler_dialect \<times> (poll_error + poll_observation) \<Rightarrow> scheduler_job \<Rightarrow> bool" where
  "unproven poll sj \<longleftrightarrow> (case poll of (target, D, Inr ob) \<Rightarrow> target \<noteq> sj_target sj \<or> ob_poll_error ob \<noteq> None
      \<or> judge D ob (sj_job_id sj) \<noteq> Seen PhaseFinished | _ \<Rightarrow> True)"

lemma reconcile_target_keep:
  assumes "distinct (map fst table)" "map_of table i = Some sj" "\<And>s. imported_evidence_conflict env s sj = None"
    "unproven (target, D, Inr ob) sj" "holds_entry i sj d"
    "reconcile_target env D ob (filter (\<lambda>(i, sj). sj_target sj = target) table) d = (ok, finished, d')"
  shows "i \<notin> set finished \<and> holds_entry i sj d'"
proof -
  let ?items = "filter (\<lambda>(i, sj). sj_target sj = target) table"
  have one: "(i, x) \<in> set table \<Longrightarrow> sj = x" for x using assms(1,2) by (metis map_of_is_SomeI option.inject)
  then have e: "entry_in i sj ?items" by (auto simp: entry_in_def list_all_iff)
  have "judge D ob (sj_job_id sj) \<noteq> Seen PhaseFinished" if "i \<in> fst ` set ?items" "ob_poll_error ob = None"
    using that one assms(4) by (auto simp: unproven_def)
  then show ?thesis using assms(6) reconcile_items_keep [OF _ assms(3) e assms(5), of D ob] stamp_items_keep [OF e assms(5)]
    by (auto simp: reconcile_target_def split: if_splits)
qed

lemma reconcile_targets_keep:
  assumes "distinct (map fst table)" "map_of table i = Some sj" "\<And>s. imported_evidence_conflict env s sj = None"
    and "\<forall>poll \<in> set polls. unproven poll sj" "holds_entry i sj d"
  shows "i \<notin> set (fst (snd (reconcile_targets env polls table d))) \<and> holds_entry i sj (snd (snd (reconcile_targets env polls table d)))"
  using assms(4,5)
proof (induction polls arbitrary: d)
  case (Cons poll polls)
  obtain target D x where p: "poll = (target, D, x)" by (metis prod_cases3)
  show ?case
  proof (cases x)
    case (Inr ob)
    obtain ok finished d1 where s: "reconcile_target env D ob (filter (\<lambda>(i, sj). sj_target sj = target) table) d = (ok, finished, d1)" by (metis prod_cases3)
    have 1: "i \<notin> set finished" "holds_entry i sj d1" using reconcile_target_keep [OF assms(1-3) _ Cons.prems(2) s] Cons.prems(1) p Inr by auto
    obtain ok2 later d2 where e: "reconcile_targets env polls table d1 = (ok2, later, d2)" by (metis prod_cases3)
    show ?thesis using Cons.IH [OF _ 1(2)] Cons.prems(1) 1 p Inr s e by (cases ok) simp_all
  qed (use p Cons.prems in simp)
qed simp

lemma untrack_fold: "i \<notin> set finished \<Longrightarrow> holds_entry i sj d \<Longrightarrow> holds_entry i sj (fold untrack finished d)"
  by (induction finished arbitrary: d) (auto simp: entry_tables)

lemma unproven_job_stays:
  assumes "distinct (map fst (dm_scheduler_running d))" "map_of (dm_scheduler_running d) i = Some sj"
    "\<And>s. imported_evidence_conflict env s sj = None" "\<forall>poll \<in> set polls. unproven poll sj"
    "reconcile_scheduler_pass env polls d = (ok, d')"
  shows "holds_entry i sj d'"
proof -
  have "holds_entry i sj d" using assms(2) by (simp add: holds_entry_def slot_kept_def)
  from reconcile_targets_keep [OF assms(1-4) this] show ?thesis using assms(5)
    by (auto simp: reconcile_scheduler_pass_def untrack_fold split: prod.splits if_splits)
qed

section \<open>The proof that a Slurm job is over\<close>

lemma slurm_judged_end:
  assumes "observe_scheduler_dispatcher slurm_dialect run samples handles n = Inr ob" "ob_poll_error ob = None"
    "jid \<in> fst ` set handles" "judge slurm_dialect ob jid = Seen PhaseFinished"
  shows "(\<exists>m c refused. settles slurm_dialect run m c jid refused)
    \<and> (jid \<in> set (ob_explicitly_absent ob) \<and> (\<exists>m c. settles slurm_dialect run m c jid True)
       \<or> (\<exists>q. map_of (ob_details ob) jid = Some q \<and> phase_from_detail slurm_dialect q = Inr (Some PhaseFinished)))"
proof -
  have name: "sd_name slurm_dialect = ''slurm''" by (simp add: slurm_dialect_def)
  obtain ev n' where poll: "poll_with_evidence slurm_dialect run (map fst handles) n = (Inr ev, n')"
    and ob: "ob_phases ob = ev_phases ev" "ob_explicitly_absent ob = ev_explicitly_absent ev"
    using assms(1,2) by (auto simp: observe_scheduler_dispatcher_def Let_def split: prod.splits sum.splits if_splits)
  note s = poll_sound [OF name poll, unfolded sound_evidence_def]
  have "jid \<in> fst ` set (ev_phases ev)" using s assms(3) by auto
  then obtain ph where ph: "map_of (ev_phases ev) jid = Some ph" by (metis domD dom_map_of_conv_image_fst)
  moreover have fin: "ph = PhaseFinished" using assms(4) ph ob by (auto simp: judge_def Let_def split: if_splits)
  ultimately have evid: "settled_between slurm_dialect run n n' jid False \<or> jid \<in> set (ev_explicitly_absent ev)" using s by blast
  have absent: "jid \<in> set (ev_explicitly_absent ev) \<Longrightarrow> \<exists>m c. settles slurm_dialect run m c jid True"
    using s unfolding settled_between_def by blast
  have "jid \<in> set (ob_explicitly_absent ob) \<or> (\<exists>q. map_of (ob_details ob) jid = Some q \<and> phase_from_detail slurm_dialect q = Inr (Some PhaseFinished))"
    using assms(4) ph fin ob name
    by (auto simp: judge_def Let_def accounting_required_for_absent_def split: if_splits option.splits sum.splits)
  then show ?thesis using evid absent ob unfolding settled_between_def by metis
qed

text \<open>
  C21: on a Slurm target a job leaves the table, and its slot is given back, only on proof. Take a pass in which the target
  of the job was polled through \<open>squeue\<close> and \<open>sacct\<close>, whatever the host answered, and no imported operator evidence contradicted it. If afterwards the job is no longer
  tracked, or its allocation counts as finished where it did not before, then an answer of that poll settled its id, and
  in addition Slurm refused the id by name or the accounting record of the job is in a terminal state.
\<close>

theorem slurm_slot_needs_proof:
  assumes "distinct (map fst (dm_scheduler_running d))" "map_of (dm_scheduler_running d) i = Some sj"
    and "\<forall>s. imported_evidence_conflict env s sj = None" "sj_job_id sj \<in> fst ` set handles"
    and "\<forall>D x. (sj_target sj, D, x) \<in> set polls \<longrightarrow> D = slurm_dialect \<and> x = observe_scheduler_dispatcher slurm_dialect run samples handles n"
    and "reconcile_scheduler_pass env polls d = (ok, d')"
    and "map_of (dm_scheduler_running d') i = None
      \<or> (\<exists>sj'. map_of (dm_scheduler_running d') i = Some sj' \<and> sj_allocation_finished sj' \<and> \<not> sj_allocation_finished sj)"
  shows "(\<exists>m c refused. settles slurm_dialect run m c (sj_job_id sj) refused)
    \<and> (\<exists>ob. observe_scheduler_dispatcher slurm_dialect run samples handles n = Inr ob
       \<and> (sj_job_id sj \<in> set (ob_explicitly_absent ob) \<and> (\<exists>m c. settles slurm_dialect run m c (sj_job_id sj) True)
          \<or> (\<exists>q. map_of (ob_details ob) (sj_job_id sj) = Some q \<and> phase_from_detail slurm_dialect q = Inr (Some PhaseFinished))))"
proof -
  have "\<not> holds_entry i sj d'" using assms(7) by (auto simp: holds_entry_def slot_kept_def)
  then obtain poll where poll: "poll \<in> set polls" "\<not> unproven poll sj"
    using unproven_job_stays [OF assms(1,2) _ _ assms(6)] assms(3) by blast
  then obtain D ob where ob: "(sj_target sj, D, Inr ob) \<in> set polls" "ob_poll_error ob = None" "judge D ob (sj_job_id sj) = Seen PhaseFinished"
    by (auto simp: unproven_def split: prod.splits sum.splits)
  then have "D = slurm_dialect" "observe_scheduler_dispatcher slurm_dialect run samples handles n = Inr ob" using assms(5) by auto
  then show ?thesis using slurm_judged_end [OF _ ob(2) assms(4)] ob(3) by blast
qed

definition sample_reconcile :: "rat \<Rightarrow> reconcile_env" where
  "sample_reconcile now = \<lparr>rv_cluster = sample_cluster (\<lambda>_. id) (SubmitUnknown []), rv_clock = now, rv_attempted_at = ''2026'',
     rv_evidence_ok = True, rv_cancel_ok = (\<lambda>_. True), rv_marker = (\<lambda>_. Inr \<lparr>rn_returncode = 1, rn_stdout = [], rn_stderr = []\<rparr>),
     rv_fetch_busy = (\<lambda>_. False), rv_fetch = (\<lambda>_. FetchFailed), rv_local_marker = (\<lambda>_. None), rv_qstat_detail = (\<lambda>_. None),
     rv_diagnostic = id, rv_json_loads = (\<lambda>_. PyNone)\<rparr>"

definition sample_entry :: scheduler_job where
  "sample_entry = recovered_job (sample_scheduler_spec ''j'') ''7'' ''pbs''"

definition running_daemon :: daemon where
  "running_daemon = track ''j'' sample_entry (sample_daemon [sample_scheduler_spec ''j''\<lparr>js_state := RUNNING, js_scheduler_job_id := Some ''7''\<rparr>])"

definition sample_polls :: "(string \<times> scheduler_dialect \<times> (poll_error + poll_observation)) list" where
  "sample_polls = [(''pbs'', slurm_dialect, observe_scheduler_dispatcher slurm_dialect sample_runner (\<lambda>_. []) [(''7'', False)] 0)]"

lemma sample_reconcile_pass: "map_option sj_allocation_finished (map_of (dm_scheduler_running (snd (reconcile_scheduler_pass (sample_reconcile 0) sample_polls running_daemon))) ''j'') = Some True"
  by code_simp

theorem slurm_slot_needs_proof_witness: "\<exists>m c refused. settles slurm_dialect sample_runner m c ''7'' refused"
proof -
  obtain ok d' where s: "reconcile_scheduler_pass (sample_reconcile 0) sample_polls running_daemon = (ok, d')" by fastforce
  have e: "map_of (dm_scheduler_running running_daemon) ''j'' = Some sample_entry" "distinct (map fst (dm_scheduler_running running_daemon))"
    by (simp_all add: running_daemon_def track_def sample_daemon_def)
  have c: "\<forall>s. imported_evidence_conflict (sample_reconcile 0) s sample_entry = None"
    by (simp add: imported_evidence_conflict_def sample_reconcile_def sample_cluster_def)
  have p: "\<forall>D x. (sj_target sample_entry, D, x) \<in> set sample_polls \<longrightarrow> D = slurm_dialect
      \<and> x = observe_scheduler_dispatcher slurm_dialect sample_runner (\<lambda>_. []) [(''7'', False)] 0" by (simp add: sample_polls_def)
  have i: "sj_job_id sample_entry = ''7''" "\<not> sj_allocation_finished sample_entry" by (simp_all add: sample_entry_def recovered_job_def)
  have "map_of (dm_scheduler_running d') ''j'' = None \<or> (\<exists>sj'. map_of (dm_scheduler_running d') ''j'' = Some sj'
      \<and> sj_allocation_finished sj' \<and> \<not> sj_allocation_finished sample_entry)" using sample_reconcile_pass s i(2) by auto
  from slurm_slot_needs_proof [OF e(2,1) c _ p s this] show ?thesis using i(1) by simp
qed

section \<open>A finished job leaves\<close>

text \<open>The passes over one job until it leaves, with other writers between them.\<close>

fun passes :: "scheduler_dialect \<Rightarrow> string \<Rightarrow> (reconcile_env \<times> poll_observation) list \<Rightarrow> scheduler_job \<Rightarrow> daemon
    \<Rightarrow> job_result \<times> scheduler_job \<times> daemon" where
  "passes D i [] sj d = (JobStays, sj, d)"
| "passes D i ((env, ob) # ps) sj d = (case reconcile_job env D ob i sj (others_write (rv_start env) 60 d) of
      (JobStays, sj, d) \<Rightarrow> passes D i ps sj d
    | x \<Rightarrow> x)"

text \<open>
  A pass in which the job is seen finished and nothing of the daemon's own is in the way: the cluster answers, a transfer
  succeeds or fails but does not hang, and the marker reads as \<open>m\<close>.
\<close>

definition collectable :: "scheduler_dialect \<Rightarrow> string \<Rightarrow> string \<Rightarrow> int option \<Rightarrow> reconcile_env \<times> poll_observation \<Rightarrow> bool" where
  "collectable D i jid m p \<longleftrightarrow> (case p of (env, ob) \<Rightarrow> lawful env i \<and> judge D ob jid = Seen PhaseFinished
     \<and> (\<forall>s sj. imported_evidence_conflict env s sj = None) \<and> rv_cancel_ok env i \<and> \<not> rv_fetch_busy env i
     \<and> rv_fetch env i \<noteq> FetchWaiting \<and> exit_marker_code (rv_marker env i) = Inr m)"

abbreviation is_readable :: "string \<Rightarrow> daemon \<Rightarrow> bool" where "is_readable i \<equiv> row i (\<lambda>s. True)"

lemma readable: "is_readable i d \<longleftrightarrow> spec_of d i \<noteq> None" by (simp add: row_def)

lemma finish_ok: "lawful env i \<Longrightarrow> is_readable i d \<Longrightarrow> fst (finish_scheduler_job env i rc d)"
  using any_row.race [of env i d 54] by (simp add: finish_scheduler_job_def Let_def readable)

lemma honor_ok: "lawful env i \<Longrightarrow> is_readable i d \<Longrightarrow> fst (honor_scheduler_end_over_late_kill env D i q rc d) \<and> is_readable i (snd (honor_scheduler_end_over_late_kill env D i q rc d))"
  using any_row.race [of env i d 53] by (auto simp: honor_scheduler_end_over_late_kill_def Let_def readable split: option.split)

lemma marks_readable:
  assumes "lawful env i" "is_readable i d"
  shows "is_readable i (mark_scheduler_time_exceeded env i reason used limit d)" "is_readable i (mark_scheduler_abnormal_end env i st q rc d)"
  using assms by (auto simp: mark_scheduler_time_exceeded_def mark_scheduler_abnormal_end_def intro!: any_row.on_live_row_keeps)

text \<open>What the counters of an entry say about its collection.\<close>

definition progress :: "scheduler_job \<Rightarrow> string \<times> rat option \<times> int" where
  "progress sj = (sj_job_id sj, sj_marker_since sj, sj_fetch_misses sj)"

lemma progress_same:
  "progress (fst (stamp_scheduler_finishing env i spec sj d)) = progress sj" "progress (fst (stamp_retrying env n st i spec sj d)) = progress sj"
  "progress (noted ob sj) = progress sj" "progress (sj\<lparr>sj_allocation_finished := b\<rparr>) = progress sj" "progress (sj\<lparr>sj_term_qdeled := b\<rparr>) = progress sj"
  by (simp_all add: progress_def stamp_scheduler_finishing_def stamp_retrying_def written_def noted_def)

lemma fetch_progress:
  assumes "fetch_scheduler_results env i spec sj d = (outcome, sj', d')" "rv_fetch env i \<noteq> FetchWaiting" "progress sj = (jid, since, misses)"
  shows "outcome = Retry \<Longrightarrow> progress sj' = (jid, since, misses + 1) \<and> misses + 1 < SCHEDULER_FETCH_FAILURE_LIMIT"
  using assms progress_same(2) [of env 41 "''fetch_failed''" i spec "sj\<lparr>sj_fetch_misses := sj_fetch_misses sj + 1\<rparr>" d]
  by (auto simp: fetch_scheduler_results_def stamp_scheduler_fetch_failed_def progress_def Let_def split: fetch_answer.splits if_splits)

definition waits :: "reconcile_env \<Rightarrow> int option \<Rightarrow> scheduler_job \<Rightarrow> scheduler_job \<Rightarrow> bool" where
  "waits env m sj sj' \<longleftrightarrow> (case progress sj of (jid, since, misses) \<Rightarrow>
     let t = the_or (rv_clock env) since; since' = (if m = None then Some t else since) in
     m = None \<and> rv_clock env - t < SCHEDULER_FINISHED_MARKER_GRACE_SECONDS \<and> progress sj' = (jid, since', misses)
     \<or> progress sj' = (jid, since', misses + 1) \<and> misses + 1 < SCHEDULER_FETCH_FAILURE_LIMIT)"

lemma reap_by_marker_leaves:
  assumes "lawful env i" "is_readable i d" "rv_fetch env i \<noteq> FetchWaiting" "reap_by_marker env D i spec detail abnormal rc sj d = (r, sj', d')"
  shows "r = JobDone \<or> r = JobStays \<and> is_readable i d' \<and> waits env (Some rc) sj sj'"
proof -
  obtain outcome sj1 d1 where f: "fetch_scheduler_results env i spec sj d = (outcome, sj1, d1)" by (metis prod_cases3)
  have 1: "is_readable i d1" using any_row.fetch_keeps [OF assms(1,2), of spec sj] f by simp
  show ?thesis
  proof (cases "outcome = Retry")
    case True
    obtain jid since misses where p: "progress sj = (jid, since, misses)" by (metis prod_cases3)
    show ?thesis using assms(4) f True 1 fetch_progress [OF f assms(3) p True] p by (auto simp: reap_by_marker_def waits_def Let_def)
  next
    case False
    obtain sj2 d2 where s: "(if outcome = Fetched \<and> scheduler_state_in spec {''fetch_failed'', ''marker_probe_failed'', ''poll_failed''}
              then stamp_scheduler_finishing env i spec sj1 d1 else (sj1, d1)) = (sj2, d2)" by fastforce
    have 2: "is_readable i d2" using any_row.finishing_keeps [OF assms(1) 1, of spec sj1] s 1 by (auto split: if_splits)
    obtain over used limit where w: "scheduler_walltime_exceeded spec detail None = (over, used, limit)" by (metis prod_cases3)
    have 3: "is_readable i (if over then mark_scheduler_time_exceeded env i (scheduler_walltime_reason used limit False) used limit d2 else d2)" (is "is_readable i ?d3")
      using marks_readable(1) [OF assms(1) 2] 2 by simp
    obtain ok d4 where e: "(case (abnormal, detail) of (Some st, Some q) \<Rightarrow> (True, mark_scheduler_abnormal_end env i st q (Some rc) ?d3)
        | (None, Some q) \<Rightarrow> honor_scheduler_end_over_late_kill env D i q rc ?d3 | _ \<Rightarrow> (True, ?d3)) = (ok, d4)" by fastforce
    have 4: "ok \<and> is_readable i d4" using e 3 marks_readable(2) [OF assms(1) 3] honor_ok [OF assms(1) 3]
      by (cases abnormal; cases detail) (auto simp del: if_split, (metis fst_conv snd_conv)+)
    then have "fst (finish_scheduler_job env i rc d4)" using finish_ok [OF assms(1)] by blast
    moreover have "reap_by_marker env D i spec detail abnormal rc sj d
        = (case finish_scheduler_job env i rc d4 of (ok, d) \<Rightarrow> (if ok then JobDone else JobFault, sj2, d))"
      using False f s w e 4 by (cases outcome; cases over; cases abnormal; cases detail) (simp_all add: reap_by_marker_def Let_def)
    ultimately show ?thesis using assms(4) by (auto split: prod.splits)
  qed
qed

lemma reap_without_marker_ok:
  assumes "lawful env i" "is_readable i d"
  shows "fst (reap_without_marker env D i spec detail abnormal d)"
  using finish_ok [OF assms(1)] marks_readable [OF assms] honor_ok [OF assms]
  by (auto simp: reap_without_marker_def Let_def case_prod_beta split: option.split)

lemma await_marker_leaves:
  assumes "lawful env i" "is_readable i d" "rv_fetch env i \<noteq> FetchWaiting" "await_marker env D i spec detail abnormal sj d = (r, sj', d')"
  shows "r = JobDone \<or> r = JobStays \<and> is_readable i d' \<and> waits env None sj sj'"
proof (cases "is_terminal spec")
  case False
  let ?since = "the_or (rv_clock env) (sj_marker_since sj)"
  let ?sj = "sj\<lparr>sj_marker_since := Some ?since, sj_marker_misses := sj_marker_misses sj + 1\<rparr>"
  obtain sj1 d1 where s: "stamp_scheduler_finishing env i spec ?sj d = (sj1, d1)" by fastforce
  have 1: "is_readable i d1" using any_row.finishing_keeps [OF assms(1,2), of spec ?sj] s by simp
  have p1: "progress sj1 = (sj_job_id sj, Some ?since, sj_fetch_misses sj)" using progress_same(1) [of env i spec ?sj d] s by (simp add: progress_def)
  obtain outcome sj2 d2 where f: "fetch_scheduler_results env i spec sj1 d1 = (outcome, sj2, d2)" by (metis prod_cases3)
  have 2: "is_readable i d2" using any_row.fetch_keeps [OF assms(1) 1, of spec sj1] f by simp
  have 3: "fst (finish_scheduler_job env i rc (case (abnormal, detail) of (Some st, Some q) \<Rightarrow> mark_scheduler_abnormal_end env i st q (Some rc) d2 | _ \<Rightarrow> d2))" for rc
    by (rule finish_ok [OF assms(1)]) (use 2 marks_readable(2) [OF assms(1) 2] in \<open>auto split: option.split\<close>)
  have sj: "progress sj = (sj_job_id sj, sj_marker_since sj, sj_fetch_misses sj)" by (simp add: progress_def)
  consider (early) "rv_clock env - ?since < SCHEDULER_FINISHED_MARKER_GRACE_SECONDS"
    | (again) "\<not> rv_clock env - ?since < SCHEDULER_FINISHED_MARKER_GRACE_SECONDS" "outcome = Retry"
    | (over) "\<not> rv_clock env - ?since < SCHEDULER_FINISHED_MARKER_GRACE_SECONDS" "outcome \<noteq> Retry" by blast
  then show ?thesis
  proof cases
    case early
    then show ?thesis using assms(4) False s 1 p1 sj by (auto simp: await_marker_def Let_def waits_def)
  next
    case again
    then show ?thesis using assms(4) False s f 2 fetch_progress [OF f assms(3) p1] sj by (auto simp: await_marker_def Let_def waits_def)
  next
    case over
    obtain ok d3 where e: "(case rv_local_marker env i of
          Some rc \<Rightarrow> finish_scheduler_job env i rc (case (abnormal, detail) of (Some st, Some q) \<Rightarrow> mark_scheduler_abnormal_end env i st q (Some rc) d2 | _ \<Rightarrow> d2)
        | None \<Rightarrow> reap_without_marker env D i spec detail abnormal d2) = (ok, d3)" by fastforce
    have "fst (case rv_local_marker env i of
          Some rc \<Rightarrow> finish_scheduler_job env i rc (case (abnormal, detail) of (Some st, Some q) \<Rightarrow> mark_scheduler_abnormal_end env i st q (Some rc) d2 | _ \<Rightarrow> d2)
        | None \<Rightarrow> reap_without_marker env D i spec detail abnormal d2)"
      by (cases "rv_local_marker env i") (simp_all only: option.case 3 reap_without_marker_ok [OF assms(1) 2])
    then have "ok" unfolding e by simp
    then show ?thesis using over assms(4) False s f e by (cases outcome) (simp_all add: await_marker_def Let_def)
  qed
qed (use assms(4) in \<open>simp add: await_marker_def\<close>)

lemma collect_finished_leaves:
  assumes "lawful env i" "is_readable i d" "rv_fetch env i \<noteq> FetchWaiting" "\<not> rv_fetch_busy env i" "exit_marker_code (rv_marker env i) = Inr m"
    "\<And>q e. detail = Some q \<Longrightarrow> abnormal_termination_from_detail D q \<noteq> Inl e" "collect_finished env D i spec detail sj d = (r, sj', d')"
  shows "r = JobDone \<or> r = JobStays \<and> is_readable i d' \<and> waits env m sj sj'"
proof -
  let ?sj = "sj\<lparr>sj_allocation_finished := True\<rparr>"
  obtain sj1 d1 where s: "(if scheduler_state_in spec {''fetch_failed'', ''marker_probe_failed'', ''artifacts_unavailable''}
      then (?sj, d) else stamp_scheduler_finishing env i spec ?sj d) = (sj1, d1)" by fastforce
  have 1: "is_readable i d1" using any_row.finishing_keeps [OF assms(1,2), of spec ?sj] s assms(2) by (auto split: if_splits)
  have p: "progress sj1 = progress sj" using s progress_same(1) [of env i spec ?sj d] progress_same(4) by (auto split: if_splits)
  obtain abnormal where a: "(case detail of None \<Rightarrow> Inr None | Some q \<Rightarrow> abnormal_termination_from_detail D q) = Inr abnormal"
    using assms(6) by (cases detail) (auto, metis obj_sumE)
  have w: "waits env m sj1 x = waits env m sj x" for x using p by (simp add: waits_def)
  show ?thesis
  proof (cases m)
    case None
    then have "await_marker env D i spec detail abnormal sj1 d1 = (r, sj', d')" using assms(4,5,7) s a by (simp add: collect_finished_def Let_def)
    from await_marker_leaves [OF assms(1) 1 assms(3) this] show ?thesis using w None by simp
  next
    case (Some rc)
    then have "reap_by_marker env D i spec detail abnormal rc sj1 d1 = (r, sj', d')" using assms(4,5,7) s a by (simp add: collect_finished_def Let_def)
    from reap_by_marker_leaves [OF assms(1) 1 assms(3) this] show ?thesis using w Some by simp
  qed
qed

context dialect_contract
begin

text \<open>A job that is seen finished has a verdict: the accounting state was mapped, or there is none.\<close>

lemma judged_has_verdict:
  assumes "judge D ob jid = Seen PhaseFinished" "map_of (ob_details ob) jid = Some q"
  shows "abnormal_termination_from_detail D q \<noteq> Inl e"
proof
  assume a: "abnormal_termination_from_detail D q = Inl e"
  then have v: "qd_raw_state q \<noteq> []" "sd_abnormal_termination D (qd_raw_state q) = Inl e"
    by (auto simp: abnormal_termination_from_detail_def split: if_splits)
  have "sd_name D = ''slurm''" using verdict_known [OF v(2)] by blast
  then obtain p where "phase_from_detail D q = Inr (Some p)" using assms
    by (auto simp: judge_def Let_def accounting_required_for_absent_def split: if_splits option.splits sum.splits)
  then show False using v verdict_known [OF v(2)] by (auto simp: phase_from_detail_def)
qed

text \<open>The two verdicts never meet: what the scheduler disowned did not end by itself.\<close>

lemma disowned_not_own_end: "abnormal_termination_from_detail D q = Inr (Some st) \<Longrightarrow> \<not> ended_on_its_own_from_detail D q"
  using verdicts_exclusive by (auto simp: abnormal_termination_from_detail_def ended_on_its_own_from_detail_def split: if_splits)

lemma collectable_pass:
  assumes "collectable D i jid m (env, ob)" "is_readable i d" "sj_job_id sj = jid" "reconcile_job env D ob i sj d = (r, sj', d')"
  shows "r = JobDone \<or> r = JobStays \<and> is_readable i d' \<and> waits env m sj sj'"
proof -
  have c: "lawful env i" "judge D ob (sj_job_id sj) = Seen PhaseFinished" "\<And>s. imported_evidence_conflict env s sj = None" "rv_cancel_ok env i"
    "\<not> rv_fetch_busy env i" "rv_fetch env i \<noteq> FetchWaiting" "exit_marker_code (rv_marker env i) = Inr m"
    using assms(1,3) by (auto simp: collectable_def)
  obtain s where s: "spec_of d i = Some s" using assms(2) by (auto simp: row_def)
  obtain s1 where s1: "spec_of (others_write (rv_start env) 47 d) i = Some s1" "is_terminal s \<Longrightarrow> js_state s1 = js_state s"
    using lawful_writes [OF c(1) s, of 47] by metis
  have "\<exists>spec sj1 d1. cancel_killed env i s sj d = (Some spec, sj1, d1) \<and> progress sj1 = progress sj"
  proof (cases "is_terminal s \<and> \<not> sj_term_qdeled sj")
    case True
    then have "is_terminal s1" using s1(2) by (simp add: is_terminal_def)
    then show ?thesis using True s1(1) c(4) by (simp add: cancel_killed_def Let_def progress_same)
  qed (auto simp: cancel_killed_def)
  then obtain spec sj1 d1 where k: "cancel_killed env i s sj d = (Some spec, sj1, d1)" "progress sj1 = progress sj" by blast
  have 1: "is_readable i d1" using any_row.cancel_killed_keeps [OF c(1) assms(2), of s sj] k by simp
  note eq = trans [OF sym [OF reconcile_job_eq(2) [OF s c(3) k(1) c(2)]] assms(4)]
  have "r = JobDone \<or> r = JobStays \<and> is_readable i d' \<and> waits env m (noted ob sj1) sj'"
    by (rule collect_finished_leaves [OF c(1) any_row.succeeded_keeps [OF c(1) 1] c(6,5,7) _ eq]) (rule judged_has_verdict [OF c(2)])
  then show ?thesis using k(2) progress_same(3) [of ob sj1] by (simp add: waits_def)
qed

text \<open>Once the grace is over only failed transfers keep a job, and those are counted.\<close>

lemma passes_after_grace:
  assumes "\<forall>p \<in> set ps. collectable D i jid m p \<and> t + SCHEDULER_FINISHED_MARKER_GRACE_SECONDS \<le> rv_clock (fst p)"
    "is_readable i d" "progress sj = (jid, since, misses)" "m = None \<Longrightarrow> since = Some t"
    "0 \<le> misses" "SCHEDULER_FETCH_FAILURE_LIMIT \<le> misses + int (length ps)" "ps \<noteq> []"
  shows "fst (passes D i ps sj d) = JobDone"
  using assms
proof (induction ps arbitrary: sj d misses since)
  case (Cons p ps)
  obtain env ob where p: "p = (env, ob)" by fastforce
  have l: "lawful env i" using Cons.prems(1) p by (simp add: collectable_def)
  obtain r sj' d' where s: "reconcile_job env D ob i sj (others_write (rv_start env) 60 d) = (r, sj', d')" by (metis prod_cases3)
  have "r = JobDone \<or> r = JobStays \<and> is_readable i d' \<and> waits env m sj sj'"
    by (rule collectable_pass [OF _ any_row.race [OF l Cons.prems(2)] _ s]) (use Cons.prems(1,3) p in \<open>auto simp: progress_def\<close>)
  then show ?case
  proof
    assume r: "r = JobStays \<and> is_readable i d' \<and> waits env m sj sj'"
    have clock: "t + SCHEDULER_FINISHED_MARKER_GRACE_SECONDS \<le> rv_clock env" using Cons.prems(1) p by simp
    then have w: "progress sj' = (jid, since, misses + 1)" "misses + 1 < SCHEDULER_FETCH_FAILURE_LIMIT"
      using r Cons.prems(3,4) by (auto simp: waits_def Let_def split: if_splits)
    then have "ps \<noteq> []" using Cons.prems(6) by auto
    then show ?thesis using Cons.IH [OF _ _ w(1) Cons.prems(4), of d'] Cons.prems(1,5,6) r s p by simp
  qed (use s p in simp)
qed simp

lemma passes_leave:
  assumes "\<forall>p \<in> set ((env, ob) # ps). collectable D i (sj_job_id sj) m p"
    "\<forall>p \<in> set ps. rv_clock env + SCHEDULER_FINISHED_MARKER_GRACE_SECONDS \<le> rv_clock (fst p)"
    "spec_of d i \<noteq> None" "sj_marker_since sj = None" "0 \<le> sj_fetch_misses sj" "SCHEDULER_FETCH_FAILURE_LIMIT \<le> int (length ps)"
  shows "fst (passes D i ((env, ob) # ps) sj d) = JobDone"
proof -
  have l: "lawful env i" using assms(1) by (simp add: collectable_def)
  have rd: "is_readable i d" using assms(3) by (simp add: readable)
  obtain r sj' d' where s: "reconcile_job env D ob i sj (others_write (rv_start env) 60 d) = (r, sj', d')" by (metis prod_cases3)
  have "r = JobDone \<or> r = JobStays \<and> is_readable i d' \<and> waits env m sj sj'"
    by (rule collectable_pass [OF _ any_row.race [OF l rd] refl s]) (use assms(1) in simp)
  then show ?thesis
  proof
    assume r: "r = JobStays \<and> is_readable i d' \<and> waits env m sj sj'"
    obtain misses where w: "progress sj' = (sj_job_id sj, (if m = None then Some (rv_clock env) else None), misses)" "0 \<le> misses"
      using r assms(4,5) by (auto simp: waits_def Let_def progress_def split: if_splits)
    have "ps \<noteq> []" using assms(6) by (auto simp: SCHEDULER_FETCH_FAILURE_LIMIT_def)
    then show ?thesis using passes_after_grace [where t = "rv_clock env" and ps = ps and d = d' and i = i and m = m, OF _ _ w(1) _ w(2)] assms(1,2,6) w(2) r s by simp
  qed (use s in simp)
qed

end


definition absent_observation :: poll_observation where
  "absent_observation = \<lparr>ob_phases = [(''7'', PhaseFinished)], ob_explicitly_absent = [''7''], ob_details = [], ob_queued_reasons = [],
     ob_poll_error = None, ob_accounting_error = None\<rparr>"

lemma sample_lawful: "lawful (sample_reconcile now) i"
  by (simp add: lawful_def sample_reconcile_def sample_cluster_def sample_start_env_def)


section \<open>Examples\<close>

definition marked_reconcile :: reconcile_env where
  "marked_reconcile = (sample_reconcile 0)\<lparr>rv_marker := (\<lambda>_. Inr \<lparr>rn_returncode = 0, rn_stdout = ''0'', rn_stderr = []\<rparr>), rv_fetch := (\<lambda>_. FetchDone)\<rparr>"

definition accounted_observation :: "string \<Rightarrow> poll_observation" where
  "accounted_observation st = absent_observation\<lparr>ob_explicitly_absent := [], ob_details := [(''7'', (new_detail st)\<lparr>qd_exit_code := Some 0\<rparr>)]\<rparr>"

lemma marked_lawful: "lawful marked_reconcile i"
  by (simp add: lawful_def marked_reconcile_def sample_reconcile_def sample_cluster_def sample_start_env_def)

lemma running_row: "spec_of running_daemon ''j'' = Some (sample_scheduler_spec ''j''\<lparr>js_state := RUNNING, js_scheduler_job_id := Some ''7''\<rparr>)"
  by (simp add: running_daemon_def spec_of_def track_def sample_daemon_def sample_scheduler_spec_def sample_spec_def new_job_spec_def)

text \<open>The exit marker of a job that ran out of memory reads 0.\<close>

theorem disowned_never_completed_witness:
  "row_state (snd (snd (reconcile_job marked_reconcile slurm_dialect (accounted_observation ''OUT_OF_MEMORY'') ''j'' sample_entry running_daemon))) ''j'' \<noteq> Some COMPLETED"
proof -
  have q: "map_of (ob_details (accounted_observation ''OUT_OF_MEMORY'')) (sj_job_id sample_entry) = Some ((new_detail ''OUT_OF_MEMORY'')\<lparr>qd_exit_code := Some 0\<rparr>)"
    by (simp add: accounted_observation_def absent_observation_def sample_entry_def recovered_job_def)
  have a: "abnormal_termination_from_detail slurm_dialect ((new_detail ''OUT_OF_MEMORY'')\<lparr>qd_exit_code := Some 0\<rparr>) = Inr (Some ''OUT_OF_MEMORY'')" by code_simp
  obtain r sj' d' where s: "reconcile_job marked_reconcile slurm_dialect (accounted_observation ''OUT_OF_MEMORY'') ''j'' sample_entry running_daemon = (r, sj', d')"
    by (metis prod_cases3)
  show ?thesis using disowned_never_completed [OF marked_lawful running_row _ q a s] s by simp
qed

text \<open>A job that was killed after it had completed.\<close>

definition late_killed_daemon :: daemon where
  "late_killed_daemon = write_row (sample_scheduler_spec ''j''\<lparr>js_state := KILLED, js_scheduler_job_id := Some ''7'', js_failure_reason := Some DEFAULT_KILL_REASON\<rparr>) ''j'' running_daemon"

theorem terminal_label_kept_witness:
  "\<exists>q. map_of (ob_details (accounted_observation ''COMPLETED'')) ''7'' = Some q \<and> ended_on_its_own_from_detail slurm_dialect q"
proof -
  define s where "s = sample_scheduler_spec ''j''\<lparr>js_state := KILLED, js_scheduler_job_id := Some ''7'', js_failure_reason := Some DEFAULT_KILL_REASON\<rparr>"
  have row: "spec_of late_killed_daemon ''j'' = Some s" by (simp add: late_killed_daemon_def s_def)
  have t: "is_terminal s" by (simp add: s_def is_terminal_def TERMINAL_STATES_def)
  obtain r sj' d' where e: "reconcile_job marked_reconcile slurm_dialect (accounted_observation ''COMPLETED'') ''j'' sample_entry late_killed_daemon = (r, sj', d')"
    by (metis prod_cases3)
  have "row_state (snd (snd (reconcile_job marked_reconcile slurm_dialect (accounted_observation ''COMPLETED'') ''j'' sample_entry late_killed_daemon))) ''j'' = Some COMPLETED"
    by code_simp
  then have "row_state d' ''j'' \<noteq> Some (js_state s)" using e by (simp add: s_def)
  then show ?thesis using terminal_label_kept [OF marked_lawful row t e] by (auto simp: sample_entry_def recovered_job_def)
qed

text \<open>
  A Torque server that does not answer for longer than the grace: the job, which runs on, is recorded as ended by the
  queue and is no longer tracked.
\<close>

lemma torque_outage_aborts_live_job:
  "let env = (\<lambda>now. (sample_reconcile now)\<lparr>rv_fetch := \<lambda>_. FetchDone\<rparr>);
       down = (\<lambda>n argv. Inr \<lparr>rn_returncode = 153, rn_stdout = [], rn_stderr = ''qstat: cannot connect to server''\<rparr>);
       ob = (case observe_scheduler_dispatcher torque_dialect down (\<lambda>_. []) [(''7'', False)] 0 of Inr ob \<Rightarrow> ob | Inl e \<Rightarrow> absent_observation);
       result = passes torque_dialect ''j'' [(env 0, ob), (env 130, ob)] sample_entry running_daemon in
   fst result = JobDone \<and> row_state (snd (snd result)) ''j'' = Some ABORTED_BY_QUEUE"
  by code_simp

end
