(* ===== verification/Spec2Isabelle.thy ===== *)
theory Spec2Isabelle
  imports Job_Spec Broker_Placer_Safety Drain Job_Queue Scheduler_Admission Broker_Completion Dispatch_Safety Scheduler_Reconcile
begin

text \<open>
  A model of the core of vq, a job queue for compute hosts, and its correctness theorems. All sources named
  below are under \<open>src/src/vq/\<close>.

  \<^bold>\<open>The program.\<close> A user submits a job specification (\<open>spec.py\<close>, checked by \<open>submit.py\<close>). A broker accepts
  it into a durable store (\<open>broker_store.py\<close>), and its placement pass (\<open>broker_placement.py\<close>) decides on a host
  with the capacity decision of \<open>overview.py\<close>, reserves room there, transfers the job to the host's daemon and
  records the acceptance. The daemon (\<open>daemon.py\<close>) keeps the jobs of its host as spec files: it gates
  them on their dependencies (\<open>admission.py\<close>), on the drain policy (\<open>drain.py\<close>) and on the budgets of external
  schedulers (\<open>scheduler_admission.py\<close>), starts them in a fair order (locally, or on a cluster through a two-phase
  submit guarded by \<open>scheduler_start_fence.py\<close>), reaps them and retries the failed ones. What Torque and Slurm are told
  and answer is the business of \<open>scheduler_dialect.py\<close>; \<open>scheduler_dispatch.py\<close> polls them in batches, and a pass of
  the daemon reconciles its rows with what the poll shows. The daemon publishes what it has free; \<open>broker_capacity.py\<close> and
  \<open>broker_target.py\<close> carry that to the broker as evidence, and \<open>broker_completion.py\<close> may re-rank the admitted hosts by
  the expected completion time that the planner of \<open>placement_policy.py\<close> computes.

  \<^bold>\<open>The theories.\<close>

  \<^item> \<open>VQ_Prelude\<close>: JSON values, Python floats, the result monad, decimal rendering and shared list lemmas.
  \<^item> \<open>Job_Spec\<close> (\<open>spec.py\<close>): the record \<open>job_spec\<close> with every field of \<open>JobSpec\<close>, the job states, the field
    validators and the exit code rendering. Job ids are safe path components, tag validation is canonical,
    destination directories are distinct, the rendering of exit codes is injective.
  \<^item> \<open>Broker_Decision\<close> (\<open>overview.py\<close>): \<open>broker_host_blocker\<close>, \<open>place_broker_job\<close>, \<open>recommend_host\<close>. The chosen host
    is eligible and least in rank, the blockers and the ranking partition the hosts, the order of the
    snapshots does not matter.
  \<^item> \<open>Broker_Record\<close>, \<open>Broker_Codec\<close> (\<open>broker_store.py\<close>): intents, attempts, records, their consistency check and
    their JSON form, with the round trip of \<open>record_json\<close> and \<open>parse_record\<close> and the well-formedness of what the
    parser accepts. The field checks of \<open>submit.py\<close> that an intent relies on are in \<open>Broker_Record\<close>.
  \<^item> \<open>Broker_Store\<close>, \<open>Broker_Lifecycle\<close>, \<open>Broker_Steps\<close>, \<open>Broker_Safety\<close>: the store as a map of record files and
    payloads, every operation of \<open>BrokerStore\<close>, the step relation \<open>store_step\<close> in which any process may call any
    operation at any time, and the invariants of all reachable stores: accepted jobs are kept, at most one
    attempt is live, a replayed transfer is identical, stale updates are refused, a cancelled job is not sent,
    and no state is a dead end.
  \<^item> \<open>Broker_Placer\<close>, \<open>Broker_Placer_Safety\<close> (\<open>broker_placement.py\<close>): the pass of \<open>BrokerPlacer\<close>. Other writers
    take steps of \<open>store_step\<close> at every call-out. Only durable requests are sent, the debit of outstanding charges
    makes placements fit, the queue is strict FIFO, and recovery returns interrupted jobs to holding.
  \<^item> \<open>Drain\<close> (\<open>drain.py\<close>): the drain document, the scheduler drain leases, every operation that changes them and
    the effective policy. It is the union of both; a lane hold survives every operation that does not
    lift that hold; an owned drain is released exactly; lease mutations are idempotent.
  \<^item> \<open>Job_Queue\<close> (\<open>daemon.py\<close>, \<open>admission.py\<close>): spec files of a daemon and the operations that end, fail or
    retry a job. Terminal states are final, the dependency cascade fails exactly the doomed jobs, retries are
    bounded, delayed and clean.
  \<^item> \<open>Scheduler_Admission\<close> (\<open>scheduler_admission.py\<close>, \<open>daemon.py\<close>): budgets and pacing per canonical
    scheduler target, and the visiting order of a dispatch pass.

  \<^item> \<open>Broker_Evidence\<close> (\<open>broker_capacity.py\<close>, \<open>broker_target.py\<close>, \<open>daemon.py\<close>): the admission snapshot a daemon
    publishes, the answer a target samples from it and the snapshot the broker derives. An eligible target had room
    and no hold when it published; anything malformed is closed evidence.
  \<^item> \<open>Placement_Policy\<close>, \<open>Broker_Completion\<close> (\<open>placement_policy.py\<close>, \<open>broker_completion.py\<close>): targets, hard
    requirements, the ranking, waits from history, live overlays, and the re-ranker of the broker over them, which
    never adds a host the capacity decision refused. An integer too large for a float is the error value
    \<open>float_overflow\<close>.
  \<^item> \<open>Daemon_Start\<close>, \<open>Start_Fence\<close>, \<open>Scheduler_Submit\<close> (\<open>daemon.py\<close>, \<open>managed_container.py\<close>,
    \<open>scheduler_start_fence.py\<close>): the start of a job. Each locked section of the code is one step, and the other
    writers are a parameter that may rewrite the row in every gap between two sections. A local start leaves one
    recorded process or none; the operator's fence and the job's own start exclude each other; no attempt is
    submitted to a cluster twice; an allocation that may exist keeps a slot.
  \<^item> \<open>Daemon_Reap\<close> (\<open>daemon.py\<close>): children, terminal survivors and orphans, the escalation from SIGTERM to SIGKILL and
    the finish of a job. A pass is atomic with respect to other writers, who write between passes. Capacity is
    held until the processes are gone, a killed job ends, and every SIGKILL is justified.
  \<^item> \<open>Daemon_Dispatch\<close>, \<open>Dispatch_Safety\<close> (\<open>daemon.py\<close>, \<open>build_job.py\<close>): one dispatch pass with all its gates and exits.
    The caps on local processes and on scheduler slots hold however each start ends, and only admitted jobs are
    started. The theorems assume that other writers do not change the resources a job asks for during its start.
  \<^item> \<open>Py_Text\<close>, \<open>Scheduler_Dialect\<close> (\<open>scheduler_dialect.py\<close>): Python's line, word and case functions on ASCII text, and
    the two dialects: directives, job scripts, commands, and the parsers of submit, poll, accounting and detail
    output. Poll rows and wall times round trip, the accounting parser is independent of row order, and a clean
    exit is reported only on complete evidence. Fractions of seconds and memory sizes are exact numbers.
  \<^item> \<open>Scheduler_Poll\<close> (\<open>scheduler_dispatch.py\<close>, \<open>daemon.py\<close>): the batched polls of a target, the isolation of refused
    ids, exit codes, cancellation, and the observation the daemon keeps. The remote runner is the parameter \<open>run n argv\<close>,
    the answer to the \<open>n\<close>-th command. Batches are exact and bounded, and a Slurm poll takes no failure for the end of a
    job; a Torque poll does (\<open>torque_outage_reads_finished\<close>).
  \<^item> \<open>Scheduler_Reconcile\<close> (\<open>daemon.py\<close>, \<open>listing.py\<close>, \<open>kill.py\<close>): \<open>_reconcile_scheduler_pass\<close> per job, per target and
    as a whole, with the stamps on a row, the collection of results and the terminal classification. Other processes
    write in numbered gaps between the locked sections. On Slurm a slot is given back only on proof, a job the scheduler
    disowned is never completed, terminal labels stand but for the documented correction of a late kill, and a finished
    job leaves the table. Writes succeed, and a transfer thread is an answer.

  \<^bold>\<open>Interfaces.\<close> Locales state what a component relies on: \<open>record_transition\<close> for the lawful changes of a
  record of the store, \<open>hold_keeper\<close> for the drain operations, \<open>terminal_keeper\<close> for the queue operations,
  \<open>slot_budget\<close> for admissions, \<open>fleet_overlay\<close> and \<open>reranker\<close> for the completion-time policy, \<open>dialect_contract\<close> for
  the scheduler dialects, which both Torque and Slurm meet, and \<open>row_keeper\<close> for what the steps of the reconciliation
  keep of a row. Each is interpreted on the model's own definitions in the theory that provides them.

  \<^bold>\<open>Representation.\<close> Python integers are \<open>int\<close>; times and durations are rationals, with the non-finite floats as
  extra constructors where the code tests for them; dictionaries are association lists; every raise is a value
  of an error type. Digests, clocks, remote answers and the other processes are parameters. There is no fuel:
  every loop of the model is structural or has a termination proof. Retry loops over conflicts carry the bound
  the code has.

  \<^bold>\<open>Not modelled.\<close> File locks, fsync, directory descriptors and crash points inside one atomic write: an operation
  of a store is one step. JSON text and pydantic's coercion: the model starts from parsed values. The multi-user mode
  of the daemon (quotas, submit bindings), log files, notifications, cgroup scopes and container images. The transport
  of scheduler commands, the staging of a workspace, the back-off of polls and the threads of background polls and
  transfers. Command line, administration, fleet rollout, configuration
  files and SSH: they are I/O around the parts above.
\<close>

end
